(* ===== verification/Prelude.thy ===== *)
theory Prelude
  imports Main "HOL-Library.Word" "HOL-Library.Char_ord" "HOL-Library.List_Lexorder"
    "HOL-Library.Sublist" "HOL-Library.AList" "HOL-Library.Monad_Syntax"
begin

text \<open>
  What every component shares: the model's machine integers, byte strings and the
  operations of Rust's standard library the sources use on them (\<open>to_string\<close>,
  \<open>parse\<close>, \<open>strip_prefix\<close>, \<open>trim\<close>, \<open>binary_search\<close> with \<open>insert\<close>, \<open>sort\<close>,
  \<open>BTreeMap\<close>), each with the laws the component proofs use.

  A Rust \<open>String\<close> is its UTF-8 bytes, so a \<open>string\<close> here is a list of bytes, \<open>length\<close>
  counts bytes as \<open>str::len\<close> does, and the lexicographic order of lists over the byte
  order of characters is the order of \<open>str\<close>. A \<open>u64\<close> is a 64-bit word: \<open>+\<close> wraps, as
  it does in the release profile.
\<close>

named_theorems lookup_simps "what a lookup returns after an update of a keyed container"
named_theorems sortedness "sortedness and duplicate-freedom kept by an operation"

type_synonym u64 = "64 word"
type_synonym u32 = "32 word"

lemma find_SomeD: "find P xs = Some x \<Longrightarrow> P x \<and> x \<in> set xs"
  by (induction xs) (auto split: if_splits)

text \<open>\<open>Iterator::find_map\<close>.\<close>

fun find_map :: "('a \<Rightarrow> 'b option) \<Rightarrow> 'a list \<Rightarrow> 'b option" where
  "find_map f [] = None"
| "find_map f (x # xs) = (case f x of Some y \<Rightarrow> Some y | None \<Rightarrow> find_map f xs)"

lemma find_map_None: "find_map f xs = None \<longleftrightarrow> (\<forall>x \<in> set xs. f x = None)"
  by (induction xs) (auto split: option.split)

lemma find_map_Some:
  "find_map f xs = Some y \<Longrightarrow>
     \<exists>us x vs. xs = us @ x # vs \<and> (\<forall>u \<in> set us. f u = None) \<and> f x = Some y"
proof (induction xs)
  case (Cons a xs)
  show ?case
  proof (cases "f a")
    case None
    with Cons obtain us x vs where "xs = us @ x # vs" "\<forall>u \<in> set us. f u = None" "f x = Some y"
      by auto
    with None have "a # xs = (a # us) @ x # vs \<and> (\<forall>u \<in> set (a # us). f u = None) \<and> f x = Some y"
      by simp
    then show ?thesis by blast
  next
    case (Some b)
    with Cons.prems have "a # xs = [] @ a # xs \<and> f a = Some y" by simp
    then show ?thesis by fastforce
  qed
qed simp

section \<open>Strings\<close>

definition strip_prefix :: "string \<Rightarrow> string \<Rightarrow> string option" where
  "strip_prefix p s = (if prefix p s then Some (drop (length p) s) else None)"

definition strip_suffix :: "string \<Rightarrow> string \<Rightarrow> string option" where
  "strip_suffix p s = (if suffix p s then Some (take (length s - length p) s) else None)"

lemma strip_prefix_append [simp]: "strip_prefix p (p @ s) = Some s"
  by (simp add: strip_prefix_def)

lemma strip_prefix_Some: "strip_prefix p s = Some r \<longleftrightarrow> s = p @ r"
  by (auto simp: strip_prefix_def prefix_def)

lemma strip_suffix_Some: "strip_suffix p s = Some r \<longleftrightarrow> s = r @ p"
  by (auto simp: strip_suffix_def suffix_def)

definition to_ascii_lowercase_char :: "char \<Rightarrow> char" where
  "to_ascii_lowercase_char c =
     (let n = of_char c :: nat in if 65 \<le> n \<and> n \<le> 90 then char_of (n + 32) else c)"

definition to_ascii_lowercase :: "string \<Rightarrow> string" where
  "to_ascii_lowercase = map to_ascii_lowercase_char"

definition eq_ignore_ascii_case :: "string \<Rightarrow> string \<Rightarrow> bool" where
  "eq_ignore_ascii_case a b \<longleftrightarrow> to_ascii_lowercase a = to_ascii_lowercase b"

lemma to_ascii_lowercase_char_idem [simp]:
  "to_ascii_lowercase_char (to_ascii_lowercase_char c) = to_ascii_lowercase_char c"
  by (auto simp: to_ascii_lowercase_char_def Let_def)

lemma to_ascii_lowercase_idem [simp]:
  "to_ascii_lowercase (to_ascii_lowercase s) = to_ascii_lowercase s"
  by (simp add: to_ascii_lowercase_def)

lemma length_to_ascii_lowercase [simp]: "length (to_ascii_lowercase s) = length s"
  by (simp add: to_ascii_lowercase_def)

text \<open>
  \<open>str::trim\<close> removes every leading and trailing character of Unicode's
  \<open>White_Space\<close>: the six ASCII ones, and the others by their UTF-8 bytes.
\<close>

definition whitespace :: "string list" where
  "whitespace =
     map (map char_of)
       ([[9], [10], [11], [12], [13], [32], [0xC2, 0x85], [0xC2, 0xA0], [0xE1, 0x9A, 0x80]]
        @ map (\<lambda>b. [0xE2, 0x80, b])
            [0x80, 0x81, 0x82, 0x83, 0x84, 0x85, 0x86, 0x87, 0x88, 0x89, 0x8A, 0xA8, 0xA9, 0xAF]
        @ [[0xE2, 0x81, 0x9F], [0xE3, 0x80, 0x80 :: nat]])"

function strip_all :: "string list \<Rightarrow> string \<Rightarrow> string" where
  "strip_all ws s =
     (case find (\<lambda>w. w \<noteq> [] \<and> prefix w s) ws of
        None \<Rightarrow> s
      | Some w \<Rightarrow> strip_all ws (drop (length w) s))"
  by pat_completeness auto
termination
proof (relation "measure (\<lambda>(ws, s). length s)", simp)
  fix ws s w
  assume "find (\<lambda>w. w \<noteq> [] \<and> prefix w s) ws = Some w"
  then have "w \<noteq> []" and "prefix w s"
    by (auto simp: find_Some_iff)
  then show "((ws, drop (length w) s), ws, s) \<in> measure (\<lambda>(ws, s). length s)"
    by (auto simp: prefix_def)
qed

declare strip_all.simps [simp del]

lemma strip_all_None: "find (\<lambda>w. w \<noteq> [] \<and> prefix w s) ws = None \<Longrightarrow> strip_all ws s = s"
  by (subst strip_all.simps) simp

lemma strip_all_Some:
  "find (\<lambda>w. w \<noteq> [] \<and> prefix w s) ws = Some w \<Longrightarrow> strip_all ws s = strip_all ws (drop (length w) s)"
  by (subst strip_all.simps) simp

definition trim_start :: "string \<Rightarrow> string" where
  "trim_start = strip_all whitespace"

definition trim_end :: "string \<Rightarrow> string" where
  "trim_end s = rev (strip_all (map rev whitespace) (rev s))"

definition trim :: "string \<Rightarrow> string" where
  "trim s = trim_end (trim_start s)"

text \<open>A string no listed prefix starts is left alone, and the result always is such a string.\<close>

definition no_prefix :: "string list \<Rightarrow> string \<Rightarrow> bool" where
  "no_prefix ws s \<longleftrightarrow> (\<forall>w \<in> set ws. w \<noteq> [] \<longrightarrow> \<not> prefix w s)"

lemma strip_all_no_prefix: "no_prefix ws (strip_all ws s)"
proof (induction ws s rule: strip_all.induct)
  case (1 ws s)
  show ?case
  proof (cases "find (\<lambda>w. w \<noteq> [] \<and> prefix w s) ws")
    case None
    then show ?thesis
      by (auto simp: strip_all_None no_prefix_def find_None_iff)
  next
    case (Some w)
    with "1.IH" [OF Some] show ?thesis by (simp add: strip_all_Some)
  qed
qed

lemma strip_all_id: "no_prefix ws s \<Longrightarrow> strip_all ws s = s"
  by (rule strip_all_None) (auto simp: no_prefix_def find_None_iff)

lemma strip_all_suffix: "suffix (strip_all ws s) s"
proof (induction ws s rule: strip_all.induct)
  case (1 ws s)
  show ?case
  proof (cases "find (\<lambda>w. w \<noteq> [] \<and> prefix w s) ws")
    case None
    then show ?thesis by (simp add: strip_all_None)
  next
    case (Some w)
    have "suffix (strip_all ws (drop (length w) s)) s"
      using "1.IH" [OF Some] suffix_drop suffix_order.trans by blast
    with Some show ?thesis by (simp add: strip_all_Some)
  qed
qed

lemma no_prefix_take: "no_prefix ws s \<Longrightarrow> prefix t s \<Longrightarrow> no_prefix ws t"
  by (auto simp: no_prefix_def dest: prefix_order.trans)

lemma trim_no_prefix: "no_prefix whitespace (trim s)"
proof -
  have "prefix (trim s) (trim_start s)"
    using strip_all_suffix [of "map rev whitespace" "rev (trim_start s)"]
    by (simp add: trim_def trim_end_def suffix_to_prefix)
  then show ?thesis
    using strip_all_no_prefix [of whitespace s] no_prefix_take by (simp add: trim_start_def)
qed

lemma trim_no_suffix: "no_prefix (map rev whitespace) (rev (trim s))"
  by (simp add: trim_def trim_end_def strip_all_no_prefix)

lemma trim_id:
  "no_prefix whitespace s \<Longrightarrow> no_prefix (map rev whitespace) (rev s) \<Longrightarrow> trim s = s"
  by (simp add: trim_def trim_end_def trim_start_def strip_all_id)

lemma trim_idem [simp]: "trim (trim s) = trim s"
  by (intro trim_id trim_no_prefix trim_no_suffix)

text \<open>A string that starts and ends with a visible ASCII character is already trimmed.\<close>

definition is_graphic :: "char \<Rightarrow> bool" where
  "is_graphic c \<longleftrightarrow> 33 \<le> (of_char c :: nat) \<and> of_char c \<le> (126 :: nat)"

lemma whitespace_not_graphic:
  "list_all (\<lambda>w. w \<noteq> [] \<and> \<not> is_graphic (hd w) \<and> \<not> is_graphic (last w)) whitespace"
  by code_simp

lemma trim_graphic:
  assumes "s \<noteq> []" and "is_graphic (hd s)" and "is_graphic (last s)"
  shows "trim s = s"
proof (rule trim_id)
  show "no_prefix whitespace s"
    using whitespace_not_graphic assms
    by (fastforce simp: no_prefix_def list_all_iff prefix_def)
  show "no_prefix (map rev whitespace) (rev s)"
    using whitespace_not_graphic assms
    by (fastforce simp: no_prefix_def list_all_iff suffix_to_prefix [symmetric] suffix_def)
qed

text \<open>Lowercasing neither makes nor removes whitespace, so trimming commutes with it.\<close>

definition case_free :: "char \<Rightarrow> bool" where
  "case_free c \<longleftrightarrow> \<not> (65 \<le> (of_char c :: nat) \<and> of_char c \<le> (90 :: nat))
     \<and> \<not> (97 \<le> (of_char c :: nat) \<and> of_char c \<le> (122 :: nat))"

lemma to_ascii_lowercase_char_case_free:
  "case_free x \<Longrightarrow> x = to_ascii_lowercase_char c \<longleftrightarrow> x = c"
  by (auto simp: case_free_def to_ascii_lowercase_char_def Let_def)

lemma prefix_to_ascii_lowercase:
  "list_all case_free w \<Longrightarrow> prefix w (map to_ascii_lowercase_char s) \<longleftrightarrow> prefix w s"
proof (induction w arbitrary: s)
  case (Cons x w)
  then show ?case by (cases s) (simp_all add: to_ascii_lowercase_char_case_free)
qed simp

lemma whitespace_case_free: "list_all (list_all case_free) whitespace"
  by code_simp

lemma no_prefix_to_ascii_lowercase:
  "list_all (list_all case_free) ws \<Longrightarrow> no_prefix ws s \<Longrightarrow> no_prefix ws (to_ascii_lowercase s)"
  by (auto simp: no_prefix_def list_all_iff to_ascii_lowercase_def
      dest: prefix_to_ascii_lowercase [unfolded list_all_iff, THEN iffD1, rotated])

lemma trim_to_ascii_lowercase_trim [simp]:
  "trim (to_ascii_lowercase (trim s)) = to_ascii_lowercase (trim s)"
proof (rule trim_id)
  show "no_prefix whitespace (to_ascii_lowercase (trim s))"
    by (rule no_prefix_to_ascii_lowercase [OF whitespace_case_free trim_no_prefix])
  have rev: "list_all (list_all case_free) (map rev whitespace)"
    using whitespace_case_free by (simp add: list_all_iff)
  show "no_prefix (map rev whitespace) (rev (to_ascii_lowercase (trim s)))"
    using no_prefix_to_ascii_lowercase [OF rev trim_no_suffix [of s]]
    by (simp add: to_ascii_lowercase_def rev_map)
qed

section \<open>Numbers as strings\<close>

definition digit_char :: "nat \<Rightarrow> char" where
  "digit_char d = (if d < 10 then char_of (48 + d) else char_of (87 + d))"

definition dec_value :: "char \<Rightarrow> nat option" where
  "dec_value c = (let n = of_char c in if 48 \<le> n \<and> n \<le> (57::nat) then Some (n - 48) else None)"

text \<open>The digits of a number without leading zeros, as \<open>to_string\<close> and \<open>{:x}\<close> print it.\<close>

fun radix :: "nat \<Rightarrow> nat \<Rightarrow> string" where
  "radix b n =
     (if b < 2 \<or> n < b then [digit_char n] else radix b (n div b) @ [digit_char (n mod b)])"

declare radix.simps [simp del]

definition pad0 :: "nat \<Rightarrow> string \<Rightarrow> string" where
  "pad0 w s = replicate (w - length s) CHR ''0'' @ s"

fun dec_acc :: "nat \<Rightarrow> string \<Rightarrow> nat option" where
  "dec_acc a [] = Some a"
| "dec_acc a (c # cs) = (case dec_value c of None \<Rightarrow> None | Some d \<Rightarrow> dec_acc (10 * a + d) cs)"

definition parse_digits :: "string \<Rightarrow> nat option" where
  "parse_digits s = (if s = [] then None else dec_acc 0 s)"

text \<open>
  \<open>str::parse\<close> of an unsigned integer: an optional \<open>+\<close>, at least one digit, and a value
  below the type's bound.
\<close>

definition parse_uint :: "nat \<Rightarrow> string \<Rightarrow> nat option" where
  "parse_uint bound s =
     (case parse_digits (case s of c # cs \<Rightarrow> if c = CHR ''+'' then cs else s | [] \<Rightarrow> []) of
        None \<Rightarrow> None
      | Some n \<Rightarrow> if n < bound then Some n else None)"

text \<open>\<open>str::parse\<close> of an \<open>i64\<close>: a sign of either kind is accepted.\<close>

definition parse_i64 :: "string \<Rightarrow> int option" where
  "parse_i64 s =
     (case s of
        c # cs \<Rightarrow>
          if c = CHR ''-'' then
            (case parse_digits cs of
               None \<Rightarrow> None
             | Some n \<Rightarrow> if int n \<le> 2 ^ 63 then Some (- int n) else None)
          else map_option int (parse_uint (2 ^ 63) s)
      | [] \<Rightarrow> None)"

definition u64_str :: "u64 \<Rightarrow> string" where
  "u64_str w = radix 10 (unat w)"

definition parse_u64 :: "string \<Rightarrow> u64 option" where
  "parse_u64 s = map_option of_nat (parse_uint (2 ^ 64) s)"

definition u32_str :: "u32 \<Rightarrow> string" where
  "u32_str w = radix 10 (unat w)"

definition parse_u32 :: "string \<Rightarrow> u32 option" where
  "parse_u32 s = map_option of_nat (parse_uint (2 ^ 32) s)"

text \<open>The same digits at a fixed width, by recursion on the width.\<close>

fun fixed :: "nat \<Rightarrow> nat \<Rightarrow> nat \<Rightarrow> string" where
  "fixed b 0 n = []"
| "fixed b (Suc w) n = fixed b w (n div b) @ [digit_char (n mod b)]"

lemma length_fixed [simp]: "length (fixed b w n) = w"
  by (induction w arbitrary: n) auto

lemma fixed_zero: "fixed b w 0 = replicate w (CHR ''0'')"
proof (induction w)
  case (Suc w)
  have "char_of (48::nat) = CHR ''0''" by code_simp
  with Suc show ?case by (simp add: digit_char_def replicate_append_same)
qed simp

lemma pad0_snoc: "pad0 (Suc w) (xs @ [c]) = pad0 w xs @ [c]"
  by (simp add: pad0_def)

lemma pad0_radix:
  assumes "2 \<le> b" and "n < b ^ w" and "0 < w"
  shows "pad0 w (radix b n) = fixed b w n"
  using assms(2,3)
proof (induction w arbitrary: n)
  case 0
  then show ?case by simp
next
  case (Suc w)
  show ?case
  proof (cases "n < b")
    case True
    then show ?thesis
      by (simp add: radix.simps [of b n] pad0_def fixed_zero)
  next
    case False
    with Suc.prems assms(1) have "n div b < b ^ w" and "0 < w"
      by (auto simp: less_mult_imp_div_less mult.commute intro: Suc_lessI gr0I)
    then have "pad0 w (radix b (n div b)) = fixed b w (n div b)"
      by (rule Suc.IH)
    with False assms(1) show ?thesis
      by (simp add: radix.simps [of b n] pad0_snoc)
  qed
qed

lemma dec_value_digit_char: "d < 10 \<Longrightarrow> dec_value (digit_char d) = Some d"
  by (simp add: dec_value_def digit_char_def)

lemma dec_acc_append:
  "dec_acc a (xs @ ys) = (case dec_acc a xs of None \<Rightarrow> None | Some a' \<Rightarrow> dec_acc a' ys)"
  by (induction xs arbitrary: a) (auto split: option.split)

lemma radix_not_Nil [simp]: "radix b n \<noteq> []"
  by (subst radix.simps) simp

lemma dec_acc_radix: "dec_acc 0 (radix 10 n) = Some n"
proof (induction n rule: less_induct)
  case (less n)
  show ?case
  proof (cases "n < 10")
    case True
    then show ?thesis by (simp add: radix.simps [of 10 n] dec_value_digit_char)
  next
    case False
    with less [of "n div 10"] show ?thesis
      by (simp add: radix.simps [of 10 n] dec_acc_append dec_value_digit_char)
  qed
qed

lemma parse_digits_radix [simp]: "parse_digits (radix 10 n) = Some n"
  by (simp add: parse_digits_def dec_acc_radix)

lemma dec_acc_fixed: "dec_acc a (fixed 10 w n) = Some (a * 10 ^ w + n mod 10 ^ w)"
proof (induction w arbitrary: n)
  case 0
  then show ?case by simp
next
  case (Suc w)
  have "n mod (10 * 10 ^ w) = 10 * (n div 10 mod 10 ^ w) + n mod 10"
    by (rule mod_mult2_eq)
  with Suc show ?case
    by (simp add: dec_acc_append dec_value_digit_char algebra_simps)
qed

lemma parse_digits_no_sign:
  "parse_digits s = Some n \<Longrightarrow> \<exists>c cs. s = c # cs \<and> c \<noteq> CHR ''+'' \<and> c \<noteq> CHR ''-''"
  by (cases s) (auto simp: parse_digits_def dec_value_def Let_def split: option.splits if_splits)

lemma parse_uint_digits:
  "parse_digits s = Some n \<Longrightarrow> parse_uint bound s = (if n < bound then Some n else None)"
  by (frule parse_digits_no_sign) (auto simp: parse_uint_def)

lemma parse_i64_digits:
  assumes "parse_digits s = Some n" and "n < 2 ^ 63"
  shows "parse_i64 s = Some (int n)"
proof -
  obtain c cs where s: "s = c # cs" "c \<noteq> CHR ''+''" "c \<noteq> CHR ''-''"
    using parse_digits_no_sign [OF assms(1)] by blast
  with assms show ?thesis
    by (simp add: parse_i64_def parse_uint_digits)
qed

lemma parse_u64_str [simp]: "parse_u64 (u64_str w) = Some w"
  using unsigned_less [of w, where 'a = nat]
  by (simp add: parse_u64_def u64_str_def parse_uint_digits [OF parse_digits_radix])

lemma parse_u32_str [simp]: "parse_u32 (u32_str w) = Some w"
  using unsigned_less [of w, where 'a = nat]
  by (simp add: parse_u32_def u32_str_def parse_uint_digits [OF parse_digits_radix])

lemma u64_str_inject [simp]: "u64_str a = u64_str b \<longleftrightarrow> a = b"
  by (metis option.inject parse_u64_str)

lemma parse_digits_fixed:
  "n < 10 ^ w \<Longrightarrow> 0 < w \<Longrightarrow> parse_digits (fixed 10 w n) = Some n"
  by (cases w) (auto simp: parse_digits_def dec_acc_fixed simp del: fixed.simps
      simp flip: length_0_conv)

section \<open>The order of strings\<close>

lemma append_less_append:
  fixes xs ys :: "'a::linorder list"
  assumes "length xs = length ys"
  shows "xs @ us < ys @ vs \<longleftrightarrow> xs < ys \<or> xs = ys \<and> us < vs"
  using assms by (induction xs ys rule: list_induct2) auto

lemma digit_char_less: "d < e \<Longrightarrow> e < 16 \<Longrightarrow> digit_char d < digit_char e"
  by (auto simp: digit_char_def less_char_def)

lemma fixed_less:
  assumes "2 \<le> b" and "b \<le> 16" and "m < n" and "n < b ^ w"
  shows "fixed b w m < fixed b w n"
  using assms(3,4)
proof (induction w arbitrary: m n)
  case 0
  then show ?case by simp
next
  case (Suc w)
  have bound: "n div b < b ^ w"
    using Suc.prems by (simp add: less_mult_imp_div_less mult.commute)
  consider "m div b < n div b" | "m div b = n div b" "m mod b < n mod b"
    using Suc.prems(1) assms(1)
    by (metis div_le_mono le_neq_implies_less mod_mult_div_eq nat_add_left_cancel_less
        less_imp_le_nat add.commute)
  then show ?case
  proof cases
    case 1
    with Suc.IH bound show ?thesis by (simp add: append_less_append)
  next
    case 2
    have "n mod b < 16"
      using assms(1,2) mod_less_divisor [of b n] by linarith
    with 2 show ?thesis by (simp add: append_less_append digit_char_less)
  qed
qed

section \<open>Sorted vectors\<close>

abbreviation strictly_sorted :: "'a::linorder list \<Rightarrow> bool" where
  "strictly_sorted \<equiv> sorted_wrt (<)"

text \<open>
  \<open>slice::binary_search\<close> by its contract on a sorted slice: \<open>Inr\<close> the index of the
  element, or \<open>Inl\<close> the index where inserting it keeps the order.
\<close>

definition binary_search :: "'a::linorder list \<Rightarrow> 'a \<Rightarrow> nat + nat" where
  "binary_search xs x =
     (if x \<in> set xs then Inr (length (takeWhile (\<lambda>y. y \<noteq> x) xs))
      else Inl (length (takeWhile (\<lambda>y. y < x) xs)))"

definition vec_insert :: "nat \<Rightarrow> 'a \<Rightarrow> 'a list \<Rightarrow> 'a list" where
  "vec_insert i x xs = take i xs @ x # drop i xs"

text \<open>The idiom \<open>if let Err(i) = v.binary_search(x) { v.insert(i, x) }\<close>.\<close>

definition insert_absent :: "'a::linorder \<Rightarrow> 'a list \<Rightarrow> 'a list" where
  "insert_absent x xs =
     (case binary_search xs x of Inr _ \<Rightarrow> xs | Inl i \<Rightarrow> vec_insert i x xs)"

lemma insert_absent_eq:
  "insert_absent x xs =
     (if x \<in> set xs then xs
      else takeWhile (\<lambda>y. y < x) xs @ x # dropWhile (\<lambda>y. y < x) xs)"
  by (simp add: insert_absent_def binary_search_def vec_insert_def takeWhile_eq_take [symmetric]
      dropWhile_eq_drop [symmetric])

lemma set_insert_absent [simp]: "set (insert_absent x xs) = insert x (set xs)"
proof (cases "x \<in> set xs")
  case False
  have "set xs = set (takeWhile (\<lambda>y. y < x) xs) \<union> set (dropWhile (\<lambda>y. y < x) xs)"
    by (simp only: set_append [symmetric] takeWhile_dropWhile_id)
  with False show ?thesis by (simp add: insert_absent_eq)
qed (auto simp: insert_absent_eq)

lemma length_insert_absent:
  "length (insert_absent x xs) = (if x \<in> set xs then length xs else Suc (length xs))"
proof -
  have "length xs = length (takeWhile (\<lambda>y. y < x) xs) + length (dropWhile (\<lambda>y. y < x) xs)"
    by (simp only: length_append [symmetric] takeWhile_dropWhile_id)
  then show ?thesis by (simp add: insert_absent_eq)
qed

lemma strictly_sorted_insert_absent [sortedness, simp, intro]:
  assumes "strictly_sorted xs"
  shows "strictly_sorted (insert_absent x xs)"
proof (cases "x \<in> set xs")
  case True
  with assms show ?thesis by (simp add: insert_absent_eq)
next
  case False
  have "strictly_sorted (takeWhile (\<lambda>y. y < x) xs @ dropWhile (\<lambda>y. y < x) xs)"
    using assms by (simp only: takeWhile_dropWhile_id)
  then have parts: "strictly_sorted (takeWhile (\<lambda>y. y < x) xs)"
    "strictly_sorted (dropWhile (\<lambda>y. y < x) xs)"
    "\<forall>y \<in> set (takeWhile (\<lambda>y. y < x) xs). \<forall>z \<in> set (dropWhile (\<lambda>y. y < x) xs). y < z"
    by (auto simp only: sorted_wrt_append)
  have above: "\<forall>z \<in> set (dropWhile (\<lambda>y. y < x) xs). x < z"
  proof (cases "dropWhile (\<lambda>y. y < x) xs")
    case Nil
    show ?thesis by (simp only: Nil list.set(1) ball_empty)
  next
    case (Cons z zs)
    then have "\<not> z < x" and "z \<in> set xs"
      using hd_dropWhile [of "\<lambda>y. y < x" xs] set_dropWhileD [of z "\<lambda>y. y < x" xs] by auto
    with False have "x < z" by (metis linorder_neqE)
    with parts(2) Cons show ?thesis by (auto intro: less_trans)
  qed
  from parts above False show ?thesis
    by (auto simp: insert_absent_eq sorted_wrt_append dest: set_takeWhileD)
qed

lemma strictly_sorted_filter [sortedness, simp, intro]:
  "strictly_sorted xs \<Longrightarrow> strictly_sorted (filter P xs)"
  by (rule sorted_wrt_filter)

lemma strictly_sorted_sort [sortedness]: "distinct xs \<Longrightarrow> strictly_sorted (sort xs)"
  by (simp add: strict_sorted_iff)

lemma strictly_sorted_distinct: "strictly_sorted xs \<Longrightarrow> distinct xs"
  by (simp add: strict_sorted_iff)

section \<open>BTreeMap\<close>

text \<open>
  A \<open>BTreeMap\<close> is its entries in key order, one for each key; equal maps are equal values.
\<close>

fun entries_insert :: "'k::linorder \<Rightarrow> 'v \<Rightarrow> ('k \<times> 'v) list \<Rightarrow> ('k \<times> 'v) list" where
  "entries_insert k v [] = [(k, v)]"
| "entries_insert k v ((k', v') # m) =
     (if k = k' then (k, v) # m
      else if k < k' then (k, v) # (k', v') # m
      else (k', v') # entries_insert k v m)"

definition entries_remove :: "'k \<Rightarrow> ('k \<times> 'v) list \<Rightarrow> ('k \<times> 'v) list" where
  "entries_remove k m = filter (\<lambda>e. fst e \<noteq> k) m"

lemma map_of_entries_insert: "map_of (entries_insert k v m) = (map_of m)(k \<mapsto> v)"
  by (induction m) auto

lemma map_of_entries_remove: "map_of (entries_remove k m) = (map_of m)(k := None)"
  by (induction m) (auto simp: entries_remove_def)

lemma fst_set_entries_insert: "fst ` set (entries_insert k v m) = insert k (fst ` set m)"
  by (induction k v m rule: entries_insert.induct) (simp_all add: insert_commute)

lemma sorted_entries_insert [sortedness]:
  "strictly_sorted (map fst m) \<Longrightarrow> strictly_sorted (map fst (entries_insert k v m))"
proof (induction m)
  case (Cons e m)
  obtain k' v' where e: "e = (k', v')" by (cases e)
  have "set (map fst (entries_insert k v m)) = insert k (set (map fst m))"
    by (simp only: set_map fst_set_entries_insert)
  with Cons show ?case by (force simp: e)
qed simp

lemma sorted_entries_remove [sortedness]:
  "strictly_sorted (map fst m) \<Longrightarrow> strictly_sorted (map fst (entries_remove k m))"
  by (induction m) (auto simp: entries_remove_def)

typedef (overloaded) ('k::linorder, 'v) btree_map =
  "{m :: ('k \<times> 'v) list. strictly_sorted (map fst m)}"
  morphisms bt_entries Abs_btree_map
  by (rule exI [of _ "[]"]) simp

setup_lifting type_definition_btree_map

lift_definition bt_empty :: "('k::linorder, 'v) btree_map" is "[]"
  by simp

lift_definition bt_insert :: "'k::linorder \<Rightarrow> 'v \<Rightarrow> ('k, 'v) btree_map \<Rightarrow> ('k, 'v) btree_map"
  is entries_insert by (rule sorted_entries_insert)

lift_definition bt_remove :: "'k::linorder \<Rightarrow> ('k, 'v) btree_map \<Rightarrow> ('k, 'v) btree_map"
  is entries_remove by (rule sorted_entries_remove)

definition bt_get :: "('k::linorder, 'v) btree_map \<Rightarrow> 'k \<rightharpoonup> 'v" where
  "bt_get m = map_of (bt_entries m)"

definition bt_of_list :: "('k::linorder \<times> 'v) list \<Rightarrow> ('k, 'v) btree_map" where
  "bt_of_list xs = fold (\<lambda>e. bt_insert (fst e) (snd e)) xs bt_empty"

lemma bt_entries_sorted [sortedness, simp]: "strictly_sorted (map fst (bt_entries m))"
  using bt_entries [of m] by simp

lemma bt_get_empty [lookup_simps, simp]: "bt_get bt_empty = Map.empty"
  by (simp add: bt_get_def bt_empty.rep_eq)

lemma bt_get_insert [lookup_simps, simp]: "bt_get (bt_insert k v m) = (bt_get m)(k \<mapsto> v)"
  by (simp add: bt_get_def bt_insert.rep_eq map_of_entries_insert)

lemma bt_get_remove [lookup_simps, simp]: "bt_get (bt_remove k m) = (bt_get m)(k := None)"
  by (simp add: bt_get_def bt_remove.rep_eq map_of_entries_remove)

lemma sorted_entries_unique:
  assumes "strictly_sorted (map fst xs)" and "strictly_sorted (map fst ys)"
    and "map_of xs = map_of ys"
  shows "xs = ys"
proof -
  have "set (map fst xs) = set (map fst ys)"
    using assms(3) by (simp flip: dom_map_of_conv_image_fst)
  then have keys: "map fst xs = map fst ys"
    using assms(1,2) strict_sorted_equal by blast
  have entries: "zs = map (\<lambda>k. (k, the (map_of zs k))) (map fst zs)"
    if "strictly_sorted (map fst zs)" for zs :: "('a \<times> 'b) list"
  proof -
    have "map ((\<lambda>k. (k, the (map_of zs k))) \<circ> fst) zs = zs"
      using strictly_sorted_distinct [OF that] by (intro map_idI) (auto simp: map_of_is_SomeI)
    then show ?thesis by simp
  qed
  show ?thesis
    using entries [OF assms(1)] entries [OF assms(2)] keys assms(3) by simp
qed

lemma bt_eqI: "bt_get a = bt_get b \<Longrightarrow> a = b"
  using sorted_entries_unique [of "bt_entries a" "bt_entries b"]
  by (simp add: bt_get_def bt_entries_inject)

lemma bt_of_list_entries [simp]: "bt_of_list (bt_entries m) = m"
proof (rule bt_eqI)
  have "bt_get (fold (\<lambda>e. bt_insert (fst e) (snd e)) xs acc) = bt_get acc ++ map_of (rev xs)"
    for xs :: "('a \<times> 'b) list" and acc
    by (induction xs arbitrary: acc) (auto simp: fun_eq_iff map_add_def split: option.split)
  then have "bt_get (bt_of_list (bt_entries m)) = map_of (rev (bt_entries m))"
    by (simp add: bt_of_list_def)
  also have "\<dots> = map_of (bt_entries m)"
    using strictly_sorted_distinct [OF bt_entries_sorted [of m]]
    by (intro map_of_inject_set [THEN iffD2]) (auto simp: rev_map [symmetric])
  finally show "bt_get (bt_of_list (bt_entries m)) = bt_get m"
    by (simp add: bt_get_def)
qed

end
