(* ===== verification/Domain.thy ===== *)
theory Domain
  imports Prelude
begin

text \<open>
  The mailbox domain of \<open>crates/mailbox/src/lib.rs\<close>: the caps, the identifiers, the
  stored message and its parts, and the two string helpers of that file. Every struct is
  a record whose fields carry the struct's short name (\<open>msg_labels\<close> is \<open>MailMessage.labels\<close>),
  since fields of several structs share their Rust names.

  \<open>serde_json::Value\<close> is the datatype \<open>json\<close>; a number is its text.
\<close>

section \<open>Stored attribute values\<close>

text \<open>\<open>serde_dynamo::AttributeValue\<close>, the variants the stored structs use.\<close>

datatype attribute_value =
    AvS string
  | AvN string
  | AvSs "string list"
  | AvBool bool
  | AvNull
  | AvL "attribute_value list"
  | AvM "(string \<times> attribute_value) list"

datatype json =
    JNull | JBool bool | JNumber string | JString string | JArray "json list"
  | JObject "(string \<times> json) list"

section \<open>Caps\<close>

definition MESSAGE_USER_LABEL_CAP :: nat where "MESSAGE_USER_LABEL_CAP = 20"
definition THREAD_USER_LABEL_CAP :: nat where "THREAD_USER_LABEL_CAP = 20"
definition HEADER_VALUE_MAX :: nat where "HEADER_VALUE_MAX = 998"
definition REFERENCES_MAX_BYTES :: nat where "REFERENCES_MAX_BYTES = HEADER_VALUE_MAX"
definition THREAD_ATTACHMENT_SUMMARIES :: nat where "THREAD_ATTACHMENT_SUMMARIES = 20"

section \<open>Identifiers\<close>

text \<open>
  Every constructor of \<open>InboxId\<close>, deserialization included, canonicalizes; the type is
  the set of canonical strings.
\<close>

definition inbox_canon :: "string \<Rightarrow> string" where
  "inbox_canon value = to_ascii_lowercase (trim value)"

lemma inbox_canon_idem [simp]: "inbox_canon (inbox_canon s) = inbox_canon s"
  by (simp add: inbox_canon_def)

typedef inbox_id = "{s. inbox_canon s = s}"
  morphisms inbox_str Abs_inbox_id
  by (rule exI [of _ "inbox_canon []"]) simp

definition inbox_new :: "string \<Rightarrow> inbox_id" where
  "inbox_new value = Abs_inbox_id (inbox_canon value)"

lemma inbox_str_new [simp]: "inbox_str (inbox_new v) = inbox_canon v"
  by (simp add: inbox_new_def Abs_inbox_id_inverse)

lemma inbox_new_str [simp]: "inbox_new (inbox_str i) = i"
  using inbox_str [of i] by (simp add: inbox_new_def inbox_str_inverse)

lemma inbox_str_inject [simp]: "inbox_str a = inbox_str b \<longleftrightarrow> a = b"
  by (rule inbox_str_inject)

instantiation inbox_id :: equal
begin

definition equal_inbox_id :: "inbox_id \<Rightarrow> inbox_id \<Rightarrow> bool" where
  "equal_inbox_id a b \<longleftrightarrow> inbox_str a = inbox_str b"

instance
  by standard (simp add: equal_inbox_id_def)

end

text \<open>The part after the first \<open>@\<close>; empty for an id without one.\<close>

definition inbox_domain :: "inbox_id \<Rightarrow> string" where
  "inbox_domain i = drop 1 (dropWhile (\<lambda>c. c \<noteq> CHR ''@'') (inbox_str i))"

datatype message_id = MessageId (message_id_str: string)
datatype thread_id = ThreadId (thread_id_str: string)
datatype ses_message_id = SesMessageId (ses_message_id_str: string)

text \<open>The thread a message starts takes the message's id.\<close>

definition thread_of_message :: "message_id \<Rightarrow> thread_id" where
  "thread_of_message m = ThreadId (message_id_str m)"

section \<open>Stored structs\<close>

datatype direction = Inbound | Outbound

datatype content_disposition = Inline | Attachment

datatype send_status = Queued | Sending | Sent | Failed | Unknown

record inbox =
  inb_inbox_id :: inbox_id
  inb_email :: string
  inb_display_name :: "string option"
  inb_metadata :: "json option"
  inb_created_at :: string
  inb_updated_at :: string

record rfc_hit =
  hit_message_id :: "message_id option"
  hit_thread_id :: thread_id

record attachment_meta =
  att_attachment_id :: string
  att_object_key :: "string option"
  att_size :: u64
  att_filename :: "string option"
  att_content_type :: string
  att_content_disposition :: content_disposition
  att_content_id :: "string option"

record thread_snapshot =
  snap_thread_id :: thread_id
  snap_subject :: string
  snap_preview :: string
  snap_message_count :: u64
  snap_labels :: "string list"
  snap_senders :: "string list"
  snap_recipients :: "string list"
  snap_timestamp :: string
  snap_created_at :: string
  snap_updated_at :: string
  snap_last_message_id :: message_id
  snap_size :: u64
  snap_received_timestamp :: "string option"
  snap_sent_timestamp :: "string option"
  snap_attachments :: "attachment_meta list"

record mail_message =
  msg_inbox_id :: inbox_id
  msg_thread_id :: thread_id
  msg_message_id :: message_id
  msg_ses_message_id :: "ses_message_id option"
  msg_direction :: direction
  msg_rfc_message_id :: string
  msg_in_reply_to :: "string option"
  msg_labels :: "string list"
  msg_timestamp :: string
  msg_from :: string
  msg_to :: "string list"
  msg_cc :: "string list"
  msg_bcc :: "string list"
  msg_subject :: string
  msg_preview :: string
  msg_size :: u64
  msg_attachments :: "attachment_meta list"
  msg_attachments_truncated :: bool
  msg_raw_s3_key :: "string option"
  msg_thread_snapshot :: "thread_snapshot option"
  msg_delivery :: "(string, json) btree_map"
  msg_send_status :: "send_status option"
  msg_sent_at :: "string option"
  msg_version :: u64
  msg_created_at :: string
  msg_updated_at :: string
  msg_expires_at :: u64

datatype insert_outcome = FreshInsert | DuplicateInsert

datatype put_outcome = Created | AlreadyExists

section \<open>String helpers\<close>

definition is_ascii_lowercase :: "char \<Rightarrow> bool" where
  "is_ascii_lowercase c \<longleftrightarrow> 97 \<le> (of_char c :: nat) \<and> of_char c \<le> (122 :: nat)"

definition is_ascii_digit :: "char \<Rightarrow> bool" where
  "is_ascii_digit c \<longleftrightarrow> 48 \<le> (of_char c :: nat) \<and> of_char c \<le> (57 :: nat)"

definition is_valid_local_part :: "string \<Rightarrow> bool" where
  "is_valid_local_part part \<longleftrightarrow>
     part \<noteq> [] \<and> length part \<le> 64 \<and>
     list_all (\<lambda>b. is_ascii_lowercase b \<or> is_ascii_digit b \<or> b \<in> set ''._+-'') part"

definition strip_angle_brackets :: "string \<Rightarrow> string" where
  "strip_angle_brackets rfc_id =
     (case strip_prefix ''<'' rfc_id of
        None \<Rightarrow> rfc_id
      | Some s \<Rightarrow> (case strip_suffix ''>'' s of None \<Rightarrow> rfc_id | Some inner \<Rightarrow> inner))"

lemma strip_angle_brackets_wrapped [simp]:
  "strip_angle_brackets (CHR ''<'' # s @ ''>'') = s"
proof -
  have "strip_prefix ''<'' (CHR ''<'' # s @ ''>'') = Some (s @ ''>'')"
    and "strip_suffix ''>'' (s @ ''>'') = Some s"
    by (simp_all add: strip_prefix_Some strip_suffix_Some)
  then show ?thesis by (simp add: strip_angle_brackets_def)
qed

text \<open>The sample message of \<open>mailbox-store/src/memory.rs\<close>.\<close>

definition sample_message :: "string \<Rightarrow> string \<Rightarrow> string \<Rightarrow> mail_message" where
  "sample_message inbox message_id thread_id =
     \<lparr>msg_inbox_id = inbox_new inbox,
      msg_thread_id = ThreadId thread_id,
      msg_message_id = MessageId message_id,
      msg_ses_message_id = None,
      msg_direction = Inbound,
      msg_rfc_message_id = ''<'' @ message_id @ ''@example.com>'',
      msg_in_reply_to = None,
      msg_labels = [''received'', ''unread''],
      msg_timestamp = ''00000001-0000'',
      msg_from = ''sender@example.com'',
      msg_to = [inbox @ ''@example.com''],
      msg_cc = [],
      msg_bcc = [],
      msg_subject = ''Hello'',
      msg_preview = ''Hello there'',
      msg_size = 1000,
      msg_attachments = [],
      msg_attachments_truncated = False,
      msg_raw_s3_key = Some ''inbound/x'',
      msg_thread_snapshot = None,
      msg_delivery = bt_empty,
      msg_send_status = None,
      msg_sent_at = None,
      msg_version = 0,
      msg_created_at = ''2026-01-01T00:00:00.000Z'',
      msg_updated_at = ''2026-01-01T00:00:00.000Z'',
      msg_expires_at = 0\<rparr>"

end
