(* ===== verification/Chars.thy ===== *)
theory Chars
  imports Domain
begin

text \<open>
  The characters of a string: Rust's \<open>str::chars\<close> over UTF-8 bytes, the predicates of \<open>char\<close> the
  sources use, and \<open>floor_char_boundary\<close> with the truncation of \<open>mailbox/src/mime.rs\<close> built on it.
\<close>

definition continuation :: "char \<Rightarrow> bool" where
  "continuation c \<longleftrightarrow> 128 \<le> (of_char c :: nat) \<and> (of_char c :: nat) < 192"

definition ascii :: "char \<Rightarrow> bool" where
  "ascii c \<longleftrightarrow> (of_char c :: nat) < 128"

text \<open>\<open>str::chars\<close>: an ASCII byte alone, any other leading byte with its continuation bytes.\<close>

function chars :: "string \<Rightarrow> string list" where
  "chars [] = []"
| "chars (c # s) =
     (if ascii c then [c] # chars s
      else (c # takeWhile continuation s) # chars (dropWhile continuation s))"
  by pat_completeness auto
termination by (relation "measure length") (auto simp: length_dropWhile_le less_Suc_eq_le)

lemma not_continuation_ascii [simp]: "ascii c \<Longrightarrow> \<not> continuation c"
  by (simp add: ascii_def continuation_def)

lemma concat_chars [simp]: "concat (chars s) = s"
  by (induction s rule: chars.induct) simp_all

text \<open>An ASCII byte of a string is a character of its own.\<close>

lemma chars_ascii: "ch \<in> set (chars s) \<Longrightarrow> c \<in> set ch \<Longrightarrow> ascii c \<Longrightarrow> ch = [c]"
proof (induction s rule: chars.induct)
  case (2 b s)
  then show ?case
    by (auto split: if_splits dest!: set_takeWhileD dest: not_continuation_ascii)
qed simp

lemma set_chars: "ch \<in> set (chars s) \<Longrightarrow> set ch \<subseteq> set s"
  using concat_chars [of s] by (metis UN_upper set_concat)

text \<open>A string that starts a character, as every \<open>str\<close> does.\<close>

definition starts :: "string \<Rightarrow> bool" where
  "starts s \<longleftrightarrow> s = [] \<or> \<not> continuation (hd s)"

lemma starts_dropWhile [simp]: "starts (dropWhile continuation s)"
  using hd_dropWhile [of continuation s] by (auto simp: starts_def)

lemma starts_while: "starts s \<Longrightarrow> takeWhile continuation s = [] \<and> dropWhile continuation s = s"
  by (cases s) (auto simp: starts_def)

text \<open>\<open>char::is_control\<close> (U+0000 to U+001F, U+007F to U+009F) and \<open>char::is_whitespace\<close>.\<close>

definition is_control :: "string \<Rightarrow> bool" where
  "is_control ch \<longleftrightarrow> (case map of_char ch :: nat list of
       [n] \<Rightarrow> n < 32 \<or> n = 127 | [a, b] \<Rightarrow> a = 0xC2 \<and> 0x80 \<le> b \<and> b \<le> 0x9F | _ \<Rightarrow> False)"

definition is_whitespace :: "string \<Rightarrow> bool" where
  "is_whitespace ch \<longleftrightarrow> ch \<in> set whitespace"

section \<open>Truncation\<close>

text \<open>\<open>str::floor_char_boundary\<close>.\<close>

fun floor_char_boundary :: "string \<Rightarrow> nat \<Rightarrow> nat" where
  "floor_char_boundary s 0 = 0"
| "floor_char_boundary s (Suc n) =
     (if Suc n \<ge> length s then length s
      else if \<not> continuation (s ! Suc n) then Suc n else floor_char_boundary s n)"

definition truncate_bytes :: "string \<Rightarrow> nat \<Rightarrow> string" where
  "truncate_bytes input max_bytes =
     (if length input \<le> max_bytes then input else take (floor_char_boundary input max_bytes) input)"

lemma floor_char_boundary_le: "floor_char_boundary s n \<le> n"
  by (induction s n rule: floor_char_boundary.induct) auto

lemma floor_char_boundary_boundary:
  "n < length s \<Longrightarrow> starts s \<Longrightarrow> starts (drop (floor_char_boundary s n) s)"
  by (induction s n rule: floor_char_boundary.induct) (auto simp: starts_def hd_drop_conv_nth)

lemma truncate_bytes_length [simp]: "length (truncate_bytes s n) \<le> n"
  using floor_char_boundary_le [of s n] by (auto simp: truncate_bytes_def)

lemma truncate_bytes_prefix: "prefix (truncate_bytes s n) s"
  by (simp add: truncate_bytes_def take_is_prefix)

text \<open>Cut between two characters: the kept ones and the dropped ones are those of the string.\<close>

lemma chars_append: "starts t \<Longrightarrow> chars (s @ t) = chars s @ chars t"
proof (induction s rule: chars.induct)
  case (2 c s)
  show ?case
  proof (cases "list_all continuation s")
    case True
    then have s: "takeWhile continuation s = s" "dropWhile continuation s = []"
      by (simp_all add: list_all_iff takeWhile_eq_all_conv)
    have "takeWhile continuation (s @ t) = s" "dropWhile continuation (s @ t) = t"
      using True starts_while [OF 2(3)] by (simp_all add: list_all_iff)
    with 2(1) [OF _ 2(3)] show ?thesis by (simp add: s)
  next
    case False
    then obtain x where x: "x \<in> set s" "\<not> continuation x" by (auto simp: list_all_iff)
    then show ?thesis using 2 by (simp add: takeWhile_append1 dropWhile_append1)
  qed
qed simp

lemma truncate_bytes_chars:
  assumes "starts s"
  shows "\<exists>cs. chars s = chars (truncate_bytes s n) @ cs"
proof (cases "length s \<le> n")
  case False
  have "chars s = chars (take (floor_char_boundary s n) s @ drop (floor_char_boundary s n) s)" by simp
  also have "\<dots> = chars (take (floor_char_boundary s n) s) @ chars (drop (floor_char_boundary s n) s)"
    by (rule chars_append) (use floor_char_boundary_boundary [of n s] False assms in auto)
  finally show ?thesis using False by (auto simp: truncate_bytes_def)
qed (simp add: truncate_bytes_def)

lemma set_truncate_bytes: "set (truncate_bytes s n) \<subseteq> set s"
  using truncate_bytes_prefix set_mono_prefix by blast

section \<open>Decoding\<close>

text \<open>
  \<open>String::from_utf8_lossy\<close>: the ranges of the bytes that may follow a leading byte, and each
  maximal ill-formed sequence replaced by one U+FFFD.
\<close>

definition followers :: "char \<Rightarrow> (nat \<times> nat) list option" where
  "followers c = (let n = of_char c :: nat; tail = (0x80, 0xBF) in
     if n < 0x80 then Some []
     else if 0xC2 \<le> n \<and> n \<le> 0xDF then Some [tail]
     else if n = 0xE0 then Some [(0xA0, 0xBF), tail]
     else if n = 0xED then Some [(0x80, 0x9F), tail]
     else if 0xE1 \<le> n \<and> n \<le> 0xEF then Some [tail, tail]
     else if n = 0xF0 then Some [(0x90, 0xBF), tail, tail]
     else if 0xF1 \<le> n \<and> n \<le> 0xF3 then Some [tail, tail, tail]
     else if n = 0xF4 then Some [(0x80, 0x8F), tail, tail]
     else None)"

fun following :: "(nat \<times> nat) list \<Rightarrow> string \<Rightarrow> nat" where
  "following ((low, high) # ranges) (c # s) =
     (if low \<le> of_char c \<and> of_char c \<le> high then Suc (following ranges s) else 0)"
| "following _ _ = 0"

definition REPLACEMENT :: string where "REPLACEMENT = [CHR 0xEF, CHR 0xBF, CHR 0xBD]"

function from_utf8_lossy :: "string \<Rightarrow> string" where
  "from_utf8_lossy [] = []"
| "from_utf8_lossy (c # s) =
     (case followers c of
        None \<Rightarrow> REPLACEMENT @ from_utf8_lossy s
      | Some ranges \<Rightarrow>
          (let n = following ranges s in
           (if n = length ranges then c # take n s else REPLACEMENT) @ from_utf8_lossy (drop n s)))"
  by pat_completeness auto
termination by (relation "measure length") (auto simp: less_Suc_eq_le)

lemma from_utf8_lossy_ascii: "list_all ascii s \<Longrightarrow> from_utf8_lossy s = s"
  by (induction s rule: from_utf8_lossy.induct) (auto simp: followers_def ascii_def)

text \<open>\<open>u64::try_from (len)\<close> with \<open>unwrap_or (u64::MAX)\<close>.\<close>

definition len_u64 :: "'a list \<Rightarrow> u64" where
  "len_u64 xs = (if length xs < 2 ^ 64 then of_nat (length xs) else - 1)"

end
