(* ===== verification/UrlPolicy.thy ===== *)
theory UrlPolicy
  imports Prelude
begin

unbundle bit_operations_syntax

text \<open>
  \<open>crates/mailbox/src/url_policy.rs\<close>: which URL an outbound attachment may be fetched from. The
  URL parser is the crate \<open>url\<close>: what the code reads of a parsed \<open>Url\<close> is the record \<open>url\<close>, and
  parsing is a parameter \<open>url_parse\<close>. Addresses are those of \<open>std::net\<close>, four octets or eight
  segments.
\<close>

section \<open>Addresses\<close>

datatype ipv4_addr = Ipv4Addr "8 word" "8 word" "8 word" "8 word"

datatype ipv6_addr = Ipv6Addr "16 word" "16 word" "16 word" "16 word" "16 word" "16 word" "16 word" "16 word"

datatype ip_addr = V4 ipv4_addr | V6 ipv6_addr

fun is_public_ipv4 :: "ipv4_addr \<Rightarrow> bool" where
  "is_public_ipv4 (Ipv4Addr a b c _) =
     (let denied = (a = 0
        \<or> a = 10
        \<or> a = 127
        \<or> (a = 100 \<and> 64 \<le> b \<and> b < 128)
        \<or> (a = 169 \<and> b = 254)
        \<or> (a = 172 \<and> 16 \<le> b \<and> b < 32)
        \<or> (a = 192 \<and> b = 0 \<and> c = 0)
        \<or> (a = 192 \<and> b = 0 \<and> c = 2)
        \<or> (a = 192 \<and> b = 88 \<and> c = 99)
        \<or> (a = 192 \<and> b = 168)
        \<or> (a = 198 \<and> 18 \<le> b \<and> b < 20)
        \<or> (a = 198 \<and> b = 51 \<and> c = 100)
        \<or> (a = 203 \<and> b = 0 \<and> c = 113)
        \<or> 224 \<le> a)
      in \<not> denied)"

fun is_public_ipv6 :: "ipv6_addr \<Rightarrow> bool" where
  "is_public_ipv6 (Ipv6Addr first s1 s2 _ _ _ _ _) =
     (if \<not> (0x2000 \<le> first \<and> first < 0x4000) then False
      else
        let excluded = (first = 0x2002
          \<or> (first = 0x2001 \<and> s1 = 0x0000)
          \<or> (first = 0x2001 \<and> s1 = 0x0002 \<and> s2 = 0x0000)
          \<or> (first = 0x2001 \<and> 0x0010 \<le> s1 \<and> s1 < 0x0040)
          \<or> (first = 0x2001 \<and> s1 = 0x0db8)
          \<or> ((0x3fff \<le> first \<and> first < 0x4000) \<and> (first AND 0xfff0) = 0x3ff0))
        in \<not> excluded)"

text \<open>\<open>Ipv6Addr::to_ipv4_mapped\<close> of the standard library: \<open>::ffff:a.b.c.d\<close>.\<close>

fun to_ipv4_mapped :: "ipv6_addr \<Rightarrow> ipv4_addr option" where
  "to_ipv4_mapped (Ipv6Addr s0 s1 s2 s3 s4 s5 s6 s7) =
     (if s0 = 0 \<and> s1 = 0 \<and> s2 = 0 \<and> s3 = 0 \<and> s4 = 0 \<and> s5 = 0xffff
      then Some (Ipv4Addr (ucast (drop_bit 8 s6)) (ucast s6) (ucast (drop_bit 8 s7)) (ucast s7))
      else None)"

fun is_public_ip :: "ip_addr \<Rightarrow> bool" where
  "is_public_ip (V4 v4) = is_public_ipv4 v4"
| "is_public_ip (V6 v6) =
     (case to_ipv4_mapped v6 of
        Some v4 \<Rightarrow> is_public_ipv4 v4
      | None \<Rightarrow> is_public_ipv6 v6)"

section \<open>The shape of a URL\<close>

datatype host = HostIpv4 ipv4_addr | HostIpv6 ipv6_addr | HostDomain string

record url =
  url_str :: string
  url_scheme :: string
  url_username :: string
  url_password :: "string option"
  url_port :: "16 word option"
  url_host :: "host option"

datatype url_rejected =
    Malformed | TooLong | NotHttps | HasUserinfo | PortNotAllowed | NoHost | HostNotPublic

definition URL_MAX_BYTES :: nat where
  "URL_MAX_BYTES = 2048"

fun check_host :: "host \<Rightarrow> url_rejected option" where
  "check_host (HostIpv4 addr) = (if is_public_ip (V4 addr) then None else Some HostNotPublic)"
| "check_host (HostIpv6 addr) = (if is_public_ip (V6 addr) then None else Some HostNotPublic)"
| "check_host (HostDomain name) = (if name = [] then Some NoHost else None)"

definition parse_with :: "(string \<Rightarrow> url option) \<Rightarrow> string \<Rightarrow> bool \<Rightarrow> url_rejected + url" where
  "parse_with url_parse raw relaxed_transport =
     (if length raw > URL_MAX_BYTES then Inl TooLong
      else case url_parse raw of
        None \<Rightarrow> Inl Malformed
      | Some url \<Rightarrow>
          let scheme_ok = (url_scheme url = ''https'' \<or> relaxed_transport \<and> url_scheme url = ''http'') in
          if \<not> scheme_ok then Inl NotHttps
          else if url_username url \<noteq> [] \<or> url_password url \<noteq> None then Inl HasUserinfo
          else if \<not> relaxed_transport \<and> url_port url \<notin> {None, Some 443} then Inl PortNotAllowed
          else case url_host url of
              None \<Rightarrow> Inl NoHost
            | Some host \<Rightarrow> (case check_host host of
                  Some rejected \<Rightarrow> Inl rejected
                | None \<Rightarrow> Inr url))"

definition parse_attachment_url :: "(string \<Rightarrow> url option) \<Rightarrow> string \<Rightarrow> url_rejected + url" where
  "parse_attachment_url url_parse raw = parse_with url_parse raw False"

section \<open>Address blocks\<close>

text \<open>
  The specification: an address is the number its octets or segments write, and a block
  \<open>base/len\<close> is the addresses that share the first \<open>len\<close> bits of \<open>base\<close>. The lists are
  the blocks the code keeps out. All but one are blocks of the IANA special-purpose registries;
  the exception is \<open>3fff::/16\<close>, the code's documentation block, where the registry has the
  narrower \<open>3fff::/20\<close>: the list states what the code does.
\<close>

definition in_block :: "nat \<Rightarrow> nat \<times> nat \<Rightarrow> nat \<Rightarrow> bool" where
  "in_block width block n \<longleftrightarrow> (case block of (base, len) \<Rightarrow>
     n div 2 ^ (width - len) = base div 2 ^ (width - len))"

fun v4_bits :: "ipv4_addr \<Rightarrow> nat" where
  "v4_bits (Ipv4Addr a b c d) = ((unat a * 256 + unat b) * 256 + unat c) * 256 + unat d"

definition v4_quad :: "nat \<Rightarrow> nat \<Rightarrow> nat \<Rightarrow> nat" where
  "v4_quad a b c = ((a * 256 + b) * 256 + c) * 256 + 0"

definition reserved_v4 :: "(nat \<times> nat) list" where
  "reserved_v4 =
     [(v4_quad 0 0 0, 8), (v4_quad 10 0 0, 8), (v4_quad 127 0 0, 8), (v4_quad 100 64 0, 10),
      (v4_quad 169 254 0, 16), (v4_quad 172 16 0, 12), (v4_quad 192 0 0, 24), (v4_quad 192 0 2, 24),
      (v4_quad 192 88 99, 24), (v4_quad 192 168 0, 16), (v4_quad 198 18 0, 15), (v4_quad 198 51 100, 24),
      (v4_quad 203 0 113, 24), (v4_quad 224 0 0, 4), (v4_quad 240 0 0, 4)]"

fun v6_prefix :: "ipv6_addr \<Rightarrow> nat" where
  "v6_prefix (Ipv6Addr s0 s1 s2 _ _ _ _ _) = (unat s0 * 65536 + unat s1) * 65536 + unat s2"

text \<open>The first 48 bits decide every block of the list.\<close>

definition v6_block :: "nat \<Rightarrow> nat \<Rightarrow> nat \<Rightarrow> nat" where
  "v6_block s0 s1 s2 = (s0 * 65536 + s1) * 65536 + s2"

definition reserved_v6 :: "(nat \<times> nat) list" where
  "reserved_v6 =
     [(v6_block 0x2002 0 0, 16), (v6_block 0x2001 0 0, 32), (v6_block 0x2001 2 0, 48),
      (v6_block 0x2001 0x10 0, 28), (v6_block 0x2001 0x20 0, 28), (v6_block 0x2001 0x30 0, 28),
      (v6_block 0x2001 0xdb8 0, 32), (v6_block 0x3fff 0 0, 16)]"

text \<open>The prefix of a number written in base \<open>2\<^sup>w\<close>, digit by digit.\<close>

lemma div_step: "c < k \<Longrightarrow> (q * k + c) div k = (q :: nat)"
  by simp

lemma octet: "unat (a :: 8 word) < 256"
  using unsigned_less [of a, where 'a = nat] by simp

lemma segment: "unat (a :: 16 word) < 65536"
  using unsigned_less [of a, where 'a = nat] by simp

lemma v4_prefix:
  fixes a b c d :: nat
  assumes "b < 256" and "c < 256" and "d < (256 :: nat)"
  defines "n \<equiv> ((a * 256 + b) * 256 + c) * 256 + d"
  shows "n div 2 ^ 8 = (a * 256 + b) * 256 + c" and "n div 2 ^ 16 = a * 256 + b"
    and "n div 2 ^ 24 = a" and "n div 2 ^ 22 = a * 4 + b div 64" and "n div 2 ^ 20 = a * 16 + b div 16"
    and "n div 2 ^ 17 = a * 128 + b div 2" and "n div 2 ^ 28 = a div 16"
proof -
  have n8: "n div 256 = (a * 256 + b) * 256 + c" unfolding n_def by (rule div_step) (rule assms)
  have n16: "n div 256 div 256 = a * 256 + b" unfolding n8 by (rule div_step) (rule assms)
  have n24: "n div 256 div 256 div 256 = a" unfolding n16 by (rule div_step) (rule assms)
  show "n div 2 ^ 8 = (a * 256 + b) * 256 + c" using n8 by simp
  show "n div 2 ^ 16 = a * 256 + b" using n16 by (simp flip: div_mult2_eq)
  show "n div 2 ^ 24 = a" using n24 by (simp flip: div_mult2_eq)
  have "n div 2 ^ 22 = n div 256 div 256 div 64" by (simp flip: div_mult2_eq)
  also have "\<dots> = a * 4 + b div 64" unfolding n16 by presburger
  finally show "n div 2 ^ 22 = a * 4 + b div 64" .
  have "n div 2 ^ 20 = n div 256 div 256 div 16" by (simp flip: div_mult2_eq)
  also have "\<dots> = a * 16 + b div 16" unfolding n16 by presburger
  finally show "n div 2 ^ 20 = a * 16 + b div 16" .
  have "n div 2 ^ 17 = n div 256 div 256 div 2" by (simp flip: div_mult2_eq)
  also have "\<dots> = a * 128 + b div 2" unfolding n16 by presburger
  finally show "n div 2 ^ 17 = a * 128 + b div 2" .
  have "n div 2 ^ 28 = n div 256 div 256 div 256 div 16" by (simp flip: div_mult2_eq)
  then show "n div 2 ^ 28 = a div 16" unfolding n24 .
qed

lemma two_digits: "b < k \<Longrightarrow> y < k \<Longrightarrow> a * k + b = x * k + y \<longleftrightarrow> a = x \<and> b = (y :: nat)"
  by (metis div_step mod_less mod_mult_self3)

text \<open>Each block as the code tests it.\<close>

lemma v4_blocks:
  fixes a b c d :: nat
  assumes "a < 256" "b < 256" "c < 256" "d < (256 :: nat)"
  defines "n \<equiv> ((a * 256 + b) * 256 + c) * 256 + d"
  shows "in_block 32 (v4_quad p 0 0, 8) n \<longleftrightarrow> a = p"
    and "q < 256 \<Longrightarrow> in_block 32 (v4_quad p q 0, 16) n \<longleftrightarrow> a = p \<and> b = q"
    and "q < 256 \<Longrightarrow> r < 256 \<Longrightarrow> in_block 32 (v4_quad p q r, 24) n \<longleftrightarrow> a = p \<and> b = q \<and> c = r"
    and "in_block 32 (v4_quad 100 64 0, 10) n \<longleftrightarrow> a = 100 \<and> 64 \<le> b \<and> b < 128"
    and "in_block 32 (v4_quad 172 16 0, 12) n \<longleftrightarrow> a = 172 \<and> 16 \<le> b \<and> b < 32"
    and "in_block 32 (v4_quad 198 18 0, 15) n \<longleftrightarrow> a = 198 \<and> 18 \<le> b \<and> b < 20"
    and "in_block 32 (v4_quad 224 0 0, 4) n \<or> in_block 32 (v4_quad 240 0 0, 4) n \<longleftrightarrow> 224 \<le> a"
proof -
  note p = v4_prefix [OF assms(2-4), where a = a, folded n_def]
  have zero: "0 < (256 :: nat)" by simp
  have widths: "32 - 8 = (24 :: nat)" "32 - 16 = (16 :: nat)" "32 - 24 = (8 :: nat)" by simp_all
  note q = v4_prefix [OF _ _ zero, folded v4_quad_def]
  show "in_block 32 (v4_quad p 0 0, 8) n \<longleftrightarrow> a = p"
    unfolding in_block_def prod.case widths p q(3) [OF zero zero] ..
  show "in_block 32 (v4_quad p q 0, 16) n \<longleftrightarrow> a = p \<and> b = q" if "q < 256"
    unfolding in_block_def prod.case widths p q(2) [OF that zero] by (rule two_digits [OF assms(2) that])
  show "in_block 32 (v4_quad p q r, 24) n \<longleftrightarrow> a = p \<and> b = q \<and> c = r" if "q < 256" "r < 256"
    unfolding in_block_def prod.case widths p q(1) [OF that] two_digits [OF assms(3) that(2)]
      two_digits [OF assms(2) that(1)] by (rule conj_assoc)
  have "b div 64 < 4" using assms(2) by (intro less_mult_imp_div_less) simp
  then have "in_block 32 (v4_quad 100 64 0, 10) n \<longleftrightarrow> a = 100 \<and> b div 64 = 1"
    using two_digits [of "b div 64" 4 1 a 100] by (simp add: in_block_def p [simplified] v4_quad_def)
  also have "b div 64 = 1 \<longleftrightarrow> 64 \<le> b \<and> b < 128" by linarith
  finally show "in_block 32 (v4_quad 100 64 0, 10) n \<longleftrightarrow> a = 100 \<and> 64 \<le> b \<and> b < 128" .
  have "b div 16 < 16" using assms(2) by (intro less_mult_imp_div_less) simp
  then have "in_block 32 (v4_quad 172 16 0, 12) n \<longleftrightarrow> a = 172 \<and> b div 16 = 1"
    using two_digits [of "b div 16" 16 1 a 172] by (simp add: in_block_def p [simplified] v4_quad_def)
  also have "b div 16 = 1 \<longleftrightarrow> 16 \<le> b \<and> b < 32" by linarith
  finally show "in_block 32 (v4_quad 172 16 0, 12) n \<longleftrightarrow> a = 172 \<and> 16 \<le> b \<and> b < 32" .
  have "b div 2 < 128" using assms(2) by (intro less_mult_imp_div_less) simp
  then have "in_block 32 (v4_quad 198 18 0, 15) n \<longleftrightarrow> a = 198 \<and> b div 2 = 9"
    using two_digits [of "b div 2" 128 9 a 198] by (simp add: in_block_def p [simplified] v4_quad_def)
  also have "b div 2 = 9 \<longleftrightarrow> 18 \<le> b \<and> b < 20" by linarith
  finally show "in_block 32 (v4_quad 198 18 0, 15) n \<longleftrightarrow> a = 198 \<and> 18 \<le> b \<and> b < 20" .
  have "a div 16 < 16" using assms(1) by (intro less_mult_imp_div_less) simp
  moreover have "14 \<le> a div 16 \<longleftrightarrow> 224 \<le> a" by (simp add: less_eq_div_iff_mult_less_eq)
  ultimately have "a div 16 = 14 \<or> a div 16 = 15 \<longleftrightarrow> 224 \<le> a" by linarith
  then show "in_block 32 (v4_quad 224 0 0, 4) n \<or> in_block 32 (v4_quad 240 0 0, 4) n \<longleftrightarrow> 224 \<le> a"
    by (simp add: in_block_def p [simplified] v4_quad_def)
qed

lemma is_public_ipv4_blocks:
  "is_public_ipv4 v4 \<longleftrightarrow> \<not> list_ex (\<lambda>block. in_block 32 block (v4_bits v4)) reserved_v4"
proof (cases v4)
  case (Ipv4Addr a b c d)
  define n where "n = ((unat a * 256 + unat b) * 256 + unat c) * 256 + unat d"
  note n = v4_blocks [OF octet [of a] octet [of b] octet [of c] octet [of d], folded n_def]
  show ?thesis
    unfolding Ipv4Addr reserved_v4_def list_ex_Nil_iff list_ex_Cons_iff v4_bits.simps n_def [symmetric]
      n(4-6) is_public_ipv4.simps Let_def word_le_nat_alt word_less_nat_alt word_unat_eq_iff
    using n(7) by (simp add: n(1-3))
qed


lemma unat_numeral_16:
  "unat (0x2000 :: 16 word) = 0x2000" "unat (0x4000 :: 16 word) = 0x4000" "unat (0x2002 :: 16 word) = 0x2002"
  "unat (0x2001 :: 16 word) = 0x2001" "unat (2 :: 16 word) = 2" "unat (0x10 :: 16 word) = 0x10"
  "unat (0x40 :: 16 word) = 0x40" "unat (0xdb8 :: 16 word) = 0xdb8" "unat (0x3fff :: 16 word) = 0x3fff"
  by simp_all

lemma v6_div:
  assumes "s1 < 65536" and "s2 < (65536 :: nat)"
  shows "v6_block s0 s1 s2 div 2 ^ 16 = s0 * 65536 + s1" and "v6_block s0 s1 s2 div 2 ^ 32 = s0"
    and "v6_block s0 s1 s2 div 2 ^ 20 = s0 * 4096 + s1 div 16"
proof -
  have n16: "v6_block s0 s1 s2 div 65536 = s0 * 65536 + s1"
    unfolding v6_block_def by (rule div_step) (rule assms)
  have n32: "v6_block s0 s1 s2 div 65536 div 65536 = s0" unfolding n16 by (rule div_step) (rule assms)
  show "v6_block s0 s1 s2 div 2 ^ 16 = s0 * 65536 + s1" using n16 by simp
  show "v6_block s0 s1 s2 div 2 ^ 32 = s0" using n32 by (simp flip: div_mult2_eq)
  have "v6_block s0 s1 s2 div 2 ^ 20 = v6_block s0 s1 s2 div 65536 div 16" by (simp flip: div_mult2_eq)
  also have "\<dots> = s0 * 4096 + s1 div 16" unfolding n16 by simp
  finally show "v6_block s0 s1 s2 div 2 ^ 20 = s0 * 4096 + s1 div 16" .
qed

lemma v6_blocks:
  assumes "s1 < 65536" and "s2 < (65536 :: nat)"
  shows "in_block 48 (v6_block p 0 0, 16) (v6_block s0 s1 s2) \<longleftrightarrow> s0 = p"
    and "q < 65536 \<Longrightarrow> in_block 48 (v6_block p q 0, 32) (v6_block s0 s1 s2) \<longleftrightarrow> s0 = p \<and> s1 = q"
    and "q < 65536 \<Longrightarrow> r < 65536 \<Longrightarrow>
      in_block 48 (v6_block p q r, 48) (v6_block s0 s1 s2) \<longleftrightarrow> s0 = p \<and> s1 = q \<and> s2 = r"
    and "q < 4096 \<Longrightarrow> in_block 48 (v6_block p (q * 16) 0, 28) (v6_block s0 s1 s2) \<longleftrightarrow>
      s0 = p \<and> q * 16 \<le> s1 \<and> s1 < q * 16 + 16"
proof -
  have zero: "0 < (65536 :: nat)" by simp
  have widths: "48 - 16 = (32 :: nat)" "48 - 32 = (16 :: nat)" "48 - 28 = (20 :: nat)" by simp_all
  show "in_block 48 (v6_block p 0 0, 16) (v6_block s0 s1 s2) \<longleftrightarrow> s0 = p"
    unfolding in_block_def prod.case widths v6_div(2) [OF assms] v6_div(2) [OF zero zero] ..
  show "in_block 48 (v6_block p q 0, 32) (v6_block s0 s1 s2) \<longleftrightarrow> s0 = p \<and> s1 = q" if "q < 65536"
    unfolding in_block_def prod.case widths v6_div(1) [OF assms] v6_div(1) [OF that zero]
    by (rule two_digits [OF assms(1) that])
  show "in_block 48 (v6_block p q r, 48) (v6_block s0 s1 s2) \<longleftrightarrow> s0 = p \<and> s1 = q \<and> s2 = r"
    if "q < 65536" "r < 65536"
  proof -
    have "in_block 48 (v6_block p q r, 48) (v6_block s0 s1 s2) \<longleftrightarrow> v6_block s0 s1 s2 = v6_block p q r"
      by (simp add: in_block_def)
    also have "\<dots> \<longleftrightarrow> s0 = p \<and> s1 = q \<and> s2 = r"
      unfolding v6_block_def two_digits [OF assms(2) that(2)] two_digits [OF assms(1) that(1)]
      by (rule conj_assoc)
    finally show ?thesis .
  qed
  show "in_block 48 (v6_block p (q * 16) 0, 28) (v6_block s0 s1 s2) \<longleftrightarrow>
      s0 = p \<and> q * 16 \<le> s1 \<and> s1 < q * 16 + 16" if "q < 4096"
  proof -
    have "q * 16 < 65536" using that by simp
    note q = v6_div(3) [OF this zero]
    have "s1 div 16 < 4096" using assms(1) by (intro less_mult_imp_div_less) simp
    from two_digits [OF this that] have "in_block 48 (v6_block p (q * 16) 0, 28) (v6_block s0 s1 s2) \<longleftrightarrow>
        s0 = p \<and> s1 div 16 = q"
      unfolding in_block_def prod.case widths v6_div(3) [OF assms] q by simp
    also have "s1 div 16 = q \<longleftrightarrow> q * 16 \<le> s1 \<and> s1 < q * 16 + 16" by linarith
    finally show ?thesis .
  qed
qed

lemma is_public_ipv6_blocks:
  "is_public_ipv6 v6 \<longleftrightarrow> in_block 48 (v6_block 0x2000 0 0, 3) (v6_prefix v6) \<and>
     \<not> list_ex (\<lambda>block. in_block 48 block (v6_prefix v6)) reserved_v6"
proof (cases v6)
  case (Ipv6Addr s0 s1 s2 s3 s4 s5 s6 s7)
  have n: "v6_prefix v6 = v6_block (unat s0) (unat s1) (unat s2)"
    by (simp add: Ipv6Addr v6_block_def)
  define N where "N = v6_block (unat s0) (unat s1) (unat s2)"
  note b = v6_blocks [OF segment [of s1] segment [of s2], where ?s0.0 = "unat s0", folded N_def]
  have top: "in_block 48 (v6_block 0x2000 0 0, 3) (v6_block (unat s0) (unat s1) (unat s2)) \<longleftrightarrow>
      0x2000 \<le> s0 \<and> s0 < 0x4000"
  proof -
    have "v6_block p q r div 2 ^ 45 = p div 8192" if "q < 65536" "r < 65536" for p q r
    proof -
      have "v6_block p q r div 2 ^ 45 = v6_block p q r div 2 ^ 32 div 8192" by (simp flip: div_mult2_eq)
      then show ?thesis by (simp only: v6_div(2) [OF that])
    qed
    then have "in_block 48 (v6_block 0x2000 0 0, 3) (v6_block (unat s0) (unat s1) (unat s2)) \<longleftrightarrow>
        unat s0 div 8192 = 1" using segment by (simp add: in_block_def)
    also have "\<dots> \<longleftrightarrow> 0x2000 \<le> unat s0 \<and> unat s0 < 0x4000" by linarith
    finally show ?thesis by (simp add: word_le_nat_alt word_less_nat_alt)
  qed
  have doc: "(0x3fff \<le> s0 \<and> s0 < 0x4000) \<and> (s0 AND 0xfff0) = 0x3ff0 \<longleftrightarrow> s0 = 0x3fff"
  proof -
    have "0x3fff \<le> s0 \<and> s0 < 0x4000 \<longleftrightarrow> s0 = 0x3fff"
      by (auto simp: word_le_nat_alt word_less_nat_alt word_unat_eq_iff)
    then show ?thesis by auto
  qed
  have orchid: "in_block 48 (v6_block 0x2001 0x10 0, 28) N \<or> in_block 48 (v6_block 0x2001 0x20 0, 28) N \<or>
      in_block 48 (v6_block 0x2001 0x30 0, 28) N \<longleftrightarrow> unat s0 = 0x2001 \<and> 0x10 \<le> unat s1 \<and> unat s1 < 0x40"
    using b(4) [where q = 1 and p = "0x2001"] b(4) [where q = 2 and p = "0x2001"] b(4) [where q = 3 and p = "0x2001"] by auto
  have small: "in_block 48 (v6_block 0x2002 0 0, 16) N \<longleftrightarrow> unat s0 = 0x2002"
    "in_block 48 (v6_block 0x3fff 0 0, 16) N \<longleftrightarrow> unat s0 = 0x3fff"
    "in_block 48 (v6_block 0x2001 0 0, 32) N \<longleftrightarrow> unat s0 = 0x2001 \<and> unat s1 = 0"
    "in_block 48 (v6_block 0x2001 0xdb8 0, 32) N \<longleftrightarrow> unat s0 = 0x2001 \<and> unat s1 = 0xdb8"
    "in_block 48 (v6_block 0x2001 2 0, 48) N \<longleftrightarrow> unat s0 = 0x2001 \<and> unat s1 = 2 \<and> unat s2 = 0"
    using b(1-3) by simp_all
  have code: "is_public_ipv6 v6 \<longleftrightarrow> (0x2000 \<le> s0 \<and> s0 < 0x4000) \<and> \<not> (unat s0 = 0x2002 \<or>
      (unat s0 = 0x2001 \<and> unat s1 = 0) \<or> (unat s0 = 0x2001 \<and> unat s1 = 2 \<and> unat s2 = 0) \<or>
      (unat s0 = 0x2001 \<and> 0x10 \<le> unat s1 \<and> unat s1 < 0x40) \<or>
      (unat s0 = 0x2001 \<and> unat s1 = 0xdb8) \<or> unat s0 = 0x3fff)"
    unfolding Ipv6Addr is_public_ipv6.simps Let_def doc
    by (simp only: word_le_nat_alt word_less_nat_alt word_unat_eq_iff unat_numeral_16 unat_0 if_bool_eq_disj) blast
  show ?thesis
    unfolding code n reserved_v6_def list_ex_Nil_iff list_ex_Cons_iff small [unfolded N_def] top
    using orchid [unfolded N_def] by argo
qed

section \<open>What may be fetched\<close>

text \<open>
  C39. The address rules are the block lists: an IPv4 address is public exactly when it lies in
  none of the reserved blocks, an IPv6 address that maps one is judged as that address, and any
  other IPv6 address is public exactly when it is global unicast (\<open>2000::/3\<close>) outside the
  tunnelling, benchmarking and documentation prefixes.
\<close>

theorem is_public_ip_blocks:
  "(is_public_ip (V4 v4) \<longleftrightarrow> \<not> list_ex (\<lambda>block. in_block 32 block (v4_bits v4)) reserved_v4)
   \<and> (is_public_ip (V6 v6) \<longleftrightarrow> (case to_ipv4_mapped v6 of
        Some v4 \<Rightarrow> is_public_ip (V4 v4)
      | None \<Rightarrow> in_block 48 (v6_block 0x2000 0 0, 3) (v6_prefix v6) \<and>
          \<not> list_ex (\<lambda>block. in_block 48 block (v6_prefix v6)) reserved_v6))"
  by (simp add: is_public_ipv4_blocks is_public_ipv6_blocks split: option.split)

definition public_host :: "host \<Rightarrow> bool" where
  "public_host h \<longleftrightarrow> (case h of
       HostIpv4 a \<Rightarrow> is_public_ip (V4 a)
     | HostIpv6 a \<Rightarrow> is_public_ip (V6 a)
     | HostDomain name \<Rightarrow> name \<noteq> [])"

definition fetchable :: "url \<Rightarrow> bool" where
  "fetchable u \<longleftrightarrow> url_scheme u = ''https'' \<and> url_username u = [] \<and> url_password u = None \<and>
     url_port u \<in> {None, Some 443} \<and> (\<exists>h. url_host u = Some h \<and> public_host h)"

lemma check_host_public: "check_host h = None \<longleftrightarrow> public_host h"
  by (cases h) (simp_all add: public_host_def)

lemma parse_attachment_url_ok:
  "parse_attachment_url url_parse raw = Inr u \<longleftrightarrow>
     length raw \<le> URL_MAX_BYTES \<and> url_parse raw = Some u \<and> fetchable u"
  by (auto simp: parse_attachment_url_def parse_with_def fetchable_def Let_def
      simp flip: check_host_public split: option.splits if_splits)

end
