(* ===== verification/Fetch.thy ===== *)
theory Fetch
  imports UrlPolicy
begin

text \<open>
  \<open>crates/webhook/src/mail/fetch.rs\<close>: fetching an attachment named by URL. The resolver, the HTTP
  client and \<open>Url::join\<close> are the crates \<open>tokio\<close>, \<open>reqwest\<close> and \<open>url\<close>, the operations of a record
  \<open>net\<close> over the state \<open>'w\<close> of the network. Beside its result a fetch returns the requests it
  sent, each with the addresses its connection was pinned to.
\<close>

type_synonym bytes = "8 word list"

definition MAX_REDIRECTS :: nat where
  "MAX_REDIRECTS = 5"

datatype fetch_error =
    FetchBlocked url_rejected
  | TooManyRedirects
  | FetchTooLarge
  | FetchRejected nat
  | BadEncoding
  | FetchNotFound
  | FetchTransient

fun is_transient :: "fetch_error \<Rightarrow> bool" where
  "is_transient FetchTransient = True"
| "is_transient _ = False"

record socket_addr =
  sock_ip :: ip_addr
  sock_port :: "16 word"

text \<open>
  A response: its status, the \<open>Location\<close> header where it is a string, every
  \<open>Content-Encoding\<close> header (\<open>None\<close> where it is not a string), the length it declares, and the
  chunks of its body, where a read may fail.
\<close>

record response =
  resp_status :: nat
  resp_location :: "string option"
  resp_encodings :: "string option list"
  resp_content_length :: "u64 option"
  resp_chunks :: "bytes option list"

record 'w net =
  net_lookup_host :: "string \<Rightarrow> 16 word \<Rightarrow> 'w \<Rightarrow> socket_addr list option \<times> 'w"
  net_client_builds :: "string option \<Rightarrow> socket_addr list \<Rightarrow> bool"
  net_send :: "string option \<Rightarrow> socket_addr list \<Rightarrow> string \<Rightarrow> 'w \<Rightarrow> response option \<times> 'w"
  net_join :: "url \<Rightarrow> string \<Rightarrow> string option"
  net_url_parse :: "string \<Rightarrow> url option"

text \<open>One request: the URL, the domain pinned and the addresses it is pinned to.\<close>

type_synonym request = "url \<times> string option \<times> socket_addr list"

definition address_allowed :: "ip_addr list \<Rightarrow> ip_addr \<Rightarrow> bool" where
  "address_allowed extra_public address = (is_public_ip address \<or> address \<in> List.set extra_public)"

text \<open>The port of an \<open>https\<close> URL where none is written is 443.\<close>

definition port_of :: "url \<Rightarrow> 16 word" where
  "port_of url = (case url_port url of Some p \<Rightarrow> p | None \<Rightarrow> 443)"

definition resolve :: "'w net \<Rightarrow> url \<Rightarrow> 'w \<Rightarrow> (fetch_error + string option \<times> socket_addr list) \<times> 'w" where
  "resolve net url w =
     (let port = port_of url in
      case url_host url of
        Some (HostIpv4 ip) \<Rightarrow> (Inr (None, [\<lparr>sock_ip = V4 ip, sock_port = port\<rparr>]), w)
      | Some (HostIpv6 ip) \<Rightarrow> (Inr (None, [\<lparr>sock_ip = V6 ip, sock_port = port\<rparr>]), w)
      | other \<Rightarrow>
          let domain = (case other of Some (HostDomain d) \<Rightarrow> d | _ \<Rightarrow> []) in
          case net_lookup_host net domain port w of
            (None, w') \<Rightarrow> (Inl FetchTransient, w')
          | (Some resolved, w') \<Rightarrow> (Inr (Some domain, resolved), w'))"

definition addresses ::
  "'w net \<Rightarrow> ip_addr list \<Rightarrow> url \<Rightarrow> 'w \<Rightarrow> (fetch_error + string option \<times> socket_addr list) \<times> 'w" where
  "addresses net extra_public url w =
     (case resolve net url w of
        (Inl e, w') \<Rightarrow> (Inl e, w')
      | (Inr (domain, resolved), w') \<Rightarrow>
          if resolved = [] then (Inl FetchNotFound, w')
          else if list_ex (\<lambda>address. \<not> address_allowed extra_public (sock_ip address)) resolved
          then (Inl (FetchBlocked HostNotPublic), w')
          else (Inr (domain, resolved), w'))"

fun read_body :: "u64 \<Rightarrow> bytes \<Rightarrow> bytes option list \<Rightarrow> fetch_error + bytes" where
  "read_body max_bytes acc [] = Inr acc"
| "read_body max_bytes acc (None # _) = Inl FetchTransient"
| "read_body max_bytes acc (Some chunk # rest) =
     (if length acc + length chunk > unat max_bytes then Inl FetchTooLarge
      else read_body max_bytes (acc @ chunk) rest)"

definition bad_status :: "nat \<Rightarrow> fetch_error" where
  "bad_status status =
     (if status = 408 \<or> status = 429 then FetchTransient
      else if status \<ge> 500 then FetchTransient
      else FetchRejected status)"

text \<open>The part of \<open>fetch\<close> that reads a response that is no redirect.\<close>

definition read_response :: "u64 \<Rightarrow> response \<Rightarrow> fetch_error + bytes" where
  "read_response max_bytes response =
     (if \<not> (200 \<le> resp_status response \<and> resp_status response < 300)
      then Inl (bad_status (resp_status response))
      else if list_ex (\<lambda>encoding. \<not> (case encoding of None \<Rightarrow> False
             | Some value \<Rightarrow> eq_ignore_ascii_case (trim value) ''identity'')) (resp_encodings response)
      then Inl BadEncoding
      else if (case resp_content_length response of None \<Rightarrow> False | Some len \<Rightarrow> len > max_bytes)
      then Inl FetchTooLarge
      else read_body max_bytes [] (resp_chunks response))"

definition is_redirection :: "nat \<Rightarrow> bool" where
  "is_redirection status \<longleftrightarrow> 300 \<le> status \<and> status < 400"

definition redirect_target :: "'w net \<Rightarrow> url \<Rightarrow> response \<Rightarrow> fetch_error + url" where
  "redirect_target net current response =
     (case resp_location response of
        None \<Rightarrow> Inl TooManyRedirects
      | Some location \<Rightarrow> (case net_join net current location of
            None \<Rightarrow> Inl (FetchBlocked Malformed)
          | Some joined \<Rightarrow> (case parse_attachment_url (net_url_parse net) joined of
                Inl rejected \<Rightarrow> Inl (FetchBlocked rejected)
              | Inr url \<Rightarrow> Inr url)))"

text \<open>\<open>for _hop in 0..=MAX_REDIRECTS\<close>, with the number of hops left.\<close>

fun fetch_hops ::
  "'w net \<Rightarrow> ip_addr list \<Rightarrow> u64 \<Rightarrow> nat \<Rightarrow> url \<Rightarrow> 'w \<Rightarrow> (fetch_error + bytes) \<times> request list \<times> 'w" where
  "fetch_hops net extra_public max_bytes 0 current w = (Inl TooManyRedirects, [], w)"
| "fetch_hops net extra_public max_bytes (Suc hops) current w =
     (case addresses net extra_public current w of
        (Inl e, w1) \<Rightarrow> (Inl e, [], w1)
      | (Inr (domain, addrs), w1) \<Rightarrow>
          if \<not> net_client_builds net domain addrs then (Inl FetchTransient, [], w1)
          else case net_send net domain addrs (url_str current) w1 of
            (None, w2) \<Rightarrow> (Inl FetchTransient, [(current, domain, addrs)], w2)
          | (Some response, w2) \<Rightarrow>
              if is_redirection (resp_status response) then
                (case redirect_target net current response of
                   Inl e \<Rightarrow> (Inl e, [(current, domain, addrs)], w2)
                 | Inr next \<Rightarrow>
                     (case fetch_hops net extra_public max_bytes hops next w2 of
                        (res, sent, w3) \<Rightarrow> (res, (current, domain, addrs) # sent, w3)))
              else (read_response max_bytes response, [(current, domain, addrs)], w2))"

definition fetch :: "'w net \<Rightarrow> ip_addr list \<Rightarrow> url \<Rightarrow> u64 \<Rightarrow> 'w \<Rightarrow> (fetch_error + bytes) \<times> request list \<times> 'w" where
  "fetch net extra_public url max_bytes w = fetch_hops net extra_public max_bytes (Suc MAX_REDIRECTS) url w"

section \<open>Where a fetch connects to\<close>

definition safe_request :: "request \<Rightarrow> bool" where
  "safe_request r \<longleftrightarrow> (case r of (url, domain, addrs) \<Rightarrow>
     fetchable url \<and> addrs \<noteq> [] \<and> list_all (\<lambda>a. is_public_ip (sock_ip a)) addrs \<and>
     (\<forall>d. url_host url = Some (HostDomain d) \<longrightarrow> domain = Some d))"

lemma addresses_safe:
  assumes "addresses net [] url w = (Inr (domain, addrs), w')" and "fetchable url"
  shows "safe_request (url, domain, addrs)"
  using assms
  by (auto simp: addresses_def resolve_def safe_request_def fetchable_def address_allowed_def Let_def
      list_all_iff list_ex_iff split: host.splits option.splits sum.splits prod.splits if_splits)

lemma redirect_fetchable: "redirect_target net u resp = Inr next \<Longrightarrow> fetchable next"
  by (auto simp: redirect_target_def parse_attachment_url_ok split: option.splits sum.splits)

lemma fetch_hops_safe:
  "fetch_hops net [] max_bytes hops current w = (res, sent, w') \<Longrightarrow> fetchable current \<Longrightarrow>
     list_all safe_request sent \<and> length sent \<le> hops"
proof (induction hops arbitrary: current w res sent w')
  case (Suc hops)
  show ?case
  proof (cases "addresses net [] current w")
    case (Pair r w1)
    show ?thesis
    proof (cases r)
      case (Inr da)
      obtain domain addrs where da: "da = (domain, addrs)" by fastforce
      have first: "safe_request (current, domain, addrs)"
        using addresses_safe [OF _ Suc.prems(2)] Pair Inr da by simp
      from Suc.prems(1) first Suc.IH redirect_fetchable show ?thesis
        unfolding fetch_hops.simps Pair Inr da
        by (fastforce split: if_splits prod.splits option.splits sum.splits)
    qed (use Suc.prems Pair in auto)
  qed
qed simp

lemma read_body_bound: "read_body m acc chunks = Inr b \<Longrightarrow> length acc \<le> unat m \<Longrightarrow> length b \<le> unat m"
  by (induction m acc chunks rule: read_body.induct) (auto split: if_splits)

lemma fetch_hops_bound:
  "fetch_hops net extra m hops current w = (Inr b, sent, w') \<Longrightarrow> length b \<le> unat m"
  by (induction hops arbitrary: current w sent)
     (auto simp: read_response_def dest!: read_body_bound
       split: if_splits prod.splits option.splits sum.splits)

text \<open>
  C24. A fetch reaches only public hosts: with no test exemption, whatever the resolver, the
  servers and their redirects answer, every request of a fetch goes to an \<open>https\<close> URL on the
  default port without credentials, over a connection pinned to addresses of which every one is
  public, for the very name that was resolved. It sends at most six requests, and returns at
  most the number of bytes it was allowed.
\<close>

theorem fetch_reaches_public_only:
  assumes "parse_attachment_url url_parse raw = Inr url" and "fetch net [] url max_bytes w = (res, sent, w')"
  shows "list_all (\<lambda>(u, domain, addrs). fetchable u \<and> addrs \<noteq> [] \<and>
        list_all (\<lambda>a. is_public_ip (sock_ip a)) addrs \<and>
        (\<forall>d. url_host u = Some (HostDomain d) \<longrightarrow> domain = Some d)) sent
    \<and> length sent \<le> 6 \<and> (\<forall>b. res = Inr b \<longrightarrow> length b \<le> unat max_bytes)"
proof -
  have "fetchable url" using assms(1) by (simp add: parse_attachment_url_ok)
  from fetch_hops_safe [OF assms(2) [unfolded fetch_def] this] fetch_hops_bound assms(2) [unfolded fetch_def]
  have "list_all safe_request sent" "length sent \<le> 6" "\<forall>b. res = Inr b \<longrightarrow> length b \<le> unat max_bytes"
    by (auto simp: MAX_REDIRECTS_def)
  moreover have "safe_request = (\<lambda>(u, domain, addrs). fetchable u \<and> addrs \<noteq> [] \<and>
      list_all (\<lambda>a. is_public_ip (sock_ip a)) addrs \<and>
      (\<forall>d. url_host u = Some (HostDomain d) \<longrightarrow> domain = Some d))"
    by (rule ext) (simp add: safe_request_def)
  ultimately show ?thesis by simp
qed

text \<open>A network for the witness: one name, which answers with a redirect to itself and then a body.\<close>

definition sample_url :: url where
  "sample_url = \<lparr>url_str = ''https://files.example/a'', url_scheme = ''https'', url_username = [],
     url_password = None, url_port = None, url_host = Some (HostDomain ''files.example'')\<rparr>"

definition sample_net :: "nat net" where
  "sample_net = \<lparr>
     net_lookup_host = (\<lambda>d p n. (Some [\<lparr>sock_ip = V4 (Ipv4Addr 8 8 8 8), sock_port = p\<rparr>], n)),
     net_client_builds = (\<lambda>_ _. True),
     net_send = (\<lambda>d a u n. (Some \<lparr>resp_status = (if n = 0 then 302 else 200),
        resp_location = Some ''/b'', resp_encodings = [], resp_content_length = None,
        resp_chunks = [Some [1, 2], Some [3]]\<rparr>, Suc n)),
     net_join = (\<lambda>_ _. Some ''https://files.example/a''),
     net_url_parse = (\<lambda>_. Some sample_url)\<rparr>"

theorem fetch_reaches_public_only_witness:
  "\<exists>sent w'. fetch sample_net [] sample_url 3 0 = (Inr [1, 2, 3], sent, w') \<and> length sent = 2
     \<and> list_all (\<lambda>(u, domain, addrs). list_all (\<lambda>a. is_public_ip (sock_ip a)) addrs) sent"
proof -
  have "case fetch sample_net [] sample_url 3 0 of (res, sent, w') \<Rightarrow> res = Inr [1, 2, 3] \<and> length sent = 2"
    by code_simp
  then obtain sent w' where run: "fetch sample_net [] sample_url 3 0 = (Inr [1, 2, 3], sent, w')"
      and len: "length sent = 2" by (cases "fetch sample_net [] sample_url 3 0") auto
  have "parse_attachment_url (\<lambda>_. Some sample_url) [] = Inr sample_url" by code_simp
  from fetch_reaches_public_only [OF this run] run len show ?thesis
    by (auto simp: list_all_iff)
qed

end
