(* ===== verification/Objects.thy ===== *)
theory Objects
  imports Domain Fetch
begin

text \<open>
  \<open>crates/webhook/src/mail/objects.rs\<close> and \<open>object_keys.rs\<close>: the object store a mail bucket is
  used through, as a record of its operations over the state \<open>'w\<close> of the store, the keys of the
  bucket, and the \<open>Content-Disposition\<close> of a download. The store itself is S3.
\<close>

datatype object_error = ObjNotFound | ObjTooLarge u64 | ObjTransient | ObjPermanent

record 'w object_store =
  obj_get :: "string \<Rightarrow> u64 \<Rightarrow> 'w \<Rightarrow> (object_error + bytes) \<times> 'w"
  obj_head :: "string \<Rightarrow> 'w \<Rightarrow> (object_error + u64 option) \<times> 'w"
  obj_put_if_absent :: "string \<Rightarrow> bytes \<Rightarrow> string \<Rightarrow> 'w \<Rightarrow> (object_error + put_outcome) \<times> 'w"
  obj_delete :: "string \<Rightarrow> 'w \<Rightarrow> (object_error + unit) \<times> 'w"

section \<open>Keys of the bucket\<close>

definition content_object :: "inbox_id \<Rightarrow> string \<Rightarrow> string" where
  "content_object inbox message_id = ''messages/'' @ inbox_str inbox @ ''/'' @ message_id @ ''.json''"

definition attachment_object :: "string \<Rightarrow> string \<Rightarrow> string" where
  "attachment_object message_id attachment_id = ''attachments/'' @ message_id @ ''/'' @ attachment_id"

definition spec_object :: "string \<Rightarrow> string" where
  "spec_object message_id = ''outbox/'' @ message_id @ ''/spec.json''"

definition part_object :: "string \<Rightarrow> string \<Rightarrow> string" where
  "part_object message_id attachment_id = ''outbox/'' @ message_id @ ''/parts/'' @ attachment_id"

section \<open>Downloads\<close>

definition is_ascii_alphanumeric :: "char \<Rightarrow> bool" where
  "is_ascii_alphanumeric c \<longleftrightarrow> is_ascii_lowercase c \<or> is_ascii_digit c \<or>
     (CHR ''A'' \<le> c \<and> c \<le> CHR ''Z'')"

definition filename_char :: "char \<Rightarrow> bool" where
  "filename_char c \<longleftrightarrow> is_ascii_alphanumeric c \<or> c \<in> {CHR ''.'', CHR ''-'', CHR ''_'', CHR '' ''}"

definition trim_dots :: "string \<Rightarrow> string" where
  "trim_dots s = rev (dropWhile (\<lambda>c. c = CHR ''.'') (rev (dropWhile (\<lambda>c. c = CHR ''.'') s)))"

text \<open>\<open>str::chars\<close>: a character of a UTF-8 string, by its first byte.\<close>

definition first_bytes :: "string \<Rightarrow> string" where
  "first_bytes s = filter (\<lambda>c. \<not> (128 \<le> (of_char c :: nat) \<and> (of_char c :: nat) < 192)) s"

definition attachment_disposition :: "string option \<Rightarrow> string" where
  "attachment_disposition filename =
     (let cleaned = map (\<lambda>c. if filename_char c then c else CHR ''_'')
            (first_bytes (case filename of None \<Rightarrow> [] | Some name \<Rightarrow> name));
          cleaned = trim_dots (trim cleaned);
          name = (if cleaned = [] then ''download'' else cleaned);
          name = take 128 name
      in ''attachment; filename='' @ [CHR 0x22] @ name @ [CHR 0x22])"

section \<open>Properties\<close>

lemma append_prefix_free:
  assumes "c \<notin> List.set xs" and "c \<notin> List.set ys" and "xs @ c # us = ys @ c # vs"
  shows "xs = ys \<and> us = vs"
  using assms
proof (induction xs arbitrary: ys)
  case Nil
  then show ?case by (cases ys) auto
next
  case (Cons x xs)
  then show ?case by (cases ys) auto
qed

text \<open>
  Two objects of the bucket share a key only if they are the same object of the same
  message: for message ids without a slash, the content document, the kept attachments, the send
  spec and the parts of a send never collide, whatever the attachment ids are.
\<close>

theorem object_keys_inject:
  assumes "CHR ''/'' \<notin> List.set m" and "CHR ''/'' \<notin> List.set m'"
  shows "(spec_object m = spec_object m' \<longleftrightarrow> m = m')
    \<and> (part_object m a = part_object m' a' \<longleftrightarrow> m = m' \<and> a = a')
    \<and> (attachment_object m a = attachment_object m' a' \<longleftrightarrow> m = m' \<and> a = a')
    \<and> spec_object m \<noteq> part_object m' a
    \<and> spec_object m \<noteq> attachment_object m' a \<and> part_object m a \<noteq> attachment_object m' a'
    \<and> spec_object m \<noteq> content_object i m' \<and> part_object m a \<noteq> content_object i m'"
proof -
  have split: "xs @ CHR ''/'' # us = ys @ CHR ''/'' # vs \<longleftrightarrow> xs = ys \<and> us = vs"
    if "CHR ''/'' \<notin> List.set xs" "CHR ''/'' \<notin> List.set ys" for xs ys us vs
    using append_prefix_free [OF that] by blast
  show ?thesis
    by (simp add: spec_object_def part_object_def attachment_object_def content_object_def
        split [OF assms])
qed

theorem object_keys_inject_witness:
  "part_object ''m1'' ''a'' \<noteq> part_object ''m2'' ''a'' \<and> spec_object ''m1'' \<noteq> part_object ''m2'' ''spec.json''"
proof -
  have "CHR ''/'' \<notin> List.set ''m1''" "CHR ''/'' \<notin> List.set ''m2''" by simp_all
  from object_keys_inject [OF this, of "''a''" "''a''"] object_keys_inject [OF this, of "''spec.json''"]
  show ?thesis by simp
qed

lemma trim_dots_set: "List.set (trim_dots s) \<subseteq> List.set s"
  unfolding trim_dots_def by (auto dest!: set_dropWhileD)

lemma trim_set: "List.set (trim s) \<subseteq> List.set s"
proof -
  have "List.set (trim_end x) \<subseteq> List.set x" for x
    using set_mono_suffix [OF strip_all_suffix [of "map rev whitespace" "rev x"]] by (simp add: trim_end_def)
  moreover have "List.set (trim_start x) \<subseteq> List.set x" for x
    using set_mono_suffix [OF strip_all_suffix] by (simp add: trim_start_def)
  ultimately show ?thesis unfolding trim_def by blast
qed

text \<open>
  Whatever name the sender of a message wrote, the disposition signed into a download URL
  quotes a name of one to 128 characters, each a letter, digit, dot, dash, underscore or space: no
  quote, separator or line break of the sender reaches the header.
\<close>

theorem attachment_disposition_safe:
  "\<exists>name. attachment_disposition filename = ''attachment; filename='' @ [CHR 0x22] @ name @ [CHR 0x22]
     \<and> list_all filename_char name \<and> name \<noteq> [] \<and> length name \<le> 128"
proof -
  define mapped where "mapped = map (\<lambda>c. if filename_char c then c else CHR ''_'')
    (first_bytes (case filename of None \<Rightarrow> [] | Some name \<Rightarrow> name))"
  define cleaned where "cleaned = trim_dots (trim mapped)"
  define name where "name = take 128 (if cleaned = [] then ''download'' else cleaned)"
  have "filename_char (CHR ''_'')" by (simp add: filename_char_def)
  then have "\<forall>c \<in> List.set mapped. filename_char c" by (auto simp: mapped_def)
  then have "\<forall>c \<in> List.set cleaned. filename_char c"
    using trim_dots_set [of "trim mapped"] trim_set [of mapped] unfolding cleaned_def by blast
  moreover have "\<forall>c \<in> List.set ''download''. filename_char c"
    by (simp add: filename_char_def is_ascii_alphanumeric_def is_ascii_lowercase_def less_eq_char_def)
  ultimately have "\<forall>c \<in> List.set name. filename_char c"
    unfolding name_def using set_take_subset by (cases "cleaned = []") fastforce+
  moreover have "name \<noteq> []" "length name \<le> 128" by (simp_all add: name_def)
  moreover have "attachment_disposition filename = ''attachment; filename='' @ [CHR 0x22] @ name @ [CHR 0x22]"
    by (simp only: attachment_disposition_def Let_def name_def cleaned_def mapped_def)
  ultimately show ?thesis by (auto simp: list_all_iff)
qed

end
