(* ===== verification/Content.thy ===== *)
theory Content
  imports Chars Objects
begin

text \<open>
  \<open>crates/mailbox/src/content.rs\<close> and \<open>crates/webhook/src/mail/content.rs\<close>: the content document
  of a message, its degradation to a size that can be read back, and how it is stored and loaded.
  \<open>serde_json\<close> is a pair of parameters.
\<close>

definition MAX_INBOUND_RAW_BYTES :: u64 where "MAX_INBOUND_RAW_BYTES = 45000000"
definition MAX_CONTENT_BYTES :: u64 where "MAX_CONTENT_BYTES = 2 * MAX_INBOUND_RAW_BYTES"

record message_content =
  ct_text :: "string option"
  ct_html :: "string option"
  ct_headers :: "(string, string) btree_map"
  ct_references :: "string list"
  ct_reply_to :: "string list"
  ct_verdicts :: "json option"

definition content_default :: message_content where
  "content_default =
     \<lparr>ct_text = None, ct_html = None, ct_headers = bt_empty, ct_references = [], ct_reply_to = [],
      ct_verdicts = None\<rparr>"

definition within_cap :: "u64 \<Rightarrow> bytes \<Rightarrow> bool" where
  "within_cap max_bytes body \<longleftrightarrow> len_u64 body \<le> max_bytes"

text \<open>Each further field dropped while the document is too large; the last one is not measured.\<close>

fun degrade ::
  "(message_content \<Rightarrow> bytes option) \<Rightarrow> u64 \<Rightarrow> (message_content \<Rightarrow> message_content) list \<Rightarrow> message_content
     \<Rightarrow> bytes option" where
  "degrade to_vec max_bytes [] degraded = to_vec degraded"
| "degrade to_vec max_bytes (drop_field # drops) degraded =
     (case to_vec degraded of
        None \<Rightarrow> None
      | Some body \<Rightarrow> if within_cap max_bytes body then Some body
          else degrade to_vec max_bytes drops (drop_field degraded))"

definition without_bodies :: "message_content \<Rightarrow> message_content" where
  "without_bodies content =
     \<lparr>ct_text = None, ct_html = None, ct_headers = ct_headers content, ct_references = ct_references content,
      ct_reply_to = ct_reply_to content, ct_verdicts = ct_verdicts content\<rparr>"

definition field_drops :: "(message_content \<Rightarrow> message_content) list" where
  "field_drops =
     [ct_references_update (\<lambda>_. []), ct_reply_to_update (\<lambda>_. []), ct_headers_update (\<lambda>_. bt_empty),
      ct_verdicts_update (\<lambda>_. None)]"

definition serialize_within ::
  "(message_content \<Rightarrow> bytes option) \<Rightarrow> message_content \<Rightarrow> u64 \<Rightarrow> (bytes \<times> bool) option" where
  "serialize_within to_vec content max_bytes =
     (case to_vec content of
        None \<Rightarrow> None
      | Some body \<Rightarrow> if within_cap max_bytes body then Some (body, False)
          else (case degrade to_vec max_bytes field_drops (without_bodies content) of
              None \<Rightarrow> None
            | Some body \<Rightarrow> Some (body, True)))"

section \<open>Storing and loading\<close>

definition store_content ::
  "(message_content \<Rightarrow> bytes option) \<Rightarrow> 'w object_store \<Rightarrow> inbox_id \<Rightarrow> message_id \<Rightarrow> message_content
     \<Rightarrow> 'w \<Rightarrow> (object_error + unit) \<times> 'w" where
  "store_content to_vec objects inbox message_id content w =
     (case serialize_within to_vec content MAX_CONTENT_BYTES of
        None \<Rightarrow> (Inl ObjPermanent, w)
      | Some (body, fields_dropped) \<Rightarrow>
          (case obj_put_if_absent objects (content_object inbox (message_id_str message_id)) body
              ''application/json'' w of
             (Inl e, w') \<Rightarrow> (Inl e, w')
           | (Inr _, w') \<Rightarrow> (Inr (), w')))"

definition load_content ::
  "(bytes \<Rightarrow> message_content option) \<Rightarrow> 'w object_store \<Rightarrow> mail_message \<Rightarrow> 'w
     \<Rightarrow> (object_error + message_content) \<times> 'w" where
  "load_content from_slice objects msg w =
     (case obj_get objects (content_object (msg_inbox_id msg) (message_id_str (msg_message_id msg)))
         MAX_CONTENT_BYTES w of
        (Inr body, w') \<Rightarrow>
          (case from_slice body of None \<Rightarrow> (Inl ObjPermanent, w') | Some content \<Rightarrow> (Inr content, w'))
      | (Inl ObjNotFound, w') \<Rightarrow> (Inr content_default, w')
      | (Inl error, w') \<Rightarrow> (Inl error, w'))"

section \<open>What is stored\<close>

text \<open>
  The reference, written out: the whole document; without its bodies; then also without its references,
  its reply-to addresses, its headers and its verdicts, in turn.
\<close>

definition degradations :: "message_content \<Rightarrow> message_content list" where
  "degradations c =
     [c,
      c\<lparr>ct_text := None, ct_html := None\<rparr>,
      c\<lparr>ct_text := None, ct_html := None, ct_references := []\<rparr>,
      c\<lparr>ct_text := None, ct_html := None, ct_references := [], ct_reply_to := []\<rparr>,
      c\<lparr>ct_text := None, ct_html := None, ct_references := [], ct_reply_to := [], ct_headers := bt_empty\<rparr>,
      content_default]"

text \<open>The documents the loop measures, in its own terms.\<close>

fun scan_fields :: "('a \<Rightarrow> 'a) list \<Rightarrow> 'a \<Rightarrow> 'a list" where
  "scan_fields [] c = [c]"
| "scan_fields (f # fs) c = c # scan_fields fs (f c)"

lemma degradations_scan: "degradations content = content # scan_fields field_drops (without_bodies content)"
  by (simp add: degradations_def field_drops_def without_bodies_def content_default_def)

lemma last_degradation: "last (degradations content) = content_default"
  by (simp add: degradations_def)

lemma degrade_find:
  assumes "\<And>c. to_vec c = Some (enc c)" and "within_cap n (enc (last (scan_fields drops c)))"
  shows "\<exists>d. find (\<lambda>d. within_cap n (enc d)) (scan_fields drops c) = Some d
    \<and> degrade to_vec n drops c = Some (enc d)"
  using assms(2)
proof (induction drops arbitrary: c)
  case (Cons f fs)
  then show ?case
    by (cases fs) (auto simp: assms(1))
qed (auto simp: assms(1))

lemma serialize_within_run:
  assumes total: "\<And>c. to_vec c = Some (enc c)" and fits: "within_cap n (enc content_default)"
  shows "\<exists>d. find (\<lambda>d. within_cap n (enc d)) (degradations content) = Some d \<and> within_cap n (enc d)
    \<and> serialize_within to_vec content n = Some (enc d, \<not> within_cap n (enc content))"
proof (cases "within_cap n (enc content)")
  case True
  then show ?thesis by (simp add: serialize_within_def degradations_scan total)
next
  case False
  have "last (scan_fields field_drops (without_bodies content)) = last (degradations content)"
    by (simp add: degradations_scan field_drops_def)
  then have "within_cap n (enc (last (scan_fields field_drops (without_bodies content))))"
    using fits by (simp only: last_degradation)
  with degrade_find [of to_vec enc n field_drops "without_bodies content"] total obtain d where
    d: "find (\<lambda>d. within_cap n (enc d)) (scan_fields field_drops (without_bodies content)) = Some d"
      "degrade to_vec n field_drops (without_bodies content) = Some (enc d)" by blast
  then show ?thesis using False find_SomeD [OF d(1)]
    by (simp add: serialize_within_def degradations_scan total)
qed

text \<open>
  C29. A content document is degraded only as far as its size asks: when every document serializes
  and the empty one fits, what is stored is the serialization of the first document, in the order
  whole, without bodies, without references, without reply-to, without headers, without verdicts,
  that is within the cap, and the flag tells whether that is not the whole document.
\<close>

theorem serialize_within_first:
  assumes total: "\<And>c. to_vec c = Some (enc c)" and fits: "within_cap n (enc content_default)"
  shows "\<exists>d. find (\<lambda>d. within_cap n (enc d)) (degradations content) = Some d \<and> within_cap n (enc d)
    \<and> serialize_within to_vec content n = Some (enc d, \<not> within_cap n (enc content))"
  by (rule serialize_within_run [where enc = enc]) (simp_all add: assms)

text \<open>A serialization that only writes the text: the whole document is too large, the next one fits.\<close>

definition text_only :: "message_content \<Rightarrow> bytes" where
  "text_only c = (case ct_text c of None \<Rightarrow> [] | Some s \<Rightarrow> map (\<lambda>ch. of_nat (of_char ch)) s)"

theorem serialize_within_first_witness:
  "\<exists>d. find (\<lambda>d. within_cap 3 (text_only d)) (degradations (content_default\<lparr>ct_text := Some ''hello''\<rparr>)) = Some d
    \<and> within_cap 3 (text_only d)
    \<and> serialize_within (\<lambda>c. Some (text_only c)) (content_default\<lparr>ct_text := Some ''hello''\<rparr>) 3
       = Some (text_only d, True)"
proof -
  have fits: "within_cap 3 (text_only content_default)"
    by (simp add: within_cap_def text_only_def content_default_def len_u64_def)
  have big: "\<not> within_cap 3 (text_only (content_default\<lparr>ct_text := Some ''hello''\<rparr>))"
    by (simp add: within_cap_def text_only_def content_default_def len_u64_def)
  from serialize_within_first [of "\<lambda>c. Some (text_only c)" text_only 3
      "content_default\<lparr>ct_text := Some ''hello''\<rparr>", OF refl fits] big show ?thesis by simp
qed

end
