(* ===== verification/Labels.thy ===== *)
theory Labels
  imports Domain
begin

text \<open>
  \<open>crates/mailbox/src/labels.rs\<close>: the labels the pipeline applies itself, which of them a
  request may set, and the verdict of an inbound receipt.
\<close>

datatype system_label =
    LReceived | LSent | LQueued | LUnread | LSpam | LTrash | LUnauthenticated | LDelivered
  | LBounced | LComplained | LRejected | LOpened

definition system_label_ALL :: "system_label list" where
  "system_label_ALL =
     [LReceived, LSent, LQueued, LUnread, LSpam, LTrash, LUnauthenticated, LDelivered,
      LBounced, LComplained, LRejected, LOpened]"

fun label_str :: "system_label \<Rightarrow> string" where
  "label_str LReceived = ''received''"
| "label_str LSent = ''sent''"
| "label_str LQueued = ''queued''"
| "label_str LUnread = ''unread''"
| "label_str LSpam = ''spam''"
| "label_str LTrash = ''trash''"
| "label_str LUnauthenticated = ''unauthenticated''"
| "label_str LDelivered = ''delivered''"
| "label_str LBounced = ''bounced''"
| "label_str LComplained = ''complained''"
| "label_str LRejected = ''rejected''"
| "label_str LOpened = ''opened''"

definition label_parse :: "string \<Rightarrow> system_label option" where
  "label_parse label = find (\<lambda>known. label_str known = label) system_label_ALL"

fun is_settable_by_request :: "system_label \<Rightarrow> bool" where
  "is_settable_by_request LUnread = True"
| "is_settable_by_request LSpam = True"
| "is_settable_by_request LTrash = True"
| "is_settable_by_request LReceived = False"
| "is_settable_by_request LSent = False"
| "is_settable_by_request LQueued = False"
| "is_settable_by_request LUnauthenticated = False"
| "is_settable_by_request LDelivered = False"
| "is_settable_by_request LBounced = False"
| "is_settable_by_request LComplained = False"
| "is_settable_by_request LRejected = False"
| "is_settable_by_request LOpened = False"

definition has_label :: "string list \<Rightarrow> system_label \<Rightarrow> bool" where
  "has_label labels label \<longleftrightarrow> list_ex (\<lambda>existing. existing = label_str label) labels"

definition user_label_count :: "string list \<Rightarrow> nat" where
  "user_label_count labels = length (filter (\<lambda>label. label_parse label = None) labels)"

definition is_reserved :: "string \<Rightarrow> bool" where
  "is_reserved label =
     (case label_parse label of None \<Rightarrow> False | Some l \<Rightarrow> \<not> is_settable_by_request l)"

datatype inbound_verdict = VSpam | VUnauthenticated | VClean

fun verdict_label :: "inbound_verdict \<Rightarrow> system_label option" where
  "verdict_label VSpam = Some LSpam"
| "verdict_label VUnauthenticated = Some LUnauthenticated"
| "verdict_label VClean = None"

definition classify_inbound :: "bool \<Rightarrow> bool \<Rightarrow> inbound_verdict" where
  "classify_inbound spam_or_virus_failed auth_failed =
     (if spam_or_virus_failed then VSpam
      else if auth_failed then VUnauthenticated
      else VClean)"

lemma label_str_inject [simp]: "label_str a = label_str b \<longleftrightarrow> a = b"
  by (cases a; cases b; simp)

lemma system_label_ALL_complete [simp]: "l \<in> set system_label_ALL"
  by (cases l) (simp_all add: system_label_ALL_def)

lemma label_parse_Some: "label_parse s = Some l \<longleftrightarrow> s = label_str l"
proof
  assume "label_parse s = Some l"
  then show "s = label_str l"
    by (auto simp: label_parse_def dest: find_SomeD)
next
  assume "s = label_str l"
  then show "label_parse s = Some l"
    by (cases l) (simp_all add: label_parse_def system_label_ALL_def)
qed

lemma label_parse_label_str [simp]: "label_parse (label_str l) = Some l"
  by (simp add: label_parse_Some)

lemma has_label_iff [simp]: "has_label labels l \<longleftrightarrow> label_str l \<in> set labels"
  by (auto simp: has_label_def list_ex_iff)

text \<open>
  The reserved labels are exactly the system labels a request may not set: the
  strings of every system label but \<open>unread\<close>, \<open>spam\<close> and \<open>trash\<close>, and no label of a
  caller's own. Parsing and printing system labels are inverse on the way.
\<close>

theorem is_reserved_iff:
  "is_reserved s \<longleftrightarrow>
     (\<exists>l. s = label_str l \<and> label_parse s = Some l \<and> l \<noteq> LUnread \<and> l \<noteq> LSpam \<and> l \<noteq> LTrash)"
proof (cases "label_parse s")
  case None
  then show ?thesis by (auto simp: is_reserved_def)
next
  case (Some l)
  have "\<not> is_settable_by_request l \<longleftrightarrow> l \<noteq> LUnread \<and> l \<noteq> LSpam \<and> l \<noteq> LTrash"
    by (cases l) simp_all
  with Some show ?thesis by (auto simp: is_reserved_def label_parse_Some)
qed

end
