(* ===== verification/Send.thy ===== *)
theory Send
  imports Labels
begin

text \<open>
  \<open>crates/mailbox/src/send.rs\<close>: the send state the sender claims, its transitions, and
  what each outcome does to the send state and to the message's labels.
\<close>

section \<open>Statuses and failures\<close>

fun send_status_str :: "send_status \<Rightarrow> string" where
  "send_status_str Queued = ''queued''"
| "send_status_str Sending = ''sending''"
| "send_status_str Sent = ''sent''"
| "send_status_str Failed = ''failed''"
| "send_status_str Unknown = ''unknown''"

definition send_status_ALL :: "send_status list" where
  "send_status_ALL = [Queued, Sending, Sent, Failed, Unknown]"

definition send_status_parse :: "string \<Rightarrow> send_status option" where
  "send_status_parse s = find (\<lambda>x. send_status_str x = s) send_status_ALL"

fun is_swept :: "send_status \<Rightarrow> bool" where
  "is_swept Queued = True"
| "is_swept Sending = True"
| "is_swept Unknown = True"
| "is_swept Sent = False"
| "is_swept Failed = False"

datatype send_failure =
    SendSpecMissing | AttachmentFetchFailed | AttachmentFetchUnavailable | OutboxUnavailable
  | MessageTooLarge | BuildFailed | Rejected | SesUnavailable | ClosedByOperator
  | SenderAbandoned

fun send_failure_str :: "send_failure \<Rightarrow> string" where
  "send_failure_str SendSpecMissing = ''send_spec_missing''"
| "send_failure_str AttachmentFetchFailed = ''attachment_fetch_failed''"
| "send_failure_str AttachmentFetchUnavailable = ''attachment_fetch_unavailable''"
| "send_failure_str OutboxUnavailable = ''outbox_unavailable''"
| "send_failure_str MessageTooLarge = ''message_too_large''"
| "send_failure_str BuildFailed = ''build_failed''"
| "send_failure_str Rejected = ''rejected''"
| "send_failure_str SesUnavailable = ''ses_unavailable''"
| "send_failure_str ClosedByOperator = ''closed_by_operator''"
| "send_failure_str SenderAbandoned = ''sender_abandoned''"

definition send_failure_ALL :: "send_failure list" where
  "send_failure_ALL =
     [SendSpecMissing, AttachmentFetchFailed, AttachmentFetchUnavailable, OutboxUnavailable,
      MessageTooLarge, BuildFailed, Rejected, SesUnavailable, ClosedByOperator, SenderAbandoned]"

definition send_failure_parse :: "string \<Rightarrow> send_failure option" where
  "send_failure_parse s = find (\<lambda>x. send_failure_str x = s) send_failure_ALL"

lemma send_status_parse_str [simp]: "send_status_parse (send_status_str x) = Some x"
  by (cases x) (simp_all add: send_status_parse_def send_status_ALL_def)

lemma send_status_str_inject [simp]: "send_status_str a = send_status_str b \<longleftrightarrow> a = b"
  by (cases a; cases b; simp)

lemma send_failure_parse_str [simp]: "send_failure_parse (send_failure_str x) = Some x"
  by (cases x) (simp_all add: send_failure_parse_def send_failure_ALL_def)

section \<open>Send state\<close>

record envelope =
  env_to :: "string list"
  env_cc :: "string list"
  env_bcc :: "string list"

definition recipient_count :: "envelope \<Rightarrow> nat" where
  "recipient_count e = length (env_to e) + length (env_cc e) + length (env_bcc e)"

definition envelope_is_empty :: "envelope \<Rightarrow> bool" where
  "envelope_is_empty e \<longleftrightarrow> recipient_count e = 0"

record send_state =
  snd_inbox_id :: inbox_id
  snd_message_id :: message_id
  snd_thread_id :: thread_id
  snd_send_status :: send_status
  snd_version :: u64
  snd_envelope :: envelope
  snd_sending_at :: "string option"
  snd_ses_call_at :: "string option"
  snd_requeued_at :: "string option"
  snd_transient_failures :: u32
  snd_operator_resend_at :: "string option"
  snd_failure :: "send_failure option"
  snd_idempotency_key_pk :: "string option"
  snd_created_at :: string
  snd_updated_at :: string
  snd_expires_at :: "u64 option"

definition queued ::
  "inbox_id \<Rightarrow> message_id \<Rightarrow> thread_id \<Rightarrow> envelope \<Rightarrow> string option \<Rightarrow> string \<Rightarrow> send_state" where
  "queued inbox_id message_id thread_id envelope idempotency_key_pk now =
     \<lparr>snd_inbox_id = inbox_id, snd_message_id = message_id, snd_thread_id = thread_id,
      snd_send_status = Queued, snd_version = 0, snd_envelope = envelope,
      snd_sending_at = None, snd_ses_call_at = None, snd_requeued_at = None,
      snd_transient_failures = 0, snd_operator_resend_at = None, snd_failure = None,
      snd_idempotency_key_pk = idempotency_key_pk, snd_created_at = now,
      snd_updated_at = now, snd_expires_at = None\<rparr>"

record send_key =
  key_key_hash :: string
  key_inbox_id :: inbox_id
  key_message_id :: message_id
  key_thread_id :: thread_id
  key_request_hash :: string
  key_route :: string
  key_created_at :: string
  key_expires_at :: u64

record spec_attachment =
  sa_attachment_id :: string
  sa_object_key :: "string option"
  sa_url :: "string option"
  sa_filename :: "string option"
  sa_content_type :: string
  sa_content_disposition :: content_disposition
  sa_content_id :: "string option"
  sa_size :: u64

record send_spec =
  spec_message_id :: message_id
  spec_thread_id :: thread_id
  spec_inbox_id :: inbox_id
  spec_from :: string
  spec_display_name :: "string option"
  spec_envelope :: envelope
  spec_reply_to :: "string list"
  spec_subject :: string
  spec_text :: "string option"
  spec_html :: "string option"
  spec_rfc_message_id :: string
  spec_in_reply_to :: "string option"
  spec_references :: "string list"
  spec_headers :: "(string, string) btree_map"
  spec_attachments :: "spec_attachment list"
  spec_created_at :: string

definition claimed :: "send_state \<Rightarrow> string \<Rightarrow> send_state" where
  "claimed s now = s\<lparr>snd_send_status := Sending, snd_version := snd_version s + 1,
     snd_sending_at := Some now, snd_ses_call_at := None, snd_requeued_at := None,
     snd_updated_at := now\<rparr>"

definition calling_ses :: "send_state \<Rightarrow> string \<Rightarrow> send_state" where
  "calling_ses s now = s\<lparr>snd_version := snd_version s + 1, snd_ses_call_at := Some now,
     snd_updated_at := now\<rparr>"

definition sent :: "send_state \<Rightarrow> string \<Rightarrow> send_state" where
  "sent s now = s\<lparr>snd_send_status := Sent, snd_version := snd_version s + 1,
     snd_sending_at := None, snd_updated_at := now\<rparr>"

definition failed :: "send_state \<Rightarrow> send_failure \<Rightarrow> string \<Rightarrow> send_state" where
  "failed s failure now = s\<lparr>snd_send_status := Failed, snd_version := snd_version s + 1,
     snd_sending_at := None, snd_failure := Some failure, snd_updated_at := now\<rparr>"

definition unknown :: "send_state \<Rightarrow> string \<Rightarrow> send_state" where
  "unknown s now = s\<lparr>snd_send_status := Unknown, snd_version := snd_version s + 1,
     snd_sending_at := None, snd_updated_at := now\<rparr>"

definition resumed :: "send_state \<Rightarrow> string \<Rightarrow> send_state" where
  "resumed s now = s\<lparr>snd_send_status := Queued, snd_version := snd_version s + 1,
     snd_sending_at := None, snd_ses_call_at := None, snd_requeued_at := Some now,
     snd_transient_failures := 0, snd_operator_resend_at := Some now, snd_updated_at := now\<rparr>"

definition released :: "send_state \<Rightarrow> string \<Rightarrow> send_state" where
  "released s now = s\<lparr>snd_send_status := Queued, snd_version := snd_version s + 1,
     snd_sending_at := None, snd_ses_call_at := None, snd_requeued_at := Some now,
     snd_transient_failures := snd_transient_failures s + 1, snd_updated_at := now\<rparr>"

lemmas send_transition_defs =
  claimed_def calling_ses_def sent_def failed_def unknown_def resumed_def released_def

section \<open>Outcomes\<close>

definition label_changes :: "string list \<Rightarrow> string list \<Rightarrow> string list \<times> string list" where
  "label_changes before after =
     (filter (\<lambda>label. label \<notin> set before) after, filter (\<lambda>label. label \<notin> set after) before)"

record ses_sent =
  ses_sent_message_id :: string
  ses_sent_region :: string

datatype mark_outcome =
    MSent ses_sent | MFailed send_failure | MUnknown | MReleased | MClosedSent | MResumed

fun settles :: "mark_outcome \<Rightarrow> bool" where
  "settles (MSent _) = True"
| "settles (MFailed _) = True"
| "settles MClosedSent = True"
| "settles MReleased = False"
| "settles MUnknown = False"
| "settles MResumed = False"

definition relabel :: "mail_message \<Rightarrow> system_label \<Rightarrow> system_label \<Rightarrow> string list" where
  "relabel msg remove add =
     (let labels = filter (\<lambda>label. label \<noteq> label_str remove) (msg_labels msg);
          labels = (if has_label labels add then labels else labels @ [label_str add])
      in sort labels)"

definition settled :: "mail_message \<Rightarrow> send_state \<Rightarrow> send_state" where
  "settled msg next = next\<lparr>snd_expires_at := Some (msg_expires_at msg)\<rparr>"

fun mark_transition ::
  "send_state \<Rightarrow> mail_message \<Rightarrow> mark_outcome \<Rightarrow> string
     \<Rightarrow> send_state \<times> string list \<times> ses_sent option" where
  "mark_transition state msg (MSent s) now =
     (settled msg (sent state now), relabel msg LQueued LSent, Some s)"
| "mark_transition state msg (MFailed failure) now =
     (settled msg (failed state failure now), relabel msg LQueued LRejected, None)"
| "mark_transition state msg MUnknown now = (unknown state now, msg_labels msg, None)"
| "mark_transition state msg MReleased now = (released state now, msg_labels msg, None)"
| "mark_transition state msg MClosedSent now =
     (settled msg (sent state now), relabel msg LQueued LSent, None)"
| "mark_transition state msg MResumed now = (resumed state now, msg_labels msg, None)"

section \<open>Properties\<close>

text \<open>A send queued for one recipient, for the witnesses.\<close>

definition sample_state :: send_state where
  "sample_state = queued (inbox_new ''support@example.com'') (MessageId ''m1'') (ThreadId ''m1'')
     \<lparr>env_to = [''a@example.com''], env_cc = [], env_bcc = []\<rparr> None ''t0''"

lemma relabel_set:
  "set (relabel msg remove add) = insert (label_str add) (set (msg_labels msg) - {label_str remove})"
  if "remove \<noteq> add"
  using that by (auto simp: relabel_def Let_def)

lemma relabel_sorted [sortedness]:
  assumes "strictly_sorted (msg_labels msg)"
  shows "strictly_sorted (relabel msg remove add)"
  using strictly_sorted_distinct [OF assms]
  by (auto simp: relabel_def Let_def intro!: strictly_sorted_sort)

lemma mark_transition_labels_sorted [sortedness]:
  assumes "strictly_sorted (msg_labels msg)"
    and "mark_transition state msg outcome now = (after, labels, ses)"
  shows "strictly_sorted labels"
  using assms by (cases outcome) (auto intro: relabel_sorted)

lemma label_changes_apply:
  assumes "label_changes before after = (added, removed)"
  shows "set after = (set before \<union> set added) - set removed"
    and "set added \<inter> set before = {}" and "set removed \<subseteq> set before"
    and "set added \<inter> set removed = {}"
  using assms by (auto simp: label_changes_def)

lemma mark_transition_frame:
  assumes "mark_transition state msg outcome now = (after, labels, ses)"
  shows "snd_version after = snd_version state + 1"
    and "snd_message_id after = snd_message_id state"
    and "snd_inbox_id after = snd_inbox_id state"
    and "snd_thread_id after = snd_thread_id state"
    and "snd_envelope after = snd_envelope state"
  using assms
  by (cases outcome; auto simp: settled_def send_transition_defs)+

text \<open>
  C34. An outcome settles a send exactly when the send leaves the swept statuses, and
  exactly then the send state takes its message's expiry; an SES id is recorded only
  for a send that reached SES. Every outcome moves the version on by one and keeps the
  send's identity and its recipients.
\<close>

theorem mark_transition_settles:
  assumes "mark_transition state msg outcome now = (after, labels, ses)"
    and "snd_expires_at state = None"
  shows "(settles outcome \<longleftrightarrow> \<not> is_swept (snd_send_status after))
    \<and> snd_expires_at after = (if settles outcome then Some (msg_expires_at msg) else None)
    \<and> (ses \<noteq> None \<longleftrightarrow> (\<exists>s. outcome = MSent s))
    \<and> snd_version after = snd_version state + 1
    \<and> snd_message_id after = snd_message_id state \<and> snd_envelope after = snd_envelope state"
  using assms
  by (cases outcome) (auto simp: settled_def send_transition_defs)

theorem mark_transition_settles_witness:
  "\<exists>after labels ses.
     mark_transition sample_state (sample_message ''support@example.com'' ''m1'' ''m1'') MClosedSent ''t1'' =
       (after, labels, ses)
     \<and> snd_expires_at after = Some 0 \<and> \<not> is_swept (snd_send_status after) \<and> ses = None"
proof -
  let ?msg = "sample_message ''support@example.com'' ''m1'' ''m1''"
  obtain after labels ses where tr: "mark_transition sample_state ?msg MClosedSent ''t1'' = (after, labels, ses)"
    by (cases "mark_transition sample_state ?msg MClosedSent ''t1''")
  have "snd_expires_at sample_state = None" by (simp add: sample_state_def queued_def)
  from mark_transition_settles [OF tr this] tr show ?thesis by (simp add: sample_message_def)
qed

text \<open>
  The labels an outcome leaves on the message: a send that went out trades \<open>queued\<close>
  for \<open>sent\<close>, one that failed trades it for \<open>rejected\<close>, any other keeps its labels; the
  labels stay strictly sorted, and the two lists \<open>label_changes\<close> hands to the thread are
  disjoint and turn the old label set into the new one.
\<close>

theorem mark_transition_labels:
  assumes "mark_transition state msg outcome now = (after, labels, ses)"
    and "strictly_sorted (msg_labels msg)"
    and "label_changes (msg_labels msg) labels = (added, removed)"
  shows "set labels = (case outcome of
             MSent _ \<Rightarrow> insert ''sent'' (set (msg_labels msg) - {''queued''})
           | MClosedSent \<Rightarrow> insert ''sent'' (set (msg_labels msg) - {''queued''})
           | MFailed _ \<Rightarrow> insert ''rejected'' (set (msg_labels msg) - {''queued''})
           | _ \<Rightarrow> set (msg_labels msg))
    \<and> strictly_sorted labels
    \<and> set labels = (set (msg_labels msg) \<union> set added) - set removed
    \<and> set added \<inter> set removed = {}"
  apply (intro conjI)
  subgoal using assms(1) relabel_set [of LQueued LSent msg] relabel_set [of LQueued LRejected msg]
    by (cases outcome) auto
  subgoal by (rule mark_transition_labels_sorted [OF assms(2,1)])
  subgoal by (rule label_changes_apply(1) [OF assms(3)])
  subgoal by (rule label_changes_apply(4) [OF assms(3)])
  done

theorem mark_transition_labels_witness:
  "\<exists>after labels ses added removed.
     mark_transition sample_state (sample_message ''support@example.com'' ''m1'' ''m1'') (MFailed Rejected) ''t1'' =
       (after, labels, ses)
     \<and> label_changes [''received'', ''unread''] labels = (added, removed)
     \<and> set labels = {''received'', ''rejected'', ''unread''} \<and> strictly_sorted labels"
proof -
  let ?msg = "sample_message ''support@example.com'' ''m1'' ''m1''"
  obtain after labels ses where tr:
    "mark_transition sample_state ?msg (MFailed Rejected) ''t1'' = (after, labels, ses)"
    by (cases "mark_transition sample_state ?msg (MFailed Rejected) ''t1''")
  obtain added removed where ch: "label_changes (msg_labels ?msg) labels = (added, removed)"
    by (cases "label_changes (msg_labels ?msg) labels")
  have ls: "msg_labels ?msg = [''received'', ''unread'']" by (simp add: sample_message_def)
  have "strictly_sorted (msg_labels ?msg)" unfolding ls by code_simp
  from mark_transition_labels [OF tr this ch] tr ch show ?thesis by (auto simp: ls)
qed

end
