(* ===== verification/Keys.thy ===== *)
theory Keys
  imports Send
begin

text \<open>
  \<open>crates/mailbox-store/src/keys.rs\<close>: the primary keys and the index partitions of the
  mail table. The last section shows that two items share a primary key only when they
  are the same item.
\<close>

record table_key =
  tk_pk :: string
  tk_sk :: string

definition INBOX_SK :: string where "INBOX_SK = ''META''"
definition INBOXES_PARTITION :: string where "INBOXES_PARTITION = ''INBOXES''"
definition SEND_STATE_SK :: string where "SEND_STATE_SK = ''STATE''"
definition RFC_ALIAS_SK :: string where "RFC_ALIAS_SK = ''RFC''"
definition SES_REF_SK :: string where "SES_REF_SK = ''REF''"
definition SEND_KEY_SK :: string where "SEND_KEY_SK = ''KEY''"
definition MESSAGE_SK_PREFIX :: string where "MESSAGE_SK_PREFIX = ''MSG#''"
definition OUTBOX_PK_PREFIX :: string where "OUTBOX_PK_PREFIX = ''OUTBOX#''"

lemmas sk_defs = INBOX_SK_def SEND_STATE_SK_def RFC_ALIAS_SK_def SES_REF_SK_def SEND_KEY_SK_def
  MESSAGE_SK_PREFIX_def OUTBOX_PK_PREFIX_def

definition inbox_pk :: "inbox_id \<Rightarrow> string" where
  "inbox_pk inbox = ''INBOX#'' @ inbox_str inbox"

definition inbox_key :: "inbox_id \<Rightarrow> table_key" where
  "inbox_key inbox = \<lparr>tk_pk = inbox_pk inbox, tk_sk = INBOX_SK\<rparr>"

definition message_key :: "inbox_id \<Rightarrow> message_id \<Rightarrow> table_key" where
  "message_key inbox message_id =
     \<lparr>tk_pk = inbox_pk inbox, tk_sk = MESSAGE_SK_PREFIX @ message_id_str message_id\<rparr>"

definition thread_key :: "inbox_id \<Rightarrow> thread_id \<Rightarrow> table_key" where
  "thread_key inbox thread_id =
     \<lparr>tk_pk = inbox_pk inbox, tk_sk = ''THR#'' @ thread_id_str thread_id\<rparr>"

definition send_state_key :: "message_id \<Rightarrow> table_key" where
  "send_state_key message_id =
     \<lparr>tk_pk = OUTBOX_PK_PREFIX @ message_id_str message_id, tk_sk = SEND_STATE_SK\<rparr>"

definition parse_outbox_pk :: "string \<Rightarrow> string option" where
  "parse_outbox_pk pk = strip_prefix OUTBOX_PK_PREFIX pk"

definition rfc_alias_key :: "inbox_id \<Rightarrow> string \<Rightarrow> table_key" where
  "rfc_alias_key inbox rfc_id =
     \<lparr>tk_pk = ''RFC#'' @ inbox_str inbox @ ''#'' @ rfc_id, tk_sk = RFC_ALIAS_SK\<rparr>"

definition ses_ref_key :: "string \<Rightarrow> table_key" where
  "ses_ref_key ses_message_id =
     \<lparr>tk_pk = ''SESMSG#'' @ ses_message_id, tk_sk = SES_REF_SK\<rparr>"

definition send_key_pk :: "string \<Rightarrow> string" where
  "send_key_pk key_hash = ''SENDKEY#'' @ key_hash"

definition send_key_key :: "string \<Rightarrow> table_key" where
  "send_key_key key_hash = \<lparr>tk_pk = send_key_pk key_hash, tk_sk = SEND_KEY_SK\<rparr>"

definition messages_partition :: "inbox_id \<Rightarrow> string" where
  "messages_partition inbox = ''INBOX#'' @ inbox_str inbox @ ''#MSG''"

definition threads_partition :: "inbox_id \<Rightarrow> string" where
  "threads_partition inbox = ''INBOX#'' @ inbox_str inbox @ ''#THR''"

definition thread_messages_partition :: "inbox_id \<Rightarrow> thread_id \<Rightarrow> string" where
  "thread_messages_partition inbox thread_id =
     ''THREAD#'' @ inbox_str inbox @ ''#'' @ thread_id_str thread_id"

definition thread_time_sort :: "string \<Rightarrow> thread_id \<Rightarrow> string" where
  "thread_time_sort timestamp thread_id = timestamp @ ''#'' @ thread_id_str thread_id"

definition send_status_partition :: "send_status \<Rightarrow> string" where
  "send_status_partition status = ''SENDSTATUS#'' @ send_status_str status"

record page_key =
  pgk_partition :: string
  pgk_sort :: string
  pgk_table_pk :: string
  pgk_table_sk :: string

lemmas key_defs = inbox_key_def message_key_def thread_key_def send_state_key_def
  rfc_alias_key_def ses_ref_key_def send_key_key_def inbox_pk_def send_key_pk_def sk_defs

section \<open>Keys do not collide\<close>

text \<open>What a key of the table names.\<close>

datatype item_ref =
    RefInbox inbox_id
  | RefMessage inbox_id message_id
  | RefThread inbox_id thread_id
  | RefSendState message_id
  | RefAlias inbox_id string
  | RefSes string
  | RefSendKey string

fun ref_key :: "item_ref \<Rightarrow> table_key" where
  "ref_key (RefInbox i) = inbox_key i"
| "ref_key (RefMessage i m) = message_key i m"
| "ref_key (RefThread i t) = thread_key i t"
| "ref_key (RefSendState m) = send_state_key m"
| "ref_key (RefAlias i r) = rfc_alias_key i r"
| "ref_key (RefSes s) = ses_ref_key s"
| "ref_key (RefSendKey h) = send_key_key h"

fun alias_inbox_ok :: "item_ref \<Rightarrow> bool" where
  "alias_inbox_ok (RefAlias i r) \<longleftrightarrow> CHR ''#'' \<notin> set (inbox_str i)"
| "alias_inbox_ok _ \<longleftrightarrow> True"

lemma separator_unique:
  assumes "c \<notin> set xs" and "c \<notin> set ys" and "xs @ c # us = ys @ c # vs"
  shows "xs = ys \<and> us = vs"
  using assms
proof (induction xs arbitrary: ys)
  case Nil
  then show ?case by (cases ys) auto
next
  case (Cons x xs)
  then show ?case by (cases ys) auto
qed

lemma message_id_str_inject [simp]: "message_id_str a = message_id_str b \<longleftrightarrow> a = b"
  by (cases a; cases b) simp

lemma thread_id_str_inject [simp]: "thread_id_str a = thread_id_str b \<longleftrightarrow> a = b"
  by (cases a; cases b) simp

lemma key_inject [simp]:
  "inbox_key a = inbox_key b \<longleftrightarrow> a = b"
  "message_key a m = message_key b n \<longleftrightarrow> a = b \<and> m = n"
  "thread_key a t = thread_key b u \<longleftrightarrow> a = b \<and> t = u"
  "send_state_key m = send_state_key n \<longleftrightarrow> m = n"
  "ses_ref_key s = ses_ref_key s' \<longleftrightarrow> s = s'"
  "send_key_key h = send_key_key h' \<longleftrightarrow> h = h'"
  by (simp_all add: key_defs)

lemma rfc_alias_key_inject:
  assumes "CHR ''#'' \<notin> set (inbox_str a)" and "CHR ''#'' \<notin> set (inbox_str b)"
  shows "rfc_alias_key a r = rfc_alias_key b q \<longleftrightarrow> a = b \<and> r = q"
  using separator_unique [OF assms, of r q] by (auto simp: key_defs)

lemma rfc_alias_key_same_inbox [simp]: "rfc_alias_key i r = rfc_alias_key i q \<longleftrightarrow> r = q"
  by (simp add: key_defs)

lemma key_kinds [simp]:
  "inbox_key i \<noteq> message_key j m" "inbox_key i \<noteq> thread_key j t" "inbox_key i \<noteq> send_state_key m"
  "inbox_key i \<noteq> rfc_alias_key j r" "inbox_key i \<noteq> ses_ref_key s" "inbox_key i \<noteq> send_key_key h"
  "message_key j m \<noteq> inbox_key i" "message_key i m \<noteq> thread_key j t"
  "message_key i m \<noteq> send_state_key n" "message_key i m \<noteq> rfc_alias_key j r"
  "message_key i m \<noteq> ses_ref_key s" "message_key i m \<noteq> send_key_key h"
  "thread_key i t \<noteq> inbox_key j" "thread_key i t \<noteq> message_key j m"
  "thread_key i t \<noteq> send_state_key m" "thread_key i t \<noteq> rfc_alias_key j r"
  "thread_key i t \<noteq> ses_ref_key s" "thread_key i t \<noteq> send_key_key h"
  "send_state_key m \<noteq> inbox_key i" "send_state_key m \<noteq> message_key i n"
  "send_state_key m \<noteq> thread_key i t" "send_state_key m \<noteq> rfc_alias_key i r"
  "send_state_key m \<noteq> ses_ref_key s" "send_state_key m \<noteq> send_key_key h"
  "rfc_alias_key i r \<noteq> inbox_key j" "rfc_alias_key i r \<noteq> message_key j m"
  "rfc_alias_key i r \<noteq> thread_key j t" "rfc_alias_key i r \<noteq> send_state_key m"
  "rfc_alias_key i r \<noteq> ses_ref_key s" "rfc_alias_key i r \<noteq> send_key_key h"
  "ses_ref_key s \<noteq> inbox_key i" "ses_ref_key s \<noteq> message_key i m" "ses_ref_key s \<noteq> thread_key i t"
  "ses_ref_key s \<noteq> send_state_key m" "ses_ref_key s \<noteq> rfc_alias_key i r"
  "ses_ref_key s \<noteq> send_key_key h"
  "send_key_key h \<noteq> inbox_key i" "send_key_key h \<noteq> message_key i m"
  "send_key_key h \<noteq> thread_key i t" "send_key_key h \<noteq> send_state_key m"
  "send_key_key h \<noteq> rfc_alias_key i r" "send_key_key h \<noteq> ses_ref_key s"
  by (simp_all add: key_defs)

text \<open>
  C37. Two items of the mail table share a primary key only if they are the same item:
  the keys of inboxes, messages, threads, send states, aliases, SES references and
  idempotency keys are injective and never collide across kinds. An alias key separates
  the inbox from the id with \<open>#\<close>, so this needs inboxes without that character.
\<close>

theorem ref_key_inject:
  assumes "alias_inbox_ok a" and "alias_inbox_ok b" and "ref_key a = ref_key b"
  shows "a = b"
  using assms by (cases a; cases b) (simp_all add: rfc_alias_key_inject)

theorem ref_key_inject_witness:
  "alias_inbox_ok (RefAlias (inbox_new ''support@example.com'') ''a#b'')
   \<and> ref_key (RefAlias (inbox_new ''support@example.com'') ''a#b'')
      \<noteq> ref_key (RefAlias (inbox_new ''sales@example.com'') ''a#b'')"
proof -
  have canon: "inbox_canon ''support@example.com'' = ''support@example.com''"
    "inbox_canon ''sales@example.com'' = ''sales@example.com''"
    by (simp_all add: inbox_canon_def trim_graphic is_graphic_def to_ascii_lowercase_def
        to_ascii_lowercase_char_def)
  have ok: "alias_inbox_ok (RefAlias (inbox_new ''support@example.com'') ''a#b'')"
    "alias_inbox_ok (RefAlias (inbox_new ''sales@example.com'') ''a#b'')"
    by (simp_all add: canon)
  have "RefAlias (inbox_new ''support@example.com'') ''a#b'' \<noteq>
      RefAlias (inbox_new ''sales@example.com'') ''a#b''"
    by (simp add: canon flip: inbox_str_inject)
  with ok show ?thesis using ref_key_inject by blast
qed

end
