(* ===== verification/Address.thy ===== *)
theory Address
  imports Domain
begin

text \<open>
  \<open>crates/mailbox/src/address.rs\<close>: when two stored participants name one mailbox. The
  address parser is the crate \<open>structured_email_address\<close>, so the result of parsing a
  participant under \<open>PARTICIPANT_CONFIG\<close> is a parameter \<open>parse_participant\<close>, whose values
  are compared as \<open>EmailAddress\<close> values are.
\<close>

definition same_mailbox :: "(string \<Rightarrow> 'm option) \<Rightarrow> string \<Rightarrow> string \<Rightarrow> bool" where
  "same_mailbox parse_participant a b =
     (case (parse_participant a, parse_participant b) of
        (Some x, Some y) \<Rightarrow> x = y
      | _ \<Rightarrow> eq_ignore_ascii_case a b)"

lemma same_mailbox_refl [simp]: "same_mailbox pp a a"
  by (simp add: same_mailbox_def eq_ignore_ascii_case_def split: option.split)

lemma same_mailbox_sym: "same_mailbox pp a b \<longleftrightarrow> same_mailbox pp b a"
  by (auto simp: same_mailbox_def eq_ignore_ascii_case_def split: option.splits)

end
