(* ===== verification/Thread.thy ===== *)
theory Thread
  imports Address Labels
begin

text \<open>
  \<open>crates/mailbox/src/thread.rs\<close>: which thread a message belongs to, and the roll-up a
  thread item keeps of its messages.
\<close>

section \<open>State\<close>

definition CANDIDATE_ID_CAP :: nat where "CANDIDATE_ID_CAP = 20"
definition THREAD_ADDRESS_SET_CAP :: nat where "THREAD_ADDRESS_SET_CAP = 50"
definition THREAD_SNAPSHOT_ADDRESS_CAP :: nat where "THREAD_SNAPSHOT_ADDRESS_CAP = 20"

record thread_state =
  thr_inbox_id :: inbox_id
  thr_thread_id :: thread_id
  thr_timestamp :: string
  thr_subject :: string
  thr_preview :: string
  thr_senders :: "string list"
  thr_recipients :: "string list"
  thr_labels :: "string list"
  thr_label_counts :: "(string, u64) btree_map"
  thr_last_message_id :: message_id
  thr_message_count :: u64
  thr_size :: u64
  thr_received_timestamp :: "string option"
  thr_sent_timestamp :: "string option"
  thr_attachments :: "attachment_meta list"
  thr_version :: u64
  thr_created_at :: string
  thr_updated_at :: string
  thr_expires_at :: u64

section \<open>Resolving a thread\<close>

fun add_references :: "string list \<Rightarrow> string list \<Rightarrow> string list" where
  "add_references ids [] = ids"
| "add_references ids (reference # rest) =
     (if length ids \<ge> CANDIDATE_ID_CAP then ids
      else if reference \<in> set ids then add_references ids rest
      else add_references (ids @ [reference]) rest)"

definition candidate_ids :: "string option \<Rightarrow> string list \<Rightarrow> string list" where
  "candidate_ids in_reply_to references =
     take CANDIDATE_ID_CAP
       (add_references (case in_reply_to of None \<Rightarrow> [] | Some i \<Rightarrow> [i]) (rev references))"

record alias_lookup =
  al_candidates :: "string list"
  al_found :: "string \<rightharpoonup> rfc_hit"

definition alias_thread_id :: "alias_lookup \<Rightarrow> thread_id option" where
  "alias_thread_id l = map_option hit_thread_id (find_map (al_found l) (al_candidates l))"

definition is_claimable :: "alias_lookup \<Rightarrow> string \<Rightarrow> bool" where
  "is_claimable l i =
     (case al_found l i of None \<Rightarrow> True | Some hit \<Rightarrow> hit_message_id hit = None)"

section \<open>The roll-up\<close>

definition add_label :: "string \<Rightarrow> string list \<Rightarrow> string list" where
  "add_label label labels = insert_absent label labels"

definition add_to_capped_set ::
  "(string \<Rightarrow> 'm option) \<Rightarrow> nat \<Rightarrow> string \<Rightarrow> string list \<Rightarrow> string list" where
  "add_to_capped_set pp cap value vs =
     (if list_ex (\<lambda>existing. same_mailbox pp existing value) vs then vs
      else if length vs \<ge> cap then vs
      else insert_absent value vs)"

text \<open>\<open>*label_counts.entry(label).or_insert(0) += 1\<close>.\<close>

definition bump_count :: "string \<Rightarrow> (string, u64) btree_map \<Rightarrow> (string, u64) btree_map" where
  "bump_count label counts =
     bt_insert label ((case bt_get counts label of None \<Rightarrow> 0 | Some c \<Rightarrow> c) + 1) counts"

definition participants :: "mail_message \<Rightarrow> string list" where
  "participants msg = msg_to msg @ msg_cc msg @ msg_bcc msg"

definition new_thread :: "(string \<Rightarrow> 'm option) \<Rightarrow> mail_message \<Rightarrow> thread_state" where
  "new_thread pp msg =
     \<lparr>thr_inbox_id = msg_inbox_id msg,
      thr_thread_id = msg_thread_id msg,
      thr_timestamp = msg_timestamp msg,
      thr_subject = msg_subject msg,
      thr_preview = msg_preview msg,
      thr_senders = add_to_capped_set pp THREAD_ADDRESS_SET_CAP (msg_from msg) [],
      thr_recipients =
        fold (add_to_capped_set pp THREAD_ADDRESS_SET_CAP) (participants msg) [],
      thr_labels = fold add_label (msg_labels msg) [],
      thr_label_counts = fold bump_count (msg_labels msg) bt_empty,
      thr_last_message_id = msg_message_id msg,
      thr_message_count = 1,
      thr_size = msg_size msg,
      thr_received_timestamp =
        (if msg_direction msg = Inbound then Some (msg_timestamp msg) else None),
      thr_sent_timestamp =
        (if msg_direction msg = Outbound then Some (msg_timestamp msg) else None),
      thr_attachments = take THREAD_ATTACHMENT_SUMMARIES (msg_attachments msg),
      thr_version = 0,
      thr_created_at = msg_created_at msg,
      thr_updated_at = msg_updated_at msg,
      thr_expires_at = msg_expires_at msg\<rparr>"

text \<open>\<open>while attachments.len() > THREAD_ATTACHMENT_SUMMARIES { attachments.remove(0) }\<close>.\<close>

fun drop_oldest :: "'a list \<Rightarrow> 'a list" where
  "drop_oldest xs =
     (if length xs > THREAD_ATTACHMENT_SUMMARIES then drop_oldest (tl xs) else xs)"

declare drop_oldest.simps [simp del]

definition newer_timestamp :: "string option \<Rightarrow> string \<Rightarrow> string option" where
  "newer_timestamp current timestamp =
     (case current of
        None \<Rightarrow> Some timestamp
      | Some c \<Rightarrow> if timestamp \<ge> c then Some timestamp else Some c)"

definition apply_message ::
  "(string \<Rightarrow> 'm option) \<Rightarrow> thread_state \<Rightarrow> mail_message \<Rightarrow> thread_state" where
  "apply_message pp existing msg =
     (let next = existing\<lparr>
            thr_senders :=
              add_to_capped_set pp THREAD_ADDRESS_SET_CAP (msg_from msg) (thr_senders existing),
            thr_recipients :=
              fold (add_to_capped_set pp THREAD_ADDRESS_SET_CAP) (participants msg)
                (thr_recipients existing),
            thr_labels := fold add_label (msg_labels msg) (thr_labels existing),
            thr_label_counts := fold bump_count (msg_labels msg) (thr_label_counts existing),
            thr_message_count := thr_message_count existing + 1,
            thr_size := thr_size existing + msg_size msg\<rparr>;
          next = (case msg_direction msg of
              Inbound \<Rightarrow> next\<lparr>thr_received_timestamp :=
                newer_timestamp (thr_received_timestamp next) (msg_timestamp msg)\<rparr>
            | Outbound \<Rightarrow> next\<lparr>thr_sent_timestamp :=
                newer_timestamp (thr_sent_timestamp next) (msg_timestamp msg)\<rparr>);
          next = next\<lparr>thr_attachments :=
            drop_oldest (thr_attachments next @ msg_attachments msg)\<rparr>;
          next = (if msg_timestamp msg \<ge> thr_timestamp next
            then next\<lparr>thr_timestamp := msg_timestamp msg,
              thr_last_message_id := msg_message_id msg, thr_preview := msg_preview msg\<rparr>
            else next)
      in next\<lparr>thr_version := thr_version next + 1, thr_updated_at := msg_updated_at msg,
           thr_expires_at := max (thr_expires_at next) (msg_expires_at msg)\<rparr>)"

definition patch_add :: "string \<Rightarrow> thread_state \<Rightarrow> thread_state" where
  "patch_add label next =
     next\<lparr>thr_labels := add_label label (thr_labels next),
       thr_label_counts := bump_count label (thr_label_counts next)\<rparr>"

text \<open>\<open>count.saturating_sub(1)\<close>, and the label leaves the thread with its last carrier.\<close>

definition patch_remove :: "string \<Rightarrow> thread_state \<Rightarrow> thread_state" where
  "patch_remove label next =
     (case bt_get (thr_label_counts next) label of
        None \<Rightarrow> next
      | Some count \<Rightarrow>
          let count = (if count = 0 then 0 else count - 1)
          in if count = 0
             then next\<lparr>thr_label_counts := bt_remove label (thr_label_counts next),
                    thr_labels := filter (\<lambda>existing. existing \<noteq> label) (thr_labels next)\<rparr>
             else next\<lparr>thr_label_counts := bt_insert label count (thr_label_counts next)\<rparr>)"

definition apply_label_patch ::
  "thread_state \<Rightarrow> string list \<Rightarrow> string list \<Rightarrow> string \<Rightarrow> thread_state" where
  "apply_label_patch existing added removed now =
     (let next = fold patch_remove removed (fold patch_add added existing)
      in next\<lparr>thr_version := thr_version next + 1, thr_updated_at := now\<rparr>)"

definition snapshot_of :: "thread_state \<Rightarrow> thread_snapshot" where
  "snapshot_of thread =
     \<lparr>snap_thread_id = thr_thread_id thread,
      snap_subject = thr_subject thread,
      snap_preview = thr_preview thread,
      snap_message_count = thr_message_count thread,
      snap_labels = thr_labels thread,
      snap_senders = take THREAD_SNAPSHOT_ADDRESS_CAP (thr_senders thread),
      snap_recipients = take THREAD_SNAPSHOT_ADDRESS_CAP (thr_recipients thread),
      snap_timestamp = thr_timestamp thread,
      snap_created_at = thr_created_at thread,
      snap_updated_at = thr_updated_at thread,
      snap_last_message_id = thr_last_message_id thread,
      snap_size = thr_size thread,
      snap_received_timestamp = thr_received_timestamp thread,
      snap_sent_timestamp = thr_sent_timestamp thread,
      snap_attachments = thr_attachments thread\<rparr>"

section \<open>Candidates\<close>

text \<open>The reference: every id once, at its first occurrence.\<close>

definition first_occurrences :: "'a list \<Rightarrow> 'a list" where
  "first_occurrences xs = rev (remdups (rev xs))"

lemma first_occurrences_snoc:
  "first_occurrences (xs @ [x]) =
     (if x \<in> set xs then first_occurrences xs else first_occurrences xs @ [x])"
  by (simp add: first_occurrences_def)

lemma distinct_first_occurrences [simp]: "distinct (first_occurrences xs)"
  by (simp add: first_occurrences_def)

lemma first_occurrences_append:
  "distinct ids \<Longrightarrow>
     first_occurrences (ids @ xs) = ids @ filter (\<lambda>x. x \<notin> set ids) (first_occurrences xs)"
proof (induction xs rule: rev_induct)
  case Nil
  then show ?case by (simp add: first_occurrences_def distinct_remdups_id)
next
  case (snoc x xs)
  have "set (first_occurrences xs) = set xs" for xs :: "'a list"
    by (simp add: first_occurrences_def)
  with snoc show ?case
    by (auto simp: first_occurrences_snoc simp flip: append_assoc)
qed

lemma first_occurrences_Cons:
  "first_occurrences (x # xs) = x # filter (\<lambda>y. y \<noteq> x) (first_occurrences xs)"
  using first_occurrences_append [of "[x]" xs] by simp

lemma add_references_eq:
  "distinct ids \<Longrightarrow> length ids \<le> CANDIDATE_ID_CAP \<Longrightarrow>
     take CANDIDATE_ID_CAP (add_references ids rs) =
     take CANDIDATE_ID_CAP (first_occurrences (ids @ rs))"
proof (induction ids rs rule: add_references.induct)
  case (1 ids)
  then show ?case by (simp add: first_occurrences_def distinct_remdups_id)
next
  case (2 ids r rs)
  consider (full) "length ids \<ge> CANDIDATE_ID_CAP" | (seen) "length ids < CANDIDATE_ID_CAP" "r \<in> set ids"
    | (new) "length ids < CANDIDATE_ID_CAP" "r \<notin> set ids"
    by linarith
  then show ?case
  proof cases
    case full
    with 2 show ?thesis by (simp add: first_occurrences_append)
  next
    case seen
    have "filter (\<lambda>x. x \<notin> set ids) (first_occurrences (r # rs)) =
        filter (\<lambda>x. x \<notin> set ids) (first_occurrences rs)"
      using seen(2) by (auto simp: first_occurrences_Cons intro: filter_cong)
    with 2 seen show ?thesis by (simp add: first_occurrences_append)
  next
    case new
    with 2 show ?thesis by simp
  qed
qed

text \<open>
  The candidate ids of a message are the first twenty distinct ids of
  \<open>In-Reply-To\<close> followed by \<open>References\<close> from the nearest to the farthest, each at its
  nearest occurrence.
\<close>

theorem candidate_ids_eq:
  "candidate_ids in_reply_to references =
     take 20 (first_occurrences ((case in_reply_to of None \<Rightarrow> [] | Some i \<Rightarrow> [i]) @ rev references))
   \<and> distinct (candidate_ids in_reply_to references)
   \<and> length (candidate_ids in_reply_to references) \<le> 20"
proof -
  let ?ids = "case in_reply_to of None \<Rightarrow> [] | Some i \<Rightarrow> [i]"
  have "distinct ?ids" and "length ?ids \<le> CANDIDATE_ID_CAP"
    by (simp_all add: CANDIDATE_ID_CAP_def split: option.split)
  then have eq: "candidate_ids in_reply_to references =
      take 20 (first_occurrences (?ids @ rev references))"
    unfolding candidate_ids_def by (subst add_references_eq) (simp_all add: CANDIDATE_ID_CAP_def)
  then show ?thesis by simp
qed

section \<open>Label counts\<close>

text \<open>
  \<open>counts_as t c\<close>: the thread's labels and label counts represent the function \<open>c\<close> from
  a label to how many of the thread's messages carry it.
\<close>

definition counts_as :: "thread_state \<Rightarrow> (string \<Rightarrow> nat) \<Rightarrow> bool" where
  "counts_as t c \<longleftrightarrow>
     strictly_sorted (thr_labels t) \<and>
     (\<forall>l. bt_get (thr_label_counts t) l = (if c l = 0 then None else Some (of_nat (c l)))) \<and>
     (\<forall>l. l \<in> set (thr_labels t) \<longleftrightarrow> c l \<noteq> 0)"

lemma counts_as_cong:
  "thr_labels t = thr_labels u \<Longrightarrow> thr_label_counts t = thr_label_counts u \<Longrightarrow>
     counts_as t c \<longleftrightarrow> counts_as u c"
  by (simp add: counts_as_def)

lemma patch_add_counts: "counts_as t c \<Longrightarrow> counts_as (patch_add l t) (c(l := c l + 1))"
  by (auto simp: counts_as_def patch_add_def add_label_def bump_count_def add.commute)

lemma patch_add_fold_counts:
  "counts_as t c \<Longrightarrow> counts_as (fold patch_add ls t) (\<lambda>l. c l + count_list ls l)"
proof (induction ls arbitrary: t c)
  case (Cons x ls)
  have "(\<lambda>l. (c(x := c x + 1)) l + count_list ls l) = (\<lambda>l. c l + count_list (x # ls) l)"
    by (auto simp: fun_eq_iff)
  with Cons.IH [OF patch_add_counts [OF Cons.prems], of x] show ?case by simp
qed simp

lemma of_nat_u64_eq_0: "n < 2 ^ 64 \<Longrightarrow> (of_nat n :: u64) = 0 \<longleftrightarrow> n = 0"
  by (auto simp: word_of_nat_eq_0_iff dest: dvd_imp_le)

lemma patch_remove_counts:
  assumes "counts_as t c" and "c l < 2 ^ 64"
  shows "counts_as (patch_remove l t) (c(l := c l - 1))"
proof (cases "c l")
  case 0
  with assms show ?thesis
    by (simp add: patch_remove_def counts_as_def fun_upd_idem)
next
  case (Suc n)
  have count: "bt_get (thr_label_counts t) l = Some (of_nat (Suc n))"
    using assms(1) Suc by (simp add: counts_as_def)
  have nonzero: "(of_nat (Suc n) :: u64) \<noteq> 0"
    using assms(2) Suc of_nat_u64_eq_0 [of "Suc n"] by simp
  have rest: "(of_nat n :: u64) = 0 \<longleftrightarrow> n = 0"
    using assms(2) Suc by (intro of_nat_u64_eq_0) simp
  from assms(1) Suc show ?thesis
    using count nonzero rest
    by (auto simp: counts_as_def patch_remove_def Let_def)
qed

lemma patch_remove_fold_counts:
  assumes "counts_as t c" and "\<And>l. c l < 2 ^ 64"
  shows "counts_as (fold patch_remove ls t) (\<lambda>l. c l - count_list ls l)"
  using assms
proof (induction ls arbitrary: t c)
  case (Cons x ls)
  have bound: "\<And>l. (c(x := c x - 1)) l < 2 ^ 64"
    using Cons.prems(2) by (auto simp: less_imp_diff_less)
  have "(\<lambda>l. (c(x := c x - 1)) l - count_list ls l) = (\<lambda>l. c l - count_list (x # ls) l)"
    by (auto simp: fun_eq_iff)
  with Cons.IH [OF patch_remove_counts [OF Cons.prems(1)] bound] Cons.prems(2) show ?case
    by simp
qed simp

lemma fold_patch_add_fields:
  "thr_labels (fold patch_add ls t) = fold add_label ls (thr_labels t)"
  "thr_label_counts (fold patch_add ls t) = fold bump_count ls (thr_label_counts t)"
  by (induction ls arbitrary: t) (simp_all add: patch_add_def)

section \<open>A thread rolls up its messages' labels\<close>

definition carriers :: "string \<Rightarrow> string set list \<Rightarrow> nat" where
  "carriers l Ls = length (filter (\<lambda>L. l \<in> L) Ls)"

text \<open>
  The abstract thread is the list of its messages' label sets; \<open>label_rollup t Ls\<close> says the
  stored thread represents it.
\<close>

definition label_rollup :: "thread_state \<Rightarrow> string set list \<Rightarrow> bool" where
  "label_rollup t Ls \<longleftrightarrow> counts_as t (\<lambda>l. carriers l Ls)"

lemma carriers_le: "carriers l Ls \<le> length Ls"
  by (simp add: carriers_def)

lemma carriers_snoc: "carriers l (Ls @ [L]) = carriers l Ls + (if l \<in> L then 1 else 0)"
  by (simp add: carriers_def)

lemma carriers_update:
  assumes "i < length Ls"
  shows "carriers l (Ls[i := L]) + (if l \<in> Ls ! i then 1 else 0) =
    carriers l Ls + (if l \<in> L then 1 else 0)"
proof -
  have "Ls = take i Ls @ Ls ! i # drop (Suc i) Ls"
    using assms by (rule id_take_nth_drop)
  then have "carriers l Ls = carriers l (take i Ls @ Ls ! i # drop (Suc i) Ls)" by simp
  with assms show ?thesis by (simp add: upd_conv_take_nth_drop carriers_def)
qed

lemma count_list_distinct: "distinct xs \<Longrightarrow> count_list xs x = (if x \<in> set xs then 1 else 0)"
  by (induction xs) auto

lemma label_rollup_new_thread:
  assumes "distinct (msg_labels msg)"
  shows "label_rollup (new_thread pp msg) [set (msg_labels msg)]"
proof -
  let ?t = "(new_thread pp msg)\<lparr>thr_labels := [], thr_label_counts := bt_empty\<rparr>"
  have "counts_as ?t (\<lambda>_. 0)" by (simp add: counts_as_def)
  then have "counts_as (fold patch_add (msg_labels msg) ?t)
      (\<lambda>l. 0 + count_list (msg_labels msg) l)"
    by (rule patch_add_fold_counts)
  moreover have "(\<lambda>l. 0 + count_list (msg_labels msg) l) = (\<lambda>l. carriers l [set (msg_labels msg)])"
    using assms by (auto simp: fun_eq_iff count_list_distinct carriers_def)
  ultimately show ?thesis
    unfolding label_rollup_def
    by (subst counts_as_cong [where u = "fold patch_add (msg_labels msg) ?t"])
      (simp_all add: fold_patch_add_fields new_thread_def)
qed

lemma apply_message_label_fields:
  "thr_labels (apply_message pp t msg) = fold add_label (msg_labels msg) (thr_labels t)"
  "thr_label_counts (apply_message pp t msg) =
     fold bump_count (msg_labels msg) (thr_label_counts t)"
  by (simp_all add: apply_message_def Let_def split: direction.split)

lemma label_rollup_apply_message:
  assumes "label_rollup t Ls" and "distinct (msg_labels msg)"
  shows "label_rollup (apply_message pp t msg) (Ls @ [set (msg_labels msg)])"
proof -
  have "counts_as (fold patch_add (msg_labels msg) t)
      (\<lambda>l. carriers l Ls + count_list (msg_labels msg) l)"
    using assms(1) unfolding label_rollup_def by (rule patch_add_fold_counts)
  moreover have "(\<lambda>l. carriers l Ls + count_list (msg_labels msg) l) =
      (\<lambda>l. carriers l (Ls @ [set (msg_labels msg)]))"
    using assms(2) by (auto simp: fun_eq_iff count_list_distinct carriers_snoc)
  ultimately show ?thesis
    unfolding label_rollup_def
    by (subst counts_as_cong [where u = "fold patch_add (msg_labels msg) t"])
      (simp_all add: fold_patch_add_fields apply_message_label_fields)
qed

lemma label_rollup_apply_label_patch:
  assumes roll: "label_rollup t Ls" and i: "i < length Ls" and len: "length Ls < 2 ^ 64"
    and added: "distinct added" "set added \<inter> Ls ! i = {}"
    and removed: "distinct removed" "set removed \<subseteq> Ls ! i \<union> set added"
  shows "label_rollup (apply_label_patch t added removed now)
    (Ls[i := (Ls ! i \<union> set added) - set removed])"
proof -
  let ?L = "(Ls ! i \<union> set added) - set removed"
  let ?c = "\<lambda>l. carriers l Ls + count_list added l"
  have eq: "carriers l (Ls[i := ?L]) + (if l \<in> Ls ! i then 1 else 0) =
      carriers l Ls + (if l \<in> ?L then 1 else 0)" for l
    using i by (rule carriers_update)
  have eqU: "carriers l (Ls[i := Ls ! i \<union> set added]) + (if l \<in> Ls ! i then 1 else 0) =
      carriers l Ls + (if l \<in> Ls ! i \<union> set added then 1 else 0)" for l
    using i by (rule carriers_update)
  have cU: "?c l = carriers l (Ls[i := Ls ! i \<union> set added])" for l
    using eqU [of l] added by (auto simp: count_list_distinct split: if_splits)
  have "?c l < 2 ^ 64" for l
    using carriers_le [of l "Ls[i := Ls ! i \<union> set added]"] len cU [of l] by simp
  then have patched: "counts_as (fold patch_remove removed (fold patch_add added t))
      (\<lambda>l. ?c l - count_list removed l)"
    using roll patch_add_fold_counts patch_remove_fold_counts unfolding label_rollup_def by blast
  have "?c l - count_list removed l = carriers l (Ls[i := ?L])" for l
    using eq [of l] added removed by (auto simp: count_list_distinct split: if_splits)
  with patched show ?thesis
    by (simp add: label_rollup_def apply_label_patch_def Let_def counts_as_def)
qed

section \<open>The life of a thread\<close>

text \<open>
  What happens to a thread item after its first message: a message arrives, or one of its
  messages is relabelled (by a request or by a send outcome) with the changes made to it.
\<close>

datatype thread_op =
    Arrive mail_message
  | Relabel nat "string list" "string list" string

fun thread_step :: "(string \<Rightarrow> 'm option) \<Rightarrow> thread_op \<Rightarrow> thread_state \<Rightarrow> thread_state" where
  "thread_step pp (Arrive msg) t = apply_message pp t msg"
| "thread_step pp (Relabel i added removed now) t = apply_label_patch t added removed now"

definition thread_run ::
  "(string \<Rightarrow> 'm option) \<Rightarrow> mail_message \<Rightarrow> thread_op list \<Rightarrow> thread_state" where
  "thread_run pp msg ops = fold (thread_step pp) ops (new_thread pp msg)"

fun arrivals :: "thread_op list \<Rightarrow> mail_message list" where
  "arrivals [] = []"
| "arrivals (Arrive msg # ops) = msg # arrivals ops"
| "arrivals (Relabel _ _ _ _ # ops) = arrivals ops"

text \<open>The abstract thread: the label set of each of its messages, by arrival.\<close>

fun abstract_step :: "thread_op \<Rightarrow> string set list \<Rightarrow> string set list" where
  "abstract_step (Arrive msg) Ls = Ls @ [set (msg_labels msg)]"
| "abstract_step (Relabel i added removed now) Ls =
     Ls[i := (Ls ! i \<union> set added) - set removed]"

fun op_ok :: "thread_op \<Rightarrow> string set list \<Rightarrow> bool" where
  "op_ok (Arrive msg) Ls \<longleftrightarrow> distinct (msg_labels msg)"
| "op_ok (Relabel i added removed now) Ls \<longleftrightarrow>
     i < length Ls \<and> distinct added \<and> set added \<inter> Ls ! i = {} \<and> distinct removed \<and>
     set removed \<subseteq> Ls ! i \<union> set added"

fun ops_ok :: "thread_op list \<Rightarrow> string set list \<Rightarrow> bool" where
  "ops_ok [] Ls \<longleftrightarrow> True"
| "ops_ok (x # ops) Ls \<longleftrightarrow> op_ok x Ls \<and> ops_ok ops (abstract_step x Ls)"

lemma label_rollup_step:
  assumes "label_rollup t Ls" and "op_ok x Ls" and "length Ls < 2 ^ 64"
  shows "label_rollup (thread_step pp x t) (abstract_step x Ls)"
  using assms
  by (cases x) (auto intro: label_rollup_apply_message label_rollup_apply_label_patch)

lemma label_rollup_fold:
  assumes "label_rollup t Ls" and "ops_ok ops Ls" and "length Ls + length ops < 2 ^ 64"
  shows "label_rollup (fold (thread_step pp) ops t) (fold abstract_step ops Ls)"
  using assms
proof (induction ops arbitrary: t Ls)
  case (Cons x ops)
  have "length (abstract_step x Ls) \<le> Suc (length Ls)" by (cases x) simp_all
  with Cons.prems(3) have len: "length (abstract_step x Ls) + length ops < 2 ^ 64" by simp
  have "label_rollup (thread_step pp x t) (abstract_step x Ls)"
    using Cons.prems by (intro label_rollup_step) simp_all
  with Cons.IH len Cons.prems(2) show ?case by simp
qed simp

text \<open>
  C30. The stored roll-up refines the abstract thread: whatever sequence of arrivals and
  relabellings a thread goes through, a label is counted once for each message that
  carries it, the thread's labels are exactly the carried ones, in order and without
  duplicates, and a label leaves the thread with its last carrier. Counts are 64-bit, so
  the thread has fewer than \<open>2 ^ 64\<close> operations.
\<close>

theorem thread_run_rolls_up_labels:
  assumes "distinct (msg_labels msg)" and "ops_ok ops [set (msg_labels msg)]"
    and "Suc (length ops) < 2 ^ 64"
  shows "label_rollup (thread_run pp msg ops) (fold abstract_step ops [set (msg_labels msg)])"
  unfolding thread_run_def
  by (rule label_rollup_fold [OF label_rollup_new_thread [OF assms(1)] assms(2)])
    (use assms(3) in simp)

theorem thread_run_rolls_up_labels_witness:
  "label_rollup
     (thread_run (\<lambda>s. None :: unit option) (sample_message ''support'' ''mid-1'' ''mid-1'')
        [Relabel 0 [''spam''] [''unread''] ''t''])
     [{''received'', ''spam''}]"
proof -
  let ?msg = "sample_message ''support'' ''mid-1'' ''mid-1''"
  let ?ops = "[Relabel 0 [''spam''] [''unread''] ''t'']"
  have "label_rollup (thread_run (\<lambda>s. None :: unit option) ?msg ?ops)
      (fold abstract_step ?ops [set (msg_labels ?msg)])"
    by (rule thread_run_rolls_up_labels) (simp_all add: sample_message_def)
  moreover have "fold abstract_step ?ops [set (msg_labels ?msg)] = [{''received'', ''spam''}]"
    by (auto simp: sample_message_def)
  ultimately show ?thesis by simp
qed

section \<open>Bounds\<close>

lemma drop_oldest_eq: "drop_oldest xs = drop (length xs - THREAD_ATTACHMENT_SUMMARIES) xs"
proof (induction xs rule: drop_oldest.induct)
  case (1 xs)
  show ?case
  proof (cases "length xs > THREAD_ATTACHMENT_SUMMARIES")
    case True
    then have "length xs - THREAD_ATTACHMENT_SUMMARIES =
        Suc (length (tl xs) - THREAD_ATTACHMENT_SUMMARIES)"
      by simp
    then have "drop (length xs - THREAD_ATTACHMENT_SUMMARIES) xs =
        drop (length (tl xs) - THREAD_ATTACHMENT_SUMMARIES) (tl xs)"
      by (simp only: drop_Suc)
    with True "1.IH" show ?thesis by (simp add: drop_oldest.simps [of xs])
  next
    case False
    then show ?thesis by (simp add: drop_oldest.simps [of xs])
  qed
qed

lemma length_drop_oldest [simp]: "length (drop_oldest xs) \<le> THREAD_ATTACHMENT_SUMMARIES"
  by (simp add: drop_oldest_eq)

definition participants_ok :: "(string \<Rightarrow> 'm option) \<Rightarrow> string list \<Rightarrow> bool" where
  "participants_ok pp xs \<longleftrightarrow>
     strictly_sorted xs \<and> length xs \<le> THREAD_ADDRESS_SET_CAP \<and>
     (\<forall>a \<in> set xs. \<forall>b \<in> set xs. same_mailbox pp a b \<longrightarrow> a = b)"

lemma participants_ok_Nil [simp]: "participants_ok pp []"
  by (simp add: participants_ok_def)

lemma participants_ok_add:
  "participants_ok pp xs \<Longrightarrow> participants_ok pp (add_to_capped_set pp THREAD_ADDRESS_SET_CAP v xs)"
  by (auto simp: participants_ok_def add_to_capped_set_def length_insert_absent list_ex_iff
      same_mailbox_sym)

lemma participants_ok_fold:
  "participants_ok pp xs \<Longrightarrow>
     participants_ok pp (fold (add_to_capped_set pp THREAD_ADDRESS_SET_CAP) vs xs)"
  by (induction vs arbitrary: xs) (simp_all add: participants_ok_add)

definition thread_bounded :: "(string \<Rightarrow> 'm option) \<Rightarrow> thread_state \<Rightarrow> bool" where
  "thread_bounded pp t \<longleftrightarrow>
     participants_ok pp (thr_senders t) \<and> participants_ok pp (thr_recipients t) \<and>
     length (thr_attachments t) \<le> THREAD_ATTACHMENT_SUMMARIES"

lemma thread_bounded_new: "thread_bounded pp (new_thread pp msg)"
  by (simp add: thread_bounded_def new_thread_def participants_ok_add participants_ok_fold)

lemma patch_fold_frame:
  "thr_senders (fold patch_add ls t) = thr_senders t"
  "thr_recipients (fold patch_add ls t) = thr_recipients t"
  "thr_attachments (fold patch_add ls t) = thr_attachments t"
  "thr_timestamp (fold patch_add ls t) = thr_timestamp t"
  "thr_last_message_id (fold patch_add ls t) = thr_last_message_id t"
  "thr_preview (fold patch_add ls t) = thr_preview t"
  "thr_message_count (fold patch_add ls t) = thr_message_count t"
  "thr_expires_at (fold patch_add ls t) = thr_expires_at t"
  "thr_version (fold patch_add ls t) = thr_version t"
  "thr_inbox_id (fold patch_add ls t) = thr_inbox_id t"
  "thr_thread_id (fold patch_add ls t) = thr_thread_id t"
  by (induction ls arbitrary: t) (simp_all add: patch_add_def)

lemma patch_remove_frame:
  "thr_senders (patch_remove l t) = thr_senders t"
  "thr_recipients (patch_remove l t) = thr_recipients t"
  "thr_attachments (patch_remove l t) = thr_attachments t"
  "thr_timestamp (patch_remove l t) = thr_timestamp t"
  "thr_last_message_id (patch_remove l t) = thr_last_message_id t"
  "thr_preview (patch_remove l t) = thr_preview t"
  "thr_message_count (patch_remove l t) = thr_message_count t"
  "thr_expires_at (patch_remove l t) = thr_expires_at t"
  "thr_version (patch_remove l t) = thr_version t"
  "thr_inbox_id (patch_remove l t) = thr_inbox_id t"
  "thr_thread_id (patch_remove l t) = thr_thread_id t"
  by (simp_all add: patch_remove_def Let_def split: option.split)

lemma patch_remove_fold_frame:
  "thr_senders (fold patch_remove ls t) = thr_senders t"
  "thr_recipients (fold patch_remove ls t) = thr_recipients t"
  "thr_attachments (fold patch_remove ls t) = thr_attachments t"
  "thr_timestamp (fold patch_remove ls t) = thr_timestamp t"
  "thr_last_message_id (fold patch_remove ls t) = thr_last_message_id t"
  "thr_preview (fold patch_remove ls t) = thr_preview t"
  "thr_message_count (fold patch_remove ls t) = thr_message_count t"
  "thr_expires_at (fold patch_remove ls t) = thr_expires_at t"
  "thr_version (fold patch_remove ls t) = thr_version t"
  "thr_inbox_id (fold patch_remove ls t) = thr_inbox_id t"
  "thr_thread_id (fold patch_remove ls t) = thr_thread_id t"
  by (induction ls arbitrary: t) (simp_all add: patch_remove_frame)

lemmas patch_frame = patch_fold_frame patch_remove_fold_frame

lemma thread_bounded_step: "thread_bounded pp t \<Longrightarrow> thread_bounded pp (thread_step pp x t)"
  by (cases x)
    (simp_all add: thread_bounded_def apply_message_def apply_label_patch_def Let_def
      participants_ok_add participants_ok_fold patch_frame split: direction.split)

text \<open>
  C35. A thread item stays bounded whatever arrives: at most fifty senders and fifty
  recipients, sorted and with one entry for each mailbox, and at most twenty attachment
  summaries.
\<close>

theorem thread_run_bounded: "thread_bounded pp (thread_run pp msg ops)"
proof -
  have "thread_bounded pp t \<Longrightarrow> thread_bounded pp (fold (thread_step pp) ops t)" for t
    by (induction ops arbitrary: t) (simp_all add: thread_bounded_step)
  then show ?thesis by (simp add: thread_run_def thread_bounded_new)
qed

section \<open>The newest message\<close>

text \<open>The newest of a list of messages: a tie goes to the one processed later.\<close>

definition newest_in :: "mail_message list \<Rightarrow> thread_state \<Rightarrow> bool" where
  "newest_in ms t \<longleftrightarrow>
     (\<exists>us x vs. ms = us @ x # vs \<and> thr_timestamp t = msg_timestamp x \<and>
        thr_last_message_id t = msg_message_id x \<and> thr_preview t = msg_preview x \<and>
        list_all (\<lambda>u. msg_timestamp u \<le> msg_timestamp x) us \<and>
        list_all (\<lambda>v. msg_timestamp v < msg_timestamp x) vs)"

lemma newest_in_apply:
  assumes "newest_in ms t"
  shows "newest_in (ms @ [msg]) (apply_message pp t msg)"
proof -
  let ?t = "apply_message pp t msg"
  obtain us x vs where x: "ms = us @ x # vs" "thr_timestamp t = msg_timestamp x"
    "thr_last_message_id t = msg_message_id x" "thr_preview t = msg_preview x"
    "list_all (\<lambda>u. msg_timestamp u \<le> msg_timestamp x) us"
    "list_all (\<lambda>v. msg_timestamp v < msg_timestamp x) vs"
    using assms by (auto simp: newest_in_def)
  show ?thesis
  proof (cases "msg_timestamp msg \<ge> thr_timestamp t")
    case True
    have "list_all (\<lambda>u. msg_timestamp u \<le> msg_timestamp msg) (us @ x # vs)"
      using x True by (fastforce simp: list_all_iff)
    moreover have "thr_timestamp ?t = msg_timestamp msg" "thr_preview ?t = msg_preview msg"
      "thr_last_message_id ?t = msg_message_id msg"
      using True by (simp_all add: apply_message_def Let_def split: direction.split)
    ultimately show ?thesis
      unfolding newest_in_def x(1) by (intro exI [of _ "us @ x # vs"] exI [of _ msg] exI [of _ "[]"]) simp
  next
    case False
    have "thr_timestamp ?t = thr_timestamp t" "thr_preview ?t = thr_preview t"
      "thr_last_message_id ?t = thr_last_message_id t"
      using False by (simp_all add: apply_message_def Let_def split: direction.split)
    with x False show ?thesis
      unfolding newest_in_def by (intro exI [of _ us] exI [of _ x] exI [of _ "vs @ [msg]"]) simp
  qed
qed

lemma newest_in_fold:
  "newest_in ms t \<Longrightarrow> newest_in (ms @ arrivals ops) (fold (thread_step pp) ops t)"
proof (induction ops arbitrary: ms t)
  case (Cons x ops)
  show ?case
  proof (cases x)
    case (Arrive msg)
    have "newest_in (ms @ [msg]) (apply_message pp t msg)"
      using Cons.prems by (rule newest_in_apply)
    from Cons.IH [OF this] Arrive show ?thesis by simp
  next
    case (Relabel i added removed now)
    have "newest_in ms (apply_label_patch t added removed now)"
      using Cons.prems by (simp add: newest_in_def apply_label_patch_def Let_def patch_frame)
    with Cons.IH Relabel show ?thesis by simp
  qed
qed simp

lemma rollup_numbers_fold:
  "thr_message_count (fold (thread_step pp) ops t) = thr_message_count t + of_nat (length (arrivals ops))
   \<and> thr_version (fold (thread_step pp) ops t) = thr_version t + of_nat (length ops)
   \<and> thr_expires_at (fold (thread_step pp) ops t) =
      fold max (map msg_expires_at (arrivals ops)) (thr_expires_at t)"
proof (induction ops arbitrary: t)
  case (Cons x ops)
  show ?case
    by (cases x)
      (simp_all add: Cons.IH apply_message_def apply_label_patch_def Let_def patch_frame
        max.commute split: direction.split)
qed simp

text \<open>
  C36. However its messages arrive, a thread's timestamp, last message and preview are
  those of its newest message (of the messages with the greatest timestamp, the one
  processed last), so a late older message and a relabelling never move the thread in a
  list; its message count is its messages', its version counts the writes, and it expires
  with the last of its messages.
\<close>

theorem thread_run_newest:
  "newest_in (msg # arrivals ops) (thread_run pp msg ops)
   \<and> thr_message_count (thread_run pp msg ops) = of_nat (length (msg # arrivals ops))
   \<and> thr_version (thread_run pp msg ops) = of_nat (length ops)
   \<and> thr_expires_at (thread_run pp msg ops) = Max (set (map msg_expires_at (msg # arrivals ops)))"
proof -
  have "newest_in [msg] (new_thread pp msg)"
    unfolding newest_in_def
    by (intro exI [of _ "[]"] exI [of _ msg]) (simp add: new_thread_def)
  then have "newest_in (msg # arrivals ops) (thread_run pp msg ops)"
    using newest_in_fold [of "[msg]"] by (simp add: thread_run_def)
  moreover have "Max (set (map msg_expires_at (msg # arrivals ops))) =
      fold max (map msg_expires_at (arrivals ops)) (msg_expires_at msg)"
    using Max.set_eq_fold [of "msg_expires_at msg" "map msg_expires_at (arrivals ops)"] by simp
  ultimately show ?thesis
    using rollup_numbers_fold [of pp ops "new_thread pp msg"]
    by (simp add: thread_run_def new_thread_def)
qed

end
