(* ===== verification/Items.thy ===== *)
theory Items
  imports Thread Send
begin

text \<open>
  How the stored structs become DynamoDB items and back: \<open>serde_dynamo::to_item\<close> and
  \<open>from_item\<close> driven by the serde attributes on the structs of \<open>crates/mailbox/src\<close>
  (\<open>lib.rs\<close>, \<open>thread.rs\<close>, \<open>send.rs\<close>). A field with \<open>skip_serializing_if\<close> is left out when
  its predicate holds and read back from its absence by \<open>default\<close>; a field with
  \<open>serde_dynamo::string_set\<close> is a string set; an integer is its decimal string; a
  \<open>serde_json::Value\<close> is the attribute of its shape, read back by the attribute's type. An absent
  attribute and \<open>NULL\<close> both read as \<open>None\<close> of an \<open>Option\<close> field, so a metadata of JSON null does not
  come back. For every struct the reader inverts the writer.
\<close>

type_synonym item = "string \<rightharpoonup> attribute_value"

section \<open>Writing fields\<close>

definition opt_field :: "string \<Rightarrow> ('a \<Rightarrow> attribute_value) \<Rightarrow> 'a option \<Rightarrow> (string \<times> attribute_value) list" where
  "opt_field name f v = (case v of None \<Rightarrow> [] | Some x \<Rightarrow> [(name, f x)])"

definition vec_field :: "string \<Rightarrow> ('a list \<Rightarrow> attribute_value) \<Rightarrow> 'a list \<Rightarrow> (string \<times> attribute_value) list" where
  "vec_field name f v = (if v = [] then [] else [(name, f v)])"

definition strs_av :: "string list \<Rightarrow> attribute_value" where
  "strs_av xs = AvL (map AvS xs)"

definition u64_av :: "u64 \<Rightarrow> attribute_value" where
  "u64_av n = AvN (u64_str n)"

fun json_av :: "json \<Rightarrow> attribute_value" where
  "json_av JNull = AvNull"
| "json_av (JBool b) = AvBool b"
| "json_av (JNumber n) = AvN n"
| "json_av (JString s) = AvS s"
| "json_av (JArray xs) = AvL (map json_av xs)"
| "json_av (JObject es) = AvM (map (\<lambda>(k, v). (k, json_av v)) es)"

section \<open>Reading fields\<close>

fun json_of_av :: "attribute_value \<Rightarrow> json" where
  "json_of_av (AvS s) = JString s"
| "json_of_av (AvN n) = JNumber n"
| "json_of_av (AvSs xs) = JArray (map JString xs)"
| "json_of_av (AvBool b) = JBool b"
| "json_of_av AvNull = JNull"
| "json_of_av (AvL vs) = JArray (map json_of_av vs)"
| "json_of_av (AvM es) = JObject (map (\<lambda>(k, v). (k, json_of_av v)) es)"

definition rd_json :: "attribute_value \<Rightarrow> json option" where
  "rd_json v = Some (json_of_av v)"

lemma json_of_json_av [simp]: "json_of_av (json_av j) = j"
proof (induction j rule: json_av.induct)
  case (6 es)
  then have "map ((\<lambda>(k, v). (k, json_of_av v)) \<circ> (\<lambda>(k, v). (k, json_av v))) es = es"
    by (intro map_idI) (auto simp: split_beta)
  then show ?case by simp
qed (simp_all add: map_idI)

lemma rd_json_av [simp]: "rd_json (json_av j) = Some j"
  by (simp add: rd_json_def)

lemma json_av_null [simp]: "json_av j = AvNull \<longleftrightarrow> j = JNull"
  by (cases j) simp_all

fun rd_s :: "attribute_value \<Rightarrow> string option" where
  "rd_s (AvS s) = Some s"
| "rd_s _ = None"

fun rd_u64 :: "attribute_value \<Rightarrow> u64 option" where
  "rd_u64 (AvN n) = parse_u64 n"
| "rd_u64 _ = None"

fun rd_u32 :: "attribute_value \<Rightarrow> u32 option" where
  "rd_u32 (AvN n) = parse_u32 n"
| "rd_u32 _ = None"

fun rd_bool :: "attribute_value \<Rightarrow> bool option" where
  "rd_bool (AvBool b) = Some b"
| "rd_bool _ = None"

fun rd_ss :: "attribute_value \<Rightarrow> string list option" where
  "rd_ss (AvSs xs) = Some xs"
| "rd_ss _ = None"

fun rd_vec :: "(attribute_value \<Rightarrow> 'a option) \<Rightarrow> attribute_value \<Rightarrow> 'a list option" where
  "rd_vec rd (AvL vs) = those (map rd vs)"
| "rd_vec rd _ = None"

fun rd_map :: "(attribute_value \<Rightarrow> 'a option) \<Rightarrow> attribute_value \<Rightarrow> (string, 'a) btree_map option" where
  "rd_map rd (AvM es) =
     map_option bt_of_list (those (map (\<lambda>e. map_option (Pair (fst e)) (rd (snd e))) es))"
| "rd_map rd _ = None"

text \<open>A required field, an \<open>Option\<close> field, and a field read from its absence by \<open>default\<close>.\<close>

definition req :: "(attribute_value \<Rightarrow> 'a option) \<Rightarrow> attribute_value option \<Rightarrow> 'a option" where
  "req rd w = Option.bind w rd"

definition opt :: "(attribute_value \<Rightarrow> 'a option) \<Rightarrow> attribute_value option \<Rightarrow> 'a option option" where
  "opt rd w = (case w of None \<Rightarrow> Some None | Some AvNull \<Rightarrow> Some None | Some v \<Rightarrow> map_option Some (rd v))"

definition dflt :: "'a \<Rightarrow> (attribute_value \<Rightarrow> 'a option) \<Rightarrow> attribute_value option \<Rightarrow> 'a option" where
  "dflt d rd w = (case w of None \<Rightarrow> Some d | Some v \<Rightarrow> rd v)"

lemma req_Some [simp]: "req rd (Some v) = rd v"
  by (simp add: req_def)

lemma opt_None [simp]: "opt rd None = Some None"
  by (simp add: opt_def)

lemma opt_Some [simp]: "v \<noteq> AvNull \<Longrightarrow> opt rd (Some v) = map_option Some (rd v)"
  by (simp add: opt_def split: attribute_value.split)

lemma opt_read [simp]: "(\<And>x. rd (f x) = Some x) \<Longrightarrow> (\<And>x. f x \<noteq> AvNull) \<Longrightarrow> opt rd (map_option f v) = Some v"
  by (cases v) simp_all

text \<open>JSON null is stored as \<open>NULL\<close>, which reads as no value.\<close>

definition non_null :: "json option \<Rightarrow> json option" where
  "non_null v = (if v = Some JNull then None else v)"

lemma opt_json_read [simp]: "opt rd_json (map_option json_av v) = Some (non_null v)"
  by (cases v; cases "v = Some JNull") (simp_all add: non_null_def opt_def [of rd_json "Some AvNull"])

lemma dflt_None [simp]: "dflt d rd None = Some d"
  by (simp add: dflt_def)

lemma dflt_Some [simp]: "dflt d rd (Some v) = rd v"
  by (simp add: dflt_def)

lemma dflt_read [simp]: "rd (f v) = Some v \<Longrightarrow> dflt [] rd (if v = [] then None else Some (f v)) = Some v"
  by (simp add: dflt_def)

lemma if_map_option [simp]: "(if v = None then None else map_option f v) = map_option f v"
  by simp

lemma map_of_opt_field:
  "map_of (opt_field name f v @ rest) k =
     (if k = name then (if v = None then map_of rest k else map_option f v) else map_of rest k)"
  by (auto simp: opt_field_def split: option.split)

lemma map_of_vec_field:
  "map_of (vec_field name f v @ rest) k =
     (if k = name then (if v = [] then map_of rest k else Some (f v)) else map_of rest k)"
  by (auto simp: vec_field_def)

lemmas map_of_fields = map_of_opt_field map_of_vec_field
  map_of_opt_field [where rest = "[]", unfolded append_Nil2 map_of.simps]
  map_of_vec_field [where rest = "[]", unfolded append_Nil2 map_of.simps]

lemma those_map_inverse: "(\<And>x. x \<in> set xs \<Longrightarrow> rd (wr x) = Some x) \<Longrightarrow> those (map rd (map wr xs)) = Some xs"
  by (induction xs) auto

lemma rd_u64_av [simp]: "rd_u64 (u64_av n) = Some n" "u64_av n \<noteq> AvNull"
  by (simp_all add: u64_av_def)

lemma rd_vec_strs [simp]: "rd_vec rd_s (strs_av xs) = Some xs"
  unfolding strs_av_def rd_vec.simps by (rule those_map_inverse) simp

lemma rd_vec_map [simp]:
  "(\<And>x. rd (wr x) = Some x) \<Longrightarrow> rd_vec rd (AvL (map wr xs)) = Some xs"
  using those_map_inverse [of xs rd wr] by simp

section \<open>Attachments and snapshots\<close>

fun disposition_str :: "content_disposition \<Rightarrow> string" where
  "disposition_str Inline = ''inline''"
| "disposition_str Attachment = ''attachment''"

definition rd_disposition :: "attribute_value \<Rightarrow> content_disposition option" where
  "rd_disposition v =
     Option.bind (rd_s v) (\<lambda>s. find (\<lambda>d. disposition_str d = s) [Inline, Attachment])"

lemma rd_disposition_str [simp]: "rd_disposition (AvS (disposition_str d)) = Some d"
  by (cases d) (simp_all add: rd_disposition_def)

definition attachment_fields :: "attachment_meta \<Rightarrow> (string \<times> attribute_value) list" where
  "attachment_fields a =
     [(''attachment_id'', AvS (att_attachment_id a))]
     @ opt_field ''object_key'' AvS (att_object_key a)
     @ [(''size'', u64_av (att_size a))]
     @ opt_field ''filename'' AvS (att_filename a)
     @ [(''content_type'', AvS (att_content_type a)),
        (''content_disposition'', AvS (disposition_str (att_content_disposition a)))]
     @ opt_field ''content_id'' AvS (att_content_id a)"

definition attachment_of_item :: "item \<Rightarrow> attachment_meta option" where
  "attachment_of_item i = do {
     attachment_id \<leftarrow> req rd_s (i ''attachment_id'');
     object_key \<leftarrow> opt rd_s (i ''object_key'');
     size \<leftarrow> req rd_u64 (i ''size'');
     filename \<leftarrow> opt rd_s (i ''filename'');
     content_type \<leftarrow> req rd_s (i ''content_type'');
     content_disposition \<leftarrow> req rd_disposition (i ''content_disposition'');
     content_id \<leftarrow> opt rd_s (i ''content_id'');
     Some \<lparr>att_attachment_id = attachment_id, att_object_key = object_key, att_size = size,
       att_filename = filename, att_content_type = content_type,
       att_content_disposition = content_disposition, att_content_id = content_id\<rparr>
   }"

fun rd_attachment :: "attribute_value \<Rightarrow> attachment_meta option" where
  "rd_attachment (AvM es) = attachment_of_item (map_of es)"
| "rd_attachment _ = None"

lemma attachment_of_item_fields [simp]: "attachment_of_item (map_of (attachment_fields a)) = Some a"
  by (cases a) (simp add: attachment_fields_def attachment_of_item_def map_of_fields del: map_of_append)

definition attachments_av :: "attachment_meta list \<Rightarrow> attribute_value" where
  "attachments_av xs = AvL (map (\<lambda>a. AvM (attachment_fields a)) xs)"

lemma rd_attachments [simp]: "rd_vec rd_attachment (attachments_av xs) = Some xs"
  unfolding attachments_av_def rd_vec.simps by (rule those_map_inverse) simp

definition rd_message_id :: "attribute_value \<Rightarrow> message_id option" where
  "rd_message_id v = map_option MessageId (rd_s v)"

definition rd_thread_id :: "attribute_value \<Rightarrow> thread_id option" where
  "rd_thread_id v = map_option ThreadId (rd_s v)"

definition rd_ses_message_id :: "attribute_value \<Rightarrow> ses_message_id option" where
  "rd_ses_message_id v = map_option SesMessageId (rd_s v)"

text \<open>Deserializing an \<open>InboxId\<close> canonicalizes it.\<close>

definition rd_inbox_id :: "attribute_value \<Rightarrow> inbox_id option" where
  "rd_inbox_id v = map_option inbox_new (rd_s v)"

definition rd_send_status :: "attribute_value \<Rightarrow> send_status option" where
  "rd_send_status v = Option.bind (rd_s v) send_status_parse"

definition rd_send_failure :: "attribute_value \<Rightarrow> send_failure option" where
  "rd_send_failure v = Option.bind (rd_s v) send_failure_parse"

fun direction_str :: "direction \<Rightarrow> string" where
  "direction_str Inbound = ''inbound''"
| "direction_str Outbound = ''outbound''"

definition rd_direction :: "attribute_value \<Rightarrow> direction option" where
  "rd_direction v =
     Option.bind (rd_s v) (\<lambda>s. find (\<lambda>d. direction_str d = s) [Inbound, Outbound])"

lemma rd_id [simp]:
  "rd_message_id (AvS (message_id_str m)) = Some m"
  "rd_thread_id (AvS (thread_id_str t)) = Some t"
  "rd_ses_message_id (AvS (ses_message_id_str s)) = Some s"
  "rd_inbox_id (AvS (inbox_str b)) = Some b"
  "rd_send_status (AvS (send_status_str st)) = Some st"
  "rd_send_failure (AvS (send_failure_str f)) = Some f"
  by (simp_all add: rd_message_id_def rd_thread_id_def rd_ses_message_id_def rd_inbox_id_def
      rd_send_status_def rd_send_failure_def)

lemma rd_direction_str [simp]: "rd_direction (AvS (direction_str d)) = Some d"
  by (cases d) (simp_all add: rd_direction_def)

definition map_field ::
  "string \<Rightarrow> ('a \<Rightarrow> attribute_value) \<Rightarrow> (string, 'a) btree_map \<Rightarrow> (string \<times> attribute_value) list" where
  "map_field name f m =
     (if bt_entries m = [] then []
      else [(name, AvM (map (\<lambda>e. (fst e, f (snd e))) (bt_entries m)))])"

lemma map_of_map_field:
  "map_of (map_field name f m @ rest) k =
     (if k = name
      then (if bt_entries m = [] then map_of rest k
            else Some (AvM (map (\<lambda>e. (fst e, f (snd e))) (bt_entries m))))
      else map_of rest k)"
  by (auto simp: map_field_def)

lemma rd_map_read: "(\<And>x. rd (f x) = Some x) \<Longrightarrow>
  rd_map rd (AvM (map (\<lambda>e. (fst e, f (snd e))) (bt_entries m))) = Some m"
proof -
  assume "\<And>x. rd (f x) = Some x"
  then have "those (map (\<lambda>e. map_option (Pair (fst e)) (rd (snd e)))
      (map (\<lambda>e. (fst e, f (snd e))) (bt_entries m))) = Some (bt_entries m)"
    by (intro those_map_inverse) simp
  then show ?thesis by simp
qed

lemma bt_entries_Nil: "bt_entries m = [] \<Longrightarrow> m = bt_empty"
  by (rule bt_eqI) (simp add: bt_get_def bt_empty.rep_eq)

lemma dflt_map_read [simp]:
  "(\<And>x. rd (f x) = Some x) \<Longrightarrow>
     dflt bt_empty (rd_map rd)
       (if bt_entries m = [] then None
        else Some (AvM (map (\<lambda>e. (fst e, f (snd e))) (bt_entries m)))) = Some m"
  using rd_map_read [of rd f m] bt_entries_Nil [of m] by (auto simp del: rd_map.simps)

lemmas all_fields = map_of_fields map_of_map_field
  map_of_map_field [where rest = "[]", unfolded append_Nil2 map_of.simps]

text \<open>Evaluating a chain of reads from the front, one field at a time.\<close>

lemma bind_weak_cong: "x = y \<Longrightarrow> Option.bind x f = Option.bind y f"
  by simp

definition snapshot_fields :: "thread_snapshot \<Rightarrow> (string \<times> attribute_value) list" where
  "snapshot_fields x =
     [(''thread_id'', AvS (thread_id_str (snap_thread_id x))),
        (''subject'', AvS (snap_subject x)),
        (''preview'', AvS (snap_preview x)),
        (''message_count'', u64_av (snap_message_count x))]
     @ vec_field ''labels'' strs_av (snap_labels x)
     @ vec_field ''senders'' strs_av (snap_senders x)
     @ vec_field ''recipients'' strs_av (snap_recipients x)
     @ [(''timestamp'', AvS (snap_timestamp x)),
        (''created_at'', AvS (snap_created_at x)),
        (''updated_at'', AvS (snap_updated_at x)),
        (''last_message_id'', AvS (message_id_str (snap_last_message_id x))),
        (''size'', u64_av (snap_size x))]
     @ opt_field ''received_timestamp'' AvS (snap_received_timestamp x)
     @ opt_field ''sent_timestamp'' AvS (snap_sent_timestamp x)
     @ vec_field ''attachments'' attachments_av (snap_attachments x)"

lemma snapshot_lookup [simp]:
  "map_of (snapshot_fields x) ''thread_id'' = Some (AvS (thread_id_str (snap_thread_id x)))"
  "map_of (snapshot_fields x) ''subject'' = Some (AvS (snap_subject x))"
  "map_of (snapshot_fields x) ''preview'' = Some (AvS (snap_preview x))"
  "map_of (snapshot_fields x) ''message_count'' = Some (u64_av (snap_message_count x))"
  "map_of (snapshot_fields x) ''labels'' =
     (if snap_labels x = [] then None else Some (strs_av (snap_labels x)))"
  "map_of (snapshot_fields x) ''senders'' =
     (if snap_senders x = [] then None else Some (strs_av (snap_senders x)))"
  "map_of (snapshot_fields x) ''recipients'' =
     (if snap_recipients x = [] then None else Some (strs_av (snap_recipients x)))"
  "map_of (snapshot_fields x) ''timestamp'' = Some (AvS (snap_timestamp x))"
  "map_of (snapshot_fields x) ''created_at'' = Some (AvS (snap_created_at x))"
  "map_of (snapshot_fields x) ''updated_at'' = Some (AvS (snap_updated_at x))"
  "map_of (snapshot_fields x) ''last_message_id'' = Some (AvS (message_id_str (snap_last_message_id x)))"
  "map_of (snapshot_fields x) ''size'' = Some (u64_av (snap_size x))"
  "map_of (snapshot_fields x) ''received_timestamp'' =
     map_option AvS (snap_received_timestamp x)"
  "map_of (snapshot_fields x) ''sent_timestamp'' =
     map_option AvS (snap_sent_timestamp x)"
  "map_of (snapshot_fields x) ''attachments'' =
     (if snap_attachments x = [] then None else Some (attachments_av (snap_attachments x)))"
  by (simp_all add: snapshot_fields_def all_fields del: map_of_append)

definition snapshot_of_item :: "item \<Rightarrow> thread_snapshot option" where
  "snapshot_of_item i = do {
     v_thread_id \<leftarrow> req rd_thread_id (i ''thread_id'');
     v_subject \<leftarrow> req rd_s (i ''subject'');
     v_preview \<leftarrow> req rd_s (i ''preview'');
     v_message_count \<leftarrow> req rd_u64 (i ''message_count'');
     v_labels \<leftarrow> dflt [] (rd_vec rd_s) (i ''labels'');
     v_senders \<leftarrow> dflt [] (rd_vec rd_s) (i ''senders'');
     v_recipients \<leftarrow> dflt [] (rd_vec rd_s) (i ''recipients'');
     v_timestamp \<leftarrow> req rd_s (i ''timestamp'');
     v_created_at \<leftarrow> req rd_s (i ''created_at'');
     v_updated_at \<leftarrow> req rd_s (i ''updated_at'');
     v_last_message_id \<leftarrow> dflt (MessageId []) rd_message_id (i ''last_message_id'');
     v_size \<leftarrow> dflt 0 rd_u64 (i ''size'');
     v_received_timestamp \<leftarrow> opt rd_s (i ''received_timestamp'');
     v_sent_timestamp \<leftarrow> opt rd_s (i ''sent_timestamp'');
     v_attachments \<leftarrow> dflt [] (rd_vec rd_attachment) (i ''attachments'');
     Some \<lparr>snap_thread_id = v_thread_id, snap_subject = v_subject, snap_preview = v_preview,
       snap_message_count = v_message_count, snap_labels = v_labels, snap_senders = v_senders,
       snap_recipients = v_recipients, snap_timestamp = v_timestamp,
       snap_created_at = v_created_at, snap_updated_at = v_updated_at,
       snap_last_message_id = v_last_message_id, snap_size = v_size,
       snap_received_timestamp = v_received_timestamp, snap_sent_timestamp = v_sent_timestamp,
       snap_attachments = v_attachments\<rparr>
   }"

lemma snapshot_of_item_fields [simp]: "snapshot_of_item (map_of (snapshot_fields x)) = Some x"
  by (simp add: snapshot_of_item_def cong: bind_weak_cong)

fun rd_snapshot :: "attribute_value \<Rightarrow> thread_snapshot option" where
  "rd_snapshot (AvM es) = snapshot_of_item (map_of es)"
| "rd_snapshot _ = None"

definition envelope_fields :: "envelope \<Rightarrow> (string \<times> attribute_value) list" where
  "envelope_fields x =
     vec_field ''to'' strs_av (env_to x)
     @ vec_field ''cc'' strs_av (env_cc x)
     @ vec_field ''bcc'' strs_av (env_bcc x)"

lemma envelope_lookup [simp]:
  "map_of (envelope_fields x) ''to'' =
     (if env_to x = [] then None else Some (strs_av (env_to x)))"
  "map_of (envelope_fields x) ''cc'' =
     (if env_cc x = [] then None else Some (strs_av (env_cc x)))"
  "map_of (envelope_fields x) ''bcc'' =
     (if env_bcc x = [] then None else Some (strs_av (env_bcc x)))"
  by (simp_all add: envelope_fields_def all_fields del: map_of_append)

definition envelope_of_item :: "item \<Rightarrow> envelope option" where
  "envelope_of_item i = do {
     v_to \<leftarrow> dflt [] (rd_vec rd_s) (i ''to'');
     v_cc \<leftarrow> dflt [] (rd_vec rd_s) (i ''cc'');
     v_bcc \<leftarrow> dflt [] (rd_vec rd_s) (i ''bcc'');
     Some \<lparr>env_to = v_to, env_cc = v_cc, env_bcc = v_bcc\<rparr>
   }"

fun rd_envelope :: "attribute_value \<Rightarrow> envelope option" where
  "rd_envelope (AvM es) = envelope_of_item (map_of es)"
| "rd_envelope _ = None"

lemma envelope_of_item_fields [simp]: "envelope_of_item (map_of (envelope_fields x)) = Some x"
  by (simp add: envelope_of_item_def cong: bind_weak_cong)

section \<open>Inboxes, messages, threads, sends and their lookup rows\<close>

definition inbox_fields :: "inbox \<Rightarrow> (string \<times> attribute_value) list" where
  "inbox_fields x =
     [(''inbox_id'', AvS (inbox_str (inb_inbox_id x))),
        (''email'', AvS (inb_email x))]
     @ opt_field ''display_name'' AvS (inb_display_name x)
     @ opt_field ''metadata'' json_av (inb_metadata x)
     @ [(''created_at'', AvS (inb_created_at x)),
        (''updated_at'', AvS (inb_updated_at x))]"

lemma inbox_lookup [simp]:
  "map_of (inbox_fields x) ''inbox_id'' = Some (AvS (inbox_str (inb_inbox_id x)))"
  "map_of (inbox_fields x) ''email'' = Some (AvS (inb_email x))"
  "map_of (inbox_fields x) ''display_name'' =
     map_option AvS (inb_display_name x)"
  "map_of (inbox_fields x) ''metadata'' =
     map_option json_av (inb_metadata x)"
  "map_of (inbox_fields x) ''created_at'' = Some (AvS (inb_created_at x))"
  "map_of (inbox_fields x) ''updated_at'' = Some (AvS (inb_updated_at x))"
  by (simp_all add: inbox_fields_def all_fields del: map_of_append)

definition inbox_of_item :: "item \<Rightarrow> inbox option" where
  "inbox_of_item i = do {
     v_inbox_id \<leftarrow> req rd_inbox_id (i ''inbox_id'');
     v_email \<leftarrow> req rd_s (i ''email'');
     v_display_name \<leftarrow> opt rd_s (i ''display_name'');
     v_metadata \<leftarrow> opt rd_json (i ''metadata'');
     v_created_at \<leftarrow> req rd_s (i ''created_at'');
     v_updated_at \<leftarrow> req rd_s (i ''updated_at'');
     Some \<lparr>inb_inbox_id = v_inbox_id, inb_email = v_email, inb_display_name = v_display_name,
       inb_metadata = v_metadata, inb_created_at = v_created_at, inb_updated_at = v_updated_at\<rparr>
   }"

lemma inbox_of_item_fields [simp]: "inbox_of_item (map_of (inbox_fields x)) = Some (x\<lparr>inb_metadata := non_null (inb_metadata x)\<rparr>)"
  by (simp add: inbox_of_item_def cong: bind_weak_cong)

definition message_fields :: "mail_message \<Rightarrow> (string \<times> attribute_value) list" where
  "message_fields x =
     [(''inbox_id'', AvS (inbox_str (msg_inbox_id x))),
        (''thread_id'', AvS (thread_id_str (msg_thread_id x))),
        (''message_id'', AvS (message_id_str (msg_message_id x)))]
     @ opt_field ''ses_message_id'' (\<lambda>m. AvS (ses_message_id_str m)) (msg_ses_message_id x)
     @ [(''direction'', AvS (direction_str (msg_direction x))),
        (''rfc_message_id'', AvS (msg_rfc_message_id x))]
     @ opt_field ''in_reply_to'' AvS (msg_in_reply_to x)
     @ vec_field ''labels'' AvSs (msg_labels x)
     @ [(''timestamp'', AvS (msg_timestamp x)),
        (''from'', AvS (msg_from x))]
     @ vec_field ''to'' strs_av (msg_to x)
     @ vec_field ''cc'' strs_av (msg_cc x)
     @ vec_field ''bcc'' strs_av (msg_bcc x)
     @ [(''subject'', AvS (msg_subject x)),
        (''preview'', AvS (msg_preview x)),
        (''size'', u64_av (msg_size x))]
     @ vec_field ''attachments'' attachments_av (msg_attachments x)
     @ [(''attachments_truncated'', AvBool (msg_attachments_truncated x))]
     @ opt_field ''raw_s3_key'' AvS (msg_raw_s3_key x)
     @ opt_field ''thread_snapshot'' (\<lambda>m. AvM (snapshot_fields m)) (msg_thread_snapshot x)
     @ map_field ''delivery'' json_av (msg_delivery x)
     @ opt_field ''send_status'' (\<lambda>m. AvS (send_status_str m)) (msg_send_status x)
     @ opt_field ''sent_at'' AvS (msg_sent_at x)
     @ [(''version'', u64_av (msg_version x)),
        (''created_at'', AvS (msg_created_at x)),
        (''updated_at'', AvS (msg_updated_at x)),
        (''expires_at'', u64_av (msg_expires_at x))]"

lemma message_lookup [simp]:
  "map_of (message_fields x) ''inbox_id'' = Some (AvS (inbox_str (msg_inbox_id x)))"
  "map_of (message_fields x) ''thread_id'' = Some (AvS (thread_id_str (msg_thread_id x)))"
  "map_of (message_fields x) ''message_id'' = Some (AvS (message_id_str (msg_message_id x)))"
  "map_of (message_fields x) ''ses_message_id'' =
     map_option (\<lambda>m. AvS (ses_message_id_str m)) (msg_ses_message_id x)"
  "map_of (message_fields x) ''direction'' = Some (AvS (direction_str (msg_direction x)))"
  "map_of (message_fields x) ''rfc_message_id'' = Some (AvS (msg_rfc_message_id x))"
  "map_of (message_fields x) ''in_reply_to'' =
     map_option AvS (msg_in_reply_to x)"
  "map_of (message_fields x) ''labels'' =
     (if msg_labels x = [] then None else Some (AvSs (msg_labels x)))"
  "map_of (message_fields x) ''timestamp'' = Some (AvS (msg_timestamp x))"
  "map_of (message_fields x) ''from'' = Some (AvS (msg_from x))"
  "map_of (message_fields x) ''to'' =
     (if msg_to x = [] then None else Some (strs_av (msg_to x)))"
  "map_of (message_fields x) ''cc'' =
     (if msg_cc x = [] then None else Some (strs_av (msg_cc x)))"
  "map_of (message_fields x) ''bcc'' =
     (if msg_bcc x = [] then None else Some (strs_av (msg_bcc x)))"
  "map_of (message_fields x) ''subject'' = Some (AvS (msg_subject x))"
  "map_of (message_fields x) ''preview'' = Some (AvS (msg_preview x))"
  "map_of (message_fields x) ''size'' = Some (u64_av (msg_size x))"
  "map_of (message_fields x) ''attachments'' =
     (if msg_attachments x = [] then None else Some (attachments_av (msg_attachments x)))"
  "map_of (message_fields x) ''attachments_truncated'' = Some (AvBool (msg_attachments_truncated x))"
  "map_of (message_fields x) ''raw_s3_key'' =
     map_option AvS (msg_raw_s3_key x)"
  "map_of (message_fields x) ''thread_snapshot'' =
     map_option (\<lambda>m. AvM (snapshot_fields m)) (msg_thread_snapshot x)"
  "map_of (message_fields x) ''delivery'' =
     (if bt_entries (msg_delivery x) = [] then None
        else Some (AvM (map (\<lambda>e. (fst e, json_av (snd e))) (bt_entries (msg_delivery x)))))"
  "map_of (message_fields x) ''send_status'' =
     map_option (\<lambda>m. AvS (send_status_str m)) (msg_send_status x)"
  "map_of (message_fields x) ''sent_at'' =
     map_option AvS (msg_sent_at x)"
  "map_of (message_fields x) ''version'' = Some (u64_av (msg_version x))"
  "map_of (message_fields x) ''created_at'' = Some (AvS (msg_created_at x))"
  "map_of (message_fields x) ''updated_at'' = Some (AvS (msg_updated_at x))"
  "map_of (message_fields x) ''expires_at'' = Some (u64_av (msg_expires_at x))"
  by (simp_all add: message_fields_def all_fields del: map_of_append)

definition message_of_item :: "item \<Rightarrow> mail_message option" where
  "message_of_item i = do {
     v_inbox_id \<leftarrow> req rd_inbox_id (i ''inbox_id'');
     v_thread_id \<leftarrow> req rd_thread_id (i ''thread_id'');
     v_message_id \<leftarrow> req rd_message_id (i ''message_id'');
     v_ses_message_id \<leftarrow> opt rd_ses_message_id (i ''ses_message_id'');
     v_direction \<leftarrow> req rd_direction (i ''direction'');
     v_rfc_message_id \<leftarrow> req rd_s (i ''rfc_message_id'');
     v_in_reply_to \<leftarrow> opt rd_s (i ''in_reply_to'');
     v_labels \<leftarrow> dflt [] rd_ss (i ''labels'');
     v_timestamp \<leftarrow> req rd_s (i ''timestamp'');
     v_from \<leftarrow> req rd_s (i ''from'');
     v_to \<leftarrow> dflt [] (rd_vec rd_s) (i ''to'');
     v_cc \<leftarrow> dflt [] (rd_vec rd_s) (i ''cc'');
     v_bcc \<leftarrow> dflt [] (rd_vec rd_s) (i ''bcc'');
     v_subject \<leftarrow> req rd_s (i ''subject'');
     v_preview \<leftarrow> req rd_s (i ''preview'');
     v_size \<leftarrow> req rd_u64 (i ''size'');
     v_attachments \<leftarrow> dflt [] (rd_vec rd_attachment) (i ''attachments'');
     v_attachments_truncated \<leftarrow> req rd_bool (i ''attachments_truncated'');
     v_raw_s3_key \<leftarrow> opt rd_s (i ''raw_s3_key'');
     v_thread_snapshot \<leftarrow> opt rd_snapshot (i ''thread_snapshot'');
     v_delivery \<leftarrow> dflt bt_empty (rd_map rd_json) (i ''delivery'');
     v_send_status \<leftarrow> opt rd_send_status (i ''send_status'');
     v_sent_at \<leftarrow> opt rd_s (i ''sent_at'');
     v_version \<leftarrow> req rd_u64 (i ''version'');
     v_created_at \<leftarrow> req rd_s (i ''created_at'');
     v_updated_at \<leftarrow> req rd_s (i ''updated_at'');
     v_expires_at \<leftarrow> req rd_u64 (i ''expires_at'');
     Some \<lparr>msg_inbox_id = v_inbox_id, msg_thread_id = v_thread_id, msg_message_id = v_message_id,
       msg_ses_message_id = v_ses_message_id, msg_direction = v_direction,
       msg_rfc_message_id = v_rfc_message_id, msg_in_reply_to = v_in_reply_to,
       msg_labels = v_labels, msg_timestamp = v_timestamp, msg_from = v_from, msg_to = v_to,
       msg_cc = v_cc, msg_bcc = v_bcc, msg_subject = v_subject, msg_preview = v_preview,
       msg_size = v_size, msg_attachments = v_attachments,
       msg_attachments_truncated = v_attachments_truncated, msg_raw_s3_key = v_raw_s3_key,
       msg_thread_snapshot = v_thread_snapshot, msg_delivery = v_delivery,
       msg_send_status = v_send_status, msg_sent_at = v_sent_at, msg_version = v_version,
       msg_created_at = v_created_at, msg_updated_at = v_updated_at,
       msg_expires_at = v_expires_at\<rparr>
   }"

lemma message_of_item_fields [simp]: "message_of_item (map_of (message_fields x)) = Some x"
  by (simp add: message_of_item_def cong: bind_weak_cong)

definition thread_fields :: "thread_state \<Rightarrow> (string \<times> attribute_value) list" where
  "thread_fields x =
     [(''inbox_id'', AvS (inbox_str (thr_inbox_id x))),
        (''thread_id'', AvS (thread_id_str (thr_thread_id x))),
        (''timestamp'', AvS (thr_timestamp x)),
        (''subject'', AvS (thr_subject x)),
        (''preview'', AvS (thr_preview x))]
     @ vec_field ''senders'' AvSs (thr_senders x)
     @ vec_field ''recipients'' AvSs (thr_recipients x)
     @ vec_field ''labels'' AvSs (thr_labels x)
     @ map_field ''label_counts'' u64_av (thr_label_counts x)
     @ [(''last_message_id'', AvS (message_id_str (thr_last_message_id x))),
        (''message_count'', u64_av (thr_message_count x)),
        (''size'', u64_av (thr_size x))]
     @ opt_field ''received_timestamp'' AvS (thr_received_timestamp x)
     @ opt_field ''sent_timestamp'' AvS (thr_sent_timestamp x)
     @ vec_field ''attachments'' attachments_av (thr_attachments x)
     @ [(''version'', u64_av (thr_version x)),
        (''created_at'', AvS (thr_created_at x)),
        (''updated_at'', AvS (thr_updated_at x)),
        (''expires_at'', u64_av (thr_expires_at x))]"

lemma thread_lookup [simp]:
  "map_of (thread_fields x) ''inbox_id'' = Some (AvS (inbox_str (thr_inbox_id x)))"
  "map_of (thread_fields x) ''thread_id'' = Some (AvS (thread_id_str (thr_thread_id x)))"
  "map_of (thread_fields x) ''timestamp'' = Some (AvS (thr_timestamp x))"
  "map_of (thread_fields x) ''subject'' = Some (AvS (thr_subject x))"
  "map_of (thread_fields x) ''preview'' = Some (AvS (thr_preview x))"
  "map_of (thread_fields x) ''senders'' =
     (if thr_senders x = [] then None else Some (AvSs (thr_senders x)))"
  "map_of (thread_fields x) ''recipients'' =
     (if thr_recipients x = [] then None else Some (AvSs (thr_recipients x)))"
  "map_of (thread_fields x) ''labels'' =
     (if thr_labels x = [] then None else Some (AvSs (thr_labels x)))"
  "map_of (thread_fields x) ''label_counts'' =
     (if bt_entries (thr_label_counts x) = [] then None
        else Some (AvM (map (\<lambda>e. (fst e, u64_av (snd e))) (bt_entries (thr_label_counts x)))))"
  "map_of (thread_fields x) ''last_message_id'' = Some (AvS (message_id_str (thr_last_message_id x)))"
  "map_of (thread_fields x) ''message_count'' = Some (u64_av (thr_message_count x))"
  "map_of (thread_fields x) ''size'' = Some (u64_av (thr_size x))"
  "map_of (thread_fields x) ''received_timestamp'' =
     map_option AvS (thr_received_timestamp x)"
  "map_of (thread_fields x) ''sent_timestamp'' =
     map_option AvS (thr_sent_timestamp x)"
  "map_of (thread_fields x) ''attachments'' =
     (if thr_attachments x = [] then None else Some (attachments_av (thr_attachments x)))"
  "map_of (thread_fields x) ''version'' = Some (u64_av (thr_version x))"
  "map_of (thread_fields x) ''created_at'' = Some (AvS (thr_created_at x))"
  "map_of (thread_fields x) ''updated_at'' = Some (AvS (thr_updated_at x))"
  "map_of (thread_fields x) ''expires_at'' = Some (u64_av (thr_expires_at x))"
  by (simp_all add: thread_fields_def all_fields del: map_of_append)

definition thread_of_item :: "item \<Rightarrow> thread_state option" where
  "thread_of_item i = do {
     v_inbox_id \<leftarrow> req rd_inbox_id (i ''inbox_id'');
     v_thread_id \<leftarrow> req rd_thread_id (i ''thread_id'');
     v_timestamp \<leftarrow> req rd_s (i ''timestamp'');
     v_subject \<leftarrow> req rd_s (i ''subject'');
     v_preview \<leftarrow> req rd_s (i ''preview'');
     v_senders \<leftarrow> dflt [] rd_ss (i ''senders'');
     v_recipients \<leftarrow> dflt [] rd_ss (i ''recipients'');
     v_labels \<leftarrow> dflt [] rd_ss (i ''labels'');
     v_label_counts \<leftarrow> dflt bt_empty (rd_map rd_u64) (i ''label_counts'');
     v_last_message_id \<leftarrow> req rd_message_id (i ''last_message_id'');
     v_message_count \<leftarrow> req rd_u64 (i ''message_count'');
     v_size \<leftarrow> req rd_u64 (i ''size'');
     v_received_timestamp \<leftarrow> opt rd_s (i ''received_timestamp'');
     v_sent_timestamp \<leftarrow> opt rd_s (i ''sent_timestamp'');
     v_attachments \<leftarrow> dflt [] (rd_vec rd_attachment) (i ''attachments'');
     v_version \<leftarrow> req rd_u64 (i ''version'');
     v_created_at \<leftarrow> req rd_s (i ''created_at'');
     v_updated_at \<leftarrow> req rd_s (i ''updated_at'');
     v_expires_at \<leftarrow> req rd_u64 (i ''expires_at'');
     Some \<lparr>thr_inbox_id = v_inbox_id, thr_thread_id = v_thread_id, thr_timestamp = v_timestamp,
       thr_subject = v_subject, thr_preview = v_preview, thr_senders = v_senders,
       thr_recipients = v_recipients, thr_labels = v_labels, thr_label_counts = v_label_counts,
       thr_last_message_id = v_last_message_id, thr_message_count = v_message_count,
       thr_size = v_size, thr_received_timestamp = v_received_timestamp,
       thr_sent_timestamp = v_sent_timestamp, thr_attachments = v_attachments,
       thr_version = v_version, thr_created_at = v_created_at, thr_updated_at = v_updated_at,
       thr_expires_at = v_expires_at\<rparr>
   }"

lemma thread_of_item_fields [simp]: "thread_of_item (map_of (thread_fields x)) = Some x"
  by (simp add: thread_of_item_def cong: bind_weak_cong)

definition send_state_fields :: "send_state \<Rightarrow> (string \<times> attribute_value) list" where
  "send_state_fields x =
     [(''inbox_id'', AvS (inbox_str (snd_inbox_id x))),
        (''message_id'', AvS (message_id_str (snd_message_id x))),
        (''thread_id'', AvS (thread_id_str (snd_thread_id x))),
        (''send_status'', AvS (send_status_str (snd_send_status x))),
        (''version'', u64_av (snd_version x)),
        (''envelope'', AvM (envelope_fields (snd_envelope x)))]
     @ opt_field ''sending_at'' AvS (snd_sending_at x)
     @ opt_field ''ses_call_at'' AvS (snd_ses_call_at x)
     @ opt_field ''requeued_at'' AvS (snd_requeued_at x)
     @ [(''transient_failures'', AvN (u32_str (snd_transient_failures x)))]
     @ opt_field ''operator_resend_at'' AvS (snd_operator_resend_at x)
     @ opt_field ''failure'' (\<lambda>m. AvS (send_failure_str m)) (snd_failure x)
     @ opt_field ''idempotency_key_pk'' AvS (snd_idempotency_key_pk x)
     @ [(''created_at'', AvS (snd_created_at x)),
        (''updated_at'', AvS (snd_updated_at x))]
     @ opt_field ''expires_at'' u64_av (snd_expires_at x)"

lemma send_state_lookup [simp]:
  "map_of (send_state_fields x) ''inbox_id'' = Some (AvS (inbox_str (snd_inbox_id x)))"
  "map_of (send_state_fields x) ''message_id'' = Some (AvS (message_id_str (snd_message_id x)))"
  "map_of (send_state_fields x) ''thread_id'' = Some (AvS (thread_id_str (snd_thread_id x)))"
  "map_of (send_state_fields x) ''send_status'' = Some (AvS (send_status_str (snd_send_status x)))"
  "map_of (send_state_fields x) ''version'' = Some (u64_av (snd_version x))"
  "map_of (send_state_fields x) ''envelope'' = Some (AvM (envelope_fields (snd_envelope x)))"
  "map_of (send_state_fields x) ''sending_at'' =
     map_option AvS (snd_sending_at x)"
  "map_of (send_state_fields x) ''ses_call_at'' =
     map_option AvS (snd_ses_call_at x)"
  "map_of (send_state_fields x) ''requeued_at'' =
     map_option AvS (snd_requeued_at x)"
  "map_of (send_state_fields x) ''transient_failures'' = Some (AvN (u32_str (snd_transient_failures x)))"
  "map_of (send_state_fields x) ''operator_resend_at'' =
     map_option AvS (snd_operator_resend_at x)"
  "map_of (send_state_fields x) ''failure'' =
     map_option (\<lambda>m. AvS (send_failure_str m)) (snd_failure x)"
  "map_of (send_state_fields x) ''idempotency_key_pk'' =
     map_option AvS (snd_idempotency_key_pk x)"
  "map_of (send_state_fields x) ''created_at'' = Some (AvS (snd_created_at x))"
  "map_of (send_state_fields x) ''updated_at'' = Some (AvS (snd_updated_at x))"
  "map_of (send_state_fields x) ''expires_at'' =
     map_option u64_av (snd_expires_at x)"
  by (simp_all add: send_state_fields_def all_fields del: map_of_append)

definition send_state_of_item :: "item \<Rightarrow> send_state option" where
  "send_state_of_item i = do {
     v_inbox_id \<leftarrow> req rd_inbox_id (i ''inbox_id'');
     v_message_id \<leftarrow> req rd_message_id (i ''message_id'');
     v_thread_id \<leftarrow> req rd_thread_id (i ''thread_id'');
     v_send_status \<leftarrow> req rd_send_status (i ''send_status'');
     v_version \<leftarrow> req rd_u64 (i ''version'');
     v_envelope \<leftarrow> req rd_envelope (i ''envelope'');
     v_sending_at \<leftarrow> opt rd_s (i ''sending_at'');
     v_ses_call_at \<leftarrow> opt rd_s (i ''ses_call_at'');
     v_requeued_at \<leftarrow> opt rd_s (i ''requeued_at'');
     v_transient_failures \<leftarrow> dflt 0 rd_u32 (i ''transient_failures'');
     v_operator_resend_at \<leftarrow> opt rd_s (i ''operator_resend_at'');
     v_failure \<leftarrow> opt rd_send_failure (i ''failure'');
     v_idempotency_key_pk \<leftarrow> opt rd_s (i ''idempotency_key_pk'');
     v_created_at \<leftarrow> req rd_s (i ''created_at'');
     v_updated_at \<leftarrow> req rd_s (i ''updated_at'');
     v_expires_at \<leftarrow> opt rd_u64 (i ''expires_at'');
     Some \<lparr>snd_inbox_id = v_inbox_id, snd_message_id = v_message_id, snd_thread_id = v_thread_id,
       snd_send_status = v_send_status, snd_version = v_version, snd_envelope = v_envelope,
       snd_sending_at = v_sending_at, snd_ses_call_at = v_ses_call_at,
       snd_requeued_at = v_requeued_at, snd_transient_failures = v_transient_failures,
       snd_operator_resend_at = v_operator_resend_at, snd_failure = v_failure,
       snd_idempotency_key_pk = v_idempotency_key_pk, snd_created_at = v_created_at,
       snd_updated_at = v_updated_at, snd_expires_at = v_expires_at\<rparr>
   }"

lemma send_state_of_item_fields [simp]: "send_state_of_item (map_of (send_state_fields x)) = Some x"
  by (simp add: send_state_of_item_def cong: bind_weak_cong)

definition send_key_fields :: "send_key \<Rightarrow> (string \<times> attribute_value) list" where
  "send_key_fields x =
     [(''key_hash'', AvS (key_key_hash x)),
        (''inbox_id'', AvS (inbox_str (key_inbox_id x))),
        (''message_id'', AvS (message_id_str (key_message_id x))),
        (''thread_id'', AvS (thread_id_str (key_thread_id x))),
        (''request_hash'', AvS (key_request_hash x)),
        (''route'', AvS (key_route x)),
        (''created_at'', AvS (key_created_at x)),
        (''expires_at'', u64_av (key_expires_at x))]"

lemma send_key_lookup [simp]:
  "map_of (send_key_fields x) ''key_hash'' = Some (AvS (key_key_hash x))"
  "map_of (send_key_fields x) ''inbox_id'' = Some (AvS (inbox_str (key_inbox_id x)))"
  "map_of (send_key_fields x) ''message_id'' = Some (AvS (message_id_str (key_message_id x)))"
  "map_of (send_key_fields x) ''thread_id'' = Some (AvS (thread_id_str (key_thread_id x)))"
  "map_of (send_key_fields x) ''request_hash'' = Some (AvS (key_request_hash x))"
  "map_of (send_key_fields x) ''route'' = Some (AvS (key_route x))"
  "map_of (send_key_fields x) ''created_at'' = Some (AvS (key_created_at x))"
  "map_of (send_key_fields x) ''expires_at'' = Some (u64_av (key_expires_at x))"
  by (simp_all add: send_key_fields_def all_fields del: map_of_append)

definition send_key_of_item :: "item \<Rightarrow> send_key option" where
  "send_key_of_item i = do {
     v_key_hash \<leftarrow> req rd_s (i ''key_hash'');
     v_inbox_id \<leftarrow> req rd_inbox_id (i ''inbox_id'');
     v_message_id \<leftarrow> req rd_message_id (i ''message_id'');
     v_thread_id \<leftarrow> req rd_thread_id (i ''thread_id'');
     v_request_hash \<leftarrow> req rd_s (i ''request_hash'');
     v_route \<leftarrow> req rd_s (i ''route'');
     v_created_at \<leftarrow> req rd_s (i ''created_at'');
     v_expires_at \<leftarrow> req rd_u64 (i ''expires_at'');
     Some \<lparr>key_key_hash = v_key_hash, key_inbox_id = v_inbox_id, key_message_id = v_message_id,
       key_thread_id = v_thread_id, key_request_hash = v_request_hash, key_route = v_route,
       key_created_at = v_created_at, key_expires_at = v_expires_at\<rparr>
   }"

lemma send_key_of_item_fields [simp]: "send_key_of_item (map_of (send_key_fields x)) = Some x"
  by (simp add: send_key_of_item_def cong: bind_weak_cong)

text \<open>An alias row is read as an \<open>RfcHit\<close>; an SES reference row as its two optional ids.\<close>

definition rfc_hit_of_item :: "item \<Rightarrow> rfc_hit option" where
  "rfc_hit_of_item i = do {
     v_message_id \<leftarrow> opt rd_message_id (i ''message_id'');
     v_thread_id \<leftarrow> req rd_thread_id (i ''thread_id'');
     Some \<lparr>hit_message_id = v_message_id, hit_thread_id = v_thread_id\<rparr>
   }"

record ses_ref =
  ref_inbox_id :: "inbox_id option"
  ref_message_id :: "message_id option"

definition ses_ref_of_item :: "item \<Rightarrow> ses_ref option" where
  "ses_ref_of_item i = do {
     v_inbox_id \<leftarrow> opt rd_inbox_id (i ''inbox_id'');
     v_message_id \<leftarrow> opt rd_message_id (i ''message_id'');
     Some \<lparr>ref_inbox_id = v_inbox_id, ref_message_id = v_message_id\<rparr>
   }"

definition into_parts :: "ses_ref \<Rightarrow> (inbox_id \<times> message_id) option" where
  "into_parts r = (case ref_inbox_id r of
       None \<Rightarrow> None
     | Some i \<Rightarrow> (case ref_message_id r of None \<Rightarrow> None | Some m \<Rightarrow> Some (i, m)))"

end
