(* ===== verification/Ids.thy ===== *)
theory Ids
  imports Domain
begin

unbundle bit_operations_syntax

text \<open>
  \<open>crates/mailbox/src/ids.rs\<close>: the \<open>Message-ID\<close> forms a sent message is known by, and the
  time prefix that \<open>before\<close>/\<open>after\<close> bounds compare with UUIDv7 sort keys. The UUIDs
  themselves are built by the crates \<open>uuid\<close> and \<open>sha2\<close>.
\<close>

definition our_rfc_message_id :: "string \<Rightarrow> string \<Rightarrow> string" where
  "our_rfc_message_id message_id domain = ''<'' @ message_id @ ''@'' @ domain @ ''>''"

definition ses_rfc_ids :: "string \<Rightarrow> string \<Rightarrow> string list" where
  "ses_rfc_ids ses_message_id region =
     [''<'' @ ses_message_id @ ''@email.amazonses.com>'',
      ''<'' @ ses_message_id @ ''@'' @ region @ ''.amazonses.com>'']"

text \<open>\<open>format!("{:08x}-{:04x}", ms >> 16, ms & 0xffff)\<close>.\<close>

definition time_prefix :: "u64 \<Rightarrow> string" where
  "time_prefix ms =
     pad0 8 (radix 16 (unat (drop_bit 16 ms))) @ ''-'' @ pad0 4 (radix 16 (unat (ms AND 0xffff)))"

lemma time_prefix_fixed:
  assumes "unat ms < 2 ^ 48"
  shows "time_prefix ms = fixed 16 8 (unat ms div 2 ^ 16) @ ''-'' @ fixed 16 4 (unat ms mod 2 ^ 16)"
proof -
  have high: "unat (drop_bit 16 ms) = unat ms div 2 ^ 16"
    by (simp add: drop_bit_eq_div unat_div)
  have low: "unat (ms AND 0xffff) = unat ms mod 2 ^ 16"
  proof -
    have "ms AND 0xffff = take_bit 16 ms"
      by (simp add: take_bit_eq_mask mask_eq_exp_minus_1)
    then show ?thesis by (simp add: take_bit_eq_mod unat_mod)
  qed
  have "unat ms div 2 ^ 16 < 16 ^ 8"
    using assms by (simp add: less_mult_imp_div_less)
  moreover have "unat ms mod 2 ^ 16 < (16 :: nat) ^ 4" by simp
  ultimately show ?thesis
    by (simp add: time_prefix_def high low pad0_radix)
qed

text \<open>
  Time prefixes order as the instants they encode: for every pair of millisecond
  values that a UUIDv7 can hold (48 bits), the strings compare as the values do, and each
  is exactly thirteen bytes.
\<close>

theorem time_prefix_less_iff:
  assumes "unat a < 2 ^ 48" and "unat b < 2 ^ 48"
  shows "(time_prefix a < time_prefix b \<longleftrightarrow> a < b) \<and> length (time_prefix a) = 13"
proof -
  have less: "time_prefix x < time_prefix y"
    if "x < y" and "unat x < 2 ^ 48" and "unat y < 2 ^ 48" for x y :: u64
  proof -
    have lt: "unat x < unat y" using that(1) by (simp add: word_less_nat_alt)
    consider "unat x div 2 ^ 16 < unat y div 2 ^ 16"
      | "unat x div 2 ^ 16 = unat y div 2 ^ 16" "unat x mod 2 ^ 16 < unat y mod 2 ^ 16"
      using lt by (metis div_le_mono le_neq_implies_less mod_mult_div_eq nat_add_left_cancel_less
          less_imp_le_nat add.commute)
    then show ?thesis
    proof cases
      case 1
      moreover have "unat y div 2 ^ 16 < 16 ^ 8"
        using that(3) by (simp add: less_mult_imp_div_less)
      ultimately have "fixed 16 8 (unat x div 2 ^ 16) < fixed 16 8 (unat y div 2 ^ 16)"
        by (intro fixed_less) simp_all
      with that show ?thesis by (simp add: time_prefix_fixed append_less_append)
    next
      case 2
      have "fixed 16 4 (unat x mod 2 ^ 16) < fixed 16 4 (unat y mod 2 ^ 16)"
        by (rule fixed_less) (use 2 in simp_all)
      with 2 that show ?thesis by (simp add: time_prefix_fixed append_less_append)
    qed
  qed
  have "a < b \<or> a = b \<or> b < a" by (rule less_linear)
  with less [of a b] less [of b a] assms show ?thesis
    by (auto simp: time_prefix_fixed dest: order.asym)
qed

theorem time_prefix_less_iff_witness:
  "time_prefix 0x10002 < time_prefix 0x20001 \<and> time_prefix 0x10002 = ''00000001-0002''"
proof -
  have "time_prefix 0x10002 < time_prefix 0x20001"
    using time_prefix_less_iff [of "0x10002" "0x20001"] by simp
  moreover have "time_prefix 0x10002 = ''00000001-0002''" by code_simp
  ultimately show ?thesis by simp
qed

end
