(* ===== verification/Plan.thy ===== *)
theory Plan
  imports Keys Items Ids
begin

text \<open>
  \<open>crates/mailbox-store/src/plan.rs\<close> and the result types of \<open>store.rs\<close>: every write of
  the mail table as a list of role-tagged, conditioned operations. Serializing the stored
  structs cannot fail in the model, so only the label caps make a planner return an error;
  the text of an error message is not kept.
\<close>

section \<open>Results\<close>

datatype mail_store_error =
    ErrNotFound | ErrConflict | ErrInvalidPageToken | ErrLabelLimit | ErrTransient | ErrPermanent

datatype enqueue_outcome = EnqCommitted | EnqAlreadyQueued | EnqKeyExists

section \<open>Planned operations\<close>

datatype op_role =
    RoleIdempotencyKey | RoleMessage | RoleSendState | RoleThread | RoleRfcAlias | RoleSesRef

datatype check = CheckEq string attribute_value

datatype cond =
    CondNone
  | CondNotExists
  | CondVersionEquals u64
  | CondNotExistsOrExpired u64
  | CondAll "check list"

datatype write_op =
    Put item cond
  | Update string string "(string \<times> attribute_value) list" "string list" cond
  | AliasFirstWriter string string "string option" string u64

datatype planned_op = PlannedOp (op_role: op_role) (op_op: write_op)

section \<open>Items and their keys\<close>

definition to_item ::
  "(string \<times> attribute_value) list \<Rightarrow> table_key \<Rightarrow> (string \<times> attribute_value) list \<Rightarrow> item" where
  "to_item fs key index_keys =
     fold (\<lambda>e i. i(fst e \<mapsto> snd e))
       ((''pk'', AvS (tk_pk key)) # (''sk'', AvS (tk_sk key)) # index_keys)
       (map_of fs)"

definition inbox_index_keys :: "inbox \<Rightarrow> (string \<times> attribute_value) list" where
  "inbox_index_keys x =
     [(''gsi1pk'', AvS INBOXES_PARTITION), (''gsi1sk'', AvS (inbox_str (inb_inbox_id x)))]"

definition message_index_keys :: "mail_message \<Rightarrow> (string \<times> attribute_value) list" where
  "message_index_keys x =
     [(''gsi1pk'', AvS (messages_partition (msg_inbox_id x))),
      (''gsi1sk'', AvS (message_id_str (msg_message_id x))),
      (''gsi2pk'', AvS (thread_messages_partition (msg_inbox_id x) (msg_thread_id x))),
      (''gsi2sk'', AvS (message_id_str (msg_message_id x)))]"

definition thread_index_keys :: "thread_state \<Rightarrow> (string \<times> attribute_value) list" where
  "thread_index_keys x =
     [(''gsi1pk'', AvS (threads_partition (thr_inbox_id x))),
      (''gsi1sk'', AvS (thread_time_sort (thr_timestamp x) (thr_thread_id x)))]"

definition send_state_index_keys :: "send_state \<Rightarrow> (string \<times> attribute_value) list" where
  "send_state_index_keys x =
     (if \<not> is_swept (snd_send_status x) then []
      else [(''gsi3pk'', AvS (send_status_partition (snd_send_status x))),
            (''gsi3sk'', AvS (message_id_str (snd_message_id x)))])"

definition inbox_item_of :: "inbox \<Rightarrow> item" where
  "inbox_item_of x = to_item (inbox_fields x) (inbox_key (inb_inbox_id x)) (inbox_index_keys x)"

definition message_item :: "mail_message \<Rightarrow> item" where
  "message_item x =
     to_item (message_fields x) (message_key (msg_inbox_id x) (msg_message_id x))
       (message_index_keys x)"

definition thread_item :: "thread_state \<Rightarrow> item" where
  "thread_item x =
     to_item (thread_fields x) (thread_key (thr_inbox_id x) (thr_thread_id x))
       (thread_index_keys x)"

definition send_state_item :: "send_state \<Rightarrow> item" where
  "send_state_item x =
     to_item (send_state_fields x) (send_state_key (snd_message_id x)) (send_state_index_keys x)"

definition send_key_item :: "send_key \<Rightarrow> item" where
  "send_key_item x = to_item (send_key_fields x) (send_key_key (key_key_hash x)) []"

definition ses_ref_item :: "string \<Rightarrow> inbox_id \<Rightarrow> message_id \<Rightarrow> u64 \<Rightarrow> item" where
  "ses_ref_item ses_message_id inbox_id message_id expires_at =
     to_item
       [(''inbox_id'', AvS (inbox_str inbox_id)),
        (''message_id'', AvS (message_id_str message_id)),
        (''expires_at'', u64_av expires_at)]
       (ses_ref_key ses_message_id) []"

definition inbox_item :: "inbox_id \<Rightarrow> string \<Rightarrow> inbox \<times> item" where
  "inbox_item inbox now =
     (let record = \<lparr>inb_inbox_id = inbox, inb_email = inbox_str inbox, inb_display_name = None,
            inb_metadata = None, inb_created_at = now, inb_updated_at = now\<rparr>
      in (record, inbox_item_of record))"

section \<open>The transaction builder\<close>

definition ALIAS_ID_MAX_BYTES :: nat where "ALIAS_ID_MAX_BYTES = 900"

definition put_message :: "mail_message \<Rightarrow> cond \<Rightarrow> planned_op" where
  "put_message x cond = PlannedOp RoleMessage (Put (message_item x) cond)"

definition put_thread :: "thread_state \<Rightarrow> cond \<Rightarrow> planned_op" where
  "put_thread x cond = PlannedOp RoleThread (Put (thread_item x) cond)"

definition put_send_state :: "send_state \<Rightarrow> cond \<Rightarrow> planned_op" where
  "put_send_state x cond = PlannedOp RoleSendState (Put (send_state_item x) cond)"

definition put_send_key :: "send_key \<Rightarrow> cond \<Rightarrow> planned_op" where
  "put_send_key x cond = PlannedOp RoleIdempotencyKey (Put (send_key_item x) cond)"

text \<open>The condition of \<open>put_versioned\<close>.\<close>

definition versioned :: "u64 option \<Rightarrow> cond" where
  "versioned before = (case before of None \<Rightarrow> CondNotExists | Some v \<Rightarrow> CondVersionEquals v)"

definition put_alias :: "mail_message \<Rightarrow> string \<Rightarrow> message_id option \<Rightarrow> planned_op list" where
  "put_alias msg rfc_id message_id =
     (let stripped = strip_angle_brackets rfc_id in
      if length stripped > ALIAS_ID_MAX_BYTES then []
      else let key = rfc_alias_key (msg_inbox_id msg) stripped in
        [PlannedOp RoleRfcAlias
          (AliasFirstWriter (tk_pk key) (tk_sk key) (map_option message_id_str message_id)
            (thread_id_str (msg_thread_id msg)) (msg_expires_at msg))])"

definition update_message_labels ::
  "mail_message \<Rightarrow> string list \<Rightarrow> string \<Rightarrow> (string \<times> attribute_value) list \<Rightarrow> planned_op" where
  "update_message_labels msg new_labels now extra =
     (let base = [(''version'', u64_av (msg_version msg + 1)), (''updated_at'', AvS now)];
          remove = (if new_labels = [] then [''labels''] else []);
          sets = (if new_labels = [] then base else base @ [(''labels'', AvSs new_labels)]);
          key = message_key (msg_inbox_id msg) (msg_message_id msg)
      in PlannedOp RoleMessage
        (Update (tk_pk key) (tk_sk key) (sets @ extra) remove
          (CondVersionEquals (msg_version msg))))"

definition is_sorted_and_deduped :: "string list \<Rightarrow> bool" where
  "is_sorted_and_deduped values =
     list_all (\<lambda>pair. fst pair < snd pair) (zip values (tl values))"

section \<open>The planners\<close>

definition stored_message :: "mail_message \<Rightarrow> thread_state \<Rightarrow> mail_message" where
  "stored_message msg thread_after =
     (case msg_direction msg of
        Inbound \<Rightarrow> msg\<lparr>msg_thread_snapshot := Some (snapshot_of thread_after)\<rparr>
      | Outbound \<Rightarrow> msg)"

definition plan_insert ::
  "mail_message \<Rightarrow> thread_state option \<Rightarrow> thread_state \<Rightarrow> alias_lookup \<Rightarrow> planned_op list" where
  "plan_insert msg thread_before thread_after aliases =
     (let own_id = strip_angle_brackets (msg_rfc_message_id msg) in
      [put_message (stored_message msg thread_after) CondNotExists,
       put_thread thread_after (versioned (map_option thr_version thread_before))]
      @ (if own_id \<noteq> [] \<and> is_claimable aliases own_id
         then put_alias msg (msg_rfc_message_id msg) (Some (msg_message_id msg)) else [])
      @ concat (map (\<lambda>candidate.
            if candidate \<noteq> own_id \<and> al_found aliases candidate = None
            then put_alias msg candidate None else [])
          (al_candidates aliases)))"

definition check_user_labels :: "string list \<Rightarrow> thread_state \<Rightarrow> mail_store_error + unit" where
  "check_user_labels message_labels thread_after =
     (if user_label_count message_labels > MESSAGE_USER_LABEL_CAP then Inl ErrLabelLimit
      else if user_label_count (thr_labels thread_after) > THREAD_USER_LABEL_CAP
      then Inl ErrLabelLimit
      else Inr ())"

definition plan_enqueue ::
  "mail_message \<Rightarrow> send_state \<Rightarrow> send_key option \<Rightarrow> thread_state option \<Rightarrow> thread_state \<Rightarrow> u64
     \<Rightarrow> mail_store_error + planned_op list" where
  "plan_enqueue msg state key thread_before thread_after now_epoch =
     (case check_user_labels (msg_labels msg) thread_after of
        Inl e \<Rightarrow> Inl e
      | Inr _ \<Rightarrow> Inr (
          (case key of None \<Rightarrow> []
           | Some k \<Rightarrow> [put_send_key k (CondNotExistsOrExpired now_epoch)])
          @ [put_message (stored_message msg thread_after) CondNotExists,
             put_send_state state CondNotExists,
             put_thread thread_after (versioned (map_option thr_version thread_before))]
          @ put_alias msg (msg_rfc_message_id msg) (Some (msg_message_id msg))))"

definition plan_state_cas :: "send_state \<Rightarrow> send_state \<Rightarrow> send_status \<Rightarrow> planned_op list" where
  "plan_state_cas before after expected =
     [put_send_state after
        (CondAll
          [CheckEq ''send_status'' (AvS (send_status_str expected)),
           CheckEq ''version'' (u64_av (snd_version before))])]"

definition plan_mark ::
  "send_state \<Rightarrow> send_state \<Rightarrow> mail_message \<Rightarrow> string list \<Rightarrow> (thread_state \<times> thread_state) option
     \<Rightarrow> ses_sent option \<Rightarrow> string \<Rightarrow> planned_op list" where
  "plan_mark state_before state_after msg new_labels thread ses now =
     [put_send_state state_after (versioned (Some (snd_version state_before)))]
     @ [update_message_labels msg new_labels now
          ((''send_status'', AvS (send_status_str (snd_send_status state_after)))
           # (case ses of None \<Rightarrow> []
              | Some s \<Rightarrow> [(''ses_message_id'', AvS (ses_sent_message_id s)), (''sent_at'', AvS now)]))]
     @ (case thread of None \<Rightarrow> []
        | Some (thread_before, thread_after) \<Rightarrow>
            [put_thread thread_after (versioned (Some (thr_version thread_before)))])
     @ (case ses of None \<Rightarrow> []
        | Some s \<Rightarrow>
            concat (map (\<lambda>rfc_id. put_alias msg rfc_id (Some (msg_message_id msg)))
              (ses_rfc_ids (ses_sent_message_id s) (ses_sent_region s)))
            @ [PlannedOp RoleSesRef
                (Put (ses_ref_item (ses_sent_message_id s) (msg_inbox_id msg) (msg_message_id msg)
                   (msg_expires_at msg)) CondNone)])"

definition plan_patch ::
  "mail_message \<Rightarrow> string list \<Rightarrow> thread_state \<Rightarrow> thread_state \<Rightarrow> string
     \<Rightarrow> mail_store_error + planned_op list" where
  "plan_patch msg new_labels thread_before thread_after now =
     (case check_user_labels new_labels thread_after of
        Inl e \<Rightarrow> Inl e
      | Inr _ \<Rightarrow> Inr
          [update_message_labels msg new_labels now [],
           put_thread thread_after (versioned (Some (thr_version thread_before)))])"

section \<open>What planned items read back as\<close>

lemma fold_upd_other:
  "list_all (\<lambda>e. fst e \<noteq> k) es \<Longrightarrow> fold (\<lambda>e i. i(fst e \<mapsto> snd e)) es m k = m k"
  by (induction es arbitrary: m) auto

lemma to_item_fields:
  "list_all (\<lambda>e. fst e \<noteq> k) index_keys \<Longrightarrow> k \<noteq> ''pk'' \<Longrightarrow> k \<noteq> ''sk'' \<Longrightarrow>
     to_item fs key index_keys k = map_of fs k"
  by (simp add: to_item_def fold_upd_other)

lemma to_item_keys:
  "list_all (\<lambda>e. fst e \<noteq> ''pk'') index_keys \<Longrightarrow>
     to_item fs key index_keys ''pk'' = Some (AvS (tk_pk key))"
  "list_all (\<lambda>e. fst e \<noteq> ''sk'') index_keys \<Longrightarrow>
     to_item fs key index_keys ''sk'' = Some (AvS (tk_sk key))"
  by (simp_all add: to_item_def fold_upd_other)

lemmas index_keys_defs = inbox_index_keys_def message_index_keys_def thread_index_keys_def
  send_state_index_keys_def

lemmas stored_item_defs = inbox_item_of_def message_item_def thread_item_def send_state_item_def
  send_key_item_def ses_ref_item_def

lemma item_keys [simp]:
  "inbox_item_of i ''pk'' = Some (AvS (tk_pk (inbox_key (inb_inbox_id i))))"
  "inbox_item_of i ''sk'' = Some (AvS (tk_sk (inbox_key (inb_inbox_id i))))"
  "message_item m ''pk'' = Some (AvS (tk_pk (message_key (msg_inbox_id m) (msg_message_id m))))"
  "message_item m ''sk'' = Some (AvS (tk_sk (message_key (msg_inbox_id m) (msg_message_id m))))"
  "thread_item t ''pk'' = Some (AvS (tk_pk (thread_key (thr_inbox_id t) (thr_thread_id t))))"
  "thread_item t ''sk'' = Some (AvS (tk_sk (thread_key (thr_inbox_id t) (thr_thread_id t))))"
  "send_state_item s ''pk'' = Some (AvS (tk_pk (send_state_key (snd_message_id s))))"
  "send_state_item s ''sk'' = Some (AvS (tk_sk (send_state_key (snd_message_id s))))"
  "send_key_item k ''pk'' = Some (AvS (tk_pk (send_key_key (key_key_hash k))))"
  "send_key_item k ''sk'' = Some (AvS (tk_sk (send_key_key (key_key_hash k))))"
  "ses_ref_item r ib mi ex ''pk'' = Some (AvS (tk_pk (ses_ref_key r)))"
  "ses_ref_item r ib mi ex ''sk'' = Some (AvS (tk_sk (ses_ref_key r)))"
  by (simp_all add: stored_item_defs to_item_keys index_keys_defs)

lemma item_versions [simp]:
  "message_item m ''version'' = Some (u64_av (msg_version m))"
  "thread_item t ''version'' = Some (u64_av (thr_version t))"
  "send_state_item s ''version'' = Some (u64_av (snd_version s))"
  "send_state_item s ''send_status'' = Some (AvS (send_status_str (snd_send_status s)))"
  "send_key_item k ''expires_at'' = Some (u64_av (key_expires_at k))"
  by (simp_all add: stored_item_defs to_item_fields index_keys_defs)

lemma inbox_of_inbox_item [simp]: "inbox_of_item (inbox_item_of x) = Some (x\<lparr>inb_metadata := non_null (inb_metadata x)\<rparr>)"
  by (simp add: inbox_of_item_def inbox_item_of_def to_item_fields inbox_index_keys_def
      cong: bind_weak_cong)

lemma message_of_message_item [simp]: "message_of_item (message_item x) = Some x"
  by (simp add: message_of_item_def message_item_def to_item_fields message_index_keys_def
      cong: bind_weak_cong)

lemma thread_of_thread_item [simp]: "thread_of_item (thread_item x) = Some x"
  by (simp add: thread_of_item_def thread_item_def to_item_fields thread_index_keys_def
      cong: bind_weak_cong)

lemma send_state_of_send_state_item [simp]: "send_state_of_item (send_state_item x) = Some x"
  by (simp add: send_state_of_item_def send_state_item_def to_item_fields send_state_index_keys_def
      cong: bind_weak_cong)

lemma send_key_of_send_key_item [simp]: "send_key_of_item (send_key_item x) = Some x"
  by (simp add: send_key_of_item_def send_key_item_def to_item_fields cong: bind_weak_cong)

lemma ses_ref_of_ses_ref_item [simp]:
  "map_option into_parts (ses_ref_of_item (ses_ref_item r i m e)) = Some (Some (i, m))"
  by (simp add: ses_ref_of_item_def ses_ref_item_def to_item_fields into_parts_def)

end
