(* ===== verification/Txn.thy ===== *)
theory Txn
  imports Plan
begin

text \<open>
  \<open>crates/mailbox-store/src/txn.rs\<close>: a cancelled transaction's per-item reasons decoded
  into one decision, and the alias writes a caller drops after losing them.
\<close>

datatype txn_decision =
    KeyExists | Duplicate | Retry | VersionConflict | AliasTaken "string list" | Permanent

datatype cancellation_reason =
    ReasonNone
  | ConditionalCheckFailed
  | TransactionConflict
  | ThrottlingError
  | ProvisionedThroughputExceeded
  | RequestLimitExceeded
  | InternalServerError
  | ValidationError
  | ItemCollectionSizeLimitExceeded

fun is_retryable :: "cancellation_reason \<Rightarrow> bool" where
  "is_retryable TransactionConflict = True"
| "is_retryable ThrottlingError = True"
| "is_retryable ProvisionedThroughputExceeded = True"
| "is_retryable RequestLimitExceeded = True"
| "is_retryable InternalServerError = True"
| "is_retryable _ = False"

fun is_not_exists_conditioned :: "write_op \<Rightarrow> bool" where
  "is_not_exists_conditioned (Put _ CondNotExists) = True"
| "is_not_exists_conditioned _ = False"

fun is_version_or_status_conditioned :: "write_op \<Rightarrow> bool" where
  "is_version_or_status_conditioned (Put _ c) = (case c of
       CondNotExists \<Rightarrow> True | CondVersionEquals _ \<Rightarrow> True | CondAll _ \<Rightarrow> True
     | CondNotExistsOrExpired _ \<Rightarrow> True | CondNone \<Rightarrow> False)"
| "is_version_or_status_conditioned (Update _ _ _ _ c) = (case c of
       CondVersionEquals _ \<Rightarrow> True | CondAll _ \<Rightarrow> True | CondNotExistsOrExpired _ \<Rightarrow> True
     | CondNotExists \<Rightarrow> False | CondNone \<Rightarrow> False)"
| "is_version_or_status_conditioned (AliasFirstWriter _ _ _ _ _) = False"

fun is_alias_write :: "write_op \<Rightarrow> bool" where
  "is_alias_write (AliasFirstWriter _ _ _ _ _) = True"
| "is_alias_write _ = False"

text \<open>The loops over \<open>ops.iter().zip(reasons)\<close> return at the first pair that matches.\<close>

fun taken_aliases :: "planned_op list \<Rightarrow> cancellation_reason list \<Rightarrow> string list" where
  "taken_aliases (op # ops) (reason # reasons) =
     (if reason = ConditionalCheckFailed
      then (case op_op op of
              AliasFirstWriter pk _ _ _ _ \<Rightarrow> pk # taken_aliases ops reasons
            | _ \<Rightarrow> taken_aliases ops reasons)
      else taken_aliases ops reasons)"
| "taken_aliases _ _ = []"

definition decode_cancellation ::
  "planned_op list \<Rightarrow> cancellation_reason list \<Rightarrow> txn_decision" where
  "decode_cancellation ops reasons =
     (let pairs = zip ops reasons in
      if list_ex (\<lambda>(op, reason). op_role op = RoleIdempotencyKey \<and>
           reason = ConditionalCheckFailed) pairs
      then KeyExists
      else if list_ex (\<lambda>(op, reason).
           (op_role op = RoleMessage \<or> op_role op = RoleSendState) \<and>
           reason = ConditionalCheckFailed \<and> is_not_exists_conditioned (op_op op)) pairs
      then Duplicate
      else if list_ex is_retryable reasons then Retry
      else if list_ex (\<lambda>(op, reason).
           (op_role op = RoleMessage \<or> op_role op = RoleSendState \<or> op_role op = RoleThread) \<and>
           reason = ConditionalCheckFailed \<and> is_version_or_status_conditioned (op_op op)) pairs
      then VersionConflict
      else let taken = taken_aliases ops reasons in
        if taken \<noteq> [] \<and>
           list_all (\<lambda>(op, reason). reason \<noteq> ConditionalCheckFailed \<or> is_alias_write (op_op op)) pairs
        then AliasTaken taken
        else Permanent)"

definition drop_taken_aliases :: "planned_op list \<Rightarrow> string list \<Rightarrow> planned_op list" where
  "drop_taken_aliases ops taken =
     filter (\<lambda>op. case op_op op of
         AliasFirstWriter pk _ _ _ _ \<Rightarrow> pk \<notin> List.set taken
       | Put _ _ \<Rightarrow> True
       | Update _ _ _ _ _ \<Rightarrow> True) ops"

section \<open>Decoding failed checks alone\<close>

text \<open>
  When the only reasons are failed checks, the decision is a function of the operations
  whose check failed.
\<close>

definition check_reason :: "bool \<Rightarrow> cancellation_reason" where
  "check_reason ok = (if ok then ReasonNone else ConditionalCheckFailed)"

definition failed_ops :: "(planned_op \<Rightarrow> bool) \<Rightarrow> planned_op list \<Rightarrow> planned_op list" where
  "failed_ops ok ops = filter (\<lambda>op. \<not> ok op) ops"

fun alias_pk :: "write_op \<Rightarrow> string" where
  "alias_pk (AliasFirstWriter pk _ _ _ _) = pk"
| "alias_pk _ = []"

definition decode_failed :: "planned_op list \<Rightarrow> txn_decision" where
  "decode_failed lost =
     (if list_ex (\<lambda>op. op_role op = RoleIdempotencyKey) lost then KeyExists
      else if list_ex (\<lambda>op. (op_role op = RoleMessage \<or> op_role op = RoleSendState) \<and>
           is_not_exists_conditioned (op_op op)) lost then Duplicate
      else if list_ex (\<lambda>op.
           (op_role op = RoleMessage \<or> op_role op = RoleSendState \<or> op_role op = RoleThread) \<and>
           is_version_or_status_conditioned (op_op op)) lost then VersionConflict
      else if lost \<noteq> [] \<and> list_all (\<lambda>op. is_alias_write (op_op op)) lost
      then AliasTaken (map (\<lambda>op. alias_pk (op_op op)) lost)
      else Permanent)"

lemma check_reason_simps [simp]:
  "check_reason ok = ConditionalCheckFailed \<longleftrightarrow> \<not> ok"
  "\<not> is_retryable (check_reason ok)"
  by (simp_all add: check_reason_def)

lemma list_ex_check_reasons:
  "list_ex (\<lambda>(op, reason). P op \<and> reason = ConditionalCheckFailed \<and> Q op)
     (zip ops (map (\<lambda>op. check_reason (ok op)) ops)) \<longleftrightarrow>
   list_ex (\<lambda>op. P op \<and> Q op) (failed_ops ok ops)"
  by (induction ops) (auto simp: failed_ops_def)

lemma list_ex_check_reasons':
  "list_ex (\<lambda>(op, reason). P op \<and> reason = ConditionalCheckFailed)
     (zip ops (map (\<lambda>op. check_reason (ok op)) ops)) \<longleftrightarrow> list_ex P (failed_ops ok ops)"
  by (induction ops) (auto simp: failed_ops_def)

lemma list_all_check_reasons:
  "list_all (\<lambda>(op, reason). reason \<noteq> ConditionalCheckFailed \<or> P op)
     (zip ops (map (\<lambda>op. check_reason (ok op)) ops)) = list_all P (failed_ops ok ops)"
  by (induction ops) (auto simp: failed_ops_def)

lemma filter_all_iff: "filter P xs \<noteq> [] \<and> list_all P xs \<longleftrightarrow> xs \<noteq> [] \<and> list_all P xs"
  by (induction xs) auto

lemma filter_list_all: "list_all P xs \<Longrightarrow> filter P xs = xs"
  by (simp add: list_all_iff)

lemma taken_check_reasons:
  "taken_aliases ops (map (\<lambda>op. check_reason (ok op)) ops) =
     map (\<lambda>op. alias_pk (op_op op)) (filter (\<lambda>op. is_alias_write (op_op op)) (failed_ops ok ops))"
proof (induction ops)
  case (Cons op ops)
  then show ?case by (cases "op_op op") (simp_all add: failed_ops_def)
qed (simp add: failed_ops_def)

lemma decode_check_reasons:
  "decode_cancellation ops (map (\<lambda>op. check_reason (ok op)) ops) = decode_failed (failed_ops ok ops)"
proof -
  have retry: "list_ex is_retryable (map (\<lambda>op. check_reason (ok op)) ops) = False"
    by (induction ops) simp_all
  show ?thesis
    unfolding decode_cancellation_def Let_def decode_failed_def list_ex_check_reasons
      list_ex_check_reasons' list_all_check_reasons taken_check_reasons retry map_is_Nil_conv
      filter_all_iff
    by (simp add: filter_list_all cong: if_cong conj_cong)
qed

definition lost_check ::
  "planned_op list \<Rightarrow> cancellation_reason list \<Rightarrow> (planned_op \<Rightarrow> bool) \<Rightarrow> bool" where
  "lost_check ops reasons P =
     list_ex (\<lambda>(op, reason). reason = ConditionalCheckFailed \<and> P op) (zip ops reasons)"

lemma conditioned_not_alias:
  "is_not_exists_conditioned w \<Longrightarrow> \<not> is_alias_write w"
  "is_version_or_status_conditioned w \<Longrightarrow> \<not> is_alias_write w"
  by (cases w; simp)+

lemma lost_check_mono:
  "lost_check ops reasons P \<Longrightarrow> (\<And>op. P op \<Longrightarrow> Q op) \<Longrightarrow> lost_check ops reasons Q"
  by (fastforce simp: lost_check_def list_ex_iff)

text \<open>
  C31. The precedence of a cancellation with any mix of reasons: a lost idempotency key wins
  over everything, a lost creation of a message or send state over every retryable reason,
  and a retryable reason anywhere over a version conflict, so a throttled attempt is never
  reported as a definite loss. The decision is \<open>AliasTaken\<close> only when nothing but alias
  writes failed their check, and then it names exactly those aliases.
\<close>

theorem decode_cancellation_precedence:
  "(decode_cancellation ops reasons = KeyExists \<longleftrightarrow>
      lost_check ops reasons (\<lambda>op. op_role op = RoleIdempotencyKey))
   \<and> (decode_cancellation ops reasons = Duplicate \<longleftrightarrow>
      \<not> lost_check ops reasons (\<lambda>op. op_role op = RoleIdempotencyKey) \<and>
      lost_check ops reasons (\<lambda>op. op_role op \<in> {RoleMessage, RoleSendState} \<and>
        is_not_exists_conditioned (op_op op)))
   \<and> (decode_cancellation ops reasons = Retry \<longleftrightarrow>
      list_ex is_retryable reasons \<and>
      \<not> lost_check ops reasons (\<lambda>op. op_role op = RoleIdempotencyKey) \<and>
      \<not> lost_check ops reasons (\<lambda>op. op_role op \<in> {RoleMessage, RoleSendState} \<and>
        is_not_exists_conditioned (op_op op)))
   \<and> (decode_cancellation ops reasons = AliasTaken taken \<longleftrightarrow>
      taken = taken_aliases ops reasons \<and> taken \<noteq> [] \<and> \<not> list_ex is_retryable reasons \<and>
      \<not> lost_check ops reasons (\<lambda>op. op_role op = RoleIdempotencyKey) \<and>
      \<not> lost_check ops reasons (\<lambda>op. \<not> is_alias_write (op_op op)))"
proof -
  let ?K = "lost_check ops reasons (\<lambda>op. op_role op = RoleIdempotencyKey)"
  let ?D = "lost_check ops reasons (\<lambda>op. op_role op \<in> {RoleMessage, RoleSendState} \<and>
    is_not_exists_conditioned (op_op op))"
  let ?V = "lost_check ops reasons (\<lambda>op. op_role op \<in> {RoleMessage, RoleSendState, RoleThread} \<and>
    is_version_or_status_conditioned (op_op op))"
  let ?N = "lost_check ops reasons (\<lambda>op. \<not> is_alias_write (op_op op))"
  have decode: "decode_cancellation ops reasons =
      (if ?K then KeyExists else if ?D then Duplicate
       else if list_ex is_retryable reasons then Retry
       else if ?V then VersionConflict
       else if taken_aliases ops reasons \<noteq> [] \<and> \<not> ?N then AliasTaken (taken_aliases ops reasons)
       else Permanent)"
    unfolding decode_cancellation_def Let_def lost_check_def list_ex_iff list_all_iff
    by (intro if_cong refl) auto
  have "?D \<Longrightarrow> ?N" and "?V \<Longrightarrow> ?N"
    by (erule lost_check_mono; simp add: conditioned_not_alias)+
  then show ?thesis
    unfolding decode by auto
qed

end
