(* ===== verification/Table.thy ===== *)
theory Table
  imports Txn
begin

text \<open>
  \<open>crates/mailbox-store/src/table.rs\<close>: the seam between the mailbox and a store. The trait
  \<open>Table\<close> is a record of its operations over a store state \<open>'s\<close>; each operation returns its
  \<open>Result\<close> and the next state. A read hands over the raw item and \<open>decode\<close> turns it into the
  struct the caller asked for, failing as both stores do. The locale \<open>mail_table\<close> is what
  the mailbox relies on: every answer is one the table could give at some moment between the
  call and its return, while other writers work on the same rows.
\<close>

type_synonym rows = "table_key \<rightharpoonup> item"
type_synonym 'a outcome = "mail_store_error + 'a"
type_synonym ('s, 'a) io = "'s \<Rightarrow> 'a outcome \<times> 's"

section \<open>Types\<close>

datatype read = Eventual | Consistent

datatype txn_outcome = Committed | Cancelled txn_decision

datatype mail_index = ByTime | ByThread | ByStatus

fun index_name :: "mail_index \<Rightarrow> string" where
  "index_name ByTime = ''ByTime''"
| "index_name ByThread = ''ByThread''"
| "index_name ByStatus = ''ByStatus''"

fun key_attributes :: "mail_index \<Rightarrow> string \<times> string" where
  "key_attributes ByTime = (''gsi1pk'', ''gsi1sk'')"
| "key_attributes ByThread = (''gsi2pk'', ''gsi2sk'')"
| "key_attributes ByStatus = (''gsi3pk'', ''gsi3sk'')"

record 'a page =
  page_items :: "'a list"
  page_next :: "page_key option"

record list_query =
  lq_inbox :: inbox_id
  lq_limit :: nat
  lq_before :: "string option"
  lq_after :: "string option"
  lq_ascending :: bool
  lq_start :: "page_key option"

record page_query =
  pq_index :: mail_index
  pq_partition :: string
  pq_limit :: nat
  pq_before :: "string option"
  pq_after :: "string option"
  pq_ascending :: bool
  pq_start :: "page_key option"

definition unbounded :: "mail_index \<Rightarrow> string \<Rightarrow> nat \<Rightarrow> page_key option \<Rightarrow> page_query" where
  "unbounded index part limit start =
     \<lparr>pq_index = index, pq_partition = part, pq_limit = limit, pq_before = None,
      pq_after = None, pq_ascending = True, pq_start = start\<rparr>"

definition scoped :: "mail_index \<Rightarrow> string \<Rightarrow> list_query \<Rightarrow> page_query" where
  "scoped index part query =
     \<lparr>pq_index = index, pq_partition = part, pq_limit = lq_limit query,
      pq_before = lq_before query, pq_after = lq_after query,
      pq_ascending = lq_ascending query, pq_start = lq_start query\<rparr>"

record 's table =
  tbl_get :: "table_key \<Rightarrow> read \<Rightarrow> ('s, item option) io"
  tbl_batch_get :: "table_key list \<Rightarrow> read \<Rightarrow> ('s, rows) io"
  tbl_query :: "page_query \<Rightarrow> ('s, item page) io"
  tbl_put_if_absent :: "item \<Rightarrow> ('s, put_outcome) io"
  tbl_transact :: "planned_op list \<Rightarrow> ('s, txn_outcome) io"
  tbl_pause :: "nat \<Rightarrow> 's \<Rightarrow> 's"

section \<open>Results in sequence\<close>

text \<open>\<open>Ok\<close>, \<open>Err\<close> and the \<open>?\<close> operator.\<close>

definition ok :: "'a \<Rightarrow> ('s, 'a) io" where
  "ok a s = (Inr a, s)"

definition err :: "mail_store_error \<Rightarrow> ('s, 'a) io" where
  "err e s = (Inl e, s)"

definition try_io :: "('s, 'a) io \<Rightarrow> ('a \<Rightarrow> ('s, 'b) io) \<Rightarrow> ('s, 'b) io" where
  "try_io m f s = (case m s of (Inl e, s') \<Rightarrow> (Inl e, s') | (Inr a, s') \<Rightarrow> f a s')"

lemma io_simps [simp]:
  "ok a s = (Inr a, s)" "err e s = (Inl e, s)"
  by (simp_all add: ok_def err_def)

lemma try_io_cases:
  assumes "try_io m f s = (res, s')"
  obtains (Fail) e where "m s = (Inl e, s')" "res = Inl e"
    | (Go) a s1 where "m s = (Inr a, s1)" "f a s1 = (res, s')"
  using assms by (auto simp: try_io_def split: prod.splits sum.splits)

text \<open>An item read into a struct: a row that does not deserialize is a permanent error.\<close>

definition decode :: "(item \<Rightarrow> 'a option) \<Rightarrow> item option \<Rightarrow> 'a option outcome" where
  "decode of_item found = (case found of
       None \<Rightarrow> Inr None
     | Some i \<Rightarrow> (case of_item i of None \<Rightarrow> Inl ErrPermanent | Some a \<Rightarrow> Inr (Some a)))"

definition get_as ::
  "'s table \<Rightarrow> (item \<Rightarrow> 'a option) \<Rightarrow> table_key \<Rightarrow> read \<Rightarrow> ('s, 'a option) io" where
  "get_as T of_item key read =
     try_io (tbl_get T key read) (\<lambda>found s. (decode of_item found, s))"

definition decode_page :: "(item \<Rightarrow> 'a option) \<Rightarrow> item page \<Rightarrow> 'a page outcome" where
  "decode_page of_item p = (case those (map of_item (page_items p)) of
       None \<Rightarrow> Inl ErrPermanent
     | Some xs \<Rightarrow> Inr \<lparr>page_items = xs, page_next = page_next p\<rparr>)"

definition query_as :: "'s table \<Rightarrow> (item \<Rightarrow> 'a option) \<Rightarrow> page_query \<Rightarrow> ('s, 'a page) io" where
  "query_as T of_item query =
     try_io (tbl_query T query) (\<lambda>p s. (decode_page of_item p, s))"

text \<open>\<open>batch_get\<close> leaves out a row that does not deserialize.\<close>

definition batch_get_as ::
  "'s table \<Rightarrow> (item \<Rightarrow> 'a option) \<Rightarrow> table_key list \<Rightarrow> read \<Rightarrow> ('s, table_key \<rightharpoonup> 'a) io" where
  "batch_get_as T of_item ks read =
     try_io (tbl_batch_get T ks read) (\<lambda>found s. (Inr (\<lambda>k. Option.bind (found k) of_item), s))"

section \<open>What a transaction means\<close>

text \<open>
  The condition and the effect of a planned write on the rows of the table: the contract of
  \<open>TransactWriteItems\<close>, which either applies every write or none.
\<close>

definition string_attr :: "item \<Rightarrow> string \<Rightarrow> string option" where
  "string_attr i name = (case i name of Some (AvS s) \<Rightarrow> Some s | _ \<Rightarrow> None)"

definition number_attr :: "item \<Rightarrow> string \<Rightarrow> u64 option" where
  "number_attr i name = (case i name of Some (AvN n) \<Rightarrow> parse_u64 n | _ \<Rightarrow> None)"

abbreviation TableKey :: "string \<Rightarrow> string \<Rightarrow> table_key" where
  "TableKey pk sk \<equiv> \<lparr>tk_pk = pk, tk_sk = sk\<rparr>"

fun target :: "write_op \<Rightarrow> table_key option" where
  "target (Put i _) = (case string_attr i ''pk'' of None \<Rightarrow> None
     | Some pk \<Rightarrow> map_option (TableKey pk) (string_attr i ''sk''))"
| "target (Update pk sk _ _ _) = Some (TableKey pk sk)"
| "target (AliasFirstWriter pk sk _ _ _) = Some (TableKey pk sk)"

fun cond_ok :: "item option \<Rightarrow> cond \<Rightarrow> bool" where
  "cond_ok existing CondNone = True"
| "cond_ok existing CondNotExists = (existing = None)"
| "cond_ok existing (CondVersionEquals v) =
     (Option.bind existing (\<lambda>i. number_attr i ''version'') = Some v)"
| "cond_ok existing (CondNotExistsOrExpired now_epoch) = (case existing of
     None \<Rightarrow> True
   | Some i \<Rightarrow> (case number_attr i ''expires_at'' of None \<Rightarrow> False | Some e \<Rightarrow> e < now_epoch))"
| "cond_ok existing (CondAll checks) =
     list_all (\<lambda>c. case c of CheckEq name v \<Rightarrow>
       Option.bind existing (\<lambda>i. i name) = Some v) checks"

fun write_ok :: "item option \<Rightarrow> write_op \<Rightarrow> bool" where
  "write_ok existing (Put _ c) = cond_ok existing c"
| "write_ok existing (Update _ _ _ _ c) = cond_ok existing c"
| "write_ok existing (AliasFirstWriter _ _ mid _ _) =
     (case existing of None \<Rightarrow> True | Some i \<Rightarrow> mid \<noteq> None \<and> i ''message_id'' = None)"

definition set_attrs :: "item \<Rightarrow> (string \<times> attribute_value) list \<Rightarrow> string list \<Rightarrow> item" where
  "set_attrs i sets removes =
     fold (\<lambda>name i. i(name := None)) removes (fold (\<lambda>e i. i(fst e \<mapsto> snd e)) sets i)"

definition alias_item :: "string option \<Rightarrow> string \<Rightarrow> u64 \<Rightarrow> item" where
  "alias_item mid tid expires =
     map_of ([(''thread_id'', AvS tid)] @ opt_field ''message_id'' AvS mid
       @ [(''expires_at'', u64_av expires)])"

fun written :: "item option \<Rightarrow> write_op \<Rightarrow> item" where
  "written existing (Put i _) = i"
| "written existing (Update _ _ sets removes _) =
     set_attrs (case existing of None \<Rightarrow> Map.empty | Some i \<Rightarrow> i) sets removes"
| "written existing (AliasFirstWriter _ _ mid tid expires) = alias_item mid tid expires"

definition op_holds :: "rows \<Rightarrow> planned_op \<Rightarrow> bool" where
  "op_holds R op = (case target (op_op op) of None \<Rightarrow> True | Some k \<Rightarrow> write_ok (R k) (op_op op))"

definition apply_write :: "planned_op \<Rightarrow> rows \<Rightarrow> rows" where
  "apply_write op R = (case target (op_op op) of
       None \<Rightarrow> R | Some k \<Rightarrow> R(k \<mapsto> written (R k) (op_op op)))"

definition txn_ok :: "rows \<Rightarrow> planned_op list \<Rightarrow> bool" where
  "txn_ok R ops = list_all (op_holds R) ops"

definition txn_apply :: "planned_op list \<Rightarrow> rows \<Rightarrow> rows" where
  "txn_apply ops R = fold apply_write ops R"

definition cancel_decision :: "rows \<Rightarrow> planned_op list \<Rightarrow> txn_decision" where
  "cancel_decision R ops = decode_failed (failed_ops (op_holds R) ops)"

section \<open>The interface\<close>

text \<open>
  \<open>env R R'\<close>: what other writers may do to the rows while a call is under way. A
  consistent read returns a row as it stood at some moment of the call; an eventual read
  promises nothing about how fresh it is. A committed transaction applied all its writes at
  one moment at which every condition held; a cancelled one applied none, and its decision
  is \<open>Retry\<close>, the scripted \<open>KeyExists\<close>, or what the failed checks of some moment decode to.
  A transaction that ends in an error of the store may or may not have been applied.
\<close>

locale mail_table =
  fixes T :: "'s table"
    and rows_of :: "'s \<Rightarrow> rows"
    and env :: "rows \<Rightarrow> rows \<Rightarrow> bool"
  assumes env_refl: "env R R"
    and env_trans: "env R R' \<Longrightarrow> env R' R'' \<Longrightarrow> env R R''"
    and get_law: "tbl_get T k r s = (res, s') \<Longrightarrow>
      \<exists>R. env (rows_of s) R \<and> env R (rows_of s') \<and>
        (r = Consistent \<longrightarrow> (\<forall>found. res = Inr found \<longrightarrow> found = R k))"
    and batch_get_law: "tbl_batch_get T ks r s = (bres, s') \<Longrightarrow>
      env (rows_of s) (rows_of s') \<and>
      (\<forall>found k. bres = Inr found \<longrightarrow> r = Consistent \<longrightarrow> k \<in> List.set ks \<longrightarrow>
         (\<exists>R. env (rows_of s) R \<and> env R (rows_of s') \<and> found k = R k))"
    and query_law: "tbl_query T q s = (qres, s') \<Longrightarrow> env (rows_of s) (rows_of s')"
    and put_law: "tbl_put_if_absent T i s = (pres, s') \<Longrightarrow>
      env (rows_of s) (rows_of s') \<or>
      (\<exists>R k. env (rows_of s) R \<and> target (Put i CondNotExists) = Some k \<and> R k = None \<and>
         env (R(k \<mapsto> i)) (rows_of s'))"
    and transact_law: "tbl_transact T ops s = (tres, s') \<Longrightarrow>
      (\<exists>R. env (rows_of s) R \<and> txn_ok R ops \<and> env (txn_apply ops R) (rows_of s') \<and>
         (tres = Inr Committed \<or> (\<exists>e. tres = Inl e))) \<or>
      (\<exists>R. env (rows_of s) R \<and> env R (rows_of s') \<and>
         ((\<exists>d. tres = Inr (Cancelled d) \<and>
             (d = Retry \<or> d = KeyExists \<or> \<not> txn_ok R ops \<and> d = cancel_decision R ops)) \<or>
          (\<exists>e. tres = Inl e)))"
    and pause_law: "env (rows_of s) (rows_of (tbl_pause T n s))"

text \<open>
  A quiet table has no other writer and answers every call: what a read returns and what a
  transaction does are functions of the rows.
\<close>

locale quiet_table = mail_table +
  fixes quiet :: "'s \<Rightarrow> bool"
  assumes quiet_get: "quiet s \<Longrightarrow> \<exists>s'. tbl_get T k r s = (Inr (rows_of s k), s') \<and>
      rows_of s' = rows_of s \<and> quiet s'"
    and quiet_batch_get: "quiet s \<Longrightarrow> \<exists>s'. tbl_batch_get T ks r s =
      (Inr (\<lambda>k. if k \<in> List.set ks then rows_of s k else None), s') \<and>
      rows_of s' = rows_of s \<and> quiet s'"
    and quiet_put: "quiet s \<Longrightarrow> target (Put i CondNotExists) = Some k \<Longrightarrow>
      \<exists>s'. tbl_put_if_absent T i s =
        (Inr (if rows_of s k = None then Created else AlreadyExists), s') \<and>
        rows_of s' = (if rows_of s k = None then (rows_of s)(k \<mapsto> i) else rows_of s) \<and> quiet s'"
    and quiet_transact: "quiet s \<Longrightarrow> \<exists>s'. tbl_transact T ops s =
      (Inr (if txn_ok (rows_of s) ops then Committed
            else Cancelled (cancel_decision (rows_of s) ops)), s') \<and>
      rows_of s' = (if txn_ok (rows_of s) ops then txn_apply ops (rows_of s) else rows_of s) \<and>
      quiet s'"
    and quiet_pause: "quiet s \<Longrightarrow> rows_of (tbl_pause T n s) = rows_of s \<and> quiet (tbl_pause T n s)"

end
