(* ===== verification/ApiErrors.thy ===== *)
theory ApiErrors
  imports Objects Table
begin

text \<open>
  \<open>crates/webhook/src/api/error.rs\<close> and \<open>json.rs\<close>: the failures of the \<open>/v0\<close> API with the
  status, name and message a client sees, the mapping of store and object failures onto them,
  and values given once or as a list. The causes an \<open>anyhow::Error\<close> carries for the log are
  left out.
\<close>

record field_error =
  fe_path :: string
  fe_message :: string

abbreviation FieldError :: "string \<Rightarrow> string \<Rightarrow> field_error" where
  "FieldError p m \<equiv> \<lparr>fe_path = p, fe_message = m\<rparr>"

datatype api_error =
    Validation "field_error list"
  | Unauthorized
  | NotFound
  | Conflict string
  | TooLarge
  | NotImplemented
  | MethodNotAllowed
  | Unavailable
  | BadGateway
  | Internal

definition api_field :: "string \<Rightarrow> string \<Rightarrow> api_error" where
  "api_field path message = Validation [FieldError path message]"

text \<open>\<open>LabelLimit\<close> carries the message the store wrote for it.\<close>

fun api_error_of_store :: "string \<Rightarrow> mail_store_error \<Rightarrow> api_error" where
  "api_error_of_store limit ErrNotFound = NotFound"
| "api_error_of_store limit ErrInvalidPageToken = api_field ''page_token'' ''not a valid token for this request''"
| "api_error_of_store limit ErrLabelLimit = api_field ''labels'' limit"
| "api_error_of_store limit ErrTransient = BadGateway"
| "api_error_of_store limit ErrConflict = Internal"
| "api_error_of_store limit ErrPermanent = Internal"

fun api_error_of_object :: "object_error \<Rightarrow> api_error" where
  "api_error_of_object ObjNotFound = NotFound"
| "api_error_of_object ObjTransient = BadGateway"
| "api_error_of_object (ObjTooLarge _) = Internal"
| "api_error_of_object ObjPermanent = Internal"

fun status :: "api_error \<Rightarrow> nat" where
  "status (Validation _) = 400"
| "status Unauthorized = 401"
| "status NotFound = 404"
| "status (Conflict _) = 409"
| "status TooLarge = 413"
| "status NotImplemented = 501"
| "status MethodNotAllowed = 405"
| "status Unavailable = 503"
| "status BadGateway = 502"
| "status Internal = 500"

fun error_name :: "api_error \<Rightarrow> string" where
  "error_name (Validation _) = ''ValidationError''"
| "error_name Unauthorized = ''UnauthorizedError''"
| "error_name NotFound = ''NotFoundError''"
| "error_name (Conflict _) = ''ConflictError''"
| "error_name TooLarge = ''PayloadTooLargeError''"
| "error_name NotImplemented = ''NotImplementedError''"
| "error_name MethodNotAllowed = ''MethodNotAllowedError''"
| "error_name Unavailable = ''ServiceUnavailableError''"
| "error_name BadGateway = ''InternalServerError''"
| "error_name Internal = ''InternalServerError''"

fun public_message :: "api_error \<Rightarrow> string" where
  "public_message (Validation _) = ''Request validation failed.''"
| "public_message Unauthorized = ''Missing or invalid API key.''"
| "public_message (Conflict detail) = detail"
| "public_message NotFound = ''Resource not found.''"
| "public_message TooLarge = ''Request body is too large.''"
| "public_message NotImplemented = ''This endpoint is not implemented.''"
| "public_message MethodNotAllowed = ''This method is not allowed on this endpoint.''"
| "public_message Unavailable = ''API keys are temporarily unavailable; retry shortly.''"
| "public_message BadGateway = ''Internal server error.''"
| "public_message Internal = ''Internal server error.''"

text \<open>The parts of the response: status, body and the \<open>Retry-After\<close> header.\<close>

record error_response =
  er_status :: nat
  er_name :: string
  er_message :: string
  er_errors :: "field_error list option"
  er_retry_after :: "string option"

definition into_response :: "api_error \<Rightarrow> error_response" where
  "into_response error =
     \<lparr>er_status = status error, er_name = error_name error, er_message = public_message error,
      er_errors = (case error of Validation errors \<Rightarrow> Some errors | _ \<Rightarrow> None),
      er_retry_after = (if status error = 503 then Some ''5'' else None)\<rparr>"

datatype 'a one_or_many = One 'a | Many "'a list"

fun into_vec :: "'a one_or_many \<Rightarrow> 'a list" where
  "into_vec (One x) = [x]"
| "into_vec (Many xs) = xs"

end
