(* ===== verification/Mailbox.thy ===== *)
theory Mailbox
  imports Table
begin

text \<open>
  \<open>crates/mailbox-store/src/mailbox.rs\<close>: every read and write the mail table serves, over
  any table \<open>T\<close>. A loop \<open>for attempt in 0..=MAX_TXN_RETRIES\<close> is a recursion over the list
  of its attempts. \<open>pp\<close> is the participant parser the thread roll-up uses.
\<close>

definition MAX_TXN_RETRIES :: nat where "MAX_TXN_RETRIES = 3"

abbreviation attempts :: "nat list" where
  "attempts \<equiv> [0..<Suc MAX_TXN_RETRIES]"

section \<open>Reads\<close>

definition get_inbox :: "'s table \<Rightarrow> inbox_id \<Rightarrow> ('s, inbox option) io" where
  "get_inbox T inbox = get_as T inbox_of_item (inbox_key inbox) Eventual"

definition ensure_inbox :: "'s table \<Rightarrow> inbox_id \<Rightarrow> string \<Rightarrow> ('s, inbox) io" where
  "ensure_inbox T inbox now =
     (let (record, i) = inbox_item inbox now in
      try_io (tbl_put_if_absent T i) (\<lambda>out. case out of
          Created \<Rightarrow> ok record
        | AlreadyExists \<Rightarrow>
            try_io (get_as T inbox_of_item (inbox_key inbox) Consistent) (\<lambda>found.
              case found of None \<Rightarrow> err ErrTransient | Some b \<Rightarrow> ok b)))"

text \<open>The message item is read as \<open>serde::de::IgnoredAny\<close>, which accepts any row.\<close>

definition message_exists :: "'s table \<Rightarrow> inbox_id \<Rightarrow> message_id \<Rightarrow> ('s, bool) io" where
  "message_exists T inbox message_id =
     try_io (get_as T (\<lambda>i. Some ()) (message_key inbox message_id) Eventual)
       (\<lambda>found. ok (found \<noteq> None))"

definition get_message :: "'s table \<Rightarrow> inbox_id \<Rightarrow> message_id \<Rightarrow> ('s, mail_message option) io" where
  "get_message T inbox message_id =
     get_as T message_of_item (message_key inbox message_id) Consistent"

definition get_send_key :: "'s table \<Rightarrow> string \<Rightarrow> ('s, send_key option) io" where
  "get_send_key T key_hash = get_as T send_key_of_item (send_key_key key_hash) Consistent"

definition resolve_ses_message ::
  "'s table \<Rightarrow> ses_message_id \<Rightarrow> ('s, (inbox_id \<times> message_id) option) io" where
  "resolve_ses_message T ses_message_id =
     try_io (get_as T ses_ref_of_item (ses_ref_key (ses_message_id_str ses_message_id)) Eventual)
       (\<lambda>row. ok (Option.bind row into_parts))"

definition list_by_status :: "'s table \<Rightarrow> send_status \<Rightarrow> nat \<Rightarrow> ('s, send_state list) io" where
  "list_by_status T status limit =
     try_io (query_as T send_state_of_item
         (unbounded ByStatus (send_status_partition status) limit None))
       (\<lambda>p. ok (page_items p))"

definition get_send_state :: "'s table \<Rightarrow> message_id \<Rightarrow> ('s, send_state option) io" where
  "get_send_state T message_id =
     get_as T send_state_of_item (send_state_key message_id) Consistent"

definition list_inboxes :: "'s table \<Rightarrow> nat \<Rightarrow> page_key option \<Rightarrow> ('s, inbox page) io" where
  "list_inboxes T limit start =
     query_as T inbox_of_item (unbounded ByTime INBOXES_PARTITION limit start)"

definition list_messages :: "'s table \<Rightarrow> list_query \<Rightarrow> ('s, mail_message page) io" where
  "list_messages T query =
     query_as T message_of_item (scoped ByTime (messages_partition (lq_inbox query)) query)"

definition list_threads :: "'s table \<Rightarrow> list_query \<Rightarrow> ('s, thread_state page) io" where
  "list_threads T query =
     query_as T thread_of_item (scoped ByTime (threads_partition (lq_inbox query)) query)"

record thread_view =
  view_thread :: thread_state
  view_messages :: "mail_message page"

definition assemble_thread_view ::
  "thread_state option \<Rightarrow> mail_message page outcome \<Rightarrow> thread_view option outcome" where
  "assemble_thread_view thread messages = (case thread of
       None \<Rightarrow> (case messages of Inl e \<Rightarrow> Inl e | Inr _ \<Rightarrow> Inr None)
     | Some t \<Rightarrow> (case messages of
           Inl e \<Rightarrow> Inl e
         | Inr page \<Rightarrow> Inr (Some \<lparr>view_thread = t, view_messages = page\<rparr>)))"

text \<open>
  \<open>tokio::join!\<close> drives both reads to their end, so the query runs whatever the read of the
  thread returns; the reads are independent and are run one after the other here.
\<close>

definition get_thread ::
  "'s table \<Rightarrow> inbox_id \<Rightarrow> thread_id \<Rightarrow> nat \<Rightarrow> page_key option \<Rightarrow> ('s, thread_view option) io" where
  "get_thread T inbox thread_id limit start s =
     (let (thread, s1) = get_as T thread_of_item (thread_key inbox thread_id) Eventual s;
          (messages, s2) = query_as T message_of_item
            (unbounded ByThread (thread_messages_partition inbox thread_id) limit start) s1
      in case thread of
           Inl e \<Rightarrow> (Inl e, s2)
         | Inr t \<Rightarrow> (assemble_thread_view t messages, s2))"

definition read_message :: "'s table \<Rightarrow> inbox_id \<Rightarrow> message_id \<Rightarrow> ('s, mail_message option) io" where
  "read_message T inbox message_id =
     get_as T message_of_item (message_key inbox message_id) Consistent"

definition read_thread :: "'s table \<Rightarrow> inbox_id \<Rightarrow> thread_id \<Rightarrow> ('s, thread_state option) io" where
  "read_thread T inbox thread_id = get_as T thread_of_item (thread_key inbox thread_id) Consistent"

definition read_send_state :: "'s table \<Rightarrow> message_id \<Rightarrow> ('s, send_state option) io" where
  "read_send_state T message_id =
     get_as T send_state_of_item (send_state_key message_id) Consistent"

text \<open>\<open>found.remove\<close> hands each row over once, so a repeated id keeps its first value.\<close>

definition by_id :: "inbox_id \<Rightarrow> (table_key \<rightharpoonup> rfc_hit) \<Rightarrow> string list \<Rightarrow> string \<rightharpoonup> rfc_hit" where
  "by_id inbox found ids =
     snd (fold (\<lambda>i (rest, m). case rest (rfc_alias_key inbox i) of
           None \<Rightarrow> (rest, m)
         | Some hit \<Rightarrow> (rest(rfc_alias_key inbox i := None), m(i \<mapsto> hit)))
       ids (found, Map.empty))"

definition read_aliases ::
  "'s table \<Rightarrow> inbox_id \<Rightarrow> string list \<Rightarrow> ('s, string \<rightharpoonup> rfc_hit) io" where
  "read_aliases T inbox ids =
     (if ids = [] then ok Map.empty
      else try_io (batch_get_as T rfc_hit_of_item (map (rfc_alias_key inbox) ids) Consistent)
        (\<lambda>found. ok (by_id inbox found ids)))"

section \<open>Ingest\<close>

definition thread_for ::
  "(string \<Rightarrow> 'm option) \<Rightarrow> mail_message \<Rightarrow> thread_state option \<Rightarrow> thread_state" where
  "thread_for pp msg before = (case before of
       None \<Rightarrow> new_thread pp msg | Some t \<Rightarrow> apply_message pp t msg)"

fun insert_loop ::
  "(string \<Rightarrow> 'm option) \<Rightarrow> 's table \<Rightarrow> thread_id \<Rightarrow> mail_message \<Rightarrow> string list \<Rightarrow> nat list
     \<Rightarrow> ('s, insert_outcome) io" where
  "insert_loop pp T new_thread_id msg0 candidates [] = err ErrConflict"
| "insert_loop pp T new_thread_id msg0 candidates (attempt # rest) =
     try_io (read_aliases T (msg_inbox_id msg0) candidates) (\<lambda>found.
       let aliases = \<lparr>al_candidates = candidates, al_found = found\<rparr>;
           msg = msg0\<lparr>msg_thread_id := (case alias_thread_id aliases of
             None \<Rightarrow> new_thread_id | Some t \<Rightarrow> t)\<rparr> in
       try_io (read_thread T (msg_inbox_id msg) (msg_thread_id msg)) (\<lambda>thread_before.
         let thread_after = thread_for pp msg thread_before;
             ops = plan_insert msg thread_before thread_after aliases in
         try_io (tbl_transact T ops) (\<lambda>out. case out of
             Committed \<Rightarrow> ok FreshInsert
           | Cancelled Duplicate \<Rightarrow> ok DuplicateInsert
           | Cancelled Retry \<Rightarrow>
               (\<lambda>s. insert_loop pp T new_thread_id msg candidates rest (tbl_pause T attempt s))
           | Cancelled VersionConflict \<Rightarrow>
               (\<lambda>s. insert_loop pp T new_thread_id msg candidates rest (tbl_pause T attempt s))
           | Cancelled (AliasTaken _) \<Rightarrow> insert_loop pp T new_thread_id msg candidates rest
           | Cancelled Permanent \<Rightarrow> err ErrPermanent
           | Cancelled KeyExists \<Rightarrow> err ErrPermanent)))"

definition insert_message ::
  "(string \<Rightarrow> 'm option) \<Rightarrow> 's table \<Rightarrow> mail_message \<Rightarrow> string list \<Rightarrow> ('s, insert_outcome) io" where
  "insert_message pp T msg candidates =
     insert_loop pp T (msg_thread_id msg) msg candidates attempts"

section \<open>Sending\<close>

fun enqueue_loop ::
  "(string \<Rightarrow> 'm option) \<Rightarrow> 's table \<Rightarrow> mail_message \<Rightarrow> send_state \<Rightarrow> send_key option \<Rightarrow> u64
     \<Rightarrow> string list \<Rightarrow> nat list \<Rightarrow> ('s, enqueue_outcome) io" where
  "enqueue_loop pp T msg state key now_epoch taken [] = err ErrConflict"
| "enqueue_loop pp T msg state key now_epoch taken (attempt # rest) =
     try_io (read_thread T (msg_inbox_id msg) (msg_thread_id msg)) (\<lambda>thread_before.
       let thread_after = thread_for pp msg thread_before in
       case plan_enqueue msg state key thread_before thread_after now_epoch of
         Inl e \<Rightarrow> err e
       | Inr planned \<Rightarrow>
           try_io (tbl_transact T (drop_taken_aliases planned taken)) (\<lambda>out. case out of
               Committed \<Rightarrow> ok EnqCommitted
             | Cancelled KeyExists \<Rightarrow> ok EnqKeyExists
             | Cancelled Duplicate \<Rightarrow> ok EnqAlreadyQueued
             | Cancelled Retry \<Rightarrow>
                 (\<lambda>s. enqueue_loop pp T msg state key now_epoch taken rest (tbl_pause T attempt s))
             | Cancelled VersionConflict \<Rightarrow>
                 (\<lambda>s. enqueue_loop pp T msg state key now_epoch taken rest (tbl_pause T attempt s))
             | Cancelled (AliasTaken ks) \<Rightarrow>
                 enqueue_loop pp T msg state key now_epoch (taken @ ks) rest
             | Cancelled Permanent \<Rightarrow> err ErrPermanent))"

definition enqueue_send ::
  "(string \<Rightarrow> 'm option) \<Rightarrow> 's table \<Rightarrow> mail_message \<Rightarrow> send_state \<Rightarrow> send_key option \<Rightarrow> u64
     \<Rightarrow> ('s, enqueue_outcome) io" where
  "enqueue_send pp T msg state key now_epoch =
     enqueue_loop pp T msg state key now_epoch [] attempts"

fun claim_loop :: "'s table \<Rightarrow> message_id \<Rightarrow> string \<Rightarrow> nat list \<Rightarrow> ('s, send_state option) io" where
  "claim_loop T message_id now [] = err ErrConflict"
| "claim_loop T message_id now (attempt # rest) =
     try_io (read_send_state T message_id) (\<lambda>found. case found of
         None \<Rightarrow> ok None
       | Some before \<Rightarrow>
           if snd_send_status before \<noteq> Queued then ok None
           else let after = claimed before now in
             try_io (tbl_transact T (plan_state_cas before after Queued)) (\<lambda>out. case out of
                 Committed \<Rightarrow> ok (Some after)
               | Cancelled d \<Rightarrow>
                   if d = Retry \<or> d = VersionConflict
                   then (\<lambda>s. claim_loop T message_id now rest (tbl_pause T attempt s))
                   else ok None))"

definition claim_send :: "'s table \<Rightarrow> message_id \<Rightarrow> string \<Rightarrow> ('s, send_state option) io" where
  "claim_send T message_id now = claim_loop T message_id now attempts"

fun note_loop ::
  "'s table \<Rightarrow> planned_op list \<Rightarrow> send_state \<Rightarrow> nat list \<Rightarrow> ('s, send_state option) io" where
  "note_loop T ops after [] = err ErrConflict"
| "note_loop T ops after (attempt # rest) =
     try_io (tbl_transact T ops) (\<lambda>out. case out of
         Committed \<Rightarrow> ok (Some after)
       | Cancelled d \<Rightarrow>
           if d = Retry then (\<lambda>s. note_loop T ops after rest (tbl_pause T attempt s))
           else ok None)"

definition note_ses_call :: "'s table \<Rightarrow> send_state \<Rightarrow> string \<Rightarrow> ('s, send_state option) io" where
  "note_ses_call T claim now =
     (let after = calling_ses claim now in
      note_loop T (plan_state_cas claim after Sending) after attempts)"

definition mark_thread ::
  "'s table \<Rightarrow> mail_message \<Rightarrow> string list \<Rightarrow> string
     \<Rightarrow> ('s, (thread_state \<times> thread_state) option) io" where
  "mark_thread T msg labels now =
     (let (added, removed) = label_changes (msg_labels msg) labels in
      if added = [] \<and> removed = [] then ok None
      else try_io (read_thread T (msg_inbox_id msg) (msg_thread_id msg)) (\<lambda>found. case found of
          None \<Rightarrow> err ErrPermanent
        | Some before \<Rightarrow> ok (Some (before, apply_label_patch before added removed now))))"

fun mark_loop ::
  "'s table \<Rightarrow> send_state \<Rightarrow> mark_outcome \<Rightarrow> string \<Rightarrow> string list \<Rightarrow> nat list \<Rightarrow> ('s, unit) io" where
  "mark_loop T state outcome now taken [] = err ErrConflict"
| "mark_loop T state outcome now taken (attempt # rest) =
     try_io (read_message T (snd_inbox_id state) (snd_message_id state)) (\<lambda>found. case found of
         None \<Rightarrow> err ErrPermanent
       | Some msg \<Rightarrow>
           let (after, labels, ses) = mark_transition state msg outcome now in
           try_io (mark_thread T msg labels now) (\<lambda>thread.
             let ops = drop_taken_aliases
                   (plan_mark state after msg labels thread ses now) taken in
             try_io (tbl_transact T ops) (\<lambda>out. case out of
                 Committed \<Rightarrow> ok ()
               | Cancelled Retry \<Rightarrow>
                   (\<lambda>s. mark_loop T state outcome now taken rest (tbl_pause T attempt s))
               | Cancelled VersionConflict \<Rightarrow>
                   try_io (read_send_state T (snd_message_id state)) (\<lambda>current.
                     case current of
                       None \<Rightarrow> err ErrConflict
                     | Some c \<Rightarrow>
                         if snd_version c \<noteq> snd_version state then err ErrConflict
                         else (\<lambda>s. mark_loop T state outcome now taken rest (tbl_pause T attempt s)))
               | Cancelled (AliasTaken ks) \<Rightarrow> mark_loop T state outcome now (taken @ ks) rest
               | Cancelled Duplicate \<Rightarrow> err ErrPermanent
               | Cancelled KeyExists \<Rightarrow> err ErrPermanent
               | Cancelled Permanent \<Rightarrow> err ErrPermanent)))"

definition mark_send :: "'s table \<Rightarrow> send_state \<Rightarrow> mark_outcome \<Rightarrow> string \<Rightarrow> ('s, unit) io" where
  "mark_send T state outcome now = mark_loop T state outcome now [] attempts"

section \<open>Labels\<close>

record label_patch =
  patch_result :: "string list"
  patch_added :: "string list"
  patch_removed :: "string list"

fun patch_add_step :: "string \<Rightarrow> string list \<times> string list \<Rightarrow> string list \<times> string list" where
  "patch_add_step label (labels, added) =
     (if label \<in> List.set labels then (labels, added) else (labels @ [label], added @ [label]))"

fun patch_remove_step :: "string \<Rightarrow> string list \<times> string list \<Rightarrow> string list \<times> string list" where
  "patch_remove_step label (labels, removed) =
     (if label \<in> List.set labels
      then (filter (\<lambda>existing. existing \<noteq> label) labels, removed @ [label])
      else (labels, removed))"

definition patch_labels :: "string list \<Rightarrow> string list \<Rightarrow> string list \<Rightarrow> label_patch" where
  "patch_labels current add remove =
     (let (labels, added) = fold patch_add_step add (current, []);
          (labels, removed) = fold patch_remove_step remove (labels, [])
      in \<lparr>patch_result = sort labels, patch_added = added, patch_removed = removed\<rparr>)"

fun update_labels_loop ::
  "'s table \<Rightarrow> inbox_id \<Rightarrow> message_id \<Rightarrow> string list \<Rightarrow> string list \<Rightarrow> string \<Rightarrow> nat list
     \<Rightarrow> ('s, string list option) io" where
  "update_labels_loop T inbox message_id add remove now [] = err ErrConflict"
| "update_labels_loop T inbox message_id add remove now (attempt # rest) =
     try_io (read_message T inbox message_id) (\<lambda>found. case found of
         None \<Rightarrow> ok None
       | Some msg \<Rightarrow>
           try_io (read_thread T inbox (msg_thread_id msg)) (\<lambda>thread. case thread of
               None \<Rightarrow> err ErrPermanent
             | Some thread_before \<Rightarrow>
                 let p = patch_labels (msg_labels msg) add remove in
                 if patch_added p = [] \<and> patch_removed p = [] then ok (Some (patch_result p))
                 else
                   let thread_after =
                     apply_label_patch thread_before (patch_added p) (patch_removed p) now in
                   case plan_patch msg (patch_result p) thread_before thread_after now of
                     Inl e \<Rightarrow> err e
                   | Inr ops \<Rightarrow> try_io (tbl_transact T ops) (\<lambda>out. case out of
                         Committed \<Rightarrow> ok (Some (patch_result p))
                       | Cancelled d \<Rightarrow>
                           if d = Retry \<or> d = VersionConflict
                           then (\<lambda>s. update_labels_loop T inbox message_id add remove now rest
                                       (tbl_pause T attempt s))
                           else err ErrPermanent)))"

definition update_labels ::
  "'s table \<Rightarrow> inbox_id \<Rightarrow> message_id \<Rightarrow> string list \<Rightarrow> string list \<Rightarrow> string
     \<Rightarrow> ('s, string list option) io" where
  "update_labels T inbox message_id add remove now =
     update_labels_loop T inbox message_id add remove now attempts"

section \<open>A label patch\<close>

lemma patch_add_fold:
  assumes "fold patch_add_step add (labels, added) = (labels', added')" and "distinct labels"
    and "distinct added" and "List.set added \<subseteq> List.set labels"
  shows "distinct labels' \<and> distinct added' \<and> List.set labels' = List.set labels \<union> List.set add \<and>
    List.set added' = List.set added \<union> (List.set add - List.set labels)"
  using assms
proof (induction add arbitrary: labels added)
  case (Cons a add)
  show ?case
  proof (cases "a \<in> List.set labels")
    case True
    with Cons.prems have "fold patch_add_step add (labels, added) = (labels', added')"
      by simp
    from Cons.IH [OF this Cons.prems(2-)] True show ?thesis by auto
  next
    case False
    with Cons.prems have
      "fold patch_add_step add (labels @ [a], added @ [a]) = (labels', added')"
      by simp
    from Cons.IH [OF this] have
      "distinct labels' \<and> distinct added' \<and> List.set labels' = List.set (labels @ [a]) \<union> List.set add \<and>
       List.set added' = List.set (added @ [a]) \<union> (List.set add - List.set (labels @ [a]))"
      using Cons.prems False by (auto simp del: patch_add_step.simps)
    with False show ?thesis by auto
  qed
qed simp

lemma patch_remove_fold:
  assumes "fold patch_remove_step remove (labels, removed) = (labels', removed')"
    and "distinct labels" and "distinct removed" and "List.set removed \<inter> List.set labels = {}"
  shows "distinct labels' \<and> distinct removed' \<and> List.set labels' = List.set labels - List.set remove \<and>
    List.set removed' = List.set removed \<union> (List.set remove \<inter> List.set labels)"
  using assms
proof (induction remove arbitrary: labels removed)
  case (Cons a remove)
  show ?case
  proof (cases "a \<in> List.set labels")
    case False
    with Cons.prems have "fold patch_remove_step remove (labels, removed) = (labels', removed')"
      by simp
    from Cons.IH [OF this Cons.prems(2-)] False show ?thesis by auto
  next
    case True
    with Cons.prems have "fold patch_remove_step remove
        (filter (\<lambda>existing. existing \<noteq> a) labels, removed @ [a]) = (labels', removed')"
      by simp
    from Cons.IH [OF this] Cons.prems True show ?thesis by auto
  qed
qed simp

lemma patch_labels_facts:
  assumes "strictly_sorted current"
  shows "List.set (patch_result (patch_labels current add remove)) =
      (List.set current \<union> List.set add) - List.set remove
    \<and> strictly_sorted (patch_result (patch_labels current add remove))
    \<and> List.set (patch_added (patch_labels current add remove)) = List.set add - List.set current
    \<and> List.set (patch_removed (patch_labels current add remove)) =
        List.set remove \<inter> (List.set current \<union> List.set add)
    \<and> distinct (patch_added (patch_labels current add remove))
    \<and> distinct (patch_removed (patch_labels current add remove))"
proof -
  obtain l1 added where 1: "fold patch_add_step add (current, []) = (l1, added)" by fastforce
  obtain l2 removed where 2: "fold patch_remove_step remove (l1, []) = (l2, removed)" by fastforce
  have p: "patch_labels current add remove =
      \<lparr>patch_result = sort l2, patch_added = added, patch_removed = removed\<rparr>"
    using 1 2 unfolding patch_labels_def by simp
  have cur: "distinct current" using assms by (rule strictly_sorted_distinct)
  note add = patch_add_fold [OF 1 cur]
  have "distinct l1" using add by simp
  note remove = patch_remove_fold [OF 2 this]
  from add remove show ?thesis by (auto simp: p intro: strictly_sorted_sort)
qed

text \<open>
  C33. A label patch applied to a message's sorted labels: the result is the old set with the
  additions and without the removals, strictly sorted; what it reports as added was not
  there, what it reports as removed was (or had just been added), each once. So the thread
  counts a change exactly when the message changes.
\<close>

theorem patch_labels_spec:
  assumes "strictly_sorted current"
  shows "List.set (patch_result (patch_labels current add remove)) =
      (List.set current \<union> List.set add) - List.set remove
    \<and> strictly_sorted (patch_result (patch_labels current add remove))
    \<and> List.set (patch_added (patch_labels current add remove)) = List.set add - List.set current
    \<and> List.set (patch_removed (patch_labels current add remove)) =
        List.set remove \<inter> (List.set current \<union> List.set add)
    \<and> distinct (patch_added (patch_labels current add remove))
    \<and> distinct (patch_removed (patch_labels current add remove))"
  using assms by (rule patch_labels_facts)

theorem patch_labels_spec_witness:
  "patch_result (patch_labels [''received'', ''unread''] [''b'', ''received''] [''unread'', ''x''])
     = [''b'', ''received'']
   \<and> strictly_sorted (patch_result
        (patch_labels [''received'', ''unread''] [''b'', ''received''] [''unread'', ''x'']))
   \<and> List.set (patch_removed
        (patch_labels [''received'', ''unread''] [''b'', ''received''] [''unread'', ''x''])) = {''unread''}"
proof -
  have "strictly_sorted [''received'', ''unread'']" by code_simp
  from patch_labels_spec [OF this, of "[''b'', ''received'']" "[''unread'', ''x'']"]
  have "strictly_sorted (patch_result
        (patch_labels [''received'', ''unread''] [''b'', ''received''] [''unread'', ''x'']))
      \<and> List.set (patch_removed
        (patch_labels [''received'', ''unread''] [''b'', ''received''] [''unread'', ''x''])) =
        {''unread''}" by auto
  moreover have "patch_result
      (patch_labels [''received'', ''unread''] [''b'', ''received''] [''unread'', ''x'']) =
      [''b'', ''received'']" by code_simp
  ultimately show ?thesis by simp
qed

end
