(* ===== verification/Rows.thy ===== *)
theory Rows
  imports Mailbox
begin

text \<open>
  What the planned transactions of \<open>crates/mailbox-store/src/plan.rs\<close> do to the rows of the
  mail table: the rows each one writes, the conditions it places on the rows it found, and
  what a row reads back as after it was updated in place.
\<close>

section \<open>Reading rows that were updated in place\<close>

lemma rd_u64_number: "req rd_u64 (i name) = Some v \<Longrightarrow> number_attr i name = Some v"
  by (auto simp: req_def number_attr_def bind_eq_Some_conv elim!: rd_u64.elims)

lemma message_of_item_number:
  "message_of_item i = Some m \<Longrightarrow> number_attr i ''version'' = Some (msg_version m)"
  by (auto simp: message_of_item_def bind_eq_Some_conv intro: rd_u64_number)

lemma thread_of_item_number:
  "thread_of_item i = Some t \<Longrightarrow> number_attr i ''version'' = Some (thr_version t)"
  by (auto simp: thread_of_item_def bind_eq_Some_conv intro: rd_u64_number)

lemma send_state_of_item_number:
  "send_state_of_item i = Some t \<Longrightarrow> number_attr i ''version'' = Some (snd_version t)"
  by (auto simp: send_state_of_item_def bind_eq_Some_conv intro: rd_u64_number)

lemma message_of_item_upd:
  assumes "message_of_item i = Some m"
  shows "message_of_item (i(''version'' \<mapsto> u64_av v)) = Some (m\<lparr>msg_version := v\<rparr>)"
    and "message_of_item (i(''updated_at'' \<mapsto> AvS now)) = Some (m\<lparr>msg_updated_at := now\<rparr>)"
    and "message_of_item (i(''labels'' \<mapsto> AvSs ls)) = Some (m\<lparr>msg_labels := ls\<rparr>)"
    and "message_of_item (i(''labels'' := None)) = Some (m\<lparr>msg_labels := []\<rparr>)"
    and "message_of_item (i(''send_status'' \<mapsto> AvS (send_status_str st))) =
      Some (m\<lparr>msg_send_status := Some st\<rparr>)"
    and "message_of_item (i(''ses_message_id'' \<mapsto> AvS sid)) =
      Some (m\<lparr>msg_ses_message_id := Some (SesMessageId sid)\<rparr>)"
    and "message_of_item (i(''sent_at'' \<mapsto> AvS now)) = Some (m\<lparr>msg_sent_at := Some now\<rparr>)"
  using assms by (auto simp: message_of_item_def bind_eq_Some_conv rd_ses_message_id_def)

definition message_at :: "rows \<Rightarrow> inbox_id \<Rightarrow> message_id \<Rightarrow> mail_message option" where
  "message_at R i m = Option.bind (R (message_key i m)) message_of_item"

definition thread_at :: "rows \<Rightarrow> inbox_id \<Rightarrow> thread_id \<Rightarrow> thread_state option" where
  "thread_at R i t = Option.bind (R (thread_key i t)) thread_of_item"

definition send_at :: "rows \<Rightarrow> message_id \<Rightarrow> send_state option" where
  "send_at R m = Option.bind (R (send_state_key m)) send_state_of_item"

definition alias_at :: "rows \<Rightarrow> inbox_id \<Rightarrow> string \<Rightarrow> rfc_hit option" where
  "alias_at R i r = Option.bind (R (rfc_alias_key i r)) rfc_hit_of_item"

section \<open>What the planned transactions write\<close>

lemma txn_apply_simps [simp]:
  "txn_apply [] R = R"
  "txn_apply (op # ops) R = txn_apply ops (apply_write op R)"
  "txn_apply (ops @ ops') R = txn_apply ops' (txn_apply ops R)"
  by (simp_all add: txn_apply_def)

lemma txn_ok_simps [simp]:
  "txn_ok R []"
  "txn_ok R (op # ops) \<longleftrightarrow> op_holds R op \<and> txn_ok R ops"
  "txn_ok R (ops @ ops') \<longleftrightarrow> txn_ok R ops \<and> txn_ok R ops'"
  by (simp_all add: txn_ok_def)

lemma target_put:
  "i ''pk'' = Some (AvS (tk_pk k)) \<Longrightarrow> i ''sk'' = Some (AvS (tk_sk k)) \<Longrightarrow> target (Put i c) = Some k"
  by (simp add: string_attr_def)

lemma put_targets [simp]:
  "target (op_op (put_message m c)) = Some (message_key (msg_inbox_id m) (msg_message_id m))"
  "target (op_op (put_thread t c)) = Some (thread_key (thr_inbox_id t) (thr_thread_id t))"
  "target (op_op (put_send_state st c)) = Some (send_state_key (snd_message_id st))"
  "target (op_op (put_send_key k c)) = Some (send_key_key (key_key_hash k))"
  "target (Put (ses_ref_item r ib mi ex) c) = Some (ses_ref_key r)"
  by (auto simp: put_message_def put_thread_def put_send_state_def put_send_key_def
      simp del: target.simps intro!: target_put)

lemma put_effects [simp]:
  "apply_write (put_message m c) R =
     R(message_key (msg_inbox_id m) (msg_message_id m) \<mapsto> message_item m)"
  "apply_write (put_thread t c) R = R(thread_key (thr_inbox_id t) (thr_thread_id t) \<mapsto> thread_item t)"
  "apply_write (put_send_state st c) R = R(send_state_key (snd_message_id st) \<mapsto> send_state_item st)"
  "apply_write (put_send_key k c) R = R(send_key_key (key_key_hash k) \<mapsto> send_key_item k)"
  "apply_write (PlannedOp role (Put (ses_ref_item r ib mi ex) c)) R =
     R(ses_ref_key r \<mapsto> ses_ref_item r ib mi ex)"
  by (simp_all add: apply_write_def del: target.simps)
    (simp_all add: put_message_def put_thread_def put_send_state_def put_send_key_def)

lemma put_holds [simp]:
  "op_holds R (put_message m c) = cond_ok (R (message_key (msg_inbox_id m) (msg_message_id m))) c"
  "op_holds R (put_thread t c) = cond_ok (R (thread_key (thr_inbox_id t) (thr_thread_id t))) c"
  "op_holds R (put_send_state st c) = cond_ok (R (send_state_key (snd_message_id st))) c"
  "op_holds R (put_send_key k c) = cond_ok (R (send_key_key (key_key_hash k))) c"
  by (simp_all add: op_holds_def del: target.simps)
    (simp_all add: put_message_def put_thread_def put_send_state_def put_send_key_def)

lemma update_labels_target [simp]:
  "target (op_op (update_message_labels msg ls now extra)) =
     Some (message_key (msg_inbox_id msg) (msg_message_id msg))"
  by (simp add: update_message_labels_def Let_def)

lemma update_labels_holds [simp]:
  "op_holds R (update_message_labels msg ls now extra) \<longleftrightarrow>
     Option.bind (R (message_key (msg_inbox_id msg) (msg_message_id msg)))
       (\<lambda>i. number_attr i ''version'') = Some (msg_version msg)"
  by (simp add: op_holds_def) (simp add: update_message_labels_def Let_def)

text \<open>The message a label update leaves behind.\<close>

definition relabelled :: "mail_message \<Rightarrow> string list \<Rightarrow> string \<Rightarrow> mail_message" where
  "relabelled msg ls now = msg\<lparr>msg_labels := ls, msg_version := msg_version msg + 1,
     msg_updated_at := now\<rparr>"

lemma update_labels_write:
  "R (message_key (msg_inbox_id msg) (msg_message_id msg)) = Some i \<Longrightarrow>
     apply_write (update_message_labels msg ls now extra) R =
       R(message_key (msg_inbox_id msg) (msg_message_id msg) \<mapsto>
           written (Some i) (op_op (update_message_labels msg ls now extra)))"
  by (simp add: apply_write_def)

lemma update_labels_written:
  "message_of_item i = Some msg \<Longrightarrow>
     message_of_item (written (Some i) (op_op (update_message_labels msg ls now []))) =
       Some (relabelled msg ls now)"
  by (auto simp: update_message_labels_def set_attrs_def relabelled_def message_of_item_upd Let_def)

lemma mark_update_written:
  "message_of_item i = Some msg \<Longrightarrow>
     message_of_item (written (Some i) (op_op (update_message_labels msg ls now
       ((''send_status'', AvS (send_status_str st)) # (case ses of None \<Rightarrow> []
         | Some x \<Rightarrow> [(''ses_message_id'', AvS (ses_sent_message_id x)), (''sent_at'', AvS now)])))))
     = Some ((case ses of None \<Rightarrow> relabelled msg ls now
        | Some x \<Rightarrow> (relabelled msg ls now)\<lparr>
            msg_ses_message_id := Some (SesMessageId (ses_sent_message_id x)),
            msg_sent_at := Some now\<rparr>)\<lparr>msg_send_status := Some st\<rparr>)"
  by (auto simp: update_message_labels_def set_attrs_def relabelled_def message_of_item_upd Let_def
      split: option.split)

section \<open>Alias writes\<close>

definition alias_op_for :: "mail_message \<Rightarrow> planned_op \<Rightarrow> bool" where
  "alias_op_for msg op \<longleftrightarrow> op_role op = RoleRfcAlias \<and> (case op_op op of
       AliasFirstWriter pk sk mid tid expires \<Rightarrow>
         (\<exists>r. TableKey pk sk = rfc_alias_key (msg_inbox_id msg) r) \<and>
         (mid = None \<or> mid = Some (message_id_str (msg_message_id msg))) \<and>
         tid = thread_id_str (msg_thread_id msg) \<and> expires = msg_expires_at msg
     | _ \<Rightarrow> False)"

lemma table_key_eta [simp]: "TableKey (tk_pk k) (tk_sk k) = k"
  by (cases k) simp

lemma put_alias_for [simp]:
  "list_all (alias_op_for msg) (put_alias msg r None)"
  "list_all (alias_op_for msg) (put_alias msg r (Some (msg_message_id msg)))"
  by (auto simp: put_alias_def alias_op_for_def Let_def)

lemma list_all_concat [simp]: "list_all P (concat xss) \<longleftrightarrow> list_all (list_all P) xss"
  by (induction xss) auto

lemma list_all_mapI: "(\<And>x. P (f x)) \<Longrightarrow> list_all P (map f xs)"
  by (induction xs) auto

lemma list_all_filterI: "list_all P xs \<Longrightarrow> list_all P (filter Q xs)"
  by (auto simp: list_all_iff)

lemma drop_taken_simps [simp]:
  "drop_taken_aliases [] taken = []"
  "drop_taken_aliases (xs @ ys) taken = drop_taken_aliases xs taken @ drop_taken_aliases ys taken"
  "drop_taken_aliases (PlannedOp role (Put i c) # xs) taken =
     PlannedOp role (Put i c) # drop_taken_aliases xs taken"
  "drop_taken_aliases (put_message m c # xs) taken = put_message m c # drop_taken_aliases xs taken"
  "drop_taken_aliases (put_thread t c # xs) taken = put_thread t c # drop_taken_aliases xs taken"
  "drop_taken_aliases (put_send_state st c # xs) taken =
     put_send_state st c # drop_taken_aliases xs taken"
  "drop_taken_aliases (put_send_key k c # xs) taken = put_send_key k c # drop_taken_aliases xs taken"
  "drop_taken_aliases (update_message_labels m ls now extra # xs) taken =
     update_message_labels m ls now extra # drop_taken_aliases xs taken"
  by (simp_all add: drop_taken_aliases_def put_message_def put_thread_def put_send_state_def
      put_send_key_def update_message_labels_def Let_def)

lemma drop_taken_for [simp]:
  "list_all (alias_op_for msg) as \<Longrightarrow> list_all (alias_op_for msg) (drop_taken_aliases as taken)"
  by (simp add: drop_taken_aliases_def list_all_filterI)

lemma alias_frame:
  "list_all (alias_op_for msg) as \<Longrightarrow> (\<And>r. k \<noteq> rfc_alias_key (msg_inbox_id msg) r) \<Longrightarrow>
     txn_apply as R k = R k"
proof (induction as arbitrary: R)
  case (Cons op as)
  have "apply_write op R k = R k"
    using Cons.prems
    by (cases "op_op op") (auto simp: alias_op_for_def apply_write_def)
  with Cons show ?case by simp
qed simp

lemma alias_rows:
  "list_all (alias_op_for msg) as \<Longrightarrow>
     txn_apply as R k = R k \<or>
     (\<exists>mid. (mid = None \<or> mid = Some (message_id_str (msg_message_id msg))) \<and>
        txn_apply as R k =
          Some (alias_item mid (thread_id_str (msg_thread_id msg)) (msg_expires_at msg)))"
proof (induction as arbitrary: R)
  case (Cons op as)
  have step: "apply_write op R k = R k \<or>
     (\<exists>mid. (mid = None \<or> mid = Some (message_id_str (msg_message_id msg))) \<and>
        apply_write op R k =
          Some (alias_item mid (thread_id_str (msg_thread_id msg)) (msg_expires_at msg)))"
    using Cons.prems by (cases "op_op op") (auto simp: alias_op_for_def apply_write_def)
  have "list_all (alias_op_for msg) as" using Cons.prems by simp
  from Cons.IH [OF this, of "apply_write op R"] step show ?case by auto
qed simp

lemma alias_item_hit [simp]:
  "rfc_hit_of_item (alias_item (map_option message_id_str mid) (thread_id_str tid) e) =
     Some \<lparr>hit_message_id = mid, hit_thread_id = tid\<rparr>"
  by (cases mid) (simp_all add: rfc_hit_of_item_def alias_item_def opt_field_def)

section \<open>The shape of each transaction\<close>

lemma insert_shape:
  obtains as where "plan_insert msg before after al =
      put_message (stored_message msg after) CondNotExists #
      put_thread after (versioned (map_option thr_version before)) # as"
    and "list_all (alias_op_for msg) as"
proof -
  show ?thesis
    by (rule that [OF _ list_all_append [THEN iffD2, OF conjI]])
      (auto simp: plan_insert_def Let_def intro!: list_all_mapI)
qed

lemma enqueue_shape:
  assumes "plan_enqueue msg state key before after now_epoch = Inr ops"
  obtains ks as where "drop_taken_aliases ops taken =
      ks @ [put_message (stored_message msg after) CondNotExists, put_send_state state CondNotExists,
        put_thread after (versioned (map_option thr_version before))] @ as"
    and "ks = (case key of None \<Rightarrow> []
           | Some k \<Rightarrow> [put_send_key k (CondNotExistsOrExpired now_epoch)])"
    and "list_all (alias_op_for msg) as"
  using assms
  by (auto simp: plan_enqueue_def check_user_labels_def split: if_splits option.splits)

lemma mark_shape:
  obtains as refs where "drop_taken_aliases (plan_mark before after msg ls thread ses now) taken =
      [put_send_state after (CondVersionEquals (snd_version before)),
       update_message_labels msg ls now
         ((''send_status'', AvS (send_status_str (snd_send_status after))) #
          (case ses of None \<Rightarrow> []
           | Some x \<Rightarrow> [(''ses_message_id'', AvS (ses_sent_message_id x)), (''sent_at'', AvS now)]))]
      @ (case thread of None \<Rightarrow> []
         | Some (tb, ta) \<Rightarrow> [put_thread ta (CondVersionEquals (thr_version tb))])
      @ as @ refs"
    and "list_all (alias_op_for msg) as"
    and "refs = (case ses of None \<Rightarrow> [] | Some x \<Rightarrow>
        [PlannedOp RoleSesRef (Put (ses_ref_item (ses_sent_message_id x) (msg_inbox_id msg)
          (msg_message_id msg) (msg_expires_at msg)) CondNone)])"
proof (cases ses)
  case None
  show ?thesis
    by (rule that [of "[]"]) (auto simp: None plan_mark_def versioned_def split: option.split)
next
  case (Some x)
  let ?as = "concat (map (\<lambda>rfc_id. put_alias msg rfc_id (Some (msg_message_id msg)))
    (ses_rfc_ids (ses_sent_message_id x) (ses_sent_region x)))"
  have "list_all (alias_op_for msg) ?as" by (auto intro!: list_all_mapI)
  then show ?thesis
    by (intro that [of "drop_taken_aliases ?as taken"])
      (auto simp: Some plan_mark_def versioned_def split: option.split)
qed

end
