(* ===== verification/Steps.thy ===== *)
theory Steps
  imports Rows
begin

text \<open>
  The mail table as a state machine: a step is one committed write of a flow of
  \<open>crates/mailbox-store/src/mailbox.rs\<close>, with the reads it was computed from taken at the
  moment of the commit, where its version conditions hold. The invariants of the table are
  proved by rule induction; \<open>Flows\<close> proves that every flow is made of these steps.
\<close>

section \<open>Steps\<close>

definition plain_inbox :: "inbox_id \<Rightarrow> bool" where
  "plain_inbox i \<longleftrightarrow> CHR ''#'' \<notin> set (inbox_str i)"

definition message_ok :: "mail_message \<Rightarrow> bool" where
  "message_ok msg \<longleftrightarrow> strictly_sorted (msg_labels msg) \<and> plain_inbox (msg_inbox_id msg)"

text \<open>The thread a transaction is planned against is the row, and a missing one is missing.\<close>

definition thread_read :: "rows \<Rightarrow> inbox_id \<Rightarrow> thread_id \<Rightarrow> thread_state option \<Rightarrow> bool" where
  "thread_read R i t before \<longleftrightarrow> (case before of
       None \<Rightarrow> R (thread_key i t) = None
     | Some th \<Rightarrow> thread_at R i t = Some th)"

inductive mail_step :: "(string \<Rightarrow> 'm option) \<Rightarrow> rows \<Rightarrow> rows \<Rightarrow> bool" for pp where
  step_insert: "mail_step pp R (txn_apply ops R)"
    if "message_ok msg"
      and "thread_read R (msg_inbox_id msg) (msg_thread_id msg) before"
      and "ops = plan_insert msg before (thread_for pp msg before) aliases"
      and "txn_ok R ops"
| step_enqueue: "mail_step pp R (txn_apply ops R)"
    if "message_ok msg"
      and "snd_message_id state = msg_message_id msg" and "snd_inbox_id state = msg_inbox_id msg"
      and "snd_send_status state = Queued"
      and "thread_read R (msg_inbox_id msg) (msg_thread_id msg) before"
      and "plan_enqueue msg state key before (thread_for pp msg before) now_epoch = Inr planned"
      and "ops = drop_taken_aliases planned taken"
      and "txn_ok R ops"
| step_claim: "mail_step pp R (txn_apply ops R)"
    if "send_at R (snd_message_id before) = Some before"
      and "ops = plan_state_cas before (claimed before now) Queued"
      and "txn_ok R ops"
| step_note: "mail_step pp R (txn_apply ops R)"
    if "send_at R (snd_message_id claim) = Some claim"
      and "ops = plan_state_cas claim (calling_ses claim now) Sending"
      and "txn_ok R ops"
| step_mark: "mail_step pp R (txn_apply ops R)"
    if "send_at R (snd_message_id state) = Some state"
      and "message_at R (snd_inbox_id state) (snd_message_id state) = Some msg"
      and "mark_transition state msg outcome now = (after, labels, ses)"
      and "label_changes (msg_labels msg) labels = (added, removed)"
      and "if added = [] \<and> removed = [] then thread = None
           else \<exists>before. thread_at R (msg_inbox_id msg) (msg_thread_id msg) = Some before \<and>
             thread = Some (before, apply_label_patch before added removed now)"
      and "ops = drop_taken_aliases (plan_mark state after msg labels thread ses now) taken"
      and "txn_ok R ops"
| step_patch: "mail_step pp R (txn_apply ops R)"
    if "message_at R inbox message_id = Some msg"
      and "thread_at R inbox (msg_thread_id msg) = Some before"
      and "p = patch_labels (msg_labels msg) add remove"
      and "plan_patch msg (patch_result p) before
             (apply_label_patch before (patch_added p) (patch_removed p) now) now = Inr ops"
      and "txn_ok R ops"
| step_inbox: "mail_step pp R (R(inbox_key inbox \<mapsto> snd (inbox_item inbox now)))"
    if "R (inbox_key inbox) = None"

section \<open>Every row reads back as what it is\<close>

definition messages_wf :: "rows \<Rightarrow> bool" where
  "messages_wf R \<longleftrightarrow> (\<forall>i m it. R (message_key i m) = Some it \<longrightarrow>
     (\<exists>msg. message_of_item it = Some msg \<and> msg_inbox_id msg = i \<and> msg_message_id msg = m \<and>
        message_ok msg \<and> thread_key i (msg_thread_id msg) \<in> dom R))"

definition threads_wf :: "(string \<Rightarrow> 'm option) \<Rightarrow> rows \<Rightarrow> bool" where
  "threads_wf pp R \<longleftrightarrow> (\<forall>i t it. R (thread_key i t) = Some it \<longrightarrow>
     (\<exists>th. thread_of_item it = Some th \<and> thr_inbox_id th = i \<and> thr_thread_id th = t \<and>
        thread_bounded pp th))"

definition sends_wf :: "rows \<Rightarrow> bool" where
  "sends_wf R \<longleftrightarrow> (\<forall>m it. R (send_state_key m) = Some it \<longrightarrow>
     (\<exists>st. it = send_state_item st \<and> snd_message_id st = m \<and>
        message_key (snd_inbox_id st) m \<in> dom R))"

text \<open>A placeholder lacks the id of a message; a \<open>NULL\<close> there would read the same and be no placeholder.\<close>

definition alias_reads :: "item \<Rightarrow> rfc_hit \<Rightarrow> bool" where
  "alias_reads it hit \<longleftrightarrow> rfc_hit_of_item it = Some hit \<and> it ''message_id'' \<noteq> Some AvNull"

lemma alias_item_reads [simp]:
  "alias_reads (alias_item (map_option message_id_str mid) (thread_id_str tid) e) hit \<longleftrightarrow>
     hit = \<lparr>hit_message_id = mid, hit_thread_id = tid\<rparr>"
  by (cases mid) (auto simp: alias_reads_def alias_item_def opt_field_def rfc_hit_of_item_def)

definition aliases_wf :: "rows \<Rightarrow> bool" where
  "aliases_wf R \<longleftrightarrow> (\<forall>i r it. plain_inbox i \<longrightarrow> R (rfc_alias_key i r) = Some it \<longrightarrow>
     (\<exists>hit. alias_reads it hit \<and> thread_key i (hit_thread_id hit) \<in> dom R \<and>
        (\<forall>m. hit_message_id hit = Some m \<longrightarrow>
           (\<exists>msg. message_at R i m = Some msg \<and> msg_thread_id msg = hit_thread_id hit))))"

definition table_wf :: "(string \<Rightarrow> 'm option) \<Rightarrow> rows \<Rightarrow> bool" where
  "table_wf pp R \<longleftrightarrow> messages_wf R \<and> threads_wf pp R \<and> sends_wf R \<and> aliases_wf R"

lemma table_wf_empty: "table_wf pp Map.empty"
  by (simp add: table_wf_def messages_wf_def threads_wf_def sends_wf_def aliases_wf_def)

lemma aliases_wfD:
  "aliases_wf R \<Longrightarrow> plain_inbox i \<Longrightarrow> R (rfc_alias_key i r) = Some it \<Longrightarrow>
     \<exists>hit. alias_reads it hit \<and> thread_key i (hit_thread_id hit) \<in> dom R \<and>
       (\<forall>m. hit_message_id hit = Some m \<longrightarrow>
          (\<exists>msg. message_at R i m = Some msg \<and> msg_thread_id msg = hit_thread_id hit))"
  unfolding aliases_wf_def by blast

text \<open>How each part moves with one written row.\<close>

lemma messages_wf_message:
  assumes "messages_wf R" and "message_of_item it = Some msg" and "message_ok msg"
    and "thread_key (msg_inbox_id msg) (msg_thread_id msg) \<in> dom R"
  shows "messages_wf (R(message_key (msg_inbox_id msg) (msg_message_id msg) \<mapsto> it))"
  using assms by (auto simp: messages_wf_def)

lemma threads_wf_thread:
  assumes "threads_wf pp R" and "thread_bounded pp th"
  shows "threads_wf pp (R(thread_key (thr_inbox_id th) (thr_thread_id th) \<mapsto> thread_item th))"
  using assms by (auto simp: threads_wf_def)

lemma sends_wf_send:
  assumes "sends_wf R" and "message_key (snd_inbox_id st) (snd_message_id st) \<in> dom R"
  shows "sends_wf (R(send_state_key (snd_message_id st) \<mapsto> send_state_item st))"
  using assms by (auto simp: sends_wf_def)

lemma wf_other:
  "messages_wf R \<Longrightarrow> (\<And>i m. k \<noteq> message_key i m) \<Longrightarrow> messages_wf (R(k \<mapsto> it))"
  "threads_wf pp R \<Longrightarrow> (\<And>i t. k \<noteq> thread_key i t) \<Longrightarrow> threads_wf pp (R(k \<mapsto> it))"
  "sends_wf R \<Longrightarrow> (\<And>m. k \<noteq> send_state_key m) \<Longrightarrow> sends_wf (R(k \<mapsto> it))"
  subgoal unfolding messages_wf_def by (simp add: not_sym) blast
  subgoal unfolding threads_wf_def by (simp add: not_sym)
  subgoal unfolding sends_wf_def by (simp add: not_sym) blast
  done

lemma message_at_upd:
  "message_at (R(k \<mapsto> it)) i m = (if k = message_key i m then message_of_item it else message_at R i m)"
  by (auto simp: message_at_def)

lemma aliases_wf_other:
  assumes "aliases_wf R" and "\<And>i m. k \<noteq> message_key i m" and "\<And>i r. k \<noteq> rfc_alias_key i r"
  shows "aliases_wf (R(k \<mapsto> it))"
  using assms unfolding aliases_wf_def message_at_upd by (simp add: not_sym) blast

text \<open>A message row that keeps its thread keeps the aliases that name it.\<close>

lemma aliases_wf_message:
  assumes wf: "aliases_wf R" and it: "message_of_item it = Some msg"
    and keep: "\<And>old. message_at R i m = Some old \<Longrightarrow> msg_thread_id msg = msg_thread_id old"
  shows "aliases_wf (R(message_key i m \<mapsto> it))"
proof -
  have "\<exists>msg'. message_at (R(message_key i m \<mapsto> it)) j n = Some msg' \<and> msg_thread_id msg' = t"
    if "\<exists>msg'. message_at R j n = Some msg' \<and> msg_thread_id msg' = t" for j n t
    using that it keep by (auto simp: message_at_upd)
  note named = this
  show ?thesis
    unfolding aliases_wf_def
  proof (intro allI impI)
    fix j r row
    assume "plain_inbox j" and "(R(message_key i m \<mapsto> it)) (rfc_alias_key j r) = Some row"
    then obtain hit where hit: "alias_reads row hit"
      "thread_key j (hit_thread_id hit) \<in> dom R"
      "\<forall>n. hit_message_id hit = Some n \<longrightarrow>
        (\<exists>msg. message_at R j n = Some msg \<and> msg_thread_id msg = hit_thread_id hit)"
      using aliases_wfD [OF wf, of j r row] by (auto simp: not_sym)
    then show "\<exists>hit. alias_reads row hit \<and>
      thread_key j (hit_thread_id hit) \<in> dom (R(message_key i m \<mapsto> it)) \<and>
      (\<forall>n. hit_message_id hit = Some n \<longrightarrow> (\<exists>msg.
        message_at (R(message_key i m \<mapsto> it)) j n = Some msg \<and> msg_thread_id msg = hit_thread_id hit))"
      using named by (intro exI [of _ hit]) simp
  qed
qed

lemma wf_aliases:
  assumes "list_all (alias_op_for msg) as"
  shows "messages_wf R \<Longrightarrow> messages_wf (txn_apply as R)"
    and "threads_wf pp R \<Longrightarrow> threads_wf pp (txn_apply as R)"
    and "sends_wf R \<Longrightarrow> sends_wf (txn_apply as R)"
  using alias_frame [OF assms, of _ R]
  by (simp_all add: messages_wf_def threads_wf_def sends_wf_def domIff)

lemma aliases_wf_aliases:
  assumes as: "list_all (alias_op_for msg) as" and "aliases_wf R"
    and "plain_inbox (msg_inbox_id msg)"
    and msg: "message_at R (msg_inbox_id msg) (msg_message_id msg) = Some msg'"
      "msg_thread_id msg' = msg_thread_id msg"
    and thread: "thread_key (msg_inbox_id msg) (msg_thread_id msg) \<in> dom R"
  shows "aliases_wf (txn_apply as R)"
  unfolding aliases_wf_def
proof (intro allI impI)
  fix i r it
  let ?R = "txn_apply as R"
  assume plain: "plain_inbox i" and row: "?R (rfc_alias_key i r) = Some it"
  have keep: "thread_key j t \<in> dom ?R \<longleftrightarrow> thread_key j t \<in> dom R"
    "message_at ?R j m = message_at R j m" for j t m
    using alias_frame [OF as, of _ R] by (simp_all add: message_at_def domIff)
  consider (old) "R (rfc_alias_key i r) = Some it"
    | (new) mid where "it = alias_item (map_option message_id_str mid)
        (thread_id_str (msg_thread_id msg)) (msg_expires_at msg)"
      "mid = None \<or> mid = Some (msg_message_id msg)" "i = msg_inbox_id msg"
  proof (cases "i = msg_inbox_id msg")
    case True
    with alias_rows [OF as, of R "rfc_alias_key i r"] row old new show ?thesis
      by (metis (no_types, lifting) option.inject option.map(1) option.map(2))
  next
    case False
    then have "?R (rfc_alias_key i r) = R (rfc_alias_key i r)"
      using plain assms(3)
      by (intro alias_frame [OF as]) (auto simp: rfc_alias_key_inject plain_inbox_def)
    with row old show ?thesis by simp
  qed
  then show "\<exists>hit. alias_reads it hit \<and> thread_key i (hit_thread_id hit) \<in> dom ?R \<and>
      (\<forall>m. hit_message_id hit = Some m \<longrightarrow>
        (\<exists>msg. message_at ?R i m = Some msg \<and> msg_thread_id msg = hit_thread_id hit))"
  proof cases
    case old
    with assms(2) plain show ?thesis unfolding aliases_wf_def keep by blast
  next
    case new
    with msg thread show ?thesis unfolding keep by auto
  qed
qed

section \<open>The invariant is kept\<close>

lemma stored_message_simps [simp]:
  "msg_inbox_id (stored_message msg after) = msg_inbox_id msg"
  "msg_message_id (stored_message msg after) = msg_message_id msg"
  "msg_thread_id (stored_message msg after) = msg_thread_id msg"
  "msg_labels (stored_message msg after) = msg_labels msg"
  by (simp_all add: stored_message_def split: direction.split)

lemma message_ok_stored [simp]: "message_ok (stored_message msg after) = message_ok msg"
  by (simp add: message_ok_def)

lemma threads_wf_read:
  "threads_wf pp R \<Longrightarrow> thread_at R i t = Some th \<Longrightarrow>
     thr_inbox_id th = i \<and> thr_thread_id th = t \<and> thread_bounded pp th"
  unfolding threads_wf_def thread_at_def bind_eq_Some_conv by (metis option.inject)

lemma messages_wf_read:
  "messages_wf R \<Longrightarrow> message_at R i m = Some msg \<Longrightarrow>
     msg_inbox_id msg = i \<and> msg_message_id msg = m \<and> message_ok msg \<and>
     thread_key i (msg_thread_id msg) \<in> dom R"
  unfolding messages_wf_def message_at_def bind_eq_Some_conv by (metis option.inject)

lemma apply_message_ids [simp]:
  "thr_inbox_id (apply_message pp th msg) = thr_inbox_id th"
  "thr_thread_id (apply_message pp th msg) = thr_thread_id th"
  by (simp_all add: apply_message_def Let_def split: direction.split)

lemma apply_label_patch_ids [simp]:
  "thr_inbox_id (apply_label_patch th added removed now) = thr_inbox_id th"
  "thr_thread_id (apply_label_patch th added removed now) = thr_thread_id th"
  by (simp_all add: apply_label_patch_def Let_def patch_frame)

lemma thread_for_ok:
  assumes "threads_wf pp R" and "thread_read R (msg_inbox_id msg) (msg_thread_id msg) before"
  shows "thr_inbox_id (thread_for pp msg before) = msg_inbox_id msg"
    and "thr_thread_id (thread_for pp msg before) = msg_thread_id msg"
    and "thread_bounded pp (thread_for pp msg before)"
  using assms threads_wf_read [OF assms(1)] thread_bounded_new [of pp msg]
    thread_bounded_step [of pp _ "Arrive msg"]
  by (auto simp: thread_read_def thread_for_def new_thread_def split: option.splits)

lemma apply_label_patch_bounded:
  "thread_bounded pp th \<Longrightarrow> thread_bounded pp (apply_label_patch th added removed now)"
  using thread_bounded_step [of pp th "Relabel 0 added removed now"] by simp

text \<open>A new message beside its thread, as \<open>insert\<close> and \<open>enqueue\<close> write them.\<close>

lemma table_wf_arrival:
  assumes wf: "table_wf pp R" and new: "R (message_key (msg_inbox_id msg) (msg_message_id msg)) = None"
    and msg: "message_ok msg" and th: "thread_bounded pp th"
    and ids: "thr_inbox_id th = msg_inbox_id msg" "thr_thread_id th = msg_thread_id msg"
  shows "table_wf pp (R(message_key (msg_inbox_id msg) (msg_message_id msg) \<mapsto> message_item msg,
    thread_key (msg_inbox_id msg) (msg_thread_id msg) \<mapsto> thread_item th))"
proof -
  let ?mk = "message_key (msg_inbox_id msg) (msg_message_id msg)"
  let ?tk = "thread_key (msg_inbox_id msg) (msg_thread_id msg)"
  have "R(?mk \<mapsto> message_item msg, ?tk \<mapsto> thread_item th) =
      R(?tk \<mapsto> thread_item th, ?mk \<mapsto> message_item msg)"
    by (rule fun_upd_twist) simp
  moreover have "messages_wf (R(?tk \<mapsto> thread_item th))"
    "threads_wf pp (R(?tk \<mapsto> thread_item th))" "sends_wf (R(?tk \<mapsto> thread_item th))"
    "aliases_wf (R(?tk \<mapsto> thread_item th))"
    using wf threads_wf_thread [of pp R th] th ids
    by (auto simp: table_wf_def intro!: wf_other aliases_wf_other)
  ultimately show ?thesis
    using msg new messages_wf_message [of "R(?tk \<mapsto> thread_item th)" "message_item msg" msg]
    by (auto simp: table_wf_def message_at_upd message_at_def intro!: wf_other aliases_wf_message)
qed

lemma table_wf_aliases:
  assumes "table_wf pp R" and "list_all (alias_op_for msg) as" and "message_ok msg"
    and "message_at R (msg_inbox_id msg) (msg_message_id msg) = Some msg'"
    and "msg_thread_id msg' = msg_thread_id msg"
  shows "table_wf pp (txn_apply as R)"
proof -
  have "thread_key (msg_inbox_id msg) (msg_thread_id msg) \<in> dom R"
    using assms messages_wf_read [of R "msg_inbox_id msg" "msg_message_id msg" msg']
    by (simp add: table_wf_def)
  with assms show ?thesis
    unfolding table_wf_def message_ok_def by (blast intro: wf_aliases aliases_wf_aliases)
qed

lemma table_wf_send:
  assumes "table_wf pp R" and "message_key (snd_inbox_id st) (snd_message_id st) \<in> dom R"
  shows "table_wf pp (R(send_state_key (snd_message_id st) \<mapsto> send_state_item st))"
  using assms by (auto simp: table_wf_def intro!: wf_other aliases_wf_other sends_wf_send)

lemma table_wf_other:
  assumes "table_wf pp R" and "\<And>i m. k \<noteq> message_key i m" and "\<And>i t. k \<noteq> thread_key i t"
    and "\<And>m. k \<noteq> send_state_key m" and "\<And>i r. k \<noteq> rfc_alias_key i r"
  shows "table_wf pp (R(k \<mapsto> it))"
  using assms(1) unfolding table_wf_def
  by (simp add: wf_other aliases_wf_other assms(2-))

lemma table_wf_thread:
  assumes "table_wf pp R" and "thread_bounded pp th"
  shows "table_wf pp (R(thread_key (thr_inbox_id th) (thr_thread_id th) \<mapsto> thread_item th))"
  using assms by (auto simp: table_wf_def intro!: wf_other aliases_wf_other threads_wf_thread)

text \<open>A message rewritten in place keeps its identity and its thread.\<close>

lemma table_wf_rewrite:
  assumes wf: "table_wf pp R" and old: "message_at R (msg_inbox_id msg) (msg_message_id msg) = Some msg"
    and it: "message_of_item it = Some msg'" and ok: "message_ok msg'"
    and same: "msg_inbox_id msg' = msg_inbox_id msg" "msg_message_id msg' = msg_message_id msg"
      "msg_thread_id msg' = msg_thread_id msg"
  shows "table_wf pp (R(message_key (msg_inbox_id msg) (msg_message_id msg) \<mapsto> it))"
proof -
  have "thread_key (msg_inbox_id msg) (msg_thread_id msg) \<in> dom R"
    using wf old messages_wf_read by (auto simp: table_wf_def)
  then show ?thesis
    using wf old it same messages_wf_message [OF _ it ok, of R]
    by (auto simp: table_wf_def intro!: wf_other aliases_wf_message)
qed

lemma message_at_dom: "message_at R i m = Some msg \<Longrightarrow> message_key i m \<in> dom R"
  by (auto simp: message_at_def bind_eq_Some_conv)

lemma send_at_wf:
  "sends_wf R \<Longrightarrow> send_at R m = Some st \<Longrightarrow>
     snd_message_id st = m \<and> message_key (snd_inbox_id st) m \<in> dom R"
  unfolding sends_wf_def send_at_def bind_eq_Some_conv
  by (metis option.inject send_state_of_send_state_item)

lemma sends_wf_row:
  "sends_wf R \<Longrightarrow> R (send_state_key m) = Some it \<Longrightarrow>
     \<exists>st. it = send_state_item st \<and> send_at R m = Some st"
  unfolding sends_wf_def send_at_def by fastforce

lemmas table_wf_reads =
  messages_wf_read [OF table_wf_def [THEN iffD1, THEN conjunct1]]
  threads_wf_read [OF table_wf_def [THEN iffD1, THEN conjunct2, THEN conjunct1]]
  send_at_wf [OF table_wf_def [THEN iffD1, THEN conjunct2, THEN conjunct2, THEN conjunct1]]

lemma relabelled_simps [simp]:
  "msg_inbox_id (relabelled msg ls now) = msg_inbox_id msg"
  "msg_message_id (relabelled msg ls now) = msg_message_id msg"
  "msg_thread_id (relabelled msg ls now) = msg_thread_id msg"
  "msg_labels (relabelled msg ls now) = ls"
  by (simp_all add: relabelled_def)

lemma transition_ids [simp]:
  "snd_message_id (claimed st now) = snd_message_id st" "snd_inbox_id (claimed st now) = snd_inbox_id st"
  "snd_message_id (calling_ses st now) = snd_message_id st"
  "snd_inbox_id (calling_ses st now) = snd_inbox_id st"
  by (simp_all add: send_transition_defs)

lemma wf_step_insert:
  assumes wf: "table_wf pp R" and msg: "message_ok msg"
    and read: "thread_read R (msg_inbox_id msg) (msg_thread_id msg) before"
    and ok: "txn_ok R (plan_insert msg before (thread_for pp msg before) al)"
  shows "table_wf pp (txn_apply (plan_insert msg before (thread_for pp msg before) al) R)"
proof -
  let ?th = "thread_for pp msg before"
  obtain as where plan: "plan_insert msg before ?th al =
      put_message (stored_message msg ?th) CondNotExists #
      put_thread ?th (versioned (map_option thr_version before)) # as"
    and as: "list_all (alias_op_for msg) as" by (rule insert_shape)
  have th: "thr_inbox_id ?th = msg_inbox_id msg" "thr_thread_id ?th = msg_thread_id msg"
    "thread_bounded pp ?th"
    using wf thread_for_ok [OF _ read] by (auto simp: table_wf_def)
  have "R (message_key (msg_inbox_id msg) (msg_message_id msg)) = None"
    using ok plan by simp
  then have "table_wf pp (R(message_key (msg_inbox_id msg) (msg_message_id msg) \<mapsto>
        message_item (stored_message msg ?th),
      thread_key (msg_inbox_id msg) (msg_thread_id msg) \<mapsto> thread_item ?th))"
    using table_wf_arrival [OF wf, of "stored_message msg ?th" ?th] msg th by simp
  from table_wf_aliases [OF this as msg] show ?thesis
    by (simp add: plan th message_at_upd)
qed

lemma wf_step_enqueue:
  assumes wf: "table_wf pp R" and msg: "message_ok msg"
    and ids: "snd_message_id state = msg_message_id msg" "snd_inbox_id state = msg_inbox_id msg"
    and read: "thread_read R (msg_inbox_id msg) (msg_thread_id msg) before"
    and plan: "plan_enqueue msg state key before (thread_for pp msg before) now_epoch = Inr planned"
    and ok: "txn_ok R (drop_taken_aliases planned taken)"
  shows "table_wf pp (txn_apply (drop_taken_aliases planned taken) R)"
proof -
  let ?th = "thread_for pp msg before"
  obtain ks as where shape: "drop_taken_aliases planned taken =
      ks @ [put_message (stored_message msg ?th) CondNotExists, put_send_state state CondNotExists,
        put_thread ?th (versioned (map_option thr_version before))] @ as"
    and ks: "ks = (case key of None \<Rightarrow> []
      | Some k \<Rightarrow> [put_send_key k (CondNotExistsOrExpired now_epoch)])"
    and as: "list_all (alias_op_for msg) as" by (rule enqueue_shape [OF plan])
  have th: "thr_inbox_id ?th = msg_inbox_id msg" "thr_thread_id ?th = msg_thread_id msg"
    "thread_bounded pp ?th"
    using wf thread_for_ok [OF _ read] by (auto simp: table_wf_def)
  have keyed: "table_wf pp (txn_apply ks R)"
    using wf by (cases key) (simp_all add: ks table_wf_other)
  have same: "txn_apply ks R (message_key i m) = R (message_key i m)" for i m
    by (cases key) (simp_all add: ks)
  have "R (message_key (msg_inbox_id msg) (msg_message_id msg)) = None"
    using ok shape by simp
  then have arrived: "table_wf pp ((txn_apply ks R)(
      message_key (msg_inbox_id msg) (msg_message_id msg) \<mapsto> message_item (stored_message msg ?th),
      thread_key (msg_inbox_id msg) (msg_thread_id msg) \<mapsto> thread_item ?th))"
    using table_wf_arrival [OF keyed, of "stored_message msg ?th" ?th] msg th same by simp
  have "table_wf pp ((txn_apply ks R)(
      message_key (msg_inbox_id msg) (msg_message_id msg) \<mapsto> message_item (stored_message msg ?th),
      thread_key (msg_inbox_id msg) (msg_thread_id msg) \<mapsto> thread_item ?th,
      send_state_key (snd_message_id state) \<mapsto> send_state_item state))"
    by (rule table_wf_send [OF arrived]) (simp add: ids)
  from table_wf_aliases [OF this as msg] show ?thesis
    by (simp add: shape th message_at_upd ids
        fun_upd_twist [of "send_state_key (msg_message_id msg)" "thread_key (msg_inbox_id msg) (msg_thread_id msg)"])
qed

lemma wf_step_cas:
  assumes "table_wf pp R" and "send_at R (snd_message_id before) = Some before"
    and "snd_message_id after = snd_message_id before" and "snd_inbox_id after = snd_inbox_id before"
  shows "table_wf pp (txn_apply (plan_state_cas before after expected) R)"
  using assms table_wf_reads(3) [OF assms(1,2)] table_wf_send [OF assms(1), of after]
  by (simp add: plan_state_cas_def)

lemma wf_step_patch:
  assumes wf: "table_wf pp R" and msg: "message_at R inbox message_id = Some msg"
    and thread: "thread_at R inbox (msg_thread_id msg) = Some before"
    and plan: "plan_patch msg ls before (apply_label_patch before added removed now) now = Inr ops"
    and ls: "strictly_sorted ls"
  shows "table_wf pp (txn_apply ops R)"
proof -
  let ?th = "apply_label_patch before added removed now"
  have ids: "msg_inbox_id msg = inbox" "msg_message_id msg = message_id" "message_ok msg"
    using table_wf_reads(1) [OF wf msg] by auto
  have th: "thr_inbox_id before = inbox" "thr_thread_id before = msg_thread_id msg"
    "thread_bounded pp before"
    using table_wf_reads(2) [OF wf thread] by auto
  obtain i where i: "R (message_key inbox message_id) = Some i" "message_of_item i = Some msg"
    using msg by (auto simp: message_at_def bind_eq_Some_conv)
  have ops: "ops = [update_message_labels msg ls now [], put_thread ?th (versioned (Some (thr_version before)))]"
    using plan by (auto simp: plan_patch_def split: sum.splits)
  let ?R = "R(message_key inbox message_id \<mapsto> written (Some i) (op_op (update_message_labels msg ls now [])))"
  have "table_wf pp (R(message_key (msg_inbox_id msg) (msg_message_id msg) \<mapsto>
      written (Some i) (op_op (update_message_labels msg ls now []))))"
    using msg ids ls
    by (intro table_wf_rewrite [OF wf _ update_labels_written [OF i(2)]]) (simp_all add: message_ok_def)
  then have "table_wf pp (?R(thread_key (thr_inbox_id ?th) (thr_thread_id ?th) \<mapsto> thread_item ?th))"
    using th ids by (intro table_wf_thread apply_label_patch_bounded) simp_all
  then show ?thesis
    using i by (simp add: ops update_labels_write ids)
qed

text \<open>The message as \<open>mark_send\<close> leaves it.\<close>

definition marked ::
  "mail_message \<Rightarrow> string list \<Rightarrow> send_status \<Rightarrow> ses_sent option \<Rightarrow> string \<Rightarrow> mail_message" where
  "marked msg ls status ses now = (case ses of
       None \<Rightarrow> relabelled msg ls now
     | Some x \<Rightarrow> (relabelled msg ls now)\<lparr>
         msg_ses_message_id := Some (SesMessageId (ses_sent_message_id x)),
         msg_sent_at := Some now\<rparr>)\<lparr>msg_send_status := Some status\<rparr>"

lemma marked_simps [simp]:
  "msg_inbox_id (marked msg ls st ses now) = msg_inbox_id msg"
  "msg_message_id (marked msg ls st ses now) = msg_message_id msg"
  "msg_thread_id (marked msg ls st ses now) = msg_thread_id msg"
  "msg_labels (marked msg ls st ses now) = ls"
  by (simp_all add: marked_def split: option.split)

text \<open>The rows after a committed mark, the alias rows aside.\<close>

definition mark_rows ::
  "send_state \<Rightarrow> mail_message \<Rightarrow> item \<Rightarrow> (thread_state \<times> thread_state) option \<Rightarrow> rows \<Rightarrow> rows" where
  "mark_rows after msg it thread R =
     (let R1 = R(send_state_key (snd_message_id after) \<mapsto> send_state_item after,
            message_key (msg_inbox_id msg) (msg_message_id msg) \<mapsto> it)
      in case thread of None \<Rightarrow> R1
         | Some (tb, ta) \<Rightarrow> R1(thread_key (thr_inbox_id ta) (thr_thread_id ta) \<mapsto> thread_item ta))"

lemma mark_effect:
  assumes msg: "message_at R (msg_inbox_id msg) (msg_message_id msg) = Some msg"
  obtains it as refs where
    "txn_apply (drop_taken_aliases (plan_mark state after msg ls thread ses now) taken) R =
       txn_apply refs (txn_apply as (mark_rows after msg it thread R))"
    and "message_of_item it = Some (marked msg ls (snd_send_status after) ses now)"
    and "list_all (alias_op_for msg) as"
    and "refs = (case ses of None \<Rightarrow> [] | Some x \<Rightarrow>
        [PlannedOp RoleSesRef (Put (ses_ref_item (ses_sent_message_id x) (msg_inbox_id msg)
          (msg_message_id msg) (msg_expires_at msg)) CondNone)])"
proof -
  obtain i where i: "R (message_key (msg_inbox_id msg) (msg_message_id msg)) = Some i"
    "message_of_item i = Some msg"
    using msg by (auto simp: message_at_def bind_eq_Some_conv)
  obtain as refs where shape: "drop_taken_aliases (plan_mark state after msg ls thread ses now) taken =
      [put_send_state after (CondVersionEquals (snd_version state)),
       update_message_labels msg ls now
         ((''send_status'', AvS (send_status_str (snd_send_status after))) #
          (case ses of None \<Rightarrow> []
           | Some x \<Rightarrow> [(''ses_message_id'', AvS (ses_sent_message_id x)), (''sent_at'', AvS now)]))]
      @ (case thread of None \<Rightarrow> []
         | Some (tb, ta) \<Rightarrow> [put_thread ta (CondVersionEquals (thr_version tb))])
      @ as @ refs"
    and as: "list_all (alias_op_for msg) as"
    and refs: "refs = (case ses of None \<Rightarrow> [] | Some x \<Rightarrow>
        [PlannedOp RoleSesRef (Put (ses_ref_item (ses_sent_message_id x) (msg_inbox_id msg)
          (msg_message_id msg) (msg_expires_at msg)) CondNone)])"
    by (rule mark_shape)
  show ?thesis
    by (rule that [OF _ mark_update_written [OF i(2), of ls now "snd_send_status after" ses,
            folded marked_def] as refs])
      (simp add: shape mark_rows_def Let_def update_labels_write i split: option.split)
qed

lemma table_wf_mark_rows:
  assumes wf: "table_wf pp R" and msg: "message_at R (msg_inbox_id msg) (msg_message_id msg) = Some msg"
    and it: "message_of_item it = Some (marked msg ls st ses now)" and ls: "strictly_sorted ls"
    and after: "snd_message_id after = msg_message_id msg" "snd_inbox_id after = msg_inbox_id msg"
    and thread: "\<And>tb ta. thread = Some (tb, ta) \<Longrightarrow> thread_bounded pp ta"
  shows "table_wf pp (mark_rows after msg it thread R)"
proof -
  have ok: "message_ok (marked msg ls st ses now)"
    using table_wf_reads(1) [OF wf msg] ls by (simp add: message_ok_def)
  have "table_wf pp (R(send_state_key (snd_message_id after) \<mapsto> send_state_item after))"
    using message_at_dom [OF msg] after by (intro table_wf_send [OF wf]) simp
  then have "table_wf pp (R(send_state_key (snd_message_id after) \<mapsto> send_state_item after,
      message_key (msg_inbox_id msg) (msg_message_id msg) \<mapsto> it))"
    by (rule table_wf_rewrite [OF _ _ it ok]) (use msg in \<open>simp_all add: message_at_upd\<close>)
  with thread show ?thesis
    by (auto simp: mark_rows_def Let_def intro: table_wf_thread split: option.split)
qed

lemma wf_step_mark:
  assumes wf: "table_wf pp R" and msg: "message_at R (msg_inbox_id msg) (msg_message_id msg) = Some msg"
    and ls: "strictly_sorted ls"
    and after: "snd_message_id after = msg_message_id msg" "snd_inbox_id after = msg_inbox_id msg"
    and thread: "\<And>tb ta. thread = Some (tb, ta) \<Longrightarrow> thread_bounded pp ta"
  shows "table_wf pp
    (txn_apply (drop_taken_aliases (plan_mark state after msg ls thread ses now) taken) R)"
proof -
  obtain it as refs where eff:
    "txn_apply (drop_taken_aliases (plan_mark state after msg ls thread ses now) taken) R =
       txn_apply refs (txn_apply as (mark_rows after msg it thread R))"
    and it: "message_of_item it = Some (marked msg ls (snd_send_status after) ses now)"
    and as: "list_all (alias_op_for msg) as"
    and refs: "refs = (case ses of None \<Rightarrow> [] | Some x \<Rightarrow>
        [PlannedOp RoleSesRef (Put (ses_ref_item (ses_sent_message_id x) (msg_inbox_id msg)
          (msg_message_id msg) (msg_expires_at msg)) CondNone)])"
    by (rule mark_effect [OF msg])
  have rows: "table_wf pp (mark_rows after msg it thread R)"
    using wf msg it ls after thread by (rule table_wf_mark_rows)
  have at: "message_at (mark_rows after msg it thread R) (msg_inbox_id msg) (msg_message_id msg) =
      Some (marked msg ls (snd_send_status after) ses now)"
    using it by (simp add: mark_rows_def Let_def message_at_upd split: option.split)
  have "message_ok msg" using table_wf_reads(1) [OF wf msg] by simp
  from table_wf_aliases [OF rows as this at]
  have "table_wf pp (txn_apply as (mark_rows after msg it thread R))" by simp
  then show ?thesis
    unfolding eff refs by (cases ses) (simp_all add: table_wf_other)
qed

lemma mail_step_keeps_wf:
  assumes "mail_step pp R R'" and "table_wf pp R"
  shows "table_wf pp R'"
  using assms(1)
proof cases
  case (step_insert msg before ops aliases)
  with assms(2) show ?thesis by (simp add: wf_step_insert)
next
  case (step_enqueue msg state before key now_epoch planned ops taken)
  with assms(2) show ?thesis by (simp add: wf_step_enqueue)
next
  case (step_claim before ops now)
  with assms(2) show ?thesis by (simp add: wf_step_cas)
next
  case (step_note claim ops now)
  with assms(2) show ?thesis by (simp add: wf_step_cas)
next
  case (step_mark state msg outcome now after labels ses added removed thread ops taken)
  have ids: "msg_inbox_id msg = snd_inbox_id state" "msg_message_id msg = snd_message_id state"
    "strictly_sorted (msg_labels msg)"
    using table_wf_reads(1) [OF assms(2) step_mark(3)] by (simp_all add: message_ok_def)
  have "thread_bounded pp ta" if "thread = Some (tb, ta)" for tb ta
    using step_mark(6) that table_wf_reads(2) [OF assms(2)]
    by (auto split: if_splits intro: apply_label_patch_bounded)
  with step_mark ids mark_transition_frame [OF step_mark(4)]
    mark_transition_labels_sorted [OF ids(3) step_mark(4)]
  show ?thesis by (simp add: wf_step_mark assms(2))
next
  case (step_patch inbox message_id msg before p add remove now ops)
  have "strictly_sorted (msg_labels msg)"
    using table_wf_reads(1) [OF assms(2) step_patch(2)] by (simp add: message_ok_def)
  with step_patch show ?thesis
    using wf_step_patch [OF assms(2)] patch_labels_facts by metis
next
  case (step_inbox inbox now)
  with assms(2) show ?thesis by (simp add: table_wf_other)
qed

end
