(* ===== verification/Rollup.thy ===== *)
theory Rollup
  imports Steps
begin

text \<open>
  The label roll-up over the whole table: in every state the steps can reach, the counts on
  a thread row are the counts of the message rows that name the thread.
\<close>

definition members :: "rows \<Rightarrow> inbox_id \<Rightarrow> thread_id \<Rightarrow> message_id set" where
  "members R i t = {m. \<exists>msg. message_at R i m = Some msg \<and> msg_thread_id msg = t}"

definition labelled :: "rows \<Rightarrow> inbox_id \<Rightarrow> thread_id \<Rightarrow> string \<Rightarrow> message_id set" where
  "labelled R i t l =
     {m. \<exists>msg. message_at R i m = Some msg \<and> msg_thread_id msg = t \<and> l \<in> set (msg_labels msg)}"

text \<open>
  \<open>rollup_ok n R\<close>: no thread has more than \<open>n\<close> messages, and every thread row counts the
  labels of its messages, and the messages.
\<close>

definition rollup_ok :: "nat \<Rightarrow> rows \<Rightarrow> bool" where
  "rollup_ok n R \<longleftrightarrow> finite (dom R) \<and> (\<forall>i t. card (members R i t) \<le> n) \<and>
     (\<forall>i t th. thread_at R i t = Some th \<longrightarrow>
        counts_as th (\<lambda>l. card (labelled R i t l)) \<and>
        thr_message_count th = of_nat (card (members R i t)))"

lemma rollup_ok_empty: "rollup_ok 0 Map.empty"
  by (simp add: rollup_ok_def thread_at_def members_def message_at_def)

lemma rollup_ok_Suc: "rollup_ok n R \<Longrightarrow> rollup_ok (Suc n) R"
  by (auto simp: rollup_ok_def intro: le_SucI)

lemma members_finite:
  assumes "finite (dom R)"
  shows "finite (members R i t)"
proof -
  have "message_key i ` members R i t \<subseteq> dom R"
    by (auto simp: members_def dest!: message_at_dom)
  then have "finite (message_key i ` members R i t)"
    using assms by (rule finite_subset)
  moreover have "inj_on (message_key i) (members R i t)" by (auto intro: inj_onI)
  ultimately show ?thesis by (rule finite_imageD)
qed

lemma labelled_subset: "labelled R i t l \<subseteq> members R i t"
  by (auto simp: labelled_def members_def)

lemma labelled_finite: "finite (dom R) \<Longrightarrow> finite (labelled R i t l)"
  using members_finite labelled_subset finite_subset by metis

text \<open>Two tables with the same messages and the same threads roll up alike.\<close>

lemma rollup_ok_cong:
  assumes "rollup_ok n R" and "finite (dom R')"
    and "\<And>i m. map_option (\<lambda>msg. (msg_thread_id msg, set (msg_labels msg))) (message_at R' i m) =
      map_option (\<lambda>msg. (msg_thread_id msg, set (msg_labels msg))) (message_at R i m)"
    and "\<And>i t. thread_at R' i t = thread_at R i t"
  shows "rollup_ok n R'"
proof -
  have view: "(\<exists>msg. message_at R' i m = Some msg \<and> P (msg_thread_id msg) (set (msg_labels msg))) \<longleftrightarrow>
      (\<exists>msg. message_at R i m = Some msg \<and> P (msg_thread_id msg) (set (msg_labels msg)))" for P i m
    using assms(3) [of i m] by (cases "message_at R i m"; cases "message_at R' i m") auto
  have "members R' i t = members R i t" for i t
    unfolding members_def using view [of _ _ "\<lambda>u L. u = t"] by simp
  moreover have "labelled R' i t l = labelled R i t l" for i t l
    unfolding labelled_def using view [of _ _ "\<lambda>u L. u = t \<and> l \<in> L"] by simp
  ultimately show ?thesis
    using assms(1,2) by (simp add: rollup_ok_def assms(4))
qed

section \<open>A message arrives\<close>

lemma carriers_single: "carriers l [L] = (if l \<in> L then 1 else 0)"
  by (simp add: carriers_def)

lemma counts_as_thread_for:
  assumes "case before of None \<Rightarrow> c = (\<lambda>_. 0) | Some th \<Rightarrow> counts_as th c"
    and "distinct (msg_labels msg)"
  shows "counts_as (thread_for pp msg before)
    (\<lambda>l. c l + (if l \<in> set (msg_labels msg) then 1 else 0))"
proof -
  have count: "count_list (msg_labels msg) = (\<lambda>l. if l \<in> set (msg_labels msg) then 1 else 0)"
    using assms(2) by (simp add: fun_eq_iff count_list_distinct)
  show ?thesis
  proof (cases before)
    case None
    with assms label_rollup_new_thread [OF assms(2), of pp] show ?thesis
      by (simp add: thread_for_def label_rollup_def carriers_single)
  next
    case (Some th)
    with assms have "counts_as (fold patch_add (msg_labels msg) th)
        (\<lambda>l. c l + count_list (msg_labels msg) l)"
      by (intro patch_add_fold_counts) simp
    then show ?thesis
      unfolding count thread_for_def Some
      by (simp add: counts_as_def fold_patch_add_fields apply_message_label_fields)
  qed
qed

lemma message_count_thread_for:
  "thr_message_count (thread_for pp msg before) =
     (case before of None \<Rightarrow> 1 | Some th \<Rightarrow> thr_message_count th + 1)"
  by (simp add: thread_for_def new_thread_def apply_message_def Let_def
      split: option.split direction.split)

lemma rollup_arrival:
  assumes roll: "rollup_ok n R" and wf: "table_wf pp R"
    and read: "thread_read R i t before" and new: "message_at R i m = None"
    and labels: "distinct (msg_labels msg)" and ids: "msg_thread_id msg = t"
    and msgs: "\<And>j k. message_at R' j k = (if j = i \<and> k = m then Some msg' else message_at R j k)"
    and same: "msg_thread_id msg' = t" "msg_labels msg' = msg_labels msg"
    and threads: "\<And>j u. thread_at R' j u =
      (if j = i \<and> u = t then Some (thread_for pp msg before) else thread_at R j u)"
    and fin: "finite (dom R')"
  shows "rollup_ok (Suc n) R'"
proof -
  have finR: "finite (dom R)" using roll by (simp add: rollup_ok_def)
  have mem: "members R' j u = (if j = i \<and> u = t then insert m (members R j u) else members R j u)" for j u
    using new same(1) unfolding members_def msgs by auto
  have lab: "labelled R' j u l = (if j = i \<and> u = t \<and> l \<in> set (msg_labels msg)
      then insert m (labelled R j u l) else labelled R j u l)" for j u l
    using new same unfolding labelled_def msgs by auto
  have fresh: "m \<notin> members R i t" using new by (simp add: members_def)
  have card_lab: "card (labelled R' i t l) =
      card (labelled R i t l) + (if l \<in> set (msg_labels msg) then 1 else 0)" for l
  proof -
    have "m \<notin> labelled R i t l" using fresh labelled_subset [of R i t l] by blast
    with labelled_finite [OF finR, of i t l] show ?thesis by (simp add: lab)
  qed
  have card_mem: "card (members R' i t) = card (members R i t) + 1"
    using fresh members_finite [OF finR] by (simp add: mem)
  have before: "case before of
      None \<Rightarrow> members R i t = {}
    | Some th \<Rightarrow> counts_as th (\<lambda>l. card (labelled R i t l)) \<and>
        thr_message_count th = of_nat (card (members R i t))"
  proof (cases before)
    case None
    then have "thread_key i t \<notin> dom R" using read by (simp add: thread_read_def domIff)
    with None wf show ?thesis
      by (auto simp: members_def table_wf_def dest: messages_wf_read)
  next
    case (Some th)
    with read roll show ?thesis by (simp add: thread_read_def rollup_ok_def)
  qed
  have "case before of None \<Rightarrow> (\<lambda>l. card (labelled R i t l)) = (\<lambda>_. 0)
      | Some th \<Rightarrow> counts_as th (\<lambda>l. card (labelled R i t l))"
    using before labelled_subset [of R i t] by (auto split: option.splits)
  from counts_as_thread_for [OF this labels]
  have counts: "counts_as (thread_for pp msg before) (\<lambda>l. card (labelled R' i t l))"
    by (simp add: card_lab)
  have "thr_message_count (thread_for pp msg before) = of_nat (card (members R' i t))"
    using before by (auto simp: message_count_thread_for card_mem split: option.splits)
  moreover have "card (members R' j u) \<le> Suc n" for j u
    using roll card_mem by (auto simp: rollup_ok_def mem intro: le_SucI split: if_splits)
  ultimately show ?thesis
    using counts roll fin by (auto simp: rollup_ok_def threads mem lab split: if_splits)
qed

section \<open>A message changes its labels\<close>

lemma rollup_relabel:
  assumes roll: "rollup_ok n R" and small: "n < 2 ^ 64"
    and thread: "thread_at R i t = Some before" and old: "message_at R i m = Some msg"
    and ids: "msg_thread_id msg = t"
    and msgs: "\<And>j k. message_at R' j k = (if j = i \<and> k = m then Some msg' else message_at R j k)"
    and same: "msg_thread_id msg' = t"
      "set (msg_labels msg') = (set (msg_labels msg) \<union> set added) - set removed"
    and added: "distinct added" "set added \<inter> set (msg_labels msg) = {}"
    and removed: "distinct removed" "set removed \<subseteq> set (msg_labels msg) \<union> set added"
    and threads: "\<And>j u. thread_at R' j u =
      (if j = i \<and> u = t then Some (apply_label_patch before added removed now) else thread_at R j u)"
    and fin: "finite (dom R')"
  shows "rollup_ok n R'"
proof -
  have finR: "finite (dom R)" using roll by (simp add: rollup_ok_def)
  have counts: "counts_as before (\<lambda>l. card (labelled R i t l))"
    and count: "thr_message_count before = of_nat (card (members R i t))"
    using roll thread by (auto simp: rollup_ok_def)
  have mem: "members R' j u = members R j u" for j u
    using old ids same(1) unfolding members_def msgs by auto
  have lab: "labelled R' j u l = (if j = i \<and> u = t
      then (if l \<in> set (msg_labels msg') then insert m (labelled R j u l) else labelled R j u l - {m})
      else labelled R j u l)" for j u l
    unfolding set_eq_iff labelled_def msgs using old ids same(1) by simp blast
  have has: "m \<in> labelled R i t l \<longleftrightarrow> l \<in> set (msg_labels msg)" for l
    using old ids by (auto simp: labelled_def)
  have m: "m \<in> members R i t" using old ids by (simp add: members_def)
  let ?c = "\<lambda>l. card (labelled R i t l) + count_list added l"
  have bound: "?c l < 2 ^ 64" for l
  proof -
    have "?c l \<le> card (insert m (labelled R i t l))"
      using added has [of l] labelled_finite [OF finR, of i t l]
      by (auto simp: count_list_distinct card_insert_if)
    also have "\<dots> \<le> card (members R i t)"
      using m labelled_subset members_finite [OF finR] by (intro card_mono) auto
    also have "\<dots> \<le> n" using roll by (simp add: rollup_ok_def)
    finally show ?thesis using small by simp
  qed
  have "counts_as (fold patch_remove removed (fold patch_add added before))
      (\<lambda>l. ?c l - count_list removed l)"
    by (rule patch_remove_fold_counts [OF patch_add_fold_counts [OF counts] bound])
  moreover have "?c l - count_list removed l = card (labelled R' i t l)" for l
    using added removed same(2) has [of l] labelled_finite [OF finR, of i t l]
    by (auto simp: lab count_list_distinct card_insert_if card_Diff_singleton_if split: if_splits)
  ultimately have "counts_as (apply_label_patch before added removed now)
      (\<lambda>l. card (labelled R' i t l))"
    by (simp add: apply_label_patch_def Let_def counts_as_def)
  moreover have "thr_message_count (apply_label_patch before added removed now) =
      of_nat (card (members R i t))"
    by (simp add: apply_label_patch_def Let_def patch_frame count)
  ultimately show ?thesis
    using roll fin by (auto simp: rollup_ok_def threads mem lab split: if_splits)
qed

section \<open>Steps keep the roll-up\<close>

lemma thread_at_upd:
  "thread_at (R(k \<mapsto> it)) i t = (if k = thread_key i t then thread_of_item it else thread_at R i t)"
  by (auto simp: thread_at_def)

lemma aliases_at:
  assumes "list_all (alias_op_for msg) as"
  shows "message_at (txn_apply as R) i m = message_at R i m"
    and "thread_at (txn_apply as R) i t = thread_at R i t"
    and "send_at (txn_apply as R) m = send_at R m"
  using alias_frame [OF assms, of _ R] by (simp_all add: message_at_def thread_at_def send_at_def)

lemma apply_write_finite: "finite (dom R) \<Longrightarrow> finite (dom (apply_write op R))"
  by (simp add: apply_write_def split: option.split)

lemma txn_apply_finite: "finite (dom R) \<Longrightarrow> finite (dom (txn_apply ops R))"
  unfolding txn_apply_def by (induction ops arbitrary: R) (simp_all add: apply_write_finite)

lemma message_ok_distinct: "message_ok msg \<Longrightarrow> distinct (msg_labels msg)"
  by (simp add: message_ok_def strictly_sorted_distinct)

lemma rollup_finite: "rollup_ok n R \<Longrightarrow> finite (dom R)"
  by (simp add: rollup_ok_def)

lemma roll_step_insert:
  assumes roll: "rollup_ok n R" and wf: "table_wf pp R" and msg: "message_ok msg"
    and read: "thread_read R (msg_inbox_id msg) (msg_thread_id msg) before"
    and ok: "txn_ok R (plan_insert msg before (thread_for pp msg before) al)"
  shows "rollup_ok (Suc n) (txn_apply (plan_insert msg before (thread_for pp msg before) al) R)"
proof -
  let ?th = "thread_for pp msg before"
  obtain as where plan: "plan_insert msg before ?th al =
      put_message (stored_message msg ?th) CondNotExists #
      put_thread ?th (versioned (map_option thr_version before)) # as"
    and as: "list_all (alias_op_for msg) as" by (rule insert_shape)
  have th: "thr_inbox_id ?th = msg_inbox_id msg" "thr_thread_id ?th = msg_thread_id msg"
    using wf thread_for_ok [OF _ read] by (auto simp: table_wf_def)
  let ?R' = "txn_apply (plan_insert msg before ?th al) R"
  show ?thesis
  proof (rule rollup_arrival [OF roll wf read _ message_ok_distinct [OF msg]])
    show "message_at R (msg_inbox_id msg) (msg_message_id msg) = None"
      using ok plan by (simp add: message_at_def)
    show "message_at ?R' j k = (if j = msg_inbox_id msg \<and> k = msg_message_id msg
        then Some (stored_message msg ?th) else message_at R j k)" for j k
      by (auto simp: plan aliases_at [OF as] message_at_upd)
    show "thread_at ?R' j u = (if j = msg_inbox_id msg \<and> u = msg_thread_id msg
        then Some ?th else thread_at R j u)" for j u
      by (auto simp: plan aliases_at [OF as] thread_at_upd th)
  qed (simp_all add: txn_apply_finite rollup_finite [OF roll])
qed

lemma roll_step_enqueue:
  assumes roll: "rollup_ok n R" and wf: "table_wf pp R" and msg: "message_ok msg"
    and read: "thread_read R (msg_inbox_id msg) (msg_thread_id msg) before"
    and plan: "plan_enqueue msg state key before (thread_for pp msg before) now_epoch = Inr planned"
    and ok: "txn_ok R (drop_taken_aliases planned taken)"
  shows "rollup_ok (Suc n) (txn_apply (drop_taken_aliases planned taken) R)"
proof -
  let ?th = "thread_for pp msg before"
  obtain ks as where shape: "drop_taken_aliases planned taken =
      ks @ [put_message (stored_message msg ?th) CondNotExists, put_send_state state CondNotExists,
        put_thread ?th (versioned (map_option thr_version before))] @ as"
    and ks: "ks = (case key of None \<Rightarrow> []
      | Some k \<Rightarrow> [put_send_key k (CondNotExistsOrExpired now_epoch)])"
    and as: "list_all (alias_op_for msg) as" by (rule enqueue_shape [OF plan])
  have th: "thr_inbox_id ?th = msg_inbox_id msg" "thr_thread_id ?th = msg_thread_id msg"
    using wf thread_for_ok [OF _ read] by (auto simp: table_wf_def)
  have keyed: "message_at (txn_apply ks R) i m = message_at R i m"
    "thread_at (txn_apply ks R) i t = thread_at R i t" for i m t
    by (cases key; simp add: ks message_at_upd thread_at_upd)+
  let ?R' = "txn_apply (drop_taken_aliases planned taken) R"
  show ?thesis
  proof (rule rollup_arrival [OF roll wf read _ message_ok_distinct [OF msg]])
    show "message_at R (msg_inbox_id msg) (msg_message_id msg) = None"
      using ok shape by (simp add: message_at_def)
    show "message_at ?R' j k = (if j = msg_inbox_id msg \<and> k = msg_message_id msg
        then Some (stored_message msg ?th) else message_at R j k)" for j k
      by (auto simp: shape aliases_at [OF as] message_at_upd keyed)
    show "thread_at ?R' j u = (if j = msg_inbox_id msg \<and> u = msg_thread_id msg
        then Some ?th else thread_at R j u)" for j u
      by (auto simp: shape aliases_at [OF as] thread_at_upd th keyed)
  qed (simp_all add: txn_apply_finite rollup_finite [OF roll])
qed

lemma rollup_same_views:
  assumes "rollup_ok n R" and "finite (dom R')"
    and "\<And>i m. message_at R' i m = message_at R i m" and "\<And>i t. thread_at R' i t = thread_at R i t"
  shows "rollup_ok n R'"
  using assms by (intro rollup_ok_cong [OF assms(1,2)]) simp_all

lemma roll_step_patch:
  assumes roll: "rollup_ok n R" and wf: "table_wf pp R" and small: "n < 2 ^ 64"
    and msg: "message_at R inbox message_id = Some msg"
    and thread: "thread_at R inbox (msg_thread_id msg) = Some before"
    and plan: "plan_patch msg (patch_result p) before
      (apply_label_patch before (patch_added p) (patch_removed p) now) now = Inr ops"
    and p: "p = patch_labels (msg_labels msg) add remove"
  shows "rollup_ok n (txn_apply ops R)"
proof -
  let ?th = "apply_label_patch before (patch_added p) (patch_removed p) now"
  have ids: "msg_inbox_id msg = inbox" "msg_message_id msg = message_id" "message_ok msg"
    using table_wf_reads(1) [OF wf msg] by auto
  have th: "thr_inbox_id before = inbox" "thr_thread_id before = msg_thread_id msg"
    using table_wf_reads(2) [OF wf thread] by auto
  obtain i where i: "R (message_key inbox message_id) = Some i" "message_of_item i = Some msg"
    using msg by (auto simp: message_at_def bind_eq_Some_conv)
  have ops: "ops = [update_message_labels msg (patch_result p) now [],
      put_thread ?th (versioned (Some (thr_version before)))]"
    using plan by (auto simp: plan_patch_def split: sum.splits)
  have facts: "set (patch_result p) = (set (msg_labels msg) \<union> set (patch_added p)) - set (patch_removed p)"
    "distinct (patch_added p)" "set (patch_added p) \<inter> set (msg_labels msg) = {}"
    "distinct (patch_removed p)" "set (patch_removed p) \<subseteq> set (msg_labels msg) \<union> set (patch_added p)"
    using patch_labels_facts [of "msg_labels msg" add remove] ids(3) unfolding p message_ok_def by auto
  show ?thesis
  proof (rule rollup_relabel [OF roll small thread msg refl])
    show "message_at (txn_apply ops R) j k = (if j = inbox \<and> k = message_id
        then Some (relabelled msg (patch_result p) now) else message_at R j k)" for j k
      using i by (auto simp: ops update_labels_write ids message_at_upd update_labels_written)
    show "thread_at (txn_apply ops R) j u = (if j = inbox \<and> u = msg_thread_id msg
        then Some ?th else thread_at R j u)" for j u
      using i by (auto simp: ops update_labels_write ids thread_at_upd th)
  qed (simp_all add: facts txn_apply_finite rollup_finite [OF roll])
qed

lemma roll_step_mark:
  assumes roll: "rollup_ok n R" and wf: "table_wf pp R" and small: "n < 2 ^ 64"
    and msg: "message_at R (msg_inbox_id msg) (msg_message_id msg) = Some msg"
    and changes: "label_changes (msg_labels msg) ls = (added, removed)" and ls: "distinct ls"
    and thread: "if added = [] \<and> removed = [] then thread = None
           else \<exists>before. thread_at R (msg_inbox_id msg) (msg_thread_id msg) = Some before \<and>
             thread = Some (before, apply_label_patch before added removed now)"
  shows "rollup_ok n (txn_apply (drop_taken_aliases (plan_mark state after msg ls thread ses now) taken) R)"
    (is "rollup_ok n ?R'")
proof -
  obtain it as refs where eff: "?R' = txn_apply refs (txn_apply as (mark_rows after msg it thread R))"
    and it: "message_of_item it = Some (marked msg ls (snd_send_status after) ses now)"
    and as: "list_all (alias_op_for msg) as"
    and refs: "refs = (case ses of None \<Rightarrow> [] | Some x \<Rightarrow>
        [PlannedOp RoleSesRef (Put (ses_ref_item (ses_sent_message_id x) (msg_inbox_id msg)
          (msg_message_id msg) (msg_expires_at msg)) CondNone)])"
    by (rule mark_effect [OF msg])
  have fin: "finite (dom ?R')" by (simp add: txn_apply_finite rollup_finite [OF roll])
  have ref_views: "message_at (txn_apply refs Q) j k = message_at Q j k"
    "thread_at (txn_apply refs Q) j u = thread_at Q j u" for Q j k u
    by (cases ses; simp add: refs message_at_upd thread_at_upd)+
  have msgs: "message_at ?R' j k = (if j = msg_inbox_id msg \<and> k = msg_message_id msg
      then Some (marked msg ls (snd_send_status after) ses now) else message_at R j k)" for j k
    using it by (auto simp: eff ref_views aliases_at [OF as] mark_rows_def Let_def message_at_upd
        split: option.split)
  have msg_ok: "distinct (msg_labels msg)"
    using table_wf_reads(1) [OF wf msg] message_ok_distinct by blast
  note facts = label_changes_apply [OF changes]
  show ?thesis
  proof (cases "added = [] \<and> removed = []")
    case True
    then have none: "thread = None" using thread by simp
    have "thread_at ?R' j u = thread_at R j u" for j u
      unfolding eff by (simp add: ref_views aliases_at [OF as] mark_rows_def Let_def none thread_at_upd)
    moreover have "set ls = set (msg_labels msg)" using facts(1) True by simp
    ultimately show ?thesis
      using msg by (intro rollup_ok_cong [OF roll fin]) (simp_all add: msgs)
  next
    case False
    then obtain before where before: "thread_at R (msg_inbox_id msg) (msg_thread_id msg) = Some before"
      and some: "thread = Some (before, apply_label_patch before added removed now)"
      using thread by auto
    have th: "thr_inbox_id before = msg_inbox_id msg" "thr_thread_id before = msg_thread_id msg"
      using table_wf_reads(2) [OF wf before] by auto
    have threads: "thread_at ?R' j u = (if j = msg_inbox_id msg \<and> u = msg_thread_id msg
        then Some (apply_label_patch before added removed now) else thread_at R j u)" for j u
      unfolding eff
      by (auto simp: ref_views aliases_at [OF as] mark_rows_def Let_def some thread_at_upd th)
    have dist: "distinct added" "distinct removed"
      using changes ls msg_ok by (auto simp: label_changes_def)
    show ?thesis
      by (rule rollup_relabel [OF roll small before msg refl msgs _ _ dist(1) _ dist(2) _ threads fin])
        (use facts in auto)
  qed
qed

text \<open>The counts are 64-bit, so a thread has fewer than \<open>2 ^ 64\<close> messages.\<close>

lemma mail_step_keeps_rollup:
  assumes step: "mail_step pp R R'" and roll: "rollup_ok n R" and wf: "table_wf pp R"
    and small: "n < 2 ^ 64"
  shows "rollup_ok (Suc n) R'"
  using step
proof cases
  case (step_insert msg before ops aliases)
  with roll wf show ?thesis by (simp add: roll_step_insert)
next
  case (step_enqueue msg state before key now_epoch planned ops taken)
  with roll wf show ?thesis by (simp add: roll_step_enqueue)
next
  case (step_claim before ops now)
  show ?thesis
    by (rule rollup_ok_Suc [OF rollup_same_views [OF roll]])
      (simp_all add: step_claim plan_state_cas_def message_at_upd thread_at_upd rollup_finite [OF roll])
next
  case (step_note claim ops now)
  show ?thesis
    by (rule rollup_ok_Suc [OF rollup_same_views [OF roll]])
      (simp_all add: step_note plan_state_cas_def message_at_upd thread_at_upd rollup_finite [OF roll])
next
  case (step_mark state msg outcome now after labels ses added removed thread ops taken)
  have ids: "msg_inbox_id msg = snd_inbox_id state" "msg_message_id msg = snd_message_id state"
    "strictly_sorted (msg_labels msg)"
    using table_wf_reads(1) [OF wf step_mark(3)] by (simp_all add: message_ok_def)
  have "distinct labels"
    using mark_transition_labels_sorted [OF ids(3) step_mark(4)] by (rule strictly_sorted_distinct)
  with step_mark ids show ?thesis
    using roll_step_mark [OF roll wf small _ step_mark(5) _ step_mark(6)] rollup_ok_Suc by simp
next
  case (step_patch inbox message_id msg before p add remove now ops)
  with roll_step_patch [OF roll wf small] rollup_ok_Suc show ?thesis by simp
next
  case (step_inbox inbox now)
  show ?thesis
    by (rule rollup_ok_Suc [OF rollup_same_views [OF roll]])
      (simp_all add: step_inbox message_at_upd thread_at_upd rollup_finite [OF roll])
qed

lemma mail_steps_invariant:
  "(mail_step pp ^^ n) Map.empty R \<Longrightarrow> n \<le> 2 ^ 64 \<Longrightarrow> table_wf pp R \<and> rollup_ok n R"
proof (induction n arbitrary: R)
  case 0
  then have "R = Map.empty" by auto
  then show ?case by (simp add: table_wf_empty rollup_ok_empty)
next
  case (Suc n)
  from Suc.prems(1) obtain R0 where "(mail_step pp ^^ n) Map.empty R0" and step: "mail_step pp R0 R"
    by auto
  with Suc.IH Suc.prems(2) have "table_wf pp R0" "rollup_ok n R0" by simp_all
  with Suc.prems(2) show ?case
    using mail_step_keeps_wf [OF step] mail_step_keeps_rollup [OF step] by simp
qed

end
