(* ===== verification/Memory.thy ===== *)
theory Memory
  imports Table "HOL-Library.AList"
begin

text \<open>
  \<open>crates/mailbox-store/src/memory.rs\<close>: the in-memory store. It evaluates the conditions of
  the planned writes and applies them itself, so it is the executable model of the table the
  mailbox is proved against. Its hash map is an association list; where the code iterates
  over it the order is not specified, here it is the order of the list.
\<close>

section \<open>State\<close>

datatype injected = InjTransient | InjConflict | InjThrottle | InjKeyExists

datatype read_failure = ReadTransient | ReadPermanent

type_synonym items = "(table_key \<times> item) list"

record memory_store =
  mem_items :: items
  mem_injected :: "injected list"
  mem_resolve_failure :: "read_failure option"
  mem_attempts :: nat

definition empty_store :: memory_store where
  "empty_store =
     \<lparr>mem_items = [], mem_injected = [], mem_resolve_failure = None, mem_attempts = 0\<rparr>"

definition inject :: "injected \<Rightarrow> memory_store \<Rightarrow> memory_store" where
  "inject failure s = s\<lparr>mem_injected := mem_injected s @ [failure]\<rparr>"

definition fail_next_resolve :: "read_failure \<Rightarrow> memory_store \<Rightarrow> memory_store" where
  "fail_next_resolve failure s = s\<lparr>mem_resolve_failure := Some failure\<rparr>"

definition get_item :: "table_key \<Rightarrow> memory_store \<Rightarrow> item option" where
  "get_item key s = map_of (mem_items s) key"

definition raw_item :: "table_key \<Rightarrow> memory_store \<Rightarrow> item option" where
  "raw_item key s = get_item key s"

definition seed_send_key :: "send_key \<Rightarrow> memory_store \<Rightarrow> memory_store" where
  "seed_send_key k s =
     (let key = send_key_key (key_key_hash k);
          i = (map_of (send_key_fields k))
                (''pk'' \<mapsto> AvS (tk_pk key), ''sk'' \<mapsto> AvS (tk_sk key))
      in s\<lparr>mem_items := AList.update key i (mem_items s)\<rparr>)"

section \<open>Conditions\<close>

definition version_of :: "item \<Rightarrow> u64 option" where
  "version_of i = (case i ''version'' of Some (AvN n) \<Rightarrow> parse_u64 n | _ \<Rightarrow> None)"

definition check_holds :: "item option \<Rightarrow> check \<Rightarrow> bool" where
  "check_holds existing c = (case c of CheckEq name expected \<Rightarrow>
     (case Option.bind existing (\<lambda>i. i name) of
        None \<Rightarrow> False | Some actual \<Rightarrow> actual = expected))"

fun eval_cond :: "items \<Rightarrow> table_key \<Rightarrow> cond \<Rightarrow> bool" where
  "eval_cond items key CondNone = True"
| "eval_cond items key CondNotExists = (map_of items key = None)"
| "eval_cond items key (CondVersionEquals expected) =
     (Option.bind (map_of items key) version_of = Some expected)"
| "eval_cond items key (CondNotExistsOrExpired now_epoch) = (case map_of items key of
     None \<Rightarrow> True
   | Some i \<Rightarrow> (case i ''expires_at'' of
       Some (AvN n) \<Rightarrow> (case parse_u64 n of None \<Rightarrow> False | Some expiry \<Rightarrow> expiry < now_epoch)
     | _ \<Rightarrow> False))"
| "eval_cond items key (CondAll checks) = list_all (check_holds (map_of items key)) checks"

fun op_key :: "write_op \<Rightarrow> table_key option" where
  "op_key (Put i _) = do {
     pk \<leftarrow> string_attr i ''pk'';
     sk \<leftarrow> string_attr i ''sk'';
     Some (TableKey pk sk)
   }"
| "op_key (Update pk sk _ _ _) = Some (TableKey pk sk)"
| "op_key (AliasFirstWriter pk sk _ _ _) = Some (TableKey pk sk)"

fun holds :: "items \<Rightarrow> write_op \<Rightarrow> table_key \<Rightarrow> bool" where
  "holds items (Put _ c) key = eval_cond items key c"
| "holds items (Update _ _ _ _ c) key = eval_cond items key c"
| "holds items (AliasFirstWriter _ _ mid _ _) key = (case map_of items key of
     None \<Rightarrow> True
   | Some existing \<Rightarrow> mid \<noteq> None \<and> existing ''message_id'' = None)"

section \<open>Writes\<close>

fun apply_op :: "write_op \<Rightarrow> items \<Rightarrow> items" where
  "apply_op (Put i c) items = (case op_key (Put i c) of
     None \<Rightarrow> items
   | Some key \<Rightarrow> AList.update key i items)"
| "apply_op (Update pk sk sets removes _) items =
     (let key = TableKey pk sk;
          entry = (case map_of items key of None \<Rightarrow> Map.empty | Some i \<Rightarrow> i);
          entry = fold (\<lambda>e i. i(fst e \<mapsto> snd e)) sets entry;
          entry = fold (\<lambda>name i. i(name := None)) removes entry
      in AList.update key entry items)"
| "apply_op (AliasFirstWriter pk sk mid tid expires) items =
     (let i = [''expires_at'' \<mapsto> AvN (u64_str expires)];
          i = (case mid of None \<Rightarrow> i | Some m \<Rightarrow> i(''message_id'' \<mapsto> AvS m));
          i = i(''thread_id'' \<mapsto> AvS tid)
      in AList.update (TableKey pk sk) i items)"

definition reason_of :: "items \<Rightarrow> planned_op \<Rightarrow> cancellation_reason" where
  "reason_of items op = (case op_key (op_op op) of
       None \<Rightarrow> ReasonNone
     | Some key \<Rightarrow> if holds items (op_op op) key then ReasonNone else ConditionalCheckFailed)"

fun injected_result :: "injected \<Rightarrow> txn_outcome outcome" where
  "injected_result InjTransient = Inl ErrTransient"
| "injected_result InjConflict = Inr (Cancelled Retry)"
| "injected_result InjThrottle = Inr (Cancelled Retry)"
| "injected_result InjKeyExists = Inr (Cancelled KeyExists)"

definition attempt :: "planned_op list \<Rightarrow> (memory_store, txn_outcome) io" where
  "attempt ops s0 =
     (let s = s0\<lparr>mem_attempts := mem_attempts s0 + 1\<rparr> in
      case mem_injected s of
        injected # rest \<Rightarrow> (injected_result injected, s\<lparr>mem_injected := rest\<rparr>)
      | [] \<Rightarrow>
          (let reasons = map (reason_of (mem_items s)) ops in
           if list_ex (\<lambda>r. r = ConditionalCheckFailed) reasons
           then (Inr (Cancelled (decode_cancellation ops reasons)), s)
           else (Inr Committed,
             s\<lparr>mem_items := fold (\<lambda>op. apply_op (op_op op)) ops (mem_items s)\<rparr>)))"

section \<open>Queries\<close>

definition in_page :: "page_query \<Rightarrow> string \<Rightarrow> bool" where
  "in_page q sort_at \<longleftrightarrow>
     (case pq_after q of None \<Rightarrow> True | Some after \<Rightarrow> \<not> sort_at \<le> after) \<and>
     (case pq_before q of None \<Rightarrow> True | Some before \<Rightarrow> \<not> before \<le> sort_at) \<and>
     (case pq_start q of None \<Rightarrow> True | Some start \<Rightarrow>
        \<not> (if pq_ascending q then sort_at \<le> pgk_sort start else pgk_sort start \<le> sort_at))"

definition query_row :: "page_query \<Rightarrow> item \<Rightarrow> (string \<times> item) option" where
  "query_row q i =
     (let (pk_attr, sk_attr) = key_attributes (pq_index q) in
      if string_attr i pk_attr \<noteq> Some (pq_partition q) then None
      else case string_attr i sk_attr of
        None \<Rightarrow> None
      | Some sort_at \<Rightarrow> if in_page q sort_at then Some (sort_at, i) else None)"

definition query_rows :: "page_query \<Rightarrow> memory_store \<Rightarrow> (string \<times> item) list" where
  "query_rows q s =
     (let found = List.map_filter (\<lambda>(key, i). query_row q i) (mem_items s);
          ordered = sort_key fst found;
          ordered = (if pq_ascending q then ordered else rev ordered)
      in take (pq_limit q) ordered)"

definition page_key_of :: "string \<Rightarrow> string \<times> item \<Rightarrow> page_key option" where
  "page_key_of part row = do {
     pk \<leftarrow> string_attr (snd row) ''pk'';
     sk \<leftarrow> string_attr (snd row) ''sk'';
     Some \<lparr>pgk_partition = part, pgk_sort = fst row, pgk_table_pk = pk, pgk_table_sk = sk\<rparr>
   }"

definition query_page :: "page_query \<Rightarrow> (memory_store, item page) io" where
  "query_page q s =
     (let rows = query_rows q s;
          filled = (length rows = pq_limit q);
          next_key = (if \<not> filled \<or> rows = [] then None else page_key_of (pq_partition q) (last rows))
      in (Inr \<lparr>page_items = map snd rows, page_next = next_key\<rparr>, s))"

section \<open>The table\<close>

fun read_error :: "read_failure \<Rightarrow> mail_store_error" where
  "read_error ReadTransient = ErrTransient"
| "read_error ReadPermanent = ErrPermanent"

definition memory_get :: "table_key \<Rightarrow> read \<Rightarrow> (memory_store, item option) io" where
  "memory_get key r s =
     (if tk_sk key = SES_REF_SK
      then (case mem_resolve_failure s of
              Some failure \<Rightarrow> (Inl (read_error failure), s\<lparr>mem_resolve_failure := None\<rparr>)
            | None \<Rightarrow> (Inr (get_item key s), s))
      else (Inr (get_item key s), s))"

definition memory_batch_get :: "table_key list \<Rightarrow> read \<Rightarrow> (memory_store, rows) io" where
  "memory_batch_get ks r s =
     (Inr (fold (\<lambda>key found. case get_item key s of
                    None \<Rightarrow> found | Some i \<Rightarrow> found(key \<mapsto> i)) ks Map.empty), s)"

definition memory_put_if_absent :: "item \<Rightarrow> (memory_store, put_outcome) io" where
  "memory_put_if_absent i s = (case (string_attr i ''pk'', string_attr i ''sk'') of
       (Some pk, Some sk) \<Rightarrow>
         (if get_item (TableKey pk sk) s \<noteq> None then (Inr AlreadyExists, s)
          else (Inr Created, s\<lparr>mem_items := AList.update (TableKey pk sk) i (mem_items s)\<rparr>))
     | _ \<Rightarrow> (Inl ErrPermanent, s))"

definition memory_pause :: "nat \<Rightarrow> memory_store \<Rightarrow> memory_store" where
  "memory_pause n s = s"

definition memory_table :: "memory_store table" where
  "memory_table = \<lparr>tbl_get = memory_get, tbl_batch_get = memory_batch_get, tbl_query = query_page,
     tbl_put_if_absent = memory_put_if_absent, tbl_transact = attempt, tbl_pause = memory_pause\<rparr>"

section \<open>The store implements the contract of the table\<close>

definition mem_rows :: "memory_store \<Rightarrow> rows" where
  "mem_rows s = map_of (mem_items s)"

lemma mem_rows_simps [simp]:
  "mem_rows (s\<lparr>mem_attempts := n\<rparr>) = mem_rows s"
  "mem_rows (s\<lparr>mem_injected := js\<rparr>) = mem_rows s"
  "mem_rows (s\<lparr>mem_resolve_failure := f\<rparr>) = mem_rows s"
  "mem_rows (s\<lparr>mem_items := items\<rparr>) = map_of items"
  by (simp_all add: mem_rows_def)

lemma op_key_target: "op_key w = target w"
  by (cases w) (simp_all add: Option.bind_def map_option_case split: option.split)

lemma eval_cond_ok: "eval_cond items key c = cond_ok (map_of items key) c"
proof (cases c)
  case (CondAll checks)
  have "check_holds existing chk = (case chk of CheckEq name v \<Rightarrow>
      Option.bind existing (\<lambda>i. i name) = Some v)" for existing chk
    by (cases chk) (auto simp: check_holds_def split: option.split)
  then have "check_holds existing = case_check (\<lambda>name v.
      Option.bind existing (\<lambda>i. i name) = Some v)" for existing
    by (simp add: fun_eq_iff)
  with CondAll show ?thesis by simp
qed (auto simp: version_of_def [abs_def] number_attr_def split: option.split attribute_value.split)

lemma holds_ok: "holds items w key = write_ok (map_of items key) w"
  by (cases w) (simp_all add: eval_cond_ok)

lemma reason_of_ok: "reason_of items op = check_reason (op_holds (map_of items) op)"
  by (simp add: reason_of_def check_reason_def op_holds_def op_key_target holds_ok split: option.split)

lemma apply_op_rows: "map_of (apply_op (op_op op) items) = apply_write op (map_of items)"
proof (cases "op_op op")
  case (Put i c)
  then show ?thesis
    by (simp add: apply_write_def op_key_target update_conv' del: op_key.simps target.simps
        split: option.split)
next
  case (Update pk sk sets removes c)
  then show ?thesis
    by (simp add: apply_write_def update_conv' set_attrs_def Let_def)
next
  case (AliasFirstWriter pk sk mid tid expires)
  then show ?thesis
    by (auto simp: apply_write_def update_conv' alias_item_def Let_def u64_av_def opt_field_def
        fun_eq_iff split: option.split)
qed

lemma apply_ops_rows:
  "map_of (fold (\<lambda>op. apply_op (op_op op)) ops items) = txn_apply ops (map_of items)"
  unfolding txn_apply_def by (induction ops arbitrary: items) (simp_all add: apply_op_rows)

lemma batch_rows:
  "fold (\<lambda>key found. case m key of None \<Rightarrow> found | Some i \<Rightarrow> found(key \<mapsto> i)) ks f k =
     (if k \<in> set ks \<and> m k \<noteq> None then m k else f k)"
  by (induction ks arbitrary: f) (auto split: option.split)

lemma attempt_quiet:
  assumes "mem_injected s = []"
  shows "attempt ops s =
     (if txn_ok (mem_rows s) ops
      then (Inr Committed, s\<lparr>mem_attempts := mem_attempts s + 1,
              mem_items := fold (\<lambda>op. apply_op (op_op op)) ops (mem_items s)\<rparr>)
      else (Inr (Cancelled (cancel_decision (mem_rows s) ops)),
              s\<lparr>mem_attempts := mem_attempts s + 1\<rparr>))"
proof -
  have reasons: "map (reason_of (mem_items s)) ops =
      map (\<lambda>op. check_reason (op_holds (mem_rows s) op)) ops"
    by (simp add: reason_of_ok mem_rows_def)
  have "list_ex (\<lambda>r. r = ConditionalCheckFailed) (map (\<lambda>op. check_reason (okp op)) ops) =
      (\<not> list_all okp ops)" for okp :: "planned_op \<Rightarrow> bool"
    by (induction ops) auto
  with assms show ?thesis
    unfolding attempt_def txn_ok_def cancel_decision_def
    by (simp add: reasons decode_check_reasons del: map_map)
qed

lemma attempt_injected:
  "mem_injected s = f # fs \<Longrightarrow>
     attempt ops s =
       (injected_result f, s\<lparr>mem_attempts := mem_attempts s + 1, mem_injected := fs\<rparr>)"
  by (simp add: attempt_def)

lemma attempt_cases:
  assumes "attempt ops s = (res, s')"
  obtains (Commit) "txn_ok (mem_rows s) ops" "res = Inr Committed"
      "mem_rows s' = txn_apply ops (mem_rows s)"
    | (Cancel) "\<not> txn_ok (mem_rows s) ops" "mem_rows s' = mem_rows s"
      "res = Inr (Cancelled (cancel_decision (mem_rows s) ops))"
    | (Injected) f where "mem_rows s' = mem_rows s" "res = injected_result f"
proof (cases "mem_injected s")
  case Nil
  with assms Commit Cancel show ?thesis
    by (auto simp: attempt_quiet apply_ops_rows mem_rows_def split: if_splits)
next
  case (Cons f fs)
  with assms Injected show ?thesis by (auto simp: attempt_injected)
qed

lemma injected_result_cases:
  "injected_result f = Inl ErrTransient \<or> injected_result f = Inr (Cancelled Retry) \<or>
     injected_result f = Inr (Cancelled KeyExists)"
  by (cases f) simp_all

interpretation mem: mail_table memory_table mem_rows "(=)"
proof unfold_locales
  fix k r s res s'
  assume "tbl_get memory_table k r s = (res, s')"
  then show "\<exists>R. mem_rows s = R \<and> R = mem_rows s' \<and>
      (r = Consistent \<longrightarrow> (\<forall>found. res = Inr found \<longrightarrow> found = R k))"
    by (auto simp: memory_table_def memory_get_def get_item_def mem_rows_def
        split: if_splits option.splits)
next
  fix ks r s bres s'
  assume "tbl_batch_get memory_table ks r s = (bres, s')"
  then show "mem_rows s = mem_rows s' \<and>
      (\<forall>found k. bres = Inr found \<longrightarrow> r = Consistent \<longrightarrow> k \<in> set ks \<longrightarrow>
        (\<exists>R. mem_rows s = R \<and> R = mem_rows s' \<and> found k = R k))"
    by (auto simp: memory_table_def memory_batch_get_def get_item_def mem_rows_def batch_rows)
next
  fix q s qres s'
  assume "tbl_query memory_table q s = (qres, s')"
  then show "mem_rows s = mem_rows s'"
    by (auto simp: memory_table_def query_page_def Let_def)
next
  fix i s pres s'
  assume "tbl_put_if_absent memory_table i s = (pres, s')"
  then show "mem_rows s = mem_rows s' \<or> (\<exists>R k. mem_rows s = R \<and>
      target (Put i CondNotExists) = Some k \<and> R k = None \<and> R(k \<mapsto> i) = mem_rows s')"
    by (auto simp: memory_table_def memory_put_if_absent_def get_item_def mem_rows_def update_conv'
        split: option.splits if_splits)
next
  fix ops s tres s'
  assume "tbl_transact memory_table ops s = (tres, s')"
  then have "attempt ops s = (tres, s')" by (simp add: memory_table_def)
  then show "(\<exists>R. mem_rows s = R \<and> txn_ok R ops \<and> txn_apply ops R = mem_rows s' \<and>
      (tres = Inr Committed \<or> (\<exists>e. tres = Inl e))) \<or>
    (\<exists>R. mem_rows s = R \<and> R = mem_rows s' \<and>
      ((\<exists>d. tres = Inr (Cancelled d) \<and>
         (d = Retry \<or> d = KeyExists \<or> \<not> txn_ok R ops \<and> d = cancel_decision R ops)) \<or>
       (\<exists>e. tres = Inl e)))"
    by (cases rule: attempt_cases) (use injected_result_cases in fastforce)+
qed (auto simp: memory_table_def memory_pause_def)

definition mem_quiet :: "memory_store \<Rightarrow> bool" where
  "mem_quiet s \<longleftrightarrow> mem_injected s = [] \<and> mem_resolve_failure s = None"

interpretation qmem: quiet_table memory_table mem_rows "(=)" mem_quiet
proof unfold_locales
  fix s ops
  assume "mem_quiet s"
  then show "\<exists>s'. tbl_transact memory_table ops s =
      (Inr (if txn_ok (mem_rows s) ops then Committed
            else Cancelled (cancel_decision (mem_rows s) ops)), s') \<and>
      mem_rows s' = (if txn_ok (mem_rows s) ops then txn_apply ops (mem_rows s) else mem_rows s) \<and>
      mem_quiet s'"
    by (auto simp: memory_table_def attempt_quiet mem_quiet_def apply_ops_rows mem_rows_def)
qed (auto simp: memory_table_def mem_quiet_def memory_get_def memory_batch_get_def batch_rows
    memory_put_if_absent_def memory_pause_def get_item_def mem_rows_def update_conv' fun_eq_iff
    split: option.splits)

section \<open>Stored items read back\<close>


end
