(* ===== verification/Flows.thy ===== *)
theory Flows
  imports Rollup Memory
begin

text \<open>
  Every flow of the mailbox is made of the steps of \<open>Steps\<close>: over any table that keeps the
  contract of \<open>mail_table\<close>, whatever other writers do in between, a call changes the rows by
  at most one step of its own. What makes this true is the version condition on each row a
  flow was planned from, so the interface adds that a version never names two contents of
  one row.
\<close>

locale versioned_table = mail_table T rows_of env
  for T :: "'s table" and rows_of :: "'s \<Rightarrow> rows" and env :: "rows \<Rightarrow> rows \<Rightarrow> bool" +
  assumes env_versions: "env R R' \<Longrightarrow> R k = Some i \<Longrightarrow> R' k = Some i' \<Longrightarrow>
    number_attr i ''version'' = Some v \<Longrightarrow> number_attr i' ''version'' = Some v \<Longrightarrow> i' = i"
begin

definition safe :: "(string \<Rightarrow> 'm option) \<Rightarrow> 's \<Rightarrow> bool" where
  "safe pp s \<longleftrightarrow> (\<forall>R. env (rows_of s) R \<longrightarrow> table_wf pp R)"

definition moves :: "(string \<Rightarrow> 'm option) \<Rightarrow> 's \<Rightarrow> 's \<Rightarrow> bool" where
  "moves pp s s' \<longleftrightarrow> env (rows_of s) (rows_of s') \<or>
     (\<exists>R R'. env (rows_of s) R \<and> mail_step pp R R' \<and> env R' (rows_of s'))"

lemma moves_env: "env (rows_of s) (rows_of s') \<Longrightarrow> moves pp s s'"
  by (simp add: moves_def)

lemma env_moves: "env (rows_of s) (rows_of s1) \<Longrightarrow> moves pp s1 s' \<Longrightarrow> moves pp s s'"
  unfolding moves_def using env_trans by blast

lemma safe_env: "safe pp s \<Longrightarrow> env (rows_of s) (rows_of s1) \<Longrightarrow> safe pp s1"
  unfolding safe_def using env_trans by blast

lemma get_env: "tbl_get T k r s = (res, s') \<Longrightarrow> env (rows_of s) (rows_of s')"
  using get_law env_trans by blast

lemma get_as_env: "get_as T of_item k r s = (res, s') \<Longrightarrow> env (rows_of s) (rows_of s')"
  by (auto simp: get_as_def elim!: try_io_cases dest: get_env)

lemma get_as_consistent:
  assumes "get_as T of_item k Consistent s = (Inr found, s')"
  obtains R where "env (rows_of s) R" and "env R (rows_of s')"
    and "case found of None \<Rightarrow> R k = None | Some a \<Rightarrow> \<exists>i. R k = Some i \<and> of_item i = Some a"
proof -
  from assms obtain row where get: "tbl_get T k Consistent s = (Inr row, s')"
    and dec: "decode of_item row = Inr found"
    by (auto simp: get_as_def elim!: try_io_cases)
  from get_law [OF get] obtain R where R: "env (rows_of s) R" "env R (rows_of s')" "row = R k" by auto
  have "case found of None \<Rightarrow> row = None | Some a \<Rightarrow> \<exists>i. row = Some i \<and> of_item i = Some a"
    using dec by (cases row; cases "of_item (the row)") (auto simp: decode_def)
  then show ?thesis unfolding R(3) by (rule that [OF R(1,2)])
qed

lemma transact_cases:
  assumes "tbl_transact T ops s = (res, s')"
  obtains (Commit) R where "env (rows_of s) R" and "txn_ok R ops"
      and "env (txn_apply ops R) (rows_of s')" and "res = Inr Committed \<or> (\<exists>e. res = Inl e)"
    | (Keep) "env (rows_of s) (rows_of s')" and "res \<noteq> Inr Committed"
  using transact_law [OF assms] env_trans by (elim disjE exE conjE) (blast | auto)+

lemma read_aliases_env:
  "read_aliases T inbox ids s = (res, s') \<Longrightarrow> env (rows_of s) (rows_of s')"
  by (auto simp: read_aliases_def batch_get_as_def env_refl split: if_splits
      elim!: try_io_cases dest: batch_get_law)

text \<open>What was read is still the row when a transaction conditioned on its version commits.\<close>

lemma still_row:
  assumes "env R1 R" and "R1 k = Some i" and "number_attr i ''version'' = Some v"
    and "Option.bind (R k) (\<lambda>i. number_attr i ''version'') = Some v"
  shows "R k = Some i"
  using assms env_versions [OF assms(1,2) _ assms(3)] by (auto simp: bind_eq_Some_conv)

lemma read_thread_at_commit:
  assumes read: "read_thread T i t s = (Inr before, s1)" and safe: "safe pp s"
    and commit: "env (rows_of s1) R"
    and cond: "\<And>k. k = (case before of None \<Rightarrow> thread_key i t
                  | Some th \<Rightarrow> thread_key (thr_inbox_id th) (thr_thread_id th)) \<Longrightarrow>
      cond_ok (R k) (versioned (map_option thr_version before))"
  shows "thread_read R i t before"
proof -
  from read [unfolded read_thread_def] obtain R1 where R1: "env (rows_of s) R1" "env R1 (rows_of s1)"
    and found: "case before of None \<Rightarrow> R1 (thread_key i t) = None
      | Some a \<Rightarrow> \<exists>it. R1 (thread_key i t) = Some it \<and> thread_of_item it = Some a"
    by (rule get_as_consistent)
  show ?thesis
  proof (cases before)
    case None
    with cond show ?thesis by (simp add: thread_read_def versioned_def)
  next
    case (Some th)
    then obtain it where it: "R1 (thread_key i t) = Some it" "thread_of_item it = Some th"
      using found by auto
    have "table_wf pp R1" using safe R1(1) by (simp add: safe_def)
    from table_wf_reads(2) [OF this, of i t th] it
    have ids: "thr_inbox_id th = i" "thr_thread_id th = t" by (simp_all add: thread_at_def)
    have "R (thread_key i t) = Some it"
      using still_row [OF env_trans [OF R1(2) commit] it(1) thread_of_item_number [OF it(2)]]
        cond ids Some by (simp add: versioned_def)
    with Some it show ?thesis by (simp add: thread_read_def thread_at_def)
  qed
qed

lemma read_message_at_commit:
  assumes read: "read_message T i m s = (Inr (Some msg), s1)"
    and commit: "env (rows_of s1) R"
    and cond: "Option.bind (R (message_key i m)) (\<lambda>i. number_attr i ''version'') = Some (msg_version msg)"
  shows "message_at R i m = Some msg"
proof -
  from read [unfolded read_message_def] obtain R1 it where R1: "env R1 (rows_of s1)"
    and it: "R1 (message_key i m) = Some it" "message_of_item it = Some msg"
    by (rule get_as_consistent) auto
  have "R (message_key i m) = Some it"
    using still_row [OF env_trans [OF R1 commit] it(1) message_of_item_number [OF it(2)] cond] .
  with it show ?thesis by (simp add: message_at_def)
qed

lemma read_message_ids:
  assumes "read_message T i m s = (Inr (Some msg), s1)" and "safe pp s"
  shows "msg_inbox_id msg = i \<and> msg_message_id msg = m \<and> message_ok msg"
proof -
  from assms(1) [unfolded read_message_def] obtain R1 it where R1: "env (rows_of s) R1"
    and it: "R1 (message_key i m) = Some it" "message_of_item it = Some msg"
    by (rule get_as_consistent) auto
  then show ?thesis
    using assms(2) table_wf_reads(1) [of pp R1 i m msg] by (simp add: safe_def message_at_def)
qed

text \<open>
  The end of every flow: its transaction is a step if it commits, and what follows a
  cancellation starts from rows the flow did not touch.
\<close>

lemma moves_transact:
  assumes run: "try_io (tbl_transact T ops) f s = (res, s')"
    and step: "\<And>R. env (rows_of s) R \<Longrightarrow> txn_ok R ops \<Longrightarrow> mail_step pp R (txn_apply ops R)"
    and stop: "\<And>s1. snd (f Committed s1) = s1"
    and go: "\<And>d s1. env (rows_of s) (rows_of s1) \<Longrightarrow> f (Cancelled d) s1 = (res, s') \<Longrightarrow> moves pp s1 s'"
  shows "moves pp s s'"
  using run
proof (cases rule: try_io_cases)
  case (Fail e)
  from Fail(1) show ?thesis
    by (cases rule: transact_cases) (auto simp: moves_def intro: step)
next
  case (Go out s1)
  from Go(1) show ?thesis
  proof (cases rule: transact_cases)
    case (Commit R)
    then have "out = Committed" by auto
    with Go(2) stop [of s1] have "s' = s1" by simp
    with Commit show ?thesis by (auto simp: moves_def intro: step)
  next
    case Keep
    then obtain d where "out = Cancelled d" by (cases out) auto
    with go [OF Keep(1)] Go(2) show ?thesis by (blast intro: env_moves [OF Keep(1)])
  qed
qed

lemma pause_moves:
  "(\<And>s0. safe pp s0 \<Longrightarrow> env (rows_of s) (rows_of s0) \<Longrightarrow> m s0 = (res, s') \<Longrightarrow> moves pp s0 s') \<Longrightarrow>
     safe pp s \<Longrightarrow> m (tbl_pause T n s) = (res, s') \<Longrightarrow> moves pp s s'"
  using pause_law [of s n] safe_env env_moves by blast

section \<open>Ingest\<close>

lemma insert_step:
  assumes read: "read_thread T (msg_inbox_id msg) (msg_thread_id msg) s = (Inr before, s1)"
    and safe: "safe pp s" and env: "env (rows_of s1) R" and ok: "message_ok msg"
    and commit: "txn_ok R (plan_insert msg before (thread_for pp msg before) aliases)"
  shows "mail_step pp R (txn_apply (plan_insert msg before (thread_for pp msg before) aliases) R)"
proof (rule step_insert [OF ok _ refl commit])
  show "thread_read R (msg_inbox_id msg) (msg_thread_id msg) before"
    using commit
    by (intro read_thread_at_commit [OF read safe env])
      (auto simp: plan_insert_def Let_def thread_for_def new_thread_def split: option.splits)
qed

lemma insert_loop_moves:
  "insert_loop pp T tid msg candidates as s = (res, s') \<Longrightarrow> message_ok msg \<Longrightarrow> safe pp s \<Longrightarrow>
     moves pp s s'"
proof (induction as arbitrary: msg s)
  case Nil
  then show ?case by (simp add: moves_env env_refl)
next
  case (Cons n as)
  show ?case
    using Cons.prems(1) unfolding insert_loop.simps
    apply (cases rule: try_io_cases)
    subgoal by (rule moves_env [OF read_aliases_env])
    subgoal premises al for found s1
    proof -
      define aliases where "aliases = \<lparr>al_candidates = candidates, al_found = found\<rparr>"
      define msg' where "msg' = msg\<lparr>msg_thread_id := (case alias_thread_id aliases of
        None \<Rightarrow> tid | Some t \<Rightarrow> t)\<rparr>"
      have ok': "message_ok msg'" using Cons.prems(2) by (simp add: msg'_def message_ok_def)
      note env1 = read_aliases_env [OF al(1)]
      note safe1 = safe_env [OF Cons.prems(3) env1]
      have "moves pp s1 s'"
        using al(2) [unfolded Let_def, folded aliases_def, folded msg'_def]
        apply (cases rule: try_io_cases)
        subgoal by (auto simp: read_thread_def intro: moves_env get_as_env)
        subgoal premises th for before s2
        proof -
          have env2: "env (rows_of s1) (rows_of s2)"
            using th(1) unfolding read_thread_def by (rule get_as_env)
          note safe2 = safe_env [OF safe1 env2]
          have "moves pp s2 s'"
            apply (rule moves_transact [OF th(2)])
            subgoal by (rule insert_step [OF th(1) safe1 _ ok'])
            subgoal by simp
            subgoal for d s3
              using safe_env [OF safe2, of s3] Cons.IH [OF _ ok'] pause_moves [OF Cons.IH [OF _ ok']]
              by (cases d) (auto simp: moves_env env_refl)
            done
          then show ?thesis by (rule env_moves [OF env2])
        qed
        done
      then show ?thesis by (rule env_moves [OF env1])
    qed
    done
qed

section \<open>Sending\<close>

definition send_request_ok :: "mail_message \<Rightarrow> send_state \<Rightarrow> bool" where
  "send_request_ok msg state \<longleftrightarrow> message_ok msg \<and> snd_message_id state = msg_message_id msg \<and>
     snd_inbox_id state = msg_inbox_id msg \<and> snd_send_status state = Queued"

lemma enqueue_step:
  assumes read: "read_thread T (msg_inbox_id msg) (msg_thread_id msg) s = (Inr before, s1)"
    and safe: "safe pp s" and env: "env (rows_of s1) R" and ok: "send_request_ok msg state"
    and plan: "plan_enqueue msg state key before (thread_for pp msg before) now_epoch = Inr planned"
    and commit: "txn_ok R (drop_taken_aliases planned taken)"
  shows "mail_step pp R (txn_apply (drop_taken_aliases planned taken) R)"
proof -
  obtain ks as where shape: "drop_taken_aliases planned taken =
      ks @ [put_message (stored_message msg (thread_for pp msg before)) CondNotExists,
        put_send_state state CondNotExists,
        put_thread (thread_for pp msg before) (versioned (map_option thr_version before))] @ as"
    by (rule enqueue_shape [OF plan])
  have "thread_read R (msg_inbox_id msg) (msg_thread_id msg) before"
    using commit
    by (intro read_thread_at_commit [OF read safe env])
      (auto simp: shape thread_for_def new_thread_def split: option.splits)
  with ok show ?thesis
    unfolding send_request_ok_def by (intro step_enqueue [OF _ _ _ _ _ plan refl commit]) simp_all
qed

lemma enqueue_loop_moves:
  "enqueue_loop pp T msg state key now_epoch taken as s = (res, s') \<Longrightarrow> send_request_ok msg state \<Longrightarrow>
     safe pp s \<Longrightarrow> moves pp s s'"
proof (induction as arbitrary: taken s)
  case Nil
  then show ?case by (simp add: moves_env env_refl)
next
  case (Cons n as)
  note ok = Cons.prems(2)
  show ?case
    using Cons.prems(1) unfolding enqueue_loop.simps
    apply (cases rule: try_io_cases)
    subgoal by (auto simp: read_thread_def intro: moves_env get_as_env)
    subgoal premises th for before s1
    proof (cases "plan_enqueue msg state key before (thread_for pp msg before) now_epoch")
      case (Inl e)
      with th show ?thesis by (auto simp: read_thread_def intro!: moves_env dest: get_as_env)
    next
      case (Inr planned)
      have env1: "env (rows_of s) (rows_of s1)"
        using th(1) unfolding read_thread_def by (rule get_as_env)
      note safe1 = safe_env [OF Cons.prems(3) env1]
      have "moves pp s1 s'"
        apply (rule moves_transact [OF th(2) [unfolded Let_def Inr sum.case]])
        subgoal by (rule enqueue_step [OF th(1) Cons.prems(3) _ ok Inr])
        subgoal by simp
        subgoal for d s2
          using safe_env [OF safe1, of s2] Cons.IH [OF _ ok] pause_moves [OF Cons.IH [OF _ ok]]
          by (cases d) (auto simp: moves_env env_refl)
        done
      then show ?thesis by (rule env_moves [OF env1])
    qed
    done
qed

text \<open>A state the caller holds is genuine when it is the row whenever its version is the row's.\<close>

definition genuine :: "'s \<Rightarrow> send_state \<Rightarrow> bool" where
  "genuine s st \<longleftrightarrow> (\<forall>R c. env (rows_of s) R \<longrightarrow> send_at R (snd_message_id st) = Some c \<longrightarrow>
     snd_version c = snd_version st \<longrightarrow> c = st)"

lemma genuine_env: "genuine s st \<Longrightarrow> env (rows_of s) (rows_of s1) \<Longrightarrow> genuine s1 st"
  unfolding genuine_def using env_trans by blast

lemma genuine_at_commit:
  assumes "genuine s st" and "safe pp s" and "env (rows_of s) R"
    and "Option.bind (R (send_state_key (snd_message_id st))) (\<lambda>i. number_attr i ''version'') =
      Some (snd_version st)"
  shows "send_at R (snd_message_id st) = Some st"
proof -
  obtain it where it: "R (send_state_key (snd_message_id st)) = Some it"
    "number_attr it ''version'' = Some (snd_version st)"
    using assms(4) by (auto simp: bind_eq_Some_conv)
  have "sends_wf R" using assms(2,3) by (simp add: safe_def table_wf_def)
  with it(1) obtain c where c: "send_state_of_item it = Some c"
    using sends_wf_row send_state_of_send_state_item by blast
  then have at: "send_at R (snd_message_id st) = Some c" using it by (simp add: send_at_def)
  have "snd_version c = snd_version st"
    using send_state_of_item_number [OF c] it(2) by simp
  with assms(1,3) at show ?thesis unfolding genuine_def by blast
qed

lemma cas_version:
  "txn_ok R (plan_state_cas before after expected) \<Longrightarrow> snd_message_id after = snd_message_id before \<Longrightarrow>
     Option.bind (R (send_state_key (snd_message_id before))) (\<lambda>i. number_attr i ''version'') =
       Some (snd_version before)"
  by (auto simp: plan_state_cas_def bind_eq_Some_conv number_attr_def u64_av_def)

lemma read_send_state_genuine:
  assumes "read_send_state T m s = (Inr (Some st), s1)" and "safe pp s"
  shows "genuine s1 st \<and> snd_message_id st = m"
proof -
  from assms(1) [unfolded read_send_state_def] obtain R1 it where R1: "env (rows_of s) R1"
    "env R1 (rows_of s1)" and it: "R1 (send_state_key m) = Some it" "send_state_of_item it = Some st"
    by (rule get_as_consistent) auto
  have id: "snd_message_id st = m"
    using assms(2) table_wf_reads(3) [of pp R1 m st] R1 it by (simp add: safe_def send_at_def)
  have "c = st" if env: "env (rows_of s1) R" and c: "send_at R m = Some c"
    and v: "snd_version c = snd_version st" for R c
  proof -
    obtain it' where it': "R (send_state_key m) = Some it'" "send_state_of_item it' = Some c"
      using c by (auto simp: send_at_def bind_eq_Some_conv)
    have "it' = it"
      using env_versions [OF env_trans [OF R1(2) env] it(1) it'(1) send_state_of_item_number [OF it(2)]]
        send_state_of_item_number [OF it'(2)] v by simp
    with it it' show ?thesis by simp
  qed
  with id show ?thesis by (simp add: genuine_def)
qed

lemma claim_loop_moves:
  "claim_loop T m now as s = (res, s') \<Longrightarrow> safe pp s \<Longrightarrow> moves pp s s'"
proof (induction as arbitrary: s)
  case Nil
  then show ?case by (simp add: moves_env env_refl)
next
  case (Cons n as)
  show ?case
    using Cons.prems(1) unfolding claim_loop.simps
    apply (cases rule: try_io_cases)
    subgoal by (auto simp: read_send_state_def intro: moves_env get_as_env)
    subgoal premises rd for found s1
    proof -
      have env1: "env (rows_of s) (rows_of s1)"
        using rd(1) unfolding read_send_state_def by (rule get_as_env)
      note safe1 = safe_env [OF Cons.prems(2) env1]
      show ?thesis
      proof (cases "\<exists>before. found = Some before \<and> snd_send_status before = Queued")
        case False
        with rd env1 show ?thesis by (cases found) (auto intro: moves_env)
      next
        case True
        then obtain before where found: "found = Some before" "snd_send_status before = Queued" by blast
        note gen = read_send_state_genuine [OF rd(1) [unfolded found(1)] Cons.prems(2)]
        have "moves pp s1 s'"
          apply (rule moves_transact [OF rd(2) [unfolded found option.case Let_def, simplified found, simplified]])
          subgoal for R
            using genuine_at_commit [OF _ safe1, of before R] gen cas_version [of R before]
            by (intro step_claim [OF _ refl]) simp_all
          subgoal by simp
          subgoal for d s2
            using safe_env [OF safe1, of s2] Cons.IH pause_moves [OF Cons.IH]
            by (auto simp: moves_env env_refl split: if_splits)
          done
        then show ?thesis by (rule env_moves [OF env1])
      qed
    qed
    done
qed

lemma note_loop_moves:
  "note_loop T (plan_state_cas claim (calling_ses claim now) Sending) after as s = (res, s') \<Longrightarrow>
     safe pp s \<Longrightarrow> genuine s claim \<Longrightarrow> moves pp s s'"
proof (induction as arbitrary: s)
  case Nil
  then show ?case by (simp add: moves_env env_refl)
next
  case (Cons n as)
  show ?case
    apply (rule moves_transact [OF Cons.prems(1) [unfolded note_loop.simps]])
    subgoal for R
      using genuine_at_commit [OF Cons.prems(3,2), of R] cas_version [of R claim]
      by (intro step_note [OF _ refl]) simp_all
    subgoal by simp
    subgoal premises go for d s1
    proof -
      have "moves pp s1 s'"
        if "note_loop T (plan_state_cas claim (calling_ses claim now) Sending) after as
          (tbl_pause T n s1) = (res, s')"
        using that Cons.prems(2,3) go(1)
        by (intro env_moves [OF pause_law Cons.IH]) (blast intro: safe_env genuine_env pause_law)+
      with go(2) show ?thesis by (auto simp: moves_env env_refl split: if_splits)
    qed
    done
qed

lemma mark_thread_env:
  "mark_thread T msg labels now s = (res, s') \<Longrightarrow> env (rows_of s) (rows_of s')"
  by (auto simp: mark_thread_def read_thread_def env_refl split: prod.splits if_splits option.splits
      elim!: try_io_cases dest: get_as_env)

lemma mark_thread_at_commit:
  assumes run: "mark_thread T msg labels now s = (Inr thread, s1)" and safe: "safe pp s"
    and env: "env (rows_of s1) R"
    and changes: "label_changes (msg_labels msg) labels = (added, removed)"
    and commit: "\<And>tb ta. thread = Some (tb, ta) \<Longrightarrow>
      op_holds R (put_thread ta (CondVersionEquals (thr_version tb)))"
  shows "if added = [] \<and> removed = [] then thread = None
    else \<exists>before. thread_at R (msg_inbox_id msg) (msg_thread_id msg) = Some before \<and>
      thread = Some (before, apply_label_patch before added removed now)"
proof (cases "added = [] \<and> removed = []")
  case True
  with run changes show ?thesis by (simp add: mark_thread_def)
next
  case False
  with run changes obtain before where
    read: "read_thread T (msg_inbox_id msg) (msg_thread_id msg) s = (Inr (Some before), s1)"
    and thread: "thread = Some (before, apply_label_patch before added removed now)"
    by (auto simp: mark_thread_def split: option.splits elim!: try_io_cases)
  have "thread_read R (msg_inbox_id msg) (msg_thread_id msg) (Some before)"
    by (rule read_thread_at_commit [OF read safe env]) (use commit [OF thread] in \<open>simp add: versioned_def\<close>)
  with False thread show ?thesis by (simp add: thread_read_def)
qed

lemma mark_step:
  assumes rm: "read_message T (snd_inbox_id state) (snd_message_id state) s = (Inr (Some msg), s1)"
    and tr: "mark_transition state msg outcome now = (after, labels, ses)"
    and mt: "mark_thread T msg labels now s1 = (Inr thread, s2)"
    and safe: "safe pp s" and gen: "genuine s state" and env: "env (rows_of s2) R"
    and commit: "txn_ok R (drop_taken_aliases (plan_mark state after msg labels thread ses now) taken)"
  shows "mail_step pp R
    (txn_apply (drop_taken_aliases (plan_mark state after msg labels thread ses now) taken) R)"
proof -
  have env1: "env (rows_of s) (rows_of s1)" using rm unfolding read_message_def by (rule get_as_env)
  note env2 = mark_thread_env [OF mt]
  note envR = env_trans [OF env_trans [OF env1 env2] env]
  obtain added removed where changes: "label_changes (msg_labels msg) labels = (added, removed)"
    by fastforce
  obtain as refs where shape:
    "drop_taken_aliases (plan_mark state after msg labels thread ses now) taken =
      [put_send_state after (CondVersionEquals (snd_version state)),
       update_message_labels msg labels now
         ((''send_status'', AvS (send_status_str (snd_send_status after))) #
          (case ses of None \<Rightarrow> []
           | Some x \<Rightarrow> [(''ses_message_id'', AvS (ses_sent_message_id x)), (''sent_at'', AvS now)]))]
      @ (case thread of None \<Rightarrow> []
         | Some (tb, ta) \<Rightarrow> [put_thread ta (CondVersionEquals (thr_version tb))])
      @ as @ refs" by (rule mark_shape)
  have id: "snd_message_id after = snd_message_id state" using mark_transition_frame [OF tr] by simp
  have ids: "msg_inbox_id msg = snd_inbox_id state" "msg_message_id msg = snd_message_id state"
    using read_message_ids [OF rm safe] by simp_all
  have state: "send_at R (snd_message_id state) = Some state"
    using commit by (intro genuine_at_commit [OF gen safe envR]) (simp add: shape id)
  have msg: "message_at R (snd_inbox_id state) (snd_message_id state) = Some msg"
    using commit by (intro read_message_at_commit [OF rm env_trans [OF env2 env]]) (simp add: shape ids)
  have "op_holds R (put_thread ta (CondVersionEquals (thr_version tb)))"
    if "thread = Some (tb, ta)" for tb ta
    using commit that unfolding shape by simp
  from mark_thread_at_commit [OF mt safe_env [OF safe env1] env changes this]
  show ?thesis by (rule step_mark [OF state msg tr changes _ refl commit])
qed

lemma mark_recheck_moves:
  assumes "try_io (read_send_state T m) (\<lambda>current. case current of
        None \<Rightarrow> err ErrConflict
      | Some c \<Rightarrow> if snd_version c \<noteq> v then err ErrConflict
                  else (\<lambda>s. loop (tbl_pause T n s))) s = (res, s')"
    and "\<And>s0. env (rows_of s) (rows_of s0) \<Longrightarrow> loop s0 = (res, s') \<Longrightarrow> moves pp s s'"
  shows "moves pp s s'"
  using assms(1)
proof (cases rule: try_io_cases)
  case (Fail e)
  then show ?thesis by (auto simp: read_send_state_def intro: moves_env get_as_env)
next
  case (Go found s1)
  have env1: "env (rows_of s) (rows_of s1)"
    using Go(1) unfolding read_send_state_def by (rule get_as_env)
  with Go(2) assms(2) [OF env_trans [OF env1 pause_law]] show ?thesis
    by (auto simp: moves_env split: option.splits if_splits)
qed

lemma mark_loop_moves:
  "mark_loop T state outcome now taken as s = (res, s') \<Longrightarrow> safe pp s \<Longrightarrow> genuine s state \<Longrightarrow>
     moves pp s s'"
proof (induction as arbitrary: taken s)
  case Nil
  then show ?case by (simp add: moves_env env_refl)
next
  case (Cons n as)
  have again: "moves pp s1 s'"
    if "mark_loop T state outcome now tk as s0 = (res, s')" "env (rows_of s) (rows_of s1)"
      "env (rows_of s1) (rows_of s0)" for tk s0 s1
    using that Cons.prems(2,3)
    by (intro env_moves [OF that(3) Cons.IH [OF that(1)]]) (blast intro: safe_env genuine_env env_trans)+
  show ?case
    using Cons.prems(1) unfolding mark_loop.simps
    apply (cases rule: try_io_cases)
    subgoal by (auto simp: read_message_def intro: moves_env get_as_env)
    subgoal premises rm for found s1
    proof (cases found)
      case None
      with rm show ?thesis by (auto simp: read_message_def intro!: moves_env dest: get_as_env)
    next
      case (Some msg)
      note read = rm(1) [unfolded Some]
      have env1: "env (rows_of s) (rows_of s1)" using read unfolding read_message_def by (rule get_as_env)
      obtain after labels ses where tr: "mark_transition state msg outcome now = (after, labels, ses)"
        by (cases "mark_transition state msg outcome now")
      have "moves pp s1 s'"
        using rm(2) [unfolded Some option.case tr Let_def prod.case]
        apply (cases rule: try_io_cases)
        subgoal by (rule moves_env [OF mark_thread_env])
        subgoal premises mt for thread s2
        proof -
          note env2 = mark_thread_env [OF mt(1)]
          have "moves pp s2 s'"
            apply (rule moves_transact [OF mt(2)])
            subgoal by (rule mark_step [OF read tr mt(1) Cons.prems(2,3)])
            subgoal by simp
            subgoal premises go for d s3
            proof -
              have env3: "env (rows_of s) (rows_of s3)" using env1 env2 go(1) env_trans by blast
              show ?thesis
                using go(2) again [OF _ env3 pause_law] again [OF _ env3 env_refl]
                by (cases d) (auto simp: moves_env env_refl
                    elim: mark_recheck_moves intro: again [OF _ env3])
            qed
            done
          then show ?thesis by (rule env_moves [OF env2])
        qed
        done
      then show ?thesis by (rule env_moves [OF env1])
    qed
    done
qed

section \<open>Labels and inboxes\<close>

lemma patch_step:
  assumes rm: "read_message T inbox m s = (Inr (Some msg), s1)"
    and rt: "read_thread T inbox (msg_thread_id msg) s1 = (Inr (Some before), s2)"
    and plan: "plan_patch msg (patch_result p) before
      (apply_label_patch before (patch_added p) (patch_removed p) now) now = Inr ops"
    and p: "p = patch_labels (msg_labels msg) add remove"
    and safe: "safe pp s" and env: "env (rows_of s2) R" and commit: "txn_ok R ops"
  shows "mail_step pp R (txn_apply ops R)"
proof -
  have env1: "env (rows_of s) (rows_of s1)" using rm unfolding read_message_def by (rule get_as_env)
  have env2: "env (rows_of s1) (rows_of s2)" using rt unfolding read_thread_def by (rule get_as_env)
  have ops: "ops = [update_message_labels msg (patch_result p) now [],
      put_thread (apply_label_patch before (patch_added p) (patch_removed p) now)
        (versioned (Some (thr_version before)))]"
    using plan by (auto simp: plan_patch_def split: sum.splits)
  have ids: "msg_inbox_id msg = inbox" "msg_message_id msg = m"
    using read_message_ids [OF rm safe] by simp_all
  have msg: "message_at R inbox m = Some msg"
    using commit by (intro read_message_at_commit [OF rm env_trans [OF env2 env]]) (simp add: ops ids)
  have "thread_read R inbox (msg_thread_id msg) (Some before)"
    using commit
    by (intro read_thread_at_commit [OF rt safe_env [OF safe env1] env]) (simp add: ops versioned_def)
  then have "thread_at R inbox (msg_thread_id msg) = Some before" by (simp add: thread_read_def)
  from step_patch [OF msg this p plan commit] show ?thesis .
qed

lemma update_labels_loop_moves:
  "update_labels_loop T inbox m add remove now as s = (res, s') \<Longrightarrow> safe pp s \<Longrightarrow> moves pp s s'"
proof (induction as arbitrary: s)
  case Nil
  then show ?case by (simp add: moves_env env_refl)
next
  case (Cons n as)
  show ?case
    using Cons.prems(1) unfolding update_labels_loop.simps
    apply (cases rule: try_io_cases)
    subgoal by (auto simp: read_message_def intro: moves_env get_as_env)
    subgoal premises rm for found s1
    proof (cases found)
      case None
      with rm show ?thesis by (auto simp: read_message_def intro!: moves_env dest: get_as_env)
    next
      case (Some msg)
      note read = rm(1) [unfolded Some]
      have env1: "env (rows_of s) (rows_of s1)" using read unfolding read_message_def by (rule get_as_env)
      define p where "p = patch_labels (msg_labels msg) add remove"
      have "moves pp s1 s'"
        using rm(2) [unfolded Some option.case]
        apply (cases rule: try_io_cases)
        subgoal by (auto simp: read_thread_def intro: moves_env get_as_env)
        subgoal premises rt for thread s2
        proof -
          have env2: "env (rows_of s1) (rows_of s2)"
            using rt(1) unfolding read_thread_def by (rule get_as_env)
          have safe2: "safe pp s2" using Cons.prems(2) env1 env2 by (blast intro: safe_env)
          have "moves pp s2 s'"
          proof (cases thread)
            case None
            with rt(2) show ?thesis by (simp add: moves_env env_refl)
          next
            case (Some before)
            show ?thesis
            proof (cases "patch_added p = [] \<and> patch_removed p = []")
              case True
              with rt(2) Some show ?thesis by (simp add: p_def moves_env env_refl)
            next
              case changed: False
              let ?th = "apply_label_patch before (patch_added p) (patch_removed p) now"
              show ?thesis
              proof (cases "plan_patch msg (patch_result p) before ?th now")
                case (Inl e)
                with rt(2) Some show ?thesis
                  by (simp add: Let_def moves_env env_refl flip: p_def split: if_splits)
              next
                case (Inr ops)
                show ?thesis
                  apply (rule moves_transact [OF rt(2) [unfolded Some option.case Let_def,
                        folded p_def, unfolded if_not_P [OF changed] Inr sum.case]])
                  subgoal by (rule patch_step [OF read rt(1) [unfolded Some] Inr p_def Cons.prems(2)])
                  subgoal by simp
                  subgoal for d s3
                    using safe_env [OF safe2, of s3] Cons.IH pause_moves [OF Cons.IH]
                    by (auto simp: moves_env env_refl split: if_splits)
                  done
              qed
            qed
          qed
          then show ?thesis by (rule env_moves [OF env2])
        qed
        done
      then show ?thesis by (rule env_moves [OF env1])
    qed
    done
qed

lemma ensure_inbox_moves:
  assumes "ensure_inbox T inbox now s = (res, s')"
  shows "moves pp s s'"
proof -
  have item: "target (Put (snd (inbox_item inbox now)) CondNotExists) = Some (inbox_key inbox)"
    by (rule target_put) (simp_all add: inbox_item_def Let_def)
  have put: "moves pp s s1" if run: "tbl_put_if_absent T (snd (inbox_item inbox now)) s = (r, s1)" for r s1
    using put_law [OF run]
  proof (elim disjE exE conjE)
    fix R k
    assume R: "env (rows_of s) R" "target (Put (snd (inbox_item inbox now)) CondNotExists) = Some k"
      "R k = None" "env (R(k \<mapsto> snd (inbox_item inbox now))) (rows_of s1)"
    then have k: "k = inbox_key inbox" using item by simp
    from step_inbox [of R inbox pp now] R show ?thesis unfolding moves_def k by blast
  qed (rule moves_env)
  from assms show ?thesis
    unfolding ensure_inbox_def
  proof (simp add: split_beta, elim try_io_cases)
    fix e
    assume "tbl_put_if_absent T (snd (inbox_item inbox now)) s = (Inl e, s')"
    then show ?thesis by (rule put)
  next
    fix out s1
    assume run: "tbl_put_if_absent T (snd (inbox_item inbox now)) s = (Inr out, s1)"
      and rest: "(case out of Created \<Rightarrow> ok (fst (inbox_item inbox now))
        | AlreadyExists \<Rightarrow> try_io (get_as T inbox_of_item (inbox_key inbox) Consistent)
            (case_option (err ErrTransient) ok)) s1 = (res, s')"
    have "env (rows_of s1) (rows_of s')"
      using rest by (cases out) (auto simp: env_refl split: option.splits elim!: try_io_cases dest: get_as_env)
    with put [OF run] show ?thesis unfolding moves_def using env_trans by blast
  qed
qed

end

section \<open>The mailbox over the in-memory store\<close>

interpretation vmem: versioned_table memory_table mem_rows "(=)"
  by unfold_locales simp

text \<open>A session with the mailbox: the calls a client makes, and the failures a test injects.\<close>

datatype mailbox_call =
    CallEnsure inbox_id string
  | CallInsert mail_message "string list"
  | CallEnqueue mail_message send_state "send_key option" u64
  | CallClaim message_id string
  | CallNote send_state string
  | CallMark send_state mark_outcome string
  | CallLabels inbox_id message_id "string list" "string list" string
  | CallInject injected

fun exec :: "(string \<Rightarrow> 'm option) \<Rightarrow> mailbox_call \<Rightarrow> memory_store \<Rightarrow> memory_store" where
  "exec pp (CallEnsure inbox now) s = snd (ensure_inbox memory_table inbox now s)"
| "exec pp (CallInsert msg candidates) s = snd (insert_message pp memory_table msg candidates s)"
| "exec pp (CallEnqueue msg state key now_epoch) s =
     snd (enqueue_send pp memory_table msg state key now_epoch s)"
| "exec pp (CallClaim m now) s = snd (claim_send memory_table m now s)"
| "exec pp (CallNote claim now) s = snd (note_ses_call memory_table claim now s)"
| "exec pp (CallMark state outcome now) s = snd (mark_send memory_table state outcome now s)"
| "exec pp (CallLabels inbox m add remove now) s =
     snd (update_labels memory_table inbox m add remove now s)"
| "exec pp (CallInject failure) s = inject failure s"

text \<open>
  What a caller owes: labels in order, an inbox without the separator of alias keys, a send
  state made for its message, and no state it did not get from the store.
\<close>

definition state_from_store :: "memory_store \<Rightarrow> send_state \<Rightarrow> bool" where
  "state_from_store s st = (case send_at (mem_rows s) (snd_message_id st) of
       None \<Rightarrow> True | Some c \<Rightarrow> snd_version c = snd_version st \<longrightarrow> c = st)"

fun call_ok :: "memory_store \<Rightarrow> mailbox_call \<Rightarrow> bool" where
  "call_ok s (CallInsert msg candidates) = message_ok msg"
| "call_ok s (CallEnqueue msg state key now_epoch) =
     (message_ok msg \<and> snd_message_id state = msg_message_id msg \<and>
      snd_inbox_id state = msg_inbox_id msg \<and> snd_send_status state = Queued)"
| "call_ok s (CallNote claim now) = state_from_store s claim"
| "call_ok s (CallMark state outcome now) = state_from_store s state"
| "call_ok s _ = True"

fun calls_ok :: "(string \<Rightarrow> 'm option) \<Rightarrow> memory_store \<Rightarrow> mailbox_call list \<Rightarrow> bool" where
  "calls_ok pp s [] = True"
| "calls_ok pp s (c # cs) = (call_ok s c \<and> calls_ok pp (exec pp c s) cs)"

lemma vmem_moves:
  "vmem.moves pp s s' \<longleftrightarrow> mem_rows s' = mem_rows s \<or> mail_step pp (mem_rows s) (mem_rows s')"
  by (auto simp: vmem.moves_def)

lemma vmem_genuine: "state_from_store s st \<Longrightarrow> vmem.genuine s st"
  by (auto simp: vmem.genuine_def state_from_store_def)

lemma exec_moves:
  assumes "call_ok s c" and "table_wf pp (mem_rows s)"
  shows "mem_rows (exec pp c s) = mem_rows s \<or> mail_step pp (mem_rows s) (mem_rows (exec pp c s))"
proof -
  have safe: "vmem.safe pp s" using assms(2) by (simp add: vmem.safe_def)
  have "vmem.moves pp s (exec pp c s)"
    using assms(1) safe vmem_genuine
    by (cases c)
      (auto simp: insert_message_def enqueue_send_def claim_send_def note_ses_call_def Let_def
        mark_send_def update_labels_def inject_def vmem.send_request_ok_def
        intro: vmem.ensure_inbox_moves [OF prod.collapse [symmetric]]
          vmem.insert_loop_moves [OF prod.collapse [symmetric]]
          vmem.enqueue_loop_moves [OF prod.collapse [symmetric]]
          vmem.claim_loop_moves [OF prod.collapse [symmetric]]
          vmem.note_loop_moves [OF prod.collapse [symmetric]]
          vmem.mark_loop_moves [OF prod.collapse [symmetric]]
          vmem.update_labels_loop_moves [OF prod.collapse [symmetric]]
          vmem.moves_env)
  then show ?thesis by (simp add: vmem_moves)
qed

lemma exec_run_invariant:
  "calls_ok pp s cs \<Longrightarrow> table_wf pp (mem_rows s) \<Longrightarrow> rollup_ok n (mem_rows s) \<Longrightarrow>
     n + length cs \<le> 2 ^ 64 \<Longrightarrow>
     table_wf pp (mem_rows (fold (exec pp) cs s)) \<and>
     rollup_ok (n + length cs) (mem_rows (fold (exec pp) cs s))"
proof (induction cs arbitrary: s n)
  case (Cons c cs)
  have "mem_rows (exec pp c s) = mem_rows s \<or> mail_step pp (mem_rows s) (mem_rows (exec pp c s))"
    using Cons.prems by (intro exec_moves) simp_all
  then have "table_wf pp (mem_rows (exec pp c s)) \<and> rollup_ok (Suc n) (mem_rows (exec pp c s))"
    using Cons.prems mail_step_keeps_wf mail_step_keeps_rollup rollup_ok_Suc by fastforce
  with Cons.IH [of "exec pp c s" "Suc n"] Cons.prems show ?case by simp
qed simp

lemma sample_ok:
  "message_ok (sample_message ''support@example.com'' mid tid)"
  "msg_inbox_id (sample_message ''support@example.com'' mid tid) = inbox_new ''support@example.com''"
  "msg_message_id (sample_message ''support@example.com'' mid tid) = MessageId mid"
  "msg_rfc_message_id (sample_message ''support@example.com'' mid tid) = ''<'' @ mid @ ''@example.com>''"
  by (simp_all add: sample_message_def message_ok_def plain_inbox_def inbox_canon_def trim_graphic
      is_graphic_def to_ascii_lowercase_def to_ascii_lowercase_char_def)

lemma empty_store_simps [simp]:
  "mem_rows empty_store = Map.empty" "mem_quiet empty_store"
  by (simp_all add: mem_rows_def empty_store_def mem_quiet_def)

abbreviation no_participants :: "string \<Rightarrow> unit option" where
  "no_participants \<equiv> (\<lambda>x. None)"

text \<open>
  C2. The mailbox refines the step relation: from a well-formed table, a call of any flow
  with any injected failure changes the rows of the store by nothing at all or by exactly one
  step of the specification, all of its writes at once.
\<close>

theorem mailbox_call_refines:
  assumes "call_ok s c" and "table_wf pp (mem_rows s)"
  shows "mem_rows (exec pp c s) = mem_rows s \<or> mail_step pp (mem_rows s) (mem_rows (exec pp c s))"
  using assms by (rule exec_moves)

theorem mailbox_call_refines_witness:
  "mem_rows (exec no_participants (CallInsert (sample_message ''support@example.com'' ''m1'' ''m1'') [])
       empty_store) = Map.empty
   \<or> mail_step no_participants Map.empty (mem_rows (exec no_participants
       (CallInsert (sample_message ''support@example.com'' ''m1'' ''m1'') []) empty_store))"
  using mailbox_call_refines [of empty_store
      "CallInsert (sample_message ''support@example.com'' ''m1'' ''m1'') []" no_participants]
  by (simp add: sample_ok table_wf_empty del: exec.simps)

end
