(* ===== verification/Build.thy ===== *)
theory Build
  imports Send Fetch
begin

text \<open>
  \<open>crates/mailbox/src/build.rs\<close>: the outbound document. The MIME tree the code assembles is a
  datatype of what it asks of the crate \<open>mail_builder\<close>; writing a document out
  (\<open>MessageBuilder::write_to_vec\<close>) is that crate, a parameter \<open>write_to_vec\<close>.
\<close>

datatype disposition = DispositionInline | DispositionAttachment "string option"

datatype mime_part = MimePart (part_type: string) (part_disposition: "disposition option")
    (part_cid: "string option") (part_contents: mime_contents)
  and mime_contents = TextContents string | BinaryContents bytes | MultipartContents "mime_part list"

definition new_part :: "string \<Rightarrow> mime_contents \<Rightarrow> mime_part" where
  "new_part content_type contents = MimePart content_type None None contents"

fun inline_cid :: "string \<Rightarrow> mime_part \<Rightarrow> mime_part" where
  "inline_cid cid (MimePart t _ _ c) = MimePart t (Some DispositionInline) (Some cid) c"

fun attached_as :: "string option \<Rightarrow> mime_part \<Rightarrow> mime_part" where
  "attached_as filename (MimePart t _ cid c) = MimePart t (Some (DispositionAttachment filename)) cid c"

record built_part =
  bp_spec :: spec_attachment
  bp_bytes :: bytes

datatype build_error = BuildErrTooLarge nat nat | BuildErrFailed

record message_builder =
  mb_from :: "string \<times> string option"
  mb_message_id :: string
  mb_subject :: string
  mb_body :: mime_part
  mb_to :: "string list option"
  mb_cc :: "string list option"
  mb_reply_to :: "string list option"
  mb_in_reply_to :: "string option"
  mb_references :: "string list option"
  mb_headers :: "(string \<times> string) list"

definition attachment_part :: "built_part \<Rightarrow> mime_part" where
  "attachment_part part = new_part (sa_content_type (bp_spec part)) (BinaryContents (bp_bytes part))"

definition alternative :: "send_spec \<Rightarrow> mime_part" where
  "alternative spec =
     (case (spec_text spec, spec_html spec) of
        (Some text, Some html) \<Rightarrow> new_part ''multipart/alternative'' (MultipartContents
          [new_part ''text/plain'' (TextContents text), new_part ''text/html'' (TextContents html)])
      | (Some text, None) \<Rightarrow> new_part ''text/plain'' (TextContents text)
      | (None, Some html) \<Rightarrow> new_part ''text/html'' (TextContents html)
      | (None, None) \<Rightarrow> new_part ''text/plain'' (TextContents []))"

definition related_part :: "built_part \<Rightarrow> mime_part" where
  "related_part part =
     (case sa_content_id (bp_spec part) of
        Some cid \<Rightarrow> inline_cid cid (attachment_part part)
      | None \<Rightarrow> attachment_part part)"

definition mixed_part :: "built_part \<Rightarrow> mime_part" where
  "mixed_part part = attached_as (sa_filename (bp_spec part)) (attachment_part part)"

definition body_part :: "send_spec \<Rightarrow> built_part list \<Rightarrow> mime_part" where
  "body_part spec parts =
     (let inline = filter (\<lambda>part. sa_content_disposition (bp_spec part) = Inline) parts;
          attached = filter (\<lambda>part. sa_content_disposition (bp_spec part) \<noteq> Inline) parts;
          body = alternative spec;
          related = (if inline = [] then body
            else new_part ''multipart/related'' (MultipartContents (body # map related_part inline)))
      in if attached = [] then related
         else new_part ''multipart/mixed'' (MultipartContents (related # map mixed_part attached)))"

definition non_empty :: "string list \<Rightarrow> string list option" where
  "non_empty xs = (if xs = [] then None else Some xs)"

definition outbound_builder :: "send_spec \<Rightarrow> built_part list \<Rightarrow> message_builder" where
  "outbound_builder spec parts =
     \<lparr>mb_from = (spec_from spec, spec_display_name spec),
      mb_message_id = strip_angle_brackets (spec_rfc_message_id spec),
      mb_subject = spec_subject spec,
      mb_body = body_part spec parts,
      mb_to = non_empty (env_to (spec_envelope spec)),
      mb_cc = non_empty (env_cc (spec_envelope spec)),
      mb_reply_to = non_empty (spec_reply_to spec),
      mb_in_reply_to = map_option strip_angle_brackets (spec_in_reply_to spec),
      mb_references = map_option (map strip_angle_brackets) (non_empty (spec_references spec)),
      mb_headers = bt_entries (spec_headers spec)\<rparr>"

definition build_outbound ::
  "(message_builder \<Rightarrow> bytes option) \<Rightarrow> send_spec \<Rightarrow> built_part list \<Rightarrow> nat \<Rightarrow> build_error + bytes" where
  "build_outbound write_to_vec spec parts max_bytes =
     (case write_to_vec (outbound_builder spec parts) of
        None \<Rightarrow> Inl BuildErrFailed
      | Some built \<Rightarrow>
          if length built > max_bytes then Inl (BuildErrTooLarge (length built) max_bytes) else Inr built)"

section \<open>The body tree\<close>

text \<open>The leaves of a tree in order, and that no wrapper has a single child.\<close>

fun leaves :: "mime_part \<Rightarrow> mime_part list" where
  "leaves (MimePart t d c (MultipartContents ps)) = concat (map leaves ps)"
| "leaves p = [p]"

fun no_lone_child :: "mime_part \<Rightarrow> bool" where
  "no_lone_child (MimePart t d c (MultipartContents ps)) = (2 \<le> length ps \<and> list_all no_lone_child ps)"
| "no_lone_child p = True"

definition body_texts :: "send_spec \<Rightarrow> mime_part list" where
  "body_texts spec =
     (let texts = (case spec_text spec of None \<Rightarrow> [] | Some t \<Rightarrow> [new_part ''text/plain'' (TextContents t)])
            @ (case spec_html spec of None \<Rightarrow> [] | Some h \<Rightarrow> [new_part ''text/html'' (TextContents h)])
      in if texts = [] then [new_part ''text/plain'' (TextContents [])] else texts)"

lemma alternative_leaves: "leaves (alternative spec) = body_texts spec"
  by (simp add: alternative_def body_texts_def new_part_def split: option.split)

lemma alternative_no_lone: "no_lone_child (alternative spec)"
  by (simp add: alternative_def new_part_def split: option.split)

lemma part_leaf [simp]:
  "leaves (related_part p) = [related_part p]" "leaves (mixed_part p) = [mixed_part p]"
  "no_lone_child (related_part p)" "no_lone_child (mixed_part p)"
  by (simp_all add: related_part_def mixed_part_def attachment_part_def new_part_def split: option.split)

lemma concat_leaves [simp]:
  "concat (map (leaves \<circ> related_part) ps) = map related_part ps"
  "concat (map (leaves \<circ> mixed_part) ps) = map mixed_part ps"
  by (induction ps) simp_all

text \<open>
  C40. The body tree holds the text and HTML bodies, then every inline part, then every other
  attachment, each exactly once and in the order of the spec, and no \<open>multipart\<close> wrapper in it has
  fewer than two children.
\<close>

theorem body_part_complete:
  "leaves (body_part spec parts) = body_texts spec
     @ map related_part (filter (\<lambda>p. sa_content_disposition (bp_spec p) = Inline) parts)
     @ map mixed_part (filter (\<lambda>p. sa_content_disposition (bp_spec p) \<noteq> Inline) parts)
   \<and> no_lone_child (body_part spec parts)"
proof -
  have one: "1 \<le> length xs \<longleftrightarrow> xs \<noteq> []" for xs :: "built_part list" by (cases xs) simp_all
  show ?thesis
    by (simp add: body_part_def Let_def alternative_leaves alternative_no_lone new_part_def
        list_all_iff one Suc_le_eq)
qed

end
