(* ===== verification/Calendar.thy ===== *)
theory Calendar
  imports Prelude "HOL-Library.Signed_Division"
begin

text \<open>
  The calendar of \<open>crates/mailbox/src/time.rs\<close>: days since the epoch and civil dates. An \<open>i64\<close> is an \<open>int\<close>, whose division \<open>sdiv\<close> truncates as Rust's
  does; no value of these functions leaves the range of \<open>i64\<close>, since the days of a \<open>u64\<close> of
  milliseconds are fewer than \<open>2\<^sup>3\<^sup>8\<close> and a parsed year has four characters. The \<open>u32\<close> month and
  day are the integers they hold.
\<close>

definition civil_from_days :: "int \<Rightarrow> int \<times> int \<times> int" where
  "civil_from_days z =
     (let z = z + 719468;
          era = (if z \<ge> 0 then z else z - 146096) sdiv 146097;
          doe = z - era * 146097;
          yoe = (doe - doe sdiv 1460 + doe sdiv 36524 - doe sdiv 146096) sdiv 365;
          y = yoe + era * 400;
          doy = doe - (365 * yoe + yoe sdiv 4 - yoe sdiv 100);
          mp = (5 * doy + 2) sdiv 153;
          day = doy - (153 * mp + 2) sdiv 5 + 1;
          month = (if mp < 10 then mp + 3 else mp - 9);
          y = (if month \<le> 2 then y + 1 else y)
      in (y, month, day))"

definition days_from_civil :: "int \<Rightarrow> int \<Rightarrow> int \<Rightarrow> int" where
  "days_from_civil y m d =
     (let y = (if m \<le> 2 then y - 1 else y);
          era = (if y \<ge> 0 then y else y - 399) sdiv 400;
          yoe = y - era * 400;
          mp = (m + 9) smod 12;
          doy = (153 * mp + 2) sdiv 5 + d - 1;
          doe = yoe * 365 + yoe sdiv 4 - yoe sdiv 100 + doy
      in era * 146097 + doe - 719468)"

definition days_in_month :: "int \<Rightarrow> int \<Rightarrow> int" where
  "days_in_month year month =
     (if month \<in> {1, 3, 5, 7, 8, 10, 12} then 31
      else if month \<in> {4, 6, 9, 11} then 30
      else if month = 2 then
        (if year smod 4 = 0 \<and> (year smod 100 \<noteq> 0 \<or> year smod 400 = 0) then 29 else 28)
      else 0)"

section \<open>The calendar\<close>

text \<open>The first day of year \<open>y\<close> of an era of 400 years, counted from the era's first of March.\<close>

definition year_start :: "int \<Rightarrow> int" where
  "year_start y = 365 * y + y div 4 - y div 100"

definition yoe_scaled :: "int \<Rightarrow> int" where
  "yoe_scaled doe = doe - doe div 1460 + doe div 36524 - doe div 146096"

definition last_doe :: "int \<Rightarrow> int" where
  "last_doe y = (if y = 399 then 146096 else year_start (y + 1) - 1)"

definition leap :: "int \<Rightarrow> bool" where
  "leap y \<longleftrightarrow> 4 dvd y \<and> (\<not> 100 dvd y \<or> 400 dvd y)"

lemma year_table:
  "list_all (\<lambda>y. yoe_scaled (year_start y) div 365 = y \<and> yoe_scaled (last_doe y) div 365 = y \<and>
     0 \<le> year_start y \<and> year_start y \<le> last_doe y \<and> last_doe y \<le> 146096 \<and>
     last_doe y = year_start y + (if leap (y + 1) then 365 else 364)) (map int [0..<400])"
  by code_simp

lemma year_facts:
  assumes "0 \<le> y" and "y < 400"
  shows "yoe_scaled (year_start y) div 365 = y" and "yoe_scaled (last_doe y) div 365 = y"
    and "0 \<le> year_start y" and "year_start y \<le> last_doe y" and "last_doe y \<le> 146096"
    and "last_doe y = year_start y + (if leap (y + 1) then 365 else 364)"
proof -
  have "nat y \<in> List.set [0..<400]" using assms by auto
  then have "int (nat y) \<in> List.set (map int [0..<400])" by (simp only: list.set_map) (rule imageI)
  then have y: "y \<in> List.set (map int [0..<400])" using assms by simp
  show "yoe_scaled (year_start y) div 365 = y" "yoe_scaled (last_doe y) div 365 = y"
    "0 \<le> year_start y" "year_start y \<le> last_doe y" "last_doe y \<le> 146096"
    "last_doe y = year_start y + (if leap (y + 1) then 365 else 364)"
    using year_table y unfolding list_all_iff by blast+
qed

lemma yoe_scaled_Suc:
  assumes "0 \<le> d" and "d < 146096"
  shows "yoe_scaled d \<le> yoe_scaled (d + 1)"
proof (cases "d + 1 = 146096")
  case True
  then have "d = 146095" by simp
  then show ?thesis by (simp add: yoe_scaled_def)
next
  case False
  have a: "(d + 1) div 1460 \<le> d div 1460 + 1" by linarith
  have b: "d div 36524 \<le> (d + 1) div 36524" by (rule zdiv_mono1) simp_all
  have z: "d div 146096 = 0" "(d + 1) div 146096 = 0"
    using assms False by (auto intro!: div_pos_pos_trivial)
  have "d - p + q - 0 \<le> d + 1 - p' + q' - 0" if "p' \<le> p + 1" "q \<le> q'" for p q p' q' :: int
    using that by simp
  from this [OF a b] show ?thesis unfolding yoe_scaled_def z .
qed

lemma yoe_scaled_mono:
  assumes "0 \<le> a" and "a \<le> b" and "b \<le> 146096"
  shows "yoe_scaled a \<le> yoe_scaled b"
  using assms(2,3)
proof (induction b rule: int_ge_induct)
  case (step b)
  with assms(1) yoe_scaled_Suc [of b] show ?case by simp
qed simp

lemma yoe_unique:
  assumes "0 \<le> y" and "y < 400" and "year_start y \<le> doe" and "doe \<le> last_doe y"
  shows "yoe_scaled doe div 365 = y"
proof -
  note b = year_facts(3-5) [OF assms(1,2)]
  have "yoe_scaled (year_start y) div 365 \<le> yoe_scaled doe div 365"
    "yoe_scaled doe div 365 \<le> yoe_scaled (last_doe y) div 365"
    using assms b by (auto intro!: zdiv_mono1 yoe_scaled_mono)
  with year_facts(1,2) [OF assms(1,2)] show ?thesis by simp
qed

lemma yoe_exists:
  assumes "0 \<le> doe" and "doe \<le> 146096"
  obtains y where "0 \<le> y" and "y < 400" and "year_start y \<le> doe" and "doe \<le> last_doe y"
proof -
  have "\<exists>y. 0 \<le> y \<and> y < 400 \<and> year_start y \<le> doe \<and> doe \<le> last_doe y"
    if "doe \<le> last_doe (int n)" "n < 400" for n
    using that
  proof (induction n)
    case 0
    then show ?case using assms by (intro exI [of _ 0]) (simp add: year_start_def)
  next
    case (Suc n)
    show ?case
    proof (cases "year_start (int (Suc n)) \<le> doe")
      case True
      with Suc.prems show ?thesis by (intro exI [of _ "int (Suc n)"]) simp
    next
      case False
      with Suc.prems have "doe \<le> last_doe (int n)" by (simp add: last_doe_def add.commute)
      with Suc show ?thesis by simp
    qed
  qed
  from this [of 399] assms that show ?thesis by (auto simp: last_doe_def)
qed


lemma sdiv_nonneg: "0 \<le> a \<Longrightarrow> 0 \<le> b \<Longrightarrow> a sdiv b = a div (b :: int)"
  by (cases "a = 0"; cases "b = 0") (simp_all add: signed_divide_int_def)

lemma smod_nonneg: "0 \<le> a \<Longrightarrow> 0 \<le> b \<Longrightarrow> a smod b = a mod (b :: int)"
  by (cases "a = 0") (simp_all add: signed_modulo_int_def sdiv_nonneg minus_mult_div_eq_mod)

text \<open>The date of a day of the year that starts with the first of March.\<close>

definition march_date :: "int \<Rightarrow> int \<Rightarrow> int \<times> int \<times> int" where
  "march_date y doy =
     (let mp = (5 * doy + 2) div 153;
          month = (if mp < 10 then mp + 3 else mp - 9)
      in (if month \<le> 2 then y + 1 else y, month, doy - (153 * mp + 2) div 5 + 1))"

definition march_doy :: "int \<Rightarrow> int \<Rightarrow> int" where
  "march_doy m d = (153 * ((m + 9) mod 12) + 2) div 5 + d - 1"

lemma day_table:
  "list_all (\<lambda>doy. case march_date 0 doy of (y, m, d) \<Rightarrow>
     1 \<le> m \<and> m \<le> 12 \<and> 1 \<le> d \<and> d \<le> days_in_month 2000 m \<and> march_doy m d = doy \<and>
     (m = 2 \<and> d = 29 \<longleftrightarrow> doy = 365)) (map int [0..<366])"
  by code_simp

lemma month_table:
  "list_all (\<lambda>m. list_all (\<lambda>d. d \<le> days_in_month 2000 m \<longrightarrow>
     march_date 0 (march_doy m d) = (if m \<le> 2 then 1 else 0, m, d) \<and>
     0 \<le> march_doy m d \<and> march_doy m d \<le> 365 \<and> (march_doy m d = 365 \<longleftrightarrow> m = 2 \<and> d = 29))
     [1, 2, 3, 4, 5, 6, 7, 8, 9, 10, 11, 12, 13, 14, 15, 16, 17, 18, 19, 20, 21, 22, 23, 24, 25, 26,
      27, 28, 29, 30, 31]) [1, 2, 3, 4, 5, 6, 7, 8, 9, 10, 11, 12]"
  by code_simp

lemma march_date_year: "march_date y doy = (case march_date 0 doy of (y0, m, d) \<Rightarrow> (y + y0, m, d))"
  by (simp add: march_date_def Let_def)

definition valid_date :: "int \<Rightarrow> int \<Rightarrow> int \<Rightarrow> bool" where
  "valid_date y m d \<longleftrightarrow> 1 \<le> m \<and> m \<le> 12 \<and> 1 \<le> d \<and> d \<le> days_in_month y m"

lemma days_in_month_leap:
  "0 \<le> y \<Longrightarrow> days_in_month y m = (if m = 2 \<and> \<not> leap y then 28 else days_in_month 2000 m)"
proof -
  assume y: "0 \<le> y"
  have "y smod 4 = 0 \<longleftrightarrow> 4 dvd y" "y smod 100 = 0 \<longleftrightarrow> 100 dvd y" "y smod 400 = 0 \<longleftrightarrow> 400 dvd y"
    using y by (simp_all only: smod_nonneg dvd_eq_mod_eq_0)
  then show ?thesis by (simp add: days_in_month_def leap_def)
qed

lemma leap_mod: "leap (y + 400 * e) = leap y"
proof -
  have "k dvd y + 400 * e \<longleftrightarrow> k dvd y" if "k dvd 400" for k
    using that by (intro dvd_add_left_iff) (rule dvd_mult2)
  from this [of 4] this [of 100] this [of 400] show ?thesis by (simp add: leap_def)
qed

lemma civil_from_days_eq:
  assumes "0 \<le> era" and "0 \<le> yoe" and "yoe < 400" and "0 \<le> doy"
    and "doy \<le> (if leap (yoe + 1) then 365 else 364)"
  shows "civil_from_days (era * 146097 + year_start yoe + doy - 719468) = march_date (yoe + 400 * era) doy"
proof -
  note y = year_facts [OF assms(2,3)]
  have doe: "0 \<le> year_start yoe + doy" "year_start yoe + doy \<le> 146096"
    using y assms(4,5) by (auto split: if_splits)
  have era: "(era * 146097 + year_start yoe + doy) div 146097 = era"
    using doe by (simp add: add.assoc)
  have yoe: "yoe_scaled (year_start yoe + doy) div 365 = yoe"
    using assms y by (intro yoe_unique) auto
  have nonneg: "0 \<le> yoe_scaled (year_start yoe + doy)"
    using yoe_scaled_mono [of 0 "year_start yoe + doy"] doe by (simp add: yoe_scaled_def [of 0])
  have ge: "0 \<le> era * 146097 + year_start yoe + doy" using doe assms(1) by simp
  have mp: "0 \<le> (5 * doy + 2) div 153" using assms(4) by simp
  have eqs: "era * 146097 + year_start yoe + doy - 719468 + 719468 = era * 146097 + year_start yoe + doy"
    "era * 146097 + year_start yoe + doy - era * 146097 = year_start yoe + doy" by simp_all
  have sdivs: "(year_start yoe + doy) sdiv 1460 = (year_start yoe + doy) div 1460"
    "(year_start yoe + doy) sdiv 36524 = (year_start yoe + doy) div 36524"
    "(year_start yoe + doy) sdiv 146096 = (year_start yoe + doy) div 146096"
    "yoe sdiv 4 = yoe div 4" "yoe sdiv 100 = yoe div 100"
    "(5 * doy + 2) sdiv 153 = (5 * doy + 2) div 153"
    "(153 * ((5 * doy + 2) div 153) + 2) sdiv 5 = (153 * ((5 * doy + 2) div 153) + 2) div 5"
    using doe assms mp by (simp_all add: sdiv_nonneg)
  have sd: "(era * 146097 + year_start yoe + doy) sdiv 146097 = era"
    "yoe_scaled (year_start yoe + doy) sdiv 365 = yoe"
    using ge nonneg by (simp_all only: sdiv_nonneg era yoe)
  have start: "year_start yoe + doy - (365 * yoe + yoe div 4 - yoe div 100) = doy"
    by (simp add: year_start_def)
  show ?thesis
    unfolding civil_from_days_def Let_def eqs if_P [OF ge] sd(1) sdivs
    unfolding yoe_scaled_def [symmetric] sd(2) sdivs start march_date_def Let_def
    by (simp only: mult.commute [of era 400])
qed

lemma floor_sdiv: "(if y \<ge> 0 then y else y - 399) sdiv 400 = (y :: int) div 400"
proof (cases "0 \<le> y")
  case False
  then have "(y - 399) sdiv 400 = - ((399 - y) div 400)"
    by (simp add: signed_divide_int_def)
  also have "(399 - y) div 400 = - (y div 400)"
  proof -
    have "399 - y = (399 - y mod 400) + 400 * (- (y div 400))"
      using mult_div_mod_eq [of 400 y] by linarith
    moreover have "(399 - y mod 400) div 400 = 0"
      using pos_mod_bound [of 400 y] by (intro div_pos_pos_trivial) simp_all
    ultimately show ?thesis by (simp only: div_mult_self2)
  qed
  finally show ?thesis using False by simp
qed (simp add: sdiv_nonneg)

lemma days_from_civil_eq:
  assumes "1 \<le> m" and y': "y' = (if m \<le> 2 then y - 1 else y)"
  shows "days_from_civil y m d =
      (y' div 400) * 146097 + year_start (y' mod 400) + march_doy m d - 719468"
proof -
  have yoe: "y' - y' div 400 * 400 = y' mod 400" by (simp add: minus_div_mult_eq_mod)
  have nonneg: "0 \<le> y' mod 400" by simp
  have sdivs: "(m + 9) smod 12 = (m + 9) mod 12" "(y' mod 400) sdiv 4 = (y' mod 400) div 4"
    "(y' mod 400) sdiv 100 = (y' mod 400) div 100"
    "(153 * ((m + 9) mod 12) + 2) sdiv 5 = (153 * ((m + 9) mod 12) + 2) div 5"
    using assms(1) nonneg by (simp_all add: sdiv_nonneg smod_nonneg)
  have y2: "(if m \<le> 2 then y - 1 else y) = y'" using y' by simp
  show ?thesis
    unfolding days_from_civil_def Let_def y2 floor_sdiv yoe sdivs year_start_def march_doy_def
    by (simp only: mult.commute [of _ 365] add_diff_eq add.assoc)
qed

lemma day_facts:
  assumes "0 \<le> doy" and "doy \<le> 365" and "march_date y doy = (y', m, d)"
  shows "1 \<le> m" and "m \<le> 12" and "1 \<le> d" and "d \<le> days_in_month 2000 m"
    and "march_doy m d = doy" and "m = 2 \<and> d = 29 \<longleftrightarrow> doy = 365"
    and "y' = (if m \<le> 2 then y + 1 else y)"
proof -
  have "nat doy \<in> List.set [0..<366]" using assms by auto
  then have "int (nat doy) \<in> List.set (map int [0..<366])" by (simp only: list.set_map) (rule imageI)
  then have doy: "doy \<in> List.set (map int [0..<366])" using assms by simp
  obtain y0 where "march_date 0 doy = (y0, m, d)"
    using assms(3) by (cases "march_date 0 doy") (simp add: march_date_year [of y])
  moreover have "case march_date 0 doy of (y, m, d) \<Rightarrow>
     1 \<le> m \<and> m \<le> 12 \<and> 1 \<le> d \<and> d \<le> days_in_month 2000 m \<and> march_doy m d = doy \<and>
     (m = 2 \<and> d = 29 \<longleftrightarrow> doy = 365)"
    by (rule day_table [unfolded list_all_iff, THEN bspec, OF doy])
  ultimately show "1 \<le> m" "m \<le> 12" "1 \<le> d" "d \<le> days_in_month 2000 m" "march_doy m d = doy"
    "m = 2 \<and> d = 29 \<longleftrightarrow> doy = 365" by (simp_all only: prod.case)
  show "y' = (if m \<le> 2 then y + 1 else y)" using assms(3) by (auto simp: march_date_def Let_def)
qed

lemma month_facts:
  assumes "1 \<le> m" and "m \<le> 12" and "1 \<le> d" and "d \<le> days_in_month 2000 m"
  shows "march_date y (march_doy m d) = (if m \<le> 2 then y + 1 else y, m, d)"
    and "0 \<le> march_doy m d" and "march_doy m d \<le> 365" and "march_doy m d = 365 \<longleftrightarrow> m = 2 \<and> d = 29"
proof -
  have m: "m \<in> List.set [1, 2, 3, 4, 5, 6, 7, 8, 9, 10, 11, 12]" using assms(1,2) by simp presburger
  have "days_in_month 2000 m \<le> 31" by (simp add: days_in_month_def)
  then have d: "d \<in> List.set [1, 2, 3, 4, 5, 6, 7, 8, 9, 10, 11, 12, 13, 14, 15, 16, 17, 18, 19, 20,
      21, 22, 23, 24, 25, 26, 27, 28, 29, 30, 31]" using assms(3,4) by simp presburger
  have "march_date 0 (march_doy m d) = (if m \<le> 2 then 1 else 0, m, d) \<and>
     0 \<le> march_doy m d \<and> march_doy m d \<le> 365 \<and> (march_doy m d = 365 \<longleftrightarrow> m = 2 \<and> d = 29)"
    using month_table [unfolded list_all_iff, THEN bspec, OF m, THEN bspec, OF d] assms(4) by blast
  then show "march_date y (march_doy m d) = (if m \<le> 2 then y + 1 else y, m, d)"
    "0 \<le> march_doy m d" "march_doy m d \<le> 365" "march_doy m d = 365 \<longleftrightarrow> m = 2 \<and> d = 29"
    by (simp_all only: march_date_year [of y]) simp_all
qed

text \<open>Every day from the first of March of year 0 on has its place in an era.\<close>

lemma day_split:
  assumes "0 \<le> z + 719468"
  obtains era yoe doy where "0 \<le> era" and "0 \<le> yoe" and "yoe < 400" and "0 \<le> doy"
    and "doy \<le> (if leap (yoe + 1) then 365 else 364)"
    and "z = era * 146097 + year_start yoe + doy - 719468"
proof -
  define era where "era = (z + 719468) div 146097"
  have doe: "0 \<le> (z + 719468) mod 146097" "(z + 719468) mod 146097 \<le> 146096"
    using pos_mod_bound [of 146097 "z + 719468"] by simp_all
  obtain yoe where y: "0 \<le> yoe" "yoe < 400" "year_start yoe \<le> (z + 719468) mod 146097"
      "(z + 719468) mod 146097 \<le> last_doe yoe" by (rule yoe_exists [OF doe])
  have "z = era * 146097 + year_start yoe + ((z + 719468) mod 146097 - year_start yoe) - 719468"
    using div_mult_mod_eq [of "z + 719468" 146097] by (simp add: era_def)
  then show ?thesis
    using y year_facts(6) [OF y(1,2)] assms
    by (intro that [of era yoe "(z + 719468) mod 146097 - year_start yoe"])
      (simp_all add: era_def pos_imp_zdiv_nonneg_iff)
qed

lemma march_date_valid:
  assumes "0 \<le> era" and "0 \<le> yoe" and "0 \<le> doy"
    and "doy \<le> (if leap (yoe + 1) then 365 else 364)"
    and "march_date (yoe + 400 * era) doy = (y, m, d)"
  shows "valid_date y m d" and "0 \<le> y"
proof -
  have doy: "0 \<le> doy" "doy \<le> 365" using assms(3,4) by (simp_all split: if_splits)
  note f = day_facts [OF doy assms(5)]
  show y: "0 \<le> y" using f(7) assms(1,2) by simp
  have "m = 2 \<Longrightarrow> leap y = leap (yoe + 1)"
    using leap_mod [of "yoe + 1" era] f(7) by (simp add: ac_simps)
  then have "m = 2 \<Longrightarrow> \<not> leap y \<Longrightarrow> d \<noteq> 29" using f(6) assms(4) by auto
  moreover have "m = 2 \<Longrightarrow> d \<le> 29" using f(4) by (simp add: days_in_month_def split: if_splits)
  ultimately show "valid_date y m d"
    using f(1-4) by (auto simp: valid_date_def days_in_month_leap [OF y])
qed

lemma civil_roundtrip:
  assumes "0 \<le> z + 719468" and "civil_from_days z = (y, m, d)"
  shows "valid_date y m d" and "0 \<le> y" and "days_from_civil y m d = z"
proof -
  obtain era yoe doy where s: "0 \<le> era" "0 \<le> yoe" "yoe < 400" "0 \<le> doy"
    "doy \<le> (if leap (yoe + 1) then 365 else 364)"
    "z = era * 146097 + year_start yoe + doy - 719468"
    using day_split [OF assms(1)] .
  have date: "march_date (yoe + 400 * era) doy = (y, m, d)"
    using civil_from_days_eq [OF s(1-5)] assms(2) s(6) by simp
  show "valid_date y m d" "0 \<le> y" using march_date_valid [OF s(1,2,4,5) date] by simp_all
  have doy: "doy \<le> 365" using s(5) by (simp split: if_splits)
  note f = day_facts [OF s(4) doy date]
  have y': "yoe + 400 * era = (if m \<le> 2 then y - 1 else y)" using f(7) by simp
  show "days_from_civil y m d = z"
    unfolding days_from_civil_eq [OF f(1) y'] f(5) s(6) using s(1-3) by simp
qed

lemma days_roundtrip:
  assumes "valid_date y m d" and "0 < y"
  shows "civil_from_days (days_from_civil y m d) = (y, m, d)"
proof -
  define y' where "y' = (if m \<le> 2 then y - 1 else y)"
  have y: "0 \<le> y" using assms(2) by simp
  have len: "days_in_month y m \<le> days_in_month 2000 m"
    by (simp add: days_in_month_leap [OF y]) (simp add: days_in_month_def)
  have v: "1 \<le> m" "m \<le> 12" "1 \<le> d" "d \<le> days_in_month 2000 m" "d \<le> days_in_month y m"
    using assms(1) len by (simp_all add: valid_date_def)
  note f = month_facts [OF v(1-4)]
  have y0: "0 \<le> y'" using assms(2) by (simp add: y'_def)
  have "march_doy m d = 365 \<Longrightarrow> leap (y' mod 400 + 1)"
  proof -
    assume "march_doy m d = 365"
    then have md: "m = 2" "d = 29" using f(4) by simp_all
    with v(5) have "leap y" by (simp add: days_in_month_leap [OF y] split: if_splits)
    moreover have "y = (y' mod 400 + 1) + 400 * (y' div 400)" using md by (simp add: y'_def)
    ultimately show ?thesis using leap_mod by metis
  qed
  with f(3) have doy: "march_doy m d \<le> (if leap (y' mod 400 + 1) then 365 else 364)" by force
  have era: "0 \<le> y' div 400" "0 \<le> y' mod 400" "y' mod 400 < 400"
    using y0 by (simp_all add: pos_imp_zdiv_nonneg_iff)
  show ?thesis
    unfolding days_from_civil_eq [OF v(1) y'_def] civil_from_days_eq [OF era f(2) doy]
    using f(1) by (simp add: y'_def)
qed

section \<open>The order of dates\<close>

text \<open>Dates as triples, compared field by field.\<close>

definition date_less :: "int \<times> int \<times> int \<Rightarrow> int \<times> int \<times> int \<Rightarrow> bool" where
  "date_less a b = (case (a, b) of ((y, m, d), (y', m', d')) \<Rightarrow>
     y < y' \<or> y = y' \<and> (m < m' \<or> m = m' \<and> d < d'))"

lemma next_day_table:
  "list_all (\<lambda>doy. date_less (march_date 0 doy) (march_date 0 (doy + 1))) (map int [0..<365])"
  by code_simp

lemma next_year_day:
  "date_less (march_date 0 364) (march_date 1 0)" "date_less (march_date 0 365) (march_date 1 0)"
  by code_simp+

lemma date_less_shift: "date_less (march_date 0 a) (march_date k b) \<Longrightarrow> date_less (march_date y a) (march_date (y + k) b)"
  by (simp add: march_date_year [of y] march_date_year [of "y + k"] march_date_year [of k] date_less_def
      split: prod.splits)

lemma date_less_trans: "date_less a b \<Longrightarrow> date_less b c \<Longrightarrow> date_less a c"
  by (auto simp: date_less_def split: prod.splits)

lemma civil_Suc:
  assumes "0 \<le> z"
  shows "date_less (civil_from_days z) (civil_from_days (z + 1))"
proof -
  have "0 \<le> z + 719468" using assms by simp
  then obtain era yoe doy where s: "0 \<le> era" "0 \<le> yoe" "yoe < 400" "0 \<le> doy"
    "doy \<le> (if leap (yoe + 1) then 365 else 364)"
    "z = era * 146097 + year_start yoe + doy - 719468" by (rule day_split)
  note now = civil_from_days_eq [OF s(1-5), folded s(6)]
  show ?thesis
  proof (cases "doy < (if leap (yoe + 1) then 365 else 364)")
    case True
    then have doy: "doy + 1 \<le> (if leap (yoe + 1) then 365 else 364)" "0 \<le> doy + 1" "doy < 365"
      using s(4) by (simp_all split: if_splits)
    have "nat doy \<in> List.set [0..<365]" using s(4) doy(3) by auto
    then have "int (nat doy) \<in> List.set (map int [0..<365])" by (simp only: list.set_map) (rule imageI)
    then have "doy \<in> List.set (map int [0..<365])" using s(4) by simp
    then have "date_less (march_date 0 doy) (march_date 0 (doy + 1))"
      by (rule next_day_table [unfolded list_all_iff, THEN bspec])
    from date_less_shift [OF this, of "yoe + 400 * era"] civil_from_days_eq [OF s(1-3) doy(2,1)]
    show ?thesis unfolding now by (simp add: s(6) add.assoc)
  next
    case False
    then have last: "doy = 364 \<or> doy = 365" "year_start yoe + doy = last_doe yoe"
      using s(5) year_facts(6) [OF s(2,3)] by (simp_all split: if_splits)
    have step: "date_less (march_date (yoe + 400 * era) doy) (march_date (yoe + 400 * era + 1) 0)"
      using last(1) next_year_day by (auto intro: date_less_shift)
    show ?thesis
    proof (cases "yoe = 399")
      case True
      then have "z + 1 = (era + 1) * 146097 + year_start 0 + 0 - 719468"
        using last(2) s(6) by (simp add: last_doe_def year_start_def [of 0])
      then have "civil_from_days (z + 1) = march_date (0 + 400 * (era + 1)) 0"
        using s(1) by (simp only:) (rule civil_from_days_eq, simp_all)
      with step True show ?thesis unfolding now by (simp add: algebra_simps)
    next
      case nolast: False
      then have "z + 1 = era * 146097 + year_start (yoe + 1) + 0 - 719468"
        using last(2) s(6) by (simp add: last_doe_def)
      then have "civil_from_days (z + 1) = march_date (yoe + 1 + 400 * era) 0"
        using s(1-3) nolast by (simp only:) (rule civil_from_days_eq, simp_all)
      with step show ?thesis unfolding now by (simp add: ac_simps)
    qed
  qed
qed

lemma civil_mono:
  assumes "0 \<le> a" and "a < b"
  shows "date_less (civil_from_days a) (civil_from_days b)"
  using assms(2)
proof (induction b rule: int_gr_induct)
  case base
  from civil_Suc [OF assms(1)] show ?case .
next
  case (step b)
  with assms(1) civil_Suc [of b] show ?case by (auto intro: date_less_trans)
qed

section \<open>Days and dates correspond\<close>

text \<open>
  The two conversions are inverse: the date of a day since the epoch is a date of the
  Gregorian calendar and names that day, a date from the year 1 on is the date of the day it
  names, and a later day has a later date.
\<close>

theorem calendar_inverse:
  "(\<forall>z y m d. 0 \<le> z \<and> civil_from_days z = (y, m, d) \<longrightarrow>
      valid_date y m d \<and> days_from_civil y m d = z)
   \<and> (\<forall>y m d. valid_date y m d \<and> 0 < y \<longrightarrow> civil_from_days (days_from_civil y m d) = (y, m, d))
   \<and> (\<forall>a b. 0 \<le> a \<and> a < b \<longrightarrow> date_less (civil_from_days a) (civil_from_days b))"
  by (intro conjI allI impI; elim conjE; (rule civil_roundtrip days_roundtrip civil_mono)?; assumption?)
     simp_all

theorem calendar_inverse_witness:
  "civil_from_days (days_from_civil 2024 2 29) = (2024, 2, 29)
   \<and> date_less (civil_from_days 0) (civil_from_days 365)"
proof -
  have "valid_date 2024 2 29" by code_simp
  then show ?thesis using calendar_inverse by simp
qed

end
