(* ===== verification/Time.thy ===== *)
theory Time
  imports Calendar "HOL-Library.Monad_Syntax"
begin

text \<open>
  \<open>crates/mailbox/src/time.rs\<close>: the fixed-width timestamps of the mail table, printed and
  parsed. A string is the bytes of the source's \<open>&str\<close>: a field that is not ASCII digits after
  an optional sign does not parse, whether or not it lies on a character boundary.
\<close>

definition MS_PER_DAY :: u64 where "MS_PER_DAY = 86400000"
definition MS_PER_HOUR :: u64 where "MS_PER_HOUR = 3600000"
definition MS_PER_MINUTE :: u64 where "MS_PER_MINUTE = 60000"

definition expires_at :: "u64 \<Rightarrow> u32 \<Rightarrow> u64" where
  "expires_at now_ms retention_days = now_ms div 1000 + ucast retention_days * 86400"

text \<open>\<open>format!("{year:04}-{month:02}-...")\<close>; a year of a timestamp is never negative.\<close>

definition padded :: "nat \<Rightarrow> nat \<Rightarrow> string" where
  "padded w n = pad0 w (radix 10 n)"

definition time_format :: "u64 \<Rightarrow> string" where
  "time_format epoch_ms =
     (let days = epoch_ms div MS_PER_DAY;
          ms_of_day = epoch_ms mod MS_PER_DAY;
          (year, month, day) = civil_from_days (uint days);
          hour = ms_of_day div MS_PER_HOUR;
          minute = (ms_of_day div MS_PER_MINUTE) mod 60;
          second = (ms_of_day div 1000) mod 60;
          millis = ms_of_day mod 1000
      in padded 4 (nat year) @ ''-'' @ padded 2 (nat month) @ ''-'' @ padded 2 (nat day) @ ''T''
         @ padded 2 (unat hour) @ '':'' @ padded 2 (unat minute) @ '':'' @ padded 2 (unat second)
         @ ''.'' @ padded 3 (unat millis) @ ''Z'')"

text \<open>\<open>s.get(from..to)\<close> of a string long enough.\<close>

definition slice :: "nat \<Rightarrow> nat \<Rightarrow> string \<Rightarrow> string" where
  "slice from to s = take (to - from) (drop from s)"

definition time_shape :: "string \<Rightarrow> bool" where
  "time_shape b \<longleftrightarrow> length b = 24 \<and> b ! 4 = CHR ''-'' \<and> b ! 7 = CHR ''-'' \<and> b ! 10 = CHR ''T'' \<and>
     b ! 13 = CHR '':'' \<and> b ! 16 = CHR '':'' \<and> b ! 19 = CHR ''.'' \<and> b ! 23 = CHR ''Z''"

definition time_parse :: "string \<Rightarrow> u64 option" where
  "time_parse s =
     (if \<not> time_shape s then None
      else do {
        year \<leftarrow> parse_i64 (slice 0 4 s);
        month \<leftarrow> parse_u32 (slice 5 7 s);
        day \<leftarrow> parse_u32 (slice 8 10 s);
        hour \<leftarrow> parse_u64 (slice 11 13 s);
        minute \<leftarrow> parse_u64 (slice 14 16 s);
        second \<leftarrow> parse_u64 (slice 17 19 s);
        millis \<leftarrow> parse_u64 (slice 20 23 s);
        if \<not> (1 \<le> uint month \<and> uint month \<le> 12) \<or>
           \<not> (1 \<le> uint day \<and> uint day \<le> days_in_month year (uint month)) \<or>
           hour > 23 \<or> minute > 59 \<or> second > 59
        then None
        else
          let days = days_from_civil year (uint month) (uint day) in
          if days < 0 then None
          else Some (word_of_int days * MS_PER_DAY + hour * MS_PER_HOUR + minute * MS_PER_MINUTE
                     + second * 1000 + millis)
      })"

section \<open>Formatting and parsing\<close>

text \<open>The instants before the year 10000, the range of the fixed width.\<close>

definition four_digit_year :: "u64 \<Rightarrow> bool" where
  "four_digit_year ms \<longleftrightarrow> ms < 253402300800000"

lemma last_march_day:
  "march_date 9999 doy = (y, m, d) \<Longrightarrow> 0 \<le> doy \<Longrightarrow> doy \<le> 305 \<Longrightarrow> y = 9999"
  by (auto simp: march_date_def Let_def split: if_splits)

lemma civil_year_bound:
  assumes "0 \<le> z" and "z < 2932897" and "civil_from_days z = (y, m, d)"
  shows "y \<le> 9999"
proof -
  have "0 \<le> z + 719468" using assms(1) by simp
  then obtain era yoe doy where s: "0 \<le> era" "0 \<le> yoe" "yoe < 400" "0 \<le> doy"
    "doy \<le> (if leap (yoe + 1) then 365 else 364)"
    "z = era * 146097 + year_start yoe + doy - 719468" by (rule day_split)
  have date: "march_date (yoe + 400 * era) doy = (y, m, d)"
    using civil_from_days_eq [OF s(1-5)] assms(3) s(6) by simp
  have doy: "doy \<le> 365" using s(5) by (simp split: if_splits)
  note start = year_facts(3) [OF s(2,3)]
  have y: "y \<le> yoe + 400 * era + 1" using day_facts(7) [OF s(4) doy date] by (simp split: if_splits)
  have era: "era \<le> 24" using s(4,6) assms(2) start by linarith
  show ?thesis
  proof (cases "yoe + 400 * era = 9999")
    case True
    with s(2,3) era have "era = 24" "yoe = 399" by linarith+
    then have "doy \<le> 305" using s(6) assms(2) by (simp add: year_start_def)
    with last_march_day [OF date [unfolded True] s(4)] show ?thesis by simp
  next
    case False
    with y era s(3) show ?thesis by linarith
  qed
qed

lemma padded_fixed: "n < 10 ^ w \<Longrightarrow> 0 < w \<Longrightarrow> padded w n = fixed 10 w n"
  by (simp add: padded_def pad0_radix)

text \<open>A timestamp in its parts: the date and the clock of its day.\<close>

definition stamp :: "nat \<Rightarrow> nat \<Rightarrow> nat \<Rightarrow> nat \<Rightarrow> nat \<Rightarrow> nat \<Rightarrow> nat \<Rightarrow> string" where
  "stamp y m d hh mm ss ms = fixed 10 4 y @ ''-'' @ fixed 10 2 m @ ''-'' @ fixed 10 2 d @ ''T''
     @ fixed 10 2 hh @ '':'' @ fixed 10 2 mm @ '':'' @ fixed 10 2 ss @ ''.'' @ fixed 10 3 ms @ ''Z''"

definition clock_ms :: "nat \<Rightarrow> nat \<Rightarrow> nat \<Rightarrow> nat \<Rightarrow> nat" where
  "clock_ms hh mm ss ms = hh * 3600000 + mm * 60000 + ss * 1000 + ms"

lemma days_in_month_le: "days_in_month y m \<le> 31"
  by (simp add: days_in_month_def)

lemma format_stamp:
  assumes "four_digit_year ms" and "civil_from_days (int (unat ms div 86400000)) = (y, m, d)"
  defines "r \<equiv> unat ms mod 86400000"
  shows "time_format ms = stamp (nat y) (nat m) (nat d)
      (r div 3600000) (r div 60000 mod 60) (r div 1000 mod 60) (r mod 1000)"
    and "0 \<le> y" and "y \<le> 9999" and "valid_date y m d"
proof -
  have n: "unat ms < 253402300800000"
    using assms(1) by (simp add: four_digit_year_def word_less_nat_alt)
  have z: "unat ms div 86400000 < 2932897" using n by (intro less_mult_imp_div_less) simp
  show y: "0 \<le> y" "valid_date y m d" using civil_roundtrip [OF _ assms(2)] by simp_all
  show y9: "y \<le> 9999" using civil_year_bound [OF _ _ assms(2)] z by linarith
  have md: "1 \<le> m" "m \<le> 12" "1 \<le> d" "d \<le> 31"
    using y(2) days_in_month_le [of y m] by (simp_all add: valid_date_def)
  have r: "r < 86400000" by (simp add: r_def)
  have "r div 3600000 < 24" by (rule less_mult_imp_div_less) (use r in simp)
  then have hh: "r div 3600000 < 10 ^ 2" by (rule less_trans) simp
  have "x mod 60 < 60" for x :: nat by simp
  then have sixty: "x mod 60 < 10 ^ 2" for x :: nat by (rule less_trans) simp
  have thousand: "r mod 1000 < 10 ^ 3" by simp
  have date: "nat y < 10 ^ 4" "nat m < 10 ^ 2" "nat d < 10 ^ 2" using y9 md by simp_all
  have days: "uint (ms div MS_PER_DAY) = int (unat ms div 86400000)"
    unfolding uint_nat MS_PER_DAY_def unat_div by simp
  have clock: "unat (ms mod MS_PER_DAY div MS_PER_HOUR) = r div 3600000"
    "unat (ms mod MS_PER_DAY div MS_PER_MINUTE mod 60) = r div 60000 mod 60"
    "unat (ms mod MS_PER_DAY div 1000 mod 60) = r div 1000 mod 60"
    "unat (ms mod MS_PER_DAY mod 1000) = r mod 1000"
    by (simp_all add: r_def MS_PER_DAY_def MS_PER_HOUR_def MS_PER_MINUTE_def unat_div unat_mod)
  show "time_format ms = stamp (nat y) (nat m) (nat d)
      (r div 3600000) (r div 60000 mod 60) (r div 1000 mod 60) (r mod 1000)"
    unfolding time_format_def Let_def days assms(2) prod.case clock stamp_def
    by (simp only: padded_fixed [OF hh] padded_fixed [OF sixty] padded_fixed [OF thousand]
        date [THEN padded_fixed] zero_less_numeral)
qed

lemma clock_split:
  "clock_ms (r div 3600000) (r div 60000 mod 60) (r div 1000 mod 60) (r mod 1000) = r"
proof -
  have "r div 60000 div 60 = r div 3600000" "r div 1000 div 60 = r div 60000"
    by (simp_all flip: div_mult2_eq)
  then have "r div 60000 = r div 3600000 * 60 + r div 60000 mod 60"
    "r div 1000 = r div 60000 * 60 + r div 1000 mod 60" "r = r div 1000 * 1000 + r mod 1000"
    using div_mult_mod_eq [of "r div 60000" 60] div_mult_mod_eq [of "r div 1000" 60] by simp_all
  moreover have "h * 3600000 + m' * 60000 + s' * 1000 + x = r"
    if "m = h * 60 + m'" "s = m * 60 + s'" "r = s * 1000 + x" for h m m' s s' x :: nat
    using that by simp
  ultimately show ?thesis unfolding clock_ms_def by blast
qed

lemma stamp_slices:
  "slice 0 4 (stamp y m d hh mm ss ms) = fixed 10 4 y" "slice 5 7 (stamp y m d hh mm ss ms) = fixed 10 2 m"
  "slice 8 10 (stamp y m d hh mm ss ms) = fixed 10 2 d" "slice 11 13 (stamp y m d hh mm ss ms) = fixed 10 2 hh"
  "slice 14 16 (stamp y m d hh mm ss ms) = fixed 10 2 mm" "slice 17 19 (stamp y m d hh mm ss ms) = fixed 10 2 ss"
  "slice 20 23 (stamp y m d hh mm ss ms) = fixed 10 3 ms"
  by (simp_all add: slice_def stamp_def)

lemma stamp_shape: "time_shape (stamp y m d hh mm ss ms)"
  by (simp add: time_shape_def stamp_def nth_append)

lemma parse_fixed:
  "n < 10 ^ w \<Longrightarrow> 0 < w \<Longrightarrow> w \<le> 4 \<Longrightarrow> parse_u64 (fixed 10 w n) = Some (of_nat n)"
  "n < 10 ^ w \<Longrightarrow> 0 < w \<Longrightarrow> w \<le> 4 \<Longrightarrow> parse_u32 (fixed 10 w n) = Some (of_nat n)"
  "n < 10 ^ w \<Longrightarrow> 0 < w \<Longrightarrow> w \<le> 4 \<Longrightarrow> parse_i64 (fixed 10 w n) = Some (int n)"
proof -
  assume n: "n < 10 ^ w" "0 < w" "w \<le> 4"
  have "(10 :: nat) ^ w \<le> 10 ^ 4" using n(3) by (intro power_increasing) simp_all
  with n have "n < 10000" by simp
  with parse_digits_fixed [OF n(1,2)] show "parse_u64 (fixed 10 w n) = Some (of_nat n)"
    "parse_u32 (fixed 10 w n) = Some (of_nat n)" "parse_i64 (fixed 10 w n) = Some (int n)"
    by (simp_all add: parse_u64_def parse_u32_def parse_uint_digits parse_i64_digits)
qed

lemma uint_small: "n < 100 \<Longrightarrow> uint (of_nat n :: u32) = int n"
  by (simp add: unsigned_of_nat take_bit_nat_eq_self uint_nat)

lemma parse_stamp:
  assumes "y < 10000" and "m < 100" and "valid_date (int y) (int m) (int d)" and "hh < 24" and "mm < 60"
    and "ss < 60" and "ms < 1000"
  shows "time_parse (stamp y m d hh mm ss ms) =
    (let days = days_from_civil (int y) (int m) (int d) in
     if days < 0 then None else Some (of_nat (nat days * 86400000 + clock_ms hh mm ss ms)))"
proof -
  have d: "d < 100" using assms(3) days_in_month_le [of "int y" "int m"] by (simp add: valid_date_def)
  have small: "y < 10 ^ 4" "m < 10 ^ 2" "d < 10 ^ 2" "hh < 10 ^ 2" "mm < 10 ^ 2" "ss < 10 ^ 2" "ms < 10 ^ 3"
    using assms d by simp_all
  note parses = small(1) [THEN parse_fixed(3)] small(2,3) [THEN parse_fixed(2)]
    small(4-7) [THEN parse_fixed(1)]
  have clock: "\<not> (of_nat hh :: u64) > 23" "\<not> (of_nat mm :: u64) > 59" "\<not> (of_nat ss :: u64) > 59"
    using assms by (simp_all add: word_less_nat_alt unsigned_of_nat take_bit_nat_eq_self)
  have ok: "\<not> (\<not> (1 \<le> int m \<and> int m \<le> 12) \<or> \<not> (1 \<le> int d \<and> int d \<le> days_in_month (int y) (int m)) \<or>
      (of_nat hh :: u64) > 23 \<or> (of_nat mm :: u64) > 59 \<or> (of_nat ss :: u64) > 59)"
    using assms(3) clock by (simp add: valid_date_def)
  have sum: "word_of_int z * MS_PER_DAY + of_nat hh * MS_PER_HOUR + of_nat mm * MS_PER_MINUTE
      + of_nat ss * 1000 + of_nat ms = (of_nat (nat z * 86400000 + clock_ms hh mm ss ms) :: u64)"
    if z: "\<not> z < 0" for z
  proof -
    obtain k where "z = int k" using z zero_le_imp_eq_int [of z] by (auto simp: not_less)
    then show ?thesis
      by (simp add: clock_ms_def MS_PER_DAY_def MS_PER_HOUR_def MS_PER_MINUTE_def)
  qed
  have width: "(2 :: nat) \<le> 4" "(3 :: nat) \<le> 4" by simp_all
  show ?thesis
    unfolding time_parse_def stamp_slices
    apply (simp only: stamp_shape parses zero_less_numeral order.refl width
        not_True_eq_False if_False Option.bind.bind_lunit uint_small [OF assms(2)] uint_small [OF d])
    apply (subst if_not_P [OF ok])
    unfolding Let_def
    by (cases "days_from_civil (int y) (int m) (int d) < 0") (simp_all only: if_True if_False sum not_False_eq_True)
qed

lemma parse_format:
  assumes "four_digit_year ms"
  shows "time_parse (time_format ms) = Some ms"
proof -
  obtain y m d where date: "civil_from_days (int (unat ms div 86400000)) = (y, m, d)"
    by (cases "civil_from_days (int (unat ms div 86400000))")
  define r where "r = unat ms mod 86400000"
  note f = format_stamp [OF assms date, folded r_def]
  have m: "1 \<le> m" "m \<le> 12" "1 \<le> d" using f(4) by (simp_all add: valid_date_def)
  have r: "r < 86400000" by (simp add: r_def)
  have hh: "r div 3600000 < 24" by (rule less_mult_imp_div_less) (use r in simp)
  have days: "days_from_civil y m d = int (unat ms div 86400000)"
    using civil_roundtrip(3) [OF _ date] by simp
  have small: "nat y < 10000" "nat m < 100" and ints: "int (nat y) = y" "int (nat m) = m" "int (nat d) = d"
    using f(2,3) m by simp_all
  have date': "valid_date (int (nat y)) (int (nat m)) (int (nat d))" unfolding ints by (rule f(4))
  have sixty: "x mod 60 < 60" and thousand: "x mod 1000 < 1000" for x :: nat by simp_all
  have "time_parse (time_format ms) =
      Some (of_nat (unat ms div 86400000 * 86400000 + clock_ms (r div 3600000) (r div 60000 mod 60)
        (r div 1000 mod 60) (r mod 1000)))"
    unfolding f(1) parse_stamp [OF small date' hh sixty sixty thousand] ints days Let_def by simp
  also have "\<dots> = Some (of_nat (unat ms))" unfolding clock_split r_def div_mult_mod_eq ..
  finally show ?thesis by simp
qed

text \<open>A run of digits is the number it names at its own width.\<close>

lemma dec_acc_digits:
  "dec_acc 0 s = Some n \<Longrightarrow> s = fixed 10 (length s) n \<and> n < 10 ^ length s"
proof (induction s arbitrary: n rule: rev_induct)
  case (snoc c s)
  then obtain a v where a: "dec_acc 0 s = Some a" "dec_value c = Some v" "n = 10 * a + v"
    by (auto simp: dec_acc_append split: option.splits)
  from a(2) have v: "v < 10" "digit_char v = c"
    by (auto simp: dec_value_def digit_char_def Let_def split: if_splits)
  from snoc.IH [OF a(1)] a(3) v show ?case by auto
qed simp

lemma parse_uint_unsigned:
  assumes "parse_uint bound s = Some n" and "CHR ''+'' \<notin> List.set s"
  shows "s = fixed 10 (length s) n \<and> n < 10 ^ length s"
proof -
  have "parse_digits s = Some n"
    using assms by (cases s) (auto simp: parse_uint_def split: option.splits if_splits)
  then show ?thesis using dec_acc_digits by (auto simp: parse_digits_def split: if_splits)
qed

lemma days_pre_epoch:
  assumes "1 \<le> m" and "m \<le> 12" and "d \<le> 31" and "y \<le> 0"
  shows "days_from_civil y m d < 0"
proof -
  define y' where "y' = (if m \<le> 2 then y - 1 else y)"
  have "y' \<le> 0" using assms(4) by (simp add: y'_def)
  then have era: "y' div 400 \<le> 0" using zdiv_mono1 [of y' 0 400] by simp
  have "0 \<le> y' mod 400" "y' mod 400 < 400" by simp_all
  from year_facts(4,5) [OF this] have start: "year_start (y' mod 400) \<le> 146096" by simp
  have "(m + 9) mod 12 < 12" by simp
  then have "(153 * ((m + 9) mod 12) + 2) div 5 \<le> (153 * 11 + 2) div 5"
    by (intro zdiv_mono1) simp_all
  then have "march_doy m d \<le> 400" using assms(3) by (simp add: march_doy_def)
  with era start show ?thesis
    unfolding days_from_civil_eq [OF assms(1) y'_def] by linarith
qed


lemma clock_unique:
  assumes "hh < 24" and "mm < 60" and "ss < 60" and "ms < 1000"
  defines "r \<equiv> clock_ms hh mm ss ms"
  shows "r < 86400000" and "r div 3600000 = hh" and "r div 60000 mod 60 = mm"
    and "r div 1000 mod 60 = ss" and "r mod 1000 = ms"
proof -
  have r: "r = ((hh * 60 + mm) * 60 + ss) * 1000 + ms" by (simp add: r_def clock_ms_def)
  have euclid: "(q * k + c) div k = q" "(q * k + c) mod k = c" if "c < k" for q k c :: nat
    using that by simp_all
  have s: "r div 1000 = (hh * 60 + mm) * 60 + ss" "r mod 1000 = ms" unfolding r by (rule euclid, rule assms)+
  have m: "r div 1000 div 60 = hh * 60 + mm" "r div 1000 mod 60 = ss" unfolding s by (rule euclid, rule assms)+
  have h: "r div 1000 div 60 div 60 = hh" "r div 1000 div 60 mod 60 = mm" unfolding m by (rule euclid, rule assms)+
  have "r div 60000 = r div 1000 div 60" "r div 3600000 = r div 1000 div 60 div 60"
    by (simp_all flip: div_mult2_eq)
  with s m h show "r div 3600000 = hh" "r div 60000 mod 60 = mm" "r div 1000 mod 60 = ss" "r mod 1000 = ms"
    by simp_all
  show "r < 86400000" using assms by (simp add: clock_ms_def)
qed

lemma slice_split:
  assumes "length s = 24"
  shows "s = slice 0 4 s @ [s ! 4] @ slice 5 7 s @ [s ! 7] @ slice 8 10 s @ [s ! 10] @ slice 11 13 s
    @ [s ! 13] @ slice 14 16 s @ [s ! 16] @ slice 17 19 s @ [s ! 19] @ slice 20 23 s @ [s ! 23]"
proof -
  have part: "drop i s = slice i j s @ [s ! j] @ drop (Suc j) s" if "i \<le> j" "j < 24" for i j
    using that assms by (simp add: slice_def Cons_nth_drop_Suc)
      (metis append_take_drop_id drop_drop le_add_diff_inverse2)
  have "s = drop 0 s" by simp
  also have "\<dots> = slice 0 4 s @ [s ! 4] @ drop 5 s" by (subst part [of 0 4]) simp_all
  also have "drop 5 s = slice 5 7 s @ [s ! 7] @ drop 8 s" by (subst part [of 5 7]) simp_all
  also have "drop 8 s = slice 8 10 s @ [s ! 10] @ drop 11 s" by (subst part [of 8 10]) simp_all
  also have "drop 11 s = slice 11 13 s @ [s ! 13] @ drop 14 s" by (subst part [of 11 13]) simp_all
  also have "drop 14 s = slice 14 16 s @ [s ! 16] @ drop 17 s" by (subst part [of 14 16]) simp_all
  also have "drop 17 s = slice 17 19 s @ [s ! 19] @ drop 20 s" by (subst part [of 17 19]) simp_all
  also have "drop 20 s = slice 20 23 s @ [s ! 23] @ drop 24 s" by (subst part [of 20 23]) simp_all
  finally show ?thesis using assms by simp
qed

lemma slice_set: "List.set (slice i j s) \<subseteq> List.set s"
  unfolding slice_def using set_take_subset set_drop_subset by (metis subset_trans)

lemma slice_length: "j \<le> length s \<Longrightarrow> length (slice i j s) = j - i"
  by (auto simp: slice_def)

lemma parsed_field:
  assumes "parse_uint bound (slice i j s) = Some n" and "CHR ''+'' \<notin> List.set s" and "j \<le> length s"
  shows "slice i j s = fixed 10 (j - i) n" and "n < 10 ^ (j - i)"
  using parse_uint_unsigned [OF assms(1)] assms(2) slice_set [of i j s] slice_length [OF assms(3)]
  by (metis subsetD)+


lemma days_bound:
  assumes "valid_date y m d" and "0 < y" and "y \<le> 9999"
  shows "days_from_civil y m d < 2932897"
proof -
  define y' where "y' = (if m \<le> 2 then y - 1 else y)"
  have v: "1 \<le> m" "m \<le> 12" "1 \<le> d" "d \<le> 31"
    using assms(1) days_in_month_le [of y m] by (simp_all add: valid_date_def)
  have y': "0 \<le> y'" "y' \<le> 9999" using assms by (simp_all add: y'_def)
  have "(m + 9) mod 12 \<le> 11" by (simp add: zless_imp_add1_zle)
  then have "(153 * ((m + 9) mod 12) + 2) div 5 \<le> (153 * 11 + 2) div 5" by (intro zdiv_mono1) simp_all
  then have doy: "march_doy m d \<le> 367" using v(4) by (simp add: march_doy_def)
  have yoe: "0 \<le> y' mod 400" "y' mod 400 < 400" by simp_all
  have era: "y' div 400 \<le> 24" using zdiv_mono1 [OF y'(2), of 400] by simp
  have split: "y' = y' div 400 * 400 + y' mod 400" by simp
  note days = days_from_civil_eq [OF v(1) y'_def, of d]
  show ?thesis
  proof (cases "y' = 9999")
    case True
    then have "3 \<le> m" using assms(3) by (simp add: y'_def split: if_splits)
    then have "(m + 9) mod 12 = m - 3" using v(2) mod_pos_pos_trivial [of "m - 3" 12]
        mod_add_self2 [of "m - 3" 12] by (simp add: add.commute)
    moreover have "(153 * (m - 3) + 2) div 5 \<le> (153 * 9 + 2) div 5" using v(2) by (intro zdiv_mono1) simp_all
    ultimately have "march_doy m d \<le> 305" using v(4) by (simp add: march_doy_def)
    with True show ?thesis unfolding days by (simp add: year_start_def)
  next
    case False
    have "year_start (y' mod 400) \<le> 146096" using year_facts(4,5) [OF yoe] by simp
    moreover have "year_start (y' mod 400) \<le> 145366" if "y' div 400 = 24"
    proof -
      have le: "y' mod 400 \<le> 398" using that split False y'(2) by linarith
      have "y' mod 400 div 4 \<le> 398 div 4" using le by (rule zdiv_mono1) simp
      moreover have "0 \<le> y' mod 400 div 100" using yoe(1) by simp
      ultimately show ?thesis using le unfolding year_start_def by linarith
    qed
    ultimately show ?thesis using doy era unfolding days by (cases "y' div 400 = 24") linarith+
  qed
qed

lemma format_stamp_of:
  assumes "valid_date (int y) (int m) (int d)" and "y \<le> 9999" and "hh < 24" and "mm < 60" and "ss < 60"
    and "ms < 1000" and "0 \<le> days_from_civil (int y) (int m) (int d)"
  defines "t \<equiv> of_nat (nat (days_from_civil (int y) (int m) (int d)) * 86400000 + clock_ms hh mm ss ms)"
  shows "four_digit_year t" and "time_format t = stamp y m d hh mm ss ms"
proof -
  let ?days = "days_from_civil (int y) (int m) (int d)"
  have md: "1 \<le> int m" "int m \<le> 12" "int d \<le> 31"
    using assms(1) days_in_month_le [of "int y" "int m"] by (simp_all add: valid_date_def)
  have y: "0 < int y"
    using days_pre_epoch [OF md, of "int y"] assms(7) by linarith
  have bound: "?days < 2932897" using days_bound [OF assms(1) y] assms(2) by simp
  note c = clock_unique [OF assms(3-6)]
  let ?n = "nat ?days * 86400000 + clock_ms hh mm ss ms"
  have n: "?n < 253402300800000"
    using bound c(1) by linarith
  then have t: "unat t = ?n"
    unfolding t_def by (simp only: unat_of_nat) (simp add: mod_less)
  show year: "four_digit_year t"
    using n t by (simp add: four_digit_year_def word_less_nat_alt)
  have dm: "unat t div 86400000 = nat ?days" "unat t mod 86400000 = clock_ms hh mm ss ms"
    unfolding t using c(1) by simp_all
  have "civil_from_days (int (unat t div 86400000)) = (int y, int m, int d)"
    using days_roundtrip [OF assms(1) y] assms(7) dm(1) by simp
  from format_stamp(1) [OF year this] show "time_format t = stamp y m d hh mm ss ms"
    unfolding dm c(2-5) by simp
qed

lemma format_parse:
  assumes parse: "time_parse s = Some t" and plus: "CHR ''+'' \<notin> List.set s"
  shows "time_format t = s \<and> four_digit_year t"
proof -
  have shape: "time_shape s" using parse by (simp add: time_parse_def split: if_splits)
  then have len: "length s = 24" by (simp add: time_shape_def)
  from parse shape obtain year month day hour minute second millis where
      p: "parse_i64 (slice 0 4 s) = Some year" "parse_u32 (slice 5 7 s) = Some month"
        "parse_u32 (slice 8 10 s) = Some day" "parse_u64 (slice 11 13 s) = Some hour"
        "parse_u64 (slice 14 16 s) = Some minute" "parse_u64 (slice 17 19 s) = Some second"
        "parse_u64 (slice 20 23 s) = Some millis"
    and v: "1 \<le> uint month" "uint month \<le> 12" "1 \<le> uint day" "uint day \<le> days_in_month year (uint month)"
      "\<not> hour > 23" "\<not> minute > 59" "\<not> second > 59"
    and days: "0 \<le> days_from_civil year (uint month) (uint day)"
    by (auto simp: time_parse_def bind_eq_Some_conv Let_def split: if_splits)
  have md: "1 \<le> uint month" "uint month \<le> 12" "uint day \<le> 31"
    using v days_in_month_le [of year "uint month"] by simp_all
  have pos: "0 < year" using days_pre_epoch [OF md, of year] days by linarith
  from p(1) pos obtain y where y: "parse_uint (2 ^ 63) (slice 0 4 s) = Some y" "year = int y"
    by (auto simp: parse_i64_def split: list.splits if_splits option.splits)
  from p(2-7) obtain m d hh mm ss ms where
      q: "parse_uint (2 ^ 32) (slice 5 7 s) = Some m" "parse_uint (2 ^ 32) (slice 8 10 s) = Some d"
        "parse_uint (2 ^ 64) (slice 11 13 s) = Some hh" "parse_uint (2 ^ 64) (slice 14 16 s) = Some mm"
        "parse_uint (2 ^ 64) (slice 17 19 s) = Some ss" "parse_uint (2 ^ 64) (slice 20 23 s) = Some ms"
    and w: "month = of_nat m" "day = of_nat d" "hour = of_nat hh" "minute = of_nat mm" "second = of_nat ss"
    by (auto simp: parse_u32_def parse_u64_def)
  note f = y(1) [THEN parsed_field(1), OF plus] q [THEN parsed_field(1), OF plus]
  note b = y(1) [THEN parsed_field(2), OF plus] q [THEN parsed_field(2), OF plus]
  have "s = stamp y m d hh mm ss ms"
    using slice_split [OF len] shape len by (simp add: f time_shape_def stamp_def)
  have small: "y < 10000" "m < 100" "d < 100" "hh < 100" "mm < 100" "ss < 100" "ms < 1000"
    using b len by simp_all
  have clock: "hh < 24" "mm < 60" "ss < 60"
    using v(5-7) small unfolding w
    by (simp_all add: word_less_nat_alt unsigned_of_nat take_bit_nat_eq_self)
  have date: "valid_date (int y) (int m) (int d)"
    using v(1-4) small unfolding w y(2) by (simp add: valid_date_def uint_small)
  have days': "0 \<le> days_from_civil (int y) (int m) (int d)"
    using days small unfolding w y(2) by (simp add: uint_small)
  have "t = of_nat (nat (days_from_civil (int y) (int m) (int d)) * 86400000 + clock_ms hh mm ss ms)"
    using parse [unfolded \<open>s = stamp y m d hh mm ss ms\<close> parse_stamp [OF small(1,2) date clock small(7)]] days'
    by (simp add: Let_def)
  with format_stamp_of [OF date _ clock small(7) days'] small(1) \<open>s = stamp y m d hh mm ss ms\<close>
  show ?thesis by simp
qed

section \<open>Order\<close>

lemma stamp_less_date:
  assumes "date_less (int y, int m, int d) (int y', int m', int d')"
    and "y' < 10000" and "m' < 100" and "d' < 100"
  shows "stamp y m d hh mm ss ms < stamp y' m' d' hh' mm' ss' ms'"
proof -
  have less: "fixed 10 w n < fixed 10 w n'" if "n < n'" "n' < 10 ^ w" for w n n'
    using that by (intro fixed_less) simp_all
  consider "y < y'" | "y = y'" "m < m'" | "y = y'" "m = m'" "d < d'"
    using assms(1) by (auto simp: date_less_def)
  then show ?thesis
    using less [of y y' 4] less [of m m' 2] less [of d d' 2] assms(2-4)
    by cases (simp_all add: stamp_def append_less_append)
qed

lemma stamp_less_clock:
  assumes "clock_ms hh mm ss ms < clock_ms hh' mm' ss' ms'"
    and "hh < 24" "mm < 60" "ss < 60" "ms < 1000" "hh' < 24" "mm' < 60" "ss' < 60" "ms' < 1000"
  shows "stamp y m d hh mm ss ms < stamp y m d hh' mm' ss' ms'"
proof -
  have less: "fixed 10 w n < fixed 10 w n'" if "n < n'" "n' < 10 ^ w" for w n n'
    using that by (intro fixed_less) simp_all
  consider "hh < hh'" | "hh = hh'" "mm < mm'" | "hh = hh'" "mm = mm'" "ss < ss'"
    | "hh = hh'" "mm = mm'" "ss = ss'" "ms < ms'"
  proof -
    have "hh \<le> hh'" using assms unfolding clock_ms_def by linarith
    moreover have "mm \<le> mm'" if "hh = hh'" using assms that unfolding clock_ms_def by linarith
    moreover have "ss \<le> ss'" if "hh = hh'" "mm = mm'" using assms that unfolding clock_ms_def by linarith
    moreover have "ms < ms'" if "hh = hh'" "mm = mm'" "ss = ss'"
      using assms that unfolding clock_ms_def by linarith
    ultimately show ?thesis using that by (metis le_neq_implies_less)
  qed
  then show ?thesis
    using less [of hh hh' 2] less [of mm mm' 2] less [of ss ss' 2] less [of ms ms' 3] assms(2-)
    by cases (simp_all add: stamp_def append_less_append)
qed

lemma format_less:
  assumes "a < b" and "four_digit_year b"
  shows "time_format a < time_format b"
proof -
  have ab: "unat a < unat b" using assms(1) by (simp add: word_less_nat_alt)
  have a4: "four_digit_year a" using assms by (simp add: four_digit_year_def)
  obtain y m d where da: "civil_from_days (int (unat a div 86400000)) = (y, m, d)"
    by (cases "civil_from_days (int (unat a div 86400000))")
  obtain y' m' d' where db: "civil_from_days (int (unat b div 86400000)) = (y', m', d')"
    by (cases "civil_from_days (int (unat b div 86400000))")
  note fa = format_stamp [OF a4 da] and fb = format_stamp [OF assms(2) db]
  have nn: "0 \<le> m" "0 \<le> d" "0 \<le> m'" "m' < 100" "0 \<le> d'" "d' < 100"
    using fa(4) fb(4) days_in_month_le [of y' m'] by (simp_all add: valid_date_def)
  have clock: "r div 3600000 < 24" if "r < 86400000" for r :: nat
    by (rule less_mult_imp_div_less) (use that in simp)
  show ?thesis
  proof (cases "unat a div 86400000 = unat b div 86400000")
    case True
    with da db have same: "y' = y" "m' = m" "d' = d" by simp_all
    have "unat a mod 86400000 < unat b mod 86400000"
      using ab True by (metis div_mult_mod_eq nat_add_left_cancel_less)
    then show ?thesis
      unfolding fa(1) fb(1) same by (intro stamp_less_clock) (simp_all add: clock_split clock)
  next
    case False
    with ab have "unat a div 86400000 < unat b div 86400000"
      by (metis div_le_mono le_neq_implies_less less_imp_le_nat)
    then have "date_less (y, m, d) (y', m', d')" 
      using civil_mono [of "int (unat a div 86400000)" "int (unat b div 86400000)"] unfolding da db
      by (simp only: of_nat_0_le_iff of_nat_less_iff simp_thms)
    then have "date_less (int (nat y), int (nat m), int (nat d)) (int (nat y'), int (nat m'), int (nat d'))"
      using nn fa(2) fb(2) by simp
    then show ?thesis
      unfolding fa(1) fb(1) by (rule stamp_less_date) (use nn fb(3) in simp_all)
  qed
qed

section \<open>The timestamps of the table\<close>

lemma dec_value_plus: "dec_value CHR ''+'' = None"
  by code_simp

lemma digit_not_plus: "d < 10 \<Longrightarrow> digit_char d \<noteq> CHR ''+''"
  by (metis dec_value_digit_char dec_value_plus option.distinct(1))

lemma fixed_no_plus: "CHR ''+'' \<notin> List.set (fixed 10 w n)"
  using digit_not_plus [THEN not_sym] by (induction w arbitrary: n) auto

lemma format_plain:
  assumes "four_digit_year ms"
  shows "CHR ''+'' \<notin> List.set (time_format ms)" and "length (time_format ms) = 24"
proof -
  obtain y m d where "civil_from_days (int (unat ms div 86400000)) = (y, m, d)"
    by (cases "civil_from_days (int (unat ms div 86400000))")
  from format_stamp(1) [OF assms this]
  show "CHR ''+'' \<notin> List.set (time_format ms)" "length (time_format ms) = 24"
    by (simp_all add: stamp_def fixed_no_plus)
qed

text \<open>
  C38. The strings without a plus sign that parse are exactly the timestamps the code prints for
  the instants before the year 10000, each read back as the instant it was printed for.
\<close>

theorem time_parse_iff:
  "time_parse s = Some ms \<and> CHR ''+'' \<notin> List.set s \<longleftrightarrow> s = time_format ms \<and> four_digit_year ms"
  using parse_format format_plain(1) format_parse by blast

text \<open>
  Timestamps compare as DynamoDB compares their bytes: for instants before the year 10000
  every timestamp is 24 bytes long and the strings are in the order of the instants.
\<close>

theorem time_format_order:
  assumes "four_digit_year a" and "four_digit_year b"
  shows "(time_format a < time_format b \<longleftrightarrow> a < b) \<and> length (time_format a) = 24"
proof -
  have "a < b \<or> a = b \<or> b < a" by (rule less_linear)
  with format_less [of a b] format_less [of b a] format_plain(2) [OF assms(1)] assms
  show ?thesis by (auto dest: order.asym)
qed

theorem time_format_order_witness:
  "time_format 1442003553936 < time_format 1442003554000
   \<and> time_format 1442003553936 = ''2015-09-11T20:32:33.936Z''"
proof -
  have "four_digit_year 1442003553936" "four_digit_year 1442003554000" by code_simp+
  from time_format_order [OF this] have "time_format 1442003553936 < time_format 1442003554000"
    by (simp add: word_less_nat_alt)
  moreover have "time_format 1442003553936 = ''2015-09-11T20:32:33.936Z''" by code_simp
  ultimately show ?thesis by simp
qed

text \<open>A field may carry a plus sign, which \<open>str::parse\<close> accepts: such a string is not one the code prints.\<close>

lemma time_parse_accepts_plus:
  "time_parse ''2015-+9-11T20:32:33.936Z'' = time_parse ''2015-09-11T20:32:33.936Z''
   \<and> time_parse ''2015-+9-11T20:32:33.936Z'' = Some 1442003553936"
  by (simp add: time_parse_def time_shape_def slice_def parse_i64_def parse_u32_def parse_u64_def
      parse_uint_def parse_digits_def dec_value_def days_in_month_def days_from_civil_def
      signed_divide_int_def signed_modulo_int_def MS_PER_DAY_def MS_PER_HOUR_def MS_PER_MINUTE_def Let_def)

end
