(* ===== verification/Sender.thy ===== *)
theory Sender
  imports Flows Build Objects Time
begin

text \<open>
  \<open>crates/webhook/src/mail/sender.rs\<close>: one queued send becomes one SES call. The backend an
  \<open>AppState\<close> wires together is a record of operations over the state \<open>'w\<close> of the outside world:
  the mail table, the object store, the fetcher, SES and the clock. Third-party pure functions
  (\<open>serde_json\<close> for the send spec, \<open>mail_builder\<close>, \<open>url\<close>) are further fields. Logging and metrics
  are left out.
\<close>

section \<open>The backend\<close>

text \<open>\<open>actions.rs\<close>: one call to SES and what it resolved to.\<close>

record raw_send =
  rs_raw :: bytes
  rs_from :: string
  rs_to :: "string list"
  rs_cc :: "string list"
  rs_bcc :: "string list"
  rs_configuration_set :: string
  rs_identity_arn :: string
  rs_message_id :: string

datatype send_outcome =
    OutcomeSent string | OutcomeFailed string | OutcomeRetryable string | OutcomeUnknown string

text \<open>\<open>config.rs\<close>: what the handlers modelled here read of \<open>MailConfig\<close>.\<close>

record mail_config =
  mc_bucket :: string
  mc_inbox :: inbox_id
  mc_configuration_set :: string
  mc_identity_arn :: string
  mc_region :: string
  mc_retention_days :: u32

text \<open>
  \<open>app_elapsed by w\<close>: the timer armed for the instant \<open>by\<close> fired while the await that led to \<open>w\<close>
  was pending. Instants are milliseconds of the runtime's monotonic clock.
\<close>

record 'w app =
  app_mail :: "mail_config option"
  app_table :: "'w table"
  app_objects :: "'w object_store"
  app_fetch :: "url \<Rightarrow> u64 \<Rightarrow> 'w \<Rightarrow> (fetch_error + bytes) \<times> 'w"
  app_send_raw :: "raw_send \<Rightarrow> 'w \<Rightarrow> send_outcome \<times> 'w"
  app_now_ms :: "'w \<Rightarrow> u64"
  app_instant :: "'w \<Rightarrow> nat"
  app_sleep_until :: "nat \<Rightarrow> 'w \<Rightarrow> 'w"
  app_elapsed :: "nat \<Rightarrow> 'w \<Rightarrow> bool"
  app_parse_spec :: "bytes \<Rightarrow> send_spec option"
  app_write_to_vec :: "message_builder \<Rightarrow> bytes option"
  app_url_parse :: "string \<Rightarrow> url option"

section \<open>Constants and results\<close>

definition MAX_OUTBOUND_DECODED_BYTES :: u64 where "MAX_OUTBOUND_DECODED_BYTES = 28000000"
definition MAX_OUTBOUND_RAW_BYTES :: u64 where "MAX_OUTBOUND_RAW_BYTES = 39500000"
definition CLAIM_STALE_AFTER_MS :: u64 where "CLAIM_STALE_AFTER_MS = 15 * 60 * 1000"
definition SWEEP_LIMIT :: nat where "SWEEP_LIMIT = 100"
definition SEND_RESERVE :: nat where "SEND_RESERVE = 35000"
definition RELEASE_RESERVE :: nat where "RELEASE_RESERVE = 5000"
definition MAX_TRANSIENT_FAILURES :: u32 where "MAX_TRANSIENT_FAILURES = 5"
definition MARK_SENT_ATTEMPTS :: nat where "MARK_SENT_ATTEMPTS = 3"

datatype handled = HandledSent | HandledFailed | HandledUnknown | HandledSkipped

datatype sender_error = SenderStore | SenderNotConfigured

datatype load_error = LoadPermanent send_failure | LoadTransient send_failure

record loaded_part =
  lp_spec :: spec_attachment
  lp_bytes :: bytes

datatype resolution = Resend | CloseSent | CloseFailed

record sweep_report =
  rep_released :: nat
  rep_abandoned :: nat
  rep_marked_unknown :: nat
  rep_still_working :: nat
  rep_errors :: nat
  rep_unknown :: nat

text \<open>\<open>u64::saturating_sub\<close> and \<open>Instant::checked_sub\<close>.\<close>

definition saturating_sub :: "u64 \<Rightarrow> u64 \<Rightarrow> u64" where
  "saturating_sub a b = (if b \<le> a then a - b else 0)"

definition reserve_before :: "'w app \<Rightarrow> nat \<Rightarrow> nat \<Rightarrow> 'w \<Rightarrow> nat" where
  "reserve_before A deadline reserve w = (if reserve \<le> deadline then deadline - reserve else app_instant A w)"

section \<open>Recording an outcome\<close>

definition clear_outbox :: "'w app \<Rightarrow> send_state \<Rightarrow> 'w \<Rightarrow> 'w" where
  "clear_outbox A finished w =
     (let message_id = message_id_str (snd_message_id finished);
          delete_all = fold (\<lambda>key w. snd (obj_delete (app_objects A) key w))
      in case obj_get (app_objects A) (spec_object message_id) MAX_OUTBOUND_RAW_BYTES w of
           (Inr bytes, w') \<Rightarrow>
             (case app_parse_spec A bytes of
                None \<Rightarrow> w'
              | Some spec \<Rightarrow> delete_all (spec_object message_id
                  # map (\<lambda>a. part_object message_id (sa_attachment_id a)) (spec_attachments spec)) w')
         | (Inl ObjNotFound, w') \<Rightarrow> delete_all [spec_object message_id] w'
         | (Inl _, w') \<Rightarrow> w')"

definition record_mark :: "'w app \<Rightarrow> send_state \<Rightarrow> mark_outcome \<Rightarrow> string \<Rightarrow> ('w, unit) io" where
  "record_mark A send outcome now w =
     (case mark_send (app_table A) send outcome now w of
        (Inl e, w') \<Rightarrow> (Inl e, w')
      | (Inr _, w') \<Rightarrow> (Inr (), if settles outcome then clear_outbox A send w' else w'))"

definition store_error :: "mail_store_error \<Rightarrow> sender_error" where
  "store_error _ = SenderStore"

definition fail :: "'w app \<Rightarrow> send_state \<Rightarrow> send_failure \<Rightarrow> string \<Rightarrow> 'w \<Rightarrow> (sender_error + handled) \<times> 'w" where
  "fail A claim failure now w =
     (case record_mark A claim (MFailed failure) now w of
        (Inl e, w') \<Rightarrow> (Inl (store_error e), w')
      | (Inr _, w') \<Rightarrow> (Inr HandledFailed, w'))"

definition wait_before_retry :: "'w app \<Rightarrow> nat \<Rightarrow> nat \<Rightarrow> 'w \<Rightarrow> 'w" where
  "wait_before_retry A delay deadline w =
     (let latest = reserve_before A deadline RELEASE_RESERVE w
      in app_sleep_until A (min (app_instant A w + delay) latest) w)"

definition hand_back ::
  "'w app \<Rightarrow> send_state \<Rightarrow> send_failure \<Rightarrow> string \<Rightarrow> nat \<Rightarrow> 'w \<Rightarrow> (sender_error + handled) \<times> 'w" where
  "hand_back A claim failure now deadline w =
     (if snd_transient_failures claim + 1 \<ge> MAX_TRANSIENT_FAILURES then fail A claim failure now w
      else
        let delay = 1000 * 2 ^ unat (min (snd_transient_failures claim) 4);
            w1 = wait_before_retry A delay deadline w
        in case record_mark A claim MReleased now w1 of
             (Inl e, w') \<Rightarrow> (Inl (store_error e), w')
           | (Inr _, w') \<Rightarrow> (Inr HandledSkipped, w'))"

text \<open>
  The loop of \<open>mark_sent\<close>, over the attempts left: the last returns whatever its result, so
  the list does not run out.
\<close>

fun mark_sent_loop ::
  "'w app \<Rightarrow> send_state \<Rightarrow> ses_sent \<Rightarrow> string \<Rightarrow> nat \<Rightarrow> nat list \<Rightarrow> 'w \<Rightarrow> (sender_error + unit) \<times> 'w" where
  "mark_sent_loop A calling ses now deadline [] w = (Inl SenderStore, w)"
| "mark_sent_loop A calling ses now deadline (n # rest) w =
     (case mark_send (app_table A) calling (MSent ses) now w of
        (Inr _, w') \<Rightarrow> (Inr (), w')
      | (Inl error, w') \<Rightarrow>
          if error = ErrConflict \<or> n \<ge> MARK_SENT_ATTEMPTS then (Inl (store_error error), w')
          else mark_sent_loop A calling ses now deadline rest
                 (wait_before_retry A (1000 * n) deadline w'))"

definition mark_sent ::
  "'w app \<Rightarrow> send_state \<Rightarrow> string \<Rightarrow> string \<Rightarrow> nat \<Rightarrow> 'w \<Rightarrow> (sender_error + unit) \<times> 'w" where
  "mark_sent A calling ses_message_id now deadline w =
     (case app_mail A of
        None \<Rightarrow> (Inl SenderNotConfigured, w)
      | Some config \<Rightarrow>
          mark_sent_loop A calling
            \<lparr>ses_sent_message_id = ses_message_id, ses_sent_region = mc_region config\<rparr>
            now deadline [1..<Suc MARK_SENT_ATTEMPTS] w)"

definition record_outcome ::
  "'w app \<Rightarrow> send_state \<Rightarrow> send_outcome \<Rightarrow> string \<Rightarrow> nat \<Rightarrow> 'w \<Rightarrow> (sender_error + handled) \<times> 'w" where
  "record_outcome A calling outcome now deadline w =
     (case outcome of
        OutcomeSent ses_message_id \<Rightarrow>
          (case mark_sent A calling ses_message_id now deadline w of
             (Inl e, w') \<Rightarrow> (Inl e, w')
           | (Inr _, w') \<Rightarrow> (Inr HandledSent, clear_outbox A calling w'))
      | OutcomeFailed _ \<Rightarrow> fail A calling Rejected now w
      | OutcomeRetryable _ \<Rightarrow> hand_back A calling SesUnavailable now deadline w
      | OutcomeUnknown _ \<Rightarrow>
          (case record_mark A calling MUnknown now w of
             (Inl e, w') \<Rightarrow> (Inl (store_error e), w')
           | (Inr _, w') \<Rightarrow> (Inr HandledUnknown, w')))"

section \<open>Loading a send\<close>

fun object_load_error :: "object_error \<Rightarrow> send_failure \<Rightarrow> load_error" where
  "object_load_error ObjNotFound missing = LoadPermanent missing"
| "object_load_error ObjTransient missing = LoadTransient OutboxUnavailable"
| "object_load_error ObjPermanent missing = LoadPermanent OutboxUnavailable"
| "object_load_error (ObjTooLarge _) missing = LoadPermanent OutboxUnavailable"

definition fetch_load_error :: "fetch_error \<Rightarrow> load_error" where
  "fetch_load_error error =
     (if is_transient error then LoadTransient AttachmentFetchUnavailable
      else LoadPermanent AttachmentFetchFailed)"

text \<open>
  A load runs under \<open>timeout_at\<close>: it ends with its own result, \<open>Some\<close>, or is dropped at the
  await that was pending when the timer fired, \<open>None\<close>. \<open>timed\<close> is one await.
\<close>

type_synonym ('w, 'a) load = "'w \<Rightarrow> (load_error + 'a) option \<times> 'w"

definition timed :: "'w app \<Rightarrow> nat \<Rightarrow> ('w \<Rightarrow> 'a \<times> 'w) \<Rightarrow> ('a \<Rightarrow> ('w, 'b) load) \<Rightarrow> ('w, 'b) load" where
  "timed A by op k w = (case op w of (a, w') \<Rightarrow> if app_elapsed A by w' then (None, w') else k a w')"

definition load_err :: "load_error \<Rightarrow> ('w, 'a) load" where
  "load_err e w = (Some (Inl e), w)"

definition load_ok :: "'a \<Rightarrow> ('w, 'a) load" where
  "load_ok a w = (Some (Inr a), w)"

definition load_then :: "('w, 'a) load \<Rightarrow> ('a \<Rightarrow> ('w, 'b) load) \<Rightarrow> ('w, 'b) load" where
  "load_then m k w = (case m w of
       (None, w') \<Rightarrow> (None, w')
     | (Some (Inl e), w') \<Rightarrow> (Some (Inl e), w')
     | (Some (Inr a), w') \<Rightarrow> k a w')"

definition load_spec :: "'w app \<Rightarrow> nat \<Rightarrow> message_id \<Rightarrow> ('w, send_spec) load" where
  "load_spec A by message_id =
     timed A by (obj_get (app_objects A) (spec_object (message_id_str message_id)) MAX_OUTBOUND_RAW_BYTES)
       (\<lambda>res. case res of
          Inl error \<Rightarrow> load_err (object_load_error error SendSpecMissing)
        | Inr bytes \<Rightarrow> (case app_parse_spec A bytes of
              None \<Rightarrow> load_err (LoadPermanent SendSpecMissing)
            | Some spec \<Rightarrow> load_ok spec))"

definition stored_as :: "spec_attachment \<Rightarrow> string \<Rightarrow> bytes \<Rightarrow> loaded_part" where
  "stored_as attachment key bytes =
     \<lparr>lp_spec = attachment\<lparr>sa_object_key := Some key, sa_size := of_nat (length bytes)\<rparr>, lp_bytes = bytes\<rparr>"

text \<open>The part of \<open>load_parts\<close> for an attachment no earlier attempt has stored: fetch it and store it.\<close>

definition fetch_part :: "'w app \<Rightarrow> nat \<Rightarrow> string \<Rightarrow> spec_attachment \<Rightarrow> u64 \<Rightarrow> ('w, loaded_part) load" where
  "fetch_part A by stored_key attachment budget =
     (case sa_url attachment of
        None \<Rightarrow> load_err (LoadPermanent AttachmentFetchFailed)
      | Some raw_url \<Rightarrow> (case parse_attachment_url (app_url_parse A) raw_url of
            Inl rejected \<Rightarrow> load_err (LoadPermanent AttachmentFetchFailed)
          | Inr url \<Rightarrow> timed A by (app_fetch A url budget) (\<lambda>res. case res of
                Inl error \<Rightarrow> load_err (fetch_load_error error)
              | Inr fetched \<Rightarrow>
                  timed A by (obj_put_if_absent (app_objects A) stored_key fetched (sa_content_type attachment))
                    (\<lambda>res. case res of
                       Inl error \<Rightarrow> load_err (object_load_error error AttachmentFetchFailed)
                     | Inr _ \<Rightarrow> load_ok (stored_as attachment stored_key fetched)))))"

definition load_part :: "'w app \<Rightarrow> nat \<Rightarrow> message_id \<Rightarrow> spec_attachment \<Rightarrow> u64 \<Rightarrow> ('w, loaded_part) load" where
  "load_part A by message_id attachment budget =
     (case sa_object_key attachment of
        Some key \<Rightarrow>
          timed A by (obj_get (app_objects A) key MAX_OUTBOUND_RAW_BYTES) (\<lambda>res. case res of
              Inl error \<Rightarrow> load_err (object_load_error error AttachmentFetchFailed)
            | Inr bytes \<Rightarrow> load_ok \<lparr>lp_spec = attachment, lp_bytes = bytes\<rparr>)
      | None \<Rightarrow>
          let stored_key = part_object (message_id_str message_id) (sa_attachment_id attachment) in
          timed A by (obj_get (app_objects A) stored_key MAX_OUTBOUND_RAW_BYTES) (\<lambda>res. case res of
              Inr bytes \<Rightarrow> load_ok (stored_as attachment stored_key bytes)
            | Inl ObjNotFound \<Rightarrow> fetch_part A by stored_key attachment budget
            | Inl error \<Rightarrow> load_err (object_load_error error AttachmentFetchFailed)))"

fun load_parts :: "'w app \<Rightarrow> nat \<Rightarrow> message_id \<Rightarrow> u64 \<Rightarrow> spec_attachment list \<Rightarrow> ('w, loaded_part list) load" where
  "load_parts A by message_id budget [] = load_ok []"
| "load_parts A by message_id budget (attachment # rest) =
     load_then (load_part A by message_id attachment budget) (\<lambda>part.
       load_then (load_parts A by message_id
           (saturating_sub budget (of_nat (length (lp_bytes part)))) rest) (\<lambda>parts.
         load_ok (part # parts)))"

definition load :: "'w app \<Rightarrow> nat \<Rightarrow> message_id \<Rightarrow> ('w, send_spec \<times> loaded_part list) load" where
  "load A by message_id =
     load_then (load_spec A by message_id) (\<lambda>spec.
       load_then (load_parts A by (spec_message_id spec) MAX_OUTBOUND_DECODED_BYTES (spec_attachments spec))
         (\<lambda>parts. load_ok (spec, parts)))"

section \<open>One send\<close>

definition build_send :: "'w app \<Rightarrow> send_spec \<Rightarrow> loaded_part list \<Rightarrow> send_failure + bytes" where
  "build_send A spec parts =
     (case build_outbound (app_write_to_vec A) spec
        (map (\<lambda>part. \<lparr>bp_spec = lp_spec part, bp_bytes = lp_bytes part\<rparr>) parts)
        (unat MAX_OUTBOUND_RAW_BYTES) of
        Inr built \<Rightarrow> Inr built
      | Inl (BuildErrTooLarge _ _) \<Rightarrow> Inl MessageTooLarge
      | Inl BuildErrFailed \<Rightarrow> Inl BuildFailed)"

definition raw_of :: "mail_config \<Rightarrow> message_id \<Rightarrow> send_spec \<Rightarrow> bytes \<Rightarrow> raw_send" where
  "raw_of config message_id spec built =
     \<lparr>rs_raw = built, rs_from = spec_from spec, rs_to = env_to (spec_envelope spec),
      rs_cc = env_cc (spec_envelope spec), rs_bcc = env_bcc (spec_envelope spec),
      rs_configuration_set = mc_configuration_set config, rs_identity_arn = mc_identity_arn config,
      rs_message_id = message_id_str message_id\<rparr>"

text \<open>\<open>handle_send\<close> from the SES call on, and from the built message on.\<close>

definition call_ses ::
  "'w app \<Rightarrow> mail_config \<Rightarrow> message_id \<Rightarrow> send_spec \<Rightarrow> bytes \<Rightarrow> send_state \<Rightarrow> string \<Rightarrow> nat \<Rightarrow> 'w
     \<Rightarrow> (sender_error + handled) \<times> 'w" where
  "call_ses A config message_id spec built calling now deadline w =
     (case app_send_raw A (raw_of config message_id spec built) w of
        (outcome, w') \<Rightarrow> record_outcome A calling outcome now deadline w')"

definition send_built ::
  "'w app \<Rightarrow> mail_config \<Rightarrow> message_id \<Rightarrow> send_spec \<Rightarrow> bytes \<Rightarrow> send_state \<Rightarrow> string \<Rightarrow> nat \<Rightarrow> 'w
     \<Rightarrow> (sender_error + handled) \<times> 'w" where
  "send_built A config message_id spec built claim now deadline w =
     (case note_ses_call (app_table A) claim now w of
        (Inl e, w') \<Rightarrow> (Inl (store_error e), w')
      | (Inr None, w') \<Rightarrow> (Inr HandledSkipped, w')
      | (Inr (Some calling), w') \<Rightarrow> call_ses A config message_id spec built calling now deadline w')"

definition send_claimed ::
  "'w app \<Rightarrow> mail_config \<Rightarrow> message_id \<Rightarrow> send_state \<Rightarrow> string \<Rightarrow> nat \<Rightarrow> 'w
     \<Rightarrow> (sender_error + handled) \<times> 'w" where
  "send_claimed A config message_id claim now deadline w =
     (let load_by = reserve_before A deadline SEND_RESERVE w in
      case load A load_by message_id w of
        (None, w') \<Rightarrow> hand_back A claim AttachmentFetchUnavailable now deadline w'
      | (Some (Inl (LoadPermanent failure)), w') \<Rightarrow> fail A claim failure now w'
      | (Some (Inl (LoadTransient failure)), w') \<Rightarrow> hand_back A claim failure now deadline w'
      | (Some (Inr (spec, parts)), w') \<Rightarrow>
          (case build_send A spec parts of
             Inl failure \<Rightarrow> fail A claim failure now w'
           | Inr built \<Rightarrow> send_built A config message_id spec built claim now deadline w'))"

definition handle_send :: "'w app \<Rightarrow> message_id \<Rightarrow> nat \<Rightarrow> 'w \<Rightarrow> (sender_error + handled) \<times> 'w" where
  "handle_send A message_id deadline w =
     (case app_mail A of
        None \<Rightarrow> (Inl SenderNotConfigured, w)
      | Some config \<Rightarrow>
          let now = time_format (app_now_ms A w) in
          case claim_send (app_table A) message_id now w of
            (Inl e, w') \<Rightarrow> (Inl (store_error e), w')
          | (Inr None, w') \<Rightarrow> (Inr HandledSkipped, w')
          | (Inr (Some claim), w') \<Rightarrow> send_claimed A config message_id claim now deadline w')"

section \<open>The sweep and the operator\<close>

fun resolution_outcome :: "resolution \<Rightarrow> mark_outcome" where
  "resolution_outcome Resend = MResumed"
| "resolution_outcome CloseSent = MClosedSent"
| "resolution_outcome CloseFailed = MFailed ClosedByOperator"

definition resolve_unknown :: "'w app \<Rightarrow> message_id \<Rightarrow> resolution \<Rightarrow> 'w \<Rightarrow> (sender_error + unit) \<times> 'w" where
  "resolve_unknown A message_id resolution w =
     (let now = time_format (app_now_ms A w) in
      case get_send_state (app_table A) message_id w of
        (Inl e, w') \<Rightarrow> (Inl (store_error e), w')
      | (Inr None, w') \<Rightarrow> (Inl SenderStore, w')
      | (Inr (Some send), w') \<Rightarrow>
          if snd_send_status send \<noteq> Unknown then (Inl SenderStore, w')
          else (case record_mark A send (resolution_outcome resolution) now w' of
                  (Inl e, w'') \<Rightarrow> (Inl (store_error e), w'')
                | (Inr _, w'') \<Rightarrow> (Inr (), w'')))"

definition claimed_ms :: "u64 \<Rightarrow> send_state \<Rightarrow> u64" where
  "claimed_ms now_ms stuck =
     (case Option.bind (snd_sending_at stuck) time_parse of None \<Rightarrow> now_ms | Some ms \<Rightarrow> ms)"

text \<open>What the sweep records for a stale claim.\<close>

definition stale_outcome :: "send_state \<Rightarrow> mark_outcome" where
  "stale_outcome stuck =
     (if snd_ses_call_at stuck \<noteq> None then MUnknown
      else if snd_transient_failures stuck + 1 \<ge> MAX_TRANSIENT_FAILURES then MFailed SenderAbandoned
      else MReleased)"

definition counted :: "mark_outcome \<Rightarrow> sweep_report \<Rightarrow> sweep_report" where
  "counted outcome report = (case outcome of
       MUnknown \<Rightarrow> report\<lparr>rep_marked_unknown := rep_marked_unknown report + 1\<rparr>
     | MFailed _ \<Rightarrow> report\<lparr>rep_abandoned := rep_abandoned report + 1\<rparr>
     | _ \<Rightarrow> report\<lparr>rep_released := rep_released report + 1\<rparr>)"

fun sweep_stuck :: "'w app \<Rightarrow> u64 \<Rightarrow> string \<Rightarrow> send_state list \<Rightarrow> sweep_report \<Rightarrow> 'w \<Rightarrow> sweep_report \<times> 'w" where
  "sweep_stuck A now_ms now [] report w = (report, w)"
| "sweep_stuck A now_ms now (stuck # rest) report w =
     (if saturating_sub now_ms (claimed_ms now_ms stuck) < CLAIM_STALE_AFTER_MS
      then sweep_stuck A now_ms now rest
             (report\<lparr>rep_still_working := rep_still_working report + 1\<rparr>) w
      else case record_mark A stuck (stale_outcome stuck) now w of
          (Inr _, w') \<Rightarrow> sweep_stuck A now_ms now rest (counted (stale_outcome stuck) report) w'
        | (Inl e, w') \<Rightarrow>
            sweep_stuck A now_ms now rest (report\<lparr>rep_errors := rep_errors report + 1\<rparr>) w')"

definition sweep :: "'w app \<Rightarrow> 'w \<Rightarrow> (sender_error + sweep_report) \<times> 'w" where
  "sweep A w =
     (let now_ms = app_now_ms A w; now = time_format now_ms in
      case list_by_status (app_table A) Sending SWEEP_LIMIT w of
        (Inl e, w') \<Rightarrow> (Inl (store_error e), w')
      | (Inr stuck, w') \<Rightarrow>
          (case sweep_stuck A now_ms now stuck \<lparr>rep_released = 0, rep_abandoned = 0,
               rep_marked_unknown = 0, rep_still_working = 0, rep_errors = 0, rep_unknown = 0\<rparr> w' of
             (report, w1) \<Rightarrow>
               (case list_by_status (app_table A) Unknown SWEEP_LIMIT w1 of
                  (Inl e, w2) \<Rightarrow> (Inl (store_error e), w2)
                | (Inr left, w2) \<Rightarrow> (Inr (report\<lparr>rep_unknown := length left\<rparr>), w2))))"

section \<open>The stream\<close>

record stream_record =
  er_event_name :: string
  er_new_image :: item
  er_old_image :: item
  er_sequence_number :: "string option"

definition image_str :: "item \<Rightarrow> string \<Rightarrow> string option" where
  "image_str img key = (case img key of Some (AvS value) \<Rightarrow> Some value | _ \<Rightarrow> None)"

definition queued_send_id :: "stream_record \<Rightarrow> message_id option" where
  "queued_send_id r =
     (let new_image = er_new_image r in
      case image_str new_image ''sk'' of
        None \<Rightarrow> None
      | Some sk \<Rightarrow>
          if sk \<noteq> SEND_STATE_SK then None
          else case image_str new_image ''send_status'' of
              None \<Rightarrow> None
            | Some status \<Rightarrow>
                if status \<noteq> send_status_str Queued then None
                else case Option.bind (image_str new_image ''pk'') parse_outbox_pk of
                    None \<Rightarrow> None
                  | Some mid \<Rightarrow>
                      if er_event_name r = ''INSERT'' then Some (MessageId mid)
                      else if er_event_name r = ''MODIFY'' then
                        (if image_str (er_old_image r) ''requeued_at'' = None \<and>
                            image_str new_image ''requeued_at'' \<noteq> None
                         then Some (MessageId mid) else None)
                      else None)"

fun handle_sender_stream :: "'w app \<Rightarrow> nat \<Rightarrow> stream_record list \<Rightarrow> 'w \<Rightarrow> string list \<times> 'w" where
  "handle_sender_stream A deadline [] w = ([], w)"
| "handle_sender_stream A deadline (r # rest) w =
     (case queued_send_id r of
        None \<Rightarrow> handle_sender_stream A deadline rest w
      | Some message_id \<Rightarrow>
          (case handle_send A message_id deadline w of
             (Inl _, w') \<Rightarrow>
               (case handle_sender_stream A deadline rest w' of (failures, w'') \<Rightarrow>
                  (case er_sequence_number r of None \<Rightarrow> failures | Some n \<Rightarrow> n # failures, w''))
           | (Inr _, w') \<Rightarrow> handle_sender_stream A deadline rest w'))"

end
