(* ===== verification/Validate.thy ===== *)
theory Validate
  imports ApiErrors Labels Sender
begin

text \<open>
  \<open>crates/webhook/src/api/send/validate.rs\<close>, \<open>normalize_labels\<close> of \<open>api/labels.rs\<close> and
  \<open>envelope_address\<close> of \<open>mailbox/src/address.rs\<close>: the rules a send request passes before
  anything is stored. The list of errors the code appends to is threaded through each check.

  Parameters, in a record: Unicode's lowercase mapping behind \<open>str::to_lowercase\<close>, the crates
  \<open>structured_email_address\<close> (an entry read with \<open>ENTRY_CONFIG\<close>, as its local part and canonical
  form, and a string checked with \<open>ENVELOPE_CONFIG\<close>; a refusal is its message), \<open>mime\<close> (the
  subtype of a media type), \<open>base64\<close> and \<open>url\<close>.
\<close>

section \<open>The request\<close>

record send_libs =
  lib_to_lowercase :: "string \<Rightarrow> string"
  lib_parse_entry :: "string \<Rightarrow> string + string \<times> string"
  lib_parse_envelope :: "string \<Rightarrow> string option"
  lib_mime_subtype :: "string \<Rightarrow> string option"
  lib_base64_decode :: "string \<Rightarrow> bytes option"
  lib_url_parse :: "string \<Rightarrow> url option"

type_synonym addresses_input = "string one_or_many"

record attachment_input =
  ai_content :: "string option"
  ai_url :: "string option"
  ai_filename :: "string option"
  ai_content_type :: "string option"
  ai_content_disposition :: "string option"
  ai_content_id :: "string option"

record send_request =
  sr_to :: "addresses_input option"
  sr_cc :: "addresses_input option"
  sr_bcc :: "addresses_input option"
  sr_reply_to :: "addresses_input option"
  sr_subject :: "string option"
  sr_text :: "string option"
  sr_html :: "string option"
  sr_labels :: "string list option"
  sr_headers :: "(string, string) btree_map option"
  sr_attachments :: "attachment_input list option"

datatype attachment_source = SourceInline bytes | SourceUrl url

record validated_attachment =
  va_source :: attachment_source
  va_filename :: "string option"
  va_content_type :: string
  va_content_disposition :: content_disposition
  va_content_id :: "string option"

record validated_send =
  vs_to :: "string list"
  vs_cc :: "string list"
  vs_bcc :: "string list"
  vs_reply_to :: "string list"
  vs_subject :: string
  vs_text :: "string option"
  vs_html :: "string option"
  vs_labels :: "string list"
  vs_headers :: "(string, string) btree_map"
  vs_attachments :: "validated_attachment list"

definition CONTROLLED_HEADERS :: "string list" where
  "CONTROLLED_HEADERS =
     [''from'', ''sender'', ''to'', ''cc'', ''bcc'', ''reply-to'', ''subject'', ''date'', ''message-id'',
      ''in-reply-to'', ''references'', ''return-path'', ''mime-version'']"

definition CONTENT_ID_MAX_BYTES :: nat where "CONTENT_ID_MAX_BYTES = 250"
definition CONTENT_TYPE_MAX_BYTES :: nat where "CONTENT_TYPE_MAX_BYTES = 127"
definition DEFAULT_CONTENT_TYPE :: string where "DEFAULT_CONTENT_TYPE = ''application/octet-stream''"
definition LABEL_MAX_BYTES :: nat where "LABEL_MAX_BYTES = 64"
definition SUBJECT_MAX_BYTES :: nat where "SUBJECT_MAX_BYTES = 2000"
definition ADDRESS_MAX_BYTES :: nat where "ADDRESS_MAX_BYTES = 320"
definition OUTBOUND_RECIPIENTS_MAX :: nat where "OUTBOUND_RECIPIENTS_MAX = 50"
definition HEADER_NAME_MAX :: nat where "HEADER_NAME_MAX = 128"
definition HEADERS_BUDGET :: nat where "HEADERS_BUDGET = 32000"
definition ATTACHMENTS_MAX :: nat where "ATTACHMENTS_MAX = 100"
definition ATTACHMENT_FIELD_MAX :: nat where "ATTACHMENT_FIELD_MAX = 255"

abbreviation dec :: "nat \<Rightarrow> string" where "dec n \<equiv> radix 10 n"

abbreviation ticked :: "string \<Rightarrow> string" where "ticked s \<equiv> ''`'' @ s @ ''`''"

section \<open>Checks on strings\<close>

definition non_empty_str :: "string option \<Rightarrow> string option" where
  "non_empty_str value = (case value of None \<Rightarrow> None | Some v \<Rightarrow> if v = [] then None else Some v)"

definition contains_newline :: "string \<Rightarrow> bool" where
  "contains_newline value \<longleftrightarrow> CHR 0x0D \<in> set value \<or> CHR 0x0A \<in> set value"

definition is_ascii :: "string \<Rightarrow> bool" where
  "is_ascii s \<longleftrightarrow> list_all (\<lambda>c. (of_char c :: nat) < 128) s"

definition is_ascii_whitespace :: "char \<Rightarrow> bool" where
  "is_ascii_whitespace c \<longleftrightarrow> (of_char c :: nat) \<in> {9, 10, 12, 13, 32}"

text \<open>\<open>char::is_control\<close> of some character: one below space, DEL, or U+0080 to U+009F by its two bytes.\<close>

fun has_control :: "string \<Rightarrow> bool" where
  "has_control [] = False"
| "has_control (c # s) \<longleftrightarrow> (of_char c :: nat) < 32 \<or> (of_char c :: nat) = 127 \<or>
     ((of_char c :: nat) = 0xC2 \<and> s \<noteq> [] \<and> 0x80 \<le> (of_char (hd s) :: nat) \<and> (of_char (hd s) :: nat) \<le> 0x9F) \<or>
     has_control s"

definition envelope_address :: "send_libs \<Rightarrow> string \<Rightarrow> string + string" where
  "envelope_address L value =
     (case lib_parse_entry L value of
        Inl e \<Rightarrow> Inl (''is not an email address: '' @ e)
      | Inr (local_part, canonical) \<Rightarrow>
          if \<not> is_ascii local_part then Inl ''has a non-ASCII local part, which SES cannot deliver to''
          else (case lib_parse_envelope L canonical of
              Some e \<Rightarrow> Inl (''is not an SMTP mailbox: '' @ e)
            | None \<Rightarrow> Inr canonical))"

section \<open>Addresses\<close>

definition address_step ::
  "send_libs \<Rightarrow> string \<Rightarrow> string \<Rightarrow> string list \<times> field_error list \<Rightarrow> string list \<times> field_error list" where
  "address_step L path raw acc =
     (case acc of (out, errors) \<Rightarrow>
        let address = trim raw in
        if address = [] then (out, errors @ [FieldError path ''an address cannot be empty''])
        else if length address > ADDRESS_MAX_BYTES then
          (out, errors @ [FieldError path (''an address must be at most '' @ dec ADDRESS_MAX_BYTES @ '' bytes'')])
        else if contains_newline address then
          (out, errors @ [FieldError path ''an address must not contain a line break''])
        else case envelope_address L address of
            Inl problem \<Rightarrow> (out, errors @ [FieldError path (ticked address @ '' '' @ problem)])
          | Inr address \<Rightarrow> (if address \<in> set out then out else out @ [address], errors))"

definition addresses_of ::
  "send_libs \<Rightarrow> addresses_input option \<Rightarrow> string \<Rightarrow> field_error list \<Rightarrow> string list \<times> field_error list" where
  "addresses_of L input path errors =
     fold (address_step L path) (case input of None \<Rightarrow> [] | Some i \<Rightarrow> into_vec i) ([], errors)"

section \<open>Labels\<close>

definition label_step ::
  "send_libs \<Rightarrow> string \<Rightarrow> string \<Rightarrow> string list \<times> field_error list \<Rightarrow> string list \<times> field_error list" where
  "label_step L field raw acc =
     (case acc of (cleaned, errors) \<Rightarrow>
        let label = lib_to_lowercase L (trim raw) in
        if label = [] then (cleaned, errors @ [FieldError field ''a label cannot be empty''])
        else if length label > LABEL_MAX_BYTES then
          (cleaned, errors @ [FieldError field (ticked label @ '' is longer than '' @ dec LABEL_MAX_BYTES @ '' bytes'')])
        else if is_reserved label then
          (cleaned, errors @ [FieldError field (ticked label @
             '' is set by the service and cannot be changed; only `unread`, `spam`, `trash` and your own labels can'')])
        else (if label \<in> set cleaned then cleaned else cleaned @ [label], errors))"

definition normalize_labels ::
  "send_libs \<Rightarrow> string list \<Rightarrow> string \<Rightarrow> field_error list \<Rightarrow> string list \<times> field_error list" where
  "normalize_labels L labels_in field errors =
     (case fold (label_step L field) labels_in ([], errors) of (cleaned, errors) \<Rightarrow>
        (sort cleaned,
         if user_label_count cleaned > MESSAGE_USER_LABEL_CAP
         then errors @ [FieldError field (''at most '' @ dec MESSAGE_USER_LABEL_CAP @ '' labels per request'')]
         else errors))"

section \<open>Headers\<close>

definition is_header_name :: "string \<Rightarrow> bool" where
  "is_header_name name \<longleftrightarrow> name \<noteq> [] \<and>
     list_all (\<lambda>b. is_graphic b \<and> b \<noteq> CHR '':'' \<and> b \<noteq> CHR '';'') name"

definition header_step ::
  "send_libs \<Rightarrow> string \<times> string \<Rightarrow> (string, string) btree_map \<times> nat \<times> field_error list
     \<Rightarrow> (string, string) btree_map \<times> nat \<times> field_error list" where
  "header_step L entry acc =
     (case entry of (name, value) \<Rightarrow> case acc of (out, budget, errors) \<Rightarrow>
        let trimmed = trim name in
        if \<not> is_header_name trimmed then
          (out, budget, errors @ [FieldError ''headers'' (ticked name @ '' is not a header name'')])
        else if length trimmed > HEADER_NAME_MAX then
          (out, budget, errors @ [FieldError ''headers''
             (ticked trimmed @ '' is longer than '' @ dec HEADER_NAME_MAX @ '' bytes'')])
        else if lib_to_lowercase L trimmed \<in> set CONTROLLED_HEADERS \<or>
            prefix ''content-'' (lib_to_lowercase L trimmed) then
          (out, budget, errors @ [FieldError ''headers''
             (ticked trimmed @ '' is set by the service and cannot be overridden'')])
        else if length value > HEADER_VALUE_MAX then
          (out, budget, errors @ [FieldError ''headers''
             (''the value of '' @ ticked trimmed @ '' is longer than '' @ dec HEADER_VALUE_MAX @ '' bytes'')])
        else if contains_newline value then
          (out, budget, errors @ [FieldError ''headers''
             (''the value of '' @ ticked trimmed @ '' must not contain a line break'')])
        else (bt_insert trimmed value out, budget + (length trimmed + length value), errors))"

definition headers_of ::
  "send_libs \<Rightarrow> (string, string) btree_map option \<Rightarrow> field_error list
     \<Rightarrow> (string, string) btree_map \<times> field_error list" where
  "headers_of L input errors =
     (case fold (header_step L) (case input of None \<Rightarrow> [] | Some m \<Rightarrow> bt_entries m) (bt_empty, 0, errors) of
        (out, budget, errors) \<Rightarrow>
          (out,
           if budget > HEADERS_BUDGET
           then errors @ [FieldError ''headers''
             (''all headers together must be at most '' @ dec HEADERS_BUDGET @ '' bytes'')]
           else errors))"

section \<open>Attachments\<close>

definition is_content_type :: "send_libs \<Rightarrow> string \<Rightarrow> bool" where
  "is_content_type L value =
     (if length value > CONTENT_TYPE_MAX_BYTES \<or> contains_newline value then False
      else case lib_mime_subtype L value of None \<Rightarrow> False | Some subtype \<Rightarrow> subtype \<noteq> [])"

fun url_rejected_str :: "url_rejected \<Rightarrow> string" where
  "url_rejected_str Malformed = ''the URL could not be parsed''"
| "url_rejected_str TooLong = ''the URL is longer than the limit''"
| "url_rejected_str NotHttps = ''only https URLs can be fetched''"
| "url_rejected_str HasUserinfo = ''a URL with embedded credentials cannot be fetched''"
| "url_rejected_str PortNotAllowed = ''only the default https port can be fetched''"
| "url_rejected_str NoHost = ''the URL has no host''"
| "url_rejected_str HostNotPublic = ''that host is not a public address''"

definition attachment_source_of ::
  "send_libs \<Rightarrow> attachment_input \<Rightarrow> string \<Rightarrow> field_error list \<Rightarrow> attachment_source option \<times> field_error list" where
  "attachment_source_of L a path errors =
     (case (ai_content a, ai_url a) of
        (Some content, None) \<Rightarrow>
          (case lib_base64_decode L (filter (\<lambda>c. \<not> is_ascii_whitespace c) content) of
             None \<Rightarrow> (None, errors @ [FieldError path ''`content` is not valid base64''])
           | Some bytes \<Rightarrow> (Some (SourceInline bytes), errors))
      | (None, Some url) \<Rightarrow>
          (case parse_attachment_url (lib_url_parse L) url of
             Inr url \<Rightarrow> (Some (SourceUrl url), errors)
           | Inl rejected \<Rightarrow>
               (None, errors @ [FieldError path (''`url` was refused: '' @ url_rejected_str rejected)]))
      | _ \<Rightarrow> (None, errors @ [FieldError path ''give exactly one of `content` or `url`'']))"

fun inline_bytes :: "attachment_source option \<Rightarrow> u64" where
  "inline_bytes (Some (SourceInline bytes)) = of_nat (length bytes)"
| "inline_bytes _ = 0"

definition filename_errors :: "string \<Rightarrow> string option \<Rightarrow> field_error list" where
  "filename_errors path filename = (case filename of None \<Rightarrow> []
     | Some name \<Rightarrow>
         (if length name > ATTACHMENT_FIELD_MAX
          then [FieldError path (''`filename` is longer than '' @ dec ATTACHMENT_FIELD_MAX @ '' bytes'')] else [])
         @ (if has_control name then [FieldError path ''`filename` must not contain control characters''] else []))"

definition disposition_of :: "string option \<Rightarrow> content_disposition option" where
  "disposition_of d =
     (if d = None \<or> d = Some ''attachment'' then Some Attachment
      else if d = Some ''inline'' then Some Inline else None)"

definition content_id_invalid :: "string \<Rightarrow> bool" where
  "content_id_invalid cid \<longleftrightarrow> cid = [] \<or> length cid > CONTENT_ID_MAX_BYTES \<or>
     list_ex (\<lambda>b. \<not> is_graphic b \<or> b = CHR ''<'' \<or> b = CHR ''>'') cid"

definition content_id_step ::
  "string \<Rightarrow> string option \<Rightarrow> content_disposition option \<Rightarrow> string list \<Rightarrow> string list \<times> field_error list" where
  "content_id_step path content_id disposition content_ids =
     (case content_id of
        Some cid \<Rightarrow>
          if content_id_invalid cid then
            (content_ids, [FieldError path ''`content_id` must be printable ASCII without `<`, `>` or spaces''])
          else if cid \<in> set content_ids then
            (content_ids, [FieldError path ''`content_id` is used by another attachment''])
          else (cid # content_ids, [])
      | None \<Rightarrow>
          (content_ids,
           if disposition = Some Inline
           then [FieldError path ''an `inline` attachment needs a `content_id` to reference it by''] else []))"

definition attachment_path :: "nat \<Rightarrow> string" where
  "attachment_path index = ''attachments['' @ dec index @ '']''"

record attachments_state =
  st_out :: "validated_attachment list"
  st_content_ids :: "string list"
  st_decoded_bytes :: u64
  st_errors :: "field_error list"

definition attachment_step :: "send_libs \<Rightarrow> nat \<times> attachment_input \<Rightarrow> attachments_state \<Rightarrow> attachments_state" where
  "attachment_step L indexed s =
     (case indexed of (index, a) \<Rightarrow>
        let path = attachment_path index in
        case attachment_source_of L a path (st_errors s) of (source, errors) \<Rightarrow>
          let content_type = (case ai_content_type a of None \<Rightarrow> DEFAULT_CONTENT_TYPE | Some t \<Rightarrow> t);
              disposition = disposition_of (ai_content_disposition a) in
          case content_id_step path (ai_content_id a) disposition (st_content_ids s) of (ids, id_errors) \<Rightarrow>
            \<lparr>st_out = st_out s @ (case (source, disposition) of
                 (Some source, Some disposition) \<Rightarrow>
                   [\<lparr>va_source = source, va_filename = ai_filename a, va_content_type = content_type,
                     va_content_disposition = disposition, va_content_id = ai_content_id a\<rparr>]
               | _ \<Rightarrow> []),
             st_content_ids = ids,
             st_decoded_bytes = st_decoded_bytes s + inline_bytes source,
             st_errors = errors @ filename_errors path (ai_filename a)
               @ (if is_content_type L content_type then [] else [FieldError path ''`content_type` is not a media type''])
               @ (if disposition = None
                  then [FieldError path ''`content_disposition` must be `inline` or `attachment`''] else [])
               @ id_errors\<rparr>)"

definition attachments_of ::
  "send_libs \<Rightarrow> attachment_input list option \<Rightarrow> field_error list \<Rightarrow> validated_attachment list \<times> field_error list" where
  "attachments_of L input errors =
     (let input = (case input of None \<Rightarrow> [] | Some as \<Rightarrow> as) in
      if length input > ATTACHMENTS_MAX then
        ([], errors @ [FieldError ''attachments'' (''at most '' @ dec ATTACHMENTS_MAX @ '' attachments'')])
      else
        let s = fold (attachment_step L) (enumerate 0 input)
              \<lparr>st_out = [], st_content_ids = [], st_decoded_bytes = 0, st_errors = errors\<rparr>
        in (st_out s,
            if st_decoded_bytes s > MAX_OUTBOUND_DECODED_BYTES
            then st_errors s @ [FieldError ''attachments'' (''decoded attachments must total at most ''
              @ u64_str MAX_OUTBOUND_DECODED_BYTES @ '' bytes'')]
            else st_errors s))"

section \<open>The whole request\<close>

definition recipient_errors :: "nat \<Rightarrow> field_error list" where
  "recipient_errors recipients =
     (if recipients = 0 then [FieldError ''to'' ''at least one of to, cc or bcc is required'']
      else if recipients > OUTBOUND_RECIPIENTS_MAX
      then [FieldError ''to'' (''at most '' @ dec OUTBOUND_RECIPIENTS_MAX @ '' recipients across to, cc and bcc'')]
      else [])"

definition subject_errors :: "string \<Rightarrow> field_error list" where
  "subject_errors subject =
     (if length subject > SUBJECT_MAX_BYTES
      then [FieldError ''subject'' (''must be at most '' @ dec SUBJECT_MAX_BYTES @ '' bytes'')] else [])
     @ (if contains_newline subject then [FieldError ''subject'' ''must not contain a line break''] else [])"

definition validate :: "send_libs \<Rightarrow> send_request \<Rightarrow> api_error + validated_send" where
  "validate L request =
     (case addresses_of L (sr_to request) ''to'' [] of (to, errors) \<Rightarrow>
      case addresses_of L (sr_cc request) ''cc'' errors of (cc, errors) \<Rightarrow>
      case addresses_of L (sr_bcc request) ''bcc'' errors of (bcc, errors) \<Rightarrow>
      case addresses_of L (sr_reply_to request) ''reply_to'' errors of (reply_to, errors) \<Rightarrow>
      let errors = errors @ recipient_errors (length to + length cc + length bcc);
          subject = (case sr_subject request of None \<Rightarrow> [] | Some s \<Rightarrow> s);
          errors = errors @ subject_errors subject;
          body_text = non_empty_str (sr_text request);
          html = non_empty_str (sr_html request);
          errors = errors @ (if body_text = None \<and> html = None
            then [FieldError ''text'' ''at least one of text or html is required''] else []) in
      case normalize_labels L (case sr_labels request of None \<Rightarrow> [] | Some ls \<Rightarrow> ls) ''labels'' errors of
        (labels, errors) \<Rightarrow>
      case headers_of L (sr_headers request) errors of (headers, errors) \<Rightarrow>
      case attachments_of L (sr_attachments request) errors of (attachments, errors) \<Rightarrow>
        if errors = [] then
          Inr \<lparr>vs_to = to, vs_cc = cc, vs_bcc = bcc, vs_reply_to = reply_to, vs_subject = subject,
               vs_text = body_text, vs_html = html, vs_labels = labels, vs_headers = headers,
               vs_attachments = attachments\<rparr>
        else Inl (Validation errors))"

section \<open>What a validated request satisfies\<close>

text \<open>Each check only ever adds errors; the facts below are about runs that end with none.\<close>

definition entry_ok :: "send_libs \<Rightarrow> string \<Rightarrow> bool" where
  "entry_ok L a \<longleftrightarrow> lib_parse_envelope L a = None"

lemma envelope_address_ok: "envelope_address L a = Inr b \<Longrightarrow> entry_ok L b"
  by (auto simp: envelope_address_def entry_ok_def split: sum.splits prod.splits if_splits option.splits)

lemma fold_clean:
  assumes "\<And>x a. x \<in> set xs \<Longrightarrow> E (f x a) = [] \<Longrightarrow> E a = [] \<and> (I a \<longrightarrow> I (f x a))" and "E (fold f xs a) = []"
  shows "E a = [] \<and> (I a \<longrightarrow> I (fold f xs a))"
  using assms
proof (induction xs arbitrary: a)
  case (Cons x xs)
  have "E (f x a) = [] \<and> (I (f x a) \<longrightarrow> I (fold f xs (f x a)))"
    by (rule Cons.IH) (use Cons.prems in auto)
  with Cons.prems(1) [of x a] show ?case by auto
qed simp

lemma addresses_of_clean:
  assumes "addresses_of L input path es = (out, [])"
  shows "es = [] \<and> distinct out \<and> list_all (entry_ok L) out"
proof -
  let ?I = "\<lambda>acc. distinct (fst acc) \<and> list_all (entry_ok L) (fst acc)"
  have "snd ([] :: string list, es) = [] \<and> (?I ([], es) \<longrightarrow> ?I (addresses_of L input path es))"
    unfolding addresses_of_def
    by (rule fold_clean [where E = snd and I = ?I])
      (use assms in \<open>auto simp: addresses_of_def address_step_def Let_def split: if_splits sum.splits
        dest: envelope_address_ok\<close>)
  with assms show ?thesis by simp
qed

text \<open>
  The rules of one recipient entry, and the address it is accepted as; and the addresses of a list of
  entries, each where it was first named.
\<close>

definition address_rules :: "send_libs \<Rightarrow> string \<Rightarrow> string \<Rightarrow> bool" where
  "address_rules L raw address \<longleftrightarrow>
     trim raw \<noteq> [] \<and> length (trim raw) \<le> 320 \<and> CHR 0x0D \<notin> set (trim raw) \<and> CHR 0x0A \<notin> set (trim raw) \<and>
     (\<exists>local_part. lib_parse_entry L (trim raw) = Inr (local_part, address) \<and> (\<forall>c \<in> set local_part. (of_char c :: nat) < 128)) \<and>
     lib_parse_envelope L address = None"

definition entries_of :: "addresses_input option \<Rightarrow> string list" where
  "entries_of input = (case input of None \<Rightarrow> [] | Some (One a) \<Rightarrow> [a] | Some (Many as) \<Rightarrow> as)"

definition addresses_ok :: "send_libs \<Rightarrow> addresses_input option \<Rightarrow> string list \<Rightarrow> bool" where
  "addresses_ok L input out \<longleftrightarrow>
     (\<exists>as. list_all2 (address_rules L) (entries_of input) as \<and> out = rev (remdups (rev as)))"

lemma address_step_clean:
  assumes "snd (address_step L path raw (out, es)) = []"
  shows "es = [] \<and> (\<exists>a. address_rules L raw a \<and>
    address_step L path raw (out, es) = (if a \<in> set out then out else out @ [a], []))"
proof -
  from assms obtain a where a: "es = []" "trim raw \<noteq> []" "length (trim raw) \<le> ADDRESS_MAX_BYTES" "\<not> contains_newline (trim raw)"
    "envelope_address L (trim raw) = Inr a" by (auto simp: address_step_def Let_def split: if_splits sum.splits)
  then have "address_rules L raw a"
    by (auto simp: address_rules_def contains_newline_def envelope_address_def ADDRESS_MAX_BYTES_def is_ascii_def
        list_all_iff split: sum.splits prod.splits if_splits option.splits)
  moreover have "address_step L path raw (out, es) = (if a \<in> set out then out else out @ [a], [])"
    using a by (simp add: address_step_def)
  ultimately show ?thesis using a(1) by blast
qed

lemma addresses_of_rules:
  assumes "addresses_of L input path es = (out, [])"
  shows "addresses_ok L input out"
proof -
  have "\<exists>as. list_all2 (address_rules L) xs as \<and> out = rev (remdups (rev as))"
    if "fold (address_step L path) xs ([], es) = (out, [])" for xs
    using that
  proof (induction xs arbitrary: out rule: rev_induct)
    case (snoc x xs)
    obtain o1 e1 where f: "fold (address_step L path) xs ([], es) = (o1, e1)" by fastforce
    with snoc.prems have step: "address_step L path x (o1, e1) = (out, [])" by simp
    with address_step_clean [of L path x o1 e1] obtain a where
      a: "e1 = []" "address_rules L x a" "out = (if a \<in> set o1 then o1 else o1 @ [a])" by auto
    from snoc.IH f a(1) obtain as where as: "list_all2 (address_rules L) xs as" "o1 = rev (remdups (rev as))" by blast
    then have "list_all2 (address_rules L) (xs @ [x]) (as @ [a])" using a(2) by (simp add: list_all2_appendI)
    moreover have "out = rev (remdups (rev (as @ [a])))" using a(3) as(2) by simp
    ultimately show ?case by blast
  qed simp
  moreover have "(case input of None \<Rightarrow> [] | Some i \<Rightarrow> into_vec i) = entries_of input"
    by (simp add: entries_of_def split: option.split one_or_many.split)
  ultimately show ?thesis using assms by (simp add: addresses_of_def addresses_ok_def)
qed

definition label_ok :: "string \<Rightarrow> bool" where
  "label_ok l \<longleftrightarrow> l \<noteq> [] \<and> length l \<le> LABEL_MAX_BYTES \<and> \<not> is_reserved l"

lemma user_label_count_sort [simp]: "user_label_count (sort xs) = user_label_count xs"
  by (simp add: user_label_count_def filter_sort)

lemma normalize_labels_clean:
  assumes "normalize_labels L xs field es = (out, [])"
  shows "es = [] \<and> strictly_sorted out \<and> list_all label_ok out \<and> user_label_count out \<le> MESSAGE_USER_LABEL_CAP"
proof -
  let ?I = "\<lambda>acc. distinct (fst acc) \<and> list_all label_ok (fst acc)"
  obtain o1 e1 where f: "fold (label_step L field) xs ([], es) = (o1, e1)" by fastforce
  with assms have *: "e1 = []" "out = sort o1" "user_label_count o1 \<le> MESSAGE_USER_LABEL_CAP"
    by (auto simp: normalize_labels_def split: if_splits)
  have "snd ([] :: string list, es) = [] \<and> (?I ([], es) \<longrightarrow> ?I (fold (label_step L field) xs ([], es)))"
    by (rule fold_clean [where E = snd and I = ?I])
      (use f * in \<open>auto simp: label_step_def label_ok_def Let_def split: if_splits\<close>)
  with f * show ?thesis by (auto simp: strictly_sorted_sort list_all_iff)
qed

lemma normalize_labels_set:
  assumes "normalize_labels L xs field es = (out, [])"
  shows "set out = (\<lambda>l. lib_to_lowercase L (trim l)) ` set xs"
proof -
  obtain o1 e1 where f: "fold (label_step L field) xs ([], es) = (o1, e1)" by fastforce
  with assms have "e1 = []" and out: "out = sort o1" by (auto simp: normalize_labels_def split: if_splits)
  moreover have "set o1 = (\<lambda>l. lib_to_lowercase L (trim l)) ` set xs"
    if "fold (label_step L field) xs ([], es) = (o1, [])" for o1
    using that
  proof (induction xs arbitrary: o1 rule: rev_induct)
    case (snoc x xs)
    obtain o2 e2 where f2: "fold (label_step L field) xs ([], es) = (o2, e2)" by fastforce
    with snoc.prems have "label_step L field x (o2, e2) = (o1, [])" by simp
    then have "e2 = []" "set o1 = insert (lib_to_lowercase L (trim x)) (set o2)"
      by (auto simp: label_step_def Let_def split: if_splits)
    with snoc.IH f2 show ?case by simp
  qed simp
  ultimately show ?thesis using f by simp
qed

definition header_ok :: "send_libs \<Rightarrow> string \<times> string \<Rightarrow> bool" where
  "header_ok L e \<longleftrightarrow> is_header_name (fst e) \<and> length (fst e) \<le> HEADER_NAME_MAX \<and>
     lib_to_lowercase L (fst e) \<notin> set CONTROLLED_HEADERS \<and> \<not> prefix ''content-'' (lib_to_lowercase L (fst e)) \<and>
     length (snd e) \<le> HEADER_VALUE_MAX \<and> \<not> contains_newline (snd e)"

definition headers_size :: "(string \<times> string) list \<Rightarrow> nat" where
  "headers_size es = sum_list (map (\<lambda>e. length (fst e) + length (snd e)) es)"

lemma entries_insert_size: "headers_size (entries_insert k v m) \<le> headers_size m + (length k + length v)"
  by (induction k v m rule: entries_insert.induct) (auto simp: headers_size_def)

lemma entries_insert_set: "set (entries_insert k v m) \<subseteq> insert (k, v) (set m)"
  by (induction k v m rule: entries_insert.induct) auto

lemma headers_of_clean:
  assumes "headers_of L input es = (out, [])"
  shows "es = [] \<and> list_all (header_ok L) (bt_entries out) \<and> headers_size (bt_entries out) \<le> HEADERS_BUDGET"
proof -
  let ?E = "\<lambda>acc. snd (snd acc)"
  let ?I = "\<lambda>acc. list_all (header_ok L) (bt_entries (fst acc)) \<and> headers_size (bt_entries (fst acc)) \<le> fst (snd acc)"
  let ?xs = "case input of None \<Rightarrow> [] | Some m \<Rightarrow> bt_entries m"
  obtain o1 b e1 where f: "fold (header_step L) ?xs (bt_empty, 0, es) = (o1, b, e1)"
    by (cases "fold (header_step L) ?xs (bt_empty, 0, es)") auto
  with assms have *: "e1 = []" "out = o1" "b \<le> HEADERS_BUDGET"
    by (auto simp: headers_of_def split: if_splits)
  have step: "?E a = [] \<and> (?I a \<longrightarrow> ?I (header_step L x a))" if clean: "?E (header_step L x a) = []" for x a
  proof -
    obtain name val out budget errors where [simp]: "x = (name, val)" "a = (out, budget, errors)"
      by (cases x, cases a) auto
    have "headers_size (bt_entries (bt_insert (trim name) val out)) \<le>
        headers_size (bt_entries out) + (length (trim name) + length val)"
      by (simp add: bt_insert.rep_eq entries_insert_size)
    moreover have "set (bt_entries (bt_insert (trim name) val out)) \<subseteq>
        insert (trim name, val) (set (bt_entries out))"
      by (simp add: bt_insert.rep_eq entries_insert_set)
    ultimately show ?thesis using clean
      by (auto simp: header_step_def header_ok_def Let_def list_all_iff split: if_splits)
  qed
  have "?E (bt_empty :: (string, string) btree_map, 0 :: nat, es) = [] \<and> (?I (bt_empty, 0, es) \<longrightarrow> ?I (fold (header_step L) ?xs (bt_empty, 0, es)))"
    by (rule fold_clean [where E = ?E and I = ?I]) (rule step, assumption, simp only: f *(1) snd_conv)
  moreover have "?I (bt_empty, 0, es)" by (simp add: bt_empty.rep_eq headers_size_def)
  ultimately show ?thesis using f * by auto
qed

definition attachment_ok :: "send_libs \<Rightarrow> validated_attachment \<Rightarrow> bool" where
  "attachment_ok L a \<longleftrightarrow> is_content_type L (va_content_type a) \<and>
     (case va_filename a of None \<Rightarrow> True | Some f \<Rightarrow> length f \<le> ATTACHMENT_FIELD_MAX \<and> \<not> has_control f) \<and>
     (case va_content_id a of None \<Rightarrow> va_content_disposition a \<noteq> Inline | Some cid \<Rightarrow> \<not> content_id_invalid cid) \<and>
     (case va_source a of SourceInline _ \<Rightarrow> True
      | SourceUrl u \<Rightarrow> \<exists>raw. parse_attachment_url (lib_url_parse L) raw = Inr u)"

definition content_ids_of :: "validated_attachment list \<Rightarrow> string list" where
  "content_ids_of as = List.map_filter va_content_id as"

definition decoded_total :: "validated_attachment list \<Rightarrow> u64" where
  "decoded_total as = sum_list (map (\<lambda>a. inline_bytes (Some (va_source a))) as)"

definition attachments_inv :: "send_libs \<Rightarrow> attachments_state \<Rightarrow> bool" where
  "attachments_inv L s \<longleftrightarrow> list_all (attachment_ok L) (st_out s) \<and>
     distinct (content_ids_of (st_out s)) \<and> set (content_ids_of (st_out s)) \<subseteq> set (st_content_ids s) \<and>
     st_decoded_bytes s = decoded_total (st_out s)"

lemma attachment_step_clean:
  assumes "st_errors (attachment_step L x s) = []"
  shows "st_errors s = [] \<and> (attachments_inv L s \<longrightarrow> attachments_inv L (attachment_step L x s)) \<and>
    length (st_out (attachment_step L x s)) = Suc (length (st_out s))"
proof -
  obtain index a where x: "x = (index, a)" by (cases x)
  let ?path = "attachment_path index"
  obtain source errors where src: "attachment_source_of L a ?path (st_errors s) = (source, errors)" by fastforce
  obtain ids id_errors where ids: "content_id_step ?path (ai_content_id a) (disposition_of (ai_content_disposition a))
      (st_content_ids s) = (ids, id_errors)" by fastforce
  have none: "errors = []" "id_errors = []" "filename_errors ?path (ai_filename a) = []"
    "is_content_type L (case ai_content_type a of None \<Rightarrow> DEFAULT_CONTENT_TYPE | Some t \<Rightarrow> t)"
    "disposition_of (ai_content_disposition a) \<noteq> None"
    using assms by (auto simp: attachment_step_def x src ids Let_def split: if_splits)
  then obtain d where d: "disposition_of (ai_content_disposition a) = Some d" by blast
  from src none(1) obtain so where so: "source = Some so" "st_errors s = []"
    "case so of SourceInline _ \<Rightarrow> True | SourceUrl u \<Rightarrow> \<exists>raw. parse_attachment_url (lib_url_parse L) raw = Inr u"
    by (fastforce simp: attachment_source_of_def split: option.splits sum.splits)
  have cid: "case ai_content_id a of None \<Rightarrow> d \<noteq> Inline \<and> ids = st_content_ids s
      | Some cid \<Rightarrow> \<not> content_id_invalid cid \<and> cid \<notin> set (st_content_ids s) \<and> ids = cid # st_content_ids s"
    using ids none(2) d by (auto simp: content_id_step_def split: option.splits if_splits)
  have name: "case ai_filename a of None \<Rightarrow> True | Some f \<Rightarrow> length f \<le> ATTACHMENT_FIELD_MAX \<and> \<not> has_control f"
    using none(3) by (auto simp: filename_errors_def split: option.splits if_splits)
  let ?t = "case ai_content_type a of None \<Rightarrow> DEFAULT_CONTENT_TYPE | Some t \<Rightarrow> t"
  define va where "va = \<lparr>va_source = so, va_filename = ai_filename a, va_content_type = ?t,
    va_content_disposition = d, va_content_id = ai_content_id a\<rparr>"
  have step: "attachment_step L x s = \<lparr>st_out = st_out s @ [va], st_content_ids = ids,
      st_decoded_bytes = st_decoded_bytes s + inline_bytes (Some so), st_errors = []\<rparr>"
    unfolding attachment_step_def x prod.case src ids Let_def
    by (simp only: none d so(1) va_def option.case if_True if_False option.distinct append.simps simp_thms)
  have "attachment_ok L va" using none(4) name so(3) cid
    by (cases "ai_content_id a") (simp_all add: attachment_ok_def va_def)
  moreover have "content_ids_of (st_out s @ [va]) =
      content_ids_of (st_out s) @ (case ai_content_id a of None \<Rightarrow> [] | Some cid \<Rightarrow> [cid])"
    by (simp add: content_ids_of_def map_filter_def va_def split: option.split)
  moreover have "decoded_total (st_out s @ [va]) = decoded_total (st_out s) + inline_bytes (Some so)"
    by (simp add: decoded_total_def va_def)
  ultimately show ?thesis
    using cid so(2) unfolding attachments_inv_def step by (cases "ai_content_id a") auto
qed

lemma attachments_of_clean:
  assumes "attachments_of L input es = (out, [])"
  shows "es = [] \<and> length out \<le> ATTACHMENTS_MAX \<and> list_all (attachment_ok L) out \<and> distinct (content_ids_of out) \<and>
    decoded_total out \<le> MAX_OUTBOUND_DECODED_BYTES"
proof -
  let ?xs = "case input of None \<Rightarrow> [] | Some as \<Rightarrow> as"
  let ?s = "\<lparr>st_out = [], st_content_ids = [], st_decoded_bytes = 0, st_errors = es\<rparr>"
  let ?r = "fold (attachment_step L) (enumerate 0 ?xs) ?s"
  have *: "length ?xs \<le> ATTACHMENTS_MAX" "out = st_out ?r" "st_errors ?r = []"
    "st_decoded_bytes ?r \<le> MAX_OUTBOUND_DECODED_BYTES"
    using assms by (auto simp: attachments_of_def Let_def not_less split: if_splits)
  have run: "st_errors ?s = [] \<and> (attachments_inv L ?s \<longrightarrow> attachments_inv L ?r)"
    by (rule fold_clean [where E = st_errors and I = "attachments_inv L", OF _ *(3)])
      (use attachment_step_clean in blast)
  have "attachments_inv L ?s"
    by (simp add: attachments_inv_def content_ids_of_def decoded_total_def map_filter_def)
  with run have inv: "attachments_inv L ?r" by (rule conjunct2 [THEN mp])
  have "length (st_out ?r) \<le> length ?xs"
  proof -
    have one: "length (st_out (attachment_step L x s)) \<le> Suc (length (st_out s))" for x s
      by (cases x) (simp add: attachment_step_def Let_def case_prod_beta split: option.split)
    have "length (st_out (fold (attachment_step L) xs s)) \<le> length xs + length (st_out s)" for xs s
    proof (induction xs arbitrary: s)
      case (Cons x xs)
      from Cons.IH [of "attachment_step L x s"] one [of x s] show ?case by simp
    qed simp
    from this [of "enumerate 0 ?xs" ?s] show ?thesis by simp
  qed
  with *(1) have "length out \<le> ATTACHMENTS_MAX" unfolding *(2) by (rule le_trans [rotated])
  moreover have "es = []" using run by simp
  ultimately show ?thesis using inv *(4) unfolding attachments_inv_def *(2) [symmetric] by simp
qed

text \<open>The rules, as the API documents them, of a request that was accepted.\<close>

definition send_ok :: "send_libs \<Rightarrow> validated_send \<Rightarrow> bool" where
  "send_ok L v \<longleftrightarrow>
     (\<forall>as \<in> {vs_to v, vs_cc v, vs_bcc v, vs_reply_to v}. distinct as \<and> list_all (entry_ok L) as) \<and>
     0 < length (vs_to v @ vs_cc v @ vs_bcc v) \<and> length (vs_to v @ vs_cc v @ vs_bcc v) \<le> OUTBOUND_RECIPIENTS_MAX \<and>
     length (vs_subject v) \<le> SUBJECT_MAX_BYTES \<and> \<not> contains_newline (vs_subject v) \<and>
     (vs_text v \<noteq> None \<or> vs_html v \<noteq> None) \<and> vs_text v \<noteq> Some [] \<and> vs_html v \<noteq> Some [] \<and>
     strictly_sorted (vs_labels v) \<and> list_all label_ok (vs_labels v) \<and>
     user_label_count (vs_labels v) \<le> MESSAGE_USER_LABEL_CAP \<and>
     list_all (header_ok L) (bt_entries (vs_headers v)) \<and> headers_size (bt_entries (vs_headers v)) \<le> HEADERS_BUDGET \<and>
     length (vs_attachments v) \<le> ATTACHMENTS_MAX \<and> list_all (attachment_ok L) (vs_attachments v) \<and>
     distinct (content_ids_of (vs_attachments v)) \<and> decoded_total (vs_attachments v) \<le> MAX_OUTBOUND_DECODED_BYTES"

text \<open>And where each of its parts comes from.\<close>

definition taken_from :: "send_libs \<Rightarrow> send_request \<Rightarrow> validated_send \<Rightarrow> bool" where
  "taken_from L r v \<longleftrightarrow>
     addresses_ok L (sr_to r) (vs_to v) \<and> addresses_ok L (sr_cc r) (vs_cc v) \<and>
     addresses_ok L (sr_bcc r) (vs_bcc v) \<and> addresses_ok L (sr_reply_to r) (vs_reply_to v) \<and>
     vs_subject v = (case sr_subject r of None \<Rightarrow> [] | Some subject \<Rightarrow> subject) \<and>
     (\<forall>s. vs_text v = Some s \<longleftrightarrow> s \<noteq> [] \<and> sr_text r = Some s) \<and> (\<forall>s. vs_html v = Some s \<longleftrightarrow> s \<noteq> [] \<and> sr_html r = Some s) \<and>
     set (vs_labels v) = (\<lambda>l. lib_to_lowercase L (trim l)) ` (case sr_labels r of None \<Rightarrow> {} | Some ls \<Rightarrow> set ls)"

lemma recipient_errors_Nil: "recipient_errors n = [] \<longleftrightarrow> 0 < n \<and> n \<le> OUTBOUND_RECIPIENTS_MAX"
  by (simp add: recipient_errors_def)

lemma subject_errors_Nil: "subject_errors s = [] \<longleftrightarrow> length s \<le> SUBJECT_MAX_BYTES \<and> \<not> contains_newline s"
  by (simp add: subject_errors_def)

lemma non_empty_str_not_Nil: "non_empty_str s \<noteq> Some []"
  by (simp add: non_empty_str_def split: option.split)

lemma validate_send_ok:
  assumes "validate L r = Inr v"
  shows "send_ok L v" and "taken_from L r v"
proof -
  obtain to e1 where a1: "addresses_of L (sr_to r) ''to'' [] = (to, e1)" by fastforce
  obtain cc e2 where a2: "addresses_of L (sr_cc r) ''cc'' e1 = (cc, e2)" by fastforce
  obtain bcc e3 where a3: "addresses_of L (sr_bcc r) ''bcc'' e2 = (bcc, e3)" by fastforce
  obtain rt e4 where a4: "addresses_of L (sr_reply_to r) ''reply_to'' e3 = (rt, e4)" by fastforce
  let ?subject = "case sr_subject r of None \<Rightarrow> [] | Some s \<Rightarrow> s"
  let ?text = "non_empty_str (sr_text r)" and ?html = "non_empty_str (sr_html r)"
  let ?e5 = "((e4 @ recipient_errors (length to + length cc + length bcc)) @ subject_errors ?subject) @
    (if ?text = None \<and> ?html = None then [FieldError ''text'' ''at least one of text or html is required''] else [])"
  obtain ls e6 where l: "normalize_labels L (case sr_labels r of None \<Rightarrow> [] | Some ls \<Rightarrow> ls) ''labels'' ?e5 = (ls, e6)"
    by fastforce
  obtain hs e7 where h: "headers_of L (sr_headers r) e6 = (hs, e7)" by fastforce
  obtain as e8 where a: "attachments_of L (sr_attachments r) e7 = (as, e8)" by fastforce
  have v: "e8 = []" "v = \<lparr>vs_to = to, vs_cc = cc, vs_bcc = bcc, vs_reply_to = rt, vs_subject = ?subject,
      vs_text = ?text, vs_html = ?html, vs_labels = ls, vs_headers = hs, vs_attachments = as\<rparr>"
    using assms unfolding validate_def a1 prod.case a2 a3 a4 Let_def l h a by (auto split: if_splits)
  note a' = attachments_of_clean [OF a [unfolded v(1)]]
  note h' = headers_of_clean [OF h [unfolded a' [THEN conjunct1]]]
  note l' = normalize_labels_clean [OF l [unfolded h' [THEN conjunct1]]]
  have e5: "e4 = []" "recipient_errors (length to + length cc + length bcc) = []" "subject_errors ?subject = []"
    "?text \<noteq> None \<or> ?html \<noteq> None"
    using l' [THEN conjunct1] by (auto split: if_splits)
  note a4' = addresses_of_clean [OF a4 [unfolded e5(1)]]
  note a3' = addresses_of_clean [OF a3 [unfolded a4' [THEN conjunct1]]]
  note a2' = addresses_of_clean [OF a2 [unfolded a3' [THEN conjunct1]]]
  note a1' = addresses_of_clean [OF a1 [unfolded a2' [THEN conjunct1]]]
  show "send_ok L v"
    using a1' a2' a3' a4' l' h' a' e5(4) e5(2,3) [unfolded recipient_errors_Nil subject_errors_Nil]
    by (simp add: send_ok_def v(2) non_empty_str_not_Nil)
  have texts: "non_empty_str o1 = Some s \<longleftrightarrow> s \<noteq> [] \<and> o1 = Some s" for o1 s
    by (auto simp: non_empty_str_def split: option.splits)
  have clean: "e3 = []" "e2 = []" "e1 = []" "e6 = []" using a4' a3' a2' h' by simp_all
  show "taken_from L r v"
    using addresses_of_rules [OF a1 [unfolded clean]] addresses_of_rules [OF a2 [unfolded clean]]
      addresses_of_rules [OF a3 [unfolded clean]] addresses_of_rules [OF a4 [unfolded e5(1)]]
      normalize_labels_set [OF l [unfolded clean]]
    unfolding taken_from_def v(2) by (simp add: texts split: option.split)
qed


text \<open>Libraries that are enough to run the checks on ASCII requests.\<close>

definition sample_libs :: send_libs where
  "sample_libs = \<lparr>lib_to_lowercase = to_ascii_lowercase,
     lib_parse_entry = (\<lambda>s. Inr (takeWhile (\<lambda>c. c \<noteq> CHR ''@'') s, s)),
     lib_parse_envelope = (\<lambda>s. if contains_newline s then Some ''no line break'' else None),
     lib_mime_subtype = (\<lambda>s. Some ''plain''), lib_base64_decode = (\<lambda>s. Some (map of_char s)),
     lib_url_parse = (\<lambda>_. None)\<rparr>"

definition sample_request :: send_request where
  "sample_request = \<lparr>sr_to = Some (One ''a@example.com''), sr_cc = Some (Many [''b@example.com'']), sr_bcc = None,
     sr_reply_to = None, sr_subject = Some ''hello'', sr_text = Some ''body'', sr_html = Some [],
     sr_labels = Some [''Mine''], sr_headers = Some (bt_insert ''X-Kind'' ''note'' bt_empty),
     sr_attachments = Some [\<lparr>ai_content = Some ''abc'', ai_url = None, ai_filename = Some ''a.txt'',
       ai_content_type = None, ai_content_disposition = Some ''inline'', ai_content_id = Some ''c1''\<rparr>]\<rparr>"

lemma sample_trims:
  "trim ''a@example.com'' = ''a@example.com''" "trim ''b@example.com'' = ''b@example.com''"
  "trim ''Mine'' = ''Mine''" "trim ''X-Kind'' = ''X-Kind''"
  by (simp_all add: trim_graphic is_graphic_def)

lemma sample_addresses:
  "addresses_of sample_libs (Some (One ''a@example.com'')) ''to'' [] = ([''a@example.com''], [])"
  "addresses_of sample_libs (Some (Many [''b@example.com''])) ''cc'' [] = ([''b@example.com''], [])"
  "addresses_of sample_libs None path [] = ([], [])"
  by (simp_all add: addresses_of_def address_step_def sample_trims ADDRESS_MAX_BYTES_def contains_newline_def
      envelope_address_def sample_libs_def is_ascii_def)

lemma sample_label: "normalize_labels sample_libs [''Mine''] ''labels'' [] = ([''mine''], [])"
proof -
  have "\<not> is_reserved ''mine''" "to_ascii_lowercase ''Mine'' = ''mine''" "user_label_count [''mine''] = 1"
    by code_simp+
  then show ?thesis
    by (simp add: normalize_labels_def label_step_def sample_trims sample_libs_def LABEL_MAX_BYTES_def
        MESSAGE_USER_LABEL_CAP_def)
qed

lemma sample_header:
  "headers_of sample_libs (Some (bt_insert ''X-Kind'' ''note'' bt_empty)) [] = (bt_insert ''X-Kind'' ''note'' bt_empty, [])"
proof -
  have "is_header_name ''X-Kind''" "to_ascii_lowercase ''X-Kind'' = ''x-kind''" by code_simp+
  then show ?thesis
    by (simp add: headers_of_def header_step_def bt_insert.rep_eq bt_empty.rep_eq sample_trims sample_libs_def
        HEADER_NAME_MAX_def CONTROLLED_HEADERS_def HEADER_VALUE_MAX_def contains_newline_def HEADERS_BUDGET_def)
qed

definition sample_attachment :: validated_attachment where
  "sample_attachment = \<lparr>va_source = SourceInline (map of_char ''abc''), va_filename = Some ''a.txt'',
     va_content_type = DEFAULT_CONTENT_TYPE, va_content_disposition = Inline, va_content_id = Some ''c1''\<rparr>"

lemma sample_attachments:
  "attachments_of sample_libs (sr_attachments sample_request) [] = ([sample_attachment], [])"
proof -
  have "\<not> has_control ''a.txt''" "filter (\<lambda>c. \<not> is_ascii_whitespace c) ''abc'' = ''abc''"
    "\<not> list_ex (\<lambda>b. \<not> is_graphic b \<or> b = CHR ''<'' \<or> b = CHR ''>'') ''c1''"
    by code_simp+
  then show ?thesis
    by (simp add: attachments_of_def sample_request_def attachment_step_def attachment_source_of_def sample_libs_def
        filename_errors_def is_content_type_def disposition_of_def content_id_step_def content_id_invalid_def
        sample_attachment_def ATTACHMENTS_MAX_def ATTACHMENT_FIELD_MAX_def CONTENT_TYPE_MAX_BYTES_def
        DEFAULT_CONTENT_TYPE_def contains_newline_def CONTENT_ID_MAX_BYTES_def MAX_OUTBOUND_DECODED_BYTES_def)
qed

lemma sample_validated:
  "\<exists>v. validate sample_libs sample_request = Inr v \<and> vs_labels v = [''mine''] \<and> vs_attachments v = [sample_attachment]"
  using sample_attachments
  by (simp add: validate_def sample_request_def sample_addresses sample_label sample_header recipient_errors_def
      OUTBOUND_RECIPIENTS_MAX_def subject_errors_def SUBJECT_MAX_BYTES_def contains_newline_def non_empty_str_def)


text \<open>What becomes a header of the message, or a parameter of one.\<close>

definition header_strings :: "validated_send \<Rightarrow> string list" where
  "header_strings v = vs_to v @ vs_cc v @ vs_bcc v @ vs_reply_to v @ [vs_subject v]
     @ concat (map (\<lambda>e. [fst e, snd e]) (bt_entries (vs_headers v)))
     @ concat (map (\<lambda>a. va_content_type a # List.map_filter id [va_filename a, va_content_id a]) (vs_attachments v))"

lemma graphic_no_newline: "list_all is_graphic s \<Longrightarrow> \<not> contains_newline s"
  by (auto simp: contains_newline_def list_all_iff is_graphic_def dest: bspec)

lemma has_control_newline: "contains_newline s \<Longrightarrow> has_control s"
  by (induction s rule: has_control.induct) (auto simp: contains_newline_def)

lemma validated_one_line:
  assumes "\<And>a. lib_parse_envelope L a = None \<Longrightarrow> \<not> contains_newline a"
    and "validate L r = Inr v" and "s \<in> set (header_strings v)"
  shows "\<not> contains_newline s"
proof -
  have ok: "send_ok L v" by (rule validate_send_ok [OF assms(2)])
  have addr: "\<not> contains_newline a" if "a \<in> set (vs_to v @ vs_cc v @ vs_bcc v @ vs_reply_to v)" for a
    using ok that assms(1) by (auto simp: send_ok_def entry_ok_def list_all_iff)
  have head: "\<not> contains_newline (fst e) \<and> \<not> contains_newline (snd e)" if "e \<in> set (bt_entries (vs_headers v))" for e
  proof -
    have "header_ok L e" using ok that unfolding send_ok_def list_all_iff by blast
    then have "list_all is_graphic (fst e)" "\<not> contains_newline (snd e)"
      by (simp_all add: header_ok_def is_header_name_def list_all_iff)
    then show ?thesis using graphic_no_newline by blast
  qed
  have att: "\<not> contains_newline (va_content_type a) \<and> (\<forall>f. va_filename a = Some f \<longrightarrow> \<not> contains_newline f) \<and>
      (\<forall>c. va_content_id a = Some c \<longrightarrow> \<not> contains_newline c)" if "a \<in> set (vs_attachments v)" for a
  proof -
    have "attachment_ok L a" using ok that unfolding send_ok_def list_all_iff by blast
    then have "is_content_type L (va_content_type a)" "\<And>f. va_filename a = Some f \<Longrightarrow> \<not> has_control f"
      "\<And>c. va_content_id a = Some c \<Longrightarrow> list_all is_graphic c"
      by (auto simp: attachment_ok_def content_id_invalid_def list_ex_iff list_all_iff split: option.splits)
    then show ?thesis
      using has_control_newline graphic_no_newline by (auto simp: is_content_type_def split: if_splits)
  qed
  have "\<not> contains_newline (vs_subject v)" using ok by (simp add: send_ok_def)
  with assms(3) addr head att show ?thesis
    by (auto simp: header_strings_def map_filter_def split: option.splits if_splits)
qed

lemma graphic_ascii: "list_all is_graphic s \<Longrightarrow> is_ascii s"
  by (auto simp: is_ascii_def is_graphic_def list_all_iff)

text \<open>
  C26. No header injection: if the address crate refuses a line break in an SMTP mailbox, then
  nothing a caller supplied that ends up in a header of the message (an address, the subject, a
  header name or value, a file name, content type or content id) contains a line break. And no header the
  service sets itself is overridden, in whatever case its name is written, nor any \<open>Content-\<close> header, if
  Unicode's lowercase mapping is the ASCII one on ASCII.
\<close>

theorem validate_no_injection:
  assumes "\<And>a. lib_parse_envelope L a = None \<Longrightarrow> \<not> contains_newline a"
    and ascii: "\<And>s. is_ascii s \<Longrightarrow> lib_to_lowercase L s = to_ascii_lowercase s"
    and run: "validate L r = Inr v"
  shows "(\<forall>s \<in> set (header_strings v). \<not> contains_newline s) \<and>
    (\<forall>(name, _) \<in> set (bt_entries (vs_headers v)).
       to_ascii_lowercase name \<notin> {''from'', ''sender'', ''to'', ''cc'', ''bcc'', ''reply-to'', ''subject'', ''date'',
         ''message-id'', ''in-reply-to'', ''references'', ''return-path'', ''mime-version''} \<and>
       \<not> prefix ''content-'' (to_ascii_lowercase name))"
proof -
  have "to_ascii_lowercase name \<notin> set CONTROLLED_HEADERS \<and> \<not> prefix ''content-'' (to_ascii_lowercase name)"
    if "(name, value) \<in> set (bt_entries (vs_headers v))" for name "value"
  proof -
    have "header_ok L (name, value)" using validate_send_ok(1) [OF run] that unfolding send_ok_def list_all_iff by blast
    moreover from this have "is_ascii name" by (intro graphic_ascii) (auto simp: header_ok_def is_header_name_def list_all_iff)
    ultimately show ?thesis using ascii by (simp add: header_ok_def)
  qed
  then show ?thesis
    using validated_one_line [OF assms(1) run] by (auto simp: CONTROLLED_HEADERS_def)
qed

theorem validate_no_injection_witness:
  "\<exists>v. validate sample_libs sample_request = Inr v \<and> (\<forall>s \<in> set (header_strings v). \<not> contains_newline s)"
proof -
  obtain v where v: "validate sample_libs sample_request = Inr v" using sample_validated by blast
  have "lib_parse_envelope sample_libs a = None \<Longrightarrow> \<not> contains_newline a" for a
    by (simp add: sample_libs_def split: if_splits)
  moreover have "lib_to_lowercase sample_libs s = to_ascii_lowercase s" for s by (simp add: sample_libs_def)
  ultimately show ?thesis using validate_no_injection [OF _ _ v] v by blast
qed

end
