(* ===== verification/Mime.thy ===== *)
theory Mime
  imports Content Validate
begin

text \<open>
  \<open>crates/mailbox/src/mime.rs\<close>: what is kept of an inbound message, and within which caps. The
  crate \<open>mail_parser\<close> is a parameter: the view of a message that the accessors used here give,
  and its two preview functions. Raw header values are byte strings.
\<close>

section \<open>The parsed view\<close>

record mime_mailbox =
  mb_name :: "string option"
  mb_address :: "string option"

datatype part_kind = KindText | KindHtml | KindOther

text \<open>
  \<open>mp_nested\<close> is the nested message's subject, absent with the message; \<open>mp_content_type\<close> the type
  with its subtype; \<open>mp_disposition\<close> the type of the content disposition.
\<close>

record parsed_part =
  mp_kind :: part_kind
  mp_text :: "string option"
  mp_is_attachment :: bool
  mp_media_body :: bool
  mp_is_message :: bool
  mp_nested :: "string option option"
  mp_disposition :: "string option"
  mp_content_id :: "string option"
  mp_content_type :: "(string \<times> string option) option"
  mp_attachment_name :: "string option"
  mp_decoded :: bytes

record mime_message =
  mm_from :: "mime_mailbox list option"
  mm_to :: "mime_mailbox list option"
  mm_cc :: "mime_mailbox list option"
  mm_bcc :: "mime_mailbox list option"
  mm_reply_to :: "mime_mailbox list option"
  mm_message_id :: "string option"
  mm_in_reply_to :: "string list option"
  mm_references :: "string list option"
  mm_subject :: "string option"
  mm_text_body :: "parsed_part list"
  mm_html_body :: "parsed_part list"
  mm_headers :: "(string \<times> string) list"
  mm_parts :: "parsed_part list"

record mime_libs =
  lib_parse_mime :: "bytes \<Rightarrow> mime_message option"
  lib_preview_text :: "string \<Rightarrow> nat \<Rightarrow> string"
  lib_preview_html :: "string \<Rightarrow> nat \<Rightarrow> string"

record parsed_attachment =
  pa_filename :: "string option"
  pa_content_type :: string
  pa_content_disposition :: content_disposition
  pa_content_id :: "string option"
  pa_bytes :: bytes

record parsed_message =
  pm_rfc_message_id :: string
  pm_in_reply_to :: "string option"
  pm_from :: string
  pm_to :: "string list"
  pm_cc :: "string list"
  pm_bcc :: "string list"
  pm_subject :: string
  pm_preview :: string
  pm_size :: u64
  pm_attachments_truncated :: bool

record parsed_inbound =
  pi_message :: parsed_message
  pi_content :: message_content
  pi_attachments :: "parsed_attachment list"

definition INBOUND_ADDRESS_LIST_MAX :: nat where "INBOUND_ADDRESS_LIST_MAX = 100"
definition REFERENCES_MAX :: nat where "REFERENCES_MAX = 50"
definition PREVIEW_CHARS :: nat where "PREVIEW_CHARS = 256"
definition NORMALIZED_CONTENT_TYPE_MAX_BYTES :: nat where "NORMALIZED_CONTENT_TYPE_MAX_BYTES = 127"

section \<open>Addresses\<close>

definition PHRASE_SPECIALS :: string where
  "PHRASE_SPECIALS = ''()<>[]:;@'' @ [CHR 0x5C] @ '',.'' @ [CHR 0x22]"

text \<open>The loop over the characters of a quoted name.\<close>

fun quote_chars :: "nat \<Rightarrow> string list \<Rightarrow> string \<Rightarrow> string" where
  "quote_chars budget [] quoted = quoted"
| "quote_chars budget (c # cs) quoted =
     (let escape = c = [CHR 0x22] \<or> c = [CHR 0x5C] in
      if length quoted + (if escape then 1 else 0) + length c + 1 > budget then quoted
      else quote_chars budget cs (quoted @ (if escape then [CHR 0x5C] else []) @ c))"

definition fold_controls :: "string \<Rightarrow> string" where
  "fold_controls name = concat (map (\<lambda>c. if is_control c then '' '' else c) (chars name))"

definition display_name :: "string \<Rightarrow> nat \<Rightarrow> string option" where
  "display_name name budget =
     (let name = trim (fold_controls name) in
      if \<not> list_ex (\<lambda>c. c \<in> set PHRASE_SPECIALS) name then
        (let kept = trim_end (truncate_bytes name budget) in if kept = [] then None else Some kept)
      else
        (let quoted = quote_chars budget (chars name) [CHR 0x22] in
         if length quoted > 1 then Some (quoted @ [CHR 0x22]) else None))"

definition format_addr :: "mime_mailbox \<Rightarrow> string option" where
  "format_addr addr =
     (case mb_address addr of
        None \<Rightarrow> None
      | Some address \<Rightarrow>
          let framing = 2 + length address + 1;
              name = (case mb_name addr of
                  None \<Rightarrow> None
                | Some name \<Rightarrow> if framing \<le> ADDRESS_MAX_BYTES
                    then display_name name (ADDRESS_MAX_BYTES - framing) else None)
          in Some (case name of
                 Some name \<Rightarrow> name @ '' <'' @ address @ ''>''
               | None \<Rightarrow> truncate_bytes address ADDRESS_MAX_BYTES))"

definition flatten_addresses :: "mime_mailbox list option \<Rightarrow> nat \<Rightarrow> string list" where
  "flatten_addresses address cap =
     (case address of None \<Rightarrow> [] | Some mailboxes \<Rightarrow> take cap (List.map_filter format_addr mailboxes))"

section \<open>Ids, bodies and headers\<close>

definition wrap_id :: "string \<Rightarrow> string" where
  "wrap_id rfc_id = ''<'' @ truncate_bytes rfc_id (REFERENCES_MAX_BYTES - 2) @ ''>''"

definition id_list :: "string list option \<Rightarrow> string list" where
  "id_list ids = (case ids of None \<Rightarrow> [] | Some ids \<Rightarrow> map wrap_id ids)"

definition preview :: "mime_libs \<Rightarrow> string option \<Rightarrow> string option \<Rightarrow> string" where
  "preview P body_text html =
     (case body_text of
        Some t \<Rightarrow> lib_preview_text P t PREVIEW_CHARS
      | None \<Rightarrow> (case html of None \<Rightarrow> [] | Some h \<Rightarrow> lib_preview_html P h PREVIEW_CHARS))"

fun join_lines :: "string list \<Rightarrow> string" where
  "join_lines [] = []"
| "join_lines [s] = s"
| "join_lines (s # t # ss) = s @ CHR 0x0A # join_lines (t # ss)"

definition join_body_parts :: "parsed_part list \<Rightarrow> string option" where
  "join_body_parts parts =
     (let joined = join_lines (List.map_filter mp_text parts) in if joined = [] then None else Some joined)"

fun collect_headers_from ::
  "(string \<times> string) list \<Rightarrow> (string, string) btree_map \<Rightarrow> nat \<Rightarrow> (string, string) btree_map" where
  "collect_headers_from [] headers budget = headers"
| "collect_headers_from ((raw_name, raw_value) # rest) headers budget =
     (if budget \<ge> HEADERS_BUDGET then headers
      else
        let name = truncate_bytes (trim raw_name) HEADER_NAME_MAX;
            value = truncate_bytes (trim (from_utf8_lossy raw_value)) HEADER_VALUE_MAX
        in collect_headers_from rest (bt_insert name value headers) (budget + (length name + length value)))"

definition collect_headers :: "mime_message \<Rightarrow> (string, string) btree_map" where
  "collect_headers message = collect_headers_from (mm_headers message) bt_empty 0"

section \<open>Attachments\<close>

definition normalize_content_type :: "(string \<times> string option) option \<Rightarrow> string" where
  "normalize_content_type content_type =
     (case content_type of
        None \<Rightarrow> DEFAULT_CONTENT_TYPE
      | Some (ctype, subtype) \<Rightarrow>
          let value = to_ascii_lowercase
                (case subtype of None \<Rightarrow> ctype | Some subtype \<Rightarrow> ctype @ ''/'' @ subtype);
              valid = length value \<le> NORMALIZED_CONTENT_TYPE_MAX_BYTES \<and> CHR ''/'' \<in> set value \<and>
                \<not> list_ex (\<lambda>c. is_control c \<or> is_whitespace c) (chars value)
          in if valid then value else DEFAULT_CONTENT_TYPE)"

definition normalized_disposition :: "parsed_part \<Rightarrow> content_disposition" where
  "normalized_disposition part =
     (case mp_disposition part of
        Some ctype \<Rightarrow> if eq_ignore_ascii_case ctype ''inline'' then Inline else Attachment
      | None \<Rightarrow> Attachment)"

definition nested_message_filename :: "string option option \<Rightarrow> string" where
  "nested_message_filename inner =
     (let subject = (case inner of
            Some (Some s) \<Rightarrow> if trim s = [] then ''message'' else trim s
          | _ \<Rightarrow> ''message'');
          sanitized = concat (filter (\<lambda>c. \<not> is_control c) (chars subject))
      in truncate_bytes sanitized (ATTACHMENT_FIELD_MAX - 4) @ ''.eml'')"

definition attachment_parts :: "mime_message \<Rightarrow> parsed_part list" where
  "attachment_parts message = filter (\<lambda>part. mp_is_attachment part \<or> mp_media_body part) (mm_parts message)"

definition build_attachment :: "parsed_part \<Rightarrow> parsed_attachment" where
  "build_attachment part =
     (let content_disposition = normalized_disposition part;
          content_id = map_option (\<lambda>i. truncate_bytes i ATTACHMENT_FIELD_MAX) (mp_content_id part);
          bytes = mp_decoded part
      in if mp_is_message part then
           \<lparr>pa_filename = Some (nested_message_filename (mp_nested part)),
            pa_content_type = ''message/rfc822'', pa_content_disposition = content_disposition,
            pa_content_id = content_id, pa_bytes = bytes\<rparr>
         else
           \<lparr>pa_filename = map_option (\<lambda>n. truncate_bytes n ATTACHMENT_FIELD_MAX) (mp_attachment_name part),
            pa_content_type = normalize_content_type (mp_content_type part),
            pa_content_disposition = content_disposition, pa_content_id = content_id, pa_bytes = bytes\<rparr>)"

section \<open>The whole message\<close>

definition nearest_references :: "string list \<Rightarrow> string list" where
  "nearest_references references =
     (if length references > REFERENCES_MAX then drop (length references - REFERENCES_MAX) references
      else references)"

definition first_of :: "'a list \<Rightarrow> 'a option" where
  "first_of xs = (case xs of [] \<Rightarrow> None | x # _ \<Rightarrow> Some x)"

text \<open>\<open>None\<close> is \<open>ParseError::Malformed\<close>.\<close>

definition parse_inbound :: "mime_libs \<Rightarrow> bytes \<Rightarrow> parsed_inbound option" where
  "parse_inbound P raw =
     (case lib_parse_mime P raw of
        None \<Rightarrow> None
      | Some parsed \<Rightarrow>
          let from = (case flatten_addresses (mm_from parsed) INBOUND_ADDRESS_LIST_MAX of
                [] \<Rightarrow> [] | a # _ \<Rightarrow> a);
              references = nearest_references (id_list (mm_references parsed));
              text_body = join_body_parts (filter (\<lambda>p. mp_kind p = KindText) (mm_text_body parsed));
              html = join_body_parts (filter (\<lambda>p. mp_kind p = KindHtml) (mm_html_body parsed));
              attachment_count = length (attachment_parts parsed)
          in Some
            \<lparr>pi_message =
               \<lparr>pm_rfc_message_id = (case mm_message_id parsed of None \<Rightarrow> [] | Some i \<Rightarrow> wrap_id i),
                pm_in_reply_to = first_of (id_list (mm_in_reply_to parsed)),
                pm_from = from,
                pm_to = flatten_addresses (mm_to parsed) INBOUND_ADDRESS_LIST_MAX,
                pm_cc = flatten_addresses (mm_cc parsed) INBOUND_ADDRESS_LIST_MAX,
                pm_bcc = flatten_addresses (mm_bcc parsed) INBOUND_ADDRESS_LIST_MAX,
                pm_subject = truncate_bytes (case mm_subject parsed of None \<Rightarrow> [] | Some s \<Rightarrow> s) SUBJECT_MAX_BYTES,
                pm_preview = preview P text_body html,
                pm_size = len_u64 raw,
                pm_attachments_truncated = attachment_count > ATTACHMENTS_MAX\<rparr>,
             pi_content =
               \<lparr>ct_text = text_body, ct_html = html, ct_headers = collect_headers parsed,
                ct_references = references,
                ct_reply_to = flatten_addresses (mm_reply_to parsed) INBOUND_ADDRESS_LIST_MAX,
                ct_verdicts = None\<rparr>,
             pi_attachments = map build_attachment (take ATTACHMENTS_MAX (attachment_parts parsed))\<rparr>)"

section \<open>Names as phrases\<close>

text \<open>Reading a quoted string back, from after its opening quote.\<close>

fun unquote :: "string \<Rightarrow> string option" where
  "unquote [] = None"
| "unquote (c # s) =
     (if c = CHR 0x22 then (if s = [] then Some [] else None)
      else if c = CHR 0x5C then (case s of [] \<Rightarrow> None | d # s' \<Rightarrow> map_option (Cons d) (unquote s'))
      else map_option (Cons c) (unquote s))"

abbreviation control_byte :: "char \<Rightarrow> bool" where
  "control_byte c \<equiv> (of_char c :: nat) < 32 \<or> (of_char c :: nat) = 127"

definition escaped :: "string \<Rightarrow> string" where
  "escaped c = (if c = [CHR 0x22] \<or> c = [CHR 0x5C] then [CHR 0x5C] else []) @ c"

lemma escaped_special: "escaped [CHR 0x22] = [CHR 0x5C, CHR 0x22]" "escaped [CHR 0x5C] = [CHR 0x5C, CHR 0x5C]"
  by (simp_all add: escaped_def)

lemma set_escaped: "c \<in> set (escaped ch) \<Longrightarrow> c \<in> set ch \<or> c = CHR 0x5C"
  by (auto simp: escaped_def split: if_splits)

lemma quote_chars_eq: "\<exists>ds. prefix ds cs \<and> quote_chars budget cs quoted = quoted @ concat (map escaped ds)"
proof (induction cs arbitrary: quoted)
  case (Cons c cs)
  obtain ds where "prefix ds cs"
    "quote_chars budget cs (quoted @ escaped c) = (quoted @ escaped c) @ concat (map escaped ds)"
    using Cons by blast
  note ds = this
  show ?case
  proof (cases "length quoted + (if c = [CHR 0x22] \<or> c = [CHR 0x5C] then 1 else 0) + length c + 1 > budget")
    case True
    then show ?thesis by (intro exI [of _ "[]"]) (simp add: Let_def)
  next
    case False
    then have "quote_chars budget (c # cs) quoted = quote_chars budget cs (quoted @ escaped c)"
      by (simp add: Let_def escaped_def)
    with ds show ?thesis by (intro exI [of _ "c # ds"]) simp
  qed
qed simp

lemma quote_chars_length: "quote_chars budget cs quoted = quoted \<or> length (quote_chars budget cs quoted) + 1 \<le> budget"
  by (induction budget cs quoted rule: quote_chars.induct) (auto simp: Let_def split: if_splits)

definition plain_chars :: "string list \<Rightarrow> bool" where
  "plain_chars cs \<longleftrightarrow> (\<forall>ch \<in> set cs. \<forall>c \<in> set ch. c = CHR 0x22 \<or> c = CHR 0x5C \<longrightarrow> ch = [c])"

lemma plain_chars_chars: "plain_chars (chars s)"
  unfolding plain_chars_def using chars_ascii by (auto simp: ascii_def)

lemma plain_chars_subset: "plain_chars cs \<Longrightarrow> set ds \<subseteq> set cs \<Longrightarrow> plain_chars ds"
  unfolding plain_chars_def by blast

lemma unquote_plain: "CHR 0x22 \<notin> set ch \<Longrightarrow> CHR 0x5C \<notin> set ch \<Longrightarrow>
    unquote (ch @ s) = map_option ((@) ch) (unquote s)"
  by (induction ch; cases "unquote s") (auto split: option.split)

lemma unquote_escaped: "plain_chars ds \<Longrightarrow> unquote (concat (map escaped ds) @ [CHR 0x22]) = Some (concat ds)"
proof (induction ds)
  case (Cons ch ds)
  then have IH: "unquote (concat (map escaped ds) @ [CHR 0x22]) = Some (concat ds)"
    by (simp add: plain_chars_def)
  show ?case
  proof (cases "CHR 0x22 \<in> set ch \<or> CHR 0x5C \<in> set ch")
    case True
    with Cons.prems have "ch = [CHR 0x22] \<or> ch = [CHR 0x5C]" unfolding plain_chars_def by auto
    with IH show ?thesis by (auto simp: escaped_special)
  next
    case False
    then have "escaped ch = ch" by (auto simp: escaped_def)
    with False IH show ?thesis by (simp add: unquote_plain)
  qed
qed simp

lemma fold_controls_clean: "c \<in> set (fold_controls name) \<Longrightarrow> \<not> control_byte c"
proof
  assume "c \<in> set (fold_controls name)" and ctl: "control_byte c"
  then obtain ch where ch: "ch \<in> set (chars name)" "c \<in> set (if is_control ch then '' '' else ch)"
    unfolding fold_controls_def set_concat set_map by blast
  with ctl have "c \<in> set ch" "\<not> is_control ch" by (auto split: if_splits)
  moreover from this(1) ch(1) ctl have "ch = [c]" by (auto simp: ascii_def intro: chars_ascii)
  ultimately show False using ctl by (simp add: is_control_def)
qed

text \<open>A phrase for a name: what remains of it unquoted and free of specials, or quoted.\<close>

definition phrase_of :: "string \<Rightarrow> string \<Rightarrow> bool" where
  "phrase_of name phrase \<longleftrightarrow> phrase \<noteq> [] \<and> list_all (\<lambda>c. \<not> control_byte c) phrase \<and>
     (list_all (\<lambda>c. c \<notin> set PHRASE_SPECIALS) phrase \<and> prefix phrase name \<or>
      (\<exists>body kept. phrase = CHR 0x22 # body \<and> unquote body = Some kept \<and> prefix kept name))"

lemma trim_end_prefix: "prefix (trim_end s) s"
  using strip_all_suffix [of "map rev whitespace" "rev s"] by (simp add: trim_end_def suffix_to_prefix)

lemma prefix_concat: "prefix ds cs \<Longrightarrow> prefix (concat ds) (concat cs)"
  by (auto elim!: prefixE)

lemma display_name_phrase:
  assumes "display_name name budget = Some phrase"
  shows "length phrase \<le> budget \<and> phrase_of (trim (fold_controls name)) phrase"
proof -
  define t where "t = trim (fold_controls name)"
  have clean: "\<forall>c \<in> set t. \<not> control_byte c"
    using trim_set [of "fold_controls name"] fold_controls_clean unfolding t_def by blast
  show ?thesis
  proof (cases "list_ex (\<lambda>c. c \<in> set PHRASE_SPECIALS) t")
    case False
    with assms have p: "phrase = trim_end (truncate_bytes t budget)" "phrase \<noteq> []"
      by (auto simp: display_name_def Let_def t_def split: if_splits)
    have pre: "prefix phrase t"
      unfolding p using trim_end_prefix truncate_bytes_prefix prefix_order.trans by blast
    then have "set phrase \<subseteq> set t" by (rule set_mono_prefix)
    with False clean p(2) pre have "phrase_of t phrase"
      by (fastforce simp: phrase_of_def list_all_iff list_ex_iff)
    moreover have "length phrase \<le> budget"
      unfolding p by (meson trim_end_prefix prefix_length_le truncate_bytes_length order_trans)
    ultimately show ?thesis by (simp add: t_def)
  next
    case True
    define q where "q = quote_chars budget (chars t) [CHR 0x22]"
    from True assms have p: "phrase = q @ [CHR 0x22]" "1 < length q"
      by (auto simp: display_name_def Let_def t_def q_def split: if_splits)
    then have len: "length phrase \<le> budget"
      using quote_chars_length [of budget "chars t" "[CHR 0x22]"] by (auto simp: q_def)
    obtain ds where ds: "prefix ds (chars t)" "q = CHR 0x22 # concat (map escaped ds)"
      using quote_chars_eq [of "chars t" budget "[CHR 0x22]"] by (auto simp: q_def)
    have sub: "set ds \<subseteq> set (chars t)" using ds(1) by (rule set_mono_prefix)
    have "unquote (concat (map escaped ds) @ [CHR 0x22]) = Some (concat ds)"
      by (rule unquote_escaped) (rule plain_chars_subset [OF plain_chars_chars sub])
    moreover have "prefix (concat ds) t" using prefix_concat [OF ds(1)] by simp
    moreover have eq: "phrase = CHR 0x22 # (concat (map escaped ds) @ [CHR 0x22])"
      using ds(2) p(1) by simp
    have "\<not> control_byte c" if "c \<in> set (concat (map escaped ds))" for c
    proof -
      from that obtain ch where ch: "ch \<in> set ds" "c \<in> set (escaped ch)" by auto
      from set_escaped [OF ch(2)] show ?thesis
        using ch(1) sub set_chars [of ch t] clean by auto
    qed
    then have "list_all (\<lambda>c. \<not> control_byte c) phrase" by (auto simp: eq list_all_iff)
    ultimately have "phrase_of t phrase" using eq unfolding phrase_of_def by blast
    with len show ?thesis by (simp add: t_def)
  qed
qed

text \<open>
  C28. A participant of an inbound message is stored within its cap, and its display name can
  neither break the line nor reach the address: the stored string is the address alone, or a
  phrase without control characters, then the address whole in angle brackets, where the phrase
  holds no special character or is one quoted string that reads back as a prefix of the name.
\<close>

theorem format_addr_phrase:
  assumes "format_addr m = Some s"
  shows "length s \<le> ADDRESS_MAX_BYTES \<and> (\<exists>address. mb_address m = Some address \<and>
    (s = truncate_bytes address ADDRESS_MAX_BYTES \<or>
     (\<exists>name phrase. mb_name m = Some name \<and> phrase_of (trim (fold_controls name)) phrase \<and>
        s = phrase @ '' <'' @ address @ ''>'')))"
proof -
  obtain address where a: "mb_address m = Some address"
    using assms by (auto simp: format_addr_def split: option.splits)
  then consider "s = truncate_bytes address ADDRESS_MAX_BYTES"
    | name phrase where "mb_name m = Some name" "3 + length address \<le> ADDRESS_MAX_BYTES"
        "display_name name (ADDRESS_MAX_BYTES - (3 + length address)) = Some phrase"
        "s = phrase @ '' <'' @ address @ ''>''"
    using assms by (auto simp: format_addr_def Let_def numeral_3_eq_3 split: option.splits if_splits)
  then show ?thesis
  proof cases
    case 2
    from display_name_phrase [OF 2(3)] 2(2,4) show ?thesis using a 2(1) by auto
  qed (use a in simp)
qed

theorem format_addr_phrase_witness:
  "\<exists>s. format_addr \<lparr>mb_name = Some ''Eve'', mb_address = Some ''e@x''\<rparr> = Some s \<and> length s \<le> ADDRESS_MAX_BYTES"
proof -
  let ?m = "\<lparr>mb_name = Some ''Eve'', mb_address = Some ''e@x''\<rparr>"
  have "format_addr ?m \<noteq> None" by (simp add: format_addr_def Let_def)
  then obtain s where "format_addr ?m = Some s" by blast
  with format_addr_phrase [OF this] show ?thesis by blast
qed

section \<open>Caps\<close>

abbreviation addresses_within :: "string list \<Rightarrow> bool" where
  "addresses_within as \<equiv> length as \<le> INBOUND_ADDRESS_LIST_MAX \<and> list_all (\<lambda>a. length a \<le> ADDRESS_MAX_BYTES) as"

definition headers_within :: "(string, string) btree_map \<Rightarrow> bool" where
  "headers_within headers \<longleftrightarrow>
     list_all (\<lambda>(name, value). length name \<le> HEADER_NAME_MAX \<and> length value \<le> HEADER_VALUE_MAX) (bt_entries headers)
     \<and> headers_size (bt_entries headers) < HEADERS_BUDGET + HEADER_NAME_MAX + HEADER_VALUE_MAX"

definition attachment_within :: "parsed_attachment \<Rightarrow> bool" where
  "attachment_within a \<longleftrightarrow>
     (\<forall>name. pa_filename a = Some name \<longrightarrow> length name \<le> ATTACHMENT_FIELD_MAX) \<and>
     (\<forall>cid. pa_content_id a = Some cid \<longrightarrow> length cid \<le> ATTACHMENT_FIELD_MAX) \<and>
     length (pa_content_type a) \<le> NORMALIZED_CONTENT_TYPE_MAX_BYTES \<and> CHR ''/'' \<in> set (pa_content_type a)"

definition inbound_within :: "parsed_inbound \<Rightarrow> bool" where
  "inbound_within p \<longleftrightarrow>
     length (pm_from (pi_message p)) \<le> ADDRESS_MAX_BYTES \<and>
     addresses_within (pm_to (pi_message p)) \<and> addresses_within (pm_cc (pi_message p)) \<and>
     addresses_within (pm_bcc (pi_message p)) \<and> addresses_within (ct_reply_to (pi_content p)) \<and>
     length (pm_subject (pi_message p)) \<le> SUBJECT_MAX_BYTES \<and>
     length (pm_rfc_message_id (pi_message p)) \<le> REFERENCES_MAX_BYTES \<and>
     (\<forall>i. pm_in_reply_to (pi_message p) = Some i \<longrightarrow> length i \<le> REFERENCES_MAX_BYTES) \<and>
     length (ct_references (pi_content p)) \<le> REFERENCES_MAX \<and>
     list_all (\<lambda>i. length i \<le> REFERENCES_MAX_BYTES) (ct_references (pi_content p)) \<and>
     headers_within (ct_headers (pi_content p)) \<and>
     length (pi_attachments p) \<le> ATTACHMENTS_MAX \<and> list_all attachment_within (pi_attachments p)"

lemma format_addr_length: "format_addr m = Some s \<Longrightarrow> length s \<le> ADDRESS_MAX_BYTES"
  by (auto simp: format_addr_def Let_def numeral_3_eq_3 split: option.splits if_splits
      dest!: display_name_phrase)

lemma flatten_addresses_within: "addresses_within (flatten_addresses as INBOUND_ADDRESS_LIST_MAX)"
proof (cases as)
  case (Some mailboxes)
  have "\<forall>a \<in> set (List.map_filter format_addr mailboxes). length a \<le> ADDRESS_MAX_BYTES"
    by (auto simp: map_filter_def intro: format_addr_length)
  with Some show ?thesis by (auto simp: flatten_addresses_def list_all_iff dest: in_set_takeD)
qed (simp add: flatten_addresses_def)

lemma wrap_id_length: "length (wrap_id i) \<le> REFERENCES_MAX_BYTES"
  using truncate_bytes_length [of i "REFERENCES_MAX_BYTES - 2"]
  by (simp add: wrap_id_def REFERENCES_MAX_BYTES_def HEADER_VALUE_MAX_def)

lemma id_list_within: "list_all (\<lambda>i. length i \<le> REFERENCES_MAX_BYTES) (id_list ids)"
  by (auto simp: id_list_def list_all_iff wrap_id_length split: option.split)

lemma nearest_references_within:
  "list_all P ids \<Longrightarrow> list_all P (nearest_references ids) \<and> length (nearest_references ids) \<le> REFERENCES_MAX"
  by (auto simp: nearest_references_def list_all_iff dest: in_set_dropD)

lemma list_all_entries_insert: "list_all P m \<Longrightarrow> P (k, v) \<Longrightarrow> list_all P (entries_insert k v m)"
  by (induction k v m rule: entries_insert.induct) auto

lemma headers_within_insert:
  assumes "headers_within m" and "headers_size (bt_entries m) \<le> budget" and "budget < HEADERS_BUDGET"
    and "length name \<le> HEADER_NAME_MAX" and "length value \<le> HEADER_VALUE_MAX"
  shows "headers_within (bt_insert name value m) \<and>
    headers_size (bt_entries (bt_insert name value m)) \<le> budget + (length name + length value)"
  using assms entries_insert_size [of name "value" "bt_entries m"]
  by (auto simp: headers_within_def bt_insert.rep_eq intro!: list_all_entries_insert)

lemma collect_headers_within:
  "headers_within m \<Longrightarrow> headers_size (bt_entries m) \<le> budget \<Longrightarrow> headers_within (collect_headers_from hs m budget)"
proof (induction hs m budget rule: collect_headers_from.induct)
  case (2 raw_name raw_value rest m budget)
  then show ?case
    by (simp add: Let_def headers_within_insert)
qed simp

lemma normalize_content_type_within:
  "length (normalize_content_type ct) \<le> NORMALIZED_CONTENT_TYPE_MAX_BYTES \<and> CHR ''/'' \<in> set (normalize_content_type ct)"
  by (auto simp: normalize_content_type_def Let_def NORMALIZED_CONTENT_TYPE_MAX_BYTES_def DEFAULT_CONTENT_TYPE_def
      split: option.split)

lemma nested_message_filename_length: "length (nested_message_filename inner) \<le> ATTACHMENT_FIELD_MAX"
  using truncate_bytes_length [of _ "ATTACHMENT_FIELD_MAX - 4"]
  by (auto simp: nested_message_filename_def Let_def ATTACHMENT_FIELD_MAX_def le_diff_conv2)

lemma build_attachment_within: "attachment_within (build_attachment part)"
  using normalize_content_type_within [of "mp_content_type part"]
    nested_message_filename_length [of "mp_nested part"]
  by (auto simp: attachment_within_def build_attachment_def Let_def NORMALIZED_CONTENT_TYPE_MAX_BYTES_def)

text \<open>
  C27. Whatever bytes arrive and whatever the MIME parser makes of them, what an item keeps of an inbound
  message is within its cap: participants in number and length, the subject, every id, the references in
  number, every header name and value, the number of attachments and their names, ids and types. The
  headers together are within their budget but for the one header that crosses it; the preview is the one the
  parser makes of the text, or else the HTML, for \<open>PREVIEW_CHARS\<close>. The two bodies and the bytes of an
  attachment have no cap here: they are not in the item, and \<open>serialize_within\<close> bounds the document.
\<close>

theorem parse_inbound_within:
  assumes "parse_inbound P raw = Some p"
  shows "inbound_within p \<and>
    pm_preview (pi_message p) = (case ct_text (pi_content p) of Some t \<Rightarrow> lib_preview_text P t 256
      | None \<Rightarrow> (case ct_html (pi_content p) of Some h \<Rightarrow> lib_preview_html P h 256 | None \<Rightarrow> []))"
proof -
  obtain m where m: "lib_parse_mime P raw = Some m" using assms by (auto simp: parse_inbound_def split: option.splits)
  note fa = flatten_addresses_within
  have sender: "length (case flatten_addresses as INBOUND_ADDRESS_LIST_MAX of [] \<Rightarrow> [] | a # _ \<Rightarrow> a) \<le> ADDRESS_MAX_BYTES" for as
    using fa [of as] by (auto split: list.split)
  have irt: "first_of (id_list ids) = Some i \<Longrightarrow> length i \<le> REFERENCES_MAX_BYTES" for ids i
    using id_list_within [of ids] by (auto simp: first_of_def split: list.splits)
  have headers: "headers_within (collect_headers m)"
    unfolding collect_headers_def by (rule collect_headers_within)
      (simp_all add: headers_within_def bt_empty.rep_eq headers_size_def HEADERS_BUDGET_def)
  have atts: "list_all attachment_within (map build_attachment ps)" for ps
    by (simp add: list_all_iff build_attachment_within)
  from m assms show ?thesis
    unfolding inbound_within_def
    using sender irt headers atts fa nearest_references_within [OF id_list_within]
    by (auto simp: parse_inbound_def Let_def wrap_id_length preview_def PREVIEW_CHARS_def split: option.split)
qed

definition sample_mime :: mime_libs where
  "sample_mime =
     \<lparr>lib_parse_mime = (\<lambda>_. Some \<lparr>mm_from = Some [\<lparr>mb_name = None, mb_address = Some ''a@x''\<rparr>], mm_to = None,
        mm_cc = None, mm_bcc = None, mm_reply_to = None, mm_message_id = Some ''1@x'', mm_in_reply_to = None,
        mm_references = None, mm_subject = Some ''Hi'', mm_text_body = [], mm_html_body = [],
        mm_headers = [(''Subject'', ''Hi'')], mm_parts = []\<rparr>),
      lib_preview_text = (\<lambda>t n. take n t), lib_preview_html = (\<lambda>h n. take n h)\<rparr>"

theorem parse_inbound_within_witness: "\<exists>p. parse_inbound sample_mime [] = Some p \<and> inbound_within p"
proof -
  have "parse_inbound sample_mime [] \<noteq> None" by (simp add: parse_inbound_def sample_mime_def Let_def)
  then obtain p where "parse_inbound sample_mime [] = Some p" by blast
  with parse_inbound_within [OF this] show ?thesis by blast
qed

end
