(* ===== verification/MessageIds.thy ===== *)
theory MessageIds
  imports Ids Objects
begin

text \<open>
  The ids of \<open>crates/mailbox/src/ids.rs\<close> that are built from a digest. The crates \<open>sha2\<close> and \<open>uuid\<close>
  are parameters; a \<open>Uuid\<close> is its 128 bits.
\<close>

type_synonym uuid = "128 word"

text \<open>
  \<open>Sha256::digest\<close>; \<open>Builder::from_unix_timestamp_millis\<close> with \<open>into_uuid\<close>; the hyphenated and
  the simple form; \<open>get_timestamp\<close> with \<open>to_unix\<close>, in seconds and nanoseconds.
\<close>

record id_libs =
  lib_sha256 :: "bytes \<Rightarrow> bytes"
  lib_uuid_v7 :: "u64 \<Rightarrow> bytes \<Rightarrow> uuid"
  lib_uuid_str :: "uuid \<Rightarrow> string"
  lib_uuid_simple :: "uuid \<Rightarrow> string"
  lib_uuid_unix :: "uuid \<Rightarrow> (u64 \<times> u32) option"

definition as_bytes :: "string \<Rightarrow> bytes" where
  "as_bytes s = map (\<lambda>c. of_nat (of_char c)) s"

lemma as_bytes_inject [simp]: "as_bytes a = as_bytes b \<longleftrightarrow> a = b"
proof -
  have "c = d" if "(of_nat (of_char c) :: 8 word) = of_nat (of_char d)" for c d :: char
  proof -
    have "(of_char c :: nat) < 256" "(of_char d :: nat) < 256" by simp_all
    with arg_cong [OF that, of unat] have "(of_char c :: nat) = of_char d"
      by (simp add: unat_of_nat)
    then show ?thesis by simp
  qed
  then have "inj (\<lambda>c. of_nat (of_char c) :: 8 word)" by (rule injI)
  then show ?thesis by (simp add: as_bytes_def inj_map_eq_map)
qed

abbreviation newline :: string where "newline \<equiv> [CHR 0x0A]"

definition saturating_mul :: "u64 \<Rightarrow> u64 \<Rightarrow> u64" where
  "saturating_mul a b = (if unat a * unat b < 2 ^ 64 then a * b else - 1)"

definition deterministic_seed :: "id_libs \<Rightarrow> string \<Rightarrow> bytes" where
  "deterministic_seed L input = take 10 (lib_sha256 L (as_bytes input))"

definition inbound_message_id :: "id_libs \<Rightarrow> string \<Rightarrow> u64 \<Rightarrow> uuid" where
  "inbound_message_id L ses_id received_ms =
     lib_uuid_v7 L received_ms (deterministic_seed L (''inbound'' @ newline @ ses_id))"

definition attachment_id :: "id_libs \<Rightarrow> uuid \<Rightarrow> nat \<Rightarrow> string" where
  "attachment_id L message_id ordinal =
     (let ts_ms = (case lib_uuid_unix L message_id of
            None \<Rightarrow> 0
          | Some (secs, nanos) \<Rightarrow> saturating_mul secs 1000 + ucast nanos div 1000000);
          seed = deterministic_seed L
            (''att'' @ newline @ lib_uuid_str L message_id @ newline @ radix 10 ordinal)
      in ''att_'' @ lib_uuid_simple L (lib_uuid_v7 L ts_ms seed))"

definition event_id :: "id_libs \<Rightarrow> string \<Rightarrow> string \<Rightarrow> string \<Rightarrow> u64 \<Rightarrow> string" where
  "event_id L inbox message_id event_type ts_ms =
     ''evt_'' @ lib_uuid_str L (lib_uuid_v7 L ts_ms (deterministic_seed L
       (inbox @ newline @ message_id @ newline @ event_type)))"

definition ses_event_id :: "id_libs \<Rightarrow> string \<Rightarrow> string \<Rightarrow> string \<Rightarrow> string \<Rightarrow> u64 \<Rightarrow> string" where
  "ses_event_id L inbox message_id event_type sns_message_id ts_ms =
     ''evt_'' @ lib_uuid_str L (lib_uuid_v7 L ts_ms (deterministic_seed L
       (inbox @ newline @ message_id @ newline @ event_type @ newline @ sns_message_id)))"

definition message_id_of :: "id_libs \<Rightarrow> uuid \<Rightarrow> message_id" where
  "message_id_of L u = MessageId (lib_uuid_str L u)"

text \<open>\<open>format!("{:x}")\<close> of a digest.\<close>

definition hex :: "bytes \<Rightarrow> string" where
  "hex bs = concat (map (\<lambda>b. fixed 16 2 (unat b)) bs)"

lemma fixed_hex_inject: "fixed 16 2 (unat (a :: 8 word)) = fixed 16 2 (unat b) \<longleftrightarrow> a = b"
proof -
  have "a < b \<Longrightarrow> fixed 16 2 (unat a) < fixed 16 2 (unat b)" for a b :: "8 word"
    by (rule fixed_less) (use unsigned_less [of b] in \<open>simp_all add: word_less_nat_alt\<close>)
  then show ?thesis by (metis less_linear order_less_irrefl)
qed

lemma hex_inject [simp]: "hex a = hex b \<longleftrightarrow> a = b"
proof (induction a arbitrary: b)
  case Nil
  have "hex [] = hex b \<Longrightarrow> b = []" by (cases b) (auto simp: hex_def dest: arg_cong [of _ _ length])
  then show ?case by auto
next
  case (Cons x a)
  show ?case
  proof (cases b)
    case Nil
    then show ?thesis by (auto simp: hex_def dest: arg_cong [of _ _ length])
  next
    case (Cons y c)
    with Cons.IH [of c] show ?thesis by (simp add: hex_def append_eq_append_conv fixed_hex_inject)
  qed
qed

end
