(* ===== verification/Enqueue.thy ===== *)
theory Enqueue
  imports Mime MessageIds Mailbox
begin

text \<open>
  \<open>crates/webhook/src/api/send/\<close>: \<open>spec.rs\<close>, \<open>idempotency.rs\<close>, \<open>reply.rs\<close> and the handlers of
  \<open>mod.rs\<close>. A validated request becomes a spec and parts in the outbox, a content document, and one
  commit of message, send state and idempotency key. Beside the backend, the parameters are the
  libraries used, the random id of a new message (\<open>Uuid::now_v7\<close>), \<open>HeaderValue::to_str\<close>, the printer
  and the readers of JSON, the participant parser, and the wording of a label limit, which the table's
  error does not carry.
\<close>

record ('w, 'm) api_libs =
  al_send :: send_libs
  al_ids :: id_libs
  al_mime :: mime_libs
  al_participant :: "string \<Rightarrow> 'm option"
  al_new_uuid :: "'w \<Rightarrow> uuid"
  al_header_str :: "string \<Rightarrow> string option"
  al_json_str :: "json \<Rightarrow> string"
  al_spec_to_vec :: "send_spec \<Rightarrow> bytes option"
  al_content_to_vec :: "message_content \<Rightarrow> bytes option"
  al_content_from_slice :: "bytes \<Rightarrow> message_content option"
  al_limit :: string

type_synonym ('w, 'a) api = "'w \<Rightarrow> (api_error + 'a) \<times> 'w"

definition api_ok :: "'a \<Rightarrow> ('w, 'a) api" where "api_ok a w = (Inr a, w)"
definition api_err :: "api_error \<Rightarrow> ('w, 'a) api" where "api_err e w = (Inl e, w)"

definition api_then :: "('w, 'a) api \<Rightarrow> ('a \<Rightarrow> ('w, 'b) api) \<Rightarrow> ('w, 'b) api" where
  "api_then m k w = (case m w of (Inl e, w') \<Rightarrow> (Inl e, w') | (Inr a, w') \<Rightarrow> k a w')"

text \<open>The \<open>?\<close> operator on a store call and on an object call.\<close>

definition stored_api :: "('w, 'm) api_libs \<Rightarrow> ('w, 'a) io \<Rightarrow> ('w, 'a) api" where
  "stored_api L m w = (case m w of
       (Inl e, w') \<Rightarrow> (Inl (api_error_of_store (al_limit L) e), w') | (Inr a, w') \<Rightarrow> (Inr a, w'))"

definition object_api :: "('w \<Rightarrow> (object_error + 'a) \<times> 'w) \<Rightarrow> ('w, 'a) api" where
  "object_api m w = (case m w of
       (Inl e, w') \<Rightarrow> (Inl (api_error_of_object e), w') | (Inr a, w') \<Rightarrow> (Inr a, w'))"

section \<open>The spec\<close>

definition spec_attachment_of :: "id_libs \<Rightarrow> uuid \<Rightarrow> nat \<times> validated_attachment \<Rightarrow> spec_attachment" where
  "spec_attachment_of I u indexed =
     (case indexed of (ordinal, attachment) \<Rightarrow>
        let attachment_id = attachment_id I u ordinal;
            (object_key, url, size) = (case va_source attachment of
                SourceInline bytes \<Rightarrow>
                  (Some (part_object (message_id_str (message_id_of I u)) attachment_id), None, of_nat (length bytes))
              | SourceUrl url \<Rightarrow> (None, Some (url_str url), 0))
        in \<lparr>sa_attachment_id = attachment_id, sa_object_key = object_key, sa_url = url,
            sa_filename = va_filename attachment, sa_content_type = va_content_type attachment,
            sa_content_disposition = va_content_disposition attachment,
            sa_content_id = va_content_id attachment, sa_size = size\<rparr>)"

definition build_spec ::
  "id_libs \<Rightarrow> inbox_id \<Rightarrow> validated_send \<Rightarrow> uuid \<Rightarrow> thread_id \<Rightarrow> string \<Rightarrow> send_spec" where
  "build_spec I inbox send u thread_id now =
     (let message_id = message_id_of I u in
      \<lparr>spec_message_id = message_id, spec_thread_id = thread_id, spec_inbox_id = inbox,
       spec_from = inbox_str inbox, spec_display_name = None,
       spec_envelope = \<lparr>env_to = vs_to send, env_cc = vs_cc send, env_bcc = vs_bcc send\<rparr>,
       spec_reply_to = vs_reply_to send, spec_subject = vs_subject send, spec_text = vs_text send,
       spec_html = vs_html send,
       spec_rfc_message_id = our_rfc_message_id (message_id_str message_id) (inbox_domain inbox),
       spec_in_reply_to = None, spec_references = [], spec_headers = vs_headers send,
       spec_attachments = map (spec_attachment_of I u) (enumerate 0 (vs_attachments send)),
       spec_created_at = now\<rparr>)"

fun upload_parts ::
  "'w object_store \<Rightarrow> (validated_attachment \<times> spec_attachment) list \<Rightarrow> ('w, unit) api" where
  "upload_parts objects [] = api_ok ()"
| "upload_parts objects ((attachment, spec_attachment) # rest) =
     (case (va_source attachment, sa_object_key spec_attachment) of
        (SourceInline bytes, Some key) \<Rightarrow>
          api_then (object_api (obj_put_if_absent objects key bytes (sa_content_type spec_attachment)))
            (\<lambda>_. upload_parts objects rest)
      | _ \<Rightarrow> upload_parts objects rest)"

definition upload_spec ::
  "('w, 'm) api_libs \<Rightarrow> 'w object_store \<Rightarrow> send_spec \<Rightarrow> validated_send \<Rightarrow> ('w, unit) api" where
  "upload_spec L objects spec send =
     api_then (upload_parts objects (zip (vs_attachments send) (spec_attachments spec)))
       (\<lambda>_. case al_spec_to_vec L spec of
          None \<Rightarrow> api_err Internal
        | Some body \<Rightarrow>
            api_then (object_api (obj_put_if_absent objects (spec_object (message_id_str (spec_message_id spec)))
                body ''application/json''))
              (\<lambda>_. api_ok ()))"

definition meta_of_spec :: "spec_attachment \<Rightarrow> attachment_meta" where
  "meta_of_spec a =
     \<lparr>att_attachment_id = sa_attachment_id a, att_object_key = sa_object_key a, att_size = sa_size a,
      att_filename = sa_filename a, att_content_type = sa_content_type a,
      att_content_disposition = sa_content_disposition a, att_content_id = sa_content_id a\<rparr>"

definition preview_of :: "mime_libs \<Rightarrow> validated_send \<Rightarrow> string" where
  "preview_of P send = preview P (vs_text send) (vs_html send)"

definition queued_message :: "mime_libs \<Rightarrow> inbox_id \<Rightarrow> validated_send \<Rightarrow> send_spec \<Rightarrow> string \<Rightarrow> mail_message" where
  "queued_message P inbox send spec now =
     \<lparr>msg_inbox_id = inbox, msg_thread_id = spec_thread_id spec, msg_message_id = spec_message_id spec,
      msg_ses_message_id = None, msg_direction = Outbound, msg_rfc_message_id = spec_rfc_message_id spec,
      msg_in_reply_to = spec_in_reply_to spec,
      msg_labels = remdups_adj (sort (vs_labels send @ [label_str LQueued])),
      msg_timestamp = now, msg_from = spec_from spec, msg_to = vs_to send, msg_cc = vs_cc send,
      msg_bcc = vs_bcc send, msg_subject = vs_subject send, msg_preview = preview_of P send, msg_size = 0,
      msg_attachments = map meta_of_spec (spec_attachments spec), msg_attachments_truncated = False,
      msg_raw_s3_key = None, msg_thread_snapshot = None, msg_delivery = bt_empty,
      msg_send_status = Some Queued, msg_sent_at = None, msg_version = 0, msg_created_at = now,
      msg_updated_at = now, msg_expires_at = 0\<rparr>"

definition discard_uploads :: "'w object_store \<Rightarrow> send_spec \<Rightarrow> 'w \<Rightarrow> 'w" where
  "discard_uploads objects spec w =
     fold (\<lambda>key w. snd (obj_delete objects key w))
       (spec_object (message_id_str (spec_message_id spec))
         # List.map_filter sa_object_key (spec_attachments spec)) w"

section \<open>Idempotency\<close>

definition KEY_TTL_SECONDS :: u64 where "KEY_TTL_SECONDS = 24 * 60 * 60"
definition IDEMPOTENCY_KEY_MAX_BYTES :: nat where "IDEMPOTENCY_KEY_MAX_BYTES = 255"

record send_accepted =
  acc_message_id :: message_id
  acc_thread_id :: thread_id

text \<open>The header's value, if the request has one.\<close>

definition idempotency_key_hash :: "('w, 'm) api_libs \<Rightarrow> string option \<Rightarrow> api_error + string option" where
  "idempotency_key_hash L header =
     (case header of
        None \<Rightarrow> Inr None
      | Some raw \<Rightarrow> (case al_header_str L raw of
            None \<Rightarrow> Inl (api_field ''Idempotency-Key'' ''must be printable ASCII'')
          | Some str \<Rightarrow>
              let value = trim str in
              if value = [] \<or> length value > IDEMPOTENCY_KEY_MAX_BYTES
              then Inl (api_field ''Idempotency-Key''
                (''must be 1 to '' @ dec IDEMPOTENCY_KEY_MAX_BYTES @ '' characters''))
              else Inr (Some (hex (lib_sha256 (al_ids L) (as_bytes value))))))"

definition json_opt :: "string option \<Rightarrow> json" where
  "json_opt s = (case s of None \<Rightarrow> JNull | Some s \<Rightarrow> JString s)"

definition json_list :: "string list \<Rightarrow> json" where
  "json_list ss = JArray (map JString ss)"

fun source_json :: "id_libs \<Rightarrow> attachment_source \<Rightarrow> json" where
  "source_json I (SourceInline bytes) = JObject [(''sha256'', JString (hex (lib_sha256 I bytes)))]"
| "source_json I (SourceUrl url) = JObject [(''url'', JString (url_str url))]"

definition attachment_json :: "id_libs \<Rightarrow> validated_attachment \<Rightarrow> json" where
  "attachment_json I a =
     JObject [(''source'', source_json I (va_source a)), (''filename'', json_opt (va_filename a)),
       (''content_type'', JString (va_content_type a)),
       (''content_disposition'', JString (disposition_str (va_content_disposition a))),
       (''content_id'', json_opt (va_content_id a))]"

definition request_json :: "id_libs \<Rightarrow> inbox_id \<Rightarrow> string \<Rightarrow> string option \<Rightarrow> validated_send \<Rightarrow> json" where
  "request_json I inbox route original_message_id send =
     JObject [(''inbox'', JString (inbox_str inbox)), (''route'', JString route),
       (''original_message_id'', json_opt original_message_id), (''to'', json_list (vs_to send)),
       (''cc'', json_list (vs_cc send)), (''bcc'', json_list (vs_bcc send)),
       (''reply_to'', json_list (vs_reply_to send)), (''subject'', JString (vs_subject send)),
       (''text'', json_opt (vs_text send)), (''html'', json_opt (vs_html send)),
       (''labels'', json_list (vs_labels send)),
       (''headers'', JObject (map (\<lambda>(name, value). (name, JString value)) (bt_entries (vs_headers send)))),
       (''attachments'', JArray (map (attachment_json I) (vs_attachments send)))]"

definition fingerprint ::
  "('w, 'm) api_libs \<Rightarrow> inbox_id \<Rightarrow> string \<Rightarrow> string option \<Rightarrow> validated_send \<Rightarrow> string" where
  "fingerprint L inbox route original_message_id send =
     hex (lib_sha256 (al_ids L) (as_bytes (al_json_str L
       (request_json (al_ids L) inbox route original_message_id send))))"

definition replay_key ::
  "('w, 'm) api_libs \<Rightarrow> 'w app \<Rightarrow> string \<Rightarrow> string \<Rightarrow> ('w, send_accepted option) api" where
  "replay_key L A key_hash request_hash =
     api_then (stored_api L (get_send_key (app_table A) key_hash)) (\<lambda>found w. case found of
         None \<Rightarrow> (Inr None, w)
       | Some existing \<Rightarrow>
           let now_epoch = app_now_ms A w div 1000 in
           if key_expires_at existing < now_epoch then (Inr None, w)
           else if key_request_hash existing = request_hash
           then (Inr (Some \<lparr>acc_message_id = key_message_id existing, acc_thread_id = key_thread_id existing\<rparr>), w)
           else (Inl (Conflict ''this Idempotency-Key was used for a different request''), w))"

section \<open>Replies\<close>

definition threading_references :: "mail_message \<Rightarrow> string list \<Rightarrow> string list" where
  "threading_references original original_references =
     (let references = (if msg_rfc_message_id original \<in> set original_references then original_references
            else original_references @ [msg_rfc_message_id original])
      in if length references > REFERENCES_MAX
         then references ! 0 # drop (length references - (REFERENCES_MAX - 1)) references
         else references)"

definition is_inbox :: "(string \<Rightarrow> 'm option) \<Rightarrow> inbox_id \<Rightarrow> string \<Rightarrow> bool" where
  "is_inbox pp inbox participant = same_mailbox pp participant (inbox_str inbox)"

definition without_inbox :: "(string \<Rightarrow> 'm option) \<Rightarrow> inbox_id \<Rightarrow> string list \<Rightarrow> string list" where
  "without_inbox pp inbox people = filter (\<lambda>p. \<not> is_inbox pp inbox p) people"

definition reply_all_step ::
  "(string \<Rightarrow> 'm option) \<Rightarrow> inbox_id \<Rightarrow> string list \<Rightarrow> string \<Rightarrow> string list \<Rightarrow> string list" where
  "reply_all_step pp inbox direct participant out =
     (let addressed = list_ex (\<lambda>seen. same_mailbox pp seen participant) (direct @ out) in
      if \<not> is_inbox pp inbox participant \<and> \<not> addressed then out @ [participant] else out)"

definition reply_all_recipients ::
  "(string \<Rightarrow> 'm option) \<Rightarrow> inbox_id \<Rightarrow> mail_message \<Rightarrow> string list \<Rightarrow> string list" where
  "reply_all_recipients pp inbox original direct =
     fold (reply_all_step pp inbox direct) (msg_to original @ msg_cc original) []"

text \<open>Who a reply addresses: blind copies only, or the direct recipients.\<close>

datatype reply_addressing = ReplyBcc "string list" | ReplyDirect "string list"

definition reply_target ::
  "(string \<Rightarrow> 'm option) \<Rightarrow> inbox_id \<Rightarrow> mail_message \<Rightarrow> string list \<Rightarrow> reply_addressing" where
  "reply_target pp inbox original original_reply_to =
     (if is_inbox pp inbox (msg_from original) then
        (let to = without_inbox pp inbox (msg_to original);
             cc = without_inbox pp inbox (msg_cc original);
             bcc = without_inbox pp inbox (msg_bcc original)
         in if to \<noteq> [] then ReplyDirect to
            else if cc \<noteq> [] then ReplyDirect cc
            else if bcc \<noteq> [] then ReplyBcc bcc
            else ReplyDirect [msg_from original])
      else
        (let reply_to = without_inbox pp inbox original_reply_to in
         ReplyDirect (if reply_to = [] then [msg_from original] else reply_to)))"

definition address_reply ::
  "(string \<Rightarrow> 'm option) \<Rightarrow> send_request \<Rightarrow> inbox_id \<Rightarrow> mail_message \<Rightarrow> string list \<Rightarrow> bool \<Rightarrow> send_request" where
  "address_reply pp send inbox original original_reply_to reply_all =
     (case reply_target pp inbox original original_reply_to of
        ReplyBcc bcc \<Rightarrow> send\<lparr>sr_bcc := Some (Many bcc)\<rparr>
      | ReplyDirect direct \<Rightarrow>
          let others = reply_all_recipients pp inbox original direct;
              send = (if reply_all \<and> others \<noteq> [] then send\<lparr>sr_cc := Some (Many others)\<rparr> else send)
          in send\<lparr>sr_to := Some (Many direct)\<rparr>)"

text \<open>\<open>str::get (..n)\<close>.\<close>

definition str_get_to :: "nat \<Rightarrow> string \<Rightarrow> string option" where
  "str_get_to n s = (if n = length s \<or> n < length s \<and> \<not> continuation (s ! n) then Some (take n s) else None)"

definition reply_subject :: "string \<Rightarrow> string" where
  "reply_subject original =
     (let trimmed = trim original in
      case str_get_to 3 trimmed of
        Some start \<Rightarrow> if eq_ignore_ascii_case start ''re:'' then trimmed else ''Re: '' @ trimmed
      | None \<Rightarrow> ''Re: '' @ trimmed)"

section \<open>The handlers\<close>

type_synonym original = "(mail_message \<times> message_content) option"

definition reply_spec :: "send_spec \<Rightarrow> original \<Rightarrow> send_spec" where
  "reply_spec spec original =
     (case original of
        None \<Rightarrow> spec
      | Some (message, content) \<Rightarrow>
          spec\<lparr>spec_in_reply_to := Some (msg_rfc_message_id message),
               spec_references := threading_references message (ct_references content)\<rparr>)"

definition discard_and_fail :: "'w object_store \<Rightarrow> send_spec \<Rightarrow> api_error \<Rightarrow> ('w, 'a) api" where
  "discard_and_fail objects spec error w = (Inl error, discard_uploads objects spec w)"

definition outbound_content :: "validated_send \<Rightarrow> send_spec \<Rightarrow> message_content" where
  "outbound_content send spec =
     \<lparr>ct_text = vs_text send, ct_html = vs_html send, ct_headers = vs_headers send,
      ct_references = spec_references spec, ct_reply_to = vs_reply_to send, ct_verdicts = None\<rparr>"

definition key_of ::
  "string option \<Rightarrow> inbox_id \<Rightarrow> send_spec \<Rightarrow> string \<Rightarrow> string \<Rightarrow> string \<Rightarrow> u64 \<Rightarrow> send_key option" where
  "key_of key_hash inbox spec request_hash route now now_ms =
     map_option (\<lambda>hash.
       \<lparr>key_key_hash = hash, key_inbox_id = inbox, key_message_id = spec_message_id spec,
        key_thread_id = spec_thread_id spec, key_request_hash = request_hash, key_route = route,
        key_created_at = now, key_expires_at = now_ms div 1000 + KEY_TTL_SECONDS\<rparr>) key_hash"

definition queued_state :: "inbox_id \<Rightarrow> validated_send \<Rightarrow> send_spec \<Rightarrow> string option \<Rightarrow> string \<Rightarrow> send_state" where
  "queued_state inbox validated spec key_hash now =
     queued inbox (spec_message_id spec) (spec_thread_id spec)
       \<lparr>env_to = vs_to validated, env_cc = vs_cc validated, env_bcc = vs_bcc validated\<rparr>
       (map_option send_key_pk key_hash) now"

text \<open>The commit, and what each of its outcomes answers.\<close>

definition commit_send ::
  "('w, 'm) api_libs \<Rightarrow> 'w app \<Rightarrow> mail_config \<Rightarrow> inbox_id \<Rightarrow> validated_send \<Rightarrow> send_spec \<Rightarrow> string option
     \<Rightarrow> string \<Rightarrow> string \<Rightarrow> u64 \<Rightarrow> ('w, send_accepted) api" where
  "commit_send L A config inbox validated spec key_hash request_hash route now_ms w =
     (let now = time_format now_ms;
          state_item = queued_state inbox validated spec key_hash now;
          message = (queued_message (al_mime L) inbox validated spec now)
            \<lparr>msg_expires_at := expires_at now_ms (mc_retention_days config)\<rparr>;
          key = key_of key_hash inbox spec request_hash route now now_ms
      in case enqueue_send (al_participant L) (app_table A) message state_item key (now_ms div 1000) w of
           (Inr EnqKeyExists, w') \<Rightarrow>
             api_then (replay_key L A (case key of None \<Rightarrow> [] | Some k \<Rightarrow> key_key_hash k) request_hash)
               (\<lambda>replayed. case replayed of
                  Some accepted \<Rightarrow> api_ok accepted
                | None \<Rightarrow> api_err (Conflict ''this Idempotency-Key is already in use''))
               (discard_uploads (app_objects A) spec w')
         | (Inr _, w') \<Rightarrow>
             (Inr \<lparr>acc_message_id = spec_message_id spec, acc_thread_id = spec_thread_id spec\<rparr>, w')
         | (Inl error, w') \<Rightarrow>
             discard_and_fail (app_objects A) spec (api_error_of_store (al_limit L) error) w')"

definition queue_send ::
  "('w, 'm) api_libs \<Rightarrow> 'w app \<Rightarrow> mail_config \<Rightarrow> inbox_id \<Rightarrow> validated_send \<Rightarrow> string option \<Rightarrow> string
     \<Rightarrow> original \<Rightarrow> string \<Rightarrow> ('w, send_accepted) api" where
  "queue_send L A config inbox validated key_hash request_hash original route w =
     (let now_ms = app_now_ms A w;
          now = time_format now_ms;
          u = al_new_uuid L w;
          message_id = message_id_of (al_ids L) u;
          thread_id = (case original of None \<Rightarrow> thread_of_message message_id | Some (message, _) \<Rightarrow> msg_thread_id message);
          spec = reply_spec (build_spec (al_ids L) inbox validated u thread_id now) original
      in case upload_spec L (app_objects A) spec validated w of
           (Inl error, w') \<Rightarrow> discard_and_fail (app_objects A) spec error w'
         | (Inr _, w') \<Rightarrow>
             (case store_content (al_content_to_vec L) (app_objects A) inbox message_id
                 (outbound_content validated spec) w' of
                (Inl error, w'') \<Rightarrow> discard_and_fail (app_objects A) spec (api_error_of_object error) w''
              | (Inr _, w'') \<Rightarrow> commit_send L A config inbox validated spec key_hash request_hash route now_ms w''))"

definition enqueue ::
  "('w, 'm) api_libs \<Rightarrow> 'w app \<Rightarrow> inbox_id \<Rightarrow> send_request \<Rightarrow> string option \<Rightarrow> original \<Rightarrow> string
     \<Rightarrow> ('w, send_accepted) api" where
  "enqueue L A inbox request header original route =
     (case idempotency_key_hash L header of
        Inl e \<Rightarrow> api_err e
      | Inr key_hash \<Rightarrow> (case app_mail A of
          None \<Rightarrow> api_err NotImplemented
        | Some config \<Rightarrow>
            api_then (stored_api L (get_inbox (app_table A) inbox)) (\<lambda>found.
              if found = None then api_err NotFound
              else case validate (al_send L) request of
                  Inl e \<Rightarrow> api_err e
                | Inr validated \<Rightarrow>
                    let request_hash = fingerprint L inbox route
                          (map_option (\<lambda>(message, _). message_id_str (msg_message_id message)) original) validated
                    in api_then
                      (case key_hash of None \<Rightarrow> api_ok None | Some hash \<Rightarrow> replay_key L A hash request_hash)
                      (\<lambda>replayed. case replayed of
                         Some accepted \<Rightarrow> api_ok accepted
                       | None \<Rightarrow> queue_send L A config inbox validated key_hash request_hash original route))))"

definition send :: "('w, 'm) api_libs \<Rightarrow> 'w app \<Rightarrow> inbox_id \<Rightarrow> send_request \<Rightarrow> string option \<Rightarrow> ('w, send_accepted) api" where
  "send L A inbox request header = enqueue L A inbox request header None ''send''"

record reply_request =
  rr_send :: send_request
  rr_reply_all :: bool

definition reply ::
  "('w, 'm) api_libs \<Rightarrow> 'w app \<Rightarrow> inbox_id \<Rightarrow> message_id \<Rightarrow> reply_request \<Rightarrow> string option
     \<Rightarrow> ('w, send_accepted) api" where
  "reply L A inbox message_id request header =
     api_then (stored_api L (get_message (app_table A) inbox message_id)) (\<lambda>found. case found of
         None \<Rightarrow> api_err NotFound
       | Some original \<Rightarrow>
           api_then (object_api (load_content (al_content_from_slice L) (app_objects A) original)) (\<lambda>content.
             let send = rr_send request;
                 send = (if sr_to send = None \<and> sr_cc send = None \<and> sr_bcc send = None
                         then address_reply (al_participant L) send inbox original (ct_reply_to content)
                           (rr_reply_all request)
                         else send);
                 send = (if sr_subject send = None
                         then send\<lparr>sr_subject := Some (reply_subject (msg_subject original))\<rparr> else send)
             in enqueue L A inbox send header (Some (original, content)) ''reply''))"

end
