(* ===== verification/Events.thy ===== *)
theory Events
  imports Enqueue "HOL-Library.Monad_Syntax"
begin

text \<open>
  \<open>crates/webhook/src/model\<close>: the notifications AWS sends, read from their JSON by shape, and what
  the pipeline asks of them. The parser of \<open>serde_json\<close> is a parameter that gives the members of an
  object in the order of the text; what \<open>#[derive(Deserialize)]\<close> does with them is written out, an
  array for a struct included.
\<close>

section \<open>Deserialization\<close>

type_synonym 'a de = "json \<Rightarrow> 'a option"

text \<open>
  \<open>serde_json::Value\<close> keeps an object as a sorted map: of a member given twice the last one counts.
\<close>

definition collapse :: "(string \<times> 'a) list \<Rightarrow> (string \<times> 'a) list" where
  "collapse kvs = map (\<lambda>k. (k, the (map_of (rev kvs) k))) (sort (remdups (map fst kvs)))"

primrec to_value :: "json \<Rightarrow> json" where
  "to_value JNull = JNull"
| "to_value (JBool b) = JBool b"
| "to_value (JNumber n) = JNumber n"
| "to_value (JString s) = JString s"
| "to_value (JArray vs) = JArray (map to_value vs)"
| "to_value (JObject kvs) = JObject (collapse (map (map_prod id to_value) kvs))"

text \<open>
  The values of a struct's fields, each under its name or an alias: a field given twice is an error,
  as is an array longer than the struct.
\<close>

definition occurrences :: "string list \<Rightarrow> (string \<times> json) list \<Rightarrow> json list" where
  "occurrences names kvs = map snd (filter (\<lambda>(k, _). k \<in> set names) kvs)"

fun struct_fields :: "string list list \<Rightarrow> json \<Rightarrow> json option list option" where
  "struct_fields layout (JObject kvs) =
     (if list_ex (\<lambda>names. length (occurrences names kvs) > 1) layout then None
      else Some (map (\<lambda>names. case occurrences names kvs of [] \<Rightarrow> None | v # _ \<Rightarrow> Some v) layout))"
| "struct_fields layout (JArray vs) =
     (if length vs > length layout then None
      else Some (map Some vs @ replicate (length layout - length vs) None))"
| "struct_fields layout _ = None"

definition required :: "'a de \<Rightarrow> json option \<Rightarrow> 'a option" where
  "required d value = Option.bind value d"

definition defaulted :: "'a \<Rightarrow> 'a de \<Rightarrow> json option \<Rightarrow> 'a option" where
  "defaulted absent d value = (case value of None \<Rightarrow> Some absent | Some v \<Rightarrow> d v)"

definition de_option :: "'a de \<Rightarrow> 'a option de" where
  "de_option d v = (case v of JNull \<Rightarrow> Some None | _ \<Rightarrow> map_option Some (d v))"

abbreviation optional :: "'a de \<Rightarrow> json option \<Rightarrow> 'a option option" where
  "optional d \<equiv> defaulted None (de_option d)"

fun de_string :: "string de" where
  "de_string (JString s) = Some s"
| "de_string _ = None"

fun de_bool :: "bool de" where
  "de_bool (JBool b) = Some b"
| "de_bool _ = None"

fun de_all :: "'a de \<Rightarrow> json list \<Rightarrow> 'a list option" where
  "de_all d [] = Some []"
| "de_all d (v # vs) = do { x \<leftarrow> d v; xs \<leftarrow> de_all d vs; Some (x # xs) }"

fun de_vec :: "'a de \<Rightarrow> 'a list de" where
  "de_vec d (JArray vs) = de_all d vs"
| "de_vec d _ = None"

text \<open>\<open>open_string_enum!\<close>: a known string is its variant, any other is kept.\<close>

definition de_enum :: "(string \<Rightarrow> 'a) \<Rightarrow> 'a de" where
  "de_enum parse v = map_option parse (de_string v)"

section \<open>SES sending events\<close>

datatype bounce_type = BUndetermined | BPermanent | BTransient | BOther string

definition bounce_type_of :: "string \<Rightarrow> bounce_type" where
  "bounce_type_of s = (if s = ''Undetermined'' then BUndetermined else if s = ''Permanent'' then BPermanent
     else if s = ''Transient'' then BTransient else BOther s)"

fun bounce_type_str :: "bounce_type \<Rightarrow> string" where
  "bounce_type_str BUndetermined = ''Undetermined''"
| "bounce_type_str BPermanent = ''Permanent''"
| "bounce_type_str BTransient = ''Transient''"
| "bounce_type_str (BOther s) = s"

datatype bot_flag = Likely | Unlikely | BotOther string

definition bot_flag_of :: "string \<Rightarrow> bot_flag" where
  "bot_flag_of s = (if s = ''Likely'' then Likely else if s = ''Unlikely'' then Unlikely else BotOther s)"

datatype ses_event_kind =
    KindSend | KindDelivery | KindBounce | KindComplaint | KindReject | KindOpen | KindClick
  | KindRenderingFailure | KindDeliveryDelay | KindSubscription | KindUnlisted string

definition ses_kinds :: "(string \<times> ses_event_kind) list" where
  "ses_kinds =
     [(''Send'', KindSend), (''Delivery'', KindDelivery), (''Bounce'', KindBounce),
      (''Complaint'', KindComplaint), (''Reject'', KindReject), (''Open'', KindOpen), (''Click'', KindClick),
      (''Rendering Failure'', KindRenderingFailure), (''DeliveryDelay'', KindDeliveryDelay),
      (''Subscription'', KindSubscription)]"

definition ses_kind_of :: "string \<Rightarrow> ses_event_kind" where
  "ses_kind_of s = (case map_of ses_kinds s of Some k \<Rightarrow> k | None \<Rightarrow> KindUnlisted s)"

fun ses_detail_type :: "ses_event_kind \<Rightarrow> string option" where
  "ses_detail_type KindSend = Some ''ses.send''"
| "ses_detail_type KindDelivery = Some ''ses.delivery''"
| "ses_detail_type KindBounce = Some ''ses.bounce''"
| "ses_detail_type KindComplaint = Some ''ses.complaint''"
| "ses_detail_type KindReject = Some ''ses.reject''"
| "ses_detail_type KindOpen = Some ''ses.open''"
| "ses_detail_type KindClick = Some ''ses.click''"
| "ses_detail_type KindRenderingFailure = Some ''ses.rendering-failure''"
| "ses_detail_type KindDeliveryDelay = Some ''ses.delivery-delay''"
| "ses_detail_type KindSubscription = Some ''ses.subscription''"
| "ses_detail_type (KindUnlisted _) = None"

fun mailbox_label :: "ses_event_kind \<Rightarrow> system_label option" where
  "mailbox_label KindDelivery = Some LDelivered"
| "mailbox_label KindBounce = Some LBounced"
| "mailbox_label KindComplaint = Some LComplained"
| "mailbox_label KindReject = Some LRejected"
| "mailbox_label KindOpen = Some LOpened"
| "mailbox_label _ = None"

fun mailbox_event_type :: "ses_event_kind \<Rightarrow> string option" where
  "mailbox_event_type KindDelivery = Some ''message.delivered''"
| "mailbox_event_type KindBounce = Some ''message.bounced''"
| "mailbox_event_type KindComplaint = Some ''message.complained''"
| "mailbox_event_type KindReject = Some ''message.rejected''"
| "mailbox_event_type KindOpen = Some ''message.opened''"
| "mailbox_event_type _ = None"

record ses_common_headers =
  sch_from :: "string list"
  sch_to :: "string list"
  sch_subject :: "string option"
  sch_date :: "string option"
  sch_message_id :: "string option"

record ses_mail =
  sml_message_id :: string
  sml_source :: "string option"
  sml_destination :: "string list"
  sml_timestamp :: "string option"
  sml_common_headers :: "ses_common_headers option"

record ses_recipient =
  srp_email_address :: string
  srp_status :: "string option"

record ses_bounce =
  bnc_bounce_type :: bounce_type
  bnc_bounce_sub_type :: "string option"
  bnc_bounced_recipients :: "ses_recipient list"
  bnc_timestamp :: "string option"

record ses_complaint =
  cmp_complained_recipients :: "ses_recipient list"
  cmp_complaint_feedback_type :: "string option"
  cmp_complaint_sub_type :: "string option"
  cmp_timestamp :: "string option"

record ses_delivery =
  dlv_timestamp :: "string option"
  dlv_recipients :: "string list"

record ses_reject =
  rej_reason :: "string option"

record ses_engagement =
  eng_is_bot_event :: "bot_flag option"
  eng_timestamp :: "string option"

record ses_notification =
  ses_kind :: ses_event_kind
  ses_mail :: ses_mail
  ses_bounce :: "ses_bounce option"
  ses_complaint :: "ses_complaint option"
  ses_delivery :: "ses_delivery option"
  ses_reject :: "ses_reject option"
  ses_open :: "ses_engagement option"
  ses_click :: "ses_engagement option"

definition is_permanent :: "ses_bounce \<Rightarrow> bool" where
  "is_permanent bounce \<longleftrightarrow> (case bnc_bounce_type bounce of BPermanent \<Rightarrow> True | _ \<Rightarrow> False)"

definition is_bot :: "ses_engagement \<Rightarrow> bool" where
  "is_bot engagement \<longleftrightarrow> (case eng_is_bot_event engagement of Some Likely \<Rightarrow> True | _ \<Rightarrow> False)"

definition de_common_headers :: "ses_common_headers de" where
  "de_common_headers j = do {
     fs \<leftarrow> struct_fields [[''from''], [''to''], [''subject''], [''date''], [''messageId'']] j;
     senders \<leftarrow> defaulted [] (de_vec de_string) (fs ! 0);
     recipients \<leftarrow> defaulted [] (de_vec de_string) (fs ! 1);
     subject \<leftarrow> optional de_string (fs ! 2);
     date \<leftarrow> optional de_string (fs ! 3);
     message_id \<leftarrow> optional de_string (fs ! 4);
     Some \<lparr>sch_from = senders, sch_to = recipients, sch_subject = subject, sch_date = date,
       sch_message_id = message_id\<rparr> }"

definition de_ses_mail :: "ses_mail de" where
  "de_ses_mail j = do {
     fs \<leftarrow> struct_fields [[''messageId''], [''source''], [''destination''], [''timestamp''], [''commonHeaders'']] j;
     message_id \<leftarrow> required de_string (fs ! 0);
     source \<leftarrow> optional de_string (fs ! 1);
     destination \<leftarrow> defaulted [] (de_vec de_string) (fs ! 2);
     timestamp \<leftarrow> optional de_string (fs ! 3);
     headers \<leftarrow> optional de_common_headers (fs ! 4);
     Some \<lparr>sml_message_id = message_id, sml_source = source, sml_destination = destination,
       sml_timestamp = timestamp, sml_common_headers = headers\<rparr> }"

definition de_ses_recipient :: "ses_recipient de" where
  "de_ses_recipient j = do {
     fs \<leftarrow> struct_fields [[''emailAddress''], [''status'']] j;
     email \<leftarrow> required de_string (fs ! 0);
     status \<leftarrow> optional de_string (fs ! 1);
     Some \<lparr>srp_email_address = email, srp_status = status\<rparr> }"

definition de_ses_bounce :: "ses_bounce de" where
  "de_ses_bounce j = do {
     fs \<leftarrow> struct_fields [[''bounceType''], [''bounceSubType''], [''bouncedRecipients''], [''timestamp'']] j;
     kind \<leftarrow> required (de_enum bounce_type_of) (fs ! 0);
     sub_type \<leftarrow> optional de_string (fs ! 1);
     recipients \<leftarrow> defaulted [] (de_vec de_ses_recipient) (fs ! 2);
     timestamp \<leftarrow> optional de_string (fs ! 3);
     Some \<lparr>bnc_bounce_type = kind, bnc_bounce_sub_type = sub_type, bnc_bounced_recipients = recipients,
       bnc_timestamp = timestamp\<rparr> }"

definition de_ses_complaint :: "ses_complaint de" where
  "de_ses_complaint j = do {
     fs \<leftarrow> struct_fields [[''complainedRecipients''], [''complaintFeedbackType''], [''complaintSubType''],
       [''timestamp'']] j;
     recipients \<leftarrow> defaulted [] (de_vec de_ses_recipient) (fs ! 0);
     feedback \<leftarrow> optional de_string (fs ! 1);
     sub_type \<leftarrow> optional de_string (fs ! 2);
     timestamp \<leftarrow> optional de_string (fs ! 3);
     Some \<lparr>cmp_complained_recipients = recipients, cmp_complaint_feedback_type = feedback,
       cmp_complaint_sub_type = sub_type, cmp_timestamp = timestamp\<rparr> }"

definition de_ses_delivery :: "ses_delivery de" where
  "de_ses_delivery j = do {
     fs \<leftarrow> struct_fields [[''timestamp''], [''recipients'']] j;
     timestamp \<leftarrow> optional de_string (fs ! 0);
     recipients \<leftarrow> defaulted [] (de_vec de_string) (fs ! 1);
     Some \<lparr>dlv_timestamp = timestamp, dlv_recipients = recipients\<rparr> }"

definition de_ses_reject :: "ses_reject de" where
  "de_ses_reject j = do {
     fs \<leftarrow> struct_fields [[''reason'']] j;
     reason \<leftarrow> optional de_string (fs ! 0);
     Some \<lparr>rej_reason = reason\<rparr> }"

definition de_ses_engagement :: "ses_engagement de" where
  "de_ses_engagement j = do {
     fs \<leftarrow> struct_fields [[''isBotEvent''], [''timestamp'']] j;
     bot \<leftarrow> optional (de_enum bot_flag_of) (fs ! 0);
     timestamp \<leftarrow> optional de_string (fs ! 1);
     Some \<lparr>eng_is_bot_event = bot, eng_timestamp = timestamp\<rparr> }"

definition de_ses_notification :: "ses_notification de" where
  "de_ses_notification j = do {
     fs \<leftarrow> struct_fields [[''eventType'', ''notificationType''], [''mail''], [''bounce''], [''complaint''],
       [''delivery''], [''reject''], [''open''], [''click'']] j;
     kind \<leftarrow> required (de_enum ses_kind_of) (fs ! 0);
     mail \<leftarrow> required de_ses_mail (fs ! 1);
     bounce \<leftarrow> optional de_ses_bounce (fs ! 2);
     complaint \<leftarrow> optional de_ses_complaint (fs ! 3);
     delivery \<leftarrow> optional de_ses_delivery (fs ! 4);
     reject \<leftarrow> optional de_ses_reject (fs ! 5);
     opened \<leftarrow> optional de_ses_engagement (fs ! 6);
     click \<leftarrow> optional de_ses_engagement (fs ! 7);
     Some \<lparr>ses_kind = kind, ses_mail = mail, ses_bounce = bounce, ses_complaint = complaint,
       ses_delivery = delivery, ses_reject = reject, ses_open = opened, ses_click = click\<rparr> }"

section \<open>SES receipts\<close>

datatype verdict_status = VPass | VFail | VGray | VProcessingFailed | VOther string

definition verdict_status_of :: "string \<Rightarrow> verdict_status" where
  "verdict_status_of s = (if s = ''PASS'' then VPass else if s = ''FAIL'' then VFail
     else if s = ''GRAY'' then VGray else if s = ''PROCESSING_FAILED'' then VProcessingFailed else VOther s)"

fun verdict_status_str :: "verdict_status \<Rightarrow> string" where
  "verdict_status_str VPass = ''PASS''"
| "verdict_status_str VFail = ''FAIL''"
| "verdict_status_str VGray = ''GRAY''"
| "verdict_status_str VProcessingFailed = ''PROCESSING_FAILED''"
| "verdict_status_str (VOther s) = s"

text \<open>\<open>Verdict\<close> has the one field \<open>status\<close>.\<close>

datatype verdict = Verdict (verdict_status: verdict_status)

record ses_receipt_action =
  sra_kind :: "string option"
  sra_bucket_name :: "string option"
  sra_object_key :: "string option"

record ses_receipt =
  rct_recipients :: "string list"
  rct_timestamp :: "string option"
  rct_spam_verdict :: "verdict option"
  rct_virus_verdict :: "verdict option"
  rct_spf_verdict :: "verdict option"
  rct_dkim_verdict :: "verdict option"
  rct_dmarc_verdict :: "verdict option"
  rct_dmarc_policy :: "string option"
  rct_action :: "ses_receipt_action option"

record ses_inbound_notification =
  sin_notification_type :: string
  sin_mail :: ses_mail
  sin_receipt :: ses_receipt

definition SETUP_NOTIFICATION_MESSAGE_ID :: string where
  "SETUP_NOTIFICATION_MESSAGE_ID = ''AMAZON_SES_SETUP_NOTIFICATION''"

definition is_setup_notification :: "ses_inbound_notification \<Rightarrow> bool" where
  "is_setup_notification event \<longleftrightarrow> sml_message_id (sin_mail event) = SETUP_NOTIFICATION_MESSAGE_ID"

definition verdict_failed :: "verdict \<Rightarrow> bool" where
  "verdict_failed v \<longleftrightarrow> (case verdict_status v of VFail \<Rightarrow> True | _ \<Rightarrow> False)"

definition failed_verdict :: "verdict option \<Rightarrow> bool" where
  "failed_verdict v \<longleftrightarrow> (case v of None \<Rightarrow> False | Some v \<Rightarrow> verdict_failed v)"

definition is_quarantined :: "ses_receipt \<Rightarrow> bool" where
  "is_quarantined receipt \<longleftrightarrow>
     failed_verdict (rct_spam_verdict receipt) \<or> failed_verdict (rct_virus_verdict receipt)"

definition s3_pointer :: "ses_receipt \<Rightarrow> (string \<times> string) option" where
  "s3_pointer receipt = do {
     action \<leftarrow> rct_action receipt;
     (case (sra_bucket_name action, sra_object_key action) of
        (Some bucket, Some key) \<Rightarrow> Some (bucket, key) | _ \<Rightarrow> None) }"

definition de_verdict :: "verdict de" where
  "de_verdict j = do {
     fs \<leftarrow> struct_fields [[''status'']] j;
     status \<leftarrow> required (de_enum verdict_status_of) (fs ! 0);
     Some (Verdict status) }"

definition de_receipt_action :: "ses_receipt_action de" where
  "de_receipt_action j = do {
     fs \<leftarrow> struct_fields [[''type''], [''bucketName''], [''objectKey'']] j;
     kind \<leftarrow> optional de_string (fs ! 0);
     bucket \<leftarrow> optional de_string (fs ! 1);
     key \<leftarrow> optional de_string (fs ! 2);
     Some \<lparr>sra_kind = kind, sra_bucket_name = bucket, sra_object_key = key\<rparr> }"

definition de_receipt :: "ses_receipt de" where
  "de_receipt j = do {
     fs \<leftarrow> struct_fields [[''recipients''], [''timestamp''], [''spamVerdict''], [''virusVerdict''],
       [''spfVerdict''], [''dkimVerdict''], [''dmarcVerdict''], [''dmarcPolicy''], [''action'']] j;
     recipients \<leftarrow> defaulted [] (de_vec de_string) (fs ! 0);
     timestamp \<leftarrow> optional de_string (fs ! 1);
     spam \<leftarrow> optional de_verdict (fs ! 2);
     virus \<leftarrow> optional de_verdict (fs ! 3);
     spf \<leftarrow> optional de_verdict (fs ! 4);
     dkim \<leftarrow> optional de_verdict (fs ! 5);
     dmarc \<leftarrow> optional de_verdict (fs ! 6);
     policy \<leftarrow> optional de_string (fs ! 7);
     action \<leftarrow> optional de_receipt_action (fs ! 8);
     Some \<lparr>rct_recipients = recipients, rct_timestamp = timestamp, rct_spam_verdict = spam,
       rct_virus_verdict = virus, rct_spf_verdict = spf, rct_dkim_verdict = dkim,
       rct_dmarc_verdict = dmarc, rct_dmarc_policy = policy, rct_action = action\<rparr> }"

definition de_ses_inbound :: "ses_inbound_notification de" where
  "de_ses_inbound j = do {
     fs \<leftarrow> struct_fields [[''notificationType''], [''mail''], [''receipt'']] j;
     kind \<leftarrow> required de_string (fs ! 0);
     mail \<leftarrow> required de_ses_mail (fs ! 1);
     receipt \<leftarrow> required de_receipt (fs ! 2);
     Some \<lparr>sin_notification_type = kind, sin_mail = mail, sin_receipt = receipt\<rparr> }"

subsection \<open>The summary of a receipt\<close>

record auth_summary =
  as_spf :: "string option"
  as_dkim :: "string option"
  as_dmarc :: "string option"
  as_spam :: "string option"
  as_virus :: "string option"
  as_dmarc_policy :: "string option"

record inbound_summary =
  is_headers :: "ses_common_headers option"
  is_auth :: auth_summary

definition status_of :: "verdict option \<Rightarrow> string option" where
  "status_of v = map_option (verdict_status_str \<circ> verdict_status) v"

definition summary_from_receipt :: "ses_mail \<Rightarrow> ses_receipt \<Rightarrow> inbound_summary" where
  "summary_from_receipt mail receipt =
     \<lparr>is_headers = sml_common_headers mail,
      is_auth = \<lparr>as_spf = status_of (rct_spf_verdict receipt), as_dkim = status_of (rct_dkim_verdict receipt),
        as_dmarc = status_of (rct_dmarc_verdict receipt), as_spam = status_of (rct_spam_verdict receipt),
        as_virus = status_of (rct_virus_verdict receipt), as_dmarc_policy = rct_dmarc_policy receipt\<rparr>\<rparr>"

definition auth_is_empty :: "auth_summary \<Rightarrow> bool" where
  "auth_is_empty a \<longleftrightarrow> as_spf a = None \<and> as_dkim a = None \<and> as_dmarc a = None \<and> as_spam a = None \<and>
     as_virus a = None \<and> as_dmarc_policy a = None"

definition summary_is_empty :: "inbound_summary \<Rightarrow> bool" where
  "summary_is_empty s \<longleftrightarrow> is_headers s = None \<and> auth_is_empty (is_auth s)"

text \<open>\<open>Serialize\<close> with \<open>skip_serializing_if\<close>: the fields that are there, in order.\<close>

definition json_some_field :: "string \<Rightarrow> string option \<Rightarrow> (string \<times> json) list" where
  "json_some_field name v = (case v of None \<Rightarrow> [] | Some s \<Rightarrow> [(name, JString s)])"

definition json_vec_field :: "string \<Rightarrow> string list \<Rightarrow> (string \<times> json) list" where
  "json_vec_field name v = (if v = [] then [] else [(name, JArray (map JString v))])"

definition common_headers_json :: "ses_common_headers \<Rightarrow> json" where
  "common_headers_json h = JObject (json_vec_field ''from'' (sch_from h) @ json_vec_field ''to'' (sch_to h) @
     json_some_field ''subject'' (sch_subject h) @ json_some_field ''date'' (sch_date h) @
     json_some_field ''messageId'' (sch_message_id h))"

definition summary_json :: "inbound_summary \<Rightarrow> json" where
  "summary_json s = JObject
     ((case is_headers s of None \<Rightarrow> [] | Some h \<Rightarrow> [(''headers'', common_headers_json h)]) @
      (if auth_is_empty (is_auth s) then [] else [(''auth'', JObject (
         json_some_field ''spf'' (as_spf (is_auth s)) @ json_some_field ''dkim'' (as_dkim (is_auth s)) @
         json_some_field ''dmarc'' (as_dmarc (is_auth s)) @ json_some_field ''spam'' (as_spam (is_auth s)) @
         json_some_field ''virus'' (as_virus (is_auth s)) @ json_some_field ''dmarcPolicy'' (as_dmarc_policy (is_auth s))))]))"

section \<open>Text messages\<close>

record sms_inbound_message =
  smi_origination_number :: string
  smi_message_keyword :: "string option"
  smi_message_body :: "string option"
  smi_inbound_message_id :: string
  smi_previous_published_message_id :: "string option"

record sms_delivery_event =
  sde_event_type :: string
  sde_message_id :: string
  sde_is_final :: bool

definition SUCCESS_EVENT_TYPES :: "string list" where
  "SUCCESS_EVENT_TYPES =
     [''TEXT_DELIVERED'', ''TEXT_SUCCESSFUL'', ''MEDIA_DELIVERED'', ''MEDIA_SUCCESSFUL'', ''VOICE_COMPLETED'',
      ''VOICE_ANSWERED'']"

definition is_successful_delivery :: "sms_delivery_event \<Rightarrow> bool" where
  "is_successful_delivery event \<longleftrightarrow> sde_event_type event \<in> set SUCCESS_EVENT_TYPES"

definition sms_detail_type :: "sms_delivery_event \<Rightarrow> string" where
  "sms_detail_type event =
     (if prefix ''MEDIA_'' (sde_event_type event) then ''mms.delivery''
      else if prefix ''VOICE_'' (sde_event_type event) then ''voice.delivery''
      else ''sms.delivery'')"

definition de_sms_inbound :: "sms_inbound_message de" where
  "de_sms_inbound j = do {
     fs \<leftarrow> struct_fields [[''originationNumber''], [''messageKeyword''], [''messageBody''],
       [''inboundMessageId''], [''previousPublishedMessageId'']] j;
     number \<leftarrow> required de_string (fs ! 0);
     keyword \<leftarrow> optional de_string (fs ! 1);
     body \<leftarrow> optional de_string (fs ! 2);
     message_id \<leftarrow> required de_string (fs ! 3);
     previous \<leftarrow> optional de_string (fs ! 4);
     Some \<lparr>smi_origination_number = number, smi_message_keyword = keyword, smi_message_body = body,
       smi_inbound_message_id = message_id, smi_previous_published_message_id = previous\<rparr> }"

definition de_sms_delivery :: "sms_delivery_event de" where
  "de_sms_delivery j = do {
     fs \<leftarrow> struct_fields [[''eventType''], [''messageId''], [''isFinal'']] j;
     event_type \<leftarrow> required de_string (fs ! 0);
     message_id \<leftarrow> required de_string (fs ! 1);
     is_final \<leftarrow> defaulted False de_bool (fs ! 2);
     Some \<lparr>sde_event_type = event_type, sde_message_id = message_id, sde_is_final = is_final\<rparr> }"

section \<open>Domain events\<close>

datatype source = SmsInbound | SmsEvents | SesEvents | SesInbound

definition source_ALL :: "source list" where
  "source_ALL = [SmsInbound, SmsEvents, SesEvents, SesInbound]"

fun source_str :: "source \<Rightarrow> string" where
  "source_str SmsInbound = ''sms-inbound''"
| "source_str SmsEvents = ''sms-events''"
| "source_str SesEvents = ''ses-events''"
| "source_str SesInbound = ''ses-inbound''"

definition from_label :: "string \<Rightarrow> source option" where
  "from_label label =
     (if label = ''sms-inbound'' then Some SmsInbound else if label = ''sms-events'' then Some SmsEvents
      else if label = ''ses-events'' then Some SesEvents else if label = ''ses-inbound'' then Some SesInbound
      else None)"

fun webhook_path :: "source \<Rightarrow> string" where
  "webhook_path SmsInbound = ''/webhooks/sms/inbound''"
| "webhook_path SmsEvents = ''/webhooks/sms/events''"
| "webhook_path SesEvents = ''/webhooks/ses/events''"
| "webhook_path SesInbound = ''/webhooks/ses/inbound''"

datatype domain_event =
    EvSmsInbound sms_inbound_message (payload: json)
  | EvSmsDelivery sms_delivery_event (payload: json)
  | EvSes ses_notification (payload: json)
  | EvSesInbound ses_inbound_notification (payload: json)
  | EvUnknown (payload: json)

definition classify_json :: "json \<Rightarrow> domain_event" where
  "classify_json raw =
     (case de_ses_inbound raw of
        Some event \<Rightarrow> EvSesInbound event raw
      | None \<Rightarrow> (case de_ses_notification raw of
          Some event \<Rightarrow> EvSes event raw
        | None \<Rightarrow> (case de_sms_inbound raw of
            Some event \<Rightarrow> EvSmsInbound event raw
          | None \<Rightarrow> (case de_sms_delivery raw of
              Some event \<Rightarrow> EvSmsDelivery event raw
            | None \<Rightarrow> EvUnknown raw))))"

definition classify :: "(string \<Rightarrow> json option) \<Rightarrow> string \<Rightarrow> domain_event" where
  "classify from_str message =
     (case from_str message of None \<Rightarrow> EvUnknown (JString message) | Some raw \<Rightarrow> classify_json (to_value raw))"

fun family :: "domain_event \<Rightarrow> source option" where
  "family (EvSmsInbound _ _) = Some SmsInbound"
| "family (EvSmsDelivery _ _) = Some SmsEvents"
| "family (EvSes _ _) = Some SesEvents"
| "family (EvSesInbound _ _) = Some SesInbound"
| "family (EvUnknown _) = None"

fun detail_type :: "domain_event \<Rightarrow> string" where
  "detail_type (EvSmsInbound _ _) = ''sms.inbound''"
| "detail_type (EvSmsDelivery event _) = sms_detail_type event"
| "detail_type (EvSes event _) = (case ses_detail_type (ses_kind event) of None \<Rightarrow> ''ses.unknown'' | Some t \<Rightarrow> t)"
| "detail_type (EvSesInbound event _) =
     (if is_quarantined (sin_receipt event) then ''ses.inbound.quarantined'' else ''ses.inbound'')"
| "detail_type (EvUnknown _) = ''unknown''"

fun aggregate_id :: "domain_event \<Rightarrow> string \<Rightarrow> string" where
  "aggregate_id (EvSmsInbound event _) sns_message_id = smi_inbound_message_id event"
| "aggregate_id (EvSmsDelivery event _) sns_message_id = sde_message_id event"
| "aggregate_id (EvSes event _) sns_message_id = sml_message_id (ses_mail event)"
| "aggregate_id (EvSesInbound event _) sns_message_id = sml_message_id (sin_mail event)"
| "aggregate_id (EvUnknown _) sns_message_id = sns_message_id"

fun previous_message_id :: "domain_event \<Rightarrow> string option" where
  "previous_message_id (EvSmsInbound event _) = smi_previous_published_message_id event"
| "previous_message_id _ = None"

fun event_s3_pointer :: "domain_event \<Rightarrow> (string \<times> string) option" where
  "event_s3_pointer (EvSesInbound event _) = s3_pointer (sin_receipt event)"
| "event_s3_pointer _ = None"

fun inbound_meta :: "domain_event \<Rightarrow> json option" where
  "inbound_meta (EvSesInbound event _) =
     (let summary = summary_from_receipt (sin_mail event) (sin_receipt event)
      in if summary_is_empty summary then None else Some (summary_json summary))"
| "inbound_meta _ = None"

section \<open>Strings of the enums\<close>

text \<open>An enum's string form is read back as the variant, so what is stored or forwarded is unchanged.\<close>

lemma from_label_str [simp]: "from_label (source_str s) = Some s"
  by (cases s) (simp_all add: from_label_def)

lemma verdict_status_roundtrip: "verdict_status_str (verdict_status_of s) = s"
  by (simp add: verdict_status_of_def)

lemma bounce_type_roundtrip: "bounce_type_str (bounce_type_of s) = s"
  by (simp add: bounce_type_of_def)

lemma mailbox_event_iff_label: "mailbox_event_type k = None \<longleftrightarrow> mailbox_label k = None"
  by (cases k) simp_all

section \<open>Families\<close>

text \<open>
  C19. The detail type of an event names its family: two events published under one detail type are of
  the same family, so a rule on \<open>detail-type\<close> never receives another family's payload.
\<close>

theorem detail_type_names_family:
  assumes "detail_type e1 = detail_type e2"
  shows "family e1 = family e2"
proof -
  have ses: "ses_detail_type k = Some t \<Longrightarrow> \<exists>r. t = ''ses.'' @ r \<and> hd r \<noteq> CHR ''i'' \<and> r \<noteq> []" for k t
    by (cases k) auto
  define family_of where "family_of t = (if t = ''unknown'' then None
    else if t = ''sms.inbound'' then Some SmsInbound
    else if t = ''ses.inbound'' \<or> t = ''ses.inbound.quarantined'' then Some SesInbound
    else if prefix ''ses.'' t then Some SesEvents else Some SmsEvents)" for t
  have "family_of (detail_type e) = family e" for e
    by (cases e) (auto simp: family_of_def sms_detail_type_def split: option.splits dest!: ses)
  then show ?thesis using assms by metis
qed

theorem detail_type_names_family_witness:
  "family (classify_json (JObject [(''eventType'', JString ''TEXT_SENT''), (''messageId'', JString ''a'')])) =
   family (classify_json (JObject [(''eventType'', JString ''TEXT_QUEUED''), (''messageId'', JString ''b'')]))"
  by (rule detail_type_names_family) code_simp

text \<open>
  The order in which the families are tried decides more than the one pair the code names: an object with
  the members of two families is of the first.
\<close>

lemma families_overlap:
  fixes both :: json
  defines "both \<equiv> JObject [(''eventType'', JString ''TEXT_SENT''), (''messageId'', JString ''a''),
    (''mail'', JObject [(''messageId'', JString ''b'')])]"
  shows "de_ses_notification both \<noteq> None \<and> de_sms_delivery both \<noteq> None \<and>
    family (classify_json both) = Some SesEvents"
  unfolding both_def by code_simp

end
