(* ===== verification/Sns.thy ===== *)
theory Sns
  imports Events
begin

text \<open>
  \<open>crates/sns-message-verifier\<close> with \<open>webhook/src/allowlist.rs\<close>, \<open>webhook/src/error.rs\<close> and
  \<open>webhook/src/sns/extractor.rs\<close>: the security boundary. A delivery is an envelope whose topic is
  allowed and whose signature verifies against a certificate of an SNS endpoint. HTTP, X.509, RSA,
  base64 and the URL parser are parameters.
\<close>

section \<open>Envelopes\<close>

datatype message_type = Notification | SubscriptionConfirmation | UnsubscribeConfirmation

fun message_type_str :: "message_type \<Rightarrow> string" where
  "message_type_str Notification = ''Notification''"
| "message_type_str SubscriptionConfirmation = ''SubscriptionConfirmation''"
| "message_type_str UnsubscribeConfirmation = ''UnsubscribeConfirmation''"

record sns_envelope =
  sns_message_type :: message_type
  sns_message_id :: string
  sns_topic_arn :: string
  sns_message :: string
  sns_timestamp :: string
  sns_signature_version :: string
  sns_signature :: string
  sns_signing_cert_url :: string
  sns_subject :: "string option"
  sns_subscribe_url :: "string option"
  sns_token :: "string option"
  sns_unsubscribe_url :: "string option"

text \<open>A unit variant is its name, or an object of its name and null.\<close>

definition message_type_of :: "string \<Rightarrow> message_type option" where
  "message_type_of s = (if s = ''Notification'' then Some Notification
     else if s = ''SubscriptionConfirmation'' then Some SubscriptionConfirmation
     else if s = ''UnsubscribeConfirmation'' then Some UnsubscribeConfirmation else None)"

fun de_message_type :: "message_type de" where
  "de_message_type (JString s) = message_type_of s"
| "de_message_type (JObject [(s, JNull)]) = message_type_of s"
| "de_message_type _ = None"

text \<open>An \<open>Option\<close> field without a default may be missing from an object, but not from an array.\<close>

definition de_envelope :: "sns_envelope de" where
  "de_envelope j = do {
     fs \<leftarrow> struct_fields [[''Type''], [''MessageId''], [''TopicArn''], [''Message''], [''Timestamp''],
       [''SignatureVersion''], [''Signature''], [''SigningCertURL'', ''SigningCertUrl''], [''Subject''],
       [''SubscribeURL''], [''Token''], [''UnsubscribeURL'', ''UnsubscribeUrl'']] j;
     _ \<leftarrow> (case j of JArray vs \<Rightarrow> if length vs = 12 then Some () else None | _ \<Rightarrow> Some ());
     kind \<leftarrow> required de_message_type (fs ! 0);
     message_id \<leftarrow> required de_string (fs ! 1);
     topic_arn \<leftarrow> required de_string (fs ! 2);
     message \<leftarrow> required de_string (fs ! 3);
     timestamp \<leftarrow> required de_string (fs ! 4);
     signature_version \<leftarrow> required de_string (fs ! 5);
     signature \<leftarrow> required de_string (fs ! 6);
     signing_cert_url \<leftarrow> required de_string (fs ! 7);
     subject \<leftarrow> optional de_string (fs ! 8);
     subscribe_url \<leftarrow> optional de_string (fs ! 9);
     token \<leftarrow> optional de_string (fs ! 10);
     unsubscribe_url \<leftarrow> optional de_string (fs ! 11);
     Some \<lparr>sns_message_type = kind, sns_message_id = message_id, sns_topic_arn = topic_arn,
       sns_message = message, sns_timestamp = timestamp, sns_signature_version = signature_version,
       sns_signature = signature, sns_signing_cert_url = signing_cert_url, sns_subject = subject,
       sns_subscribe_url = subscribe_url, sns_token = token, sns_unsubscribe_url = unsubscribe_url\<rparr> }"

section \<open>Errors\<close>

datatype cert_url_rejection = CertUnparseable | CertNotHttps | CertInvalidHost | CertInvalidPort | CertNotPem

datatype verify_error =
    MalformedEnvelope | MissingField string | InvalidCertUrl string cert_url_rejection | CertFetch
  | CertParse | CertValidity | UnsupportedSignatureVersion string | InvalidSignatureEncoding
  | SignatureMismatch

datatype app_error =
    MissingSnsHeader | UnreadableBody | TopicNotAllowed string | Verification verify_error
  | SubscribeUrlRejected | Internal

text \<open>The mapping onto what SNS redelivers: a 4xx is final, a 5xx is tried again.\<close>

fun verification_status :: "verify_error \<Rightarrow> nat" where
  "verification_status SignatureMismatch = 403"
| "verification_status CertFetch = 500"
| "verification_status CertParse = 500"
| "verification_status CertValidity = 500"
| "verification_status _ = 400"

fun app_status :: "app_error \<Rightarrow> nat" where
  "app_status (TopicNotAllowed _) = 403"
| "app_status (Verification error) = verification_status error"
| "app_status Internal = 500"
| "app_status _ = 400"

section \<open>The string to sign\<close>

definition pair :: "string \<Rightarrow> string \<Rightarrow> string" where
  "pair name v = name @ newline @ v @ newline"

definition build_string_to_sign :: "sns_envelope \<Rightarrow> verify_error + string" where
  "build_string_to_sign e =
     (let type = pair ''Type'' (message_type_str (sns_message_type e)) in
      case sns_message_type e of
        Notification \<Rightarrow> Inr (pair ''Message'' (sns_message e) @ pair ''MessageId'' (sns_message_id e) @
          (case sns_subject e of None \<Rightarrow> [] | Some s \<Rightarrow> pair ''Subject'' s) @
          pair ''Timestamp'' (sns_timestamp e) @ pair ''TopicArn'' (sns_topic_arn e) @ type)
      | _ \<Rightarrow> (case (sns_subscribe_url e, sns_token e) of
            (None, _) \<Rightarrow> Inl (MissingField ''SubscribeURL'')
          | (Some _, None) \<Rightarrow> Inl (MissingField ''Token'')
          | (Some url, Some token) \<Rightarrow> Inr (pair ''Message'' (sns_message e) @
              pair ''MessageId'' (sns_message_id e) @ pair ''SubscribeURL'' url @
              pair ''Timestamp'' (sns_timestamp e) @ pair ''Token'' token @
              pair ''TopicArn'' (sns_topic_arn e) @ type)))"

section \<open>Certificates\<close>

definition MAX_CERT_RESPONSE_BYTES :: nat where "MAX_CERT_RESPONSE_BYTES = 64 * 1024"
definition MAX_CACHED_CERTS :: nat where "MAX_CACHED_CERTS = 32"

text \<open>A PEM certificate: its validity window and the RSA key of its \<open>SubjectPublicKeyInfo\<close>, if it is one.\<close>

record 'k certificate =
  crt_not_before :: nat
  crt_not_after :: nat
  crt_key :: "'k option"

record ('w, 'k, 'g) sns_libs =
  sl_json :: "bytes \<Rightarrow> json option"
  sl_url_parse :: "string \<Rightarrow> url option"
  sl_url_host_str :: "url \<Rightarrow> string option"
  sl_url_path :: "url \<Rightarrow> string"
  sl_http_get :: "url \<Rightarrow> 'w \<Rightarrow> response option \<times> 'w"
  sl_from_pem :: "bytes \<Rightarrow> 'k certificate option"
  sl_now :: "'w \<Rightarrow> nat"
  sl_base64 :: "string \<Rightarrow> bytes option"
  sl_signature :: "bytes \<Rightarrow> 'g option"
  sl_rsa_sha1 :: "'k \<Rightarrow> bytes \<Rightarrow> 'g \<Rightarrow> bool"
  sl_rsa_sha256 :: "'k \<Rightarrow> bytes \<Rightarrow> 'g \<Rightarrow> bool"
  sl_debug_assertions :: bool

definition known_default_port :: "string \<Rightarrow> 16 word option" where
  "known_default_port scheme =
     (if scheme \<in> {''http'', ''ws''} then Some 80 else if scheme \<in> {''https'', ''wss''} then Some 443
      else if scheme = ''ftp'' then Some 21 else None)"

definition cert_cache_key :: "('w, 'k, 'g) sns_libs \<Rightarrow> url \<Rightarrow> string" where
  "cert_cache_key L url =
     (let port = (case url_port url of Some p \<Rightarrow> Some p | None \<Rightarrow> known_default_port (url_scheme url));
          port = (case port of None \<Rightarrow> 443 | Some p \<Rightarrow> p)
      in url_scheme url @ ''://'' @ (case sl_url_host_str L url of None \<Rightarrow> [] | Some h \<Rightarrow> h) @ '':'' @
         dec (unat port) @ sl_url_path L url)"

definition is_region_byte :: "char \<Rightarrow> bool" where
  "is_region_byte b \<longleftrightarrow> is_ascii_lowercase b \<or> is_ascii_digit b \<or> b = CHR ''-''"

definition is_sns_host :: "string \<Rightarrow> bool" where
  "is_sns_host host =
     (case strip_prefix ''sns.'' host of
        None \<Rightarrow> False
      | Some rest \<Rightarrow>
          (case (case strip_suffix ''.amazonaws.com'' rest of
               Some region \<Rightarrow> Some region | None \<Rightarrow> strip_suffix ''.amazonaws.com.cn'' rest) of
             None \<Rightarrow> False
           | Some region \<Rightarrow> region \<noteq> [] \<and> list_all is_region_byte region))"

definition validate_sns_url ::
  "('w, 'k, 'g) sns_libs \<Rightarrow> string \<Rightarrow> string option \<Rightarrow> cert_url_rejection + url" where
  "validate_sns_url L raw dangerous_allow_prefix =
     (case sl_url_parse L raw of
        None \<Rightarrow> Inl CertUnparseable
      | Some url \<Rightarrow>
          if sl_debug_assertions L \<and>
             (case dangerous_allow_prefix of None \<Rightarrow> False | Some p \<Rightarrow> prefix p raw) then Inr url
          else if url_scheme url \<noteq> ''https'' then Inl CertNotHttps
          else if url_port url \<noteq> None \<and> url_port url \<noteq> Some 443 then Inl CertInvalidPort
          else if \<not> (case sl_url_host_str L url of None \<Rightarrow> False | Some h \<Rightarrow> is_sns_host h)
          then Inl CertInvalidHost
          else Inr url)"

fun split_on :: "char \<Rightarrow> string \<Rightarrow> string list" where
  "split_on c [] = [[]]"
| "split_on c (x # xs) = (if x = c then [] # split_on c xs
     else (case split_on c xs of [] \<Rightarrow> [[x]] | w # ws \<Rightarrow> (x # w) # ws))"

text \<open>\<open>Path::extension\<close>: of the last component that is a name, what follows its last dot but a first one.\<close>

definition path_file_name :: "string \<Rightarrow> string option" where
  "path_file_name path = (case rev (filter (\<lambda>c. c \<noteq> [] \<and> c \<noteq> ''.'') (split_on (CHR ''/'') path)) of
       [] \<Rightarrow> None | name # _ \<Rightarrow> if name = ''..'' then None else Some name)"

definition path_extension :: "string \<Rightarrow> string option" where
  "path_extension path = (case path_file_name path of
       None \<Rightarrow> None
     | Some name \<Rightarrow> (case rev (split_on (CHR ''.'') name) of
           ext # before \<Rightarrow> if before = [] \<or> before = [[]] then None else Some ext
         | [] \<Rightarrow> None))"

definition validate_cert_url ::
  "('w, 'k, 'g) sns_libs \<Rightarrow> string \<Rightarrow> string option \<Rightarrow> verify_error + url" where
  "validate_cert_url L raw dangerous_allow_prefix =
     (case validate_sns_url L raw dangerous_allow_prefix of
        Inl reason \<Rightarrow> Inl (InvalidCertUrl raw reason)
      | Inr url \<Rightarrow>
          if (case path_extension (sl_url_path L url) of
                None \<Rightarrow> False | Some ext \<Rightarrow> eq_ignore_ascii_case ext ''pem'')
          then Inr url else Inl (InvalidCertUrl raw CertNotPem))"

fun read_cert :: "bytes \<Rightarrow> bytes option list \<Rightarrow> verify_error + bytes" where
  "read_cert body [] = Inr body"
| "read_cert body (None # rest) = Inl CertFetch"
| "read_cert body (Some chunk # rest) =
     (if length body + length chunk > MAX_CERT_RESPONSE_BYTES then Inl CertParse
      else read_cert (body @ chunk) rest)"

definition parse_cert_pem :: "('w, 'k, 'g) sns_libs \<Rightarrow> bytes \<Rightarrow> nat \<Rightarrow> verify_error + 'k" where
  "parse_cert_pem L pem now =
     (case sl_from_pem L pem of
        None \<Rightarrow> Inl CertParse
      | Some cert \<Rightarrow>
          if now < crt_not_before cert \<or> now > crt_not_after cert then Inl CertValidity
          else (case crt_key cert of None \<Rightarrow> Inl CertParse | Some key \<Rightarrow> Inr key))"

definition fetch_and_parse :: "('w, 'k, 'g) sns_libs \<Rightarrow> url \<Rightarrow> 'w \<Rightarrow> (verify_error + 'k) \<times> 'w" where
  "fetch_and_parse L url w =
     (case sl_http_get L url w of
        (None, w') \<Rightarrow> (Inl CertFetch, w')
      | (Some response, w') \<Rightarrow>
          (if 400 \<le> resp_status response \<and> resp_status response < 600 then Inl CertFetch
           else (case read_cert [] (resp_chunks response) of
               Inl e \<Rightarrow> Inl e
             | Inr body \<Rightarrow> parse_cert_pem L body (sl_now L w')), w'))"

text \<open>\<open>CertCache\<close>: a hash map from cache keys, as an association list with distinct keys.\<close>

type_synonym 'k cert_cache = "(string \<times> 'k) list"

definition cache_insert :: "string \<Rightarrow> 'k \<Rightarrow> 'k cert_cache \<Rightarrow> 'k cert_cache" where
  "cache_insert url key keys =
     AList.update url key (if length keys \<ge> MAX_CACHED_CERTS \<and> map_of keys url = None then [] else keys)"

section \<open>Verification\<close>

definition verify_with_key :: "('w, 'k, 'g) sns_libs \<Rightarrow> sns_envelope \<Rightarrow> 'k \<Rightarrow> verify_error + unit" where
  "verify_with_key L envelope key =
     (case build_string_to_sign envelope of
        Inl e \<Rightarrow> Inl e
      | Inr canonical \<Rightarrow> (case sl_base64 L (sns_signature envelope) of
          None \<Rightarrow> Inl InvalidSignatureEncoding
        | Some signature_bytes \<Rightarrow> (case sl_signature L signature_bytes of
            None \<Rightarrow> Inl SignatureMismatch
          | Some signature \<Rightarrow>
              if sns_signature_version envelope = ''1''
              then (if sl_rsa_sha1 L key (as_bytes canonical) signature then Inr () else Inl SignatureMismatch)
              else if sns_signature_version envelope = ''2''
              then (if sl_rsa_sha256 L key (as_bytes canonical) signature then Inr () else Inl SignatureMismatch)
              else Inl (UnsupportedSignatureVersion (sns_signature_version envelope)))))"

definition verify_with_cert :: "('w, 'k, 'g) sns_libs \<Rightarrow> sns_envelope \<Rightarrow> bytes \<Rightarrow> nat \<Rightarrow> verify_error + unit" where
  "verify_with_cert L envelope cert_pem now =
     (case parse_cert_pem L cert_pem now of Inl e \<Rightarrow> Inl e | Inr key \<Rightarrow> verify_with_key L envelope key)"

type_synonym ('w, 'k, 'a) verifying = "'k cert_cache \<times> 'w \<Rightarrow> (verify_error + 'a) \<times> 'k cert_cache \<times> 'w"

definition verify ::
  "('w, 'k, 'g) sns_libs \<Rightarrow> string option \<Rightarrow> sns_envelope \<Rightarrow> ('w, 'k, unit) verifying" where
  "verify L dangerous_allow_prefix envelope =
     (\<lambda>(cache, w). case validate_cert_url L (sns_signing_cert_url envelope) dangerous_allow_prefix of
        Inl e \<Rightarrow> (Inl e, cache, w)
      | Inr url \<Rightarrow>
          let key = cert_cache_key L url in
          (case map_of cache key of
             Some cached \<Rightarrow> (verify_with_key L envelope cached, cache, w)
           | None \<Rightarrow> (case fetch_and_parse L url w of
               (Inl e, w') \<Rightarrow> (Inl e, cache, w')
             | (Inr fetched, w') \<Rightarrow> (case verify_with_key L envelope fetched of
                   Inl e \<Rightarrow> (Inl e, cache, w')
                 | Inr _ \<Rightarrow> (Inr (), cache_insert key fetched cache, w')))))"

definition verify_body ::
  "('w, 'k, 'g) sns_libs \<Rightarrow> string option \<Rightarrow> bytes \<Rightarrow> ('w, 'k, sns_envelope) verifying" where
  "verify_body L dangerous_allow_prefix body s =
     (case Option.bind (sl_json L body) de_envelope of
        None \<Rightarrow> (Inl MalformedEnvelope, s)
      | Some envelope \<Rightarrow> (case verify L dangerous_allow_prefix envelope s of
            (Inl e, s') \<Rightarrow> (Inl e, s')
          | (Inr _, s') \<Rightarrow> (Inr envelope, s')))"

section \<open>The topic allowlist\<close>

datatype allow_entry = Account string | ArnGlob string

definition is_account :: "string \<Rightarrow> bool" where
  "is_account entry \<longleftrightarrow> length entry = 12 \<and> list_all is_ascii_digit entry"

definition allowlist_parse :: "string \<Rightarrow> allow_entry list" where
  "allowlist_parse raw =
     map (\<lambda>entry. if is_account entry then Account entry else ArnGlob entry)
       (filter (\<lambda>entry. entry \<noteq> []) (map trim (split_on (CHR '','') raw)))"

definition arn_account :: "string \<Rightarrow> string option" where
  "arn_account topic_arn =
     (let fields = split_on (CHR '':'') topic_arn in if 4 < length fields then Some (fields ! 4) else None)"

text \<open>\<open>str::find\<close>: where the first occurrence starts.\<close>

fun find_str :: "string \<Rightarrow> string \<Rightarrow> nat option" where
  "find_str p [] = (if p = [] then Some 0 else None)"
| "find_str p (x # xs) = (if prefix p (x # xs) then Some 0 else map_option Suc (find_str p xs))"

fun skip_middles :: "string list \<Rightarrow> string \<Rightarrow> string option" where
  "skip_middles [] rest = Some rest"
| "skip_middles (middle # middles) rest =
     (if middle = [] then skip_middles middles rest
      else (case find_str middle rest of
          None \<Rightarrow> None
        | Some index \<Rightarrow> skip_middles middles (drop (index + length middle) rest)))"

definition glob_match :: "string \<Rightarrow> string \<Rightarrow> bool" where
  "glob_match pattern val =
     (case split_on (CHR ''*'') pattern of
        [] \<Rightarrow> pattern = val
      | [first] \<Rightarrow> first = val
      | first # tail \<Rightarrow> (case strip_prefix first val of
            None \<Rightarrow> False
          | Some rest \<Rightarrow> (case skip_middles (butlast tail) rest of
              None \<Rightarrow> False
            | Some rest \<Rightarrow> suffix (last tail) rest)))"

definition allows :: "allow_entry list \<Rightarrow> string \<Rightarrow> bool" where
  "allows entries topic_arn \<longleftrightarrow> entries = [] \<or>
     list_ex (\<lambda>entry. case entry of
         Account account \<Rightarrow> arn_account topic_arn = Some account
       | ArnGlob pattern \<Rightarrow> glob_match pattern topic_arn) entries"

section \<open>Verified deliveries\<close>

record verified_sns =
  vsn_envelope :: sns_envelope
  vsn_raw_body :: bytes

definition verified ::
  "('w, 'k, 'g) sns_libs \<Rightarrow> string option \<Rightarrow> allow_entry list \<Rightarrow> bytes \<Rightarrow> 'k cert_cache \<times> 'w
     \<Rightarrow> (app_error + verified_sns) \<times> 'k cert_cache \<times> 'w" where
  "verified L dangerous_allow_prefix allowlist raw_body s =
     (case Option.bind (sl_json L raw_body) de_envelope of
        None \<Rightarrow> (Inl (Verification MalformedEnvelope), s)
      | Some envelope \<Rightarrow>
          if \<not> allows allowlist (sns_topic_arn envelope) then (Inl (TopicNotAllowed (sns_topic_arn envelope)), s)
          else (case verify L dangerous_allow_prefix envelope s of
              (Inl e, s') \<Rightarrow> (Inl (Verification e), s')
            | (Inr _, s') \<Rightarrow> (Inr \<lparr>vsn_envelope = envelope, vsn_raw_body = raw_body\<rparr>, s')))"

text \<open>\<open>from_request\<close>: whether the header is there, and the body if it could be read.\<close>

definition from_request ::
  "('w, 'k, 'g) sns_libs \<Rightarrow> string option \<Rightarrow> allow_entry list \<Rightarrow> bool \<Rightarrow> bytes option \<Rightarrow> 'k cert_cache \<times> 'w
     \<Rightarrow> (app_error + verified_sns) \<times> 'k cert_cache \<times> 'w" where
  "from_request L dangerous_allow_prefix allowlist has_type_header body s =
     (if \<not> has_type_header then (Inl MissingSnsHeader, s)
      else (case body of
          None \<Rightarrow> (Inl UnreadableBody, s)
        | Some raw_body \<Rightarrow> verified L dangerous_allow_prefix allowlist raw_body s))"

definition validate_subscribe_url ::
  "('w, 'k, 'g) sns_libs \<Rightarrow> string \<Rightarrow> string option \<Rightarrow> app_error + url" where
  "validate_subscribe_url L raw dangerous_allow_prefix =
     (case validate_sns_url L raw dangerous_allow_prefix of
        Inl _ \<Rightarrow> Inl SubscribeUrlRejected | Inr url \<Rightarrow> Inr url)"

definition get_subscribe_url :: "('w, 'k, 'g) sns_libs \<Rightarrow> url \<Rightarrow> 'w \<Rightarrow> (app_error + unit) \<times> 'w" where
  "get_subscribe_url L url w =
     (case sl_http_get L url w of
        (None, w') \<Rightarrow> (Inl Internal, w')
      | (Some response, w') \<Rightarrow>
          (if 400 \<le> resp_status response \<and> resp_status response < 600 then Inl Internal else Inr (), w'))"

section \<open>Globs\<close>

text \<open>The reference: a star stands for any substring, every other character for itself.\<close>

primrec glob :: "string \<Rightarrow> string \<Rightarrow> bool" where
  "glob [] v \<longleftrightarrow> v = []"
| "glob (p # ps) v \<longleftrightarrow> (if p = CHR ''*'' then list_ex (glob ps) (suffixes v)
     else (case v of [] \<Rightarrow> False | x # xs \<Rightarrow> x = p \<and> glob ps xs))"

lemma split_on_nonempty [simp]: "split_on c s \<noteq> []"
  by (induction s) (auto split: list.split)

lemma split_on_join: "split_on c s = w # ws \<Longrightarrow> s = w @ concat (map ((#) c) ws) \<and> c \<notin> set w \<and> (\<forall>v \<in> set ws. c \<notin> set v)"
proof (induction s arbitrary: w ws)
  case (Cons x xs)
  obtain u us where us: "split_on c xs = u # us" by (cases "split_on c xs") auto
  note ih = Cons.IH [OF us]
  show ?case
  proof (cases "x = c")
    case True
    with Cons.prems us have "w = []" "ws = u # us" by auto
    with ih True show ?thesis by simp
  next
    case False
    with Cons.prems us have "w = x # u" "ws = us" by auto
    with ih False show ?thesis by simp
  qed
qed simp

lemma glob_literal: "CHR ''*'' \<notin> set w \<Longrightarrow> glob (w @ p) v \<longleftrightarrow> (\<exists>b. v = w @ b \<and> glob p b)"
proof (induction w arbitrary: v)
  case (Cons x w)
  then show ?case by (cases v) auto
qed simp

lemma glob_star: "glob (CHR ''*'' # p) v \<longleftrightarrow> (\<exists>a b. v = a @ b \<and> glob p b)"
proof -
  have "glob (CHR ''*'' # p) v \<longleftrightarrow> (\<exists>b. suffix b v \<and> glob p b)" by (auto simp: list_ex_iff)
  then show ?thesis by (simp only: suffix_def) blast
qed

text \<open>What is left to match after the first segment: stars and segments in turn.\<close>

fun tail_match :: "string list \<Rightarrow> string \<Rightarrow> bool" where
  "tail_match [] v \<longleftrightarrow> v = []"
| "tail_match (w # ws) v \<longleftrightarrow> (\<exists>a b. v = a @ w @ b \<and> tail_match ws b)"

lemma glob_tail:
  "\<forall>v \<in> set ws. CHR ''*'' \<notin> set v \<Longrightarrow> glob (concat (map ((#) (CHR ''*'')) ws)) v \<longleftrightarrow> tail_match ws v"
proof (induction ws arbitrary: v)
  case (Cons w ws)
  have "glob (concat (map ((#) (CHR ''*'')) (w # ws))) v \<longleftrightarrow>
      (\<exists>a u. v = a @ u \<and> glob (w @ concat (map ((#) (CHR ''*'')) ws)) u)"
    using glob_star [of "w @ concat (map ((#) (CHR ''*'')) ws)" v] by simp
  also have "\<dots> \<longleftrightarrow> (\<exists>a b. v = a @ w @ b \<and> tail_match ws b)"
    using Cons by (auto simp: glob_literal)
  finally show ?case by simp
qed simp

lemma tail_match_longer: "ws \<noteq> [] \<Longrightarrow> tail_match ws b \<Longrightarrow> tail_match ws (a @ b)"
proof (cases ws)
  case (Cons w us)
  assume "tail_match ws b"
  then obtain c d where "b = c @ w @ d" "tail_match us d" using Cons by auto
  then have "a @ b = (a @ c) @ w @ d" "tail_match us d" by simp_all
  then show ?thesis using Cons by (simp only: tail_match.simps) blast
qed simp

lemma find_str_Some: "find_str p s = Some i \<Longrightarrow> \<exists>a b. s = a @ p @ b \<and> length a = i"
proof (induction s arbitrary: i)
  case (Cons x xs)
  show ?case
  proof (cases "prefix p (x # xs)")
    case True
    with Cons.prems show ?thesis by (auto simp: prefix_def)
  next
    case False
    with Cons.prems obtain j where "find_str p xs = Some j" "i = Suc j" by auto
    with Cons.IH obtain a b where "xs = a @ p @ b" "length (x # a) = i" by auto
    then show ?thesis by (metis append_Cons)
  qed
qed (simp split: if_splits)

lemma find_str_first: "s = a @ p @ b \<Longrightarrow> \<exists>i \<le> length a. find_str p s = Some i"
proof (induction a arbitrary: s)
  case Nil
  then have "prefix p s" by simp
  then show ?case by (cases s) simp_all
next
  case (Cons x a)
  then have "\<exists>i \<le> length a. find_str p (a @ p @ b) = Some i" by blast
  with Cons.prems show ?case by auto
qed

text \<open>Taking the first occurrence of a segment leaves the most to match the rest in.\<close>

lemma skip_middles_greedy:
  "(case skip_middles ms v of None \<Rightarrow> False | Some r \<Rightarrow> suffix l r) \<longleftrightarrow> tail_match (ms @ [l]) v"
proof (induction ms arbitrary: v)
  case Nil
  show ?case by (auto simp: suffix_def)
next
  case (Cons m ms)
  show ?case
  proof (cases "m = []")
    case True
    have "tail_match (ms @ [l]) v \<longleftrightarrow> (\<exists>a b. v = a @ b \<and> tail_match (ms @ [l]) b)"
      using tail_match_longer [of "ms @ [l]"] append_Nil by blast
    with Cons True show ?thesis by simp
  next
    case False
    show ?thesis
    proof (cases "find_str m v")
      case None
      then have "\<not> (\<exists>a b. v = a @ m @ b)" using find_str_first [of v _ m] by fastforce
      with None False show ?thesis by simp
    next
      case (Some i)
      obtain a b where ab: "v = a @ m @ b" "length a = i" using find_str_Some [OF Some] by blast
      have "tail_match (ms @ [l]) b" if cd: "v = c @ m @ d" "tail_match (ms @ [l]) d" for c d
      proof -
        have "i \<le> length c" using find_str_first [OF cd(1)] Some by auto
        have "drop (length (c @ m)) v = d" unfolding cd(1) by simp
        moreover have "drop (length (a @ m)) v = b" unfolding ab(1) by simp
        moreover have "length (c @ m) = (length c - i) + length (a @ m)" using \<open>i \<le> length c\<close> ab(2) by simp
        ultimately have "d = drop (length c - i) b" by (metis drop_drop)
        then have "suffix d b" by (simp add: suffix_drop)
        then obtain e where "b = e @ d" by (auto simp: suffix_def)
        with cd(2) tail_match_longer [of "ms @ [l]" d e] show ?thesis by simp
      qed
      then have "tail_match ((m # ms) @ [l]) v \<longleftrightarrow> tail_match (ms @ [l]) b" using ab(1) by auto
      moreover have "drop (i + length m) v = b" using ab by simp
      ultimately show ?thesis using Cons.IH [of b] Some False by simp
    qed
  qed
qed

text \<open>
  C18. The topic globs mean what an operator reads in them: \<open>glob_match\<close>, which takes the first
  occurrence of each segment and never goes back, accepts exactly the strings the pattern describes,
  a star standing for any substring.
\<close>

theorem glob_match_iff: "glob_match pattern val \<longleftrightarrow> glob pattern val"
proof -
  obtain first tail where split: "split_on (CHR ''*'') pattern = first # tail"
    by (cases "split_on (CHR ''*'') pattern") auto
  note parts = split_on_join [OF split]
  have glob: "glob pattern val \<longleftrightarrow> (\<exists>b. val = first @ b \<and> tail_match tail b)"
    using parts glob_literal [of first] glob_tail [of tail] by (metis (no_types, lifting))
  show ?thesis
  proof (cases "tail = []")
    case True
    with glob split show ?thesis by (auto simp: glob_match_def)
  next
    case False
    then have "tail = butlast tail @ [last tail]" by simp
    then have greedy: "(case skip_middles (butlast tail) v of None \<Rightarrow> False | Some r \<Rightarrow> suffix (last tail) r)
        \<longleftrightarrow> tail_match tail v" for v
      using skip_middles_greedy [where ms = "butlast tail" and v = v and l = "last tail"] by simp
    have "glob_match pattern val \<longleftrightarrow> (case strip_prefix first val of None \<Rightarrow> False | Some r \<Rightarrow> tail_match tail r)"
    proof -
      obtain t ts where ts: "tail = t # ts" using False by (cases tail) auto
      have "glob_match pattern val \<longleftrightarrow> (case strip_prefix first val of None \<Rightarrow> False
          | Some r \<Rightarrow> (case skip_middles (butlast tail) r of None \<Rightarrow> False | Some r \<Rightarrow> suffix (last tail) r))"
        by (simp only: glob_match_def split ts list.case)
      then show ?thesis by (simp only: greedy)
    qed
    also have "\<dots> \<longleftrightarrow> (\<exists>b. val = first @ b \<and> tail_match tail b)"
      by (auto simp: strip_prefix_Some [symmetric] split: option.split)
    finally show ?thesis using glob by simp
  qed
qed

section \<open>What a signature covers\<close>

text \<open>The last line but the type's is the topic, so it can be read back if it is one line.\<close>

definition one_line :: "string \<Rightarrow> bool" where
  "one_line s \<longleftrightarrow> CHR 0x0A \<notin> set s"

lemma last_line:
  assumes "a @ newline @ s @ newline = b @ newline @ t @ newline" and "one_line s" and "one_line t"
  shows "s = t \<and> a = b"
proof -
  have eq: "rev s @ newline @ rev a = rev t @ newline @ rev b"
    using arg_cong [OF assms(1), of rev] by simp
  have tw: "takeWhile (\<lambda>c. c \<noteq> CHR 0x0A) (rev u @ newline @ v) = rev u" if "one_line u" for u v
    using that by (subst takeWhile_append2) (auto simp: one_line_def)
  have "rev s = rev t" using arg_cong [OF eq, of "takeWhile (\<lambda>c. c \<noteq> CHR 0x0A)"] assms(2,3) by (simp only: tw)
  with eq show ?thesis by simp
qed

lemma string_to_sign_ends:
  assumes "build_string_to_sign e = Inr s"
  obtains p where "s = (p @ ''TopicArn'') @ newline @ sns_topic_arn e @ newline @ ''Type'' @ newline @
    message_type_str (sns_message_type e) @ newline"
proof -
  let ?ending = "(''TopicArn'' @ newline @ sns_topic_arn e @ newline) @ ''Type'' @ newline @
    message_type_str (sns_message_type e) @ newline"
  have "\<exists>p. s = p @ ?ending"
  proof (cases "sns_message_type e = Notification")
    case True
    have "s = (pair ''Message'' (sns_message e) @ pair ''MessageId'' (sns_message_id e) @
        (case sns_subject e of None \<Rightarrow> [] | Some s \<Rightarrow> pair ''Subject'' s) @ pair ''Timestamp'' (sns_timestamp e)) @ ?ending"
      using assms True by (simp add: build_string_to_sign_def pair_def)
    then show ?thesis by blast
  next
    case False
    then obtain url token where ut: "sns_subscribe_url e = Some url" "sns_token e = Some token"
      using assms by (cases "sns_subscribe_url e"; cases "sns_token e"; cases "sns_message_type e")
        (auto simp: build_string_to_sign_def)
    have "s = (pair ''Message'' (sns_message e) @ pair ''MessageId'' (sns_message_id e) @
        pair ''SubscribeURL'' url @ pair ''Timestamp'' (sns_timestamp e) @ pair ''Token'' token) @ ?ending"
      using assms False ut by (cases "sns_message_type e") (simp_all add: build_string_to_sign_def pair_def)
    then show ?thesis by blast
  qed
  then show thesis using that by fastforce
qed

lemma message_type_one_line [simp]: "one_line (message_type_str t)"
  by (cases t) (simp_all add: one_line_def)

lemma message_type_str_inject: "message_type_str t = message_type_str u \<longleftrightarrow> t = u"
  by (cases t; cases u) simp_all

text \<open>
  C17. Two envelopes with the same string to sign, each of whose topics is one line, name the same
  topic and have the same type: a signature is no use for a message to another topic.
\<close>

theorem signature_binds_topic:
  assumes "build_string_to_sign e1 = Inr s" and "build_string_to_sign e2 = Inr s"
    and "one_line (sns_topic_arn e1)" and "one_line (sns_topic_arn e2)"
  shows "sns_topic_arn e1 = sns_topic_arn e2 \<and> sns_message_type e1 = sns_message_type e2"
proof -
  obtain p1 where p1: "s = ((p1 @ ''TopicArn'') @ newline @ sns_topic_arn e1 @ newline @ ''Type'') @ newline @
    message_type_str (sns_message_type e1) @ newline" using assms(1) by (rule string_to_sign_ends) simp
  obtain p2 where p2: "s = ((p2 @ ''TopicArn'') @ newline @ sns_topic_arn e2 @ newline @ ''Type'') @ newline @
    message_type_str (sns_message_type e2) @ newline" using assms(2) by (rule string_to_sign_ends) simp
  note eq = last_line [OF trans [OF p1 [symmetric] p2] message_type_one_line message_type_one_line]
  have "(p1 @ ''TopicArn'') @ newline @ sns_topic_arn e1 @ newline =
      (p2 @ ''TopicArn'') @ newline @ sns_topic_arn e2 @ newline"
    using conjunct2 [OF eq] by simp
  from last_line [OF this assms(3,4)] conjunct1 [OF eq] show ?thesis
    by (simp add: message_type_str_inject)
qed

text \<open>
  The restriction matters: a message may hold any line, and nothing asks a topic to be one line. The
  signature of a message to one topic then verifies for an envelope whose topic starts with another
  one, on the next line of which the rest of the genuine string is hidden.
\<close>

definition genuine_delivery :: sns_envelope where
  "genuine_delivery =
     \<lparr>sns_message_type = Notification, sns_message_id = ''m'',
      sns_topic_arn = ''arn:aws:sns:us-east-1:999999999999:theirs'',
      sns_message = ''hi'' @ newline @ ''MessageId'' @ newline @ ''1'' @ newline @ ''Timestamp'' @ newline @
        ''2'' @ newline @ ''TopicArn'' @ newline @ ''arn:aws:sns:us-east-1:123456789012:ours'',
      sns_timestamp = ''t'', sns_signature_version = ''2'', sns_signature = ''sig'', sns_signing_cert_url = ''url'',
      sns_subject = None, sns_subscribe_url = None, sns_token = None, sns_unsubscribe_url = None\<rparr>"

definition forged_delivery :: sns_envelope where
  "forged_delivery = genuine_delivery\<lparr>sns_message_id := ''1'', sns_message := ''hi'', sns_timestamp := ''2'',
     sns_topic_arn := ''arn:aws:sns:us-east-1:123456789012:ours'' @ newline @ ''MessageId'' @ newline @ ''m'' @
       newline @ ''Timestamp'' @ newline @ ''t'' @ newline @ ''TopicArn'' @ newline @
       ''arn:aws:sns:us-east-1:999999999999:theirs''\<rparr>"

lemma forged_topic_allowed:
  "build_string_to_sign forged_delivery = build_string_to_sign genuine_delivery"
  "verify_with_key L forged_delivery key = verify_with_key L genuine_delivery key"
  "allows [Account ''123456789012''] (sns_topic_arn forged_delivery)"
  "\<not> allows [Account ''123456789012''] (sns_topic_arn genuine_delivery)"
proof -
  show same: "build_string_to_sign forged_delivery = build_string_to_sign genuine_delivery"
    by (simp add: build_string_to_sign_def pair_def forged_delivery_def genuine_delivery_def)
  show "verify_with_key L forged_delivery key = verify_with_key L genuine_delivery key"
  proof -
    have "sns_signature forged_delivery = sns_signature genuine_delivery"
      "sns_signature_version forged_delivery = sns_signature_version genuine_delivery"
      by (simp_all add: forged_delivery_def)
    with same show ?thesis by (simp only: verify_with_key_def)
  qed
qed (simp_all add: allows_def arn_account_def forged_delivery_def genuine_delivery_def)

theorem signature_binds_topic_witness:
  "\<exists>s. build_string_to_sign genuine_delivery = Inr s \<and> build_string_to_sign (genuine_delivery\<lparr>sns_signature := []\<rparr>) = Inr s \<and>
     sns_topic_arn (genuine_delivery\<lparr>sns_signature := []\<rparr>) = sns_topic_arn genuine_delivery"
proof -
  obtain s where s: "build_string_to_sign genuine_delivery = Inr s"
    "build_string_to_sign (genuine_delivery\<lparr>sns_signature := []\<rparr>) = Inr s"
    by (simp add: build_string_to_sign_def genuine_delivery_def)
  have "one_line (sns_topic_arn genuine_delivery)" "one_line (sns_topic_arn (genuine_delivery\<lparr>sns_signature := []\<rparr>))"
    by (simp_all add: one_line_def genuine_delivery_def)
  from signature_binds_topic [OF s(2,1) this(2,1)] s show ?thesis by blast
qed

section \<open>The cache of certificates\<close>

definition key_origin :: "('w, 'k, 'g) sns_libs \<Rightarrow> string option \<Rightarrow> string \<Rightarrow> 'k \<Rightarrow> bool" where
  "key_origin L dev cache_key key \<longleftrightarrow> (\<exists>raw url w w'. validate_cert_url L raw dev = Inr url \<and>
     cert_cache_key L url = cache_key \<and> fetch_and_parse L url w = (Inr key, w'))"

definition cache_ok :: "('w, 'k, 'g) sns_libs \<Rightarrow> string option \<Rightarrow> 'k cert_cache \<Rightarrow> bool" where
  "cache_ok L dev cache \<longleftrightarrow> length cache \<le> MAX_CACHED_CERTS \<and> distinct (map fst cache) \<and>
     (\<forall>(k, key) \<in> set cache. key_origin L dev k key \<and> (\<exists>e. verify_with_key L e key = Inr ()))"

lemma cache_insert_ok:
  assumes "cache_ok L dev cache" and "key_origin L dev k key" and "verify_with_key L e key = Inr ()"
  shows "cache_ok L dev (cache_insert k key cache)"
proof -
  define keys where "keys = (if length cache \<ge> MAX_CACHED_CERTS \<and> map_of cache k = None then [] else cache)"
  have keys: "set keys \<subseteq> set cache" "distinct (map fst keys)" "length keys \<le> MAX_CACHED_CERTS"
    "map_of keys k = None \<Longrightarrow> length keys < MAX_CACHED_CERTS"
    using assms(1) by (auto simp: keys_def cache_ok_def MAX_CACHED_CERTS_def split: if_splits)
  have len: "length (AList.update k key xs) = (if map_of xs k = None then Suc (length xs) else length xs)"
    for xs :: "'b cert_cache"
    by (induction xs) auto
  have mem: "set (AList.update k key keys) \<subseteq> insert (k, key) (set keys)"
    by (induction keys) (auto split: if_splits)
  have "length (AList.update k key keys) \<le> MAX_CACHED_CERTS"
    using keys(3,4) by (auto simp: len Suc_le_eq)
  moreover have "distinct (map fst (AList.update k key keys))" using keys(2) by (rule distinct_update)
  moreover have "key_origin L dev a b \<and> (\<exists>e. verify_with_key L e b = Inr ())"
    if "(a, b) \<in> set (AList.update k key keys)" for a b
  proof -
    have "(a, b) = (k, key) \<or> (a, b) \<in> set cache" using that mem keys(1) by blast
    with assms show ?thesis unfolding cache_ok_def by blast
  qed
  ultimately show ?thesis by (auto simp: cache_ok_def cache_insert_def keys_def [symmetric])
qed

text \<open>What \<open>verify\<close> found when it accepts, and the cache it leaves in any case.\<close>

lemma verify_cases:
  assumes run: "verify L dev e (cache, w) = (res, cache', w')" and ok: "cache_ok L dev cache"
  shows "cache_ok L dev cache'"
    and "res = Inr () \<Longrightarrow> \<exists>url key. validate_cert_url L (sns_signing_cert_url e) dev = Inr url \<and>
      key_origin L dev (cert_cache_key L url) key \<and> verify_with_key L e key = Inr ()"
proof -
  have "cache_ok L dev cache' \<and> (res = Inr () \<longrightarrow> (\<exists>url key. validate_cert_url L (sns_signing_cert_url e) dev = Inr url \<and>
      key_origin L dev (cert_cache_key L url) key \<and> verify_with_key L e key = Inr ()))"
  proof (cases "validate_cert_url L (sns_signing_cert_url e) dev")
    case (Inl err)
    with run ok show ?thesis by (auto simp: verify_def)
  next
    case (Inr url)
    show ?thesis
    proof (cases "map_of cache (cert_cache_key L url)")
      case (Some key)
      then have "key_origin L dev (cert_cache_key L url) key"
        using ok by (auto simp: cache_ok_def dest: map_of_SomeD)
      with Some Inr run ok show ?thesis by (auto simp: verify_def Let_def)
    next
      case None
      obtain got w1 where got: "fetch_and_parse L url w = (got, w1)" by fastforce
      show ?thesis
      proof (cases "\<exists>key. got = Inr key \<and> verify_with_key L e key = Inr ()")
        case True
        then obtain key where key: "got = Inr key" "verify_with_key L e key = Inr ()" by blast
        have origin: "key_origin L dev (cert_cache_key L url) key"
          using Inr got key(1) by (auto simp: key_origin_def)
        have "res = Inr ()" "cache' = cache_insert (cert_cache_key L url) key cache"
          using run Inr None got key by (auto simp: verify_def Let_def)
        with origin key(2) cache_insert_ok [OF ok origin key(2)] Inr show ?thesis by blast
      next
        case False
        then have "cache' = cache" "res \<noteq> Inr ()"
          using run Inr None got by (auto simp: verify_def Let_def split: sum.splits)
        with ok show ?thesis by simp
      qed
    qed
  qed
  then show "cache_ok L dev cache'"
    and "res = Inr () \<Longrightarrow> \<exists>url key. validate_cert_url L (sns_signing_cert_url e) dev = Inr url \<and>
      key_origin L dev (cert_cache_key L url) key \<and> verify_with_key L e key = Inr ()" by blast+
qed

text \<open>The caches a verifier can have, whatever is delivered to it and whatever it is answered.\<close>

inductive verifier_cache :: "('w, 'k, 'g) sns_libs \<Rightarrow> string option \<Rightarrow> 'k cert_cache \<Rightarrow> bool" for L dev where
  no_certs: "verifier_cache L dev []"
| after_verify: "verifier_cache L dev cache \<Longrightarrow> verify L dev e (cache, w) = (res, cache', w') \<Longrightarrow>
    verifier_cache L dev cache'"

text \<open>
  C16. The cache of certificates stays within its bound and holds one key per location, and every key in
  it was served, valid at that time, by a URL the policy accepts, and has verified a signature: nothing
  a sender makes up is ever cached.
\<close>

theorem verifier_cache_ok:
  assumes "verifier_cache L dev cache"
  shows "cache_ok L dev cache"
  using assms
proof induction
  case no_certs
  show ?case by (simp add: cache_ok_def)
next
  case (after_verify cache e w res cache' w')
  show ?case by (rule verify_cases(1) [OF after_verify(2,3)])
qed

definition sns_endpoint :: "('w, 'k, 'g) sns_libs \<Rightarrow> url \<Rightarrow> bool" where
  "sns_endpoint L url \<longleftrightarrow> url_scheme url = ''https'' \<and> (url_port url = None \<or> url_port url = Some 443) \<and>
     (\<exists>region suffix. sl_url_host_str L url = Some (''sns.'' @ region @ suffix) \<and> region \<noteq> [] \<and>
        list_all is_region_byte region \<and> suffix \<in> {''.amazonaws.com'', ''.amazonaws.com.cn''})"

lemma is_sns_host_iff: "is_sns_host h \<longleftrightarrow> (\<exists>region suffix. h = ''sns.'' @ region @ suffix \<and> region \<noteq> [] \<and>
    list_all is_region_byte region \<and> suffix \<in> {''.amazonaws.com'', ''.amazonaws.com.cn''})"
proof -
  have dots: "\<not> (list_all is_region_byte r \<and> r @ ''.amazonaws.com.cn'' = s @ ''.amazonaws.com'')" for r s
  proof
    assume "list_all is_region_byte r \<and> r @ ''.amazonaws.com.cn'' = s @ ''.amazonaws.com''"
    then have "rev (r @ ''.amazonaws.com.cn'') = rev (s @ ''.amazonaws.com'')" by simp
    then show False by simp
  qed
  show ?thesis
  proof
    assume "is_sns_host h"
    then show "\<exists>region suffix. h = ''sns.'' @ region @ suffix \<and> region \<noteq> [] \<and>
        list_all is_region_byte region \<and> suffix \<in> {''.amazonaws.com'', ''.amazonaws.com.cn''}"
      by (fastforce simp: is_sns_host_def strip_prefix_Some strip_suffix_Some split: option.splits)
  next
    assume "\<exists>region suffix. h = ''sns.'' @ region @ suffix \<and> region \<noteq> [] \<and>
        list_all is_region_byte region \<and> suffix \<in> {''.amazonaws.com'', ''.amazonaws.com.cn''}"
    then obtain region suffix where h: "h = ''sns.'' @ region @ suffix" "region \<noteq> []"
      "list_all is_region_byte region" "suffix \<in> {''.amazonaws.com'', ''.amazonaws.com.cn''}" by blast
    have "strip_suffix ''.amazonaws.com'' (region @ ''.amazonaws.com'') = Some region"
      "strip_suffix ''.amazonaws.com.cn'' (region @ ''.amazonaws.com.cn'') = Some region"
      by (simp_all only: strip_suffix_Some)
    moreover have "strip_suffix ''.amazonaws.com'' (region @ ''.amazonaws.com.cn'') = None"
    proof (rule ccontr)
      assume "strip_suffix ''.amazonaws.com'' (region @ ''.amazonaws.com.cn'') \<noteq> None"
      then obtain s where "strip_suffix ''.amazonaws.com'' (region @ ''.amazonaws.com.cn'') = Some s" by blast
      then have "region @ ''.amazonaws.com.cn'' = s @ ''.amazonaws.com''" by (simp only: strip_suffix_Some)
      with dots [of region s] h(3) show False by simp
    qed
    moreover have "strip_prefix ''sns.'' h = Some (region @ suffix)" unfolding h(1) by (rule strip_prefix_append)
    ultimately show "is_sns_host h" using h(2-4) by (auto simp: is_sns_host_def)
  qed
qed

lemma validate_cert_url_endpoint:
  assumes "validate_cert_url L raw dev = Inr url" and "\<not> sl_debug_assertions L"
  shows "sns_endpoint L url"
proof -
  from assms(1) have "validate_sns_url L raw dev = Inr url"
    by (auto simp: validate_cert_url_def split: sum.splits if_splits)
  with assms(2) have "url_scheme url = ''https''" "url_port url = None \<or> url_port url = Some 443"
    "\<exists>h. sl_url_host_str L url = Some h \<and> is_sns_host h"
    by (auto simp: validate_sns_url_def split: option.splits if_splits)
  then show ?thesis unfolding sns_endpoint_def is_sns_host_iff by blast
qed

text \<open>
  C15. In a release build a delivery is accepted only if its topic is allowed and its signature verifies
  with a key that a certificate served over https by an SNS endpoint, on its default port, carried.
\<close>

theorem verified_sound:
  assumes "from_request L dev allowlist typed body (cache, w) = (Inr v, cache', w')"
    and "verifier_cache L dev cache" and "\<not> sl_debug_assertions L"
  shows "allows allowlist (sns_topic_arn (vsn_envelope v)) \<and>
    (\<exists>key url served. verify_with_key L (vsn_envelope v) key = Inr () \<and>
       (\<exists>w0 w1. fetch_and_parse L served w0 = (Inr key, w1)) \<and> sns_endpoint L served \<and> sns_endpoint L url \<and>
       sl_url_parse L (sns_signing_cert_url (vsn_envelope v)) = Some url \<and>
       cert_cache_key L served = cert_cache_key L url)"
proof -
  obtain e where e: "vsn_envelope v = e" "allows allowlist (sns_topic_arn e)"
    "verify L dev e (cache, w) = (Inr (), cache', w')"
    using assms(1) by (auto simp: from_request_def verified_def split: if_splits option.splits prod.splits sum.splits)
  from verify_cases(2) [OF e(3) verifier_cache_ok [OF assms(2)] refl] obtain url key where
    k: "validate_cert_url L (sns_signing_cert_url e) dev = Inr url" "key_origin L dev (cert_cache_key L url) key"
      "verify_with_key L e key = Inr ()" by blast
  from k(2) obtain raw served w0 w1 where s: "validate_cert_url L raw dev = Inr served"
    "cert_cache_key L served = cert_cache_key L url" "fetch_and_parse L served w0 = (Inr key, w1)"
    by (auto simp: key_origin_def)
  have "sl_url_parse L (sns_signing_cert_url e) = Some url"
    using k(1) by (auto simp: validate_cert_url_def validate_sns_url_def split: sum.splits option.splits if_splits)
  with e k(3) s validate_cert_url_endpoint [OF k(1) assms(3)] validate_cert_url_endpoint [OF s(1) assms(3)]
  show ?thesis by auto
qed

definition sample_url :: url where
  "sample_url = \<lparr>url_str = [], url_scheme = ''https'', url_username = [], url_password = None,
     url_port = None, url_host = None\<rparr>"

definition sample_sns :: "(unit, nat, nat) sns_libs" where
  "sample_sns =
     \<lparr>sl_json = (\<lambda>_. Some (JArray (JString ''Notification'' # replicate 6 (JString ''1'') @ replicate 5 (JString ''u'')))),
      sl_url_parse = (\<lambda>_. Some sample_url), sl_url_host_str = (\<lambda>_. Some ''sns.us-east-1.amazonaws.com''),
      sl_url_path = (\<lambda>_. ''/cert.pem''),
      sl_http_get = (\<lambda>_ w. (Some \<lparr>resp_status = 200, resp_location = None, resp_encodings = [],
        resp_content_length = None, resp_chunks = [Some [1]]\<rparr>, w)),
      sl_from_pem = (\<lambda>_. Some \<lparr>crt_not_before = 0, crt_not_after = 1, crt_key = Some 5\<rparr>), sl_now = (\<lambda>_. 0),
      sl_base64 = (\<lambda>_. Some []), sl_signature = (\<lambda>_. Some 7), sl_rsa_sha1 = (\<lambda>k _ g. k = 5 \<and> g = 7),
      sl_rsa_sha256 = (\<lambda>_ _ _. False), sl_debug_assertions = False\<rparr>"

lemma sample_delivery:
  obtains v cache where "from_request sample_sns None [] True (Some []) ([], ()) = (Inr v, cache, ())"
    "verify sample_sns None (vsn_envelope v) ([], ()) = (Inr (), cache, ())"
proof -
  let ?j = "JArray (JString ''Notification'' # replicate 6 (JString ''1'') @ replicate 5 (JString ''u''))"
  obtain e where e: "de_envelope ?j = Some e"
    by (simp add: de_envelope_def numeral_eq_Suc required_def defaulted_def de_option_def message_type_of_def)
  then have parts: "sns_message_type e = Notification" "sns_signature_version e = ''1''"
    by (auto simp: de_envelope_def numeral_eq_Suc required_def defaulted_def de_option_def message_type_of_def)
  have key: "verify_with_key sample_sns e 5 = Inr ()"
    using parts by (simp add: verify_with_key_def build_string_to_sign_def sample_sns_def)
  have url: "validate_cert_url sample_sns u None = Inr sample_url" for u
    by (simp add: validate_cert_url_def validate_sns_url_def sample_sns_def sample_url_def is_sns_host_def
        strip_prefix_def strip_suffix_def is_region_byte_def is_ascii_lowercase_def is_ascii_digit_def
        path_extension_def path_file_name_def eq_ignore_ascii_case_def suffix_def)
  have fetch: "fetch_and_parse sample_sns u () = (Inr 5, ())" for u
    by (simp add: fetch_and_parse_def parse_cert_pem_def sample_sns_def MAX_CERT_RESPONSE_BYTES_def)
  obtain cache where v: "verify sample_sns None e ([], ()) = (Inr (), cache, ())"
    by (simp add: verify_def url fetch key Let_def)
  have "from_request sample_sns None [] True (Some []) ([], ()) = (Inr \<lparr>vsn_envelope = e, vsn_raw_body = []\<rparr>, cache, ())"
    using e v by (simp add: from_request_def verified_def allows_def sample_sns_def)
  with v that show thesis by fastforce
qed

theorem verifier_cache_ok_witness: "\<exists>cache. cache \<noteq> [] \<and> cache_ok sample_sns None cache"
proof -
  obtain v :: verified_sns and cache where v: "verify sample_sns None (vsn_envelope v) ([], ()) = (Inr (), cache, ())"
    by (rule sample_delivery)
  have "cache \<noteq> []"
    using v by (auto simp: verify_def Let_def cache_insert_def split: sum.splits prod.splits)
  moreover have "cache_ok sample_sns None cache"
    by (rule verifier_cache_ok) (rule after_verify [OF no_certs v])
  ultimately show ?thesis by blast
qed

theorem verified_sound_witness:
  "\<exists>v cache. from_request sample_sns None [] True (Some []) ([], ()) = (Inr v, cache, ()) \<and>
     (\<exists>key. verify_with_key sample_sns (vsn_envelope v) key = Inr ())"
proof -
  obtain v cache where v: "from_request sample_sns None [] True (Some []) ([], ()) = (Inr v, cache, ())"
    by (rule sample_delivery)
  from verified_sound [OF this no_certs] show ?thesis using v by (auto simp: sample_sns_def)
qed

end
