(* ===== verification/EventStore.thy ===== *)
theory EventStore
  imports Sns
begin

text \<open>
  \<open>webhook/src/store.rs\<close>, \<open>events_keys.rs\<close> and \<open>aws/events_table.rs\<close>: each notification becomes one
  event item, and rolls up into the aggregate of its message. DynamoDB is a parameter with its documented
  contract: what a conditional put, a transaction and an update expression do to the items. What is proved
  is over every interleaving of the writes of any number of handlers.
\<close>

section \<open>Records\<close>

record event_record =
  rec_aggregate_id :: string
  rec_event_timestamp :: string
  rec_sns_message_id :: string
  rec_raw_body :: bytes
  rec_source :: "source option"
  rec_detail_type :: string
  rec_topic_arn :: string
  rec_received_at :: string
  rec_expires_at :: u64
  rec_aggregate_expires_at :: u64

text \<open>What the modelled handlers read of \<open>Config\<close>, its mail part aside.\<close>

record app_config =
  cfg_raw_event_retention_days :: u32
  cfg_aggregate_retention_days :: u32
  cfg_event_source :: string
  cfg_opt_out_list_name :: "string option"
  cfg_auto_resubscribe :: bool

text \<open>
  A \<open>SystemTime\<close> is nanoseconds since the epoch; its seconds are an \<open>i64\<close>, and a sum outside is no time.
\<close>

definition expiry_secs :: "int \<Rightarrow> u32 \<Rightarrow> u64 option" where
  "expiry_secs now retention_days =
     (let t = now + int (unat ((ucast retention_days :: u64) * 24 * 60 * 60)) * 10 ^ 9 in
      if t div 10 ^ 9 > 2 ^ 63 - 1 \<or> t < 0 then None else Some (of_int (t div 10 ^ 9)))"

definition build_record ::
  "(int \<Rightarrow> string option) \<Rightarrow> int \<Rightarrow> source option \<Rightarrow> sns_envelope \<Rightarrow> bytes \<Rightarrow> domain_event \<Rightarrow> app_config
     \<Rightarrow> event_record option" where
  "build_record fmt_date_time now src envelope raw_body event config = do {
     received_at \<leftarrow> fmt_date_time now;
     expires_at \<leftarrow> expiry_secs now (cfg_raw_event_retention_days config);
     aggregate_expires_at \<leftarrow> expiry_secs now (cfg_aggregate_retention_days config);
     Some \<lparr>rec_aggregate_id = aggregate_id event (sns_message_id envelope),
       rec_event_timestamp = sns_timestamp envelope, rec_sns_message_id = sns_message_id envelope,
       rec_raw_body = raw_body, rec_source = src, rec_detail_type = detail_type event,
       rec_topic_arn = sns_topic_arn envelope, rec_received_at = received_at, rec_expires_at = expires_at,
       rec_aggregate_expires_at = aggregate_expires_at\<rparr> }"

definition source_label :: "event_record \<Rightarrow> string" where
  "source_label record = (case rec_source record of None \<Rightarrow> ''unknown'' | Some s \<Rightarrow> source_str s)"

datatype persist_outcome = PersistedFresh | PersistedDuplicate

section \<open>Keys\<close>

definition AGGREGATE_SK :: string where "AGGREGATE_SK = ''AGG''"
definition EVENT_SK_PREFIX :: string where "EVENT_SK_PREFIX = ''EVT#''"
definition PARTITION_PREFIX :: string where "PARTITION_PREFIX = ''MSG#''"

definition event_partition :: "string \<Rightarrow> string" where
  "event_partition aggregate = PARTITION_PREFIX @ aggregate"

definition parse_partition :: "string \<Rightarrow> string option" where
  "parse_partition pk = strip_prefix PARTITION_PREFIX pk"

definition event_sk :: "string \<Rightarrow> string \<Rightarrow> string" where
  "event_sk event_timestamp sns_id = EVENT_SK_PREFIX @ event_timestamp @ ''#'' @ sns_id"

section \<open>Items and requests\<close>

text \<open>An attribute is one of those the mail table uses too, or binary.\<close>

datatype stored_av = Av attribute_value | AvB bytes

type_synonym event_item = "string \<rightharpoonup> stored_av"
type_synonym event_rows = "string \<times> string \<Rightarrow> event_item option"

abbreviation av_s :: "string \<Rightarrow> stored_av" where "av_s s \<equiv> Av (AvS s)"
abbreviation av_n :: "u64 \<Rightarrow> stored_av" where "av_n n \<equiv> Av (AvN (u64_str n))"

datatype set_clause = SetTo string stored_av | SetIfNotExists string stored_av

text \<open>
  \<open>Update\<close>: the \<open>SET\<close> clauses, the attribute an \<open>ADD\<close> clause adds one to, and, of a conditional update,
  the values of \<open>current_status\<close> it may replace besides an unset one.
\<close>

record agg_update =
  upd_key :: "string \<times> string"
  upd_set :: "set_clause list"
  upd_add :: "string option"
  upd_priors :: "string list option"

datatype aggregate_status = AggReceived | AggSent | AggDelivered | AggFailed | AggBounced | AggComplained

fun agg_status_str :: "aggregate_status \<Rightarrow> string" where
  "agg_status_str AggReceived = ''received''"
| "agg_status_str AggSent = ''sent''"
| "agg_status_str AggDelivered = ''delivered''"
| "agg_status_str AggFailed = ''failed''"
| "agg_status_str AggBounced = ''bounced''"
| "agg_status_str AggComplained = ''complained''"

fun allowed_priors :: "aggregate_status \<Rightarrow> aggregate_status list" where
  "allowed_priors AggDelivered = [AggSent]"
| "allowed_priors AggComplained = [AggSent, AggDelivered]"
| "allowed_priors _ = []"

definition overwrite_status :: "aggregate_status \<Rightarrow> set_clause" where
  "overwrite_status s = SetTo ''current_status'' (av_s (agg_status_str s))"

definition status_if_unset :: "aggregate_status \<Rightarrow> set_clause" where
  "status_if_unset s = SetIfNotExists ''current_status'' (av_s (agg_status_str s))"

text \<open>The clauses an event adds: to \<open>SET\<close>, and to \<open>ADD\<close>.\<close>

definition ses_clauses :: "stored_av \<Rightarrow> ses_notification \<Rightarrow> set_clause list \<times> string option" where
  "ses_clauses ts event = (case ses_kind event of
       KindSend \<Rightarrow> ([status_if_unset AggSent], None)
     | KindBounce \<Rightarrow> ((case ses_bounce event of
            None \<Rightarrow> []
          | Some bounce \<Rightarrow> SetTo ''bounce_type'' (av_s (bounce_type_str (bnc_bounce_type bounce)))
              # (if is_permanent bounce then [overwrite_status AggBounced] else [])), None)
     | KindComplaint \<Rightarrow> ([SetTo ''complained_at'' ts], None)
     | KindOpen \<Rightarrow> ([SetTo ''last_opened_at'' ts],
         Some (if (case ses_open event of None \<Rightarrow> False | Some e \<Rightarrow> is_bot e) then ''bot_open_count'' else ''open_count''))
     | KindClick \<Rightarrow> ([SetTo ''last_clicked_at'' ts],
         Some (if (case ses_click event of None \<Rightarrow> False | Some e \<Rightarrow> is_bot e) then ''bot_click_count'' else ''click_count''))
     | _ \<Rightarrow> ([], None))"

definition event_clauses :: "stored_av \<Rightarrow> domain_event \<Rightarrow> set_clause list \<times> string option" where
  "event_clauses ts event = (case event of
       EvSmsInbound _ _ \<Rightarrow> ([overwrite_status AggReceived], None)
     | EvSesInbound _ _ \<Rightarrow> ([overwrite_status AggReceived], None)
     | EvSmsDelivery e _ \<Rightarrow> (if sde_is_final e
         then [overwrite_status (if is_successful_delivery e then AggDelivered else AggFailed)] else [], None)
     | EvSes e _ \<Rightarrow> ses_clauses ts e
     | EvUnknown _ \<Rightarrow> ([], None))"

definition aggregate_update :: "event_record \<Rightarrow> domain_event \<Rightarrow> agg_update" where
  "aggregate_update record event =
     (let ts = av_s (rec_event_timestamp record);
          clauses = event_clauses ts event
      in \<lparr>upd_key = (event_partition (rec_aggregate_id record), AGGREGATE_SK),
          upd_set = [SetIfNotExists ''source'' (av_s (source_label record)), SetIfNotExists ''first_event_at'' ts,
            SetTo ''last_event_at'' ts, SetTo ''expires_at'' (av_n (rec_aggregate_expires_at record))] @ fst clauses,
          upd_add = snd clauses, upd_priors = None\<rparr>)"

definition status_transition :: "event_record \<Rightarrow> domain_event \<Rightarrow> agg_update option" where
  "status_transition record event =
     (case event of
        EvSes e _ \<Rightarrow>
          (case (case ses_kind e of KindDelivery \<Rightarrow> Some AggDelivered | KindComplaint \<Rightarrow> Some AggComplained
               | _ \<Rightarrow> None) of
             None \<Rightarrow> None
           | Some moved \<Rightarrow> Some
               \<lparr>upd_key = (event_partition (rec_aggregate_id record), AGGREGATE_SK),
                upd_set = [overwrite_status moved], upd_add = None,
                upd_priors = Some (map agg_status_str (allowed_priors moved))\<rparr>)
      | _ \<Rightarrow> None)"

definition event_key :: "event_record \<Rightarrow> string \<times> string" where
  "event_key record = (event_partition (rec_aggregate_id record),
     event_sk (rec_event_timestamp record) (rec_sns_message_id record))"

definition event_item :: "event_record \<Rightarrow> event_item" where
  "event_item record =
     [''pk'' \<mapsto> av_s (fst (event_key record)), ''sk'' \<mapsto> av_s (snd (event_key record)),
      ''raw_body'' \<mapsto> AvB (rec_raw_body record), ''source'' \<mapsto> av_s (source_label record),
      ''detail_type'' \<mapsto> av_s (rec_detail_type record), ''topic_arn'' \<mapsto> av_s (rec_topic_arn record),
      ''sns_message_id'' \<mapsto> av_s (rec_sns_message_id record),
      ''sns_timestamp'' \<mapsto> av_s (rec_event_timestamp record), ''received_at'' \<mapsto> av_s (rec_received_at record),
      ''expires_at'' \<mapsto> av_n (rec_expires_at record)]"

text \<open>\<open>Put\<close>: the item, and the attributes its condition expression wants absent.\<close>

record put_request =
  put_item :: event_item
  put_absent :: "string list"

definition event_put :: "event_record \<Rightarrow> put_request" where
  "event_put record = \<lparr>put_item = event_item record, put_absent = [''pk'', ''sk'']\<rparr>"

text \<open>
  The two calls to DynamoDB: the transaction of a conditional put with an update, and one conditional
  update. A cancelled transaction reports a code for each of its entries.
\<close>

datatype transact_error = TransactCancelled "string option list" | TransactOther
datatype update_error = UpdateConditionFailed | UpdateOther

record 'w events_client =
  ec_transact :: "put_request \<Rightarrow> agg_update \<Rightarrow> 'w \<Rightarrow> (transact_error + unit) \<times> 'w"
  ec_update_item :: "agg_update \<Rightarrow> 'w \<Rightarrow> (update_error + unit) \<times> 'w"

text \<open>A \<open>StoreError\<close> carries a message only.\<close>

datatype event_store_error = StoreError

definition apply_status_transition :: "'w events_client \<Rightarrow> agg_update \<Rightarrow> 'w \<Rightarrow> (event_store_error + unit) \<times> 'w" where
  "apply_status_transition C transition w =
     (case ec_update_item C transition w of
        (Inr _, w') \<Rightarrow> (Inr (), w')
      | (Inl UpdateConditionFailed, w') \<Rightarrow> (Inr (), w')
      | (Inl UpdateOther, w') \<Rightarrow> (Inl StoreError, w'))"

fun duplicate_outcome :: "transact_error \<Rightarrow> event_store_error + persist_outcome" where
  "duplicate_outcome (TransactCancelled (Some code # _)) =
     (if code = ''ConditionalCheckFailed'' then Inr PersistedDuplicate else Inl StoreError)"
| "duplicate_outcome _ = Inl StoreError"

definition persist_new ::
  "'w events_client \<Rightarrow> event_record \<Rightarrow> domain_event \<Rightarrow> 'w \<Rightarrow> (event_store_error + persist_outcome) \<times> 'w" where
  "persist_new C record event w =
     (case ec_transact C (event_put record) (aggregate_update record event) w of (result, w1) \<Rightarrow>
      (case (case result of Inr _ \<Rightarrow> Inr PersistedFresh | Inl error \<Rightarrow> duplicate_outcome error) of
         Inl e \<Rightarrow> (Inl e, w1)
       | Inr outcome \<Rightarrow>
           (case status_transition record event of
              None \<Rightarrow> (Inr outcome, w1)
            | Some transition \<Rightarrow> (case apply_status_transition C transition w1 of
                (Inl e, w2) \<Rightarrow> (Inl e, w2)
              | (Inr _, w2) \<Rightarrow> (Inr outcome, w2)))))"

section \<open>What the writes do\<close>

text \<open>DynamoDB's update expressions: every clause reads the item as it was; \<open>ADD\<close> counts from zero.\<close>

fun set_value :: "event_item \<Rightarrow> set_clause \<Rightarrow> event_item \<Rightarrow> event_item" where
  "set_value old (SetTo name v) new = new(name \<mapsto> v)"
| "set_value old (SetIfNotExists name v) new = (case old name of None \<Rightarrow> new(name \<mapsto> v) | Some _ \<Rightarrow> new)"

definition count_in :: "event_item \<Rightarrow> string \<Rightarrow> nat" where
  "count_in item name = (case item name of
       Some (Av (AvN n)) \<Rightarrow> (case parse_digits n of None \<Rightarrow> 0 | Some c \<Rightarrow> c) | _ \<Rightarrow> 0)"

definition apply_update :: "agg_update \<Rightarrow> event_item option \<Rightarrow> event_item" where
  "apply_update u before =
     (let old = (case before of None \<Rightarrow> [''pk'' \<mapsto> av_s (fst (upd_key u)), ''sk'' \<mapsto> av_s (snd (upd_key u))]
            | Some item \<Rightarrow> item);
          new = fold (set_value old) (upd_set u) old
      in (case upd_add u of None \<Rightarrow> new
          | Some name \<Rightarrow> new(name \<mapsto> Av (AvN (dec (Suc (count_in old name)))))))"

definition update_holds :: "agg_update \<Rightarrow> event_item option \<Rightarrow> bool" where
  "update_holds u before \<longleftrightarrow> (case upd_priors u of
       None \<Rightarrow> True
     | Some priors \<Rightarrow> (case Option.bind before (\<lambda>i. i ''current_status'') of
           None \<Rightarrow> True | Some v \<Rightarrow> v \<in> av_s ` set priors))"

datatype events_op = PersistEvent event_record domain_event | MoveStatus event_record domain_event

text \<open>
  An item always has the attributes of its key, whatever else it holds. A put names its key in its item, and
  its condition is evaluated on the item already there.
\<close>

definition row_attr :: "(string \<times> string) \<Rightarrow> event_item option \<Rightarrow> string \<Rightarrow> stored_av option" where
  "row_attr k before name = (case before of None \<Rightarrow> None
     | Some item \<Rightarrow> (item(''pk'' \<mapsto> av_s (fst k), ''sk'' \<mapsto> av_s (snd k))) name)"

definition text_attr :: "event_item \<Rightarrow> string \<Rightarrow> string" where
  "text_attr item name = (case item name of Some (Av (AvS s)) \<Rightarrow> s | _ \<Rightarrow> [])"

definition put_key :: "put_request \<Rightarrow> string \<times> string" where
  "put_key p = (text_attr (put_item p) ''pk'', text_attr (put_item p) ''sk'')"

definition put_holds :: "put_request \<Rightarrow> event_rows \<Rightarrow> bool" where
  "put_holds p R \<longleftrightarrow> (\<forall>name \<in> set (put_absent p). row_attr (put_key p) (R (put_key p)) name = None)"

definition update_apply :: "agg_update \<Rightarrow> event_rows \<Rightarrow> event_rows" where
  "update_apply u R = (if update_holds u (R (upd_key u)) then R(upd_key u \<mapsto> apply_update u (R (upd_key u))) else R)"

definition transact_apply :: "put_request \<Rightarrow> agg_update \<Rightarrow> event_rows \<Rightarrow> event_rows" where
  "transact_apply p u R = (if put_holds p R \<and> update_holds u (R (upd_key u))
     then R(put_key p \<mapsto> put_item p, upd_key u \<mapsto> apply_update u (R (upd_key u))) else R)"

fun events_apply :: "events_op \<Rightarrow> event_rows \<Rightarrow> event_rows" where
  "events_apply (PersistEvent record event) R = transact_apply (event_put record) (aggregate_update record event) R"
| "events_apply (MoveStatus record event) R =
     (case status_transition record event of None \<Rightarrow> R | Some u \<Rightarrow> update_apply u R)"

declare events_apply.simps [simp del]

lemma put_key_event [simp]: "put_key (event_put r) = event_key r"
  by (simp add: put_key_def event_put_def text_attr_def event_item_def)

lemma event_put_free: "put_holds (event_put r) R \<longleftrightarrow> R (event_key r) = None"
  by (simp add: put_holds_def row_attr_def split: option.split) (simp add: event_put_def)

lemma aggregate_update_holds [simp]: "update_holds (aggregate_update r e) before"
  by (simp add: update_holds_def aggregate_update_def Let_def)

lemma events_apply_simps:
  "events_apply (PersistEvent r e) R =
     (if R (event_key r) \<noteq> None then R
      else let u = aggregate_update r e in
        R(event_key r \<mapsto> event_item r, upd_key u \<mapsto> apply_update u (R (upd_key u))))"
  "events_apply (MoveStatus r e) R =
     (case status_transition r e of
        None \<Rightarrow> R
      | Some u \<Rightarrow> if update_holds u (R (upd_key u)) then R(upd_key u \<mapsto> apply_update u (R (upd_key u))) else R)"
proof -
  have "put_item (event_put r) = event_item r" by (simp add: event_put_def)
  then show "events_apply (PersistEvent r e) R =
     (if R (event_key r) \<noteq> None then R
      else let u = aggregate_update r e in
        R(event_key r \<mapsto> event_item r, upd_key u \<mapsto> apply_update u (R (upd_key u))))"
    by (simp add: events_apply.simps transact_apply_def event_put_free Let_def)
qed (simp add: events_apply.simps update_apply_def split: option.split)

definition events_run :: "events_op list \<Rightarrow> event_rows \<Rightarrow> event_rows" where
  "events_run ops = fold events_apply ops"

lemma events_run_append [simp]: "events_run (xs @ ys) R = events_run ys (events_run xs R)"
  by (simp add: events_run_def)

lemma events_run_Cons [simp]: "events_run (op # ops) R = events_run ops (events_apply op R)"
  and events_run_Nil [simp]: "events_run [] R = R"
  by (simp_all add: events_run_def)

text \<open>
  The contract of the client, as DynamoDB documents it. Between the start and the end of a call others may
  write; the call itself takes effect at one moment, or not at all. A success means the conditions held and
  the writes were done. A cancelled transaction wrote nothing, and its first reason is
  \<open>ConditionalCheckFailed\<close> only if the condition of its first entry, the put, did not hold; a failed
  condition of a single update likewise. Any other failure leaves open whether the call took effect.
\<close>

fun transact_answer :: "transact_error + unit \<Rightarrow> put_request \<Rightarrow> agg_update \<Rightarrow> event_rows \<Rightarrow> event_rows \<Rightarrow> bool" where
  "transact_answer (Inr _) p u R R' \<longleftrightarrow> put_holds p R \<and> R' = transact_apply p u R"
| "transact_answer (Inl (TransactCancelled codes)) p u R R' \<longleftrightarrow> R' = R \<and>
     (\<forall>rest. codes = Some ''ConditionalCheckFailed'' # rest \<longrightarrow> \<not> put_holds p R)"
| "transact_answer (Inl TransactOther) p u R R' \<longleftrightarrow> R' = R \<or> R' = transact_apply p u R"

fun update_answer :: "update_error + unit \<Rightarrow> agg_update \<Rightarrow> event_rows \<Rightarrow> event_rows \<Rightarrow> bool" where
  "update_answer (Inr _) u R R' \<longleftrightarrow> update_holds u (R (upd_key u)) \<and> R' = update_apply u R"
| "update_answer (Inl UpdateConditionFailed) u R R' \<longleftrightarrow> \<not> update_holds u (R (upd_key u)) \<and> R' = R"
| "update_answer (Inl UpdateOther) u R R' \<longleftrightarrow> R' = R \<or> R' = update_apply u R"

definition dynamo_contract :: "'w events_client \<Rightarrow> ('w \<Rightarrow> event_rows) \<Rightarrow> bool" where
  "dynamo_contract C rows_of \<longleftrightarrow>
     (\<forall>p u w res w'. put_key p \<noteq> upd_key u \<longrightarrow> ec_transact C p u w = (res, w') \<longrightarrow>
        (\<exists>before R' after. transact_answer res p u (events_run before (rows_of w)) R' \<and> rows_of w' = events_run after R')) \<and>
     (\<forall>u w res w'. ec_update_item C u w = (res, w') \<longrightarrow>
        (\<exists>before R' after. update_answer res u (events_run before (rows_of w)) R' \<and> rows_of w' = events_run after R'))"

lemma event_key_not_aggregate_update [simp]: "event_key r \<noteq> upd_key (aggregate_update r' e)"
  by (simp add: event_key_def aggregate_update_def Let_def event_sk_def EVENT_SK_PREFIX_def AGGREGATE_SK_def)

lemma transact_law:
  assumes "dynamo_contract C rows_of"
    and "ec_transact C (event_put r) (aggregate_update r e) w = (res, w')"
  obtains (Unwritten) before after err where "rows_of w' = events_run after (events_run before (rows_of w))"
      "res = Inl err" "duplicate_outcome err \<noteq> Inr PersistedDuplicate"
    | (Written) before after where
      "rows_of w' = events_run after (events_apply (PersistEvent r e) (events_run before (rows_of w)))"
      "res = Inr () \<Longrightarrow> events_run before (rows_of w) (event_key r) = None"
proof -
  obtain before R' after where answer: "transact_answer res (event_put r) (aggregate_update r e) (events_run before (rows_of w)) R'"
    and rows: "rows_of w' = events_run after R'"
    using assms unfolding dynamo_contract_def by (metis put_key_event event_key_not_aggregate_update)
  note free = event_put_free [of r "events_run before (rows_of w)"]
  show thesis
  proof (cases "\<exists>err. res = Inl err \<and> duplicate_outcome err \<noteq> Inr PersistedDuplicate \<and> R' = events_run before (rows_of w)")
    case True
    with rows Unwritten show thesis by blast
  next
    case False
    then have "R' = events_apply (PersistEvent r e) (events_run before (rows_of w)) \<and>
        (res = Inr () \<longrightarrow> events_run before (rows_of w) (event_key r) = None)"
      using answer free
      by (cases "(res, event_put r, aggregate_update r e, events_run before (rows_of w), R')" rule: transact_answer.cases)
        (auto simp: events_apply.simps transact_apply_def elim!: duplicate_outcome.elims split: if_splits)
    with rows Written show thesis by blast
  qed
qed

lemma update_law:
  assumes "dynamo_contract C rows_of" and "status_transition r e = Some u"
    and "ec_update_item C u w = (ures, w')"
  obtains before after where
    "rows_of w' = events_run after (events_run before (rows_of w)) \<and> ures = Inl UpdateOther \<or>
     rows_of w' = events_run after (events_apply (MoveStatus r e) (events_run before (rows_of w)))"
proof -
  obtain before R' after where answer: "update_answer ures u (events_run before (rows_of w)) R'"
    and rows: "rows_of w' = events_run after R'"
    using assms(1,3) unfolding dynamo_contract_def by metis
  have "R' = events_run before (rows_of w) \<and> ures = Inl UpdateOther \<or>
      R' = events_apply (MoveStatus r e) (events_run before (rows_of w))"
    using answer
    by (cases "(ures, u, events_run before (rows_of w), R')" rule: update_answer.cases)
      (auto simp: events_apply.simps update_apply_def assms(2))
  with rows that show thesis by blast
qed

text \<open>
  Either answer of \<open>persist_new\<close> means both writes were done, in order; an error means a prefix of them.
\<close>

lemma persist_new_run:
  assumes contract: "dynamo_contract C rows_of" and run: "persist_new C r e w = (res, w')"
  obtains (Done) out xs ys zs where "res = Inr out"
      "rows_of w' = events_run (xs @ PersistEvent r e # ys @ MoveStatus r e # zs) (rows_of w)"
      "out = PersistedFresh \<Longrightarrow> events_run xs (rows_of w) (event_key r) = None"
    | (Error) xs where "res = Inl StoreError" "rows_of w' = events_run xs (rows_of w)"
proof -
  obtain result w1 where t: "ec_transact C (event_put r) (aggregate_update r e) w = (result, w1)"
    by fastforce
  have only: "duplicate_outcome err = Inr out \<Longrightarrow> out = PersistedDuplicate" for err out
    by (cases err rule: duplicate_outcome.cases) (auto split: if_splits)
  have store: "(e :: event_store_error) = StoreError" for e by (cases e) simp
  show thesis
  proof (cases "case result of Inr _ \<Rightarrow> Inr PersistedFresh | Inl error \<Rightarrow> duplicate_outcome error")
    case (Inl er)
    then have "res = Inl StoreError" "w' = w1"
      using run t store [of er] by (simp_all add: persist_new_def)
    moreover have "\<exists>xs. rows_of w1 = events_run xs (rows_of w)"
      by (rule transact_law [OF contract t]) (metis events_run_append events_run_Cons)+
    ultimately show thesis using Error by blast
  next
    case (Inr out)
    obtain before after where w1: "rows_of w1 = events_run (before @ PersistEvent r e # after) (rows_of w)"
      and fresh: "out = PersistedFresh \<Longrightarrow> events_run before (rows_of w) (event_key r) = None"
    proof (rule transact_law [OF contract t])
      fix err assume "result = Inl err" "duplicate_outcome err \<noteq> Inr PersistedDuplicate"
      with Inr only show thesis by auto
    next
      fix before after
      assume "rows_of w1 = events_run after (events_apply (PersistEvent r e) (events_run before (rows_of w)))"
        and free: "result = Inr () \<Longrightarrow> events_run before (rows_of w) (event_key r) = None"
      moreover have "out = PersistedFresh \<Longrightarrow> result = Inr ()"
        using Inr only by (cases result) auto
      ultimately show thesis using that [of before after] by simp
    qed
    show thesis
    proof (cases "status_transition r e")
      case None
      then have "events_apply (MoveStatus r e) R = R" for R by (simp add: events_apply_simps)
      then have "rows_of w1 = events_run (before @ PersistEvent r e # after @ MoveStatus r e # []) (rows_of w)"
        using w1 by simp
      moreover have "res = Inr out" "w' = w1" using run t Inr None by (auto simp: persist_new_def)
      ultimately show thesis using Done fresh by blast
    next
      case (Some u)
      obtain ures w2 where u: "ec_update_item C u w1 = (ures, w2)" by fastforce
      obtain b2 a2 where law2:
        "rows_of w2 = events_run a2 (events_run b2 (rows_of w1)) \<and> ures = Inl UpdateOther \<or>
         rows_of w2 = events_run a2 (events_apply (MoveStatus r e) (events_run b2 (rows_of w1)))"
        by (rule update_law [OF contract Some u])
      have out: "(res, w') = (if ures = Inl UpdateOther then Inl StoreError else Inr out, w2)"
        using run t Inr Some u
        by (auto simp: persist_new_def apply_status_transition_def split: sum.splits update_error.splits)
      show thesis
      proof (cases "ures = Inl UpdateOther")
        case True
        have "\<exists>xs. rows_of w2 = events_run xs (rows_of w)"
          using law2 w1 by (metis events_run_append events_run_Cons)
        moreover have "res = Inl StoreError" "w' = w2" using True out by simp_all
        ultimately show thesis using Error by blast
      next
        case False
        with law2 w1 have "rows_of w2 =
            events_run (before @ PersistEvent r e # (after @ b2) @ MoveStatus r e # a2) (rows_of w)" by simp
        moreover have "res = Inr out" "w' = w2" using False out by simp_all
        ultimately show thesis using Done fresh by blast
      qed
    qed
  qed
qed

lemma transition_key: "status_transition r' e = Some u \<Longrightarrow> event_key r = upd_key u \<Longrightarrow> False"
  by (auto simp: status_transition_def event_key_def event_sk_def EVENT_SK_PREFIX_def AGGREGATE_SK_def
      split: domain_event.splits option.splits)

lemma row_unchanged: "R (event_key r) = Some item \<Longrightarrow> events_run ops R (event_key r) = Some item"
proof (induction ops arbitrary: R)
  case (Cons op ops)
  have "events_apply op R (event_key r) = Some item"
    using Cons.prems by (cases op) (auto simp: Let_def events_apply_simps dest: transition_key split: option.split)
  from Cons.IH [where R = "events_apply op R", OF this] show ?case by simp
qed simp

lemma row_kept: "R k \<noteq> None \<Longrightarrow> events_run ops R k \<noteq> None"
proof (induction ops arbitrary: R)
  case (Cons op ops)
  have "events_apply op R k \<noteq> None"
    using Cons.prems by (cases op) (auto simp: Let_def events_apply_simps split: option.split)
  from Cons.IH [where R = "events_apply op R", OF this] show ?case by simp
qed simp

lemma event_row_origin:
  "events_run ops R (event_key r) = Some item \<Longrightarrow>
     R (event_key r) = Some item \<or> (\<exists>r'. event_key r' = event_key r \<and> item = event_item r')"
proof (induction ops arbitrary: R)
  case (Cons op ops)
  have "events_apply op R (event_key r) = R (event_key r) \<or>
      (\<exists>r'. event_key r' = event_key r \<and> events_apply op R (event_key r) = Some (event_item r'))"
    by (cases op) (auto simp: Let_def events_apply_simps dest: transition_key split: option.split)
  moreover from Cons.prems have "events_run ops (events_apply op R) (event_key r) = Some item" by simp
  ultimately show ?case using Cons.IH by fastforce
qed simp

lemma persisted_row: "PersistEvent r e \<in> set ops \<Longrightarrow> events_run ops R (event_key r) \<noteq> None"
proof (induction ops arbitrary: R)
  case (Cons op ops)
  show ?case
  proof (cases "op = PersistEvent r e")
    case True
    have "events_apply op R (event_key r) \<noteq> None" by (auto simp: True Let_def events_apply_simps)
    from row_kept [where R = "events_apply op R", OF this] show ?thesis by simp
  qed (use Cons in auto)
qed simp

text \<open>A put that met its key free stays; a key once written holds an event item.\<close>

lemma persisted_fresh:
  assumes "events_run xs R (event_key r) = None"
  shows "events_run (xs @ PersistEvent r e # zs) R (event_key r) = Some (event_item r)"
proof -
  have "events_apply (PersistEvent r e) (events_run xs R) (event_key r) = Some (event_item r)"
    using assms by (simp add: events_apply_simps Let_def)
  from row_unchanged [where R = "events_apply (PersistEvent r e) (events_run xs R)", OF this, of zs] show ?thesis by simp
qed

lemma persisted_item:
  assumes "PersistEvent r e \<in> set ops"
  shows "\<exists>item. events_run ops R (event_key r) = Some item \<and>
    (R (event_key r) = Some item \<or> (\<exists>r'. event_key r' = event_key r \<and> item = event_item r'))"
proof -
  obtain item where item: "events_run ops R (event_key r) = Some item" using persisted_row [OF assms, of R] by auto
  from event_row_origin [OF this] show ?thesis using item by blast
qed

text \<open>
  C12. An acknowledged notification is recorded: whatever other handlers write meanwhile, once
  \<open>persist_new\<close> has answered, both the roll-up and, after it, the guarded status move have been
  applied; a fresh answer means that the record's own item is stored, and either answer that the key holds
  the item it held before or the event item of a record with this key.
\<close>

theorem acknowledged_is_recorded:
  assumes "dynamo_contract C rows_of" and "persist_new C r e w = (Inr out, w')"
  shows "(\<exists>xs ys zs. rows_of w' = events_run (xs @ PersistEvent r e # ys @ MoveStatus r e # zs) (rows_of w)) \<and>
    (out = PersistedFresh \<longrightarrow> rows_of w' (event_key r) = Some (event_item r)) \<and>
    (\<exists>item. rows_of w' (event_key r) = Some item \<and>
      (rows_of w (event_key r) = Some item \<or> (\<exists>r'. event_key r' = event_key r \<and> item = event_item r')))"
  using assms
proof (cases rule: persist_new_run)
  case (Done out' xs ys zs)
  let ?ops = "xs @ PersistEvent r e # ys @ MoveStatus r e # zs"
  have "out = PersistedFresh \<longrightarrow> rows_of w' (event_key r) = Some (event_item r)"
    using Done(1,3) persisted_fresh [of xs "rows_of w" r e "ys @ MoveStatus r e # zs"] unfolding Done(2) by auto
  moreover have "\<exists>item. rows_of w' (event_key r) = Some item \<and>
      (rows_of w (event_key r) = Some item \<or> (\<exists>r'. event_key r' = event_key r \<and> item = event_item r'))"
    unfolding Done(2) by (rule persisted_item [of r e]) simp
  ultimately show ?thesis using Done(2) by blast
qed simp

section \<open>The status of a message\<close>

definition aggregate_key :: "string \<Rightarrow> string \<times> string" where
  "aggregate_key a = (event_partition a, AGGREGATE_SK)"

definition status_at :: "event_rows \<Rightarrow> string \<Rightarrow> stored_av option" where
  "status_at R a = Option.bind (R (aggregate_key a)) (\<lambda>i. i ''current_status'')"

text \<open>The SES ladder.\<close>

definition status_rank :: "stored_av option \<Rightarrow> nat" where
  "status_rank v = (if v = None then 0 else if v = Some (av_s ''sent'') then 1
     else if v = Some (av_s ''delivered'') then 2 else if v = Some (av_s ''complained'') then 3
     else if v = Some (av_s ''bounced'') then 4 else 5)"

fun op_record :: "events_op \<Rightarrow> event_record" where
  "op_record (PersistEvent r _) = r" | "op_record (MoveStatus r _) = r"

fun op_event :: "events_op \<Rightarrow> domain_event" where
  "op_event (PersistEvent _ e) = e" | "op_event (MoveStatus _ e) = e"

text \<open>The rung an event's write stands for: \<open>Send\<close>, a permanent \<open>Bounce\<close>, and the two moves.\<close>

fun op_rank :: "events_op \<Rightarrow> nat" where
  "op_rank (PersistEvent _ (EvSes n _)) = (case ses_kind n of
     KindSend \<Rightarrow> 1
   | KindBounce \<Rightarrow> (case ses_bounce n of Some b \<Rightarrow> if is_permanent b then 4 else 0 | None \<Rightarrow> 0)
   | _ \<Rightarrow> 0)"
| "op_rank (MoveStatus _ (EvSes n _)) = (case ses_kind n of KindDelivery \<Rightarrow> 2 | KindComplaint \<Rightarrow> 3 | _ \<Rightarrow> 0)"
| "op_rank _ = 0"

definition ops_of :: "string \<Rightarrow> events_op list \<Rightarrow> events_op set" where
  "ops_of a ops = {op \<in> set ops. rec_aggregate_id (op_record op) = a}"

definition ses_only :: "string \<Rightarrow> events_op list \<Rightarrow> bool" where
  "ses_only a ops \<longleftrightarrow> (\<forall>op \<in> ops_of a ops. \<exists>n raw. op_event op = EvSes n raw)"

text \<open>A notification's id and time stand for one content.\<close>

definition one_content :: "events_op list \<Rightarrow> bool" where
  "one_content ops \<longleftrightarrow> (\<forall>r e r' e'. PersistEvent r e \<in> set ops \<longrightarrow> PersistEvent r' e' \<in> set ops \<longrightarrow>
     event_key r = event_key r' \<longrightarrow> e = e')"

lemma event_key_not_aggregate [simp]: "event_key r \<noteq> aggregate_key a" "aggregate_key a \<noteq> event_key r"
  by (simp_all add: event_key_def aggregate_key_def event_sk_def EVENT_SK_PREFIX_def AGGREGATE_SK_def)

lemma aggregate_key_inject [simp]: "aggregate_key a = aggregate_key b \<longleftrightarrow> a = b"
  by (simp add: aggregate_key_def event_partition_def)

lemma event_key_aggregate: "event_key r = event_key r' \<Longrightarrow> rec_aggregate_id r = rec_aggregate_id r'"
  by (simp add: event_key_def event_partition_def)

lemma upd_key_simps:
  "upd_key (aggregate_update r e) = aggregate_key (rec_aggregate_id r)"
  "status_transition r e = Some u \<Longrightarrow> upd_key u = aggregate_key (rec_aggregate_id r)"
  by (auto simp: aggregate_update_def Let_def aggregate_key_def status_transition_def
      split: domain_event.splits option.splits)

lemma event_row_persisted:
  "events_run ops Map.empty (event_key r) \<noteq> None \<Longrightarrow> \<exists>r' e'. PersistEvent r' e' \<in> set ops \<and> event_key r' = event_key r"
proof (induction ops rule: rev_induct)
  case (snoc op ops)
  show ?case
  proof (cases "events_run ops Map.empty (event_key r) = None")
    case False
    with snoc.IH show ?thesis by auto
  next
    case True
    then obtain r' e' where "op = PersistEvent r' e'" "event_key r' = event_key r"
      using snoc.prems
      by (cases op) (auto simp: Let_def upd_key_simps events_apply_simps split: if_splits option.splits)
    then show ?thesis by auto
  qed
qed simp

text \<open>The aggregate after a write that took effect.\<close>

lemma aggregate_after:
  "events_apply (PersistEvent r e) R (aggregate_key a) =
     (if R (event_key r) = None \<and> rec_aggregate_id r = a
      then Some (apply_update (aggregate_update r e) (R (aggregate_key a))) else R (aggregate_key a))"
  "events_apply (MoveStatus r e) R (aggregate_key a) =
     (case status_transition r e of None \<Rightarrow> R (aggregate_key a)
      | Some u \<Rightarrow> if rec_aggregate_id r = a \<and> update_holds u (R (aggregate_key a))
          then Some (apply_update u (R (aggregate_key a))) else R (aggregate_key a))"
  by (auto simp: Let_def upd_key_simps events_apply_simps split: option.split)

lemma status_persist_ses:
  assumes "R (event_key r) = None" and "rec_aggregate_id r = a"
  shows "status_at (events_apply (PersistEvent r (EvSes n raw)) R) a = (case ses_kind n of
     KindSend \<Rightarrow> (case status_at R a of None \<Rightarrow> Some (av_s ''sent'') | Some v \<Rightarrow> Some v)
   | KindBounce \<Rightarrow> (case ses_bounce n of
        Some b \<Rightarrow> if is_permanent b then Some (av_s ''bounced'') else status_at R a | None \<Rightarrow> status_at R a)
   | _ \<Rightarrow> status_at R a)"
  using assms
  by (cases "R (aggregate_key a)")
    (simp_all add: status_at_def aggregate_after apply_update_def aggregate_update_def Let_def event_clauses_def
      ses_clauses_def overwrite_status_def status_if_unset_def split: ses_event_kind.split option.split)

lemma rank_step:
  assumes "rec_aggregate_id (op_record op) = a" and "op_event op = EvSes n raw"
    and "\<And>r e. op = PersistEvent r e \<Longrightarrow> R (event_key r) = None" and "status_rank (status_at R a) \<le> 4"
  shows "status_rank (status_at (events_apply op R) a) = max (op_rank op) (status_rank (status_at R a))"
proof (cases op)
  case (PersistEvent r e)
  with assms have "R (event_key r) = None" "rec_aggregate_id r = a" "e = EvSes n raw" by auto
  note status_persist_ses [where R = R and n = n and raw = raw, OF this(1,2)]
  with PersistEvent assms(4) \<open>e = _\<close> show ?thesis
    by (cases "status_at R a")
      (auto simp: status_rank_def max_def split: ses_event_kind.split option.split if_splits)
next
  case (MoveStatus r e)
  with assms have r: "rec_aggregate_id r = a" "e = EvSes n raw" by auto
  show ?thesis
    using assms(4)
    by (cases "R (aggregate_key a)"; cases "ses_kind n")
      (auto simp: MoveStatus r status_at_def aggregate_after status_transition_def apply_update_def update_holds_def
        overwrite_status_def status_rank_def max_def Let_def split: option.splits if_splits)
qed

lemma status_other:
  "rec_aggregate_id (op_record op) \<noteq> a \<Longrightarrow> status_at (events_apply op R) a = status_at R a"
  by (cases op) (auto simp: status_at_def aggregate_after split: option.split)

lemma duplicate_rank:
  assumes "events_run ops Map.empty (event_key r) \<noteq> None" and "one_content (ops @ [PersistEvent r (EvSes n raw)])"
  shows "op_rank (PersistEvent r (EvSes n raw)) \<in> op_rank ` ops_of (rec_aggregate_id r) ops"
proof -
  obtain r' e' where r': "PersistEvent r' e' \<in> set ops" "event_key r' = event_key r"
    using event_row_persisted [OF assms(1)] by blast
  then have "e' = EvSes n raw" using assms(2) unfolding one_content_def by auto
  then have "op_rank (PersistEvent r (EvSes n raw)) = op_rank (PersistEvent r' e')" by simp
  moreover have "PersistEvent r' e' \<in> ops_of (rec_aggregate_id r) ops"
    using r' event_key_aggregate [OF r'(2)] by (simp add: ops_of_def)
  ultimately show ?thesis by (rule image_eqI)
qed

lemma rank_after:
  assumes "op_event op = EvSes n raw" and "rec_aggregate_id (op_record op) = a" and "one_content (ops @ [op])"
    and ih: "status_rank (status_at (events_run ops Map.empty) a) = Max (insert 0 (op_rank ` ops_of a ops))"
  shows "status_rank (status_at (events_apply op (events_run ops Map.empty)) a) =
    max (op_rank op) (Max (insert 0 (op_rank ` ops_of a ops)))"
proof -
  let ?R = "events_run ops Map.empty" and ?ranks = "insert 0 (op_rank ` ops_of a ops)"
  have fin: "finite ?ranks" by (simp add: ops_of_def)
  have le: "op_rank op' \<le> 4" for op'
    by (cases op' rule: op_rank.cases) (auto split: ses_event_kind.split option.split)
  then have le4: "status_rank (status_at ?R a) \<le> 4" unfolding ih using fin by simp
  show ?thesis
  proof (cases "\<exists>r e. op = PersistEvent r e \<and> ?R (event_key r) \<noteq> None")
    case False
    then have "op = PersistEvent r e \<Longrightarrow> ?R (event_key r) = None" for r e by blast
    from rank_step [where R = ?R, OF assms(2,1) this le4] show ?thesis unfolding ih .
  next
    case True
    then obtain r where op: "op = PersistEvent r (EvSes n raw)" "?R (event_key r) \<noteq> None" using assms(1) by auto
    then have "op_rank op \<in> ?ranks" using duplicate_rank assms(2,3) by auto
    then have "op_rank op \<le> Max ?ranks" using fin by simp
    moreover have "events_apply op ?R = ?R" using op by (simp add: events_apply_simps)
    ultimately show ?thesis using ih by simp
  qed
qed

text \<open>
  C13. The status of a sent message is the highest rung any of its SES events has reached, so it never
  moves back: in whatever order events arrive, however often each is delivered, and however the writes of
  the handlers interleave.
\<close>

theorem status_is_highest:
  assumes "ses_only a ops" and "one_content ops"
  shows "status_rank (status_at (events_run ops Map.empty) a) = Max (insert 0 (op_rank ` ops_of a ops))"
  using assms
proof (induction ops rule: rev_induct)
  case Nil
  show ?case by (simp add: ops_of_def status_at_def status_rank_def)
next
  case (snoc op ops)
  have ih: "status_rank (status_at (events_run ops Map.empty) a) = Max (insert 0 (op_rank ` ops_of a ops))"
    using snoc.prems by (intro snoc.IH) (auto simp: ses_only_def ops_of_def one_content_def)
  show ?case
  proof (cases "rec_aggregate_id (op_record op) = a")
    case False
    then have "ops_of a (ops @ [op]) = ops_of a ops" by (auto simp: ops_of_def)
    with ih status_other [OF False] show ?thesis by simp
  next
    case True
    then have ops: "ops_of a (ops @ [op]) = insert op (ops_of a ops)" by (auto simp: ops_of_def)
    have "Max (insert 0 (op_rank ` ops_of a (ops @ [op]))) =
        max (op_rank op) (Max (insert 0 (op_rank ` ops_of a ops)))"
      unfolding ops image_insert insert_commute [of 0] by (intro Max_insert) (auto simp: ops_of_def)
    moreover obtain n raw where "op_event op = EvSes n raw"
      using snoc.prems(1) ops by (auto simp: ses_only_def)
    ultimately show ?thesis using rank_after [OF _ True snoc.prems(2) ih] by simp
  qed
qed

section \<open>The engagement counts\<close>

definition COUNTS :: "string list" where
  "COUNTS = [''open_count'', ''bot_open_count'', ''click_count'', ''bot_click_count'']"

definition counts :: "event_record \<Rightarrow> domain_event \<Rightarrow> string option" where
  "counts r e = upd_add (aggregate_update r e)"

definition count_at :: "event_rows \<Rightarrow> string \<Rightarrow> string \<Rightarrow> nat" where
  "count_at R a name = (case R (aggregate_key a) of None \<Rightarrow> 0 | Some i \<Rightarrow> count_in i name)"

definition counted_events :: "string \<Rightarrow> string \<Rightarrow> events_op list \<Rightarrow> (string \<times> string) set" where
  "counted_events a name ops = {event_key r |r e. PersistEvent r e \<in> set ops \<and> rec_aggregate_id r = a \<and> counts r e = Some name}"

lemma counts_other: "counts r e = counts r' e"
  by (simp add: counts_def aggregate_update_def event_clauses_def ses_clauses_def Let_def
      split: domain_event.split ses_event_kind.split)

lemma fold_set_value:
  "\<forall>c \<in> set cs. (case c of SetTo n _ \<Rightarrow> n | SetIfNotExists n _ \<Rightarrow> n) \<noteq> name \<Longrightarrow> fold (set_value old) cs new name = new name"
  by (induction cs arbitrary: new) (auto split: set_clause.splits option.split)

lemma update_count:
  assumes "name \<in> set COUNTS"
    and "\<forall>c \<in> set (upd_set u). (case c of SetTo n _ \<Rightarrow> n | SetIfNotExists n _ \<Rightarrow> n) \<notin> set COUNTS"
  shows "count_in (apply_update u before) name =
    (case before of None \<Rightarrow> 0 | Some i \<Rightarrow> count_in i name) + (if upd_add u = Some name then 1 else 0)"
proof -
  define old where "old = (case before of None \<Rightarrow> [''pk'' \<mapsto> av_s (fst (upd_key u)), ''sk'' \<mapsto> av_s (snd (upd_key u))]
    | Some item \<Rightarrow> item)"
  have "fold (set_value old) (upd_set u) old name = old name"
    using assms by (intro fold_set_value) auto
  moreover have "count_in old name = (case before of None \<Rightarrow> 0 | Some i \<Rightarrow> count_in i name)"
    using assms(1) by (auto simp: old_def count_in_def COUNTS_def split: option.split)
  moreover have "parse_digits (dec k) = Some k" for k by (rule parse_digits_radix)
  ultimately show ?thesis
    by (auto simp: apply_update_def old_def [symmetric] count_in_def Let_def split: option.split)
qed

lemma update_sets:
  "c \<in> set (upd_set (aggregate_update r e)) \<Longrightarrow> (case c of SetTo n _ \<Rightarrow> n | SetIfNotExists n _ \<Rightarrow> n) \<notin> set COUNTS"
  "status_transition r e = Some u \<Longrightarrow> c \<in> set (upd_set u) \<Longrightarrow>
     (case c of SetTo n _ \<Rightarrow> n | SetIfNotExists n _ \<Rightarrow> n) \<notin> set COUNTS"
  by (auto simp: aggregate_update_def event_clauses_def ses_clauses_def overwrite_status_def status_if_unset_def
      COUNTS_def status_transition_def Let_def
      split: domain_event.splits ses_event_kind.splits option.splits if_splits)

lemma transition_adds_nothing: "status_transition r e = Some u \<Longrightarrow> upd_add u = None"
  by (auto simp: status_transition_def split: domain_event.splits option.splits)

lemma counted_finite: "finite (counted_events a name ops)"
proof (rule finite_subset)
  show "counted_events a name ops \<subseteq> (event_key \<circ> op_record) ` set ops" by (force simp: counted_events_def)
qed simp

lemma counted_snoc:
  "counted_events a name (ops @ [MoveStatus r e]) = counted_events a name ops"
  "counted_events a name (ops @ [PersistEvent r e]) =
     (if rec_aggregate_id r = a \<and> counts r e = Some name then insert (event_key r) (counted_events a name ops)
      else counted_events a name ops)"
  by (auto simp: counted_events_def)

text \<open>A notification is counted already exactly when its item is there.\<close>

lemma counted_iff_row:
  assumes "one_content (ops @ [PersistEvent r e])" and "rec_aggregate_id r = a" and "counts r e = Some name"
  shows "event_key r \<in> counted_events a name ops \<longleftrightarrow> events_run ops Map.empty (event_key r) \<noteq> None"
proof
  assume "event_key r \<in> counted_events a name ops"
  then obtain r' e' where r': "PersistEvent r' e' \<in> set ops" "event_key r' = event_key r"
    by (auto simp: counted_events_def)
  from persisted_row [OF r'(1), of Map.empty] show "events_run ops Map.empty (event_key r) \<noteq> None"
    by (simp add: r'(2))
next
  assume "events_run ops Map.empty (event_key r) \<noteq> None"
  from event_row_persisted [OF this] obtain r' e' where r': "PersistEvent r' e' \<in> set ops"
    "event_key r' = event_key r" by blast
  then have "e' = e" using assms(1) unfolding one_content_def by auto
  then show "event_key r \<in> counted_events a name ops"
    using r' event_key_aggregate [OF r'(2)] assms(2,3) counts_other [of r' e r]
    unfolding counted_events_def by (auto intro!: exI [of _ r'])
qed

lemma count_after:
  assumes "name \<in> set COUNTS"
  shows "count_at (events_apply (MoveStatus r e) R) a name = count_at R a name"
    and "count_at (events_apply (PersistEvent r e) R) a name = count_at R a name +
      (if rec_aggregate_id r = a \<and> counts r e = Some name \<and> R (event_key r) = None then 1 else 0)"
proof -
  show "count_at (events_apply (MoveStatus r e) R) a name = count_at R a name"
    using update_count [OF assms, of _ "R (aggregate_key a)"] update_sets(2) transition_adds_nothing
    by (auto simp: count_at_def aggregate_after split: option.split)
  show "count_at (events_apply (PersistEvent r e) R) a name = count_at R a name +
      (if rec_aggregate_id r = a \<and> counts r e = Some name \<and> R (event_key r) = None then 1 else 0)"
    using update_count [OF assms, of "aggregate_update r e" "R (aggregate_key a)"] update_sets(1)
    by (auto simp: count_at_def aggregate_after counts_def split: option.split)
qed

lemma counted_total:
  assumes "one_content ops" and "name \<in> set COUNTS"
  shows "count_at (events_run ops Map.empty) a name = card (counted_events a name ops)"
  using assms(1)
proof (induction ops rule: rev_induct)
  case Nil
  show ?case by (simp add: count_at_def counted_events_def)
next
  case (snoc op ops)
  have "one_content ops" using snoc.prems by (auto simp: one_content_def)
  note ih = snoc.IH [OF this]
  show ?case
  proof (cases op)
    case (MoveStatus r e)
    with ih show ?thesis by (simp add: counted_snoc count_after [OF assms(2)])
  next
    case (PersistEvent r e)
    note row = counted_iff_row [OF snoc.prems [unfolded PersistEvent]]
    with ih show ?thesis
      by (auto simp: PersistEvent counted_snoc count_after [OF assms(2)] counted_finite insert_absorb)
  qed
qed

text \<open>
  What SNS documents of redelivery: a notification's message id identifies it, so that a redelivery has the
  id, the time and the message of the first delivery, and an id is a UUID, without \<open>#\<close>. What differs is
  when it was received. The aggregate of a record is the one its event names.
\<close>

definition redeliveries :: "events_op list \<Rightarrow> bool" where
  "redeliveries ops \<longleftrightarrow> (\<forall>r e r' e'. PersistEvent r e \<in> set ops \<longrightarrow> PersistEvent r' e' \<in> set ops \<longrightarrow>
     rec_aggregate_id r = aggregate_id e (rec_sns_message_id r) \<and> CHR ''#'' \<notin> set (rec_sns_message_id r) \<and>
     (rec_sns_message_id r = rec_sns_message_id r' \<longrightarrow> rec_event_timestamp r = rec_event_timestamp r' \<and> e = e'))"

text \<open>The ids of the SES notifications of a message, of one kind.\<close>

definition ses_ids :: "string \<Rightarrow> (ses_notification \<Rightarrow> bool) \<Rightarrow> events_op list \<Rightarrow> string set" where
  "ses_ids a P ops = {rec_sns_message_id r |r n raw. PersistEvent r (EvSes n raw) \<in> set ops \<and> rec_aggregate_id r = a \<and> P n}"

definition by_bot :: "ses_engagement option \<Rightarrow> bool" where
  "by_bot engagement \<longleftrightarrow> (\<exists>e. engagement = Some e \<and> eng_is_bot_event e = Some Likely)"

lemma last_separator:
  assumes "xs @ c # ys = xs' @ c # ys'" and "c \<notin> set ys" and "c \<notin> set ys'"
  shows "ys = ys'"
proof -
  have "rev ys @ c # rev xs = rev ys' @ c # rev xs'" using arg_cong [OF assms(1), of rev] by simp
  with separator_unique [of c "rev ys" "rev ys'"] assms(2,3) show ?thesis by simp
qed

lemma card_image_agree:
  assumes "\<And>x y. x \<in> A \<Longrightarrow> y \<in> A \<Longrightarrow> f x = f y \<longleftrightarrow> g x = g y"
  shows "card (f ` A) = card (g ` A)"
proof (rule bij_betw_same_card)
  let ?h = "\<lambda>k. g (inv_into A f k)"
  have h: "?h (f x) = g x" if "x \<in> A" for x
    using assms that inv_into_into [of "f x" f A] f_inv_into_f [of "f x" f A] by blast
  show "bij_betw ?h (f ` A) (g ` A)" unfolding bij_betw_def
    using h assms by (auto simp: inj_on_def image_image intro!: image_cong)
qed

lemma redelivered_key:
  assumes "redeliveries ops" and "PersistEvent r e \<in> set ops" and "PersistEvent r' e' \<in> set ops"
  shows "event_key r = event_key r' \<longleftrightarrow> rec_sns_message_id r = rec_sns_message_id r'"
proof
  assume same: "rec_sns_message_id r = rec_sns_message_id r'"
  with assms have "rec_event_timestamp r = rec_event_timestamp r'" "e = e'" unfolding redeliveries_def by blast+
  moreover have "rec_aggregate_id r = aggregate_id e (rec_sns_message_id r)" "rec_aggregate_id r' = aggregate_id e' (rec_sns_message_id r')"
    using assms unfolding redeliveries_def by blast+
  ultimately show "event_key r = event_key r'" using same by (simp add: event_key_def)
next
  assume "event_key r = event_key r'"
  then have "rec_event_timestamp r @ CHR ''#'' # rec_sns_message_id r = rec_event_timestamp r' @ CHR ''#'' # rec_sns_message_id r'"
    by (simp add: event_key_def event_sk_def)
  moreover have "CHR ''#'' \<notin> set (rec_sns_message_id r)" "CHR ''#'' \<notin> set (rec_sns_message_id r')"
    using assms unfolding redeliveries_def by blast+
  ultimately show "rec_sns_message_id r = rec_sns_message_id r'" by (rule last_separator)
qed

lemma redelivered_content: "redeliveries ops \<Longrightarrow> one_content ops"
  unfolding one_content_def using redelivered_key by (metis redeliveries_def)

lemma counted_card:
  assumes "redeliveries ops" and "\<And>r e. counts r e = Some name \<longleftrightarrow> (\<exists>n raw. e = EvSes n raw \<and> P n)"
  shows "card (counted_events a name ops) = card (ses_ids a P ops)"
proof -
  let ?rs = "{r. \<exists>n raw. PersistEvent r (EvSes n raw) \<in> set ops \<and> rec_aggregate_id r = a \<and> P n}"
  have "counted_events a name ops = event_key ` ?rs" and ids: "ses_ids a P ops = rec_sns_message_id ` ?rs"
    by (auto simp: counted_events_def ses_ids_def assms(2))
  moreover have "card (event_key ` ?rs) = card (rec_sns_message_id ` ?rs)"
    by (rule card_image_agree) (use redelivered_key [OF assms(1)] in blast)
  ultimately show ?thesis by simp
qed

lemma counts_iff:
  "counts r e = Some ''open_count'' \<longleftrightarrow> (\<exists>n raw. e = EvSes n raw \<and> ses_kind n = KindOpen \<and> \<not> by_bot (ses_open n))"
  "counts r e = Some ''bot_open_count'' \<longleftrightarrow> (\<exists>n raw. e = EvSes n raw \<and> ses_kind n = KindOpen \<and> by_bot (ses_open n))"
  "counts r e = Some ''click_count'' \<longleftrightarrow> (\<exists>n raw. e = EvSes n raw \<and> ses_kind n = KindClick \<and> \<not> by_bot (ses_click n))"
  "counts r e = Some ''bot_click_count'' \<longleftrightarrow> (\<exists>n raw. e = EvSes n raw \<and> ses_kind n = KindClick \<and> by_bot (ses_click n))"
  by (auto simp: counts_def aggregate_update_def event_clauses_def ses_clauses_def by_bot_def is_bot_def Let_def
      split: domain_event.splits ses_event_kind.splits option.splits bot_flag.splits if_splits)

text \<open>
  C14. Opens and clicks count once each. However often SNS delivers each notification, and in whatever
  order, the four counters of a message are the numbers of different SNS message ids of its open and of
  its click notifications, those SES flags as likely bots apart from the others.
\<close>

theorem each_event_counts_once:
  fixes a :: string
  assumes "redeliveries ops"
  defines "count \<equiv> count_at (events_run ops Map.empty) a"
  shows "count ''open_count'' = card (ses_ids a (\<lambda>n. ses_kind n = KindOpen \<and> \<not> by_bot (ses_open n)) ops) \<and>
    count ''bot_open_count'' = card (ses_ids a (\<lambda>n. ses_kind n = KindOpen \<and> by_bot (ses_open n)) ops) \<and>
    count ''click_count'' = card (ses_ids a (\<lambda>n. ses_kind n = KindClick \<and> \<not> by_bot (ses_click n)) ops) \<and>
    count ''bot_click_count'' = card (ses_ids a (\<lambda>n. ses_kind n = KindClick \<and> by_bot (ses_click n)) ops)"
proof -
  note total = counted_total [OF redelivered_content [OF assms(1)]]
  show ?thesis
    unfolding count_def using counted_card [OF assms(1) counts_iff(1)] counted_card [OF assms(1) counts_iff(2)]
      counted_card [OF assms(1) counts_iff(3)] counted_card [OF assms(1) counts_iff(4)]
    by (simp add: total COUNTS_def)
qed

section \<open>A table of its own\<close>

text \<open>A client that is DynamoDB alone, with no other writer and no failure, keeps the contract.\<close>

definition plain_client :: "event_rows events_client" where
  "plain_client =
     \<lparr>ec_transact = \<lambda>p u R.
        if \<not> put_holds p R then (Inl (TransactCancelled [Some ''ConditionalCheckFailed'', Some ''None'']), R)
        else if \<not> update_holds u (R (upd_key u))
          then (Inl (TransactCancelled [Some ''None'', Some ''ConditionalCheckFailed'']), R)
        else (Inr (), transact_apply p u R),
      ec_update_item = \<lambda>u R. if update_holds u (R (upd_key u))
        then (Inr (), update_apply u R) else (Inl UpdateConditionFailed, R)\<rparr>"

lemma plain_client_contract: "dynamo_contract plain_client (\<lambda>R. R)"
proof -
  have "transact_answer res p u (events_run [] R) R'" if "ec_transact plain_client p u R = (res, R')" for p u R res R'
    using that by (auto simp: plain_client_def split: if_splits)
  moreover have "update_answer res u (events_run [] R) R'" if "ec_update_item plain_client u R = (res, R')" for u R res R'
    using that by (auto simp: plain_client_def split: if_splits)
  ultimately show ?thesis unfolding dynamo_contract_def by (metis events_run_Nil)
qed

definition sample_record :: "string \<Rightarrow> event_record" where
  "sample_record sns_id =
     \<lparr>rec_aggregate_id = ''m'', rec_event_timestamp = ''t'', rec_sns_message_id = sns_id, rec_raw_body = [],
      rec_source = Some SesEvents, rec_detail_type = ''d'', rec_topic_arn = ''a'', rec_received_at = ''t'',
      rec_expires_at = 1, rec_aggregate_expires_at = 1\<rparr>"

definition sample_ses :: "ses_event_kind \<Rightarrow> ses_notification" where
  "sample_ses kind =
     \<lparr>ses_kind = kind, ses_mail = \<lparr>sml_message_id = ''m'', sml_source = None, sml_destination = [], sml_timestamp = None,
        sml_common_headers = None\<rparr>,
      ses_bounce = None, ses_complaint = None, ses_delivery = None, ses_reject = None, ses_open = None, ses_click = None\<rparr>"

definition sample_ops :: "events_op list" where
  "sample_ops =
     [MoveStatus (sample_record ''2'') (EvSes (sample_ses KindComplaint) JNull),
      PersistEvent (sample_record ''1'') (EvSes (sample_ses KindOpen) JNull),
      MoveStatus (sample_record ''3'') (EvSes (sample_ses KindDelivery) JNull),
      PersistEvent (sample_record ''1'') (EvSes (sample_ses KindOpen) JNull),
      PersistEvent (sample_record ''4'') (EvSes (sample_ses KindSend) JNull)]"

lemma sample_ops_content: "one_content sample_ops"
  by (auto simp: one_content_def sample_ops_def event_key_def event_sk_def sample_record_def)

theorem acknowledged_is_recorded_witness:
  "\<exists>out w'. persist_new plain_client (sample_record ''1'') (EvSes (sample_ses KindDelivery) JNull) Map.empty = (Inr out, w') \<and>
     w' (event_key (sample_record ''1'')) \<noteq> None"
proof -
  have "\<exists>out w'. persist_new plain_client (sample_record ''1'') (EvSes (sample_ses KindDelivery) JNull) Map.empty =
      (Inr out, w')"
    by (auto simp: persist_new_def apply_status_transition_def plain_client_def
        split: option.split prod.split sum.split update_error.split if_splits)
  then obtain out w' where run: "persist_new plain_client (sample_record ''1'')
      (EvSes (sample_ses KindDelivery) JNull) Map.empty = (Inr out, w')" by blast
  with acknowledged_is_recorded [OF plain_client_contract run] show ?thesis by blast
qed

theorem status_is_highest_witness:
  "status_rank (status_at (events_run sample_ops Map.empty) ''m'') = 3"
proof -
  have "ops_of ''m'' sample_ops = set sample_ops" by (auto simp: ops_of_def sample_ops_def sample_record_def)
  moreover have "ses_only ''m'' sample_ops" by (auto simp: ses_only_def ops_of_def sample_ops_def)
  ultimately show ?thesis
    using status_is_highest [OF _ sample_ops_content, of "''m''"] by (simp add: sample_ops_def sample_ses_def)
qed

theorem each_event_counts_once_witness:
  "count_at (events_run sample_ops Map.empty) ''m'' ''open_count'' = 1"
proof -
  have "redeliveries sample_ops"
    by (auto simp: redeliveries_def sample_ops_def sample_record_def sample_ses_def)
  moreover have "ses_ids ''m'' (\<lambda>n. ses_kind n = KindOpen \<and> \<not> by_bot (ses_open n)) sample_ops = {''1''}"
  proof
    let ?n = "sample_ses KindOpen"
    have "PersistEvent (sample_record ''1'') (EvSes ?n JNull) \<in> set sample_ops" by (simp add: sample_ops_def)
    moreover have "rec_aggregate_id (sample_record ''1'') = ''m''" "rec_sns_message_id (sample_record ''1'') = ''1''"
      "ses_kind ?n = KindOpen" "\<not> by_bot (ses_open ?n)" by (simp_all add: sample_record_def sample_ses_def by_bot_def)
    ultimately show "{''1''} \<subseteq> ses_ids ''m'' (\<lambda>n. ses_kind n = KindOpen \<and> \<not> by_bot (ses_open n)) sample_ops"
      unfolding ses_ids_def by force
  qed (auto simp: ses_ids_def sample_ops_def sample_record_def sample_ses_def)
  ultimately show ?thesis using each_event_counts_once [of sample_ops "''m''"] by simp
qed

end
