(* ===== verification/Quiet.thy ===== *)
theory Quiet
  imports Flows
begin

text \<open>
  What the flows of \<open>crates/mailbox-store/src/mailbox.rs\<close> return when no other writer is at
  work and the store answers: every branch of a flow as a function of the rows.
\<close>

section \<open>Alias rows\<close>

definition candidates_ok :: "mail_message \<Rightarrow> string list \<Rightarrow> bool" where
  "candidates_ok msg candidates \<longleftrightarrow> distinct candidates \<and>
     list_all (\<lambda>c. strip_angle_brackets c = c) candidates \<and>
     (strip_angle_brackets (msg_rfc_message_id msg) = [] \<or>
      strip_angle_brackets (msg_rfc_message_id msg) \<in> set candidates)"

lemma by_id_fold:
  "distinct ids \<Longrightarrow>
     fold (\<lambda>i (rest, m). case rest (rfc_alias_key inbox i) of
         None \<Rightarrow> (rest, m)
       | Some hit \<Rightarrow> (rest(rfc_alias_key inbox i := None), m(i \<mapsto> hit))) ids (rest, m) =
     (\<lambda>k. if \<exists>i \<in> set ids. k = rfc_alias_key inbox i then None else rest k,
      \<lambda>i. if i \<in> set ids \<and> rest (rfc_alias_key inbox i) \<noteq> None
           then rest (rfc_alias_key inbox i) else m i)"
proof (induction ids arbitrary: rest m)
  case (Cons a ids)
  then show ?case
    by (cases "rest (rfc_alias_key inbox a)") (auto simp: fun_eq_iff)
qed auto

lemma by_id_eq:
  "distinct ids \<Longrightarrow>
     by_id inbox found ids = (\<lambda>i. if i \<in> set ids then found (rfc_alias_key inbox i) else None)"
  unfolding by_id_def by (subst by_id_fold) (auto simp: fun_eq_iff)

text \<open>The alias rows a message's candidates resolve to.\<close>

definition aliases_of :: "rows \<Rightarrow> inbox_id \<Rightarrow> string list \<Rightarrow> alias_lookup" where
  "aliases_of R inbox candidates =
     \<lparr>al_candidates = candidates,
      al_found = (\<lambda>c. if c \<in> set candidates then alias_at R inbox c else None)\<rparr>"

definition joined :: "rows \<Rightarrow> mail_message \<Rightarrow> string list \<Rightarrow> mail_message" where
  "joined R msg candidates = msg\<lparr>msg_thread_id :=
     (case alias_thread_id (aliases_of R (msg_inbox_id msg) candidates) of
        None \<Rightarrow> msg_thread_id msg | Some t \<Rightarrow> t)\<rparr>"

lemma joined_simps [simp]:
  "msg_inbox_id (joined R msg cs) = msg_inbox_id msg"
  "msg_message_id (joined R msg cs) = msg_message_id msg"
  "msg_rfc_message_id (joined R msg cs) = msg_rfc_message_id msg"
  "msg_labels (joined R msg cs) = msg_labels msg"
  "message_ok (joined R msg cs) = message_ok msg"
  "msg_direction (joined R msg cs) = msg_direction msg"
  by (simp_all add: joined_def message_ok_def)

lemma alias_holds:
  "op_holds R (PlannedOp role (AliasFirstWriter (tk_pk k) (tk_sk k) mid tid e)) \<longleftrightarrow>
     (case R k of None \<Rightarrow> True | Some i \<Rightarrow> mid \<noteq> None \<and> i ''message_id'' = None)"
  by (simp add: op_holds_def)

lemma rfc_hit_placeholder:
  "alias_reads i hit \<Longrightarrow> hit_message_id hit = None \<longleftrightarrow> i ''message_id'' = None"
  by (auto simp: alias_reads_def rfc_hit_of_item_def bind_eq_Some_conv opt_def rd_message_id_def
      split: option.splits attribute_value.splits)

lemma alias_readsD: "alias_reads i hit \<Longrightarrow> rfc_hit_of_item i = Some hit"
  by (simp add: alias_reads_def)

lemma insert_aliases_hold:
  assumes wf: "aliases_wf R" and plain: "plain_inbox (msg_inbox_id msg)"
    and cands: "candidates_ok msg candidates"
    and al: "al = aliases_of R (msg_inbox_id msg) candidates"
  shows "txn_ok R (drop 2 (plan_insert msg before after al))"
proof -
  let ?own = "strip_angle_brackets (msg_rfc_message_id msg)"
  have row: "R (rfc_alias_key (msg_inbox_id msg) c) = None"
    if "al_found al c = None" "c \<in> set candidates" for c
  proof (rule ccontr)
    assume "R (rfc_alias_key (msg_inbox_id msg) c) \<noteq> None"
    then obtain it where it: "R (rfc_alias_key (msg_inbox_id msg) c) = Some it" by auto
    from aliases_wfD [OF wf plain it] that it show False
      by (auto simp: al aliases_of_def alias_at_def dest: alias_readsD)
  qed
  have own: "txn_ok R (put_alias msg (msg_rfc_message_id msg) (Some (msg_message_id msg)))"
    if "?own \<noteq> []" "is_claimable al ?own"
  proof -
    have mem: "?own \<in> set candidates" using cands that(1) by (simp add: candidates_ok_def)
    have "case R (rfc_alias_key (msg_inbox_id msg) ?own) of None \<Rightarrow> True
        | Some i \<Rightarrow> i ''message_id'' = None"
    proof (cases "R (rfc_alias_key (msg_inbox_id msg) ?own)")
      case (Some it)
      from aliases_wfD [OF wf plain Some] obtain hit where hit: "alias_reads it hit" by blast
      then have "alias_at R (msg_inbox_id msg) ?own = Some hit" by (simp add: alias_at_def Some alias_readsD)
      with that(2) mem have "hit_message_id hit = None" by (auto simp: is_claimable_def al aliases_of_def)
      with rfc_hit_placeholder [OF hit] Some show ?thesis by simp
    qed simp
    then show ?thesis
      by (auto simp: put_alias_def Let_def alias_holds split: option.splits)
  qed
  have "txn_ok R (put_alias msg c None)" if "c \<in> set candidates" "al_found al c = None" for c
    using row [OF that(2,1)] that cands
    by (auto simp: put_alias_def Let_def alias_holds candidates_ok_def list_all_iff)
  then have "list_all (\<lambda>c. txn_ok R (if c \<noteq> ?own \<and> al_found al c = None then put_alias msg c None else []))
      candidates"
    by (simp add: list_all_iff)
  then have "txn_ok R (concat (map (\<lambda>c. if c \<noteq> ?own \<and> al_found al c = None
      then put_alias msg c None else []) candidates))"
    by (induction candidates) auto
  with own show ?thesis
    by (simp add: plan_insert_def Let_def al aliases_of_def)
qed

section \<open>Ingest\<close>

lemma thread_for_versioned:
  assumes "threads_wf pp R" and "before = thread_at R (msg_inbox_id msg) (msg_thread_id msg)"
  shows "thread_read R (msg_inbox_id msg) (msg_thread_id msg) before"
    and "cond_ok (R (thread_key (msg_inbox_id msg) (msg_thread_id msg)))
      (versioned (map_option thr_version before))"
proof -
  let ?k = "thread_key (msg_inbox_id msg) (msg_thread_id msg)"
  have "thread_read R (msg_inbox_id msg) (msg_thread_id msg) before \<and>
    cond_ok (R ?k) (versioned (map_option thr_version before))"
  proof (cases "R ?k")
    case None
    then show ?thesis by (simp add: assms(2) thread_at_def thread_read_def versioned_def)
  next
    case (Some it)
    then obtain th where "thread_of_item it = Some th"
      using assms(1) unfolding threads_wf_def by blast
    with Some show ?thesis
      by (simp add: assms(2) thread_at_def thread_read_def versioned_def thread_of_item_number)
  qed
  then show "thread_read R (msg_inbox_id msg) (msg_thread_id msg) before"
    and "cond_ok (R ?k) (versioned (map_option thr_version before))" by simp_all
qed

lemma insert_commits:
  assumes wf: "table_wf pp R" and msg: "message_ok msg" and cands: "candidates_ok msg candidates"
    and new: "R (message_key (msg_inbox_id msg) (msg_message_id msg)) = None"
    and before: "before = thread_at R (msg_inbox_id msg) (msg_thread_id msg)"
  shows "txn_ok R (plan_insert msg before (thread_for pp msg before)
    (aliases_of R (msg_inbox_id msg) candidates))" (is "txn_ok R ?ops")
proof -
  have parts: "messages_wf R" "threads_wf pp R" "aliases_wf R" using wf by (simp_all add: table_wf_def)
  note th = thread_for_ok(1,2) [OF parts(2) thread_for_versioned(1) [OF parts(2) before]]
  define rest where "rest = drop 2 ?ops"
  have rest: "txn_ok R rest"
    using msg unfolding rest_def
    by (intro insert_aliases_hold [OF parts(3) _ cands refl]) (simp add: message_ok_def)
  have "?ops = put_message (stored_message msg (thread_for pp msg before)) CondNotExists #
      put_thread (thread_for pp msg before) (versioned (map_option thr_version before)) # rest"
    by (simp add: rest_def plan_insert_def Let_def)
  then show ?thesis
    using new thread_for_versioned(2) [OF parts(2) before] th rest by simp
qed

lemma insert_duplicate_decision:
  assumes "R (message_key (msg_inbox_id msg) (msg_message_id msg)) \<noteq> None"
  shows "\<not> txn_ok R (plan_insert msg before after al)"
    and "cancel_decision R (plan_insert msg before after al) = Duplicate"
proof -
  obtain as where plan: "plan_insert msg before after al =
      put_message (stored_message msg after) CondNotExists #
      put_thread after (versioned (map_option thr_version before)) # as"
    and as: "list_all (alias_op_for msg) as" by (rule insert_shape)
  show "\<not> txn_ok R (plan_insert msg before after al)"
    using assms by (simp add: plan)
  have roles: "op_role op \<noteq> RoleIdempotencyKey" if "op \<in> set (plan_insert msg before after al)" for op
    using that
    by (auto simp: plan_insert_def Let_def put_message_def put_thread_def put_alias_def
        split: if_splits)
  have "put_message (stored_message msg after) CondNotExists \<in>
      set (failed_ops (op_holds R) (plan_insert msg before after al))"
    using assms by (simp add: plan failed_ops_def)
  then show "cancel_decision R (plan_insert msg before after al) = Duplicate"
    using roles unfolding cancel_decision_def decode_failed_def
    by (auto simp: list_ex_iff failed_ops_def put_message_def)
qed

context quiet_table
begin

lemma quiet_get_as:
  assumes "quiet s"
  obtains s' where "get_as T of_item k r s = (decode of_item (rows_of s k), s')"
    and "rows_of s' = rows_of s" and "quiet s'"
  using quiet_get [OF assms, of k r] by (auto simp: get_as_def try_io_def)

lemma quiet_read_thread:
  assumes "quiet s" and "threads_wf pp (rows_of s)"
  obtains s' where "read_thread T i t s = (Inr (thread_at (rows_of s) i t), s')"
    and "rows_of s' = rows_of s" and "quiet s'"
proof -
  have "decode thread_of_item (rows_of s (thread_key i t)) = Inr (thread_at (rows_of s) i t)"
  proof (cases "rows_of s (thread_key i t)")
    case (Some it)
    with assms(2) obtain th where "thread_of_item it = Some th" unfolding threads_wf_def by blast
    with Some show ?thesis by (simp add: decode_def thread_at_def)
  qed (simp add: decode_def thread_at_def)
  with quiet_get_as [OF assms(1), of thread_of_item "thread_key i t" Consistent] that show ?thesis
    unfolding read_thread_def by metis
qed

lemma quiet_read_aliases:
  assumes "quiet s" and "distinct ids"
  obtains s' where "read_aliases T inbox ids s = (Inr (al_found (aliases_of (rows_of s) inbox ids)), s')"
    and "rows_of s' = rows_of s" and "quiet s'"
proof (cases "ids = []")
  case True
  with assms(1) that show ?thesis by (simp add: read_aliases_def aliases_of_def)
next
  case False
  obtain s' where get: "tbl_batch_get T (map (rfc_alias_key inbox) ids) Consistent s =
      (Inr (\<lambda>k. if k \<in> set (map (rfc_alias_key inbox) ids) then rows_of s k else None), s')"
    "rows_of s' = rows_of s" "quiet s'"
    using quiet_batch_get [OF assms(1)] by blast
  have "read_aliases T inbox ids s = (Inr (al_found (aliases_of (rows_of s) inbox ids)), s')"
    using False get assms(2)
    by (auto simp: read_aliases_def batch_get_as_def try_io_def by_id_eq aliases_of_def alias_at_def
        fun_eq_iff)
  with get that show ?thesis by blast
qed

lemma quiet_transact_run:
  assumes "quiet s"
  obtains s' where "tbl_transact T ops s =
      (Inr (if txn_ok (rows_of s) ops then Committed else Cancelled (cancel_decision (rows_of s) ops)), s')"
    and "rows_of s' = (if txn_ok (rows_of s) ops then txn_apply ops (rows_of s) else rows_of s)"
    and "quiet s'"
  using quiet_transact [OF assms] by blast

lemma quiet_insert:
  assumes quiet: "quiet s" and wf: "table_wf pp (rows_of s)" and msg: "message_ok msg"
    and cands: "candidates_ok msg candidates"
  defines "msg' \<equiv> joined (rows_of s) msg candidates"
  defines "before \<equiv> thread_at (rows_of s) (msg_inbox_id msg') (msg_thread_id msg')"
  defines "ops \<equiv> plan_insert msg' before (thread_for pp msg' before)
    (aliases_of (rows_of s) (msg_inbox_id msg) candidates)"
  shows "\<exists>s'. insert_message pp T msg candidates s =
      (Inr (if rows_of s (message_key (msg_inbox_id msg) (msg_message_id msg)) = None
            then FreshInsert else DuplicateInsert), s') \<and>
    rows_of s' = (if rows_of s (message_key (msg_inbox_id msg) (msg_message_id msg)) = None
      then txn_apply ops (rows_of s) else rows_of s) \<and> quiet s'"
proof -
  let ?R = "rows_of s"
  have cands': "candidates_ok msg' candidates" using cands by (simp add: candidates_ok_def msg'_def)
  obtain s1 where 1: "read_aliases T (msg_inbox_id msg) candidates s =
      (Inr (al_found (aliases_of ?R (msg_inbox_id msg) candidates)), s1)" "rows_of s1 = ?R" "quiet s1"
    using quiet_read_aliases [OF quiet] cands unfolding candidates_ok_def by blast
  have al: "\<lparr>al_candidates = candidates, al_found = al_found (aliases_of ?R (msg_inbox_id msg) candidates)\<rparr> =
      aliases_of ?R (msg_inbox_id msg) candidates" by (simp add: aliases_of_def)
  have "threads_wf pp (rows_of s1)" using wf 1(2) by (simp add: table_wf_def)
  then obtain s2 where 2: "read_thread T (msg_inbox_id msg') (msg_thread_id msg') s1 = (Inr before, s2)"
    "rows_of s2 = ?R" "quiet s2"
    using quiet_read_thread [OF 1(3)] 1(2) unfolding before_def by metis
  obtain s3 where 3: "tbl_transact T ops s2 =
      (Inr (if txn_ok ?R ops then Committed else Cancelled (cancel_decision ?R ops)), s3)"
    "rows_of s3 = (if txn_ok ?R ops then txn_apply ops ?R else ?R)" "quiet s3"
    using quiet_transact_run [OF 2(3), of ops] 2(2) by metis
  have joined: "msg\<lparr>msg_thread_id := (case alias_thread_id (aliases_of ?R (msg_inbox_id msg) candidates) of
      None \<Rightarrow> msg_thread_id msg | Some t \<Rightarrow> t)\<rparr> = msg'" by (simp add: msg'_def joined_def)
  have run: "insert_loop pp T (msg_thread_id msg) msg candidates (n # as) s =
      (Inr (if txn_ok ?R ops then FreshInsert else DuplicateInsert), s3)"
    if "txn_ok ?R ops \<or> cancel_decision ?R ops = Duplicate" for n as
    using that 3(1) unfolding insert_loop.simps try_io_def 1(1) prod.case sum.case Let_def al joined 2(1)
    by (auto simp flip: ops_def)
  have attempts: "attempts = 0 # [1..<Suc MAX_TXN_RETRIES]" by (simp add: upt_conv_Cons)
  have okd: "txn_ok ?R ops" if "?R (message_key (msg_inbox_id msg) (msg_message_id msg)) = None"
    using insert_commits [OF wf _ cands', of before] msg that unfolding ops_def before_def
    by (simp add: msg'_def)
  have dup: "\<not> txn_ok ?R ops" "cancel_decision ?R ops = Duplicate"
    if "?R (message_key (msg_inbox_id msg) (msg_message_id msg)) \<noteq> None"
    using insert_duplicate_decision [of ?R msg'] that unfolding ops_def by (simp_all add: msg'_def)
  show ?thesis
    unfolding insert_message_def attempts using run 3 okd dup
    by (cases "?R (message_key (msg_inbox_id msg) (msg_message_id msg)) = None") auto
qed

end

end
