(* ===== verification/Outcomes.thy ===== *)
theory Outcomes
  imports Quiet
begin

text \<open>
  The outcomes of the sending flows of \<open>crates/mailbox-store/src/mailbox.rs\<close> on a quiet
  store: enqueueing under an idempotency key, claiming, noting the SES call and recording
  the outcome, with the loops that drop alias writes already taken.
\<close>

section \<open>Losing only aliases\<close>

lemma failed_ops_append: "failed_ops P (xs @ ys) = failed_ops P xs @ failed_ops P ys"
  by (simp add: failed_ops_def)

lemma set_failed_ops: "set (failed_ops P xs) = {x \<in> set xs. \<not> P x}"
  by (simp add: failed_ops_def)

lemma failed_ops_none: "list_all P xs \<Longrightarrow> failed_ops P xs = []"
  by (auto simp: failed_ops_def list_all_iff)

lemma alias_op_write: "alias_op_for msg op \<Longrightarrow> is_alias_write (op_op op)"
  by (auto simp: alias_op_for_def split: write_op.splits)

lemma alias_op_role: "alias_op_for msg op \<Longrightarrow> op_role op = RoleRfcAlias"
  by (simp add: alias_op_for_def)

lemma alias_losses_decision:
  assumes "txn_ok R xs" and "txn_ok R ys" and "list_all (alias_op_for msg) as" and "\<not> txn_ok R as"
  shows "cancel_decision R (xs @ as @ ys) =
    AliasTaken (map (\<lambda>op. alias_pk (op_op op)) (failed_ops (op_holds R) as))"
proof -
  let ?lost = "failed_ops (op_holds R) as"
  have lost: "failed_ops (op_holds R) (xs @ as @ ys) = ?lost"
    using assms(1,2) by (simp add: failed_ops_append failed_ops_none txn_ok_def)
  have "?lost \<noteq> []"
    using assms(4) by (auto simp: failed_ops_def txn_ok_def list_all_iff filter_empty_conv)
  moreover have "\<forall>op \<in> set ?lost. op_role op = RoleRfcAlias \<and> is_alias_write (op_op op)"
    using assms(3) alias_op_write alias_op_role by (auto simp: failed_ops_def list_all_iff)
  ultimately show ?thesis
    unfolding cancel_decision_def lost decode_failed_def list_ex_iff list_all_iff by simp
qed

lemma drop_taken_ok:
  assumes "list_all (alias_op_for msg) as"
    and "set (map (\<lambda>op. alias_pk (op_op op)) (failed_ops (op_holds R) as)) \<subseteq> set taken"
  shows "txn_ok R (drop_taken_aliases as taken)"
proof -
  have "op_holds R op" if op: "op \<in> set as" and kept: "alias_pk (op_op op) \<notin> set taken" for op
    using assms(2) that by (auto simp: failed_ops_def)
  moreover have "alias_pk (op_op op) \<notin> set taken"
    if "op \<in> set (drop_taken_aliases as taken)" for op
    using that assms(1)
    by (auto simp: drop_taken_aliases_def list_all_iff alias_op_for_def split: write_op.splits)
  ultimately show ?thesis
    by (auto simp: txn_ok_def list_all_iff drop_taken_aliases_def)
qed

lemma drop_taken_nothing: "drop_taken_aliases ops [] = ops"
proof -
  have "(case op_op op of AliasFirstWriter pk _ _ _ _ \<Rightarrow> True | Put _ _ \<Rightarrow> True
      | Update _ _ _ _ _ \<Rightarrow> True)" for op by (simp split: write_op.split)
  then show ?thesis by (simp add: drop_taken_aliases_def cong: filter_cong write_op.case_cong)
qed

section \<open>Claiming\<close>

context quiet_table
begin

lemma quiet_read_send_state:
  assumes "quiet s" and "sends_wf (rows_of s)"
  obtains s' where "read_send_state T m s = (Inr (send_at (rows_of s) m), s')"
    and "rows_of s' = rows_of s" and "quiet s'"
proof -
  have "decode send_state_of_item (rows_of s (send_state_key m)) = Inr (send_at (rows_of s) m)"
  proof (cases "rows_of s (send_state_key m)")
    case (Some it)
    with sends_wf_row [OF assms(2)] obtain st where "it = send_state_item st" by blast
    with Some show ?thesis by (simp add: decode_def send_at_def)
  qed (simp add: decode_def send_at_def)
  with quiet_get_as [OF assms(1), of send_state_of_item "send_state_key m" Consistent] that show ?thesis
    unfolding read_send_state_def by metis
qed

end

lemma cas_holds:
  assumes "sends_wf R" and "send_at R (snd_message_id st) = Some c"
    and "snd_message_id after = snd_message_id st"
  shows "txn_ok R (plan_state_cas st after expected) \<longleftrightarrow>
    snd_send_status c = expected \<and> snd_version c = snd_version st"
proof -
  obtain it where it: "R (send_state_key (snd_message_id st)) = Some it"
    using assms(2) by (auto simp: send_at_def bind_eq_Some_conv)
  with sends_wf_row [OF assms(1) it] assms(2) have "it = send_state_item c" by auto
  with it assms(3) show ?thesis by (auto simp: plan_state_cas_def u64_av_def)
qed

lemma cas_effect:
  "txn_apply (plan_state_cas st after expected) R =
     R(send_state_key (snd_message_id after) \<mapsto> send_state_item after)"
  by (simp add: plan_state_cas_def)

lemma cas_decision:
  "\<not> txn_ok R (plan_state_cas st after expected) \<Longrightarrow>
     cancel_decision R (plan_state_cas st after expected) = VersionConflict"
  by (auto simp: plan_state_cas_def cancel_decision_def failed_ops_def decode_failed_def put_send_state_def)

lemma send_at_upd:
  "send_at (R(k \<mapsto> it)) m = (if k = send_state_key m then send_state_of_item it else send_at R m)"
  by (auto simp: send_at_def)

context quiet_table
begin

lemma quiet_claim:
  assumes quiet: "quiet s" and wf: "sends_wf (rows_of s)"
  shows "\<exists>s'. quiet s' \<and> (case send_at (rows_of s) m of
      Some st \<Rightarrow> (if snd_send_status st = Queued
        then claim_send T m now s = (Inr (Some (claimed st now)), s') \<and>
          rows_of s' = (rows_of s)(send_state_key m \<mapsto> send_state_item (claimed st now))
        else claim_send T m now s = (Inr None, s') \<and> rows_of s' = rows_of s)
    | None \<Rightarrow> claim_send T m now s = (Inr None, s') \<and> rows_of s' = rows_of s)"
proof -
  have attempts: "attempts = 0 # [1..<Suc MAX_TXN_RETRIES]" by (simp add: upt_conv_Cons)
  obtain s1 where 1: "read_send_state T m s = (Inr (send_at (rows_of s) m), s1)"
    "rows_of s1 = rows_of s" "quiet s1" by (rule quiet_read_send_state [OF quiet wf])
  show ?thesis
  proof (cases "\<exists>st. send_at (rows_of s) m = Some st \<and> snd_send_status st = Queued")
    case False
    with 1 show ?thesis
      unfolding claim_send_def attempts claim_loop.simps try_io_def
      by (intro exI [of _ s1]) (auto split: option.split)
  next
    case True
    then obtain st where st: "send_at (rows_of s) m = Some st" "snd_send_status st = Queued" by blast
    have id: "snd_message_id st = m" using send_at_wf [OF wf st(1)] by simp
    have ok: "txn_ok (rows_of s1) (plan_state_cas st (claimed st now) Queued)"
      using cas_holds [OF wf, of st st "claimed st now"] st id 1(2) by simp
    then obtain s2 where 2: "tbl_transact T (plan_state_cas st (claimed st now) Queued) s1 =
        (Inr Committed, s2)"
      "rows_of s2 = txn_apply (plan_state_cas st (claimed st now) Queued) (rows_of s1)" "quiet s2"
      using quiet_transact_run [OF 1(3), of "plan_state_cas st (claimed st now) Queued"] by auto
    show ?thesis
      using st id 1 2 unfolding claim_send_def attempts claim_loop.simps try_io_def Let_def
      by (intro exI [of _ s2]) (simp add: cas_effect)
  qed
qed

lemma quiet_note:
  assumes quiet: "quiet s" and wf: "sends_wf (rows_of s)"
    and c: "send_at (rows_of s) (snd_message_id st) = Some c"
  shows "\<exists>s'. quiet s' \<and>
    (if snd_send_status c = Sending \<and> snd_version c = snd_version st
     then note_ses_call T st now s = (Inr (Some (calling_ses st now)), s') \<and>
       rows_of s' = (rows_of s)(send_state_key (snd_message_id st) \<mapsto> send_state_item (calling_ses st now))
     else note_ses_call T st now s = (Inr None, s') \<and> rows_of s' = rows_of s)"
proof -
  let ?ops = "plan_state_cas st (calling_ses st now) Sending"
  have attempts: "attempts = 0 # [1..<Suc MAX_TXN_RETRIES]" by (simp add: upt_conv_Cons)
  have ok: "txn_ok (rows_of s) ?ops \<longleftrightarrow> snd_send_status c = Sending \<and> snd_version c = snd_version st"
    using cas_holds [OF wf c, of "calling_ses st now"] by simp
  obtain s1 where "tbl_transact T ?ops s = (Inr (if txn_ok (rows_of s) ?ops then Committed
        else Cancelled (cancel_decision (rows_of s) ?ops)), s1)"
    "rows_of s1 = (if txn_ok (rows_of s) ?ops then txn_apply ?ops (rows_of s) else rows_of s)" "quiet s1"
    by (rule quiet_transact_run [OF quiet])
  then show ?thesis
    unfolding note_ses_call_def Let_def attempts note_loop.simps try_io_def
    by (intro exI [of _ s1]) (auto simp: cas_effect cas_decision simp flip: ok)
qed

end

section \<open>Enqueueing\<close>

definition live_key :: "rows \<Rightarrow> send_key option \<Rightarrow> u64 \<Rightarrow> bool" where
  "live_key R key now_epoch = (case key of
       None \<Rightarrow> False
     | Some k \<Rightarrow> \<not> cond_ok (R (send_key_key (key_key_hash k))) (CondNotExistsOrExpired now_epoch))"

definition key_ops :: "send_key option \<Rightarrow> u64 \<Rightarrow> planned_op list" where
  "key_ops key now_epoch = (case key of
       None \<Rightarrow> [] | Some k \<Rightarrow> [put_send_key k (CondNotExistsOrExpired now_epoch)])"

lemma key_ops_ok: "txn_ok R (key_ops key now_epoch) \<longleftrightarrow> \<not> live_key R key now_epoch"
  by (simp add: key_ops_def live_key_def split: option.split)

lemma drop_taken_key_ops: "drop_taken_aliases (key_ops key now_epoch @ xs) taken =
    key_ops key now_epoch @ drop_taken_aliases xs taken"
  by (cases key) (simp_all add: key_ops_def)

lemma enqueue_planned:
  assumes "plan_enqueue msg state key before after now_epoch = Inr planned"
  obtains as where "planned = key_ops key now_epoch @
      [put_message (stored_message msg after) CondNotExists, put_send_state state CondNotExists,
       put_thread after (versioned (map_option thr_version before))] @ as"
    and "list_all (alias_op_for msg) as"
proof -
  from enqueue_shape [OF assms, of "[]"] obtain as where "drop_taken_aliases planned [] =
      key_ops key now_epoch @
      [put_message (stored_message msg after) CondNotExists, put_send_state state CondNotExists,
       put_thread after (versioned (map_option thr_version before))] @ as"
    "list_all (alias_op_for msg) as" unfolding key_ops_def by metis
  with that show ?thesis by (simp add: drop_taken_nothing)
qed

lemma put_roles [simp]:
  "op_role (put_message m c) = RoleMessage" "op_role (put_thread t c) = RoleThread"
  "op_role (put_send_state st c) = RoleSendState"
  by (simp_all add: put_message_def put_thread_def put_send_state_def)

lemma key_decision:
  assumes "live_key R key now_epoch"
  shows "\<not> txn_ok R (key_ops key now_epoch @ xs)"
    and "cancel_decision R (key_ops key now_epoch @ xs) = KeyExists"
proof -
  show "\<not> txn_ok R (key_ops key now_epoch @ xs)"
    using assms key_ops_ok [of R key now_epoch] by simp
  obtain k where k: "key = Some k"
    and lost: "\<not> op_holds R (put_send_key k (CondNotExistsOrExpired now_epoch))"
    using assms by (auto simp: live_key_def split: option.splits)
  have "put_send_key k (CondNotExistsOrExpired now_epoch) \<in>
      set (failed_ops (op_holds R) (key_ops key now_epoch @ xs))"
    using lost unfolding set_failed_ops by (simp add: k key_ops_def)
  moreover have "op_role (put_send_key k (CondNotExistsOrExpired now_epoch)) = RoleIdempotencyKey"
    by (simp add: put_send_key_def)
  ultimately show "cancel_decision R (key_ops key now_epoch @ xs) = KeyExists"
    unfolding cancel_decision_def decode_failed_def list_ex_iff by auto
qed

lemma enqueue_duplicate_decision:
  assumes "\<not> live_key R key now_epoch" and "list_all (alias_op_for msg) as"
    and "R (message_key (msg_inbox_id msg) (msg_message_id msg)) \<noteq> None \<or>
      R (send_state_key (snd_message_id state)) \<noteq> None"
    and ops_def: "ops = key_ops key now_epoch @
      [put_message (stored_message msg after) CondNotExists, put_send_state state CondNotExists,
       put_thread after c] @ as"
  shows "\<not> txn_ok R ops" and "cancel_decision R ops = Duplicate"
proof -
  show "\<not> txn_ok R ops" using assms(3) by (auto simp: ops_def)
  let ?lost = "failed_ops (op_holds R) ops"
  have "op_role op \<noteq> RoleIdempotencyKey" if "op \<in> set ?lost" for op
  proof -
    have "\<forall>op \<in> set (key_ops key now_epoch). op_holds R op"
      using key_ops_ok [of R key now_epoch] assms(1) by (simp add: txn_ok_def list_all_iff)
    moreover have "\<forall>op \<in> set as. op_role op = RoleRfcAlias"
      using assms(2) by (auto simp: list_all_iff alias_op_role)
    ultimately show ?thesis using that unfolding set_failed_ops ops_def by auto
  qed
  moreover have "\<exists>op \<in> set ?lost. (op_role op = RoleMessage \<or> op_role op = RoleSendState) \<and>
      is_not_exists_conditioned (op_op op)"
  proof (cases "R (message_key (msg_inbox_id msg) (msg_message_id msg)) = None")
    case False
    then show ?thesis
      by (intro bexI [of _ "put_message (stored_message msg after) CondNotExists"])
        (auto simp: ops_def failed_ops_def, simp_all add: put_message_def)
  next
    case True
    then have "R (send_state_key (snd_message_id state)) \<noteq> None" using assms(3) by simp
    then show ?thesis
      by (intro bexI [of _ "put_send_state state CondNotExists"])
        (auto simp: ops_def failed_ops_def, simp_all add: put_send_state_def)
  qed
  ultimately show "cancel_decision R ops = Duplicate"
    unfolding cancel_decision_def decode_failed_def list_ex_iff by auto
qed

text \<open>The rows an enqueue leaves behind, the alias rows aside.\<close>

lemma enqueue_effect:
  assumes as: "list_all (alias_op_for msg) as"
    and th: "thr_inbox_id after = msg_inbox_id msg" "thr_thread_id after = msg_thread_id msg"
    and R'_def: "R' = txn_apply (key_ops key now_epoch @
      [put_message (stored_message msg after) CondNotExists, put_send_state state CondNotExists,
       put_thread after c] @ as) R"
  shows "message_at R' (msg_inbox_id msg) (msg_message_id msg) = Some (stored_message msg after)"
    and "send_at R' (snd_message_id state) = Some state"
    and "thread_at R' (msg_inbox_id msg) (msg_thread_id msg) = Some after"
    and "key = Some k \<Longrightarrow> R' (send_key_key (key_key_hash k)) = Some (send_key_item k)"
  using alias_frame [OF as]
  by (simp_all add: R'_def aliases_at [OF as] message_at_upd send_at_upd thread_at_upd th key_ops_def)

context quiet_table
begin

lemma quiet_enqueue_attempt:
  assumes quiet: "quiet s" and wf: "threads_wf pp (rows_of s)"
    and before: "before = thread_at (rows_of s) (msg_inbox_id msg) (msg_thread_id msg)"
    and planned: "plan_enqueue msg state key before (thread_for pp msg before) now_epoch = Inr planned"
    and ops: "ops = drop_taken_aliases planned taken"
  obtains s' where "quiet s'"
    and "rows_of s' = (if txn_ok (rows_of s) ops then txn_apply ops (rows_of s) else rows_of s)"
    and "enqueue_loop pp T msg state key now_epoch taken (n # as) s =
      (if txn_ok (rows_of s) ops then ok EnqCommitted
       else case cancel_decision (rows_of s) ops of
          KeyExists \<Rightarrow> ok EnqKeyExists
        | Duplicate \<Rightarrow> ok EnqAlreadyQueued
        | AliasTaken ks \<Rightarrow> enqueue_loop pp T msg state key now_epoch (taken @ ks) as
        | Permanent \<Rightarrow> err ErrPermanent
        | _ \<Rightarrow> (\<lambda>s. enqueue_loop pp T msg state key now_epoch taken as (tbl_pause T n s))) s'"
proof -
  let ?R = "rows_of s"
  obtain s1 where 1: "read_thread T (msg_inbox_id msg) (msg_thread_id msg) s = (Inr before, s1)"
    "rows_of s1 = ?R" "quiet s1" using quiet_read_thread [OF quiet wf] unfolding before by blast
  obtain s2 where 2: "tbl_transact T ops s1 =
      (Inr (if txn_ok ?R ops then Committed else Cancelled (cancel_decision ?R ops)), s2)"
    "rows_of s2 = (if txn_ok ?R ops then txn_apply ops ?R else ?R)" "quiet s2"
    using quiet_transact_run [OF 1(3), of ops] unfolding 1(2) .
  show ?thesis
    by (rule that [OF 2(3,2)])
      (use planned 1 2 ops in \<open>simp add: try_io_def split: txn_decision.split\<close>)
qed

lemma quiet_enqueue_commit:
  assumes "quiet s" and "threads_wf pp (rows_of s)"
    and "before = thread_at (rows_of s) (msg_inbox_id msg) (msg_thread_id msg)"
    and "plan_enqueue msg state key before (thread_for pp msg before) now_epoch = Inr planned"
    and "ops = drop_taken_aliases planned taken" and "txn_ok (rows_of s) ops"
  shows "\<exists>s'. quiet s' \<and> rows_of s' = txn_apply ops (rows_of s) \<and>
    enqueue_loop pp T msg state key now_epoch taken (n # as) s = (Inr EnqCommitted, s')"
  by (rule quiet_enqueue_attempt [OF assms(1-5), of n as], rule exI, intro conjI)
    (use assms(6) in \<open>simp_all del: enqueue_loop.simps\<close>)

lemma quiet_enqueue:
  assumes quiet: "quiet s" and wf: "table_wf pp (rows_of s)"
    and before: "before = thread_at (rows_of s) (msg_inbox_id msg) (msg_thread_id msg)"
    and after: "after = thread_for pp msg before"
  shows "\<exists>s'. quiet s' \<and>
    (if check_user_labels (msg_labels msg) after = Inl ErrLabelLimit
     then enqueue_send pp T msg state key now_epoch s = (Inl ErrLabelLimit, s') \<and> rows_of s' = rows_of s
     else if live_key (rows_of s) key now_epoch
     then enqueue_send pp T msg state key now_epoch s = (Inr EnqKeyExists, s') \<and> rows_of s' = rows_of s
     else if rows_of s (message_key (msg_inbox_id msg) (msg_message_id msg)) \<noteq> None \<or>
       rows_of s (send_state_key (snd_message_id state)) \<noteq> None
     then enqueue_send pp T msg state key now_epoch s = (Inr EnqAlreadyQueued, s') \<and> rows_of s' = rows_of s
     else enqueue_send pp T msg state key now_epoch s = (Inr EnqCommitted, s') \<and>
       message_at (rows_of s') (msg_inbox_id msg) (msg_message_id msg) = Some (stored_message msg after) \<and>
       send_at (rows_of s') (snd_message_id state) = Some state \<and>
       thread_at (rows_of s') (msg_inbox_id msg) (msg_thread_id msg) = Some after \<and>
       (\<forall>k. key = Some k \<longrightarrow> rows_of s' (send_key_key (key_key_hash k)) = Some (send_key_item k)))"
proof -
  let ?R = "rows_of s"
  have attempts: "attempts = 0 # 1 # [2..<Suc MAX_TXN_RETRIES]"
    by (simp add: upt_conv_Cons MAX_TXN_RETRIES_def)
  have threads: "threads_wf pp ?R" using wf by (simp add: table_wf_def)
  note read = thread_for_versioned [OF threads before]
  note th = thread_for_ok(1,2) [OF threads read(1), folded after]
  show ?thesis
  proof (cases "check_user_labels (msg_labels msg) after")
    case (Inl e)
    then have e: "e = ErrLabelLimit" by (auto simp: check_user_labels_def split: if_splits)
    obtain s1 where 1: "read_thread T (msg_inbox_id msg) (msg_thread_id msg) s = (Inr before, s1)"
      "rows_of s1 = ?R" "quiet s1" using quiet_read_thread [OF quiet threads] unfolding before by blast
    with Inl e show ?thesis
      unfolding enqueue_send_def attempts enqueue_loop.simps try_io_def
      by (intro exI [of _ s1]) (simp add: plan_enqueue_def flip: after)
  next
    case (Inr u)
    then obtain planned where planned: "plan_enqueue msg state key before after now_epoch = Inr planned"
      by (simp add: plan_enqueue_def)
    let ?heads = "key_ops key now_epoch @
        [put_message (stored_message msg after) CondNotExists, put_send_state state CondNotExists,
         put_thread after (versioned (map_option thr_version before))]"
    obtain as where ops: "planned = ?heads @ as" and as: "list_all (alias_op_for msg) as"
      using enqueue_planned [OF planned] by (metis append_assoc)
    obtain s1 where q1: "quiet s1"
      and r1: "rows_of s1 = (if txn_ok ?R planned then txn_apply planned ?R else ?R)"
      and e1: "enqueue_send pp T msg state key now_epoch s =
        (if txn_ok ?R planned then ok EnqCommitted
         else case cancel_decision ?R planned of
            KeyExists \<Rightarrow> ok EnqKeyExists
          | Duplicate \<Rightarrow> ok EnqAlreadyQueued
          | AliasTaken ks \<Rightarrow> enqueue_loop pp T msg state key now_epoch ks (1 # [2..<Suc MAX_TXN_RETRIES])
          | Permanent \<Rightarrow> err ErrPermanent
          | _ \<Rightarrow> (\<lambda>s. enqueue_loop pp T msg state key now_epoch [] (1 # [2..<Suc MAX_TXN_RETRIES])
                   (tbl_pause T 0 s))) s1"
      using quiet_enqueue_attempt [OF quiet threads before planned [unfolded after]
          drop_taken_nothing [symmetric]]
      unfolding enqueue_send_def attempts append_Nil by metis
    let ?dup = "?R (message_key (msg_inbox_id msg) (msg_message_id msg)) \<noteq> None \<or>
      ?R (send_state_key (snd_message_id state)) \<noteq> None"
    consider (key) "live_key ?R key now_epoch" | (dup) "\<not> live_key ?R key now_epoch" ?dup
      | (fresh) "\<not> live_key ?R key now_epoch" "\<not> ?dup" by blast
    then show ?thesis
    proof cases
      case key
      with key_decision [of ?R key now_epoch] e1 r1 q1 Inr show ?thesis
        by (intro exI [of _ s1]) (simp add: ops)
    next
      case dup
      with enqueue_duplicate_decision [OF dup(1) as dup(2) refl, of after
          "versioned (map_option thr_version before)"] e1 r1 q1 Inr show ?thesis
        by (intro exI [of _ s1]) (simp add: ops)
    next
      case fresh
      have heads: "txn_ok ?R ?heads"
        using fresh read(2) th by (simp add: key_ops_ok)
      show ?thesis
      proof (cases "txn_ok ?R as")
        case True
        with heads have "txn_ok ?R planned" by (simp add: ops)
        with fresh e1 r1 q1 Inr show ?thesis
          using enqueue_effect [OF as th refl]
          by (intro exI [of _ s1]) (simp add: ops)
      next
        case False
        define taken where "taken = map (\<lambda>op. alias_pk (op_op op)) (failed_ops (op_holds ?R) as)"
        have lost: "\<not> txn_ok ?R planned" "cancel_decision ?R planned = AliasTaken taken"
          using False alias_losses_decision [OF heads _ as False, of "[]"] by (simp_all add: ops taken_def)
        define ops2 where "ops2 = ?heads @ drop_taken_aliases as taken"
        have ops2: "drop_taken_aliases planned taken = ops2"
          unfolding ops ops2_def append_assoc drop_taken_key_ops by simp
        have as2: "list_all (alias_op_for msg) (drop_taken_aliases as taken)" using as by simp
        have rows1: "rows_of s1 = ?R" using r1 lost by simp
        have ok2: "txn_ok (rows_of s1) ops2"
          using heads drop_taken_ok [OF as, of ?R taken] rows1 by (simp add: ops2_def taken_def)
        obtain s2 where "quiet s2" "rows_of s2 = txn_apply ops2 ?R"
          "enqueue_loop pp T msg state key now_epoch taken (1 # [2..<Suc MAX_TXN_RETRIES]) s1 =
            (Inr EnqCommitted, s2)"
          using quiet_enqueue_commit [OF q1, of pp before msg state key now_epoch planned ops2 taken]
            threads before planned ops2 ok2 unfolding rows1 after by blast
        with fresh e1 lost Inr show ?thesis
          using enqueue_effect [OF as2 th refl]
          by (intro exI [of _ s2]) (simp add: ops2_def)
      qed
    qed
  qed
qed

end

section \<open>Over the in-memory store\<close>

lemma insert_message_twice:
  assumes quiet: "mem_quiet s" and wf: "table_wf pp (mem_rows s)" and msg: "message_ok msg"
    and cands: "candidates_ok msg candidates"
    and new: "mem_rows s (message_key (msg_inbox_id msg) (msg_message_id msg)) = None"
    and msg': "msg' = joined (mem_rows s) msg candidates"
    and after: "after = thread_for pp msg' (thread_at (mem_rows s) (msg_inbox_id msg) (msg_thread_id msg'))"
  shows "\<exists>s1 s2. insert_message pp memory_table msg candidates s = (Inr FreshInsert, s1)
    \<and> insert_message pp memory_table msg candidates s1 = (Inr DuplicateInsert, s2)
    \<and> mem_rows s2 = mem_rows s1
    \<and> message_at (mem_rows s1) (msg_inbox_id msg) (msg_message_id msg) = Some (stored_message msg' after)
    \<and> thread_at (mem_rows s1) (msg_inbox_id msg) (msg_thread_id msg') = Some after"
proof -
  let ?before = "thread_at (mem_rows s) (msg_inbox_id msg) (msg_thread_id msg')"
  let ?ops = "plan_insert msg' ?before after (aliases_of (mem_rows s) (msg_inbox_id msg) candidates)"
  obtain s1 where first: "insert_message pp memory_table msg candidates s = (Inr FreshInsert, s1)"
    "mem_rows s1 = txn_apply ?ops (mem_rows s)" "mem_quiet s1"
    using qmem.quiet_insert [OF quiet wf msg cands] new by (auto simp: after msg')
  have "mem_rows (exec pp (CallInsert msg candidates) s) = mem_rows s1" using first by simp
  with exec_moves [of s "CallInsert msg candidates" pp] msg wf
  have wf1: "table_wf pp (mem_rows s1)" using mail_step_keeps_wf wf by (metis call_ok.simps(1))
  obtain as where plan: "?ops = put_message (stored_message msg' after) CondNotExists #
      put_thread after (versioned (map_option thr_version ?before)) # as"
    and as: "list_all (alias_op_for msg') as" by (rule insert_shape)
  have "threads_wf pp (mem_rows s)" using wf by (simp add: table_wf_def)
  from thread_for_ok(1,2) [OF this thread_for_versioned(1) [OF this, of _ msg'], of ?before]
  have th: "thr_inbox_id after = msg_inbox_id msg" "thr_thread_id after = msg_thread_id msg'"
    by (simp_all add: after msg')
  have ids: "msg_inbox_id msg' = msg_inbox_id msg" "msg_message_id msg' = msg_message_id msg"
    by (simp_all add: msg')
  have at: "message_at (mem_rows s1) (msg_inbox_id msg) (msg_message_id msg) = Some (stored_message msg' after)"
    "thread_at (mem_rows s1) (msg_inbox_id msg) (msg_thread_id msg') = Some after"
    unfolding first(2) plan
    by (simp_all add: aliases_at [OF as] message_at_upd thread_at_upd th ids)
  then have "mem_rows s1 (message_key (msg_inbox_id msg) (msg_message_id msg)) \<noteq> None"
    by (auto simp: message_at_def bind_eq_Some_conv)
  with qmem.quiet_insert [OF first(3) wf1 msg cands] obtain s2 where
    "insert_message pp memory_table msg candidates s1 = (Inr DuplicateInsert, s2)"
    "mem_rows s2 = mem_rows s1" by auto
  with first(1) at show ?thesis by blast
qed

text \<open>
  C3. Ingest is idempotent: a message the inbox does not hold is inserted and reported as
  fresh, its row and its thread's row read back as planned, with the thread the first
  candidate alias names (its own when none does); delivering the same message again reports
  a duplicate and changes no row.
\<close>

theorem insert_message_idempotent:
  assumes "mem_quiet s" and "table_wf pp (mem_rows s)" and "message_ok msg"
    and "candidates_ok msg candidates"
    and "mem_rows s (message_key (msg_inbox_id msg) (msg_message_id msg)) = None"
    and "msg' = joined (mem_rows s) msg candidates"
    and "after = thread_for pp msg' (thread_at (mem_rows s) (msg_inbox_id msg) (msg_thread_id msg'))"
  shows "\<exists>s1 s2. insert_message pp memory_table msg candidates s = (Inr FreshInsert, s1)
    \<and> insert_message pp memory_table msg candidates s1 = (Inr DuplicateInsert, s2)
    \<and> mem_rows s2 = mem_rows s1
    \<and> message_at (mem_rows s1) (msg_inbox_id msg) (msg_message_id msg) = Some (stored_message msg' after)
    \<and> thread_at (mem_rows s1) (msg_inbox_id msg) (msg_thread_id msg') = Some after"
  using assms by (rule insert_message_twice)

theorem insert_message_idempotent_witness:
  "\<exists>s1 s2. insert_message (\<lambda>x. None :: unit option) memory_table
       (sample_message ''support@example.com'' ''m1'' ''m1'') [''m1@example.com''] empty_store =
       (Inr FreshInsert, s1)
    \<and> insert_message (\<lambda>x. None :: unit option) memory_table
       (sample_message ''support@example.com'' ''m1'' ''m1'') [''m1@example.com''] s1 =
       (Inr DuplicateInsert, s2)
    \<and> mem_rows s2 = mem_rows s1"
proof -
  have strip: "strip_angle_brackets ''<m1@example.com>'' = ''m1@example.com''"
    "strip_angle_brackets ''m1@example.com'' = ''m1@example.com''" by code_simp+
  have "candidates_ok (sample_message ''support@example.com'' ''m1'' ''m1'') [''m1@example.com'']"
    by (simp add: candidates_ok_def sample_ok strip)
  from insert_message_idempotent [OF _ _ sample_ok(1) this _ refl refl, of empty_store
      "\<lambda>x. None :: unit option"]
  show ?thesis by (auto simp: table_wf_empty)
qed

text \<open>
  C4. What enqueueing a send resolves to, in the order the code decides it: too many user
  labels is refused, a live idempotency key is a replay, a message or send state that exists
  is this request's own earlier commit, and none of these changes a row. Otherwise the send
  is committed whole: the message, its queued state, its thread and its key read back as
  written, an alias another message holds being left to it.
\<close>

theorem enqueue_send_outcomes:
  assumes "mem_quiet s" and "table_wf pp (mem_rows s)"
    and "before = thread_at (mem_rows s) (msg_inbox_id msg) (msg_thread_id msg)"
    and "after = thread_for pp msg before"
  shows "\<exists>s'. mem_quiet s' \<and>
    (if check_user_labels (msg_labels msg) after = Inl ErrLabelLimit
     then enqueue_send pp memory_table msg state key now_epoch s = (Inl ErrLabelLimit, s') \<and>
       mem_rows s' = mem_rows s
     else if live_key (mem_rows s) key now_epoch
     then enqueue_send pp memory_table msg state key now_epoch s = (Inr EnqKeyExists, s') \<and>
       mem_rows s' = mem_rows s
     else if mem_rows s (message_key (msg_inbox_id msg) (msg_message_id msg)) \<noteq> None \<or>
       mem_rows s (send_state_key (snd_message_id state)) \<noteq> None
     then enqueue_send pp memory_table msg state key now_epoch s = (Inr EnqAlreadyQueued, s') \<and>
       mem_rows s' = mem_rows s
     else enqueue_send pp memory_table msg state key now_epoch s = (Inr EnqCommitted, s') \<and>
       message_at (mem_rows s') (msg_inbox_id msg) (msg_message_id msg) = Some (stored_message msg after) \<and>
       send_at (mem_rows s') (snd_message_id state) = Some state \<and>
       thread_at (mem_rows s') (msg_inbox_id msg) (msg_thread_id msg) = Some after \<and>
       (\<forall>k. key = Some k \<longrightarrow> mem_rows s' (send_key_key (key_key_hash k)) = Some (send_key_item k)))"
  using assms by (rule qmem.quiet_enqueue)

text \<open>A claim is a compare-and-swap: what it was computed from is the row it replaced.\<close>

context versioned_table
begin

lemma claim_loop_cas:
  "claim_loop T m now as s = (Inr claim, s') \<Longrightarrow> safe pp s \<Longrightarrow>
     (case claim of None \<Rightarrow> env (rows_of s) (rows_of s')
      | Some st \<Rightarrow> \<exists>R before. env (rows_of s) R \<and> send_at R m = Some before \<and> snd_send_status before = Queued \<and>
          st = claimed before now \<and> env (R(send_state_key m \<mapsto> send_state_item st)) (rows_of s'))"
proof (induction as arbitrary: s)
  case (Cons n as)
  from Cons.prems(1) [unfolded claim_loop.simps] show ?case
  proof (cases rule: try_io_cases)
    case (Go found s1)
    have env1: "env (rows_of s) (rows_of s1)" using Go(1) unfolding read_send_state_def by (rule get_as_env)
    note safe1 = safe_env [OF Cons.prems(2) env1]
    show ?thesis
    proof (cases "\<exists>before. found = Some before \<and> snd_send_status before = Queued")
      case False
      with Go env1 show ?thesis by (cases found) auto
    next
      case True
      then obtain before where found: "found = Some before" "snd_send_status before = Queued" by blast
      note gen = read_send_state_genuine [OF Go(1) [unfolded found(1)] Cons.prems(2)]
      have run: "try_io (tbl_transact T (plan_state_cas before (claimed before now) Queued)) (\<lambda>out. case out of
          Committed \<Rightarrow> ok (Some (claimed before now))
        | Cancelled d \<Rightarrow> if d = Retry \<or> d = VersionConflict
            then (\<lambda>s. claim_loop T m now as (tbl_pause T n s)) else ok None) s1 = (Inr claim, s')"
        using Go(2) found by (simp add: Let_def)
      from run show ?thesis
      proof (cases rule: try_io_cases)
        case (Go out s2)
        from Go(1) show ?thesis
        proof (cases rule: transact_cases)
          case (Commit R)
          then have claim: "claim = Some (claimed before now)" "s' = s2" using Go(2) by auto
          have "send_at R m = Some before"
            using genuine_at_commit [OF _ safe1, of before R] gen cas_version [OF Commit(2)] Commit(1) by simp
          moreover have "env (R(send_state_key m \<mapsto> send_state_item (claimed before now))) (rows_of s')"
            using Commit(3) gen by (simp add: claim(2) cas_effect)
          ultimately show ?thesis using found(2) env_trans [OF env1 Commit(1)] by (auto simp: claim(1))
        next
          case Keep
          then obtain d where d: "out = Cancelled d" by (cases out) (use Go in auto)
          have envp: "env (rows_of s1) (rows_of (tbl_pause T n s2))" using env_trans [OF Keep(1) pause_law] .
          show ?thesis
          proof (cases "d = Retry \<or> d = VersionConflict")
            case True
            then have "claim_loop T m now as (tbl_pause T n s2) = (Inr claim, s')" using Go(2) d by simp
            from Cons.IH [OF this safe_env [OF safe1 envp]] env_trans [OF env_trans [OF env1 envp]] show ?thesis
              by (auto split: option.splits)
          next
            case False
            then have "claim = None" "s' = s2" using Go(2) d by auto
            then show ?thesis using env_trans [OF env1 Keep(1)] by simp
          qed
        qed
      qed simp
    qed
  qed simp
qed simp

end

text \<open>
  C5. A queued send is handed to one sender. Over any table that keeps the contract, whatever other writers do
  between the start and the end of the call: a claim that succeeds took at one moment a send that was still
  queued, and in that moment left it sending under the next version; a claim that finds nothing to take
  writes nothing. So of two senders that claim the same queued send only one succeeds, and no later claim does
  until the send is queued again.
\<close>

theorem claim_send_once:
  assumes table: "versioned_table T rows_of env" and wf: "\<And>R. env (rows_of s) R \<Longrightarrow> table_wf pp R"
    and run: "claim_send T m now s = (Inr claim, s')"
  shows "case claim of None \<Rightarrow> env (rows_of s) (rows_of s')
    | Some st \<Rightarrow> \<exists>R before. env (rows_of s) R \<and> send_at R m = Some before \<and> snd_send_status before = Queued \<and>
        snd_send_status st = Sending \<and> snd_version st = snd_version before + 1 \<and>
        snd_message_id st = snd_message_id before \<and> snd_inbox_id st = snd_inbox_id before \<and>
        env (R(send_state_key m \<mapsto> send_state_item st)) (rows_of s')"
proof -
  have "versioned_table.safe rows_of env pp s" using wf by (simp add: versioned_table.safe_def [OF table])
  from versioned_table.claim_loop_cas [OF table run [unfolded claim_send_def] this] show ?thesis
    by (fastforce simp: claimed_def split: option.splits)
qed

text \<open>A message queued in an empty store, for the witnesses.\<close>

definition sample_queued :: mail_message where
  "sample_queued = sample_message ''support@example.com'' ''m1'' ''m1''"

lemma sample_labels_ok:
  "check_user_labels (msg_labels sample_queued) (thread_for no_participants sample_queued None) = Inr ()"
proof -
  have "user_label_count (fold add_label [''received'', ''unread''] []) = 0" by code_simp
  moreover have "user_label_count [''received'', ''unread''] = 0" by code_simp
  ultimately show ?thesis
    by (simp add: check_user_labels_def sample_queued_def sample_message_def thread_for_def
        new_thread_def)
qed

theorem enqueue_send_outcomes_witness:
  "\<exists>s'. enqueue_send no_participants memory_table sample_queued sample_state None 0 empty_store =
       (Inr EnqCommitted, s')
     \<and> send_at (mem_rows s') (MessageId ''m1'') = Some sample_state"
proof -
  have "thread_at (mem_rows empty_store) (msg_inbox_id sample_queued) (msg_thread_id sample_queued) = None"
    by (simp add: thread_at_def)
  then show ?thesis
    using enqueue_send_outcomes [OF _ _ refl refl, of empty_store no_participants sample_queued
        sample_state None 0] sample_labels_ok
    by (auto simp: table_wf_empty live_key_def sample_state_def queued_def)
qed

lemma sample_enqueued:
  "\<exists>s. mem_quiet s \<and> table_wf no_participants (mem_rows s) \<and>
     send_at (mem_rows s) (MessageId ''m1'') = Some sample_state"
proof -
  have none: "thread_at (mem_rows empty_store) (msg_inbox_id sample_queued) (msg_thread_id sample_queued) = None"
    by (simp add: thread_at_def)
  obtain s where s: "mem_quiet s" "send_at (mem_rows s) (MessageId ''m1'') = Some sample_state"
    "enqueue_send no_participants memory_table sample_queued sample_state None 0 empty_store =
       (Inr EnqCommitted, s)"
    using qmem.quiet_enqueue [OF _ _ refl refl, of empty_store no_participants sample_queued
        sample_state None 0] sample_labels_ok none
    by (auto simp: table_wf_empty live_key_def sample_state_def queued_def)
  have "call_ok empty_store (CallEnqueue sample_queued sample_state None 0)"
    by (simp add: sample_queued_def sample_ok sample_state_def queued_def)
  from exec_moves [OF this, of no_participants] s(3)
  have "table_wf no_participants (mem_rows s)"
    using mail_step_keeps_wf [OF _ table_wf_empty] by (auto simp: table_wf_empty)
  with s show ?thesis by blast
qed

theorem claim_send_once_witness:
  "\<exists>s s' st. claim_send memory_table (MessageId ''m1'') ''t1'' s = (Inr (Some st), s') \<and> snd_send_status st = Sending \<and>
     mem_rows s' = (mem_rows s)(send_state_key (MessageId ''m1'') \<mapsto> send_state_item st)"
proof -
  obtain s where s: "mem_quiet s" "table_wf no_participants (mem_rows s)"
    "send_at (mem_rows s) (MessageId ''m1'') = Some sample_state" using sample_enqueued by blast
  then obtain s' where run: "claim_send memory_table (MessageId ''m1'') ''t1'' s =
      (Inr (Some (claimed sample_state ''t1'')), s')"
    using qmem.quiet_claim [of s "MessageId ''m1''" "''t1''"]
    by (auto simp: table_wf_def sample_state_def queued_def)
  have "table_wf no_participants R" if "mem_rows s = R" for R using s(2) that by simp
  from claim_send_once [OF vmem.versioned_table_axioms this run] run show ?thesis
    by (intro exI [of _ s] exI [of _ s'] exI [of _ "claimed sample_state ''t1''"]) (auto simp: claimed_def)
qed

end
