(* ===== verification/SendRequests.thy ===== *)
theory SendRequests
  imports Enqueue Outcomes "HOL-Library.Countable"
begin

text \<open>
  What the pure parts of \<open>api/send/\<close> promise: which requests one idempotency key stands for, who a
  reply is addressed to, and the chain of references it carries.
\<close>

section \<open>Fingerprints\<close>

fun source_view :: "attachment_source \<Rightarrow> bytes + string" where
  "source_view (SourceInline bytes) = Inl bytes"
| "source_view (SourceUrl url) = Inr (url_str url)"

text \<open>A request without what the parsed form of a URL adds to its text.\<close>

definition request_view :: "validated_send \<Rightarrow> validated_send \<times> (bytes + string) list" where
  "request_view query =
     (query\<lparr>vs_attachments := map (va_source_update (\<lambda>_. SourceInline [])) (vs_attachments query)\<rparr>,
      map (source_view \<circ> va_source) (vs_attachments query))"

lemma json_opt_inject [simp]: "json_opt a = json_opt b \<longleftrightarrow> a = b"
  by (simp add: json_opt_def split: option.split)

lemma json_list_inject [simp]: "json_list a = json_list b \<longleftrightarrow> a = b"
  by (simp add: json_list_def inj_map_eq_map inj_def)

lemma disposition_str_inject [simp]: "disposition_str a = disposition_str b \<longleftrightarrow> a = b"
  by (cases a; cases b) simp_all

lemma source_json_inject:
  assumes "inj (lib_sha256 I)"
  shows "source_json I a = source_json I b \<longleftrightarrow> source_view a = source_view b"
  using assms by (cases a; cases b) (auto simp: inj_eq)

abbreviation blanked :: "validated_attachment \<Rightarrow> validated_attachment" where
  "blanked a \<equiv> a\<lparr>va_source := SourceInline []\<rparr>"

lemma attachment_json_inject:
  assumes "inj (lib_sha256 I)"
  shows "attachment_json I a = attachment_json I b \<longleftrightarrow>
    blanked a = blanked b \<and> source_view (va_source a) = source_view (va_source b)"
  using source_json_inject [OF assms, of "va_source a" "va_source b"]
  by (cases a; cases b) (auto simp: attachment_json_def)

lemma attachments_json_inject:
  assumes "inj (lib_sha256 I)"
  shows "map (attachment_json I) as = map (attachment_json I) bs \<longleftrightarrow>
    map blanked as = map blanked bs \<and> map (source_view \<circ> va_source) as = map (source_view \<circ> va_source) bs"
proof (induction as arbitrary: bs)
  case (Cons a as)
  then show ?case by (cases bs) (auto simp: attachment_json_inject [OF assms])
qed auto

lemma headers_json_inject:
  fixes a b :: "(string, string) btree_map"
  shows "map (\<lambda>(n, v). (n, JString v)) (bt_entries a) = map (\<lambda>(n, v). (n, JString v)) (bt_entries b) \<longleftrightarrow> a = b"
proof -
  have inj: "inj (\<lambda>(n, v). (n :: string, JString v))" by (auto intro: injI)
  show ?thesis unfolding inj_map_eq_map [OF inj] by (rule bt_entries_inject)
qed

text \<open>
  C22. One idempotency key stands for one request: with a digest and a JSON printer that keep
  different documents apart, two fingerprints are equal exactly when inbox, route, replied-to
  message and every field of the request agree, attachments by content or by URL.
\<close>

theorem fingerprint_eq_iff:
  assumes "inj (lib_sha256 (al_ids L))" and "inj (al_json_str L)"
  shows "fingerprint L inbox route original query = fingerprint L inbox' route' original' query' \<longleftrightarrow>
    inbox = inbox' \<and> route = route' \<and> original = original' \<and> request_view query = request_view query'"
proof -
  have "fingerprint L inbox route original query = fingerprint L inbox' route' original' query' \<longleftrightarrow>
    request_json (al_ids L) inbox route original query = request_json (al_ids L) inbox' route' original' query'"
    using assms by (simp add: fingerprint_def inj_eq)
  also have "\<dots> \<longleftrightarrow> inbox = inbox' \<and> route = route' \<and> original = original' \<and> request_view query = request_view query'"
    by (cases query; cases query')
      (auto simp: request_json_def request_view_def headers_json_inject attachments_json_inject [OF assms(1)])
  finally show ?thesis .
qed

instance json :: countable by countable_datatype

lemma inj_radix_json: "inj (\<lambda>j :: json. radix 10 (to_nat j))"
  by (rule injI) (metis option.inject parse_digits_radix from_nat_to_nat)

definition sample_api :: "('w, unit) api_libs" where
  "sample_api =
     \<lparr>al_send = sample_libs,
      al_ids = \<lparr>lib_sha256 = (\<lambda>b. b), lib_uuid_v7 = (\<lambda>_ _. 7), lib_uuid_str = (\<lambda>_. ''m1''),
        lib_uuid_simple = (\<lambda>_. ''7''), lib_uuid_unix = (\<lambda>_. None)\<rparr>,
      al_mime = sample_mime, al_participant = (\<lambda>_. None), al_new_uuid = (\<lambda>_. 7), al_header_str = Some,
      al_json_str = (\<lambda>j. radix 10 (to_nat j)), al_spec_to_vec = (\<lambda>_. Some []),
      al_content_to_vec = (\<lambda>_. Some []), al_content_from_slice = (\<lambda>_. Some content_default), al_limit = []\<rparr>"

theorem fingerprint_eq_iff_witness:
  "\<forall>s. fingerprint (sample_api :: (unit, unit) api_libs) (inbox_new ''a@x'') ''send'' None s
     \<noteq> fingerprint (sample_api :: (unit, unit) api_libs) (inbox_new ''a@x'') ''reply'' None s"
proof -
  have "inj (lib_sha256 (al_ids (sample_api :: (unit, unit) api_libs)))" "inj (al_json_str (sample_api :: (unit, unit) api_libs))"
    using inj_radix_json by (simp_all add: sample_api_def inj_def)
  from fingerprint_eq_iff [OF this] show ?thesis by simp
qed

section \<open>Recipients of a reply\<close>

definition apart :: "(string \<Rightarrow> 'm option) \<Rightarrow> string list \<Rightarrow> bool" where
  "apart pp as \<longleftrightarrow> (\<forall>i j. i < j \<longrightarrow> j < length as \<longrightarrow> \<not> same_mailbox pp (as ! i) (as ! j))"

lemma apart_snoc: "apart pp (as @ [a]) \<longleftrightarrow> apart pp as \<and> (\<forall>b \<in> set as. \<not> same_mailbox pp b a)"
  unfolding apart_def by (auto simp: nth_append less_Suc_eq all_set_conv_all_nth)

lemma reply_all_fold:
  "apart pp out \<and> (\<forall>a \<in> set out. \<not> is_inbox pp inbox a \<and> (\<forall>d \<in> set direct. \<not> same_mailbox pp d a)) \<Longrightarrow>
   (let out' = fold (reply_all_step pp inbox direct) xs out in
    apart pp out' \<and> (\<forall>a \<in> set out'. \<not> is_inbox pp inbox a \<and> (\<forall>d \<in> set direct. \<not> same_mailbox pp d a))
    \<and> set out' \<subseteq> set out \<union> set xs
    \<and> (\<forall>x \<in> set xs. is_inbox pp inbox x \<or> (\<exists>a \<in> set direct \<union> set out'. same_mailbox pp a x))
    \<and> set out \<subseteq> set out')"
proof (induction xs arbitrary: out)
  case (Cons x xs)
  define out1 where "out1 = reply_all_step pp inbox direct x out"
  have 1: "apart pp out1 \<and> (\<forall>a \<in> set out1. \<not> is_inbox pp inbox a \<and> (\<forall>d \<in> set direct. \<not> same_mailbox pp d a))"
    "set out1 \<subseteq> insert x (set out)" "set out \<subseteq> set out1"
    "is_inbox pp inbox x \<or> (\<exists>a \<in> set direct \<union> set out1. same_mailbox pp a x)"
    using Cons.prems
    by (auto simp: out1_def reply_all_step_def Let_def apart_snoc list_ex_iff)
  from Cons.IH [OF 1(1)] 1(2-4) show ?case unfolding fold_simps comp_def out1_def [symmetric] Let_def by auto
qed simp

lemma reply_all_recipients_spec:
  "apart pp (reply_all_recipients pp inbox original direct)
   \<and> (\<forall>a \<in> set (reply_all_recipients pp inbox original direct).
        \<not> is_inbox pp inbox a \<and> (\<forall>d \<in> set direct. \<not> same_mailbox pp d a))
   \<and> (\<forall>x \<in> set (msg_to original) \<union> set (msg_cc original).
        is_inbox pp inbox x \<or> (\<exists>a \<in> set direct \<union> set (reply_all_recipients pp inbox original direct). same_mailbox pp a x))"
  using reply_all_fold [of pp "[]" inbox direct "msg_to original @ msg_cc original"]
  by (simp add: reply_all_recipients_def Let_def apart_def)

definition addressed :: "addresses_input option \<Rightarrow> string list" where
  "addressed input = (case input of None \<Rightarrow> [] | Some i \<Rightarrow> into_vec i)"

text \<open>
  Who a reply is for: the first list that names anyone. \<open>direct_recipients\<close> are its \<open>to\<close> and \<open>bcc\<close>:
  someone else's message is answered where its \<open>Reply-To\<close> says, else to its author; the inbox's own message
  goes again to whoever it went to, the blind copies staying blind; a note to itself goes to itself.
\<close>

definition first_named :: "string list list \<Rightarrow> string list" where
  "first_named ls = (case filter (\<lambda>l. l \<noteq> []) ls of [] \<Rightarrow> [] | l # _ \<Rightarrow> l)"

definition direct_recipients ::
  "(string \<Rightarrow> 'm option) \<Rightarrow> inbox_id \<Rightarrow> mail_message \<Rightarrow> string list \<Rightarrow> string list \<times> string list" where
  "direct_recipients pp inbox original reply_to =
     (let own = (\<lambda>a. same_mailbox pp a (inbox_str inbox)); others = filter (\<lambda>a. \<not> own a) in
      if own (msg_from original) then
        if others (msg_to original @ msg_cc original) = [] \<and> others (msg_bcc original) \<noteq> [] then ([], others (msg_bcc original))
        else (first_named [others (msg_to original), others (msg_cc original), [msg_from original]], [])
      else (first_named [others reply_to, [msg_from original]], []))"

lemma reply_bcc:
  assumes "reply_target pp inbox original reply_to = ReplyBcc bcc"
  shows "direct_recipients pp inbox original reply_to = ([], bcc)" and "bcc \<noteq> []"
    and "\<forall>a \<in> set bcc. \<not> same_mailbox pp a (inbox_str inbox)"
    and "\<forall>x \<in> set (msg_to original @ msg_cc original). same_mailbox pp x (inbox_str inbox)"
  using assms
  by (auto simp: reply_target_def direct_recipients_def Let_def without_inbox_def is_inbox_def filter_empty_conv
      split: if_splits)

lemma reply_direct:
  assumes "reply_target pp inbox original reply_to = ReplyDirect direct"
  shows "direct_recipients pp inbox original reply_to = (direct, [])" and "direct \<noteq> []"
    and "(\<exists>a \<in> set direct. same_mailbox pp a (inbox_str inbox)) \<Longrightarrow>
      (\<forall>x \<in> {msg_from original} \<union> set (msg_to original @ msg_cc original @ msg_bcc original). same_mailbox pp x (inbox_str inbox))"
  using assms
  by (auto simp: reply_target_def direct_recipients_def first_named_def Let_def without_inbox_def is_inbox_def
      filter_empty_conv split: if_splits)

text \<open>
  C23. A reply the caller addressed to nobody goes to someone, as \<open>direct_recipients\<close> says: to the others its
  \<open>Reply-To\<close> names, else to the author, or, of the inbox's own message, to its recipients again. The inbox
  itself is written to only when it wrote the original and nobody else is named in it. For \<open>reply_all\<close> every
  other recipient of the original is written to, in \<open>cc\<close> unless already addressed directly, two spellings of
  one mailbox counted as one; without it there are no copies.
\<close>

theorem address_reply_recipients:
  assumes "sr_to s = None" and "sr_cc s = None" and "sr_bcc s = None"
    and "s' = address_reply pp s inbox original reply_to reply_all"
  shows "(addressed (sr_to s'), addressed (sr_bcc s')) = direct_recipients pp inbox original reply_to
    \<and> addressed (sr_to s') @ addressed (sr_bcc s') \<noteq> []
    \<and> ((\<exists>a \<in> set (addressed (sr_to s') @ addressed (sr_bcc s') @ addressed (sr_cc s')). same_mailbox pp a (inbox_str inbox)) \<longrightarrow>
       (\<forall>x \<in> {msg_from original} \<union> set (msg_to original @ msg_cc original @ msg_bcc original). same_mailbox pp x (inbox_str inbox)))
    \<and> (\<forall>a \<in> set (addressed (sr_cc s')). \<forall>d \<in> set (addressed (sr_to s')). \<not> same_mailbox pp d a)
    \<and> apart pp (addressed (sr_cc s'))
    \<and> (if reply_all then \<forall>x \<in> set (msg_to original @ msg_cc original). same_mailbox pp x (inbox_str inbox) \<or>
           (\<exists>a \<in> set (addressed (sr_to s') @ addressed (sr_cc s')). same_mailbox pp a x)
       else addressed (sr_cc s') = [])"
proof (cases "reply_target pp inbox original reply_to")
  case (ReplyBcc bcc)
  note target = reply_bcc [OF ReplyBcc]
  have "addressed (sr_to s') = []" "addressed (sr_bcc s') = bcc" "addressed (sr_cc s') = []"
    using assms ReplyBcc by (simp_all add: address_reply_def addressed_def)
  with target show ?thesis by (auto simp: apart_def)
next
  case (ReplyDirect direct)
  note target = reply_direct [OF ReplyDirect]
  have "addressed (sr_to s') = direct" "addressed (sr_bcc s') = []"
    "addressed (sr_cc s') = (if reply_all then reply_all_recipients pp inbox original direct else [])"
    using assms ReplyDirect by (auto simp: address_reply_def addressed_def Let_def)
  with target reply_all_recipients_spec [of pp inbox original direct] show ?thesis
    by (auto simp: apart_def is_inbox_def)
qed

definition empty_request :: send_request where
  "empty_request =
     \<lparr>sr_to = None, sr_cc = None, sr_bcc = None, sr_reply_to = None, sr_subject = None, sr_text = Some ''hi'',
      sr_html = None, sr_labels = None, sr_headers = None, sr_attachments = None\<rparr>"

theorem address_reply_recipients_witness:
  "let s' = address_reply (\<lambda>_. None :: unit option) empty_request (inbox_new ''support@example.com'') sample_queued [] True in
   (addressed (sr_to s'), addressed (sr_bcc s')) =
     direct_recipients (\<lambda>_. None :: unit option) (inbox_new ''support@example.com'') sample_queued [] \<and>
   addressed (sr_to s') @ addressed (sr_bcc s') \<noteq> []"
  using address_reply_recipients [of empty_request, OF _ _ _ refl, of "\<lambda>_. None :: unit option"
      "inbox_new ''support@example.com''" sample_queued "[]" True]
  by (simp add: Let_def empty_request_def)

section \<open>References\<close>

definition keep_ends :: "nat \<Rightarrow> 'a list \<Rightarrow> 'a list" where
  "keep_ends n xs = (if length xs > n then xs ! 0 # drop (length xs - (n - 1)) xs else xs)"

lemma keep_ends:
  assumes "xs \<noteq> []" and "1 < n"
  shows "length (keep_ends n xs) \<le> n \<and> keep_ends n xs \<noteq> [] \<and> hd (keep_ends n xs) = hd xs
    \<and> last (keep_ends n xs) = last xs \<and> set (keep_ends n xs) \<subseteq> set xs"
proof (cases "length xs > n")
  case True
  then have "drop (length xs - (n - 1)) xs \<noteq> []" using assms by simp
  moreover have "xs ! 0 \<in> set xs" using assms(1) by simp
  ultimately show ?thesis using True assms set_drop_subset [of "length xs - (n - 1)" xs]
    by (simp add: keep_ends_def hd_conv_nth)
qed (use assms in \<open>simp add: keep_ends_def\<close>)

text \<open>
  The chain of references of a reply holds at most as many ids as are read back, starts with
  the id the original's chain starts with, and ends with the newest: the original's own id where
  its chain did not name it.
\<close>

theorem threading_references_bounded:
  "length (threading_references original refs) \<le> REFERENCES_MAX
   \<and> threading_references original refs \<noteq> []
   \<and> (refs \<noteq> [] \<longrightarrow> hd (threading_references original refs) = hd refs)
   \<and> (msg_rfc_message_id original \<notin> set refs \<longrightarrow> last (threading_references original refs) = msg_rfc_message_id original)
   \<and> set (threading_references original refs) \<subseteq> insert (msg_rfc_message_id original) (set refs)"
proof -
  define all where "all = (if msg_rfc_message_id original \<in> set refs then refs else refs @ [msg_rfc_message_id original])"
  have all: "all \<noteq> []" "refs \<noteq> [] \<longrightarrow> hd all = hd refs" "set all \<subseteq> insert (msg_rfc_message_id original) (set refs)"
    "msg_rfc_message_id original \<notin> set refs \<longrightarrow> last all = msg_rfc_message_id original"
    by (auto simp: all_def)
  have "threading_references original refs =
      (if length all > REFERENCES_MAX then all ! 0 # drop (length all - (REFERENCES_MAX - 1)) all else all)"
    by (simp add: threading_references_def all_def Let_def)
  then have t: "threading_references original refs = keep_ends REFERENCES_MAX all"
    by (simp add: keep_ends_def)
  show ?thesis unfolding t
    using keep_ends [OF all(1), of REFERENCES_MAX] all(2-4) by (auto simp: REFERENCES_MAX_def)
qed

end
