(* ===== verification/Bucket.thy ===== *)
theory Bucket
  imports SendRequests
begin

text \<open>
  The mail bucket as its clients rely on it while it answers: objects are written once, read back
  as written, and deleted; nothing else the operations touch changes. The locale holds what is proved
  of the content documents and of the outbox from this contract alone.
\<close>

locale healthy_bucket =
  fixes S :: "'w object_store"
    and stored :: "'w \<Rightarrow> string \<Rightarrow> bytes option"
    and healthy :: "'w \<Rightarrow> bool"
    and view :: "'w \<Rightarrow> 'v"
  assumes put_law: "healthy w \<Longrightarrow> \<exists>w'. obj_put_if_absent S key body ct w =
      (Inr (if stored w key = None then Created else AlreadyExists), w') \<and>
      stored w' = (if stored w key = None then (stored w)(key \<mapsto> body) else stored w) \<and>
      healthy w' \<and> view w' = view w"
    and get_there: "healthy w \<Longrightarrow> stored w key = Some b \<Longrightarrow> len_u64 b \<le> limit \<Longrightarrow>
      \<exists>w'. obj_get S key limit w = (Inr b, w') \<and> stored w' = stored w \<and> healthy w' \<and> view w' = view w"
    and get_missing: "healthy w \<Longrightarrow> stored w key = None \<Longrightarrow>
      \<exists>w'. obj_get S key limit w = (Inl ObjNotFound, w') \<and> stored w' = stored w \<and> healthy w' \<and> view w' = view w"
    and delete_law: "healthy w \<Longrightarrow> \<exists>w'. obj_delete S key w = (Inr (), w') \<and>
      stored w' = (stored w)(key := None) \<and> healthy w' \<and> view w' = view w"
begin

definition put_all :: "(string \<times> bytes) list \<Rightarrow> (string \<Rightarrow> bytes option) \<Rightarrow> string \<Rightarrow> bytes option" where
  "put_all kvs m = fold (\<lambda>(k, v) m. if m k = None then m(k \<mapsto> v) else m) kvs m"

lemma put_all_keeps: "m k = Some b \<Longrightarrow> put_all kvs m k = Some b"
proof (induction kvs arbitrary: m)
  case (Cons kv kvs)
  obtain k' v where kv: "kv = (k', v)" by force
  let ?m = "if m k' = None then m(k' \<mapsto> v) else m"
  have "?m k = Some b" using Cons.prems by auto
  then have "put_all kvs ?m k = Some b" by (rule Cons.IH)
  then show ?case by (simp add: put_all_def kv)
qed (simp add: put_all_def)

lemma put_all_other: "k \<notin> fst ` set kvs \<Longrightarrow> put_all kvs m k = m k"
  by (induction kvs arbitrary: m) (auto simp: put_all_def)

lemma put_all_from: "put_all kvs m k = Some b \<Longrightarrow> m k = Some b \<or> (k, b) \<in> set kvs"
proof (induction kvs arbitrary: m)
  case (Cons kv kvs)
  obtain k' v where kv: "kv = (k', v)" by force
  let ?m = "if m k' = None then m(k' \<mapsto> v) else m"
  from Cons.prems have "put_all kvs ?m k = Some b" by (simp add: put_all_def kv)
  then have "?m k = Some b \<or> (k, b) \<in> set kvs" by (rule Cons.IH)
  then show ?case by (auto simp: kv split: if_splits)
qed (simp add: put_all_def)

lemma put_all_there: "k \<in> fst ` set kvs \<Longrightarrow> put_all kvs m k \<noteq> None"
proof (induction kvs arbitrary: m)
  case (Cons kv kvs)
  obtain k' v where kv: "kv = (k', v)" by force
  let ?m = "if m k' = None then m(k' \<mapsto> v) else m"
  have step: "put_all (kv # kvs) m = put_all kvs ?m" by (simp add: put_all_def kv)
  show ?case
  proof (cases "k = k'")
    case True
    then obtain b where "?m k = Some b" by (cases "m k'") auto
    then show ?thesis unfolding step using put_all_keeps by fastforce
  next
    case False
    then show ?thesis unfolding step using Cons by (simp add: kv)
  qed
qed simp

section \<open>Content documents\<close>

lemma store_content_run:
  assumes "healthy w" and "serialize_within to_vec content MAX_CONTENT_BYTES = Some (body, dropped)"
  shows "\<exists>w'. store_content to_vec S inbox m content w = (Inr (), w') \<and> healthy w' \<and> view w' = view w \<and>
    stored w' = put_all [(content_object inbox (message_id_str m), body)] (stored w)"
  using put_law [OF assms(1), of "content_object inbox (message_id_str m)" body "''application/json''"] assms(2)
  by (auto simp: store_content_def put_all_def)

lemma load_content_run:
  assumes "healthy w" and "stored w (content_object (msg_inbox_id msg) (message_id_str (msg_message_id msg))) = Some body"
    and "len_u64 body \<le> MAX_CONTENT_BYTES" and "from_slice body = Some content"
  shows "\<exists>w'. load_content from_slice S msg w = (Inr content, w') \<and> stored w' = stored w \<and> healthy w'"
  using get_there [OF assms(1-3)] assms(4) by (auto simp: load_content_def)

text \<open>What was stored is loaded: the first degradation of the content that fits.\<close>

lemma content_roundtrip:
  assumes total: "\<And>c. to_vec c = Some (enc c)" and fits: "within_cap MAX_CONTENT_BYTES (enc content_default)"
    and decoded: "\<And>c. from_slice (enc c) = Some c" and w: "healthy w"
    and fresh: "stored w (content_object (msg_inbox_id msg) (message_id_str (msg_message_id msg))) = None"
  shows "\<exists>w1 w2 d. store_content to_vec S (msg_inbox_id msg) (msg_message_id msg) content w = (Inr (), w1) \<and>
    load_content from_slice S msg w1 = (Inr d, w2) \<and>
    find (\<lambda>d. within_cap MAX_CONTENT_BYTES (enc d)) (degradations content) = Some d"
proof -
  obtain d where d: "find (\<lambda>d. within_cap MAX_CONTENT_BYTES (enc d)) (degradations content) = Some d"
    "within_cap MAX_CONTENT_BYTES (enc d)"
    "serialize_within to_vec content MAX_CONTENT_BYTES = Some (enc d, \<not> within_cap MAX_CONTENT_BYTES (enc content))"
    using serialize_within_run [of to_vec enc MAX_CONTENT_BYTES content] total fits by blast
  obtain w1 where w1: "store_content to_vec S (msg_inbox_id msg) (msg_message_id msg) content w = (Inr (), w1)"
    "healthy w1" "stored w1 (content_object (msg_inbox_id msg) (message_id_str (msg_message_id msg))) = Some (enc d)"
    using store_content_run [OF w d(3), of "msg_inbox_id msg" "msg_message_id msg"] fresh
    by (auto simp: put_all_def)
  from load_content_run [OF w1(2,3), of from_slice d] decoded [of d] d(2) obtain w2 where
    "load_content from_slice S msg w1 = (Inr d, w2)" unfolding within_cap_def by blast
  with w1(1) d(1) show ?thesis by blast
qed

section \<open>The outbox\<close>

definition inline_puts :: "(validated_attachment \<times> spec_attachment) list \<Rightarrow> (string \<times> bytes) list" where
  "inline_puts ps = List.map_filter (\<lambda>(a, s). case (va_source a, sa_object_key s) of
     (SourceInline bytes, Some key) \<Rightarrow> Some (key, bytes) | _ \<Rightarrow> None) ps"

lemma upload_parts_run:
  "healthy w \<Longrightarrow> \<exists>w'. upload_parts S ps w = (Inr (), w') \<and> healthy w' \<and> view w' = view w \<and>
    stored w' = put_all (inline_puts ps) (stored w)"
proof (induction ps arbitrary: w)
  case Nil
  then show ?case by (simp add: api_ok_def inline_puts_def map_filter_def put_all_def)
next
  case (Cons p ps)
  obtain a s where p: "p = (a, s)" by force
  show ?case
  proof (cases "\<exists>bytes key. va_source a = SourceInline bytes \<and> sa_object_key s = Some key")
    case True
    then obtain bytes key where ks: "va_source a = SourceInline bytes" "sa_object_key s = Some key" by blast
    obtain out w1 where w1: "obj_put_if_absent S key bytes (sa_content_type s) w = (Inr out, w1)" "healthy w1"
      "view w1 = view w" "stored w1 = (if stored w key = None then (stored w)(key \<mapsto> bytes) else stored w)"
      using put_law [OF Cons.prems, of key bytes "sa_content_type s"] by blast
    from Cons.IH [OF w1(2)] w1 ks show ?thesis
      by (auto simp: p api_then_def object_api_def inline_puts_def map_filter_def put_all_def split: if_splits)
  next
    case False
    then have "upload_parts S (p # ps) = upload_parts S ps" "inline_puts (p # ps) = inline_puts ps"
      by (auto simp: p inline_puts_def map_filter_def split: attachment_source.split option.split)
    with Cons show ?thesis by simp
  qed
qed

lemma upload_spec_run:
  assumes "healthy w" and "al_spec_to_vec L spec = Some body"
  shows "\<exists>w'. upload_spec L S spec v w = (Inr (), w') \<and> healthy w' \<and> view w' = view w \<and>
    stored w' = put_all (inline_puts (zip (vs_attachments v) (spec_attachments spec))
      @ [(spec_object (message_id_str (spec_message_id spec)), body)]) (stored w)"
proof -
  obtain w1 where w1: "upload_parts S (zip (vs_attachments v) (spec_attachments spec)) w = (Inr (), w1)"
    "healthy w1" "view w1 = view w"
    "stored w1 = put_all (inline_puts (zip (vs_attachments v) (spec_attachments spec))) (stored w)"
    using upload_parts_run [OF assms(1)] by blast
  from put_law [OF w1(2), of "spec_object (message_id_str (spec_message_id spec))" body "''application/json''"]
    w1 assms(2) show ?thesis
    by (auto simp: upload_spec_def api_then_def api_ok_def object_api_def put_all_def split: if_splits)
qed

text \<open>Discarding removes every object the spec names, and nothing else.\<close>

definition spec_keys :: "send_spec \<Rightarrow> string set" where
  "spec_keys spec = insert (spec_object (message_id_str (spec_message_id spec)))
     {key. \<exists>a \<in> set (spec_attachments spec). sa_object_key a = Some key}"

lemma delete_all_run:
  "healthy w \<Longrightarrow> healthy (fold (\<lambda>key w. snd (obj_delete S key w)) ks w) \<and>
    view (fold (\<lambda>key w. snd (obj_delete S key w)) ks w) = view w \<and>
    stored (fold (\<lambda>key w. snd (obj_delete S key w)) ks w) = (\<lambda>k. if k \<in> set ks then None else stored w k)"
proof (induction ks arbitrary: w)
  case (Cons k ks)
  obtain w1 where w1: "obj_delete S k w = (Inr (), w1)" "stored w1 = (stored w)(k := None)" "healthy w1"
    "view w1 = view w" using delete_law [OF Cons.prems] by blast
  from Cons.IH [OF w1(3)] w1 show ?case by (auto simp: fun_eq_iff)
qed simp

lemma discard_uploads_run:
  assumes "healthy w"
  shows "healthy (discard_uploads S spec w)" and "view (discard_uploads S spec w) = view w"
    and "stored (discard_uploads S spec w) = (\<lambda>k. if k \<in> spec_keys spec then None else stored w k)"
proof -
  define ks where "ks = spec_object (message_id_str (spec_message_id spec)) # List.map_filter sa_object_key (spec_attachments spec)"
  have keys: "set ks = spec_keys spec"
    by (force simp: ks_def spec_keys_def map_filter_def image_iff)
  have "discard_uploads S spec w = fold (\<lambda>key w. snd (obj_delete S key w)) ks w"
    by (simp only: discard_uploads_def ks_def)
  with delete_all_run [OF assms, of ks] show "healthy (discard_uploads S spec w)"
    "view (discard_uploads S spec w) = view w"
    "stored (discard_uploads S spec w) = (\<lambda>k. if k \<in> spec_keys spec then None else stored w k)"
    unfolding keys by simp_all
qed

end

end
