(* ===== verification/Protocol.thy ===== *)
theory Protocol
  imports Sender
begin

text \<open>
  Senders, sweeps and operators at work on the same sends: an interleaving of their commits and
  of their calls to SES, with the conditions of the transactions of \<open>claim_send\<close>,
  \<open>note_ses_call\<close> and \<open>mark_send\<close>, which compare versions. A process may stop anywhere, and a commit
  may succeed although its caller saw an error. What is proved is that SES is handed a message at
  most once for each time it is queued, a refusal that invites a retry aside.
\<close>

section \<open>Steps\<close>

type_synonym sends = "message_id \<Rightarrow> send_state option"

text \<open>Where a sender is: it holds a claim, is about to call SES, or has its answer.\<close>

datatype pc = Idle | Held send_state | Calling send_state | Called send_state send_outcome

datatype send_event = Wrote send_state | CalledSes send_state send_outcome | Resent message_id

text \<open>The condition of a transaction conditioned on the version of \<open>st\<close>, and a status where it names one.\<close>

definition committed :: "sends \<Rightarrow> send_state \<Rightarrow> send_status option \<Rightarrow> bool" where
  "committed \<sigma> st expected \<longleftrightarrow> (\<exists>r. \<sigma> (snd_message_id st) = Some r \<and> snd_version r = snd_version st \<and>
     (\<forall>e. expected = Some e \<longrightarrow> snd_send_status r = e))"

definition under_cap :: "send_state \<Rightarrow> bool" where
  "under_cap st \<longleftrightarrow> \<not> snd_transient_failures st + 1 \<ge> MAX_TRANSIENT_FAILURES"

text \<open>What a sender at \<open>pc\<close> may record for the state it holds.\<close>

fun may_record :: "pc \<Rightarrow> send_state \<Rightarrow> mark_outcome \<Rightarrow> bool" where
  "may_record Idle st outcome = False"
| "may_record (Held c) st outcome = (st = c \<and> (case outcome of
     MFailed _ \<Rightarrow> True | MReleased \<Rightarrow> under_cap c | _ \<Rightarrow> False))"
| "may_record (Calling c) st outcome = False"
| "may_record (Called c answer) st outcome = (st = c \<and> (case answer of
     OutcomeSent x \<Rightarrow> (\<exists>s. outcome = MSent s \<and> ses_sent_message_id s = x)
   | OutcomeFailed _ \<Rightarrow> outcome = MFailed Rejected
   | OutcomeRetryable _ \<Rightarrow> outcome = (if under_cap c then MReleased else MFailed SesUnavailable)
   | OutcomeUnknown _ \<Rightarrow> outcome = MUnknown))"

text \<open>One step of one process: \<open>seen\<close> is what it may have read of the sends.\<close>

inductive proc_step :: "(send_state \<Rightarrow> bool) \<Rightarrow> pc \<Rightarrow> sends \<Rightarrow> send_event list \<Rightarrow> pc \<Rightarrow> sends \<Rightarrow> bool"
  for seen where
  proc_claim: "proc_step seen Idle \<sigma> [Wrote st] (Held st) (\<sigma>(snd_message_id st \<mapsto> st))"
    if "seen before" and "snd_send_status before = Queued" and "committed \<sigma> before (Some Queued)"
      and "st = claimed before now"
| proc_note: "proc_step seen (Held c) \<sigma> [Wrote st] (Calling st) (\<sigma>(snd_message_id st \<mapsto> st))"
    if "committed \<sigma> c (Some Sending)" and "st = calling_ses c now"
| proc_call: "proc_step seen (Calling st) \<sigma> [CalledSes st answer] (Called st answer) \<sigma>"
| proc_record: "proc_step seen pc \<sigma> [Wrote st'] pc (\<sigma>(snd_message_id st' \<mapsto> st'))"
    if "may_record pc st outcome" and "committed \<sigma> st None"
      and "st' = fst (mark_transition st msg outcome now)"
| proc_sweep: "proc_step seen pc \<sigma> [Wrote st'] pc (\<sigma>(snd_message_id st' \<mapsto> st'))"
    if "seen st" and "snd_send_status st = Sending" and "committed \<sigma> st None"
      and "st' = fst (mark_transition st msg (stale_outcome st) now)"
| proc_resolve: "proc_step seen pc \<sigma>
      ((if decision = Resend then [Resent (snd_message_id st)] else []) @ [Wrote st'])
      pc (\<sigma>(snd_message_id st' \<mapsto> st'))"
    if "seen st" and "snd_send_status st = Unknown" and "committed \<sigma> st None"
      and "st' = fst (mark_transition st msg (resolution_outcome decision) now)"
| proc_stop: "proc_step seen pc \<sigma> [] Idle \<sigma>"

text \<open>Any number of processes, and the requests that queue new sends.\<close>

record system =
  sys_sends :: sends
  sys_procs :: "nat \<Rightarrow> pc"
  sys_log :: "send_event list"

inductive system_step :: "system \<Rightarrow> system \<Rightarrow> bool" where
  sys_proc: "system_step s \<lparr>sys_sends = \<sigma>', sys_procs = (sys_procs s)(p := pc'), sys_log = sys_log s @ events\<rparr>"
    if "proc_step (\<lambda>st. Wrote st \<in> set (sys_log s)) (sys_procs s p) (sys_sends s) events pc' \<sigma>'"
| sys_enqueue: "system_step s
      (s\<lparr>sys_sends := (sys_sends s)(snd_message_id st \<mapsto> st), sys_log := sys_log s @ [Wrote st]\<rparr>)"
    if "sys_sends s (snd_message_id st) = None" and "snd_send_status st = Queued" and "snd_version st = 0"

inductive reachable :: "system \<Rightarrow> bool" where
  reach_start: "reachable \<lparr>sys_sends = Map.empty, sys_procs = (\<lambda>_. Idle), sys_log = []\<rparr>"
| reach_step: "reachable s \<Longrightarrow> system_step s s' \<Longrightarrow> reachable s'"

section \<open>Counting\<close>

fun is_retryable_answer :: "send_outcome \<Rightarrow> bool" where
  "is_retryable_answer (OutcomeRetryable _) = True"
| "is_retryable_answer _ = False"

text \<open>The calls for a message that SES may have accepted or refused for good, and its resends.\<close>

fun final_calls :: "message_id \<Rightarrow> send_event list \<Rightarrow> send_state list" where
  "final_calls m [] = []"
| "final_calls m (CalledSes st answer # log) =
     (if snd_message_id st = m \<and> \<not> is_retryable_answer answer then [st] else []) @ final_calls m log"
| "final_calls m (_ # log) = final_calls m log"

fun resends :: "message_id \<Rightarrow> send_event list \<Rightarrow> nat" where
  "resends m [] = 0"
| "resends m (Resent m' # log) = (if m' = m then 1 else 0) + resends m log"
| "resends m (_ # log) = resends m log"

fun called_states :: "send_event list \<Rightarrow> send_state list" where
  "called_states [] = []"
| "called_states (CalledSes st _ # log) = st # called_states log"
| "called_states (_ # log) = called_states log"

lemma final_calls_append [simp]: "final_calls m (xs @ ys) = final_calls m xs @ final_calls m ys"
  by (induction m xs rule: final_calls.induct) auto

lemma resends_append [simp]: "resends m (xs @ ys) = resends m xs + resends m ys"
  by (induction m xs rule: resends.induct) auto

lemma called_states_append [simp]: "called_states (xs @ ys) = called_states xs @ called_states ys"
  by (induction xs rule: called_states.induct) auto

lemma called_states_set: "List.set (called_states log) = {st. \<exists>answer. CalledSes st answer \<in> List.set log}"
  by (induction log rule: called_states.induct) auto

lemma final_calls_set:
  "List.set (final_calls m log) =
     {st. snd_message_id st = m \<and> (\<exists>answer. CalledSes st answer \<in> List.set log \<and> \<not> is_retryable_answer answer)}"
  by (induction m log rule: final_calls.induct) auto

lemma final_calls_distinct: "distinct (called_states log) \<Longrightarrow> distinct (final_calls m log)"
  by (induction m log rule: final_calls.induct) (auto simp: called_states_set final_calls_set)

definition noted :: "send_state \<Rightarrow> bool" where
  "noted st \<longleftrightarrow> snd_send_status st = Sending \<and> snd_ses_call_at st \<noteq> None"

definition burnt :: "send_event list \<Rightarrow> send_state \<Rightarrow> bool" where
  "burnt log st \<longleftrightarrow> (\<exists>answer. CalledSes st answer \<in> List.set log \<and> is_retryable_answer answer)"

text \<open>The permissions to call SES given out for a message, less those SES asked to use again.\<close>

definition permits :: "send_event list \<Rightarrow> message_id \<Rightarrow> send_state set" where
  "permits log m = {st. Wrote st \<in> List.set log \<and> snd_message_id st = m \<and> noted st \<and> \<not> burnt log st}"

text \<open>A send that may have gone out: settled, unknown, or noted and not refused with a retry.\<close>

definition locked :: "send_event list \<Rightarrow> send_state \<Rightarrow> bool" where
  "locked log r \<longleftrightarrow> snd_send_status r \<in> {Sent, Failed, Unknown} \<or> noted r \<and> \<not> burnt log r"

lemma finite_permits: "finite (permits log m)"
proof -
  have "permits log m \<subseteq> (\<lambda>e. case e of Wrote st \<Rightarrow> st) ` List.set log"
    by (force simp: permits_def image_iff)
  then show ?thesis by (rule finite_subset) simp
qed


section \<open>The invariant\<close>

text \<open>Versions: a row is the newest of the states written for its message, each under its own version.\<close>

definition versions_ok :: "sends \<Rightarrow> send_event list \<Rightarrow> bool" where
  "versions_ok \<sigma> log \<longleftrightarrow>
     (\<forall>st. Wrote st \<in> List.set log \<longrightarrow> (\<exists>r. \<sigma> (snd_message_id st) = Some r \<and>
        unat (snd_version st) \<le> unat (snd_version r) \<and> (snd_version st = snd_version r \<longrightarrow> st = r))) \<and>
     (\<forall>m r. \<sigma> m = Some r \<longrightarrow> Wrote r \<in> List.set log \<and> snd_message_id r = m \<and>
        unat (snd_version r) < length log)"

fun in_call :: "pc \<Rightarrow> send_state option" where
  "in_call (Calling st) = Some st"
| "in_call (Called st _) = Some st"
| "in_call _ = None"

definition procs_ok :: "(nat \<Rightarrow> pc) \<Rightarrow> send_event list \<Rightarrow> bool" where
  "procs_ok procs log \<longleftrightarrow>
     (\<forall>p c. procs p = Held c \<longrightarrow>
        Wrote c \<in> List.set log \<and> snd_send_status c = Sending \<and> snd_ses_call_at c = None) \<and>
     (\<forall>p st. in_call (procs p) = Some st \<longrightarrow> Wrote st \<in> List.set log \<and> noted st) \<and>
     (\<forall>p q st. in_call (procs p) = Some st \<and> in_call (procs q) = Some st \<longrightarrow> p = q) \<and>
     (\<forall>p st. procs p = Calling st \<longrightarrow> st \<notin> List.set (called_states log)) \<and>
     (\<forall>p st answer. procs p = Called st answer \<longrightarrow> CalledSes st answer \<in> List.set log)"

definition calls_ok :: "send_event list \<Rightarrow> bool" where
  "calls_ok log \<longleftrightarrow> distinct (called_states log) \<and>
     (\<forall>st \<in> List.set (called_states log). Wrote st \<in> List.set log \<and> noted st)"

definition count_ok :: "sends \<Rightarrow> send_event list \<Rightarrow> bool" where
  "count_ok \<sigma> log \<longleftrightarrow> (\<forall>m. card (permits log m) \<le> resends m log +
     (case \<sigma> m of None \<Rightarrow> 0 | Some r \<Rightarrow> if locked log r then 1 else 0))"

definition protocol_inv :: "system \<Rightarrow> bool" where
  "protocol_inv s \<longleftrightarrow> versions_ok (sys_sends s) (sys_log s) \<and> procs_ok (sys_procs s) (sys_log s) \<and>
     calls_ok (sys_log s) \<and> count_ok (sys_sends s) (sys_log s)"

text \<open>A committed write was computed from the row it replaces.\<close>

lemma committed_row:
  assumes "versions_ok \<sigma> log" and "Wrote st \<in> List.set log" and "committed \<sigma> st expected"
  shows "\<sigma> (snd_message_id st) = Some st" and "expected = Some e \<Longrightarrow> snd_send_status st = e"
proof -
  obtain r where r: "\<sigma> (snd_message_id st) = Some r" "snd_version st = snd_version r \<longrightarrow> st = r"
    using assms(1,2) unfolding versions_ok_def by blast
  with assms(3) have "st = r" by (auto simp: committed_def)
  with r(1) assms(3) show "\<sigma> (snd_message_id st) = Some st"
    "expected = Some e \<Longrightarrow> snd_send_status st = e" by (auto simp: committed_def)
qed

definition next_state :: "send_state \<Rightarrow> send_state \<Rightarrow> bool" where
  "next_state st st' \<longleftrightarrow> snd_message_id st' = snd_message_id st \<and> snd_version st' = snd_version st + 1"

lemma next_states [simp]:
  "next_state st (claimed st now)" "next_state st (calling_ses st now)"
  "next_state st (fst (mark_transition st msg outcome now))"
  by (simp_all add: next_state_def send_transition_defs) (cases outcome; simp add: settled_def send_transition_defs)+

lemma next_version:
  assumes "versions_ok \<sigma> log" and "\<sigma> (snd_message_id st) = Some st" and "next_state st st'"
    and "length log < 2 ^ 64"
  shows "unat (snd_version st') = unat (snd_version st) + 1"
proof -
  have "unat (snd_version st) < length log" using assms(1,2) unfolding versions_ok_def by blast
  with assms(4) have "unat (snd_version st) + 1 < 2 ^ 64" by linarith
  then show ?thesis using assms(3) unat_add_lem [of "snd_version st" 1] by (simp add: next_state_def)
qed

lemma fresh_state:
  assumes "versions_ok \<sigma> log" and "\<sigma> (snd_message_id st) = Some st" and "next_state st st'"
    and "length log < 2 ^ 64"
  shows "Wrote st' \<notin> List.set log"
proof
  assume "Wrote st' \<in> List.set log"
  then obtain r where "\<sigma> (snd_message_id st') = Some r" "unat (snd_version st') \<le> unat (snd_version r)"
    using assms(1) unfolding versions_ok_def by blast
  with assms(2,3) next_version [OF assms] show False by (simp add: next_state_def)
qed

lemma versions_ok_write:
  assumes ok: "versions_ok \<sigma> log" and row: "\<sigma> (snd_message_id st) = Some st" and nxt: "next_state st st'"
    and bound: "length log < 2 ^ 64" and extra: "\<And>x. Wrote x \<notin> List.set extra"
  shows "versions_ok (\<sigma>(snd_message_id st' \<mapsto> st')) (log @ extra @ [Wrote st'])"
proof -
  have mid: "snd_message_id st' = snd_message_id st" using nxt by (simp add: next_state_def)
  have v: "unat (snd_version st') = unat (snd_version st) + 1" by (rule next_version [OF ok row nxt bound])
  have old: "\<exists>r. \<sigma> (snd_message_id x) = Some r \<and> unat (snd_version x) \<le> unat (snd_version r) \<and>
      (snd_version x = snd_version r \<longrightarrow> x = r)" if "Wrote x \<in> List.set log" for x
    using ok that unfolding versions_ok_def by blast
  have rows: "Wrote r \<in> List.set log \<and> snd_message_id r = m \<and> unat (snd_version r) < length log"
    if "\<sigma> m = Some r" for m r
    using ok that unfolding versions_ok_def by blast
  have "\<exists>r. (\<sigma>(snd_message_id st' \<mapsto> st')) (snd_message_id x) = Some r \<and>
      unat (snd_version x) \<le> unat (snd_version r) \<and> (snd_version x = snd_version r \<longrightarrow> x = r)"
    if "Wrote x \<in> List.set (log @ extra @ [Wrote st'])" for x
  proof (cases "x = st'")
    case False
    with that extra have x: "Wrote x \<in> List.set log" by auto
    show ?thesis
    proof (cases "snd_message_id x = snd_message_id st")
      case True
      with old [OF x] row have "unat (snd_version x) < unat (snd_version st')" using v by simp
      moreover from this have "snd_version x \<noteq> snd_version st'" by auto
      ultimately show ?thesis using True mid by simp
    qed (use old [OF x] mid in simp)
  qed simp
  moreover have "Wrote r \<in> List.set (log @ extra @ [Wrote st']) \<and> snd_message_id r = m \<and>
      unat (snd_version r) < length (log @ extra @ [Wrote st'])"
    if "(\<sigma>(snd_message_id st' \<mapsto> st')) m = Some r" for m r
  proof (cases "m = snd_message_id st'")
    case True
    with that have "r = st'" by simp
    with True v rows [OF row] show ?thesis by simp
  next
    case False
    with that rows [of m r] show ?thesis by simp
  qed
  ultimately show ?thesis unfolding versions_ok_def by blast
qed

text \<open>How the counted sets move with one write and with one call.\<close>

lemma called_states_events [simp]:
  "called_states (log @ extra @ [Wrote st']) = called_states log @ called_states extra"
  by simp

lemma burnt_write:
  "\<forall>x a. CalledSes x a \<notin> List.set extra \<Longrightarrow> burnt (log @ extra @ [Wrote st']) x = burnt log x"
  by (auto simp: burnt_def)

lemma permits_write:
  assumes "Wrote st' \<notin> List.set log" and "calls_ok log"
    and "\<forall>x a. CalledSes x a \<notin> List.set extra" and "\<forall>x. Wrote x \<notin> List.set extra"
  shows "permits (log @ extra @ [Wrote st']) m =
    (if snd_message_id st' = m \<and> noted st' then insert st' (permits log m) else permits log m)"
proof -
  have "\<not> burnt log st'" using assms(1,2) by (auto simp: burnt_def calls_ok_def called_states_set)
  then show ?thesis using assms(3,4) by (auto simp: permits_def burnt_write)
qed

lemma count_ok_write:
  assumes count: "count_ok \<sigma> log" and calls: "calls_ok log"
    and row: "\<sigma> (snd_message_id st) = Some st" and mid: "snd_message_id st' = snd_message_id st"
    and fresh: "Wrote st' \<notin> List.set log"
    and extra: "extra = [] \<or> extra = [Resent (snd_message_id st)]"
    and unlock: "locked log st \<Longrightarrow> locked log st' \<or> extra \<noteq> []"
    and noting: "noted st' \<Longrightarrow> \<not> locked log st"
  shows "count_ok (\<sigma>(snd_message_id st' \<mapsto> st')) (log @ extra @ [Wrote st'])"
  unfolding count_ok_def
proof
  fix m
  let ?log = "log @ extra @ [Wrote st']"
  have ex: "\<forall>x a. CalledSes x a \<notin> List.set extra" "\<forall>x. Wrote x \<notin> List.set extra" using extra by auto
  have lock: "locked ?log x = locked log x" for x by (simp add: locked_def burnt_write [OF ex(1)])
  have fresh': "\<not> burnt log st'" using fresh calls by (auto simp: burnt_def calls_ok_def called_states_set)
  have old: "card (permits log m) \<le> resends m log +
      (case \<sigma> m of None \<Rightarrow> 0 | Some r \<Rightarrow> if locked log r then 1 else 0)" for m
    using count unfolding count_ok_def by blast
  show "card (permits ?log m) \<le> resends m ?log +
      (case (\<sigma>(snd_message_id st' \<mapsto> st')) m of None \<Rightarrow> 0 | Some r \<Rightarrow> if locked ?log r then 1 else 0)"
  proof (cases "m = snd_message_id st")
    case False
    then have "permits ?log m = permits log m" "(\<sigma>(snd_message_id st' \<mapsto> st')) m = \<sigma> m"
      using permits_write [OF fresh calls ex] mid by auto
    moreover have "resends m ?log = resends m log" using extra False by auto
    ultimately show ?thesis using old [of m] by (simp only: lock)
  next
    case True
    have now: "(\<sigma>(snd_message_id st' \<mapsto> st')) m = Some st'" "\<sigma> m = Some st" using True mid row by simp_all
    have re: "resends m ?log = resends m log + (if extra = [] then 0 else 1)" using extra True by auto
    have card: "card (permits ?log m) \<le> card (permits log m) + (if noted st' then 1 else 0)"
      using permits_write [OF fresh calls ex, of m] card_insert_le_m1 finite_permits
      by (auto simp: card_insert_if)
    have "noted st' \<Longrightarrow> locked log st'" using fresh' by (simp add: locked_def)
    with old [of m] card unlock noting show ?thesis
      unfolding re now option.case lock by (auto split: if_splits)
  qed
qed


lemma calls_ok_write:
  assumes "calls_ok log" and "\<forall>x a. CalledSes x a \<notin> List.set extra"
  shows "calls_ok (log @ extra @ [Wrote st'])"
proof -
  have "called_states extra = []" using assms(2) called_states_set [of extra] by (auto simp flip: set_empty)
  with assms(1) show ?thesis by (auto simp: calls_ok_def)
qed

lemma procs_ok_write:
  assumes "procs_ok procs log" and "\<forall>x a. CalledSes x a \<notin> List.set extra"
  shows "procs_ok procs (log @ extra @ [Wrote st'])"
proof -
  have "called_states extra = []" using assms(2) called_states_set [of extra] by (auto simp flip: set_empty)
  then show ?thesis using assms(1) unfolding procs_ok_def by (simp only: called_states_events append_Nil2) auto
qed

lemma procs_ok_idle: "procs_ok procs log \<Longrightarrow> procs_ok (procs(p := Idle)) log"
  unfolding procs_ok_def by (auto split: if_splits)

lemma procs_ok_held:
  assumes "procs_ok procs log" and "Wrote c \<in> List.set log" and "snd_send_status c = Sending"
    and "snd_ses_call_at c = None"
  shows "procs_ok (procs(p := Held c)) log"
  using assms unfolding procs_ok_def by (auto split: if_splits)

lemma procs_ok_calling:
  assumes "procs_ok procs log" and "Wrote st \<notin> List.set log" and "calls_ok log" and "noted st"
  shows "procs_ok (procs(p := Calling st)) (log @ [] @ [Wrote st])"
proof -
  have "in_call (procs q) \<noteq> Some st" for q using assms(1,2) unfolding procs_ok_def by blast
  moreover have "st \<notin> List.set (called_states log)" using assms(2,3) unfolding calls_ok_def by blast
  ultimately show ?thesis
    using assms(1,4) unfolding procs_ok_def by (auto split: if_splits)
qed

lemma procs_ok_called:
  assumes "procs_ok procs log" and "procs p = Calling st"
  shows "procs_ok (procs(p := Called st answer)) (log @ [CalledSes st answer])"
proof -
  have p: "Wrote st \<in> List.set log" "noted st" and other: "in_call (procs q) = Some st \<Longrightarrow> q = p" for q
    using assms unfolding procs_ok_def by (metis in_call.simps(1))+
  have "procs q \<noteq> Calling st" if "q \<noteq> p" for q using other [of q] that by auto
  with assms p other show ?thesis
    unfolding procs_ok_def by (auto split: if_splits)
qed

text \<open>A call uses the permission it was given, and gives it back when SES asks for a retry.\<close>

lemma count_ok_call:
  assumes count: "count_ok \<sigma> log" and ver: "versions_ok \<sigma> log"
    and st: "Wrote st \<in> List.set log" "noted st" "st \<notin> List.set (called_states log)"
  shows "count_ok \<sigma> (log @ [CalledSes st answer])"
  unfolding count_ok_def
proof
  fix m
  let ?log = "log @ [CalledSes st answer]"
  have old: "card (permits log m) \<le> resends m log +
      (case \<sigma> m of None \<Rightarrow> 0 | Some r \<Rightarrow> if locked log r then 1 else 0)"
    using count unfolding count_ok_def by blast
  have burn: "burnt ?log x \<longleftrightarrow> burnt log x \<or> x = st \<and> is_retryable_answer answer" for x
    by (auto simp: burnt_def)
  have nb: "\<not> burnt log st" using st(3) by (auto simp: burnt_def called_states_set)
  show "card (permits ?log m) \<le> resends m ?log +
      (case \<sigma> m of None \<Rightarrow> 0 | Some r \<Rightarrow> if locked ?log r then 1 else 0)"
  proof (cases "is_retryable_answer answer \<and> snd_message_id st = m")
    case False
    then have "permits ?log m = permits log m" by (auto simp: permits_def burn)
    moreover have "locked ?log r = locked log r" if "\<sigma> m = Some r" for r
      using False ver that unfolding versions_ok_def by (auto simp: locked_def burn)
    ultimately show ?thesis using old by (cases "\<sigma> m") simp_all
  next
    case True
    have mem: "st \<in> permits log m" using st True nb by (simp add: permits_def)
    have "permits ?log m = permits log m - {st}" using True by (auto simp: permits_def burn)
    then have less: "card (permits ?log m) + 1 = card (permits log m)"
      using card_Suc_Diff1 [OF finite_permits mem] by simp
    show ?thesis using old less by (auto split: option.splits if_splits)
  qed
qed

lemma calls_ok_call:
  "calls_ok log \<Longrightarrow> Wrote st \<in> List.set log \<Longrightarrow> noted st \<Longrightarrow> st \<notin> List.set (called_states log) \<Longrightarrow>
     calls_ok (log @ [CalledSes st answer])"
  by (auto simp: calls_ok_def)

lemma versions_ok_call: "versions_ok \<sigma> log \<Longrightarrow> versions_ok \<sigma> (log @ [CalledSes st answer])"
  unfolding versions_ok_def by (auto simp: less_SucI)


section \<open>Every step keeps it\<close>

text \<open>A write of the next state of a row, by whoever held the row.\<close>

lemma inv_write:
  assumes inv: "versions_ok \<sigma> log" "procs_ok procs log" "calls_ok log" "count_ok \<sigma> log"
    and bound: "length log < 2 ^ 64" and seen: "Wrote st \<in> List.set log"
    and commit: "committed \<sigma> st expected" and nxt: "next_state st st'"
    and extra: "extra = [] \<or> extra = [Resent (snd_message_id st)]"
    and unlock: "locked log st \<Longrightarrow> locked log st' \<or> extra \<noteq> []"
    and noting: "noted st' \<Longrightarrow> \<not> locked log st"
  shows "versions_ok (\<sigma>(snd_message_id st' \<mapsto> st')) (log @ extra @ [Wrote st'])"
    and "procs_ok procs (log @ extra @ [Wrote st'])" and "calls_ok (log @ extra @ [Wrote st'])"
    and "count_ok (\<sigma>(snd_message_id st' \<mapsto> st')) (log @ extra @ [Wrote st'])"
    and "Wrote st' \<notin> List.set log"
proof -
  have ex: "\<forall>x a. CalledSes x a \<notin> List.set extra" "\<And>x. Wrote x \<notin> List.set extra" using extra by auto
  have row: "\<sigma> (snd_message_id st) = Some st" by (rule committed_row(1) [OF inv(1) seen commit])
  show fresh: "Wrote st' \<notin> List.set log" by (rule fresh_state [OF inv(1) row nxt bound])
  show "versions_ok (\<sigma>(snd_message_id st' \<mapsto> st')) (log @ extra @ [Wrote st'])"
    by (rule versions_ok_write [OF inv(1) row nxt bound ex(2)])
  show "procs_ok procs (log @ extra @ [Wrote st'])" by (rule procs_ok_write [OF inv(2) ex(1)])
  show "calls_ok (log @ extra @ [Wrote st'])" by (rule calls_ok_write [OF inv(3) ex(1)])
  show "count_ok (\<sigma>(snd_message_id st' \<mapsto> st')) (log @ extra @ [Wrote st'])"
    using nxt by (intro count_ok_write [OF inv(4,3) row _ fresh extra unlock noting]) (simp_all add: next_state_def)
qed

lemma marked_status:
  "snd_send_status (fst (mark_transition st msg outcome now)) = (case outcome of
     MSent _ \<Rightarrow> Sent | MFailed _ \<Rightarrow> Failed | MUnknown \<Rightarrow> Unknown | MReleased \<Rightarrow> Queued
   | MClosedSent \<Rightarrow> Sent | MResumed \<Rightarrow> Queued)"
  by (cases outcome) (simp_all add: settled_def send_transition_defs)

lemma marked_not_noted: "\<not> noted (fst (mark_transition st msg outcome now))"
  by (simp add: noted_def marked_status split: mark_outcome.split)

lemma marked_locked:
  "outcome \<notin> {MReleased, MResumed} \<Longrightarrow> locked log (fst (mark_transition st msg outcome now))"
  by (simp add: locked_def marked_status split: mark_outcome.split)

lemma may_record_seen:
  assumes "procs_ok procs log" and "may_record (procs p) st outcome"
  shows "Wrote st \<in> List.set log"
proof (cases "procs p")
  case (Held c)
  with assms show ?thesis unfolding procs_ok_def by simp
next
  case (Called c answer)
  with assms(2) have "in_call (procs p) = Some st" by simp
  with assms(1) show ?thesis unfolding procs_ok_def by blast
qed (use assms(2) in simp_all)

lemma proc_step_inv:
  assumes step: "proc_step (\<lambda>st. Wrote st \<in> List.set log) (procs p) \<sigma> events pc' \<sigma>'"
    and inv: "versions_ok \<sigma> log" "procs_ok procs log" "calls_ok log" "count_ok \<sigma> log"
    and bound: "length log < 2 ^ 64"
  shows "versions_ok \<sigma>' (log @ events) \<and> procs_ok (procs(p := pc')) (log @ events) \<and>
    calls_ok (log @ events) \<and> count_ok \<sigma>' (log @ events)"
  using step
proof cases
  case (proc_claim before st now)
  have "snd_message_id st = snd_message_id before" using proc_claim by (simp add: claimed_def)
  have "snd_send_status st = Sending" "snd_ses_call_at st = None" using proc_claim by (simp_all add: claimed_def)
  then have "\<not> noted st" by (simp add: noted_def)
  moreover have "\<not> locked log before" using proc_claim by (simp add: locked_def noted_def)
  ultimately have w: "versions_ok \<sigma>' (log @ [] @ [Wrote st])" "procs_ok procs (log @ [] @ [Wrote st])"
      "calls_ok (log @ [] @ [Wrote st])" "count_ok \<sigma>' (log @ [] @ [Wrote st])"
    using proc_claim inv_write [OF inv bound, of before "Some Queued" st "[]"] by simp_all
  from procs_ok_held [OF w(2), of st p] proc_claim w \<open>snd_send_status st = Sending\<close> \<open>snd_ses_call_at st = None\<close>
  show ?thesis by simp
next
  case (proc_note c st now)
  have c: "Wrote c \<in> List.set log" "snd_ses_call_at c = None"
    using inv(2) proc_note(1) unfolding procs_ok_def by simp_all
  have "snd_send_status c = Sending" using committed_row(2) [OF inv(1) c(1) proc_note(5)] by simp
  then have st: "noted st" and un: "\<not> locked log c"
    using proc_note c(2) by (simp_all add: noted_def locked_def calling_ses_def)
  have w: "versions_ok \<sigma>' (log @ [] @ [Wrote st])" "calls_ok (log @ [] @ [Wrote st])"
      "count_ok \<sigma>' (log @ [] @ [Wrote st])" "Wrote st \<notin> List.set log"
    using proc_note un inv_write [OF inv bound c(1) proc_note(5), of st "[]"] by simp_all
  from procs_ok_calling [OF inv(2) w(4) inv(3) st] w proc_note show ?thesis by simp
next
  case (proc_call st answer)
  have st: "Wrote st \<in> List.set log" "noted st" "st \<notin> List.set (called_states log)"
    using inv(2) proc_call(1) unfolding procs_ok_def by (metis in_call.simps(1))+
  from proc_call inv versions_ok_call procs_ok_called [OF inv(2) proc_call(1)] calls_ok_call [OF inv(3) st]
    count_ok_call [OF inv(4,1) st]
  show ?thesis by simp
next
  case (proc_record st outcome st' msg now)
  have seen: "Wrote st \<in> List.set log"
    by (rule may_record_seen [OF inv(2) proc_record(4)])
  have unlock: "locked log st \<Longrightarrow> locked log st'"
  proof -
    assume lock: "locked log st"
    have "outcome \<noteq> MResumed" using proc_record(4)
      by (cases "procs p") (auto split: mark_outcome.splits send_outcome.splits if_splits)
    moreover have "outcome \<noteq> MReleased"
    proof
      assume rel: "outcome = MReleased"
      show False
      proof (cases "procs p")
        case (Held c)
        with proc_record(4) inv(2) lock show False
          unfolding procs_ok_def by (auto simp: locked_def noted_def)
      next
        case (Called c answer)
        with proc_record(4) rel have "is_retryable_answer answer" "c = st"
          by (cases answer; simp)+
        moreover have "CalledSes c answer \<in> List.set log" "noted c"
          using Called inv(2) unfolding procs_ok_def by (metis in_call.simps(2))+
        ultimately show False using lock by (auto simp: locked_def noted_def burnt_def)
      qed (use proc_record(4) in simp_all)
    qed
    ultimately show ?thesis using proc_record(6) by (simp add: marked_locked)
  qed
  have "versions_ok \<sigma>' (log @ [] @ [Wrote st'])" "procs_ok procs (log @ [] @ [Wrote st'])"
      "calls_ok (log @ [] @ [Wrote st'])" "count_ok \<sigma>' (log @ [] @ [Wrote st'])"
    using proc_record inv_write [OF inv bound seen proc_record(5), of st' "[]"] unlock marked_not_noted
    by simp_all
  with proc_record show ?thesis by (simp add: fun_upd_idem)
next
  case (proc_sweep st st' msg now)
  have unlock: "locked log st \<Longrightarrow> locked log st'"
    using proc_sweep marked_locked [of "stale_outcome st"]
    by (cases "snd_ses_call_at st") (auto simp: locked_def [of log st] noted_def stale_outcome_def)
  have "versions_ok \<sigma>' (log @ [] @ [Wrote st'])" "procs_ok procs (log @ [] @ [Wrote st'])"
      "calls_ok (log @ [] @ [Wrote st'])" "count_ok \<sigma>' (log @ [] @ [Wrote st'])"
    using proc_sweep inv_write [OF inv bound proc_sweep(4,6), of st' "[]"] unlock marked_not_noted
    by simp_all
  with proc_sweep show ?thesis by (simp add: fun_upd_idem)
next
  case (proc_resolve st st' msg decision now)
  let ?extra = "if decision = Resend then [Resent (snd_message_id st)] else []"
  have unlock: "locked log st' \<or> ?extra \<noteq> []"
    using marked_locked [of "resolution_outcome decision" log st msg now] proc_resolve(7) by (cases decision) auto
  have "versions_ok \<sigma>' (log @ ?extra @ [Wrote st'])" "procs_ok procs (log @ ?extra @ [Wrote st'])"
      "calls_ok (log @ ?extra @ [Wrote st'])" "count_ok \<sigma>' (log @ ?extra @ [Wrote st'])"
    using proc_resolve inv_write [OF inv bound proc_resolve(4,6), of st' ?extra] unlock marked_not_noted
    by (simp_all split: if_splits)
  with proc_resolve show ?thesis by (simp add: fun_upd_idem)
next
  case proc_stop
  with inv procs_ok_idle [OF inv(2)] show ?thesis by simp
qed


lemma enqueue_inv:
  assumes inv: "versions_ok \<sigma> log" "procs_ok procs log" "calls_ok log" "count_ok \<sigma> log"
    and new: "\<sigma> (snd_message_id st) = None" "snd_send_status st = Queued" "snd_version st = 0"
  shows "versions_ok (\<sigma>(snd_message_id st \<mapsto> st)) (log @ [Wrote st])" "procs_ok procs (log @ [Wrote st])"
    "calls_ok (log @ [Wrote st])" "count_ok (\<sigma>(snd_message_id st \<mapsto> st)) (log @ [Wrote st])"
proof -
  have none: "snd_message_id x \<noteq> snd_message_id st" if x: "Wrote x \<in> List.set log" for x
  proof -
    obtain r where "\<sigma> (snd_message_id x) = Some r" using inv(1) x unfolding versions_ok_def by blast
    with new(1) show ?thesis by auto
  qed
  have rows: "Wrote r \<in> List.set log \<and> snd_message_id r = m \<and> unat (snd_version r) < length log"
    if "\<sigma> m = Some r" for m r
    using inv(1) that unfolding versions_ok_def by blast
  show "versions_ok (\<sigma>(snd_message_id st \<mapsto> st)) (log @ [Wrote st])"
    unfolding versions_ok_def
  proof (intro conjI allI impI)
    fix x
    assume "Wrote x \<in> List.set (log @ [Wrote st])"
    then consider "Wrote x \<in> List.set log" | "x = st" by auto
    then show "\<exists>r. (\<sigma>(snd_message_id st \<mapsto> st)) (snd_message_id x) = Some r \<and>
        unat (snd_version x) \<le> unat (snd_version r) \<and> (snd_version x = snd_version r \<longrightarrow> x = r)"
    proof cases
      case 1
      with none [OF 1] inv(1) show ?thesis unfolding versions_ok_def by simp
    qed simp
  next
    fix m r
    assume r: "(\<sigma>(snd_message_id st \<mapsto> st)) m = Some r"
    have "Wrote r \<in> List.set (log @ [Wrote st]) \<and> snd_message_id r = m \<and>
        unat (snd_version r) < length (log @ [Wrote st])"
    proof (cases "m = snd_message_id st")
      case True
      with r new(3) show ?thesis by simp
    next
      case False
      with r rows [of m r] show ?thesis by simp
    qed
    then show "Wrote r \<in> List.set (log @ [Wrote st])" "snd_message_id r = m"
      "unat (snd_version r) < length (log @ [Wrote st])" by blast+
  qed
  show "procs_ok procs (log @ [Wrote st])" using procs_ok_write [OF inv(2), of "[]"] by simp
  show "calls_ok (log @ [Wrote st])" using calls_ok_write [OF inv(3), of "[]"] by simp
  have fresh: "Wrote st \<notin> List.set log" using none by blast
  have nn: "\<not> noted st" using new(2) by (simp add: noted_def)
  have "permits (log @ [Wrote st]) m = permits log m" for m
    using permits_write [OF fresh inv(3), of "[]" m] nn by simp
  note same = this
  have lock: "locked (log @ [Wrote st]) = locked log"
    using burnt_write [of "[]" log st] by (intro ext) (simp add: locked_def)
  have "permits log (snd_message_id st) = {}" using none by (auto simp: permits_def)
  then show "count_ok (\<sigma>(snd_message_id st \<mapsto> st)) (log @ [Wrote st])"
    using inv(4) unfolding count_ok_def same lock by simp
qed

lemma system_step_log: "system_step s s' \<Longrightarrow> length (sys_log s) \<le> length (sys_log s')"
  by (auto elim!: system_step.cases)

lemma reachable_inv:
  "reachable s \<Longrightarrow> length (sys_log s) < 2 ^ 64 \<Longrightarrow> protocol_inv s"
proof (induction rule: reachable.induct)
  case reach_start
  then show ?case
    by (simp add: protocol_inv_def versions_ok_def procs_ok_def calls_ok_def count_ok_def permits_def)
next
  case (reach_step s s')
  have bound: "length (sys_log s) < 2 ^ 64"
    using reach_step.prems system_step_log [OF reach_step.hyps(2)] by simp
  with reach_step.IH have inv: "versions_ok (sys_sends s) (sys_log s)" "procs_ok (sys_procs s) (sys_log s)"
    "calls_ok (sys_log s)" "count_ok (sys_sends s) (sys_log s)" by (simp_all add: protocol_inv_def)
  from reach_step.hyps(2) show ?case
  proof cases
    case (sys_proc p events pc' \<sigma>')
    from proc_step_inv [OF sys_proc(2) inv bound] sys_proc(1) show ?thesis by (simp add: protocol_inv_def)
  next
    case (sys_enqueue st)
    from enqueue_inv [OF inv sys_enqueue(2-4)] sys_enqueue(1) show ?thesis by (simp add: protocol_inv_def)
  qed
qed

lemma final_calls_permits:
  assumes "calls_ok log"
  shows "length (final_calls m log) \<le> card (permits log m)"
proof -
  have d: "distinct (called_states log)" using assms by (simp add: calls_ok_def)
  have once: "a = b" if "CalledSes st a \<in> List.set log" "CalledSes st b \<in> List.set log" for st a b
    using d that
  proof (induction log rule: called_states.induct)
    case (2 x c log)
    then show ?case by (auto simp: called_states_set)
  qed auto
  have "List.set (final_calls m log) \<subseteq> permits log m"
    using assms once unfolding final_calls_set permits_def calls_ok_def called_states_set burnt_def by blast
  then have "card (List.set (final_calls m log)) \<le> card (permits log m)"
    by (rule card_mono [OF finite_permits])
  then show ?thesis by (simp add: distinct_card final_calls_distinct [OF d])
qed

text \<open>
  C6. At most once: however senders, sweeps and operators interleave, whichever of them stop
  halfway and whatever SES answers, the calls that may have handed a message to SES, those not
  answered by a request to retry, are at most one more than the times an operator asked for a
  resend. The runs meant are those of fewer than \<open>2\<^sup>6\<^sup>4\<close> events, before a version could repeat.
\<close>

theorem send_at_most_once:
  assumes "reachable s" and "length (sys_log s) < 2 ^ 64"
  shows "length (final_calls m (sys_log s)) \<le> 1 + resends m (sys_log s)"
proof -
  have inv: "calls_ok (sys_log s)" "count_ok (sys_sends s) (sys_log s)"
    using reachable_inv [OF assms] by (simp_all add: protocol_inv_def)
  have "card (permits (sys_log s) m) \<le> 1 + resends m (sys_log s)"
    using inv(2) [unfolded count_ok_def, THEN spec, of m]
    by (cases "sys_sends s m") (simp_all split: if_splits)
  with final_calls_permits [OF inv(1), of m] show ?thesis by simp
qed


text \<open>A run of one sender to the answer of SES.\<close>

lemma sample_run:
  defines "c \<equiv> claimed sample_state ''t1''"
  defines "st \<equiv> calling_ses c ''t1''"
  obtains s where "reachable s"
    and "sys_log s = [Wrote sample_state, Wrote c, Wrote st, CalledSes st (OutcomeUnknown ''timeout'')]"
proof -
  let ?m = "snd_message_id sample_state"
  let ?s1 = "\<lparr>sys_sends = [?m \<mapsto> sample_state], sys_procs = (\<lambda>_. Idle), sys_log = [Wrote sample_state]\<rparr>"
  let ?s2 = "\<lparr>sys_sends = [?m \<mapsto> c], sys_procs = (\<lambda>_. Idle)(0 := Held c),
    sys_log = [Wrote sample_state, Wrote c]\<rparr>"
  let ?s3 = "\<lparr>sys_sends = [?m \<mapsto> st], sys_procs = (\<lambda>_. Idle)(0 := Calling st),
    sys_log = [Wrote sample_state, Wrote c, Wrote st]\<rparr>"
  have m: "snd_message_id c = ?m" "snd_message_id st = ?m" "snd_send_status c = Sending"
    by (simp_all add: c_def st_def claimed_def calling_ses_def)
  have q: "snd_send_status sample_state = Queued" "snd_version sample_state = 0"
    by (simp_all add: sample_state_def queued_def)
  have "reachable ?s1" using reach_step [OF reach_start sys_enqueue [of _ sample_state]] q by simp
  moreover have "proc_step (\<lambda>x. x = sample_state) Idle [?m \<mapsto> sample_state] [Wrote c] (Held c)
      ([?m \<mapsto> sample_state](snd_message_id c \<mapsto> c))"
    by (rule proc_claim [where before = sample_state and now = "''t1''"]) (simp_all add: q committed_def c_def)
  ultimately have "reachable ?s2"
    using reach_step [OF _ sys_proc [where s = ?s1 and p = 0 and pc' = "Held c" and events = "[Wrote c]"]]
    by (simp add: m)
  moreover have "proc_step (\<lambda>x. x = sample_state \<or> x = c) (Held c) [?m \<mapsto> c] [Wrote st] (Calling st)
      ([?m \<mapsto> c](snd_message_id st \<mapsto> st))"
    by (rule proc_note [where now = "''t1''"]) (simp_all add: m committed_def st_def)
  ultimately have "reachable ?s3"
    using reach_step [OF _ sys_proc [where s = ?s2 and p = 0 and pc' = "Calling st" and events = "[Wrote st]"]]
    by (simp add: m)
  from reach_step [OF this sys_proc [where s = ?s3 and p = 0, simplified, OF proc_call]]
  show ?thesis by (rule that) simp
qed

theorem send_at_most_once_witness:
  "\<exists>s. reachable s \<and> length (final_calls (MessageId ''m1'') (sys_log s)) = 1
     \<and> length (final_calls (MessageId ''m1'') (sys_log s)) \<le> 1 + resends (MessageId ''m1'') (sys_log s)"
proof -
  obtain s where s: "reachable s" "sys_log s = [Wrote sample_state, Wrote (claimed sample_state ''t1''),
      Wrote (calling_ses (claimed sample_state ''t1'') ''t1''),
      CalledSes (calling_ses (claimed sample_state ''t1'') ''t1'') (OutcomeUnknown ''timeout'')]"
    by (rule sample_run)
  have "snd_message_id sample_state = MessageId ''m1''" by (simp add: sample_state_def queued_def)
  then have "length (final_calls (MessageId ''m1'') (sys_log s)) = 1"
    by (simp add: s(2) claimed_def calling_ses_def)
  with s(1) send_at_most_once [OF s(1), of "MessageId ''m1''"] s(2) show ?thesis by auto
qed

end
