(* ===== verification/Effects.thy ===== *)
theory Effects
  imports Protocol Outcomes
begin

text \<open>
  The code of the sender follows the protocol of \<open>Protocol\<close>: over any backend that keeps the
  contract below, whatever other processes do to the table in between, a run of \<open>handle_send\<close>, of
  \<open>sweep\<close> or of \<open>resolve_unknown\<close> is a run of one process of the protocol, and the calls to SES it
  makes are the calls of that run.
\<close>

section \<open>What a commit does to the sends\<close>

lemma cas_commit:
  assumes "sends_wf R" and "txn_ok R (plan_state_cas before after expected)"
    and "snd_message_id after = snd_message_id before"
  shows "committed (send_at R) before (Some expected)"
    and "send_at (txn_apply (plan_state_cas before after expected) R) =
      (send_at R)(snd_message_id after \<mapsto> after)"
proof -
  obtain it where it: "R (send_state_key (snd_message_id before)) = Some it"
    using vmem.cas_version [OF assms(2,3)] by (auto simp: bind_eq_Some_conv)
  then obtain c where c: "send_at R (snd_message_id before) = Some c" using sends_wf_row [OF assms(1)] by blast
  with cas_holds [OF assms(1) c assms(3)] assms(2)
  show "committed (send_at R) before (Some expected)" by (auto simp: committed_def)
  show "send_at (txn_apply (plan_state_cas before after expected) R) = (send_at R)(snd_message_id after \<mapsto> after)"
    by (rule ext) (simp add: cas_effect send_at_upd)
qed

lemma mark_commit:
  assumes wf: "sends_wf R" and msg: "message_at R (msg_inbox_id msg) (msg_message_id msg) = Some msg"
    and mid: "snd_message_id after = snd_message_id state"
    and commit: "txn_ok R (drop_taken_aliases (plan_mark state after msg labels thread ses now) taken)"
      (is "txn_ok R ?ops")
  shows "committed (send_at R) state None" and "send_at (txn_apply ?ops R) = (send_at R)(snd_message_id after \<mapsto> after)"
proof -
  obtain it as refs where eff: "txn_apply ?ops R = txn_apply refs (txn_apply as (mark_rows after msg it thread R))"
    and as: "list_all (alias_op_for msg) as"
    and refs: "refs = (case ses of None \<Rightarrow> [] | Some x \<Rightarrow>
        [PlannedOp RoleSesRef (Put (ses_ref_item (ses_sent_message_id x) (msg_inbox_id msg)
          (msg_message_id msg) (msg_expires_at msg)) CondNone)])"
    by (rule mark_effect [OF msg])
  have frame: "send_at (txn_apply as Q) m = send_at Q m" for Q m
    using alias_frame [OF as, of "send_state_key m" Q] by (simp add: send_at_def)
  have ref: "send_at (txn_apply refs Q) m = send_at Q m" for Q m
    by (cases ses) (simp_all add: refs send_at_upd)
  show "send_at (txn_apply ?ops R) = (send_at R)(snd_message_id after \<mapsto> after)"
    by (rule ext) (auto simp: eff ref frame mark_rows_def Let_def send_at_upd split: option.split)
  have "Option.bind (R (send_state_key (snd_message_id state))) (\<lambda>i. number_attr i ''version'') =
      Some (snd_version state)"
  proof -
    obtain ops where "?ops = put_send_state after (CondVersionEquals (snd_version state)) # ops"
      by (rule mark_shape [of state after msg labels thread ses now taken]) simp
    with commit mid show ?thesis by simp
  qed
  then obtain i where i: "R (send_state_key (snd_message_id state)) = Some i"
    "number_attr i ''version'' = Some (snd_version state)" by (auto simp: bind_eq_Some_conv)
  obtain r where r: "i = send_state_item r" "send_at R (snd_message_id state) = Some r"
    using sends_wf_row [OF wf i(1)] by blast
  have "send_state_of_item i = Some r" by (simp add: r(1))
  from send_state_of_item_number [OF this] i(2) r(2)
  show "committed (send_at R) state None" by (simp add: committed_def)
qed

section \<open>Runs\<close>

text \<open>
  A run of one process: its own steps, and between them whatever \<open>env\<close> lets others do. What it
  may have read of the sends is what they were at some moment before.
\<close>

definition seen_before :: "(rows \<Rightarrow> rows \<Rightarrow> bool) \<Rightarrow> rows \<Rightarrow> send_state \<Rightarrow> bool" where
  "seen_before env R st \<longleftrightarrow> (\<exists>R0. env R0 R \<and> send_at R0 (snd_message_id st) = Some st)"

inductive sender_run :: "(rows \<Rightarrow> rows \<Rightarrow> bool) \<Rightarrow> pc \<Rightarrow> rows \<Rightarrow> send_event list \<Rightarrow> pc \<Rightarrow> rows \<Rightarrow> bool"
  for env where
  run_env: "env R R' \<Longrightarrow> sender_run env pc R [] pc R'"
| run_step: "proc_step (seen_before env R) pc (send_at R) events pc' (send_at R') \<Longrightarrow>
    sender_run env pc R events pc' R'"
| run_trans: "sender_run env pc R e1 pc1 R1 \<Longrightarrow> sender_run env pc1 R1 e2 pc2 R2 \<Longrightarrow>
    sender_run env pc R (e1 @ e2) pc2 R2"

lemma run_stop: "sender_run env pc R [] Idle R"
  by (rule run_step) (rule proc_stop)

text \<open>The calls to SES of a run, as SES sees them.\<close>

fun ses_calls :: "send_event list \<Rightarrow> (string \<times> send_outcome) list" where
  "ses_calls [] = []"
| "ses_calls (CalledSes st answer # log) = (message_id_str (snd_message_id st), answer) # ses_calls log"
| "ses_calls (_ # log) = ses_calls log"

lemma ses_calls_append [simp]: "ses_calls (xs @ ys) = ses_calls xs @ ses_calls ys"
  by (induction xs rule: ses_calls.induct) auto

section \<open>The contract of a backend\<close>

locale sender_backend = versioned_table "app_table A" rows_of env
  for A :: "'w app" and rows_of :: "'w \<Rightarrow> rows" and env :: "rows \<Rightarrow> rows \<Rightarrow> bool" +
  fixes pp :: "string \<Rightarrow> 'm option"
    and calls :: "'w \<Rightarrow> (string \<times> send_outcome) list"
  assumes env_wf: "env R R' \<Longrightarrow> table_wf pp R \<Longrightarrow> table_wf pp R'"
    and get_calls: "calls (snd (tbl_get (app_table A) k r w)) = calls w"
    and query_calls: "calls (snd (tbl_query (app_table A) q w)) = calls w"
    and transact_calls: "calls (snd (tbl_transact (app_table A) ops w)) = calls w"
    and pause_calls: "calls (tbl_pause (app_table A) n w) = calls w"
    and obj_get_frame: "obj_get (app_objects A) key limit w = (res, w') \<Longrightarrow>
      env (rows_of w) (rows_of w') \<and> calls w' = calls w"
    and obj_put_frame: "obj_put_if_absent (app_objects A) key body ct w = (pres, w') \<Longrightarrow>
      env (rows_of w) (rows_of w') \<and> calls w' = calls w"
    and obj_delete_frame: "obj_delete (app_objects A) key w = (dres, w') \<Longrightarrow>
      env (rows_of w) (rows_of w') \<and> calls w' = calls w"
    and fetch_frame: "app_fetch A url budget w = (fres, w') \<Longrightarrow>
      env (rows_of w) (rows_of w') \<and> calls w' = calls w"
    and sleep_frame: "env (rows_of w) (rows_of (app_sleep_until A t w)) \<and> calls (app_sleep_until A t w) = calls w"
    and send_frame: "app_send_raw A request w = (answer, w') \<Longrightarrow>
      env (rows_of w) (rows_of w') \<and> calls w' = calls w @ [(rs_message_id request, answer)]"
begin

lemma safe_wf: "table_wf pp (rows_of w) \<Longrightarrow> safe pp w"
  unfolding safe_def using env_wf by blast

text \<open>The outcome of a flow that commits at most once: \<open>C v\<close> is the commit behind the result \<open>v\<close>.\<close>

definition effect ::
  "('v \<Rightarrow> bool) \<Rightarrow> ('v \<Rightarrow> rows \<Rightarrow> rows \<Rightarrow> bool) \<Rightarrow> 'w \<Rightarrow> 'v outcome \<Rightarrow> 'w \<Rightarrow> bool" where
  "effect D C w res w' \<longleftrightarrow> env (rows_of w) (rows_of w') \<and> (\<forall>v. res = Inr v \<longrightarrow> \<not> D v) \<or>
     (\<exists>R R' v. env (rows_of w) R \<and> C v R R' \<and> table_wf pp R' \<and> env R' (rows_of w') \<and>
        (res = Inr v \<or> (\<exists>e. res = Inl e)))"

lemma effect_env: "env (rows_of w) (rows_of w1) \<Longrightarrow> effect D C w1 res w' \<Longrightarrow> effect D C w res w'"
  unfolding effect_def using env_trans by blast

lemma effect_none: "env (rows_of w) (rows_of w') \<Longrightarrow> (\<And>v. res = Inr v \<Longrightarrow> \<not> D v) \<Longrightarrow> effect D C w res w'"
  unfolding effect_def by blast

lemma effect_transact:
  assumes run: "try_io (tbl_transact (app_table A) ops) f w = (res, w')"
    and commit: "\<And>R. env (rows_of w) R \<Longrightarrow> txn_ok R ops \<Longrightarrow>
      table_wf pp (txn_apply ops R) \<and> C v R (txn_apply ops R)"
    and fin: "\<And>w1. f Committed w1 = (Inr v, w1)"
    and go: "\<And>d w1. env (rows_of w) (rows_of w1) \<Longrightarrow> f (Cancelled d) w1 = (res, w') \<Longrightarrow> effect D C w1 res w'"
  shows "effect D C w res w'"
  using run
proof (cases rule: try_io_cases)
  case (Fail e)
  from Fail(1) show ?thesis
  proof (cases rule: transact_cases)
    case (Commit R)
    with commit Fail(2) show ?thesis unfolding effect_def by blast
  next
    case Keep
    with Fail(2) show ?thesis by (auto intro: effect_none)
  qed
next
  case (Go out w1)
  from Go(1) show ?thesis
  proof (cases rule: transact_cases)
    case (Commit R)
    then have "out = Committed" by auto
    with Go(2) fin have "res = Inr v" "w' = w1" by auto
    with Commit commit show ?thesis unfolding effect_def by blast
  next
    case Keep
    then obtain d where "out = Cancelled d" by (cases out) auto
    with go [OF Keep(1)] Go(2) show ?thesis by (blast intro: effect_env [OF Keep(1)])
  qed
qed

text \<open>The commits of the three flows that move a send.\<close>

definition claim_commit :: "message_id \<Rightarrow> string \<Rightarrow> send_state option \<Rightarrow> rows \<Rightarrow> rows \<Rightarrow> bool" where
  "claim_commit m now v R R' \<longleftrightarrow> (\<exists>before. v = Some (claimed before now) \<and> snd_message_id before = m \<and>
     seen_before env R before \<and> snd_send_status before = Queued \<and>
     committed (send_at R) before (Some Queued) \<and> send_at R' = (send_at R)(m \<mapsto> claimed before now))"

definition note_commit :: "send_state \<Rightarrow> string \<Rightarrow> send_state option \<Rightarrow> rows \<Rightarrow> rows \<Rightarrow> bool" where
  "note_commit c now v R R' \<longleftrightarrow> v = Some (calling_ses c now) \<and> committed (send_at R) c (Some Sending) \<and>
     send_at R' = (send_at R)(snd_message_id c \<mapsto> calling_ses c now)"

definition mark_rel :: "send_state \<Rightarrow> mark_outcome \<Rightarrow> string \<Rightarrow> unit \<Rightarrow> rows \<Rightarrow> rows \<Rightarrow> bool" where
  "mark_rel st outcome now v R R' \<longleftrightarrow> (\<exists>msg. committed (send_at R) st None \<and>
     send_at R' = (send_at R)(snd_message_id st \<mapsto> fst (mark_transition st msg outcome now)))"

lemma wf_sends: "table_wf pp R \<Longrightarrow> sends_wf R"
  by (simp add: table_wf_def)

lemma pause_wf: "table_wf pp (rows_of w) \<Longrightarrow> table_wf pp (rows_of (tbl_pause (app_table A) n w))"
  using env_wf [OF pause_law] .

lemma claim_effect:
  "claim_loop (app_table A) m now as w = (res, w') \<Longrightarrow> table_wf pp (rows_of w) \<Longrightarrow>
     effect (\<lambda>v. v \<noteq> None) (claim_commit m now) w res w'"
proof (induction as arbitrary: w)
  case Nil
  then show ?case by (auto intro!: effect_none simp: env_refl)
next
  case (Cons n as)
  note safe = safe_wf [OF Cons.prems(2)]
  show ?case
    using Cons.prems(1) unfolding claim_loop.simps
  proof (cases rule: try_io_cases)
    case (Fail e)
    then show ?thesis by (auto simp: read_send_state_def intro!: effect_none dest: get_as_env)
  next
    case (Go found w1)
    have env1: "env (rows_of w) (rows_of w1)"
      using Go(1) unfolding read_send_state_def by (rule get_as_env)
    note safe1 = safe_env [OF safe env1] and wf1 = env_wf [OF env1 Cons.prems(2)]
    show ?thesis
    proof (cases "\<exists>before. found = Some before \<and> snd_send_status before = Queued")
      case False
      with Go(2) env1 show ?thesis by (cases found) (auto intro: effect_none)
    next
      case True
      then obtain before where found: "found = Some before" "snd_send_status before = Queued" by blast
      note gen = read_send_state_genuine [OF Go(1) [unfolded found(1)] safe]
      from Go(1) [unfolded read_send_state_def found] obtain R1 it where R1: "env R1 (rows_of w1)"
        "R1 (send_state_key m) = Some it" "send_state_of_item it = Some before"
        by (rule get_as_consistent) auto
      have "effect (\<lambda>v. v \<noteq> None) (claim_commit m now) w1 res w'"
      proof (rule effect_transact [where v = "Some (claimed before now)"
            and ops = "plan_state_cas before (claimed before now) Queued"])
        show "try_io (tbl_transact (app_table A) (plan_state_cas before (claimed before now) Queued))
            (\<lambda>out. case out of Committed \<Rightarrow> ok (Some (claimed before now))
              | Cancelled d \<Rightarrow> if d = Retry \<or> d = VersionConflict
                  then (\<lambda>s. claim_loop (app_table A) m now as (tbl_pause (app_table A) n s)) else ok None) w1 = (res, w')"
          using Go(2) found by (simp add: Let_def)
      next
        fix R
        assume R: "env (rows_of w1) R" "txn_ok R (plan_state_cas before (claimed before now) Queued)"
        have wfR: "sends_wf R" using env_wf [OF R(1) wf1] by (rule wf_sends)
        have mid: "snd_message_id (claimed before now) = snd_message_id before" by (simp add: claimed_def)
        have "table_wf pp (txn_apply (plan_state_cas before (claimed before now) Queued) R)"
          using genuine_at_commit [OF _ safe1 R(1), of before] gen cas_version [OF R(2) mid]
          by (intro wf_step_cas env_wf [OF R(1) wf1]) (simp_all add: mid)
        moreover have "seen_before env R before"
          using R1 gen env_trans [OF R1(1) R(1)] by (auto simp: seen_before_def send_at_def)
        ultimately show "table_wf pp (txn_apply (plan_state_cas before (claimed before now) Queued) R) \<and>
            claim_commit m now (Some (claimed before now)) R
              (txn_apply (plan_state_cas before (claimed before now) Queued) R)"
          using cas_commit [OF wfR R(2) mid] found gen mid by (auto simp: claim_commit_def)
      next
        fix d w2
        assume go: "env (rows_of w1) (rows_of w2)" "(case Cancelled d of Committed \<Rightarrow> ok (Some (claimed before now))
              | Cancelled d \<Rightarrow> if d = Retry \<or> d = VersionConflict
                  then (\<lambda>s. claim_loop (app_table A) m now as (tbl_pause (app_table A) n s)) else ok None) w2 = (res, w')"
        note again = Cons.IH [of "tbl_pause (app_table A) n w2", OF _ pause_wf [OF env_wf [OF go(1) wf1]]]
        show "effect (\<lambda>v. v \<noteq> None) (claim_commit m now) w2 res w'"
          using go(2) effect_env [OF pause_law again] by (auto intro: effect_none [OF env_refl] split: if_splits)
      qed simp
      then show ?thesis by (rule effect_env [OF env1])
    qed
  qed
qed

lemma note_effect:
  "note_loop (app_table A) (plan_state_cas c (calling_ses c now) Sending) (calling_ses c now) as w = (res, w') \<Longrightarrow>
     table_wf pp (rows_of w) \<Longrightarrow> genuine w c \<Longrightarrow>
     effect (\<lambda>v. v \<noteq> None) (note_commit c now) w res w'"
proof (induction as arbitrary: w)
  case Nil
  then show ?case by (auto intro!: effect_none simp: env_refl)
next
  case (Cons n as)
  note safe = safe_wf [OF Cons.prems(2)]
  have mid: "snd_message_id (calling_ses c now) = snd_message_id c" by (simp add: calling_ses_def)
  show ?case
  proof (rule effect_transact [OF Cons.prems(1) [unfolded note_loop.simps], where v = "Some (calling_ses c now)"])
    fix R
    assume R: "env (rows_of w) R" "txn_ok R (plan_state_cas c (calling_ses c now) Sending)"
    have "table_wf pp (txn_apply (plan_state_cas c (calling_ses c now) Sending) R)"
      using genuine_at_commit [OF Cons.prems(3) safe R(1)] cas_version [OF R(2) mid]
      by (intro wf_step_cas env_wf [OF R(1) Cons.prems(2)]) (simp_all add: mid)
    with cas_commit [OF wf_sends [OF env_wf [OF R(1) Cons.prems(2)]] R(2) mid] mid
    show "table_wf pp (txn_apply (plan_state_cas c (calling_ses c now) Sending) R) \<and>
        note_commit c now (Some (calling_ses c now)) R (txn_apply (plan_state_cas c (calling_ses c now) Sending) R)"
      by (simp add: note_commit_def)
  next
    fix d w1
    assume go: "env (rows_of w) (rows_of w1)" "(case Cancelled d of Committed \<Rightarrow> ok (Some (calling_ses c now))
        | Cancelled d \<Rightarrow> if d = Retry then (\<lambda>s. note_loop (app_table A)
              (plan_state_cas c (calling_ses c now) Sending) (calling_ses c now) as (tbl_pause (app_table A) n s))
            else ok None) w1 = (res, w')"
    note again = Cons.IH [of "tbl_pause (app_table A) n w1", OF _ pause_wf [OF env_wf [OF go(1) Cons.prems(2)]]
        genuine_env [OF Cons.prems(3) env_trans [OF go(1) pause_law]]]
    show "effect (\<lambda>v. v \<noteq> None) (note_commit c now) w1 res w'"
      using go(2) effect_env [OF pause_law again] by (auto intro: effect_none [OF env_refl] split: if_splits)
  qed simp
qed

lemma mark_effect_commit:
  assumes rm: "read_message (app_table A) (snd_inbox_id state) (snd_message_id state) w = (Inr (Some msg), w1)"
    and tr: "mark_transition state msg outcome now = (after, labels, ses)"
    and mt: "mark_thread (app_table A) msg labels now w1 = (Inr thread, w2)"
    and wf: "table_wf pp (rows_of w)" and env: "env (rows_of w2) R"
    and commit: "txn_ok R (drop_taken_aliases (plan_mark state after msg labels thread ses now) taken)"
      (is "txn_ok R ?ops")
  shows "table_wf pp (txn_apply ?ops R) \<and> mark_rel state outcome now () R (txn_apply ?ops R)"
proof -
  have env1: "env (rows_of w) (rows_of w1)" using get_as_env [OF rm [unfolded read_message_def]] .
  have env2: "env (rows_of w1) R" using env_trans [OF mark_thread_env [OF mt] env] .
  have wfR: "table_wf pp R" using env_wf [OF env_trans [OF env1 env2] wf] .
  obtain as where shape: "?ops = put_send_state after (CondVersionEquals (snd_version state)) #
      update_message_labels msg labels now
         ((''send_status'', AvS (send_status_str (snd_send_status after))) #
          (case ses of None \<Rightarrow> []
           | Some x \<Rightarrow> [(''ses_message_id'', AvS (ses_sent_message_id x)), (''sent_at'', AvS now)])) #
      (case thread of None \<Rightarrow> []
         | Some (tb, ta) \<Rightarrow> [put_thread ta (CondVersionEquals (thr_version tb))]) @ as"
    by (rule mark_shape [of state after msg labels thread ses now taken]) simp
  have ids: "msg_inbox_id msg = snd_inbox_id state" "msg_message_id msg = snd_message_id state" "message_ok msg"
    using read_message_ids [OF rm safe_wf [OF wf]] by simp_all
  have after: "snd_message_id after = snd_message_id state" "snd_inbox_id after = snd_inbox_id state"
    using mark_transition_frame [OF tr] by simp_all
  have msg: "message_at R (msg_inbox_id msg) (msg_message_id msg) = Some msg"
    unfolding ids(1,2) using commit shape ids by (intro read_message_at_commit [OF rm env2]) simp
  obtain added removed where changes: "label_changes (msg_labels msg) labels = (added, removed)" by fastforce
  have "op_holds R (put_thread ta (CondVersionEquals (thr_version tb)))" if "thread = Some (tb, ta)" for tb ta
    using commit that unfolding shape by simp
  from mark_thread_at_commit [OF mt safe_wf [OF env_wf [OF env1 wf]] env changes this]
  have "thread_bounded pp ta" if "thread = Some (tb, ta)" for tb ta
    using that table_wf_reads(2) [OF wfR] by (auto split: if_splits intro: apply_label_patch_bounded)
  then have "table_wf pp (txn_apply ?ops R)"
    using ids after mark_transition_labels_sorted [OF _ tr]
    by (intro wf_step_mark [OF wfR msg]) (simp_all add: message_ok_def)
  moreover have "mark_rel state outcome now () R (txn_apply ?ops R)"
    using mark_commit [OF wf_sends [OF wfR] msg after(1) commit] after(1) tr
    by (auto simp: mark_rel_def intro!: exI [of _ msg])
  ultimately show ?thesis ..
qed

lemma mark_recheck_effect:
  assumes "try_io (read_send_state (app_table A) m) (\<lambda>current. case current of
        None \<Rightarrow> err ErrConflict
      | Some c \<Rightarrow> if snd_version c \<noteq> v then err ErrConflict
                  else (\<lambda>w. loop (tbl_pause (app_table A) n w))) w = (res, w')"
    and "\<And>w0. env (rows_of w) (rows_of w0) \<Longrightarrow> loop w0 = (res, w') \<Longrightarrow> effect D C w res w'"
  shows "effect D C w res w'"
  using assms(1)
proof (cases rule: try_io_cases)
  case (Fail e)
  then show ?thesis by (auto simp: read_send_state_def intro!: effect_none dest: get_as_env)
next
  case (Go found w1)
  have env1: "env (rows_of w) (rows_of w1)"
    using Go(1) unfolding read_send_state_def by (rule get_as_env)
  with Go(2) assms(2) [OF env_trans [OF env1 pause_law]] show ?thesis
    by (auto intro: effect_none split: option.splits if_splits)
qed

lemma mark_effect_loop:
  "mark_loop (app_table A) state outcome now taken as w = (res, w') \<Longrightarrow> table_wf pp (rows_of w) \<Longrightarrow>
     effect (\<lambda>_. True) (mark_rel state outcome now) w res w'"
proof (induction as arbitrary: taken w)
  case Nil
  then show ?case by (auto intro!: effect_none simp: env_refl)
next
  case (Cons n as)
  let ?eff = "effect (\<lambda>_. True) (mark_rel state outcome now)"
  have again: "?eff w1 res w'"
    if "mark_loop (app_table A) state outcome now tk as w0 = (res, w')" "env (rows_of w) (rows_of w1)"
      "env (rows_of w1) (rows_of w0)" for tk w0 w1
    using that Cons.prems(2)
    by (intro effect_env [OF that(3) Cons.IH [OF that(1)]]) (blast intro: env_wf env_trans)+
  show ?case
    using Cons.prems(1) unfolding mark_loop.simps
  proof (cases rule: try_io_cases)
    case (Fail e)
    then show ?thesis by (auto simp: read_message_def intro!: effect_none dest: get_as_env)
  next
    case (Go found w1)
    have env1: "env (rows_of w) (rows_of w1)" using Go(1) unfolding read_message_def by (rule get_as_env)
    show ?thesis
    proof (cases found)
      case None
      with Go(2) env1 show ?thesis by (auto intro!: effect_none)
    next
      case (Some msg)
      obtain after labels ses where tr: "mark_transition state msg outcome now = (after, labels, ses)"
        by (cases "mark_transition state msg outcome now")
      from Go(2) [unfolded Some option.case tr Let_def prod.case] have "?eff w1 res w'"
      proof (cases rule: try_io_cases)
        case (Fail e)
        then show ?thesis by (auto intro!: effect_none dest: mark_thread_env)
      next
        case mt: (Go thread w2)
        note env2 = mark_thread_env [OF mt(1)]
        have "?eff w2 res w'"
        proof (rule effect_transact [OF mt(2)])
          fix R
          assume "env (rows_of w2) R"
            "txn_ok R (drop_taken_aliases (plan_mark state after msg labels thread ses now) taken)"
          then show "table_wf pp (txn_apply (drop_taken_aliases
                (plan_mark state after msg labels thread ses now) taken) R) \<and>
              mark_rel state outcome now () R (txn_apply (drop_taken_aliases
                (plan_mark state after msg labels thread ses now) taken) R)"
            by (rule mark_effect_commit [OF Go(1) [unfolded Some] tr mt(1) Cons.prems(2)])
        next
          fix d w3
          assume go: "env (rows_of w2) (rows_of w3)" "(case Cancelled d of Committed \<Rightarrow> ok ()
               | Cancelled Retry \<Rightarrow>
                   (\<lambda>s. mark_loop (app_table A) state outcome now taken as (tbl_pause (app_table A) n s))
               | Cancelled VersionConflict \<Rightarrow>
                   try_io (read_send_state (app_table A) (snd_message_id state)) (\<lambda>current.
                     case current of
                       None \<Rightarrow> err ErrConflict
                     | Some c \<Rightarrow>
                         if snd_version c \<noteq> snd_version state then err ErrConflict
                         else (\<lambda>s. mark_loop (app_table A) state outcome now taken as
                                 (tbl_pause (app_table A) n s)))
               | Cancelled (AliasTaken ks) \<Rightarrow> mark_loop (app_table A) state outcome now (taken @ ks) as
               | Cancelled Duplicate \<Rightarrow> err ErrPermanent
               | Cancelled KeyExists \<Rightarrow> err ErrPermanent
               | Cancelled Permanent \<Rightarrow> err ErrPermanent) w3 = (res, w')"
          have env3: "env (rows_of w) (rows_of w3)" using env1 env2 go(1) env_trans by blast
          show "?eff w3 res w'"
            using go(2) again [OF _ env3 pause_law] again [OF _ env3 env_refl]
            by (cases d) (auto intro: effect_none [OF env_refl] again [OF _ env3] elim: mark_recheck_effect)
        qed simp
        then show ?thesis by (rule effect_env [OF env2])
      qed
      then show ?thesis by (rule effect_env [OF env1])
    qed
  qed
qed

lemma mark_send_effect:
  "mark_send (app_table A) state outcome now w = (res, w') \<Longrightarrow> table_wf pp (rows_of w) \<Longrightarrow>
     effect (\<lambda>_. True) (mark_rel state outcome now) w res w'"
  unfolding mark_send_def by (rule mark_effect_loop)

end

end
