(* ===== verification/Runs.thy ===== *)
theory Runs
  imports Effects
begin

text \<open>
  The code of the sender follows the protocol of \<open>Protocol\<close>: over any backend that keeps the
  contract \<open>sender_backend\<close>, whatever other processes do to the table in between, a call of
  \<open>handle_send\<close> or \<open>resolve_unknown\<close> is a run of one process of the protocol, and the calls to
  SES it makes are the calls of that run.
\<close>

section \<open>What the flows leave alone\<close>

text \<open>A part of the state that no operation on the table changes, no flow changes.\<close>

locale table_frame =
  fixes T :: "'s table" and view :: "'s \<Rightarrow> 'v"
  assumes get_view: "view (snd (tbl_get T k r s)) = view s"
    and transact_view: "view (snd (tbl_transact T ops s)) = view s"
    and pause_view: "view (tbl_pause T n s) = view s"
begin

definition silent :: "('s \<Rightarrow> 'a \<times> 's) \<Rightarrow> bool" where
  "silent m \<longleftrightarrow> (\<forall>s. view (snd (m s)) = view s)"

lemma silentD: "silent m \<Longrightarrow> m s = (a, s') \<Longrightarrow> view s' = view s"
  unfolding silent_def by (metis snd_conv)

lemma silent_ok [simp]: "silent (ok a)" and silent_err [simp]: "silent (err e)"
  and silent_Pair [simp]: "silent (Pair a)"
  by (simp_all add: silent_def)

lemma silent_try_io:
  assumes "silent m" and "\<And>a. silent (f a)"
  shows "silent (try_io m f)"
  unfolding silent_def
proof
  fix s
  show "view (snd (try_io m f s)) = view s"
  proof (cases rule: try_io_cases [OF prod.collapse [symmetric, of "try_io m f s"]])
    case (1 e)
    then show ?thesis using silentD [OF assms(1) 1(1)] by simp
  next
    case (2 a s1)
    then show ?thesis using silentD [OF assms(1) 2(1)] silentD [OF assms(2) 2(2)] by simp
  qed
qed

lemma silent_table [simp]: "silent (tbl_get T k r)" "silent (tbl_transact T ops)"
  by (simp_all add: silent_def get_view transact_view)

lemma silent_paused: "silent m \<Longrightarrow> silent (\<lambda>s. m (tbl_pause T n s))"
  by (simp add: silent_def pause_view)

lemma silent_get_as [simp]: "silent (get_as T of_item k r)"
  unfolding get_as_def by (rule silent_try_io) (simp_all add: silent_def get_view)

lemma silent_reads [simp]:
  "silent (read_send_state T m)" "silent (read_message T i m)"
  "silent (read_thread T i t)" "silent (get_send_state T m)"
  by (simp_all add: read_send_state_def read_message_def read_thread_def get_send_state_def)

lemma silent_claim_loop: "silent (claim_loop T m now as)"
  by (induction as)
    (auto intro!: silent_try_io silent_paused simp: Let_def split: option.split txn_outcome.split)

lemma silent_note_loop: "silent (note_loop T ops after as)"
  by (induction as) (auto intro!: silent_try_io silent_paused split: txn_outcome.split)

lemma silent_mark_thread: "silent (mark_thread T msg labels now)"
  by (auto simp: mark_thread_def intro!: silent_try_io split: prod.split option.split)

lemma silent_mark_loop: "silent (mark_loop T st outcome now taken as)"
  by (induction as arbitrary: taken)
    (auto intro!: silent_try_io silent_paused silent_mark_thread simp: Let_def
      split: option.split prod.split txn_outcome.split txn_decision.split)

lemma silent_flows:
  "silent (claim_send T m now)" "silent (note_ses_call T c now)" "silent (mark_send T st outcome now)"
  by (simp_all add: claim_send_def note_ses_call_def mark_send_def Let_def
      silent_claim_loop silent_note_loop silent_mark_loop)

end

sublocale sender_backend \<subseteq> frame: table_frame "app_table A" calls
  by unfold_locales (simp_all add: get_calls transact_calls pause_calls)

context sender_backend
begin

section \<open>What leaves the sends to the others\<close>

definition keeps :: "'w \<Rightarrow> 'w \<Rightarrow> bool" where
  "keeps w w' \<longleftrightarrow> env (rows_of w) (rows_of w') \<and> calls w' = calls w"

lemma keeps_refl [simp]: "keeps w w"
  by (simp add: keeps_def env_refl)

lemma keeps_trans: "keeps w w1 \<Longrightarrow> keeps w1 w2 \<Longrightarrow> keeps w w2"
  unfolding keeps_def using env_trans by metis

lemma keeps_wf: "keeps w w' \<Longrightarrow> table_wf pp (rows_of w) \<Longrightarrow> table_wf pp (rows_of w')"
  unfolding keeps_def using env_wf by blast

lemma keeps_genuine: "keeps w w' \<Longrightarrow> genuine w st \<Longrightarrow> genuine w' st"
  unfolding keeps_def using genuine_env by blast

lemmas keeps_frames =
  obj_get_frame [folded keeps_def] obj_put_frame [folded keeps_def]
  obj_delete_frame [folded keeps_def] fetch_frame [folded keeps_def]

lemmas keeps_sleep = sleep_frame [folded keeps_def]

lemma keeps_deletes: "keeps w (fold (\<lambda>key w. snd (obj_delete (app_objects A) key w)) ks w)"
proof (induction ks arbitrary: w)
  case (Cons k ks)
  have "keeps w (snd (obj_delete (app_objects A) k w))"
    by (rule keeps_frames(3) [OF prod.collapse [symmetric]])
  with Cons.IH show ?case by (auto intro: keeps_trans)
qed simp

lemma keeps_clear_outbox: "keeps w (clear_outbox A st w)"
proof -
  let ?spec = "spec_object (message_id_str (snd_message_id st))"
  obtain res w1 where get: "obj_get (app_objects A) ?spec MAX_OUTBOUND_RAW_BYTES w = (res, w1)" by fastforce
  have "keeps w1 (fold (\<lambda>key w. snd (obj_delete (app_objects A) key w)) ks w1)" for ks
    by (rule keeps_deletes)
  note deletes = keeps_trans [OF keeps_frames(1) [OF get] this]
  from deletes [of "[?spec]"] deletes [of "?spec # ks" for ks] show ?thesis
    by (auto simp: clear_outbox_def Let_def get keeps_frames(1) [OF get]
        split: sum.split option.split object_error.split)
qed

lemma keeps_wait: "keeps w (wait_before_retry A delay deadline w)"
  by (simp add: wait_before_retry_def Let_def keeps_sleep)

definition keeping :: "('w, 'a) load \<Rightarrow> bool" where
  "keeping m \<longleftrightarrow> (\<forall>w. keeps w (snd (m w)))"

lemma keeping_timed:
  assumes "\<And>w a w'. op w = (a, w') \<Longrightarrow> keeps w w'" and "\<And>a. keeping (k a)"
  shows "keeping (timed A by op k)"
  unfolding keeping_def
proof
  fix w
  obtain a w1 where run: "op w = (a, w1)" by fastforce
  have "keeps w1 (snd (k a w1))" using assms(2) by (simp add: keeping_def)
  with assms(1) [OF run] show "keeps w (snd (timed A by op k w))"
    by (auto simp: timed_def run intro: keeps_trans)
qed

lemma keeping_load_then:
  assumes "keeping m" and "\<And>a. keeping (k a)"
  shows "keeping (load_then m k)"
  unfolding keeping_def
proof
  fix w
  obtain res w1 where run: "m w = (res, w1)" by fastforce
  have "keeps w w1" using assms(1) run unfolding keeping_def by (metis snd_conv)
  moreover have "keeps w1 (snd (k a w1))" for a using assms(2) by (simp add: keeping_def)
  ultimately show "keeps w (snd (load_then m k w))"
    by (auto simp: load_then_def run intro: keeps_trans split: option.split sum.split)
qed

lemma keeping_results [simp]: "keeping (load_ok a)" "keeping (load_err e)"
  by (simp_all add: keeping_def load_ok_def load_err_def)

lemma keeping_fetch_part: "keeping (fetch_part A by key a budget)"
  unfolding fetch_part_def
  by (auto split: option.split sum.split intro!: keeping_timed dest!: keeps_frames)

lemma keeping_load_part: "keeping (load_part A by m a budget)"
  unfolding load_part_def Let_def
  by (auto split: option.split sum.split object_error.split intro!: keeping_timed keeping_fetch_part
      dest!: keeps_frames)

lemma keeping_load_parts: "keeping (load_parts A by m budget as)"
  by (induction as arbitrary: budget) (auto intro!: keeping_load_then keeping_load_part)

lemma keeping_load: "keeping (load A by m)"
  unfolding load_def load_spec_def
  by (auto intro!: keeping_load_then keeping_load_parts keeping_timed
      split: sum.split option.split dest: keeps_frames)

lemma keeps_load: "load A by m w = (res, w') \<Longrightarrow> keeps w w'"
  using keeping_load unfolding keeping_def by (metis snd_conv)

section \<open>Runs of one process\<close>

definition run_to :: "pc \<Rightarrow> 'w \<Rightarrow> pc \<Rightarrow> 'w \<Rightarrow> bool" where
  "run_to pc w pc' w' \<longleftrightarrow> (\<exists>events. sender_run env pc (rows_of w) events pc' (rows_of w') \<and>
     calls w' = calls w @ ses_calls events) \<and> (table_wf pp (rows_of w) \<longrightarrow> table_wf pp (rows_of w'))"

lemma run_toI:
  assumes "sender_run env pc (rows_of w) events pc' (rows_of w')" and "calls w' = calls w @ ses_calls events"
    and "table_wf pp (rows_of w) \<Longrightarrow> table_wf pp (rows_of w')"
  shows "run_to pc w pc' w'"
  using assms unfolding run_to_def by blast

lemma run_to_wf: "run_to pc w pc' w' \<Longrightarrow> table_wf pp (rows_of w) \<Longrightarrow> table_wf pp (rows_of w')"
  by (simp add: run_to_def)

lemma run_to_keeps: "keeps w w' \<Longrightarrow> run_to pc w pc w'"
  by (rule run_toI [OF run_env _ keeps_wf]) (simp_all add: keeps_def)

lemma run_to_stop: "run_to pc w Idle w"
  by (rule run_toI [OF run_stop]) simp_all

lemma run_to_trans:
  assumes "run_to pc w pc1 w1" and "run_to pc1 w1 pc2 w2"
  shows "run_to pc w pc2 w2"
proof -
  obtain e1 e2 where "sender_run env pc (rows_of w) e1 pc1 (rows_of w1)" "calls w1 = calls w @ ses_calls e1"
    "sender_run env pc1 (rows_of w1) e2 pc2 (rows_of w2)" "calls w2 = calls w1 @ ses_calls e2"
    using assms unfolding run_to_def by blast
  then show ?thesis using run_to_wf [OF assms(1)] run_to_wf [OF assms(2)]
    by (intro run_toI [OF run_trans]) auto
qed

lemmas run_to_leave = run_to_trans [OF _ run_to_stop]

lemmas run_to_then = run_to_trans [OF _ run_to_keeps]

text \<open>A commit between two stretches of other processes' work.\<close>

lemma run_around:
  assumes "env (rows_of w) R" and "proc_step (seen_before env R) pc (send_at R) events pc' (send_at R')"
    and "table_wf pp R'" and "env R' (rows_of w')" and "calls w' = calls w" and "ses_calls events = []"
  shows "run_to pc w pc' w'"
proof -
  have "sender_run env pc (rows_of w) ([] @ events @ []) pc' (rows_of w')"
    using run_env [of env, OF assms(1)] run_step [of env, OF assms(2)] run_env [of env, OF assms(4)]
    by (intro run_trans) assumption+
  then show ?thesis using assms(5,6) env_wf [OF assms(4,3)] by (intro run_toI) simp_all
qed

lemma effect_run:
  assumes eff: "effect D C w res w'" and quiet: "calls w' = calls w"
    and step: "\<And>v R R'. env (rows_of w) R \<Longrightarrow> C v R R' \<Longrightarrow> table_wf pp R' \<Longrightarrow> env R' (rows_of w') \<Longrightarrow>
      run_to pc w (at v) w' \<and> P v"
  shows "(case res of Inl e \<Rightarrow> run_to pc w Idle w'
    | Inr v \<Rightarrow> if D v then run_to pc w (at v) w' \<and> P v else run_to pc w Idle w')"
  using eff unfolding effect_def
proof (elim disjE conjE exE)
  assume "env (rows_of w) (rows_of w')" and none: "\<forall>v. res = Inr v \<longrightarrow> \<not> D v"
  then have "keeps w w'" using quiet by (simp add: keeps_def)
  then have "run_to pc w Idle w'" by (rule run_to_leave [OF run_to_keeps])
  with none show ?thesis by (cases res) auto
next
  fix R R' v
  assume "env (rows_of w) R" "C v R R'" "table_wf pp R'" "env R' (rows_of w')" and res: "res = Inr v"
  from step [OF this(1-4)] res show ?thesis by (auto intro: run_to_leave)
next
  fix R R' v e
  assume "env (rows_of w) R" "C v R R'" "table_wf pp R'" "env R' (rows_of w')" and res: "res = Inl e"
  from step [OF this(1-4)] res show ?thesis by (auto intro: run_to_leave)
qed

lemma genuine_row:
  assumes "table_wf pp R'" and "send_at R' m = Some st" and "env R' (rows_of w)" and "snd_message_id st = m"
  shows "genuine w st"
  unfolding genuine_def
proof (intro allI impI)
  fix R c
  assume R: "env (rows_of w) R" "send_at R (snd_message_id st) = Some c" "snd_version c = snd_version st"
  obtain i i' where i: "R' (send_state_key m) = Some i" "send_state_of_item i = Some st"
    "R (send_state_key m) = Some i'" "send_state_of_item i' = Some c"
    using assms(2,4) R(2) by (auto simp: send_at_def bind_eq_Some_conv)
  have "i' = i"
    using env_versions [OF env_trans [OF assms(3) R(1)] i(1,3)] send_state_of_item_number [OF i(2)]
      send_state_of_item_number [OF i(4)] R(3) by simp
  with i show "c = st" by simp
qed

section \<open>The sender, step by step\<close>

lemma claim_run:
  assumes run: "claim_send (app_table A) m now w = (res, w')" and wf: "table_wf pp (rows_of w)"
  shows "case res of Inr (Some c) \<Rightarrow> run_to Idle w (Held c) w' \<and> genuine w' c \<and> snd_message_id c = m
    | _ \<Rightarrow> run_to Idle w Idle w'"
proof -
  note quiet = frame.silentD [OF frame.silent_flows(1) run]
  have "run_to Idle w (Held (the v)) w' \<and> (genuine w' (the v) \<and> snd_message_id (the v) = m)"
    if R: "env (rows_of w) R" "claim_commit m now v R R'" "table_wf pp R'" "env R' (rows_of w')" for v R R'
  proof -
    from R(2) obtain before where b: "v = Some (claimed before now)" "snd_message_id before = m"
      "seen_before env R before" "snd_send_status before = Queued" "committed (send_at R) before (Some Queued)"
      "send_at R' = (send_at R)(m \<mapsto> claimed before now)"
      by (auto simp: claim_commit_def)
    have mid: "snd_message_id (claimed before now) = m" using b(2) by (simp add: claimed_def)
    have "proc_step (seen_before env R) Idle (send_at R) [Wrote (claimed before now)]
        (Held (claimed before now)) (send_at R')"
      using proc_claim [of "seen_before env R", OF b(3-5) refl, of now] b(6) mid by simp
    from run_around [OF R(1) this R(3,4) quiet] genuine_row [OF R(3) _ R(4) mid] b mid
    show ?thesis by simp
  qed
  note step = this
  have "case res of Inl e \<Rightarrow> run_to Idle w Idle w' | Inr v \<Rightarrow> if v \<noteq> None
      then run_to Idle w (Held (the v)) w' \<and> genuine w' (the v) \<and> snd_message_id (the v) = m
      else run_to Idle w Idle w'"
    by (rule effect_run [OF claim_effect [OF run [unfolded claim_send_def] wf] quiet]) (rule step)
  then show ?thesis by (auto split: sum.splits option.splits if_splits)
qed

lemma note_run:
  assumes run: "note_ses_call (app_table A) c now w = (res, w')" and wf: "table_wf pp (rows_of w)"
    and gen: "genuine w c"
  shows "case res of Inr (Some st) \<Rightarrow> run_to (Held c) w (Calling st) w' \<and> snd_message_id st = snd_message_id c
    | _ \<Rightarrow> run_to (Held c) w Idle w'"
proof -
  note quiet = frame.silentD [OF frame.silent_flows(2) run]
  have "run_to (Held c) w (Calling (the v)) w' \<and> snd_message_id (the v) = snd_message_id c"
    if R: "env (rows_of w) R" "note_commit c now v R R'" "table_wf pp R'" "env R' (rows_of w')" for v R R'
  proof -
    have mid: "snd_message_id (calling_ses c now) = snd_message_id c" by (simp add: calling_ses_def)
    have "proc_step (seen_before env R) (Held c) (send_at R) [Wrote (calling_ses c now)]
        (Calling (calling_ses c now)) (send_at R')"
      using proc_note [of "send_at R" c, OF _ refl, of "seen_before env R" now] R(2) mid
      by (simp add: note_commit_def)
    from run_around [OF R(1) this R(3,4) quiet] R(2) mid show ?thesis by (simp add: note_commit_def)
  qed
  note step = this
  have "case res of Inl e \<Rightarrow> run_to (Held c) w Idle w' | Inr v \<Rightarrow> if v \<noteq> None
      then run_to (Held c) w (Calling (the v)) w' \<and> snd_message_id (the v) = snd_message_id c
      else run_to (Held c) w Idle w'"
    by (rule effect_run [OF note_effect [OF run [unfolded note_ses_call_def Let_def] wf gen] quiet])
      (rule step)
  then show ?thesis by (auto split: sum.splits option.splits if_splits)
qed

text \<open>Recording an outcome the process may record; an operator may also decide on a send it has seen unknown.\<close>

definition allowed :: "pc \<Rightarrow> rows \<Rightarrow> send_state \<Rightarrow> mark_outcome \<Rightarrow> bool" where
  "allowed pc R0 st outcome \<longleftrightarrow> may_record pc st outcome \<or>
     seen_before env R0 st \<and> snd_send_status st = Unknown \<and> (\<exists>d. outcome = resolution_outcome d)"

lemma seen_later: "seen_before env R st \<Longrightarrow> env R R' \<Longrightarrow> seen_before env R' st"
  unfolding seen_before_def using env_trans by blast

lemma allowed_step:
  assumes "allowed pc R st outcome" and "mark_rel st outcome now v R R'"
  shows "\<exists>events. proc_step (seen_before env R) pc (send_at R) events pc (send_at R') \<and> ses_calls events = []"
proof -
  from assms(2) obtain msg st' where m: "committed (send_at R) st None" "st' = fst (mark_transition st msg outcome now)"
    "send_at R' = (send_at R)(snd_message_id st \<mapsto> st')" by (auto simp: mark_rel_def)
  have mid: "snd_message_id st' = snd_message_id st"
    using next_states(3) [of st msg outcome now] m(2) by (simp add: next_state_def)
  from assms(1) show ?thesis unfolding allowed_def
  proof (elim disjE conjE exE)
    assume "may_record pc st outcome"
    from proc_record [OF this m(1,2), of "seen_before env R"] m(3) mid show ?thesis by fastforce
  next
    fix d
    assume "seen_before env R st" "snd_send_status st = Unknown" "outcome = resolution_outcome d"
    with proc_resolve [of "seen_before env R" st "send_at R" st' msg d now pc] m mid
    show ?thesis by (fastforce split: if_splits)
  qed
qed

lemma mark_run:
  assumes run: "mark_send (app_table A) st outcome now w = (res, w')" and wf: "table_wf pp (rows_of w)"
    and allow: "allowed pc (rows_of w) st outcome"
  shows "run_to pc w pc w'"
proof -
  note quiet = frame.silentD [OF frame.silent_flows(3) run]
  from mark_send_effect [OF run wf] show ?thesis
    unfolding effect_def
  proof (elim disjE conjE exE)
    assume "env (rows_of w) (rows_of w')"
    then show ?thesis using quiet by (intro run_to_keeps) (simp add: keeps_def)
  next
    fix R R' v
    assume R: "env (rows_of w) R" "mark_rel st outcome now v R R'" "table_wf pp R'" "env R' (rows_of w')"
    have "allowed pc R st outcome" using allow seen_later [OF _ R(1)] unfolding allowed_def by blast
    from allowed_step [OF this R(2)] show ?thesis using run_around [OF R(1) _ R(3,4) quiet] by blast
  next
    fix R R' v e
    assume R: "env (rows_of w) R" "mark_rel st outcome now v R R'" "table_wf pp R'" "env R' (rows_of w')"
    have "allowed pc R st outcome" using allow seen_later [OF _ R(1)] unfolding allowed_def by blast
    from allowed_step [OF this R(2)] show ?thesis using run_around [OF R(1) _ R(3,4) quiet] by blast
  qed
qed

lemma record_mark_run:
  assumes "record_mark A st outcome now w = (res, w')" and "table_wf pp (rows_of w)"
    and "allowed pc (rows_of w) st outcome"
  shows "run_to pc w pc w'"
proof -
  obtain r w1 where run: "mark_send (app_table A) st outcome now w = (r, w1)" by fastforce
  from mark_run [OF run assms(2,3)] assms(1) keeps_clear_outbox [of w1 st] show ?thesis
    by (auto simp: record_mark_def run split: sum.splits if_splits intro: run_to_then)
qed

lemma fail_run:
  assumes "fail A c failure now w = (res, w')" and "table_wf pp (rows_of w)"
    and "may_record pc c (MFailed failure)"
  shows "run_to pc w pc w'"
proof -
  obtain r w1 where run: "record_mark A c (MFailed failure) now w = (r, w1)" by fastforce
  with record_mark_run [OF this assms(2)] assms(1,3) show ?thesis
    by (auto simp: fail_def allowed_def split: sum.splits)
qed

lemma hand_back_run:
  assumes "hand_back A c failure now deadline w = (res, w')" and wf: "table_wf pp (rows_of w)"
    and "under_cap c \<Longrightarrow> may_record pc c MReleased" and "\<not> under_cap c \<Longrightarrow> may_record pc c (MFailed failure)"
  shows "run_to pc w pc w'"
proof (cases "under_cap c")
  case False
  with assms fail_run show ?thesis by (simp add: hand_back_def under_cap_def)
next
  case True
  define w1 where "w1 = wait_before_retry A (1000 * 2 ^ unat (min (snd_transient_failures c) 4)) deadline w"
  have wait: "keeps w w1" unfolding w1_def by (rule keeps_wait)
  obtain r w2 where run: "record_mark A c MReleased now w1 = (r, w2)" by fastforce
  have "w' = w2"
    using assms(1) True run by (auto simp: hand_back_def under_cap_def Let_def w1_def split: sum.splits)
  moreover have "run_to pc w1 pc w2"
    using record_mark_run [OF run keeps_wf [OF wait wf]] assms(3) [OF True] by (simp add: allowed_def)
  ultimately show ?thesis using run_to_trans [OF run_to_keeps [OF wait]] by simp
qed

lemma mark_sent_loop_run:
  "mark_sent_loop A st ses now deadline ns w = (res, w') \<Longrightarrow> table_wf pp (rows_of w) \<Longrightarrow>
     may_record pc st (MSent ses) \<Longrightarrow> run_to pc w pc w'"
proof (induction ns arbitrary: w)
  case Nil
  then show ?case by (simp add: run_to_keeps)
next
  case (Cons n ns)
  obtain r w1 where run: "mark_send (app_table A) st (MSent ses) now w = (r, w1)" by fastforce
  have one: "run_to pc w pc w1" using mark_run [OF run Cons.prems(2)] Cons.prems(3) by (simp add: allowed_def)
  let ?w2 = "wait_before_retry A (1000 * n) deadline w1"
  have two: "run_to pc w pc ?w2" by (rule run_to_then [OF one keeps_wait])
  from Cons.prems(1) run one show ?case
    using Cons.IH [of ?w2, OF _ run_to_wf [OF two Cons.prems(2)] Cons.prems(3)] run_to_trans [OF two]
    by (auto split: sum.splits if_splits)
qed

lemma record_outcome_run:
  assumes run: "record_outcome A st answer now deadline w = (res, w')" and wf: "table_wf pp (rows_of w)"
  shows "run_to (Called st answer) w (Called st answer) w'"
proof (cases answer)
  case (OutcomeSent x)
  obtain r w1 where mark: "mark_sent A st x now deadline w = (r, w1)" by fastforce
  have "run_to (Called st answer) w (Called st answer) w1"
    using mark mark_sent_loop_run [OF _ wf] OutcomeSent
    by (auto simp: mark_sent_def run_to_keeps split: option.splits)
  with run mark OutcomeSent keeps_clear_outbox [of w1 st] show ?thesis
    by (auto simp: record_outcome_def split: sum.splits intro: run_to_then)
next
  case (OutcomeFailed x)
  with run fail_run [OF _ wf] show ?thesis by (simp add: record_outcome_def)
next
  case (OutcomeRetryable x)
  with run hand_back_run [OF _ wf, of st SesUnavailable now deadline res w'] show ?thesis
    by (simp add: record_outcome_def)
next
  case (OutcomeUnknown x)
  obtain r w1 where mark: "record_mark A st MUnknown now w = (r, w1)" by fastforce
  with run OutcomeUnknown record_mark_run [OF mark wf, of "Called st answer"] show ?thesis
    by (auto simp: record_outcome_def allowed_def split: sum.splits)
qed

lemma call_ses_run:
  assumes run: "call_ses A config m spec built st now deadline w = (res, w')"
    and wf: "table_wf pp (rows_of w)" and id: "snd_message_id st = m"
  shows "run_to (Calling st) w Idle w'"
proof -
  obtain answer w1 where send: "app_send_raw A (raw_of config m spec built) w = (answer, w1)" by fastforce
  note frame = send_frame [OF send]
  have "sender_run env (Calling st) (rows_of w) ([CalledSes st answer] @ []) (Called st answer) (rows_of w1)"
    using run_step [of env, OF proc_call] run_env [of env, OF frame [THEN conjunct1]] by (rule run_trans)
  then have "run_to (Calling st) w (Called st answer) w1"
    using frame id env_wf by (intro run_toI) (auto simp: raw_of_def)
  moreover from this have "run_to (Called st answer) w1 (Called st answer) w'"
    using record_outcome_run run send run_to_wf wf by (simp add: call_ses_def)
  ultimately show ?thesis by (blast intro: run_to_trans run_to_leave)
qed

lemma send_built_run:
  assumes run: "send_built A config m spec built c now deadline w = (res, w')"
    and wf: "table_wf pp (rows_of w)" and gen: "genuine w c" and id: "snd_message_id c = m"
  shows "run_to (Held c) w Idle w'"
proof -
  obtain r w1 where nt: "note_ses_call (app_table A) c now w = (r, w1)" by fastforce
  from note_run [OF nt wf gen] run nt id show ?thesis
    using call_ses_run [of config m spec built _ now deadline w1 res w']
    by (auto simp: send_built_def split: sum.splits option.splits intro: run_to_trans dest: run_to_wf [OF _ wf])
qed

lemma send_claimed_run:
  assumes run: "send_claimed A config m c now deadline w = (res, w')"
    and wf: "table_wf pp (rows_of w)" and gen: "genuine w c" and id: "snd_message_id c = m"
  shows "run_to (Held c) w Idle w'"
proof -
  obtain r w1 where ld: "load A (reserve_before A deadline SEND_RESERVE w) m w = (r, w1)" by fastforce
  note k = keeps_load [OF ld]
  note wf1 = keeps_wf [OF k wf] and gen1 = keeps_genuine [OF k gen]
  have failed: "fail A c failure now w1 = (res, w') \<Longrightarrow> run_to (Held c) w1 Idle w'" for failure
    using fail_run [OF _ wf1, of c failure now res w' "Held c"] run_to_leave by simp
  have handed: "hand_back A c failure now deadline w1 = (res, w') \<Longrightarrow> run_to (Held c) w1 Idle w'" for failure
    using hand_back_run [OF _ wf1, of c failure now deadline res w' "Held c"] run_to_leave by simp
  have "run_to (Held c) w1 Idle w'"
    using run send_built_run [OF _ wf1 gen1 id]
    by (auto simp: send_claimed_def Let_def ld intro: failed handed
        split: option.splits sum.splits load_error.splits prod.splits)
  then show ?thesis by (rule run_to_trans [OF run_to_keeps [OF k]])
qed

lemma handle_send_run:
  assumes run: "handle_send A m deadline w = (res, w')" and wf: "table_wf pp (rows_of w)"
  shows "run_to Idle w Idle w'"
proof (cases "app_mail A")
  case None
  with run show ?thesis by (simp add: handle_send_def run_to_stop)
next
  case (Some config)
  obtain r w1 where cl: "claim_send (app_table A) m (time_format (app_now_ms A w)) w = (r, w1)" by fastforce
  from claim_run [OF cl wf] run show ?thesis
    by (auto simp: handle_send_def Let_def Some cl split: sum.splits option.splits
        intro: run_to_trans [OF _ send_claimed_run] dest: run_to_wf [OF _ wf])
qed

lemma resolve_unknown_run:
  assumes run: "resolve_unknown A m d w = (res, w')" and wf: "table_wf pp (rows_of w)"
  shows "run_to Idle w Idle w'"
proof -
  let ?now = "time_format (app_now_ms A w)"
  obtain r w1 where get: "get_send_state (app_table A) m w = (r, w1)" by fastforce
  have k: "keeps w w1"
    using get get_as_env frame.silentD [OF frame.silent_reads(4) get] by (auto simp: keeps_def get_send_state_def)
  have mark: "run_to Idle w1 Idle w2"
    if st: "r = Inr (Some st)" "snd_send_status st = Unknown"
      and rec: "record_mark A st (resolution_outcome d) ?now w1 = (r2, w2)" for st r2 w2
  proof -
    from get [unfolded get_send_state_def st(1)] obtain R1 it where R1: "env (rows_of w) R1" "env R1 (rows_of w1)"
      "R1 (send_state_key m) = Some it" "send_state_of_item it = Some st"
      by (rule get_as_consistent) auto
    then have at: "send_at R1 m = Some st" by (simp add: send_at_def)
    with table_wf_reads(3) [OF env_wf [OF R1(1) wf]] have "snd_message_id st = m" by simp
    with at R1(2) have "seen_before env (rows_of w1) st" by (auto simp: seen_before_def)
    with record_mark_run [OF rec keeps_wf [OF k wf], of Idle] st(2) show ?thesis
      by (auto simp: allowed_def)
  qed
  have "run_to Idle w1 Idle w'"
  proof (cases "\<exists>st. r = Inr (Some st) \<and> snd_send_status st = Unknown")
    case False
    with run get show ?thesis
      by (auto simp: resolve_unknown_def Let_def run_to_stop split: sum.splits option.splits if_splits)
  next
    case True
    then obtain st where st: "r = Inr (Some st)" "snd_send_status st = Unknown" by blast
    obtain r2 w2 where rec: "record_mark A st (resolution_outcome d) ?now w1 = (r2, w2)" by fastforce
    with run get st have "w' = w2" by (auto simp: resolve_unknown_def Let_def split: sum.splits)
    with mark [OF st rec] show ?thesis by simp
  qed
  then show ?thesis by (rule run_to_trans [OF run_to_keeps [OF k]])
qed

end

section \<open>Runs among other processes\<close>

lemma proc_step_mono:
  assumes "proc_step seen pc \<sigma> events pc' \<sigma>'" and "\<And>st. seen st \<Longrightarrow> seen' st"
  shows "proc_step seen' pc \<sigma> events pc' \<sigma>'"
  using assms(1)
proof (induction rule: proc_step.induct)
  case (proc_resolve st \<sigma> st' msg decision now pc)
  then show ?case by (intro proc_step.proc_resolve) (simp_all add: assms(2))
qed (rule proc_step.intros; (assumption | rule assms(2) | rule refl)+)+

lemma proc_step_rows:
  assumes "proc_step seen pc \<sigma> events pc' \<sigma>'" and "\<sigma>' m = Some r"
  shows "\<sigma> m = Some r \<or> Wrote r \<in> List.set events \<and> snd_message_id r = m"
  using assms by (cases rule: proc_step.cases) (auto split: if_splits)

text \<open>Whatever a row holds was written, by a step or by a request.\<close>

lemma reachable_rows:
  "reachable s \<Longrightarrow> sys_sends s m = Some r \<Longrightarrow> Wrote r \<in> List.set (sys_log s) \<and> snd_message_id r = m"
proof (induction arbitrary: m r rule: reachable.induct)
  case (reach_step s s')
  from reach_step.hyps(2) show ?case
  proof cases
    case (sys_proc p events pc' \<sigma>')
    with reach_step.prems reach_step.IH [of m r] proc_step_rows [OF sys_proc(2), of m r] show ?thesis by auto
  next
    case (sys_enqueue st)
    with reach_step.prems reach_step.IH [of m r] show ?thesis by (auto split: if_splits)
  qed
qed simp

lemma run_simulated:
  "sender_run (=) pc R events pc' R' \<Longrightarrow> reachable s \<Longrightarrow> sys_sends s = send_at R \<Longrightarrow> sys_procs s p = pc \<Longrightarrow>
     \<exists>s'. reachable s' \<and> sys_sends s' = send_at R' \<and> sys_procs s' = (sys_procs s)(p := pc') \<and>
       sys_log s' = sys_log s @ events"
proof (induction arbitrary: s rule: sender_run.induct)
  case (run_env R R' pc)
  then show ?case by (intro exI [of _ s]) auto
next
  case (run_step R pc events pc' R')
  let ?s = "\<lparr>sys_sends = send_at R', sys_procs = (sys_procs s)(p := pc'), sys_log = sys_log s @ events\<rparr>"
  have "Wrote st \<in> List.set (sys_log s)" if "seen_before (=) R st" for st
    using reachable_rows [OF run_step.prems(1)] that run_step.prems(2) by (auto simp: seen_before_def)
  with proc_step_mono [OF run_step.hyps] have "system_step s ?s"
    using run_step.prems by (intro sys_proc) auto
  with run_step.prems(1) have "reachable ?s" by (rule reach_step)
  then show ?case by (intro exI [of _ ?s]) simp
next
  case (run_trans pc R e1 pc1 R1 e2 pc2 R2)
  from run_trans.IH(1) [OF run_trans.prems] obtain s1 where s1: "reachable s1" "sys_sends s1 = send_at R1"
    "sys_procs s1 = (sys_procs s)(p := pc1)" "sys_log s1 = sys_log s @ e1" by blast
  have "sys_procs s1 p = pc1" by (simp add: s1(3))
  from run_trans.IH(2) [OF s1(1,2) this] obtain s2 where "reachable s2" "sys_sends s2 = send_at R2"
    "sys_procs s2 = (sys_procs s1)(p := pc2)" "sys_log s2 = sys_log s1 @ e2" by blast
  with s1 show ?case by (intro exI [of _ s2]) (simp add: fun_upd_upd)
qed

end
