(* ===== verification/Fakes.thy ===== *)
theory Fakes
  imports Runs Outcomes
begin

text \<open>
  \<open>crates/webhook-test-support\<close>: the in-process backend the handlers are tested against. The
  object store, SES and the fetcher are fakes with scripted failures; the mail table is the
  in-memory store. Together they are one world, over which the contract \<open>sender_backend\<close> is
  shown to hold, so that what is proved of the sender holds of it run against these fakes.
\<close>

section \<open>The object store\<close>

record stored_object =
  so_body :: bytes
  so_content_type :: string

datatype object_failure = FailNotFound | FailPermanent | FailTransient | FailHang

datatype object_op = OpGet | OpHead | OpPut | OpDelete

record fake_objects =
  fo_objects :: "string \<rightharpoonup> stored_object"
  fo_failures :: "string \<rightharpoonup> object_failure"
  fo_calls :: "object_op \<Rightarrow> string list"
  fo_nth_put_failure :: "u64 option"

definition fo_seed :: "string \<Rightarrow> bytes \<Rightarrow> string \<Rightarrow> fake_objects \<Rightarrow> fake_objects" where
  "fo_seed key body ct s = s\<lparr>fo_objects := (fo_objects s)(key \<mapsto> \<lparr>so_body = body, so_content_type = ct\<rparr>)\<rparr>"

definition fo_inject :: "string \<Rightarrow> object_failure \<Rightarrow> fake_objects \<Rightarrow> fake_objects" where
  "fo_inject key failure s = s\<lparr>fo_failures := (fo_failures s)(key \<mapsto> failure)\<rparr>"

definition fo_inject_nth_put_if_absent :: "u64 \<Rightarrow> fake_objects \<Rightarrow> fake_objects" where
  "fo_inject_nth_put_if_absent n s = s\<lparr>fo_nth_put_failure := Some n\<rparr>"

definition fo_clear :: "string \<Rightarrow> fake_objects \<Rightarrow> fake_objects" where
  "fo_clear key s = s\<lparr>fo_failures := (fo_failures s)(key := None)\<rparr>"

definition fo_get :: "fake_objects \<Rightarrow> string \<Rightarrow> bytes option" where
  "fo_get s key = map_option so_body (fo_objects s key)"

definition fo_content_type :: "fake_objects \<Rightarrow> string \<Rightarrow> string option" where
  "fo_content_type s key = map_option so_content_type (fo_objects s key)"

definition fo_contains :: "fake_objects \<Rightarrow> string \<Rightarrow> bool" where
  "fo_contains s key \<longleftrightarrow> fo_objects s key \<noteq> None"

definition fo_call_count :: "fake_objects \<Rightarrow> object_op \<Rightarrow> string \<Rightarrow> nat" where
  "fo_call_count s op key = length (filter (\<lambda>k. k = key) (fo_calls s op))"

definition fo_record :: "object_op \<Rightarrow> string \<Rightarrow> fake_objects \<Rightarrow> fake_objects" where
  "fo_record op key s = s\<lparr>fo_calls := (fo_calls s)(op := fo_calls s op @ [key])\<rparr>"

text \<open>
  \<open>injected\<close>: \<open>None\<close> is a call that never resolves. What the operations below return for it is
  what the caller never sees: the await is dropped when its timer fires.
\<close>

fun fo_injected :: "object_failure option \<Rightarrow> (object_error + bool) option" where
  "fo_injected (Some FailHang) = None"
| "fo_injected (Some FailNotFound) = Some (Inr True)"
| "fo_injected (Some FailPermanent) = Some (Inl ObjPermanent)"
| "fo_injected (Some FailTransient) = Some (Inl ObjTransient)"
| "fo_injected None = Some (Inr False)"

definition with_injected ::
  "string \<Rightarrow> (bool \<Rightarrow> fake_objects \<Rightarrow> (object_error + 'a) \<times> fake_objects) \<Rightarrow> fake_objects
     \<Rightarrow> (object_error + 'a) option \<times> fake_objects" where
  "with_injected key k s = (case fo_injected (fo_failures s key) of
       None \<Rightarrow> (None, s)
     | Some (Inl e) \<Rightarrow> (Some (Inl e), s)
     | Some (Inr not_found) \<Rightarrow> (case k not_found s of (res, s') \<Rightarrow> (Some res, s')))"

text \<open>\<open>u64::try_from\<close> of a length: a vector's length is below \<open>2\<^sup>6\<^sup>3\<close>, so the conversion never saturates.\<close>

definition fake_get_object :: "string \<Rightarrow> u64 \<Rightarrow> fake_objects \<Rightarrow> (object_error + bytes) option \<times> fake_objects" where
  "fake_get_object key max_bytes s =
     with_injected key (\<lambda>not_found s.
       if not_found then (Inl ObjNotFound, s)
       else case fo_objects s key of
           None \<Rightarrow> (Inl ObjNotFound, s)
         | Some obj \<Rightarrow>
             let size = of_nat (length (so_body obj)) in
             if size > max_bytes then (Inl (ObjTooLarge size), s) else (Inr (so_body obj), s))
       (fo_record OpGet key s)"

definition fake_head_object :: "string \<Rightarrow> fake_objects \<Rightarrow> (object_error + u64 option) option \<times> fake_objects" where
  "fake_head_object key s =
     with_injected key (\<lambda>not_found s.
       if not_found then (Inr None, s)
       else (Inr (map_option (\<lambda>obj. of_nat (length (so_body obj))) (fo_objects s key)), s))
       (fo_record OpHead key s)"

definition count_down :: "u64 option \<Rightarrow> bool \<times> u64 option" where
  "count_down c = (case c of
       None \<Rightarrow> (False, None)
     | Some n \<Rightarrow> if n = 1 then (True, None) else (False, Some (n - 1)))"

definition fake_put_object_if_absent ::
  "string \<Rightarrow> bytes \<Rightarrow> string \<Rightarrow> fake_objects \<Rightarrow> (object_error + put_outcome) option \<times> fake_objects" where
  "fake_put_object_if_absent key body ct s =
     with_injected key (\<lambda>_ s.
       case count_down (fo_nth_put_failure s) of (fails, left) \<Rightarrow>
         let s = s\<lparr>fo_nth_put_failure := left\<rparr> in
         if fails then (Inl ObjTransient, s)
         else if fo_objects s key \<noteq> None then (Inr AlreadyExists, s)
         else (Inr Created, fo_seed key body ct s))
       (fo_record OpPut key s)"

definition fake_delete_object :: "string \<Rightarrow> fake_objects \<Rightarrow> (object_error + unit) option \<times> fake_objects" where
  "fake_delete_object key s =
     with_injected key (\<lambda>_ s. (Inr (), s\<lparr>fo_objects := (fo_objects s)(key := None)\<rparr>))
       (fo_record OpDelete key s)"

section \<open>SES and the fetcher\<close>

record sent_message =
  sm_message_id :: string
  sm_raw :: bytes
  sm_to :: "string list"
  sm_cc :: "string list"
  sm_bcc :: "string list"
  sm_from :: string

record fake_world =
  fw_mail :: memory_store
  fw_objects :: fake_objects
  fw_log :: "string list"
  fw_sent :: "sent_message list"
  fw_send_outcome :: "send_outcome option"
  fw_store_failures_after_send :: nat
  fw_fetchable :: "string \<rightharpoonup> bytes"
  fw_fetched :: "string list"
  fw_now_ms :: u64
  fw_instant :: nat
  fw_hung :: bool
  fw_answers :: "(string \<times> send_outcome) list"

text \<open>\<open>fw_hung\<close>: the last await never resolved. \<open>fw_answers\<close> is no field of a fake: it is what
  \<open>send_raw\<close> was called for and answered, in order.\<close>

definition fake_send_raw :: "raw_send \<Rightarrow> fake_world \<Rightarrow> send_outcome \<times> fake_world" where
  "fake_send_raw request w =
     (let outcome = (case fw_send_outcome w of
            Some outcome \<Rightarrow> outcome
          | None \<Rightarrow> OutcomeSent (''ses-'' @ rs_message_id request))
      in (outcome, w\<lparr>
        fw_log := fw_log w @ [''send_raw:'' @ rs_message_id request],
        fw_mail := ((inject InjTransient) ^^ (fw_store_failures_after_send w)) (fw_mail w),
        fw_store_failures_after_send := 0,
        fw_sent := fw_sent w @ [\<lparr>sm_message_id = rs_message_id request, sm_raw = rs_raw request,
          sm_to = rs_to request, sm_cc = rs_cc request, sm_bcc = rs_bcc request, sm_from = rs_from request\<rparr>],
        fw_send_outcome := None,
        fw_answers := fw_answers w @ [(rs_message_id request, outcome)]\<rparr>))"

definition fake_fetch :: "url \<Rightarrow> u64 \<Rightarrow> fake_world \<Rightarrow> (fetch_error + bytes) \<times> fake_world" where
  "fake_fetch url max_bytes w =
     (case fw_fetchable w (url_str url) of
        None \<Rightarrow> Inl (FetchRejected 404)
      | Some body \<Rightarrow> if of_nat (length body) > max_bytes then Inl FetchTooLarge else Inr body,
      w\<lparr>fw_fetched := fw_fetched w @ [url_str url], fw_hung := False\<rparr>)"

section \<open>The world\<close>

definition on_mail :: "(memory_store \<Rightarrow> 'a \<times> memory_store) \<Rightarrow> fake_world \<Rightarrow> 'a \<times> fake_world" where
  "on_mail m w = (case m (fw_mail w) of (a, s) \<Rightarrow> (a, w\<lparr>fw_mail := s\<rparr>))"

definition on_objects ::
  "(object_error + 'a) \<Rightarrow> (fake_objects \<Rightarrow> (object_error + 'a) option \<times> fake_objects) \<Rightarrow> fake_world
     \<Rightarrow> (object_error + 'a) \<times> fake_world" where
  "on_objects unseen m w = (case m (fw_objects w) of
       (None, s) \<Rightarrow> (unseen, w\<lparr>fw_objects := s, fw_hung := True\<rparr>)
     | (Some res, s) \<Rightarrow> (res, w\<lparr>fw_objects := s, fw_hung := False\<rparr>))"

definition fake_table :: "fake_world table" where
  "fake_table =
     \<lparr>tbl_get = \<lambda>k r. on_mail (tbl_get memory_table k r),
      tbl_batch_get = \<lambda>ks r. on_mail (tbl_batch_get memory_table ks r),
      tbl_query = \<lambda>q. on_mail (tbl_query memory_table q),
      tbl_put_if_absent = \<lambda>i. on_mail (tbl_put_if_absent memory_table i),
      tbl_transact = \<lambda>ops. on_mail (tbl_transact memory_table ops),
      tbl_pause = \<lambda>n w. w\<lparr>fw_mail := tbl_pause memory_table n (fw_mail w)\<rparr>\<rparr>"

definition fake_object_store :: "fake_world object_store" where
  "fake_object_store =
     \<lparr>obj_get = \<lambda>key limit. on_objects (Inl ObjNotFound) (fake_get_object key limit),
      obj_head = \<lambda>key. on_objects (Inr None) (fake_head_object key),
      obj_put_if_absent = \<lambda>key body ct. on_objects (Inl ObjTransient) (fake_put_object_if_absent key body ct),
      obj_delete = \<lambda>key. on_objects (Inr ()) (fake_delete_object key)\<rparr>"

text \<open>
  \<open>fake_state\<close>. The fakes answer at once, so a timer fires during an await only if it hangs;
  sleeping moves the runtime's clock.
\<close>

definition fake_app ::
  "mail_config option \<Rightarrow> (bytes \<Rightarrow> send_spec option) \<Rightarrow> (message_builder \<Rightarrow> bytes option)
     \<Rightarrow> (string \<Rightarrow> url option) \<Rightarrow> fake_world app" where
  "fake_app config parse_spec write_to_vec url_parse =
     \<lparr>app_mail = config, app_table = fake_table, app_objects = fake_object_store,
      app_fetch = fake_fetch, app_send_raw = fake_send_raw, app_now_ms = fw_now_ms,
      app_instant = fw_instant, app_sleep_until = (\<lambda>t w. w\<lparr>fw_instant := max t (fw_instant w)\<rparr>),
      app_elapsed = (\<lambda>_. fw_hung), app_parse_spec = parse_spec, app_write_to_vec = write_to_vec,
      app_url_parse = url_parse\<rparr>"

definition fake_rows :: "fake_world \<Rightarrow> rows" where
  "fake_rows w = mem_rows (fw_mail w)"

section \<open>The contract\<close>

lemma on_mail_cases:
  assumes "on_mail m w = (res, w')"
  obtains s where "m (fw_mail w) = (res, s)" "w' = w\<lparr>fw_mail := s\<rparr>"
  using assms by (auto simp: on_mail_def split: prod.splits)

lemma fake_rows_simps [simp]:
  "fake_rows (w\<lparr>fw_mail := s\<rparr>) = mem_rows s" "fake_rows (w\<lparr>fw_hung := b\<rparr>) = fake_rows w"
  "fake_rows (w\<lparr>fw_objects := x\<rparr>) = fake_rows w" "fake_rows (w\<lparr>fw_instant := t\<rparr>) = fake_rows w"
  "fake_rows (w\<lparr>fw_fetched := us\<rparr>) = fake_rows w"
  by (simp_all add: fake_rows_def)

lemma on_objects_frame:
  "on_objects unseen m w = (res, w') \<Longrightarrow> fake_rows w = fake_rows w' \<and> fw_answers w' = fw_answers w"
  by (auto simp: on_objects_def split: prod.splits option.splits)

lemma inject_rows [simp]: "mem_rows ((inject f ^^ n) s) = mem_rows s"
  by (induction n) (simp_all add: inject_def mem_rows_def)

interpretation fmem: mail_table fake_table fake_rows "(=)"
proof unfold_locales
  fix k r w res w'
  assume "tbl_get fake_table k r w = (res, w')"
  then show "\<exists>R. fake_rows w = R \<and> R = fake_rows w' \<and>
      (r = Consistent \<longrightarrow> (\<forall>found. res = Inr found \<longrightarrow> found = R k))"
    by (auto simp: fake_table_def fake_rows_def elim!: on_mail_cases dest: mem.get_law)
next
  fix ks r w bres w'
  assume "tbl_batch_get fake_table ks r w = (bres, w')"
  then show "fake_rows w = fake_rows w' \<and>
      (\<forall>found k. bres = Inr found \<longrightarrow> r = Consistent \<longrightarrow> k \<in> List.set ks \<longrightarrow>
         (\<exists>R. fake_rows w = R \<and> R = fake_rows w' \<and> found k = R k))"
    by (auto simp: fake_table_def fake_rows_def elim!: on_mail_cases dest!: mem.batch_get_law)
next
  fix q w qres w'
  assume "tbl_query fake_table q w = (qres, w')"
  then show "fake_rows w = fake_rows w'"
    by (auto simp: fake_table_def fake_rows_def elim!: on_mail_cases dest: mem.query_law)
next
  fix i w pres w'
  assume "tbl_put_if_absent fake_table i w = (pres, w')"
  then show "fake_rows w = fake_rows w' \<or> (\<exists>R k. fake_rows w = R \<and>
      target (Put i CondNotExists) = Some k \<and> R k = None \<and> R(k \<mapsto> i) = fake_rows w')"
    by (auto simp: fake_table_def fake_rows_def elim!: on_mail_cases dest!: mem.put_law)
next
  fix ops w tres w'
  assume "tbl_transact fake_table ops w = (tres, w')"
  then obtain s where "tbl_transact memory_table ops (fw_mail w) = (tres, s)" "w' = w\<lparr>fw_mail := s\<rparr>"
    by (auto simp: fake_table_def elim!: on_mail_cases)
  with mem.transact_law [OF this(1)] show "(\<exists>R. fake_rows w = R \<and> txn_ok R ops \<and>
      txn_apply ops R = fake_rows w' \<and> (tres = Inr Committed \<or> (\<exists>e. tres = Inl e))) \<or>
    (\<exists>R. fake_rows w = R \<and> R = fake_rows w' \<and>
      ((\<exists>d. tres = Inr (Cancelled d) \<and>
         (d = Retry \<or> d = KeyExists \<or> \<not> txn_ok R ops \<and> d = cancel_decision R ops)) \<or>
       (\<exists>e. tres = Inl e)))"
    by (simp add: fake_rows_def)
qed (auto simp: fake_table_def fake_rows_def mem.pause_law)

interpretation vfake: versioned_table fake_table fake_rows "(=)"
  by unfold_locales simp

lemma fake_app_simps [simp]:
  "app_table (fake_app config parse_spec write_to_vec url_parse) = fake_table"
  "app_objects (fake_app config parse_spec write_to_vec url_parse) = fake_object_store"
  by (simp_all add: fake_app_def)

interpretation fsend: sender_backend "fake_app config parse_spec write_to_vec url_parse" fake_rows "(=)" pp fw_answers
  for config parse_spec write_to_vec url_parse and pp :: "string \<Rightarrow> 'm option"
proof (intro sender_backend.intro sender_backend_axioms.intro)
  show "versioned_table (app_table (fake_app config parse_spec write_to_vec url_parse)) fake_rows (=)"
    unfolding fake_app_simps by unfold_locales
qed (auto simp: fake_table_def on_mail_def split: prod.splits,
  auto simp: fake_object_store_def fake_app_def fake_fetch_def fake_send_raw_def Let_def fake_rows_def
    dest!: on_objects_frame split: option.splits)

section \<open>The sender against the fakes\<close>

interpretation qfake: quiet_table fake_table fake_rows "(=)" "\<lambda>w. mem_quiet (fw_mail w)"
proof unfold_locales
  fix w :: fake_world and k r
  assume "mem_quiet (fw_mail w)"
  from qmem.quiet_get [OF this, of k r]
  show "\<exists>w'. tbl_get fake_table k r w = (Inr (fake_rows w k), w') \<and>
      fake_rows w' = fake_rows w \<and> mem_quiet (fw_mail w')"
    by (auto simp: fake_table_def on_mail_def fake_rows_def)
next
  fix w :: fake_world and ks r
  assume "mem_quiet (fw_mail w)"
  from qmem.quiet_batch_get [OF this, of ks r]
  show "\<exists>w'. tbl_batch_get fake_table ks r w =
      (Inr (\<lambda>k. if k \<in> List.set ks then fake_rows w k else None), w') \<and>
      fake_rows w' = fake_rows w \<and> mem_quiet (fw_mail w')"
    unfolding fake_rows_def by (auto simp: fake_table_def on_mail_def)
next
  fix w :: fake_world and i k
  assume "mem_quiet (fw_mail w)" "target (Put i CondNotExists) = Some k"
  from qmem.quiet_put [OF this]
  show "\<exists>w'. tbl_put_if_absent fake_table i w =
      (Inr (if fake_rows w k = None then Created else AlreadyExists), w') \<and>
      fake_rows w' = (if fake_rows w k = None then (fake_rows w)(k \<mapsto> i) else fake_rows w) \<and>
      mem_quiet (fw_mail w')"
    by (auto simp: fake_table_def on_mail_def fake_rows_def)
next
  fix w :: fake_world and ops
  assume "mem_quiet (fw_mail w)"
  from qmem.quiet_transact [OF this, of ops]
  show "\<exists>w'. tbl_transact fake_table ops w =
      (Inr (if txn_ok (fake_rows w) ops then Committed
            else Cancelled (cancel_decision (fake_rows w) ops)), w') \<and>
      fake_rows w' = (if txn_ok (fake_rows w) ops then txn_apply ops (fake_rows w) else fake_rows w) \<and>
      mem_quiet (fw_mail w')"
    by (auto simp: fake_table_def on_mail_def fake_rows_def)
next
  fix w :: fake_world and n
  assume "mem_quiet (fw_mail w)"
  from qmem.quiet_pause [OF this, of n]
  show "fake_rows (tbl_pause fake_table n w) = fake_rows w \<and> mem_quiet (fw_mail (tbl_pause fake_table n w))"
    by (simp add: fake_table_def fake_rows_def)
qed

text \<open>An object that can be read: no failure is scripted for its key, it is there and not too large.\<close>

definition readable :: "fake_objects \<Rightarrow> string \<Rightarrow> bool" where
  "readable s key \<longleftrightarrow> fo_failures s key = None \<and> (case fo_objects s key of None \<Rightarrow> False
     | Some obj \<Rightarrow> (of_nat (length (so_body obj)) :: u64) \<le> MAX_OUTBOUND_RAW_BYTES)"

definition part_key :: "message_id \<Rightarrow> spec_attachment \<Rightarrow> string" where
  "part_key m a = (case sa_object_key a of Some key \<Rightarrow> key
     | None \<Rightarrow> part_object (message_id_str m) (sa_attachment_id a))"

text \<open>What an operation on the objects or the table leaves as it was.\<close>

definition same_objects :: "fake_world \<Rightarrow> fake_world \<Rightarrow> bool" where
  "same_objects w w' \<longleftrightarrow> fo_objects (fw_objects w') = fo_objects (fw_objects w) \<and>
     fo_failures (fw_objects w') = fo_failures (fw_objects w) \<and> fw_send_outcome w' = fw_send_outcome w"

definition same_mail :: "fake_world \<Rightarrow> fake_world \<Rightarrow> bool" where
  "same_mail w w' \<longleftrightarrow> fw_mail w' = fw_mail w \<and> fw_answers w' = fw_answers w"

lemma fake_get_readable:
  assumes "readable (fw_objects w) key"
  shows "\<exists>w'. obj_get fake_object_store key MAX_OUTBOUND_RAW_BYTES w =
      (Inr (so_body (the (fo_objects (fw_objects w) key))), w') \<and>
    same_objects w w' \<and> same_mail w w' \<and> \<not> fw_hung w'"
  using assms
  by (auto simp: readable_def fake_object_store_def on_objects_def fake_get_object_def with_injected_def
      fo_record_def same_objects_def same_mail_def Let_def split: option.splits)

lemma readable_same: "same_objects w w' \<Longrightarrow> readable (fw_objects w') = readable (fw_objects w)"
  by (simp add: same_objects_def readable_def fun_eq_iff)

lemma same_trans:
  "same_objects w w1 \<Longrightarrow> same_objects w1 w2 \<Longrightarrow> same_objects w w2"
  "same_mail w w1 \<Longrightarrow> same_mail w1 w2 \<Longrightarrow> same_mail w w2"
  by (simp_all add: same_objects_def same_mail_def)

text \<open>What the bucket holds of an attachment, and the message the builder makes of a send as it is stored.\<close>

definition loaded_from :: "fake_objects \<Rightarrow> message_id \<Rightarrow> spec_attachment \<Rightarrow> loaded_part" where
  "loaded_from objects m a = (let body = so_body (the (fo_objects objects (part_key m a))) in
     case sa_object_key a of Some _ \<Rightarrow> \<lparr>lp_spec = a, lp_bytes = body\<rparr> | None \<Rightarrow> stored_as a (part_key m a) body)"

definition stored_message_bytes ::
  "(bytes \<Rightarrow> send_spec option) \<Rightarrow> (message_builder \<Rightarrow> bytes option) \<Rightarrow> message_id \<Rightarrow> fake_objects \<Rightarrow> bytes option" where
  "stored_message_bytes parse_spec write_to_vec m objects =
     (case parse_spec (so_body (the (fo_objects objects (spec_object (message_id_str m))))) of
        None \<Rightarrow> None
      | Some spec \<Rightarrow> write_to_vec (outbound_builder spec
          (map (\<lambda>a. let part = loaded_from objects (spec_message_id spec) a in \<lparr>bp_spec = lp_spec part, bp_bytes = lp_bytes part\<rparr>)
             (spec_attachments spec))))"

lemma load_part_readable:
  assumes "readable (fw_objects w) (part_key m a)"
  shows "\<exists>w'. load_part (fake_app config parse_spec write_to_vec url_parse) by m a budget w =
      (Some (Inr (loaded_from (fw_objects w) m a)), w') \<and> same_objects w w' \<and> same_mail w w'"
proof -
  obtain w' where "obj_get fake_object_store (part_key m a) MAX_OUTBOUND_RAW_BYTES w =
      (Inr (so_body (the (fo_objects (fw_objects w) (part_key m a)))), w')"
    "same_objects w w'" "same_mail w w'" "\<not> fw_hung w'"
    using fake_get_readable [OF assms] by blast
  then show ?thesis
    by (cases "sa_object_key a")
      (auto simp: load_part_def timed_def part_key_def loaded_from_def Let_def load_ok_def fake_app_def)
qed

lemma load_parts_readable:
  "\<forall>a \<in> List.set as. readable (fw_objects w) (part_key m a) \<Longrightarrow>
     \<exists>w'. load_parts (fake_app config parse_spec write_to_vec url_parse) by m budget as w =
       (Some (Inr (map (loaded_from (fw_objects w) m) as)), w') \<and> same_objects w w' \<and> same_mail w w'"
proof (induction as arbitrary: w budget)
  case Nil
  then show ?case by (simp add: load_ok_def same_objects_def same_mail_def)
next
  case (Cons a as)
  let ?part = "loaded_from (fw_objects w) m a"
  obtain w1 where part: "load_part (fake_app config parse_spec write_to_vec url_parse) by m a budget w =
      (Some (Inr ?part), w1)" "same_objects w w1" "same_mail w w1"
    using load_part_readable [of w m a config parse_spec write_to_vec url_parse "by" budget] Cons.prems by auto
  have "\<forall>a \<in> List.set as. readable (fw_objects w1) (part_key m a)"
    using Cons.prems by (simp add: readable_same [OF part(2)])
  moreover have "loaded_from (fw_objects w1) m = loaded_from (fw_objects w) m"
    using part(2) by (simp add: loaded_from_def same_objects_def fun_eq_iff)
  ultimately obtain w2 where
    "load_parts (fake_app config parse_spec write_to_vec url_parse) by m
       (saturating_sub budget (of_nat (length (lp_bytes ?part)))) as w1 =
         (Some (Inr (map (loaded_from (fw_objects w) m) as)), w2)"
    "same_objects w1 w2" "same_mail w1 w2" using Cons.IH [of w1] by metis
  with part show ?case by (auto simp: load_then_def load_ok_def intro: same_trans)
qed

lemma load_readable:
  assumes "readable (fw_objects w) (spec_object (message_id_str m))"
    and "parse_spec (so_body (the (fo_objects (fw_objects w) (spec_object (message_id_str m))))) = Some spec"
    and "\<forall>a \<in> List.set (spec_attachments spec). readable (fw_objects w) (part_key (spec_message_id spec) a)"
  shows "\<exists>w'. load (fake_app config parse_spec write_to_vec url_parse) by m w =
      (Some (Inr (spec, map (loaded_from (fw_objects w) (spec_message_id spec)) (spec_attachments spec))), w') \<and>
      same_objects w w' \<and> same_mail w w'"
proof -
  let ?A = "fake_app config parse_spec write_to_vec url_parse"
  obtain w1 where get: "load_spec ?A by m w = (Some (Inr spec), w1)" "same_objects w w1" "same_mail w w1"
    using fake_get_readable [OF assms(1)] assms(2)
    by (auto simp: load_spec_def timed_def load_ok_def fake_app_def)
  have "\<forall>a \<in> List.set (spec_attachments spec). readable (fw_objects w1) (part_key (spec_message_id spec) a)"
    using assms(3) by (simp add: readable_same [OF get(2)])
  moreover have "loaded_from (fw_objects w1) = loaded_from (fw_objects w)"
    using get(2) by (simp add: loaded_from_def same_objects_def fun_eq_iff)
  ultimately obtain w2 where
    "load_parts ?A by (spec_message_id spec) MAX_OUTBOUND_DECODED_BYTES (spec_attachments spec) w1 =
       (Some (Inr (map (loaded_from (fw_objects w) (spec_message_id spec)) (spec_attachments spec))), w2)"
    "same_objects w1 w2" "same_mail w1 w2" using load_parts_readable [of _ w1] by metis
  with get show ?thesis by (auto simp: load_def load_then_def load_ok_def intro: same_trans)
qed

interpretation ffake: table_frame fake_table "\<lambda>w. (fw_objects w, fw_send_outcome w)"
  by unfold_locales (simp_all add: fake_table_def on_mail_def split: prod.split)

lemma same_objectsI: "(fw_objects w', fw_send_outcome w') = (fw_objects w, fw_send_outcome w) \<Longrightarrow> same_objects w w'"
  by (simp add: same_objects_def)

text \<open>A table with no failure scripted, a queued send whose spec and parts can be read, and a builder.\<close>

definition ready :: "(bytes \<Rightarrow> send_spec option) \<Rightarrow> message_id \<Rightarrow> fake_world \<Rightarrow> bool" where
  "ready parse_spec m w \<longleftrightarrow> mem_quiet (fw_mail w) \<and>
     (\<exists>st. send_at (fake_rows w) m = Some st \<and> snd_send_status st = Queued) \<and>
     readable (fw_objects w) (spec_object (message_id_str m)) \<and>
     (\<exists>spec. parse_spec (so_body (the (fo_objects (fw_objects w) (spec_object (message_id_str m))))) = Some spec \<and>
        (\<forall>a \<in> List.set (spec_attachments spec). readable (fw_objects w) (part_key (spec_message_id spec) a)))"

definition answer_of :: "fake_world \<Rightarrow> message_id \<Rightarrow> send_outcome" where
  "answer_of w m = (case fw_send_outcome w of Some outcome \<Rightarrow> outcome
     | None \<Rightarrow> OutcomeSent (''ses-'' @ message_id_str m))"

lemma mark_calls:
  "mark_send fake_table x outcome now w1 = (r, w2) \<Longrightarrow> fw_answers w2 = fw_answers w1"
  using fsend.frame.silentD [OF fsend.frame.silent_flows(3)] by (metis fake_app_simps(1))

lemma record_mark_calls:
  assumes "record_mark (fake_app config parse_spec write_to_vec url_parse) x outcome now w1 = (r, w2)"
  shows "fw_answers w2 = fw_answers w1"
proof -
  have "fw_answers (clear_outbox (fake_app config parse_spec write_to_vec url_parse) x w) = fw_answers w" for w
    using fsend.keeps_clear_outbox [of w config parse_spec write_to_vec url_parse x] by (simp add: fsend.keeps_def)
  then show ?thesis
    using assms mark_calls by (auto simp: record_mark_def split: prod.splits sum.splits if_splits)
qed

lemma fail_calls:
  "fail (fake_app config parse_spec write_to_vec url_parse) x failure now w1 = (r, w2) \<Longrightarrow> fw_answers w2 = fw_answers w1"
  by (auto simp: fail_def split: prod.splits sum.splits dest: record_mark_calls)

lemma record_outcome_calls:
  assumes "record_outcome (fake_app config parse_spec write_to_vec url_parse) st answer now deadline w = (res, w')"
  shows "fw_answers w' = fw_answers w"
proof -
  let ?A = "fake_app config parse_spec write_to_vec url_parse"
  have clear: "fw_answers (clear_outbox ?A x w1) = fw_answers w1" for x w1
    using fsend.keeps_clear_outbox [of w1 config parse_spec write_to_vec url_parse x]
    by (simp add: fsend.keeps_def)
  have wait: "fw_answers (wait_before_retry ?A d deadline w1) = fw_answers w1" for d w1
    using fsend.keeps_wait [of w1 config parse_spec write_to_vec url_parse d deadline]
    by (simp add: fsend.keeps_def)
  have loop: "fw_answers w2 = fw_answers w1" if "mark_sent_loop ?A x ses now deadline ns w1 = (r, w2)"
    for x ses ns r w1 w2
    using that
    by (induction ns arbitrary: w1) (auto split: prod.splits sum.splits if_splits dest!: mark_calls simp: wait)
  show ?thesis
    using assms(1)
    by (cases answer) (auto simp: record_outcome_def mark_sent_def fail_def hand_back_def Let_def wait clear
        split: prod.splits sum.splits option.splits if_splits dest!: record_mark_calls loop)
qed

text \<open>The claim, and the call of SES, of a send that is ready.\<close>

lemma ready_claim:
  assumes quiet: "mem_quiet (fw_mail w)" and st: "send_at (fake_rows w) m = Some st" "snd_send_status st = Queued"
    and wf: "table_wf pp (fake_rows w)"
  obtains w1 where "mem_quiet (fw_mail w1)" "claim_send fake_table m now w = (Inr (Some (claimed st now)), w1)"
    "send_at (fake_rows w1) m = Some (claimed st now)" "table_wf pp (fake_rows w1)"
    "same_objects w w1" "fw_answers w1 = fw_answers w" "snd_message_id (claimed st now) = m"
proof -
  have id: "snd_message_id (claimed st now) = m" using table_wf_reads(3) [OF wf st(1)] by (simp add: claimed_def)
  have wfs: "sends_wf (fake_rows w)" using wf by (simp add: table_wf_def)
  obtain w1 where w1: "mem_quiet (fw_mail w1)" "claim_send fake_table m now w = (Inr (Some (claimed st now)), w1)"
    "fake_rows w1 = (fake_rows w)(send_state_key m \<mapsto> send_state_item (claimed st now))"
    using qfake.quiet_claim [OF quiet wfs, of m now] st by auto
  have "table_wf pp (fake_rows w1)"
    using table_wf_send [OF wf, of "claimed st now"] table_wf_reads(3) [OF wf st(1)] w1(3) id by (simp add: claimed_def)
  moreover have "same_objects w w1" by (rule same_objectsI) (rule ffake.silentD [OF ffake.silent_flows(1) w1(2)])
  moreover have "fw_answers w1 = fw_answers w"
    using fsend.frame.silentD [OF fsend.frame.silent_flows(1)] w1(2) by (metis fake_app_simps(1))
  ultimately show thesis using that w1 id by (simp add: send_at_upd)
qed

lemma ready_call:
  assumes quiet: "mem_quiet (fw_mail w)" and c: "send_at (fake_rows w) m = Some c" "snd_send_status c = Sending"
    and wf: "table_wf pp (fake_rows w)"
    and run: "send_built (fake_app (Some config) parse_spec write_to_vec url_parse) config m spec built c now deadline w = (res, w')"
  shows "fw_answers w' = fw_answers w @ [(message_id_str m, answer_of w m)]"
proof -
  let ?A = "fake_app (Some config) parse_spec write_to_vec url_parse" and ?s = "calling_ses c now"
  have id: "snd_message_id c = m" using table_wf_reads(3) [OF wf c(1)] by simp
  obtain w3 where w3: "note_ses_call fake_table c now w = (Inr (Some ?s), w3)"
    using qfake.quiet_note [OF quiet _ c(1) [folded id], of now] wf c(2) by (auto simp: table_wf_def)
  have outcome3: "fw_send_outcome w3 = fw_send_outcome w" using ffake.silentD [OF ffake.silent_flows(2) w3] by simp
  have answers3: "fw_answers w3 = fw_answers w"
    using fsend.frame.silentD [OF fsend.frame.silent_flows(2)] w3 by (metis fake_app_simps(1))
  obtain answer w4 where w4: "fake_send_raw (raw_of config m spec built) w3 = (answer, w4)" by fastforce
  have a4: "fw_answers w4 = fw_answers w @ [(message_id_str m, answer_of w m)]"
    using w4 outcome3 answers3 by (auto simp: fake_send_raw_def Let_def raw_of_def answer_of_def split: option.splits)
  have "app_send_raw ?A = fake_send_raw" by (simp add: fake_app_def)
  then have "record_outcome ?A ?s answer now deadline w4 = (res, w')"
    using run w3 w4 by (simp add: send_built_def call_ses_def)
  from record_outcome_calls [OF this] a4 show ?thesis by simp
qed

lemma fake_build:
  "build_send (fake_app config parse_spec write_to_vec url_parse) spec parts =
     (case write_to_vec (outbound_builder spec (map (\<lambda>part. \<lparr>bp_spec = lp_spec part, bp_bytes = lp_bytes part\<rparr>) parts)) of
        None \<Rightarrow> Inl BuildFailed
      | Some built \<Rightarrow> if length built \<le> unat MAX_OUTBOUND_RAW_BYTES then Inr built else Inl MessageTooLarge)"
proof -
  have "app_write_to_vec (fake_app config parse_spec write_to_vec url_parse) = write_to_vec" by (simp add: fake_app_def)
  then show ?thesis by (simp add: build_send_def build_outbound_def not_less split: option.split)
qed

text \<open>
  C9. A queued send is handed to SES: with no failure scripted for the table, and the spec and the parts of
  the message readable, \<open>handle_send\<close> calls \<open>send_raw\<close> for the message once if the bytes the builder makes of
  what is stored are within \<open>MAX_OUTBOUND_RAW_BYTES\<close>, and not at all if they are not or it makes none.
\<close>

theorem handle_send_reaches_ses:
  assumes "ready parse_spec m w" and "table_wf pp (fake_rows w)"
    and run: "handle_send (fake_app (Some config) parse_spec write_to_vec url_parse) m deadline w = (res, w')"
  shows "fw_answers w' = fw_answers w @ (case stored_message_bytes parse_spec write_to_vec m (fw_objects w) of
      None \<Rightarrow> []
    | Some built \<Rightarrow> if length built \<le> unat MAX_OUTBOUND_RAW_BYTES then [(message_id_str m, answer_of w m)] else [])"
proof -
  let ?A = "fake_app (Some config) parse_spec write_to_vec url_parse" and ?now = "time_format (fw_now_ms w)"
  have app: "app_now_ms ?A w = fw_now_ms w" "app_mail ?A = Some config" by (simp_all add: fake_app_def)
  obtain st spec where r: "mem_quiet (fw_mail w)" "send_at (fake_rows w) m = Some st" "snd_send_status st = Queued"
    "readable (fw_objects w) (spec_object (message_id_str m))"
    "parse_spec (so_body (the (fo_objects (fw_objects w) (spec_object (message_id_str m))))) = Some spec"
    "\<forall>a \<in> List.set (spec_attachments spec). readable (fw_objects w) (part_key (spec_message_id spec) a)"
    using assms(1) unfolding ready_def by blast
  obtain w1 where w1: "mem_quiet (fw_mail w1)" "claim_send fake_table m ?now w = (Inr (Some (claimed st ?now)), w1)"
    "send_at (fake_rows w1) m = Some (claimed st ?now)" "table_wf pp (fake_rows w1)" "same_objects w w1"
    "fw_answers w1 = fw_answers w" by (rule ready_claim [OF r(1-3) assms(2)])
  let ?parts = "map (loaded_from (fw_objects w) (spec_message_id spec)) (spec_attachments spec)"
  have "loaded_from (fw_objects w1) = loaded_from (fw_objects w)" "fo_objects (fw_objects w1) = fo_objects (fw_objects w)"
    using w1(5) by (simp_all add: loaded_from_def same_objects_def fun_eq_iff)
  then obtain w2 where w2: "load ?A (reserve_before ?A deadline SEND_RESERVE w1) m w1 = (Some (Inr (spec, ?parts)), w2)"
    "same_objects w1 w2" "same_mail w1 w2"
    using load_readable [of w1 m parse_spec spec "Some config" write_to_vec url_parse
        "reserve_before ?A deadline SEND_RESERVE w1"] r(4-6) readable_same [OF w1(5)] by auto
  have kept: "mem_quiet (fw_mail w2)" "fake_rows w2 = fake_rows w1" "fw_answers w2 = fw_answers w"
    "answer_of w2 m = answer_of w m"
    using w1(1,5,6) w2(2,3) by (simp_all add: same_mail_def same_objects_def answer_of_def fake_rows_def)
  have status: "snd_send_status (claimed st ?now) = Sending" by (simp add: claimed_def)
  note call = ready_call [OF kept(1) w1(3) [folded kept(2)] status w1(4) [folded kept(2)], of config parse_spec
      write_to_vec url_parse spec]
  have bytes: "stored_message_bytes parse_spec write_to_vec m (fw_objects w) =
      write_to_vec (outbound_builder spec (map (\<lambda>part. \<lparr>bp_spec = lp_spec part, bp_bytes = lp_bytes part\<rparr>) ?parts))"
    by (simp add: stored_message_bytes_def r(5) Let_def comp_def)
  have "send_claimed ?A config m (claimed st ?now) ?now deadline w1 = (res, w')"
    using run w1(2) by (simp add: handle_send_def app Let_def)
  then have "(case build_send ?A spec ?parts of Inl failure \<Rightarrow> fail ?A (claimed st ?now) failure ?now w2
      | Inr built \<Rightarrow> send_built ?A config m spec built (claimed st ?now) ?now deadline w2) = (res, w')"
    by (simp add: send_claimed_def w2(1))
  then show ?thesis
    unfolding fake_build bytes [symmetric]
    by (auto simp: kept(3,4) dest: call fail_calls split: option.splits if_splits)
qed

text \<open>A world with one queued send, whose spec is an empty object.\<close>

definition sample_spec :: send_spec where
  "sample_spec = \<lparr>spec_message_id = MessageId ''m1'', spec_thread_id = ThreadId ''m1'',
     spec_inbox_id = inbox_new ''support@example.com'', spec_from = ''support@example.com'',
     spec_display_name = None, spec_envelope = \<lparr>env_to = [''a@example.com''], env_cc = [], env_bcc = []\<rparr>,
     spec_reply_to = [], spec_subject = ''hello'', spec_text = None, spec_html = None,
     spec_rfc_message_id = ''m1@example.com'', spec_in_reply_to = None, spec_references = [],
     spec_headers = bt_empty, spec_attachments = [], spec_created_at = ''t0''\<rparr>"

definition sample_world :: "memory_store \<Rightarrow> fake_world" where
  "sample_world s = \<lparr>fw_mail = s,
     fw_objects = fo_seed (spec_object ''m1'') [] ''application/json''
       \<lparr>fo_objects = Map.empty, fo_failures = Map.empty, fo_calls = (\<lambda>_. []), fo_nth_put_failure = None\<rparr>,
     fw_log = [], fw_sent = [], fw_send_outcome = None, fw_store_failures_after_send = 0,
     fw_fetchable = Map.empty, fw_fetched = [], fw_now_ms = 0, fw_instant = 0, fw_hung = False, fw_answers = []\<rparr>"

definition sample_config :: mail_config where
  "sample_config = \<lparr>mc_bucket = ''mail'', mc_inbox = inbox_new ''support@example.com'',
     mc_configuration_set = ''mail'', mc_identity_arn = ''arn'', mc_region = ''us-east-1'', mc_retention_days = 30\<rparr>"

lemma sample_ready:
  "mem_quiet s \<Longrightarrow> send_at (mem_rows s) (MessageId ''m1'') = Some sample_state \<Longrightarrow>
     ready (\<lambda>_. Some sample_spec) (MessageId ''m1'') (sample_world s)"
  by (simp add: ready_def sample_world_def fake_rows_def readable_def fo_seed_def sample_spec_def
      sample_state_def queued_def)

theorem handle_send_reaches_ses_witness:
  "\<exists>w w' res. handle_send (fake_app (Some sample_config) (\<lambda>_. Some sample_spec) (\<lambda>_. Some []) (\<lambda>_. None))
       (MessageId ''m1'') 60000 w = (res, w')
     \<and> fw_answers w' = fw_answers w @ [(''m1'', OutcomeSent ''ses-m1'')]"
proof -
  obtain s where s: "mem_quiet s" "table_wf no_participants (mem_rows s)"
    "send_at (mem_rows s) (MessageId ''m1'') = Some sample_state" using sample_enqueued by blast
  let ?w = "sample_world s"
  obtain res w' where run: "handle_send (fake_app (Some sample_config) (\<lambda>_. Some sample_spec) (\<lambda>_. Some [])
      (\<lambda>_. None)) (MessageId ''m1'') 60000 ?w = (res, w')" by fastforce
  have "fw_answers w' = fw_answers ?w @ [(message_id_str (MessageId ''m1''), answer_of ?w (MessageId ''m1''))]"
    using handle_send_reaches_ses [OF sample_ready [OF s(1,3)] _ run, of no_participants] s(2)
    by (simp add: sample_world_def fake_rows_def stored_message_bytes_def)
  moreover have "answer_of ?w (MessageId ''m1'') = OutcomeSent ''ses-m1''"
    by (simp add: answer_of_def sample_world_def)
  ultimately show ?thesis using run by (intro exI [of _ ?w] exI [of _ w'] exI [of _ res]) simp
qed

text \<open>
  C7. The sender follows the protocol: over any backend that keeps the contract, whatever other
  writers do to the table between its steps, a call of \<open>handle_send\<close> is a run of one process of
  the protocol (it claims, notes the call, calls SES, and records what the protocol lets it
  record), and the calls SES receives are those of the run.
\<close>

theorem handle_send_refines:
  assumes "sender_backend A rows_of env pp calls" and "table_wf pp (rows_of w)"
    and "handle_send A m deadline w = (res, w')"
  shows "\<exists>events. sender_run env Idle (rows_of w) events Idle (rows_of w') \<and>
    calls w' = calls w @ ses_calls events"
  using sender_backend.handle_send_run [OF assms(1,3,2)]
  by (simp add: sender_backend.run_to_def [OF assms(1)])

theorem handle_send_refines_witness:
  "\<exists>w w' res events. handle_send (fake_app (Some sample_config) (\<lambda>_. Some sample_spec) (\<lambda>_. Some []) (\<lambda>_. None))
       (MessageId ''m1'') 60000 w = (res, w')
     \<and> send_at (fake_rows w) (MessageId ''m1'') = Some sample_state
     \<and> sender_run (=) Idle (fake_rows w) events Idle (fake_rows w')
     \<and> fw_answers w' = fw_answers w @ ses_calls events"
proof -
  obtain s where s: "table_wf no_participants (mem_rows s)"
    "send_at (mem_rows s) (MessageId ''m1'') = Some sample_state" using sample_enqueued by blast
  let ?w = "sample_world s"
  obtain res w' where run: "handle_send (fake_app (Some sample_config) (\<lambda>_. Some sample_spec) (\<lambda>_. Some [])
      (\<lambda>_. None)) (MessageId ''m1'') 60000 ?w = (res, w')" by fastforce
  have rows: "fake_rows ?w = mem_rows s" by (simp add: sample_world_def fake_rows_def)
  with handle_send_refines [OF fsend.sender_backend_axioms _ run, of no_participants] s
  obtain events where "sender_run (=) Idle (fake_rows ?w) events Idle (fake_rows w')"
    "fw_answers w' = fw_answers ?w @ ses_calls events" by auto
  with run rows s show ?thesis by metis
qed

text \<open>The calls that move a send, as the Lambda and the operator make them.\<close>

datatype sender_call = CallSend message_id nat | CallResolve message_id resolution

fun run_call :: "'w app \<Rightarrow> sender_call \<Rightarrow> 'w \<Rightarrow> 'w" where
  "run_call A (CallSend m deadline) w = snd (handle_send A m deadline w)"
| "run_call A (CallResolve m d) w = snd (resolve_unknown A m d w)"

text \<open>
  C8. The code simulates in the protocol: if the sends of the table are those of a reachable
  system in which other processes may have stopped anywhere, then after a call of
  \<open>handle_send\<close> or \<open>resolve_unknown\<close> they are again, with the calls SES received logged, so that
  the bound on the calls for a message applies to them.
\<close>

theorem sender_call_simulated:
  assumes "reachable s" and "sys_sends s = send_at (fake_rows w)" and "sys_procs s p = Idle"
    and "table_wf pp (fake_rows w)"
    and "run_call (fake_app config parse_spec write_to_vec url_parse) c w = w'"
  shows "\<exists>s' events. reachable s' \<and> sys_sends s' = send_at (fake_rows w') \<and> sys_procs s' = sys_procs s \<and>
    sys_log s' = sys_log s @ events \<and> fw_answers w' = fw_answers w @ ses_calls events"
proof -
  let ?A = "fake_app config parse_spec write_to_vec url_parse"
  have "\<exists>events. sender_run (=) Idle (fake_rows w) events Idle (fake_rows w') \<and>
      fw_answers w' = fw_answers w @ ses_calls events"
  proof (cases c)
    case (CallSend m deadline)
    with assms(5) fsend.handle_send_run [OF prod.collapse [symmetric] assms(4),
        of config parse_spec write_to_vec url_parse m deadline]
    show ?thesis by (simp add: fsend.run_to_def)
  next
    case (CallResolve m d)
    with assms(5) fsend.resolve_unknown_run [OF prod.collapse [symmetric] assms(4),
        of config parse_spec write_to_vec url_parse m d]
    show ?thesis by (simp add: fsend.run_to_def)
  qed
  then obtain events where run: "sender_run (=) Idle (fake_rows w) events Idle (fake_rows w')"
    and calls: "fw_answers w' = fw_answers w @ ses_calls events" by blast
  from run_simulated [OF run assms(1-3)] calls assms(3) show ?thesis by (metis fun_upd_triv)
qed

lemma sample_only_send:
  "\<exists>s. table_wf no_participants (mem_rows s) \<and> send_at (mem_rows s) = [MessageId ''m1'' \<mapsto> sample_state]"
proof -
  let ?msg = sample_queued
  let ?th = "thread_for no_participants ?msg None"
  let ?mk = "message_key (msg_inbox_id ?msg) (msg_message_id ?msg)"
  let ?tk = "thread_key (msg_inbox_id ?msg) (msg_thread_id ?msg)"
  let ?sk = "send_state_key (MessageId ''m1'')"
  let ?R = "Map.empty(?mk \<mapsto> message_item ?msg, ?tk \<mapsto> thread_item ?th)"
  have ids: "snd_message_id sample_state = msg_message_id ?msg" "snd_inbox_id sample_state = msg_inbox_id ?msg"
    "msg_message_id ?msg = MessageId ''m1''"
    by (simp_all add: sample_state_def queued_def sample_queued_def sample_message_def)
  have "thread_read Map.empty (msg_inbox_id ?msg) (msg_thread_id ?msg) None" by (simp add: thread_read_def)
  note th = thread_for_ok [OF _ this, of no_participants]
  have wf: "table_wf no_participants ?R"
    using th by (intro table_wf_arrival [OF table_wf_empty])
      (simp_all add: sample_queued_def sample_ok threads_wf_def)
  have "table_wf no_participants (?R(?sk \<mapsto> send_state_item sample_state))"
    using table_wf_send [OF wf, of sample_state] ids by simp
  moreover have "send_at (?R(?sk \<mapsto> send_state_item sample_state)) = [MessageId ''m1'' \<mapsto> sample_state]"
    by (rule ext) (simp add: send_at_upd send_at_def [of Map.empty])
  moreover have "mem_rows (empty_store\<lparr>mem_items := [(?sk, send_state_item sample_state),
      (?tk, thread_item ?th), (?mk, message_item ?msg)]\<rparr>) = ?R(?sk \<mapsto> send_state_item sample_state)"
    by (simp add: mem_rows_def)
  ultimately show ?thesis by metis
qed

theorem sender_call_simulated_witness:
  "\<exists>s w' sys. send_at (mem_rows s) (MessageId ''m1'') = Some sample_state \<and>
     run_call (fake_app (Some sample_config) (\<lambda>_. Some sample_spec) (\<lambda>_. Some []) (\<lambda>_. None))
       (CallSend (MessageId ''m1'') 60000) (sample_world s) = w' \<and>
     reachable sys \<and> sys_sends sys = send_at (fake_rows w')"
proof -
  obtain s where s: "table_wf no_participants (mem_rows s)"
    "send_at (mem_rows s) = [MessageId ''m1'' \<mapsto> sample_state]" using sample_only_send by blast
  let ?s1 = "\<lparr>sys_sends = [MessageId ''m1'' \<mapsto> sample_state], sys_procs = (\<lambda>_. Idle), sys_log = [Wrote sample_state]\<rparr>"
  have "snd_message_id sample_state = MessageId ''m1''" "snd_send_status sample_state = Queued"
    "snd_version sample_state = 0"
    by (simp_all add: sample_state_def queued_def)
  then have start: "reachable ?s1" using reach_step [OF reach_start sys_enqueue [of _ sample_state]] by simp
  have rows: "fake_rows (sample_world s) = mem_rows s" by (simp add: sample_world_def fake_rows_def)
  have "\<exists>sys. reachable sys \<and> sys_sends sys = send_at (fake_rows w')"
    if "run_call (fake_app (Some sample_config) (\<lambda>_. Some sample_spec) (\<lambda>_. Some []) (\<lambda>_. None))
       (CallSend (MessageId ''m1'') 60000) (sample_world s) = w'" for w'
    using sender_call_simulated [OF start _ _ _ that, of 0 no_participants] s rows by auto
  with s(2) show ?thesis by (metis fun_upd_same)
qed

end
