(* ===== verification/Accepted.thy ===== *)
theory Accepted
  imports Bucket Fakes
begin

text \<open>
  From a request to SES: what \<open>queue_send\<close> commits over a backend that answers, what it leaves in the
  outbox when the commit is refused, and, over the fakes, that an accepted send is handed to SES.
\<close>

section \<open>The backend of the API\<close>

context table_frame
begin

lemma silent_enqueue_loop: "silent (enqueue_loop pp T msg st key now_epoch taken as)"
  by (induction as arbitrary: taken)
    (auto intro!: silent_try_io silent_paused simp: Let_def
      split: option.split sum.split txn_outcome.split txn_decision.split)

lemma silent_enqueue: "silent (enqueue_send pp T msg st key now_epoch)"
  by (simp add: enqueue_send_def silent_enqueue_loop)

end

text \<open>
  A table that answers and a bucket that answers, neither of which sees the other's calls.
\<close>

locale api_backend =
  quiet_table "app_table A" rows_of env quiet +
  healthy_bucket "app_objects A" stored healthy table_view +
  bucket: table_frame "app_table A" "\<lambda>w. (stored w, healthy w)"
  for A :: "'w app" and rows_of :: "'w \<Rightarrow> rows" and env and quiet and stored and healthy
    and table_view :: "'w \<Rightarrow> 'v" +
  assumes view_rows: "table_view w' = table_view w \<Longrightarrow> rows_of w' = rows_of w"
    and view_quiet: "table_view w' = table_view w \<Longrightarrow> quiet w \<Longrightarrow> quiet w'"
    and view_now: "table_view w' = table_view w \<Longrightarrow> app_now_ms A w' = app_now_ms A w"
begin

lemma discarded_quiet: "healthy w \<Longrightarrow> quiet w \<Longrightarrow> quiet (discard_uploads (app_objects A) spec w)"
  by (rule view_quiet [OF discard_uploads_run(2)])

lemma replay_key_frame:
  assumes "quiet w"
  shows "rows_of (snd (replay_key L A hash request_hash w)) = rows_of w \<and>
    stored (snd (replay_key L A hash request_hash w)) = stored w"
proof -
  obtain found w1 where get: "get_send_key (app_table A) hash w = (found, w1)" by fastforce
  then have "rows_of w1 = rows_of w" "stored w1 = stored w"
    using quiet_get [OF assms, of "send_key_key hash" Consistent]
      bucket.silentD [OF bucket.silent_get_as get [unfolded get_send_key_def]]
    by (auto simp: get_send_key_def get_as_def try_io_def split: prod.splits)
  then show ?thesis
    by (auto simp: replay_key_def api_then_def stored_api_def get Let_def split: sum.split option.split)
qed

text \<open>The commit of a send whose message is new: either whole, or refused with the outbox emptied.\<close>

lemma commit_send_run:
  assumes quiet: "quiet w" and healthy: "healthy w" and wf: "table_wf (al_participant L) (rows_of w)"
    and msg: "msg = (queued_message (al_mime L) inbox v spec (time_format now_ms))
      \<lparr>msg_expires_at := expires_at now_ms (mc_retention_days config)\<rparr>"
    and state: "state = queued_state inbox v spec key_hash (time_format now_ms)"
    and key: "key = key_of key_hash inbox spec request_hash route (time_format now_ms) now_ms"
    and after: "after = thread_for (al_participant L) msg (thread_at (rows_of w) inbox (spec_thread_id spec))"
    and new: "rows_of w (message_key inbox (spec_message_id spec)) = None"
      "rows_of w (send_state_key (spec_message_id spec)) = None"
  obtains (Committed) w' where
    "commit_send L A config inbox v spec key_hash request_hash route now_ms w =
       (Inr \<lparr>acc_message_id = spec_message_id spec, acc_thread_id = spec_thread_id spec\<rparr>, w')"
    "quiet w'" "stored w' = stored w" "healthy w'" "send_at (rows_of w') (spec_message_id spec) = Some state"
    "message_at (rows_of w') inbox (spec_message_id spec) = Some (stored_message msg after)"
    "enqueue_send (al_participant L) (app_table A) msg state key (now_ms div 1000) w = (Inr EnqCommitted, w')"
    "check_user_labels (msg_labels msg) after \<noteq> Inl ErrLabelLimit" "\<not> live_key (rows_of w) key (now_ms div 1000)"
  | (Limit) w' where
    "commit_send L A config inbox v spec key_hash request_hash route now_ms w =
       (Inl (api_field ''labels'' (al_limit L)), w')"
    "check_user_labels (msg_labels msg) after = Inl ErrLabelLimit"
    "rows_of w' = rows_of w" "stored w' = (\<lambda>k. if k \<in> spec_keys spec then None else stored w k)"
  | (Live) w' where
    "snd (commit_send L A config inbox v spec key_hash request_hash route now_ms w) = w'"
    "live_key (rows_of w) key (now_ms div 1000)"
    "rows_of w' = rows_of w" "stored w' = (\<lambda>k. if k \<in> spec_keys spec then None else stored w k)"
proof -
  have ids: "msg_inbox_id msg = inbox" "msg_message_id msg = spec_message_id spec"
    "msg_thread_id msg = spec_thread_id spec" "snd_message_id state = spec_message_id spec"
    by (simp_all add: msg queued_message_def state queued_state_def queued_def)
  let ?enqueue = "enqueue_send (al_participant L) (app_table A) msg state key (now_ms div 1000) w"
  obtain res w1 where run: "?enqueue = (res, w1)" by fastforce
  have frame: "stored w1 = stored w" "healthy w1"
    using bucket.silentD [OF bucket.silent_enqueue run] healthy by auto
  note q = quiet_enqueue [OF quiet wf refl refl, of msg state key "now_ms div 1000",
      unfolded ids run, folded after]
  have commit: "commit_send L A config inbox v spec key_hash request_hash route now_ms w =
    (case (res, w1) of
       (Inr EnqKeyExists, w') \<Rightarrow>
         api_then (replay_key L A (case key of None \<Rightarrow> [] | Some k \<Rightarrow> key_key_hash k) request_hash)
           (\<lambda>replayed. case replayed of
              Some accepted \<Rightarrow> api_ok accepted
            | None \<Rightarrow> api_err (Conflict ''this Idempotency-Key is already in use''))
           (discard_uploads (app_objects A) spec w')
     | (Inr _, w') \<Rightarrow> (Inr \<lparr>acc_message_id = spec_message_id spec, acc_thread_id = spec_thread_id spec\<rparr>, w')
     | (Inl error, w') \<Rightarrow> discard_and_fail (app_objects A) spec (api_error_of_store (al_limit L) error) w')"
    unfolding commit_send_def Let_def msg [symmetric] state [symmetric] key [symmetric] run ..
  note gone = discard_uploads_run [OF frame(2), of spec]
  have rows1: "rows_of (discard_uploads (app_objects A) spec w1) = rows_of w1"
    by (rule view_rows) (rule gone(2))
  have quiet1: "quiet w1" using q by (auto split: if_splits)
  show thesis
  proof (cases "check_user_labels (msg_labels msg) after = Inl ErrLabelLimit")
    case True
    with q have "res = Inl ErrLabelLimit" "rows_of w1 = rows_of w" by auto
    with True show thesis
      by (intro Limit [of "discard_uploads (app_objects A) spec w1"])
        (auto simp: commit discard_and_fail_def gone(3) rows1 frame fun_eq_iff)
  next
    case False
    show thesis
    proof (cases "live_key (rows_of w) key (now_ms div 1000)")
      case True
      with False q have res: "res = Inr EnqKeyExists" "rows_of w1 = rows_of w" by auto
      let ?w = "discard_uploads (app_objects A) spec w1"
      let ?hash = "case key of None \<Rightarrow> [] | Some k \<Rightarrow> key_key_hash k"
      have "snd (commit_send L A config inbox v spec key_hash request_hash route now_ms w) =
          snd (replay_key L A ?hash request_hash ?w)"
        unfolding commit res by (auto simp: api_then_def api_ok_def api_err_def split: prod.split sum.split option.split)
      moreover have "rows_of (snd (replay_key L A ?hash request_hash ?w)) = rows_of ?w
          \<and> stored (snd (replay_key L A ?hash request_hash ?w)) = stored ?w"
        by (rule replay_key_frame) (rule discarded_quiet [OF frame(2) quiet1])
      ultimately show thesis
        using True res(2) gone(3) frame(1) by (intro Live [OF refl]) (auto simp: rows1 fun_eq_iff)
    next
      case live: False
      with False q new have "res = Inr EnqCommitted" "quiet w1"
        "message_at (rows_of w1) inbox (spec_message_id spec) = Some (stored_message msg after)"
        "send_at (rows_of w1) (spec_message_id spec) = Some state"
        by auto
      with False live show thesis
        by (intro Committed [of w1]) (simp_all add: commit frame run)
    qed
  qed
qed

lemma commit_send_new:
  assumes "quiet w" and "healthy w" and "table_wf (al_participant L) (rows_of w)"
    and "msg = (queued_message (al_mime L) inbox v spec (time_format now_ms))
      \<lparr>msg_expires_at := expires_at now_ms (mc_retention_days config)\<rparr>"
    and "state = queued_state inbox v spec None (time_format now_ms)"
    and new: "rows_of w (message_key inbox (spec_message_id spec)) = None"
      "rows_of w (send_state_key (spec_message_id spec)) = None"
      "rows_of w (thread_key inbox (spec_thread_id spec)) = None"
    and labels: "check_user_labels (msg_labels msg) (thread_for (al_participant L) msg None) \<noteq> Inl ErrLabelLimit"
  shows "\<exists>w'. commit_send L A config inbox v spec None request_hash route now_ms w =
       (Inr \<lparr>acc_message_id = spec_message_id spec, acc_thread_id = spec_thread_id spec\<rparr>, w') \<and>
    quiet w' \<and> stored w' = stored w \<and> healthy w' \<and> send_at (rows_of w') (spec_message_id spec) = Some state \<and>
    enqueue_send (al_participant L) (app_table A) msg state None (now_ms div 1000) w = (Inr EnqCommitted, w')"
proof -
  have none: "thread_at (rows_of w) inbox (spec_thread_id spec) = None" using new(3) by (simp add: thread_at_def)
  have key: "None = key_of None inbox spec request_hash route (time_format now_ms) now_ms"
    by (simp add: key_of_def)
  show ?thesis
    by (rule commit_send_run [OF assms(1-5) key refl new(1,2)])
      (use labels in \<open>auto simp: none live_key_def\<close>)
qed

text \<open>What \<open>queue_send\<close> puts into the bucket, in order.\<close>

definition send_puts :: "inbox_id \<Rightarrow> validated_send \<Rightarrow> send_spec \<Rightarrow> bytes \<Rightarrow> bytes \<Rightarrow> (string \<times> bytes) list" where
  "send_puts inbox v spec body cbody =
     inline_puts (zip (vs_attachments v) (spec_attachments spec))
     @ [(spec_object (message_id_str (spec_message_id spec)), body),
        (content_object inbox (message_id_str (spec_message_id spec)), cbody)]"

lemma put_all_append: "put_all (xs @ ys) m = put_all ys (put_all xs m)"
  by (simp add: put_all_def)

lemma queue_send_run:
  assumes quiet: "quiet w" and healthy: "healthy w" and wf: "table_wf (al_participant L) (rows_of w)"
    and spec: "spec = reply_spec (build_spec (al_ids L) inbox v (al_new_uuid L w)
        (case original of None \<Rightarrow> thread_of_message (message_id_of (al_ids L) (al_new_uuid L w))
         | Some (message, _) \<Rightarrow> msg_thread_id message) (time_format (app_now_ms A w))) original"
    and body: "al_spec_to_vec L spec = Some body"
    and cbody: "serialize_within (al_content_to_vec L) (outbound_content v spec) MAX_CONTENT_BYTES = Some (cbody, dropped)"
  shows "\<exists>w2. quiet w2 \<and> healthy w2 \<and> rows_of w2 = rows_of w \<and> table_view w2 = table_view w \<and>
    stored w2 = put_all (send_puts inbox v spec body cbody) (stored w) \<and>
    queue_send L A config inbox v key_hash request_hash original route w =
      commit_send L A config inbox v spec key_hash request_hash route (app_now_ms A w) w2"
proof -
  have id: "spec_message_id spec = message_id_of (al_ids L) (al_new_uuid L w)"
    by (simp add: spec reply_spec_def build_spec_def Let_def split: option.split prod.split)
  obtain w1 where w1: "upload_spec L (app_objects A) spec v w = (Inr (), w1)" "healthy w1" "table_view w1 = table_view w"
    "stored w1 = put_all (inline_puts (zip (vs_attachments v) (spec_attachments spec))
      @ [(spec_object (message_id_str (spec_message_id spec)), body)]) (stored w)"
    using upload_spec_run [OF healthy body] by blast
  obtain w2 where w2: "store_content (al_content_to_vec L) (app_objects A) inbox (spec_message_id spec)
      (outbound_content v spec) w1 = (Inr (), w2)" "healthy w2" "table_view w2 = table_view w1"
    "stored w2 = put_all [(content_object inbox (message_id_str (spec_message_id spec)), cbody)] (stored w1)"
    using store_content_run [OF w1(2) cbody] by blast
  have view: "table_view w2 = table_view w" using w1(3) w2(3) by simp
  have "queue_send L A config inbox v key_hash request_hash original route w =
      commit_send L A config inbox v spec key_hash request_hash route (app_now_ms A w) w2"
    unfolding queue_send_def Let_def spec [symmetric] w1(1)
    unfolding id [symmetric] prod.case sum.case w2(1) ..
  with w2 w1(3,4) view_rows [OF view] view_quiet [OF view quiet] show ?thesis
    by (intro exI [of _ w2]) (simp add: send_puts_def put_all_append [symmetric])
qed

lemma inline_puts_keys: "fst ` set (inline_puts (zip as ss)) \<subseteq> {key. \<exists>a \<in> set ss. sa_object_key a = Some key}"
  by (auto simp: inline_puts_def map_filter_def split: attachment_source.splits option.splits
      dest: set_zip_rightD)

lemma queue_send_refused:
  assumes "quiet w" and "healthy w" and "table_wf (al_participant L) (rows_of w)"
    and spec: "spec = reply_spec (build_spec (al_ids L) inbox v (al_new_uuid L w)
        (case original of None \<Rightarrow> thread_of_message (message_id_of (al_ids L) (al_new_uuid L w))
         | Some (message, _) \<Rightarrow> msg_thread_id message) (time_format (app_now_ms A w))) original"
    and "al_spec_to_vec L spec = Some body"
    and "serialize_within (al_content_to_vec L) (outbound_content v spec) MAX_CONTENT_BYTES = Some (cbody, dropped)"
    and new: "rows_of w (message_key inbox (spec_message_id spec)) = None"
      "rows_of w (send_state_key (spec_message_id spec)) = None"
    and fresh: "\<forall>k \<in> spec_keys spec. stored w k = None"
    and run: "queue_send L A config inbox v key_hash request_hash original route w = (res, w')"
  shows "(\<exists>state. res = Inr \<lparr>acc_message_id = spec_message_id spec, acc_thread_id = spec_thread_id spec\<rparr> \<and>
      send_at (rows_of w') (spec_message_id spec) = Some state \<and> snd_send_status state = Queued)
    \<or> rows_of w' = rows_of w \<and>
      (\<forall>k. k \<noteq> content_object inbox (message_id_str (spec_message_id spec)) \<longrightarrow> stored w' k = stored w k)"
proof -
  obtain w2 where w2: "quiet w2" "healthy w2" "rows_of w2 = rows_of w"
    "stored w2 = put_all (send_puts inbox v spec body cbody) (stored w)"
    "commit_send L A config inbox v spec key_hash request_hash route (app_now_ms A w) w2 = (res, w')"
    using queue_send_run [OF assms(1-6)] run by metis
  have gone: "stored w' k = stored w k"
    if "stored w' = (\<lambda>k. if k \<in> spec_keys spec then None else stored w2 k)"
      "k \<noteq> content_object inbox (message_id_str (spec_message_id spec))" for k
  proof (cases "k \<in> spec_keys spec")
    case False
    then have "k \<notin> fst ` set (send_puts inbox v spec body cbody)"
      using inline_puts_keys [of "vs_attachments v" "spec_attachments spec"] that(2)
      by (auto simp: send_puts_def spec_keys_def)
    with that(1) False w2(4) show ?thesis by (simp add: put_all_other)
  qed (use that fresh in simp)
  define msg where "msg = (queued_message (al_mime L) inbox v spec (time_format (app_now_ms A w)))
      \<lparr>msg_expires_at := expires_at (app_now_ms A w) (mc_retention_days config)\<rparr>"
  define state where "state = queued_state inbox v spec key_hash (time_format (app_now_ms A w))"
  define key where "key = key_of key_hash inbox spec request_hash route (time_format (app_now_ms A w)) (app_now_ms A w)"
  define after where
    "after = thread_for (al_participant L) msg (thread_at (rows_of w2) inbox (spec_thread_id spec))"
  have queued: "snd_send_status state = Queued" by (simp add: state_def queued_state_def queued_def)
  have wf2: "table_wf (al_participant L) (rows_of w2)" using assms(3) w2(3) by simp
  have new2: "rows_of w2 (message_key inbox (spec_message_id spec)) = None"
    "rows_of w2 (send_state_key (spec_message_id spec)) = None" using new w2(3) by simp_all
  show ?thesis
    by (rule commit_send_run [OF w2(1,2) wf2 msg_def state_def key_def after_def new2])
      (use w2(3,5) gone queued in auto)
qed

end

section \<open>The fakes as that backend\<close>

definition fake_stored :: "fake_world \<Rightarrow> string \<Rightarrow> bytes option" where
  "fake_stored w = fo_get (fw_objects w)"

definition fake_healthy :: "fake_world \<Rightarrow> bool" where
  "fake_healthy w \<longleftrightarrow> fo_failures (fw_objects w) = Map.empty \<and> fo_nth_put_failure (fw_objects w) = None"

abbreviation fake_view :: "fake_world \<Rightarrow> memory_store \<times> (string \<times> send_outcome) list \<times> u64 \<times> send_outcome option" where
  "fake_view w \<equiv> (fw_mail w, fw_answers w, fw_now_ms w, fw_send_outcome w)"

lemma len_u64_le: "len_u64 b \<le> limit \<Longrightarrow> (of_nat (length b) :: u64) \<le> limit"
  by (auto simp: len_u64_def split: if_splits) (metis word_n1_ge order_antisym)

lemmas fake_object_ops = fake_object_store_def on_objects_def with_injected_def fo_record_def Let_def

interpretation fbucket: healthy_bucket fake_object_store fake_stored fake_healthy fake_view
  by unfold_locales
    (auto simp: fake_object_ops fake_put_object_if_absent_def fake_get_object_def fake_delete_object_def
      count_down_def fo_seed_def fake_stored_def fake_healthy_def fo_get_def fun_eq_iff
      split: option.splits dest: len_u64_le)

interpretation fapi: api_backend "fake_app config parse_spec write_to_vec url_parse" fake_rows "(=)"
    "\<lambda>w. mem_quiet (fw_mail w)" fake_stored fake_healthy fake_view
  for config parse_spec write_to_vec url_parse
proof (intro api_backend.intro api_backend_axioms.intro)
  show "quiet_table (app_table (fake_app config parse_spec write_to_vec url_parse)) fake_rows (=)
      (\<lambda>w. mem_quiet (fw_mail w))"
    unfolding fake_app_simps by unfold_locales
  show "healthy_bucket (app_objects (fake_app config parse_spec write_to_vec url_parse)) fake_stored fake_healthy fake_view"
    unfolding fake_app_simps by unfold_locales
  show "table_frame (app_table (fake_app config parse_spec write_to_vec url_parse)) (\<lambda>w. (fake_stored w, fake_healthy w))"
    by unfold_locales (simp_all add: fake_table_def on_mail_def fake_stored_def fake_healthy_def split: prod.split)
qed (simp_all add: fake_rows_def fake_app_def)

section \<open>An accepted send\<close>

lemma labels_fold: "strictly_sorted ls \<Longrightarrow> fold add_label ls [] = ls"
proof -
  assume ls: "strictly_sorted ls"
  have "strictly_sorted (fold add_label xs ys) \<and> set (fold add_label xs ys) = set xs \<union> set ys"
    if "strictly_sorted ys" for xs ys
    using that by (induction xs arbitrary: ys) (auto simp: add_label_def)
  from this [of "[]" ls] ls show ?thesis
    by (auto intro: sorted_distinct_set_unique simp: strictly_sorted_distinct strict_sorted_imp_sorted)
qed

lemma distinct_remdups_adj: "sorted xs \<Longrightarrow> distinct (remdups_adj xs)" for xs :: "'a::linorder list"
  by (induction xs rule: remdups_adj.induct) auto

lemma queued_labels:
  "strictly_sorted (msg_labels (queued_message P inbox v spec now))"
  "distinct (vs_labels v) \<Longrightarrow>
    user_label_count (msg_labels (queued_message P inbox v spec now)) \<le> user_label_count (vs_labels v)"
proof -
  let ?ls = "vs_labels v @ [label_str LQueued]"
  have m: "msg_labels (queued_message P inbox v spec now) = remdups_adj (sort ?ls)"
    by (simp add: queued_message_def)
  show sorted: "strictly_sorted (msg_labels (queued_message P inbox v spec now))"
    unfolding m strict_sorted_iff by (simp add: distinct_remdups_adj)
  have "set (filter (\<lambda>l. label_parse l = None) (remdups_adj (sort ?ls))) \<subseteq> set (filter (\<lambda>l. label_parse l = None) (vs_labels v))"
    using label_parse_label_str [of LQueued] by auto
  then have "card (set (filter (\<lambda>l. label_parse l = None) (remdups_adj (sort ?ls)))) \<le>
      card (set (filter (\<lambda>l. label_parse l = None) (vs_labels v)))"
    by (intro card_mono) simp_all
  then show "user_label_count (msg_labels (queued_message P inbox v spec now)) \<le> user_label_count (vs_labels v)"
    if "distinct (vs_labels v)"
    using that distinct_remdups_adj [OF sorted_sort, of ?ls] unfolding m user_label_count_def
    by (simp only: distinct_card [OF distinct_filter, symmetric])
qed

text \<open>A request that passed validation is never refused for its labels when it starts a thread.\<close>

lemma accepted_labels:
  assumes "send_ok L v"
  shows "check_user_labels (msg_labels (queued_message P inbox v spec now))
    (thread_for pp ((queued_message P inbox v spec now)\<lparr>msg_expires_at := e\<rparr>) None) \<noteq> Inl ErrLabelLimit"
proof -
  let ?m = "queued_message P inbox v spec now"
  have v: "distinct (vs_labels v)" "user_label_count (vs_labels v) \<le> MESSAGE_USER_LABEL_CAP"
    using assms by (simp_all add: send_ok_def strictly_sorted_distinct)
  have "thr_labels (thread_for pp (?m\<lparr>msg_expires_at := e\<rparr>) None) = msg_labels ?m"
    using labels_fold [OF queued_labels(1)] by (simp add: thread_for_def new_thread_def)
  with queued_labels(2) [OF v(1)] v(2) show ?thesis
    by (simp add: check_user_labels_def MESSAGE_USER_LABEL_CAP_def THREAD_USER_LABEL_CAP_def)
      (meson le_trans not_less)
qed

lemma serialize_total:
  assumes "\<And>c. to_vec c \<noteq> None"
  obtains body dropped where "serialize_within to_vec content n = Some (body, dropped)"
proof -
  have "degrade to_vec n drops c \<noteq> None" for drops c
    by (induction drops arbitrary: c) (use assms in \<open>auto split: option.splits\<close>)
  from this [of field_drops "without_bodies content"] have "serialize_within to_vec content n \<noteq> None"
    using assms [of content] by (auto simp: serialize_within_def split: option.splits)
  with that show thesis by fastforce
qed

text \<open>The parts of a send that fits decode to objects that can be read.\<close>

lemma inline_sizes:
  assumes "sum_list (map (\<lambda>a. case va_source a of SourceInline b \<Rightarrow> length b | SourceUrl _ \<Rightarrow> 0) as) < 2 ^ 64"
    and "decoded_total as \<le> MAX_OUTBOUND_DECODED_BYTES" and "a \<in> set as" and "va_source a = SourceInline b"
  shows "(of_nat (length b) :: u64) \<le> MAX_OUTBOUND_RAW_BYTES"
proof -
  let ?f = "\<lambda>a. case va_source a of SourceInline b \<Rightarrow> length b | SourceUrl _ \<Rightarrow> 0"
  have "inline_bytes (Some (va_source a)) = of_nat (?f a)" for a
    by (cases "va_source a") simp_all
  note f = this
  have "decoded_total as = of_nat (sum_list (map ?f as))"
    unfolding decoded_total_def by (induction as) (simp_all add: f)
  with assms(1,2) have "sum_list (map ?f as) \<le> 28000000"
    by (simp add: word_le_nat_alt MAX_OUTBOUND_DECODED_BYTES_def unat_of_nat)
  moreover have "?f a \<le> sum_list (map ?f as)" using assms(3) by (intro member_le_sum_list) auto
  ultimately have "length b \<le> 28000000" using assms(4) by simp
  then show ?thesis
    by (simp add: MAX_OUTBOUND_RAW_BYTES_def word_le_nat_alt unat_of_nat)
qed

text \<open>The objects a send's spec names, once stored, are those the sender reads.\<close>

lemma spec_part_keys:
  assumes "a \<in> set (spec_attachments (build_spec I inbox v u t now))"
    and "\<forall>a \<in> set (vs_attachments v). \<exists>b. va_source a = SourceInline b"
  obtains i where "sa_object_key a = Some (part_object (message_id_str (message_id_of I u)) (attachment_id I u i))"
proof -
  from assms(1) obtain i at where at: "(i, at) \<in> set (enumerate 0 (vs_attachments v))" "a = spec_attachment_of I u (i, at)"
    by (auto simp: build_spec_def Let_def)
  then have "at \<in> set (vs_attachments v)" by (auto simp: in_set_enumerate_eq)
  with assms(2) obtain b where "va_source at = SourceInline b" by blast
  with at(2) that show thesis by (simp add: spec_attachment_of_def Let_def)
qed

lemma inline_puts_in:
  assumes "(k, b) \<in> set (fbucket.inline_puts (zip as ss))"
  shows "\<exists>a \<in> set as. va_source a = SourceInline b"
  using assms by (auto simp: fbucket.inline_puts_def map_filter_def split: attachment_source.splits option.splits
      dest: set_zip_leftD)

lemma inline_puts_there:
  assumes "list_all2 (\<lambda>a s. \<exists>b k. va_source a = SourceInline b \<and> sa_object_key s = Some k) as ss"
    and "s \<in> set ss" and "sa_object_key s = Some k"
  shows "k \<in> fst ` set (fbucket.inline_puts (zip as ss))"
  using assms
  by (induction as ss rule: list_all2_induct)
    (force simp: fbucket.inline_puts_def map_filter_def split: attachment_source.splits option.splits)+

lemma list_all2_build:
  assumes "\<forall>a \<in> set (vs_attachments v). \<exists>b. va_source a = SourceInline b"
  shows "list_all2 (\<lambda>a s. \<exists>b k. va_source a = SourceInline b \<and> sa_object_key s = Some k)
    (vs_attachments v) (spec_attachments (build_spec I inbox v u t now))"
proof -
  have "list_all2 (\<lambda>a s. \<exists>b k. va_source a = SourceInline b \<and> sa_object_key s = Some k) as
      (map (spec_attachment_of I u) (enumerate n as))"
    if "\<forall>a \<in> set as. \<exists>b. va_source a = SourceInline b" for as n
    using that
    by (induction as arbitrary: n) (auto simp: spec_attachment_of_def Let_def)
  with assms show ?thesis by (simp add: build_spec_def Let_def)
qed

lemma sent_puts_readable:
  assumes spec: "spec = build_spec I inbox v u t now"
    and inline: "\<forall>a \<in> set (vs_attachments v). \<exists>b. va_source a = SourceInline b"
    and sizes: "sum_list (map (\<lambda>a. case va_source a of SourceInline b \<Rightarrow> length b | SourceUrl _ \<Rightarrow> 0) (vs_attachments v)) < 2 ^ 64"
      "decoded_total (vs_attachments v) \<le> MAX_OUTBOUND_DECODED_BYTES"
    and body: "(of_nat (length body) :: u64) \<le> MAX_OUTBOUND_RAW_BYTES"
    and fresh: "\<forall>k \<in> fbucket.spec_keys spec. fake_stored w k = None"
    and healthy: "fake_healthy w'"
    and stored: "fake_stored w' = fbucket.put_all (fapi.send_puts inbox v spec body cbody) (fake_stored w)"
  shows "readable (fw_objects w') (spec_object (message_id_str (message_id_of I u)))"
    and "so_body (the (fo_objects (fw_objects w') (spec_object (message_id_str (message_id_of I u))))) = body"
    and "a \<in> set (spec_attachments spec) \<Longrightarrow> readable (fw_objects w') (part_key m a)"
proof -
  let ?s = "spec_object (message_id_str (message_id_of I u))"
  let ?puts = "fbucket.inline_puts (zip (vs_attachments v) (spec_attachments spec))"
  have id: "spec_message_id spec = message_id_of I u" by (simp add: spec build_spec_def Let_def)
  have "?s \<notin> fst ` set ?puts"
  proof
    assume "?s \<in> fst ` set ?puts"
    then obtain a where a: "a \<in> set (spec_attachments spec)" "sa_object_key a = Some ?s"
      using fapi.inline_puts_keys by blast
    from spec_part_keys [OF a(1) [unfolded spec] inline] a(2) show False
      by (auto simp: spec_object_def part_object_def)
  qed
  then have "fbucket.put_all ?puts (fake_stored w) ?s = None"
    using fresh by (simp add: fbucket.put_all_other fbucket.spec_keys_def id)
  moreover have "fbucket.put_all [(s, body), (c, cbody)] f s = Some body" if "f s = None" for f :: "string \<Rightarrow> bytes option" and s c
  proof -
    have "fbucket.put_all [(s, body), (c, cbody)] f = fbucket.put_all [(c, cbody)] (f(s \<mapsto> body))"
      using that by (simp add: fbucket.put_all_def)
    then show ?thesis by (simp add: fbucket.put_all_keeps)
  qed
  ultimately have "fake_stored w' ?s = Some body"
    unfolding stored fapi.send_puts_def fapi.put_all_append id by blast
  then obtain so where so: "fo_objects (fw_objects w') ?s = Some so" "so_body so = body"
    by (auto simp: fake_stored_def fo_get_def)
  with body healthy show "readable (fw_objects w') ?s" "so_body (the (fo_objects (fw_objects w') ?s)) = body"
    by (simp_all add: readable_def fake_healthy_def)
  show "readable (fw_objects w') (part_key m a)" if a: "a \<in> set (spec_attachments spec)"
  proof -
    obtain i where k: "sa_object_key a = Some (part_object (message_id_str (message_id_of I u)) (attachment_id I u i))"
      by (rule spec_part_keys [OF a [unfolded spec] inline])
    let ?k = "part_object (message_id_str (message_id_of I u)) (attachment_id I u i)"
    have "?k \<in> fst ` set ?puts"
      using inline_puts_there [OF list_all2_build [OF inline] _ k] a spec by simp
    then obtain b where b: "fbucket.put_all ?puts (fake_stored w) ?k = Some b"
      using fbucket.put_all_there by blast
    have "fake_stored w ?k = None" using fresh a k by (auto simp: fbucket.spec_keys_def)
    then have "(?k, b) \<in> set ?puts" using fbucket.put_all_from [OF b] by simp
    then obtain at where "at \<in> set (vs_attachments v)" "va_source at = SourceInline b"
      using inline_puts_in by blast
    then have "(of_nat (length b) :: u64) \<le> MAX_OUTBOUND_RAW_BYTES" by (rule inline_sizes [OF sizes])
    moreover have "fake_stored w' ?k = Some b"
      unfolding stored fapi.send_puts_def fapi.put_all_append using b
      by (intro fbucket.put_all_keeps [of "fbucket.put_all ?puts (fake_stored w)" ?k b])
    ultimately show ?thesis
      using healthy k by (auto simp: readable_def fake_healthy_def part_key_def fake_stored_def fo_get_def)
  qed
qed

text \<open>And they hold the bytes of the request, when no two attachment ids collide.\<close>

definition inline_of :: "validated_attachment \<Rightarrow> bytes" where
  "inline_of va = (case va_source va of SourceInline b \<Rightarrow> b | SourceUrl _ \<Rightarrow> [])"

lemma inline_puts_map:
  "list_all2 (\<lambda>a s. \<exists>b k. va_source a = SourceInline b \<and> sa_object_key s = Some k) as ss \<Longrightarrow>
     fbucket.inline_puts (zip as ss) = map2 (\<lambda>va a. (the (sa_object_key a), inline_of va)) as ss"
  by (induction rule: list_all2_induct) (auto simp: fbucket.inline_puts_def map_filter_def inline_of_def)

lemma put_all_distinct:
  assumes "distinct (map fst kvs)" and "(k, b) \<in> set kvs" and "m k = None"
  shows "fbucket.put_all kvs m k = Some b"
proof -
  have "k \<in> fst ` set kvs" using assms(2) by force
  then obtain b' where b': "fbucket.put_all kvs m k = Some b'" using fbucket.put_all_there [of k kvs m] by auto
  from fbucket.put_all_from [OF b'] assms(3) have "(k, b') \<in> set kvs" by simp
  with assms(1,2) b' show ?thesis using eq_key_imp_eq_value by fastforce
qed

lemma sent_parts_loaded:
  assumes spec: "spec = build_spec I inbox v u t now"
    and inline: "\<forall>a \<in> set (vs_attachments v). \<exists>b. va_source a = SourceInline b"
    and keys: "distinct (map sa_object_key (spec_attachments spec))"
    and fresh: "\<forall>k \<in> fbucket.spec_keys spec. fake_stored w k = None"
    and stored: "fake_stored w' = fbucket.put_all (fapi.send_puts inbox v spec body cbody) (fake_stored w)"
  shows "map (\<lambda>a. let part = loaded_from (fw_objects w') m a in \<lparr>bp_spec = lp_spec part, bp_bytes = lp_bytes part\<rparr>)
      (spec_attachments spec) =
    map2 (\<lambda>va a. \<lparr>bp_spec = a, bp_bytes = inline_of va\<rparr>) (vs_attachments v) (spec_attachments spec)"
    (is "map ?f ?ss = map2 ?g ?as ?ss")
proof -
  have pairs: "list_all2 (\<lambda>a s. \<exists>b k. va_source a = SourceInline b \<and> sa_object_key s = Some k) ?as ?ss"
    unfolding spec by (rule list_all2_build [OF inline])
  then have all: "\<exists>k. sa_object_key a = Some k" if "a \<in> set ?ss" for a
    using that by (auto simp: list_all2_conv_all_nth in_set_conv_nth)
  have len: "length ?as = length ?ss" using pairs by (rule list_all2_lengthD)
  let ?puts = "map2 (\<lambda>va a. (the (sa_object_key a), inline_of va)) ?as ?ss"
  have "map fst ?puts = map (the \<circ> sa_object_key) ?ss"
    using len by (intro nth_equalityI) simp_all
  moreover have "inj_on the (sa_object_key ` set ?ss)" by (rule inj_onI) (auto dest!: all)
  then have "distinct (map (the \<circ> sa_object_key) ?ss)"
    using keys by (simp add: distinct_map comp_inj_on)
  ultimately have distinct: "distinct (map fst ?puts)" by simp
  have there: "?f a = ?g va a" if pair: "(va, a) \<in> set (zip ?as ?ss)" for va a
  proof -
    have a: "a \<in> set ?ss" using pair by (rule set_zip_rightD)
    then obtain k where k: "sa_object_key a = Some k" using all by blast
    then have "fake_stored w k = None" using fresh a by (auto simp: fbucket.spec_keys_def)
    moreover have "(k, inline_of va) \<in> set ?puts" using pair k by force
    ultimately have "fbucket.put_all ?puts (fake_stored w) k = Some (inline_of va)"
      using put_all_distinct [OF distinct] by blast
    then have "fake_stored w' k = Some (inline_of va)"
      unfolding stored fapi.send_puts_def fapi.put_all_append inline_puts_map [OF pairs] by (rule fbucket.put_all_keeps)
    then show ?thesis
      by (auto simp: loaded_from_def part_key_def k Let_def fake_stored_def fo_get_def)
  qed
  show ?thesis
    using len there by (intro nth_equalityI) (auto simp: in_set_zip)
qed

interpretation fclock: table_frame fake_table "\<lambda>w. (fw_now_ms w, fw_answers w)"
  by unfold_locales (simp_all add: fake_table_def on_mail_def split: prod.split)

lemma fake_enqueue_wf:
  assumes "enqueue_send pp fake_table msg state key now_epoch w = (res, w')" and "table_wf pp (fake_rows w)"
    and "message_ok msg" and "snd_message_id state = msg_message_id msg" and "snd_inbox_id state = msg_inbox_id msg"
    and "snd_send_status state = Queued"
  shows "table_wf pp (fake_rows w')"
proof -
  have "vfake.moves pp w w'"
    using assms vfake.enqueue_loop_moves [of pp msg state key now_epoch "[]" attempts w res w']
    by (simp add: enqueue_send_def vfake.send_request_ok_def vfake.safe_def)
  with assms(2) show ?thesis by (auto simp: vfake.moves_def dest: mail_step_keeps_wf)
qed

text \<open>
  C10. An accepted send reaches SES. Over the fakes with no failure scripted: a request that passes validation,
  sent from an inbox that exists and carrying its attachments inline, under ids that are new and distinct and a
  spec that is written and reads back, is answered with the new message's id; and whenever the sender is then
  called for that message, it calls SES for it once if the message built from the request's own spec and
  bytes is within \<open>MAX_OUTBOUND_RAW_BYTES\<close>, and not at all otherwise.
\<close>

theorem accepted_send_reaches_ses:
  assumes world: "mem_quiet (fw_mail w)" "fake_healthy w" "table_wf (al_participant L) (fake_rows w)"
    and inbox: "plain_inbox inbox" "Option.bind (fake_rows w (inbox_key inbox)) inbox_of_item = Some found"
    and request: "validate (al_send L) request = Inr v"
      "\<forall>a \<in> set (vs_attachments v). \<exists>b. va_source a = SourceInline b"
      "sum_list (map (\<lambda>a. case va_source a of SourceInline b \<Rightarrow> length b | SourceUrl _ \<Rightarrow> 0) (vs_attachments v)) < 2 ^ 64"
    and m: "\<And>w. al_new_uuid L w = u" "m = message_id_of (al_ids L) u"
    and spec: "spec = build_spec (al_ids L) inbox v u (thread_of_message m) (time_format (fw_now_ms w))"
    and new: "fake_rows w (message_key inbox m) = None" "fake_rows w (send_state_key m) = None"
      "fake_rows w (thread_key inbox (thread_of_message m)) = None"
      "\<forall>k \<in> fbucket.spec_keys spec. fake_stored w k = None" "distinct (map sa_object_key (spec_attachments spec))"
    and codec: "al_spec_to_vec L spec = Some body" "parse_spec body = Some spec"
      "(of_nat (length body) :: u64) \<le> MAX_OUTBOUND_RAW_BYTES" "\<And>c. al_content_to_vec L c \<noteq> None"
  shows "\<exists>w1. send L (fake_app (Some config) parse_spec write_to_vec url_parse) inbox request None w =
      (Inr \<lparr>acc_message_id = m, acc_thread_id = thread_of_message m\<rparr>, w1)
    \<and> (\<forall>deadline res w2. handle_send (fake_app (Some config) parse_spec write_to_vec url_parse) m deadline w1 = (res, w2)
        \<longrightarrow> fw_answers w2 = fw_answers w @
          (case write_to_vec (outbound_builder spec (map2 (\<lambda>va a. \<lparr>bp_spec = a, bp_bytes = inline_of va\<rparr>)
             (vs_attachments v) (spec_attachments spec))) of
             None \<Rightarrow> []
           | Some built \<Rightarrow> if length built \<le> unat MAX_OUTBOUND_RAW_BYTES then [(message_id_str m, answer_of w m)] else []))"
proof -
  let ?A = "fake_app (Some config) parse_spec write_to_vec url_parse"
  have app: "app_mail ?A = Some config" "app_now_ms ?A = fw_now_ms" by (simp_all add: fake_app_def)
  have id: "spec_message_id spec = m" "spec_thread_id spec = thread_of_message m"
    by (simp_all add: spec build_spec_def Let_def m)
  obtain w0 where w0: "get_inbox fake_table inbox w = (Inr (Some found), w0)" "fake_rows w0 = fake_rows w"
    "mem_quiet (fw_mail w0)"
    using qfake.quiet_get [OF world(1), of "inbox_key inbox" Eventual] inbox(2)
    by (auto simp: get_inbox_def get_as_def try_io_def decode_def bind_eq_Some_conv)
  have same0: "fw_objects w0 = fw_objects w" "fw_send_outcome w0 = fw_send_outcome w" "fw_now_ms w0 = fw_now_ms w"
    "fw_answers w0 = fw_answers w"
    using ffake.silentD [OF ffake.silent_get_as w0(1) [unfolded get_inbox_def]]
      fclock.silentD [OF fclock.silent_get_as w0(1) [unfolded get_inbox_def]] by simp_all
  then have w0': "fake_healthy w0" "fake_stored w0 = fake_stored w" "table_wf (al_participant L) (fake_rows w0)"
    using world by (simp_all add: fake_healthy_def fake_stored_def w0(2))
  let ?hash = "fingerprint L inbox ''send'' None v"
  have run: "send L ?A inbox request None w = queue_send L ?A config inbox v None ?hash None ''send'' w0"
    by (simp add: send_def enqueue_def idempotency_key_hash_def app api_then_def stored_api_def w0(1) request(1)
        api_ok_def)
  obtain cbody dropped where cbody:
    "serialize_within (al_content_to_vec L) (outbound_content v spec) MAX_CONTENT_BYTES = Some (cbody, dropped)"
    using serialize_total codec(4) by blast
  have spec0: "spec = reply_spec (build_spec (al_ids L) inbox v (al_new_uuid L w0)
      (case None of None \<Rightarrow> thread_of_message (message_id_of (al_ids L) (al_new_uuid L w0))
       | Some (message, _) \<Rightarrow> msg_thread_id message) (time_format (app_now_ms ?A w0))) None"
    by (simp add: spec m reply_spec_def app same0)
  obtain w2 where w2: "mem_quiet (fw_mail w2)" "fake_healthy w2" "fake_rows w2 = fake_rows w0" "fake_view w2 = fake_view w0"
    "fake_stored w2 = fbucket.put_all (fapi.send_puts inbox v spec body cbody) (fake_stored w0)"
    "queue_send L ?A config inbox v None ?hash None ''send'' w0 =
      commit_send L ?A config inbox v spec None ?hash ''send'' (fw_now_ms w) w2"
    using fapi.queue_send_run [OF w0(3) w0'(1,3) spec0 codec(1) cbody, of config None ?hash "''send''"]
    unfolding app same0(3) by blast
  define now where "now = time_format (fw_now_ms w)"
  define msg where "msg = (queued_message (al_mime L) inbox v spec (time_format (fw_now_ms w)))
    \<lparr>msg_expires_at := expires_at (fw_now_ms w) (mc_retention_days config)\<rparr>"
  define state where "state = queued_state inbox v spec None (time_format (fw_now_ms w))"
  have rows2: "fake_rows w2 = fake_rows w" using w2(3) w0(2) by simp
  have labels: "check_user_labels (msg_labels msg) (thread_for (al_participant L) msg None) \<noteq> Inl ErrLabelLimit"
    using accepted_labels [OF validate_send_ok(1) [OF request(1)]] by (simp add: msg_def)
  have wf2: "table_wf (al_participant L) (fake_rows w2)" using world(3) rows2 by simp
  have new2: "fake_rows w2 (message_key inbox (spec_message_id spec)) = None"
    "fake_rows w2 (send_state_key (spec_message_id spec)) = None"
    "fake_rows w2 (thread_key inbox (spec_thread_id spec)) = None" using new(1-3) by (simp_all add: rows2 id)
  obtain w1 where w1: "commit_send L ?A config inbox v spec None ?hash ''send'' (fw_now_ms w) w2 =
      (Inr \<lparr>acc_message_id = m, acc_thread_id = thread_of_message m\<rparr>, w1)"
    "mem_quiet (fw_mail w1)" "fake_stored w1 = fake_stored w2" "fake_healthy w1"
    "send_at (fake_rows w1) m = Some state"
    "enqueue_send (al_participant L) fake_table msg state None (fw_now_ms w div 1000) w2 = (Inr EnqCommitted, w1)"
    using fapi.commit_send_new [OF w2(1,2) wf2 msg_def state_def new2 labels, of "Some config" parse_spec
        write_to_vec url_parse ?hash "''send''"] unfolding id fake_app_simps by blast
  have "message_ok msg"
    using inbox(1) queued_labels(1) [of "al_mime L" inbox v spec now]
    by (simp add: message_ok_def msg_def now_def queued_message_def)
  moreover have "snd_message_id state = msg_message_id msg" "snd_inbox_id state = msg_inbox_id msg"
    "snd_send_status state = Queued"
    by (simp_all add: state_def queued_state_def queued_def msg_def queued_message_def)
  ultimately have wf1: "table_wf (al_participant L) (fake_rows w1)" and st: "snd_send_status state = Queued"
    using fake_enqueue_wf [OF w1(6) wf2] by blast+
  have kept: "fw_answers w1 = fw_answers w" "fw_send_outcome w1 = fw_send_outcome w"
    using fclock.silentD [OF fclock.silent_enqueue w1(6)] ffake.silentD [OF ffake.silent_enqueue w1(6)] w2(4) same0
    by simp_all
  have stored1: "fake_stored w1 = fbucket.put_all (fapi.send_puts inbox v spec body cbody) (fake_stored w)"
    using w1(3) w2(5) w0'(2) by simp
  have "decoded_total (vs_attachments v) \<le> MAX_OUTBOUND_DECODED_BYTES"
    using validate_send_ok(1) [OF request(1)] by (simp add: send_ok_def)
  note there = sent_puts_readable [OF spec request(2,3) this codec(3) new(4) w1(4) stored1, folded m(2)]
  have ready: "ready parse_spec m w1"
    unfolding ready_def using w1(2,5) st there codec(2) by auto
  have "stored_message_bytes parse_spec write_to_vec m (fw_objects w1) =
      write_to_vec (outbound_builder spec (map2 (\<lambda>va a. \<lparr>bp_spec = a, bp_bytes = inline_of va\<rparr>)
        (vs_attachments v) (spec_attachments spec)))"
    unfolding stored_message_bytes_def there(2) codec(2) option.case sent_parts_loaded [OF spec request(2) new(5,4) stored1]
    by (rule refl)
  note bytes = this
  have answer: "answer_of w1 m = answer_of w m" using kept by (simp add: answer_of_def)
  from handle_send_reaches_ses [OF ready wf1, of config write_to_vec url_parse] have
    "handle_send ?A m deadline w1 = (res, w3) \<Longrightarrow> fw_answers w3 = fw_answers w @
      (case write_to_vec (outbound_builder spec (map2 (\<lambda>va a. \<lparr>bp_spec = a, bp_bytes = inline_of va\<rparr>)
         (vs_attachments v) (spec_attachments spec))) of
         None \<Rightarrow> []
       | Some built \<Rightarrow> if length built \<le> unat MAX_OUTBOUND_RAW_BYTES then [(message_id_str m, answer_of w m)] else [])"
    for deadline res w3 unfolding bytes answer kept(1) .
  with run w2(6) w1(1) show ?thesis by auto
qed

text \<open>A world whose table holds one inbox, and whose bucket is empty.\<close>

definition inbox_world :: fake_world where
  "inbox_world = (sample_world (empty_store\<lparr>mem_items :=
       [(inbox_key (inbox_new ''support@example.com''), snd (inbox_item (inbox_new ''support@example.com'') ''t0''))]\<rparr>))
     \<lparr>fw_objects := \<lparr>fo_objects = Map.empty, fo_failures = Map.empty, fo_calls = (\<lambda>_. []), fo_nth_put_failure = None\<rparr>\<rparr>"

lemma inbox_world:
  "mem_quiet (fw_mail inbox_world)" "fake_healthy inbox_world" "fake_stored inbox_world = Map.empty"
  "fake_rows inbox_world = [inbox_key (inbox_new ''support@example.com'') \<mapsto>
     snd (inbox_item (inbox_new ''support@example.com'') ''t0'')]"
  "table_wf pp (fake_rows inbox_world)"
proof -
  show rows: "fake_rows inbox_world = [inbox_key (inbox_new ''support@example.com'') \<mapsto>
     snd (inbox_item (inbox_new ''support@example.com'') ''t0'')]"
    by (simp add: inbox_world_def sample_world_def fake_rows_def mem_rows_def)
  show "table_wf pp (fake_rows inbox_world)"
    unfolding rows by (rule mail_step_keeps_wf [OF step_inbox table_wf_empty]) simp
  show "mem_quiet (fw_mail inbox_world)"
    by (simp add: inbox_world_def sample_world_def mem_quiet_def empty_store_def)
qed (simp_all add: inbox_world_def fake_healthy_def fake_stored_def fo_get_def fun_eq_iff)

lemma inbox_item_reads: "inbox_of_item (snd (inbox_item i now)) = Some (fst (inbox_item i now))"
  by (simp add: inbox_item_def Let_def non_null_def)

theorem accepted_send_reaches_ses_witness:
  "\<exists>parse_spec w1. send sample_api (fake_app (Some sample_config) parse_spec (\<lambda>_. Some []) (\<lambda>_. None))
       (inbox_new ''support@example.com'') sample_request None inbox_world =
      (Inr \<lparr>acc_message_id = MessageId ''m1'', acc_thread_id = ThreadId ''m1''\<rparr>, w1)
    \<and> (\<forall>deadline res w2. handle_send (fake_app (Some sample_config) parse_spec (\<lambda>_. Some []) (\<lambda>_. None))
         (MessageId ''m1'') deadline w1 = (res, w2) \<longrightarrow> fw_answers w2 = [(''m1'', OutcomeSent ''ses-m1'')])"
proof -
  let ?inbox = "inbox_new ''support@example.com''"
  obtain v where v: "validate sample_libs sample_request = Inr v" "vs_attachments v = [sample_attachment]"
    using sample_validated by blast
  have inbox: "plain_inbox ?inbox"
    using sample_ok [of "''m1''" "''m1''"] by (simp add: message_ok_def)
  have api: "al_send sample_api = sample_libs" "\<And>w. al_new_uuid sample_api w = 7"
    "message_id_of (al_ids sample_api) 7 = MessageId ''m1''"
    by (simp_all add: sample_api_def message_id_of_def)
  define spec where "spec = build_spec (al_ids (sample_api :: (fake_world, unit) api_libs)) ?inbox v 7
    (thread_of_message (MessageId ''m1'')) (time_format (fw_now_ms inbox_world))"
  have one: "distinct (map sa_object_key (spec_attachments (build_spec I i v u t now)))" for I i u t now
    by (simp add: build_spec_def Let_def v(2))
  have "\<exists>w1. send sample_api (fake_app (Some sample_config) (\<lambda>_. Some spec) (\<lambda>_. Some []) (\<lambda>_. None))
       ?inbox sample_request None inbox_world =
      (Inr \<lparr>acc_message_id = MessageId ''m1'', acc_thread_id = thread_of_message (MessageId ''m1'')\<rparr>, w1)
    \<and> (\<forall>deadline res w2. handle_send (fake_app (Some sample_config) (\<lambda>_. Some spec) (\<lambda>_. Some []) (\<lambda>_. None))
         (MessageId ''m1'') deadline w1 = (res, w2) \<longrightarrow>
         fw_answers w2 = fw_answers inbox_world @ (case Some ([] :: bytes) of None \<Rightarrow> []
           | Some built \<Rightarrow> if length built \<le> unat MAX_OUTBOUND_RAW_BYTES
               then [(message_id_str (MessageId ''m1''), answer_of inbox_world (MessageId ''m1''))] else []))"
    by (rule accepted_send_reaches_ses [where u = 7 and v = v and body = "[]" and write_to_vec = "\<lambda>_. Some []"])
      (use v inbox inbox_world(5) [unfolded inbox_world(4), of no_participants] in
        \<open>simp_all add: inbox_world(1-4) api spec_def sample_attachment_def inbox_item_reads one,
          simp_all add: sample_api_def\<close>)
  moreover have "fw_answers inbox_world = []" "answer_of inbox_world (MessageId ''m1'') = OutcomeSent ''ses-m1''"
    by (simp_all add: inbox_world_def sample_world_def answer_of_def)
  ultimately show ?thesis by (auto simp: thread_of_message_def)
qed

text \<open>
  C11. A refused send leaves nothing behind. Over a table and a bucket that never fail, with a spec and a
  document that serialize and a message id that is new: either the send is answered with its id and is queued,
  or not a row of the table has changed and, its content document aside, which the bucket expires, neither has
  an object of the bucket.
\<close>

theorem refused_send_discards:
  assumes "mem_quiet (fw_mail w)" and "fake_healthy w" and "table_wf (al_participant L) (fake_rows w)"
    and "spec = reply_spec (build_spec (al_ids L) inbox v (al_new_uuid L w)
        (case original of None \<Rightarrow> thread_of_message (message_id_of (al_ids L) (al_new_uuid L w))
         | Some (message, _) \<Rightarrow> msg_thread_id message) (time_format (fw_now_ms w))) original"
    and "al_spec_to_vec L spec = Some body"
    and "serialize_within (al_content_to_vec L) (outbound_content v spec) MAX_CONTENT_BYTES = Some (cbody, dropped)"
    and "fake_rows w (message_key inbox (spec_message_id spec)) = None"
    and "fake_rows w (send_state_key (spec_message_id spec)) = None"
    and "\<forall>k \<in> fbucket.spec_keys spec. fake_stored w k = None"
    and "queue_send L (fake_app config parse_spec write_to_vec url_parse) c inbox v key_hash request_hash original route w = (res, w')"
  shows "(\<exists>state. res = Inr \<lparr>acc_message_id = spec_message_id spec, acc_thread_id = spec_thread_id spec\<rparr> \<and>
      send_at (fake_rows w') (spec_message_id spec) = Some state \<and> snd_send_status state = Queued)
    \<or> fake_rows w' = fake_rows w \<and>
      (\<forall>k. k \<noteq> content_object inbox (message_id_str (spec_message_id spec)) \<longrightarrow> fake_stored w' k = fake_stored w k)"
  by (rule fapi.queue_send_refused [OF assms(1-3) _ assms(5-10)]) (use assms(4) in \<open>simp add: fake_app_def\<close>)

theorem refused_send_discards_witness:
  "\<exists>v res w'. validate sample_libs sample_request = Inr v \<and>
     queue_send sample_api (fake_app (Some sample_config) (\<lambda>_. None) (\<lambda>_. Some []) (\<lambda>_. None)) sample_config
       (inbox_new ''support@example.com'') v None [] None ''send'' inbox_world = (res, w') \<and>
     ((\<exists>accepted. res = Inr accepted) \<or> fake_rows w' = fake_rows inbox_world)"
proof -
  let ?L = "sample_api :: (fake_world, unit) api_libs"
  let ?A = "fake_app (Some sample_config) (\<lambda>_. None) (\<lambda>_. Some []) (\<lambda>_. None)"
  let ?inbox = "inbox_new ''support@example.com''"
  obtain v where v: "validate sample_libs sample_request = Inr v" using sample_validated by blast
  obtain res w' where run: "queue_send ?L ?A sample_config ?inbox v None [] None ''send'' inbox_world = (res, w')"
    by fastforce
  define spec where "spec = reply_spec (build_spec (al_ids ?L) ?inbox v (al_new_uuid ?L inbox_world)
    (case None of None \<Rightarrow> thread_of_message (message_id_of (al_ids ?L) (al_new_uuid ?L inbox_world))
     | Some (message, _) \<Rightarrow> msg_thread_id message) (time_format (fw_now_ms inbox_world))) None"
  have "al_spec_to_vec ?L spec = Some []" "\<And>c. al_content_to_vec ?L c \<noteq> None" by (simp_all add: sample_api_def)
  note codec = this
  obtain cbody dropped where cbody:
    "serialize_within (al_content_to_vec ?L) (outbound_content v spec) MAX_CONTENT_BYTES = Some (cbody, dropped)"
    by (rule serialize_total [OF codec(2)])
  have "(\<exists>state. res = Inr \<lparr>acc_message_id = spec_message_id spec, acc_thread_id = spec_thread_id spec\<rparr> \<and>
      send_at (fake_rows w') (spec_message_id spec) = Some state \<and> snd_send_status state = Queued)
    \<or> fake_rows w' = fake_rows inbox_world \<and>
      (\<forall>k. k \<noteq> content_object ?inbox (message_id_str (spec_message_id spec)) \<longrightarrow>
        fake_stored w' k = fake_stored inbox_world k)"
    by (rule refused_send_discards [where L = ?L and w = inbox_world and original = None and inbox = ?inbox
          and v = v and body = "[]" and cbody = cbody and dropped = dropped])
      (use cbody codec run spec_def inbox_world in \<open>simp_all only: option.case fun_upd_apply if_False empty_iff,
        simp_all\<close>)
  with run v show ?thesis by blast
qed

end
