(* ===== verification/Ingest.thy ===== *)
theory Ingest
  imports EventStore Accepted
begin

text \<open>
  \<open>webhook/src/mail/ingest.rs\<close>: a received message is fetched, parsed, its attachments and content stored,
  and its row inserted into the inbox it is for, all before the deadline of the invocation. Logging and
  metrics are left out.
\<close>

section \<open>Outcomes\<close>

text \<open>\<open>actions.rs\<close>: whether a redelivery may help.\<close>

datatype action_error = ActTransient | ActPermanent

fun action_of_store :: "mail_store_error \<Rightarrow> action_error" where
  "action_of_store ErrTransient = ActTransient"
| "action_of_store ErrConflict = ActTransient"
| "action_of_store _ = ActPermanent"

fun action_of_object :: "object_error \<Rightarrow> action_error" where
  "action_of_object ObjTransient = ActTransient"
| "action_of_object _ = ActPermanent"

datatype ingest_outcome = MailDisabled | IngestSkipped | IngestFailed | IngestDuplicate | Ingested

fun ingest_outcome_str :: "ingest_outcome \<Rightarrow> string" where
  "ingest_outcome_str MailDisabled = ''none''"
| "ingest_outcome_str IngestSkipped = ''ingest_skipped''"
| "ingest_outcome_str IngestFailed = ''ingest_failed''"
| "ingest_outcome_str IngestDuplicate = ''ingest_duplicate''"
| "ingest_outcome_str Ingested = ''ingested''"

type_synonym ('s, 'a) action = "'s \<Rightarrow> (action_error + 'a) \<times> 's"

definition act_ok :: "'a \<Rightarrow> ('s, 'a) action" where "act_ok a s = (Inr a, s)"
definition act_err :: "action_error \<Rightarrow> ('s, 'a) action" where "act_err e s = (Inl e, s)"

definition act_then :: "('s, 'a) action \<Rightarrow> ('a \<Rightarrow> ('s, 'b) action) \<Rightarrow> ('s, 'b) action" where
  "act_then m k s = (case m s of (Inl e, s') \<Rightarrow> (Inl e, s') | (Inr a, s') \<Rightarrow> k a s')"

definition object_action :: "('s \<Rightarrow> (object_error + 'a) \<times> 's) \<Rightarrow> ('s, 'a) action" where
  "object_action m s = (case m s of (Inl e, s') \<Rightarrow> (Inl (action_of_object e), s') | (Inr a, s') \<Rightarrow> (Inr a, s'))"

definition store_action :: "('s, 'a) io \<Rightarrow> ('s, 'a) action" where
  "store_action m s = (case m s of (Inl e, s') \<Rightarrow> (Inl (action_of_store e), s') | (Inr a, s') \<Rightarrow> (Inr a, s'))"

text \<open>In milliseconds.\<close>

definition DEADLINE_MARGIN :: nat where "DEADLINE_MARGIN = 10000"

section \<open>What the receipt says\<close>

definition guarded_s3_pointer :: "ses_inbound_notification \<Rightarrow> mail_config \<Rightarrow> string option" where
  "guarded_s3_pointer event config =
     (case s3_pointer (sin_receipt event) of
        None \<Rightarrow> None
      | Some (bucket, key) \<Rightarrow> if bucket \<noteq> mc_bucket config then None else Some key)"

definition received_ms :: "ses_inbound_notification \<Rightarrow> u64 option \<Rightarrow> u64 option" where
  "received_ms event envelope_ts_ms =
     (case Option.bind (sml_timestamp (sin_mail event)) time_parse of
        Some ms \<Rightarrow> Some ms
      | None \<Rightarrow> (case Option.bind (rct_timestamp (sin_receipt event)) time_parse of
            Some ms \<Rightarrow> Some ms
          | None \<Rightarrow> envelope_ts_ms))"

fun first_seen :: "string list \<Rightarrow> string list \<Rightarrow> string list" where
  "first_seen seen [] = []"
| "first_seen seen (x # xs) = (if x \<in> set seen then first_seen seen xs else x # first_seen (x # seen) xs)"

definition normalized_recipients :: "ses_receipt \<Rightarrow> string list" where
  "normalized_recipients receipt =
     first_seen [] (map (\<lambda>r. to_ascii_lowercase (trim r)) (rct_recipients receipt))"

definition auth_failed :: "ses_receipt \<Rightarrow> bool" where
  "auth_failed receipt \<longleftrightarrow> failed_verdict (rct_spf_verdict receipt) \<or>
     failed_verdict (rct_dkim_verdict receipt) \<or> failed_verdict (rct_dmarc_verdict receipt)"

definition verdict_labels :: "inbound_verdict \<Rightarrow> string list" where
  "verdict_labels v = sort (map label_str ([LReceived, LUnread] @
     (case verdict_label v of None \<Rightarrow> [] | Some l \<Rightarrow> [l])))"

definition verdicts_json :: "ses_receipt \<Rightarrow> json" where
  "verdicts_json receipt = JObject
     [(''spam'', json_opt (status_of (rct_spam_verdict receipt))),
      (''virus'', json_opt (status_of (rct_virus_verdict receipt))),
      (''spf'', json_opt (status_of (rct_spf_verdict receipt))),
      (''dkim'', json_opt (status_of (rct_dkim_verdict receipt))),
      (''dmarc'', json_opt (status_of (rct_dmarc_verdict receipt))),
      (''dmarcPolicy'', json_opt (rct_dmarc_policy receipt))]"

section \<open>Resolving the inbox\<close>

record inbox_resolution =
  res_inboxes :: "inbox_id list"
  res_had_transient :: bool
  res_had_permanent :: bool

definition no_resolution :: inbox_resolution where
  "no_resolution = \<lparr>res_inboxes = [], res_had_transient = False, res_had_permanent = False\<rparr>"

definition record_resolution_error :: "inbox_resolution \<Rightarrow> mail_store_error \<Rightarrow> inbox_resolution" where
  "record_resolution_error resolution error =
     (case action_of_store error of
        ActTransient \<Rightarrow> resolution\<lparr>res_had_transient := True\<rparr>
      | ActPermanent \<Rightarrow> resolution\<lparr>res_had_permanent := True\<rparr>)"

definition resolve_recipient ::
  "'w app \<Rightarrow> mail_config \<Rightarrow> string \<Rightarrow> inbox_resolution \<Rightarrow> 'w \<Rightarrow> inbox_resolution \<times> 'w" where
  "resolve_recipient A config address resolution w =
     (if address \<noteq> inbox_str (mc_inbox config) then (resolution, w)
      else let inbox = inbox_new address;
        push = (\<lambda>r. r\<lparr>res_inboxes := res_inboxes r @ [inbox]\<rparr>) in
        (case get_inbox (app_table A) inbox w of
           (Inr (Some _), w') \<Rightarrow> (push resolution, w')
         | (Inl error, w') \<Rightarrow> (record_resolution_error resolution error, w')
         | (Inr None, w') \<Rightarrow>
             (case ensure_inbox (app_table A) inbox (time_format (app_now_ms A w')) w' of
                (Inr _, w'') \<Rightarrow> (push resolution, w'')
              | (Inl error, w'') \<Rightarrow> (record_resolution_error resolution error, w''))))"

fun resolve_recipients ::
  "'w app \<Rightarrow> mail_config \<Rightarrow> string list \<Rightarrow> inbox_resolution \<Rightarrow> 'w \<Rightarrow> inbox_resolution \<times> 'w" where
  "resolve_recipients A config [] resolution w = (resolution, w)"
| "resolve_recipients A config (address # rest) resolution w =
     (case resolve_recipient A config address resolution w of (resolution, w) \<Rightarrow>
        resolve_recipients A config rest resolution w)"

fun fresh_targets ::
  "'w app \<Rightarrow> inbox_id list \<Rightarrow> message_id \<Rightarrow> inbox_resolution \<Rightarrow> 'w \<Rightarrow> (inbox_id list \<times> inbox_resolution) \<times> 'w" where
  "fresh_targets A [] message_id resolution w = (([], resolution), w)"
| "fresh_targets A (inbox # rest) message_id resolution w =
     (case message_exists (app_table A) inbox message_id w of
        (Inr there, w') \<Rightarrow> (case fresh_targets A rest message_id resolution w' of ((targets, r), w'') \<Rightarrow>
            ((if there then targets else inbox # targets, r), w''))
      | (Inl error, w') \<Rightarrow> fresh_targets A rest message_id (record_resolution_error resolution error) w')"

definition finish :: "bool \<Rightarrow> ingest_outcome \<Rightarrow> action_error + ingest_outcome" where
  "finish had_transient outcome = (if had_transient then Inl ActTransient else Inr outcome)"

section \<open>Attachments\<close>

text \<open>What the rest is done over: the table, the bucket and the clock.\<close>

record 's mail_stores =
  ms_table :: "'s table"
  ms_objects :: "'s object_store"
  ms_now_ms :: "'s \<Rightarrow> u64"

type_synonym kept_part = "string \<times> parsed_attachment"

definition put_one :: "'s object_store \<Rightarrow> message_id \<Rightarrow> kept_part \<Rightarrow> ('s, unit) action" where
  "put_one S m part =
     act_then (object_action (obj_put_if_absent S (attachment_object (message_id_str m) (fst part))
       (pa_bytes (snd part)) (pa_content_type (snd part)))) (\<lambda>_. act_ok ())"

text \<open>\<open>tokio::join!\<close> polls its futures in order, \<open>Result::and\<close> keeps the first error.\<close>

definition act_join :: "('s, unit) action \<Rightarrow> ('s, unit) action \<Rightarrow> ('s, unit) action" where
  "act_join f g s = (case f s of (r1, s1) \<Rightarrow> case g s1 of (r2, s2) \<Rightarrow>
     (case r1 of Inl e \<Rightarrow> Inl e | Inr _ \<Rightarrow> r2, s2))"

fun put_chunk :: "'s object_store \<Rightarrow> message_id \<Rightarrow> kept_part list \<Rightarrow> ('s, unit) action" where
  "put_chunk S m [] = act_ok ()"
| "put_chunk S m [a] = put_one S m a"
| "put_chunk S m [a, b] = act_join (put_one S m a) (put_one S m b)"
| "put_chunk S m [a, b, c] = act_join (act_join (put_one S m a) (put_one S m b)) (put_one S m c)"
| "put_chunk S m (a # b # c # d # _) =
     act_join (act_join (act_join (put_one S m a) (put_one S m b)) (put_one S m c)) (put_one S m d)"

text \<open>\<open>slice::chunks\<close>.\<close>

function chunks_of :: "nat \<Rightarrow> 'a list \<Rightarrow> 'a list list" where
  "chunks_of n xs = (if xs = [] \<or> n = 0 then [] else take n xs # chunks_of n (drop n xs))"
  by auto
termination by (relation "measure (\<lambda>(n, xs). length xs)") auto

declare chunks_of.simps [simp del]

fun put_chunks :: "'s object_store \<Rightarrow> message_id \<Rightarrow> kept_part list list \<Rightarrow> ('s, unit) action" where
  "put_chunks S m [] = act_ok ()"
| "put_chunks S m (chunk # chunks) = act_then (put_chunk S m chunk) (\<lambda>_. put_chunks S m chunks)"

fun absent_parts :: "'s object_store \<Rightarrow> message_id \<Rightarrow> kept_part list \<Rightarrow> ('s, kept_part list) action" where
  "absent_parts S m [] = act_ok []"
| "absent_parts S m (part # parts) =
     act_then (object_action (obj_head S (attachment_object (message_id_str m) (fst part)))) (\<lambda>found.
       act_then (absent_parts S m parts) (\<lambda>kept. act_ok (if found = None then part # kept else kept)))"

text \<open>Called with at least one part.\<close>

definition resume_filtered :: "'s object_store \<Rightarrow> message_id \<Rightarrow> kept_part list \<Rightarrow> ('s, kept_part list) action" where
  "resume_filtered S m parts =
     act_then (object_action (obj_head S (attachment_object (message_id_str m) (fst (hd parts))))) (\<lambda>found.
       if found = None then act_ok parts else absent_parts S m parts)"

definition put_kept_parts :: "'s object_store \<Rightarrow> message_id \<Rightarrow> kept_part list \<Rightarrow> ('s, unit) action" where
  "put_kept_parts S m parts =
     (if parts = [] then act_ok ()
      else act_then (resume_filtered S m parts) (\<lambda>to_put. put_chunks S m (chunks_of 4 to_put)))"

definition kept_parts :: "('w, 'm) api_libs \<Rightarrow> uuid \<Rightarrow> parsed_inbound \<Rightarrow> kept_part list" where
  "kept_parts L uuid parsed =
     map (\<lambda>(ordinal, a). (attachment_id (al_ids L) uuid ordinal, a)) (enumerate 0 (pi_attachments parsed))"

definition meta_of_part :: "message_id \<Rightarrow> kept_part \<Rightarrow> attachment_meta" where
  "meta_of_part m part =
     \<lparr>att_attachment_id = fst part, att_object_key = Some (attachment_object (message_id_str m) (fst part)),
      att_size = len_u64 (pa_bytes (snd part)), att_filename = pa_filename (snd part),
      att_content_type = pa_content_type (snd part),
      att_content_disposition = pa_content_disposition (snd part), att_content_id = pa_content_id (snd part)\<rparr>"

definition fetch_parse_and_extract ::
  "('w, 'm) api_libs \<Rightarrow> 's object_store \<Rightarrow> string \<Rightarrow> uuid \<Rightarrow> message_id
     \<Rightarrow> ('s, parsed_message \<times> message_content \<times> attachment_meta list) action" where
  "fetch_parse_and_extract L S key uuid m =
     act_then (object_action (obj_get S key MAX_INBOUND_RAW_BYTES)) (\<lambda>raw.
       case parse_inbound (al_mime L) raw of
         None \<Rightarrow> act_err ActPermanent
       | Some parsed \<Rightarrow>
           let kept = kept_parts L uuid parsed in
           act_then (put_kept_parts S m kept) (\<lambda>_.
             act_ok (pi_message parsed, pi_content parsed, map (meta_of_part m) kept)))"

section \<open>The message\<close>

record inbound_draft =
  drf_parsed :: parsed_message
  drf_message_id :: message_id
  drf_ses_message_id :: ses_message_id
  drf_labels :: "string list"
  drf_timestamp :: string
  drf_now :: string
  drf_raw_s3_key :: string
  drf_attachments :: "attachment_meta list"
  drf_expires_at :: u64

definition to_message :: "inbound_draft \<Rightarrow> inbox_id \<Rightarrow> mail_message" where
  "to_message d inbox =
     \<lparr>msg_inbox_id = inbox, msg_thread_id = thread_of_message (drf_message_id d),
      msg_message_id = drf_message_id d, msg_ses_message_id = Some (drf_ses_message_id d),
      msg_direction = Inbound, msg_rfc_message_id = pm_rfc_message_id (drf_parsed d),
      msg_in_reply_to = pm_in_reply_to (drf_parsed d), msg_labels = drf_labels d,
      msg_timestamp = drf_timestamp d, msg_from = pm_from (drf_parsed d), msg_to = pm_to (drf_parsed d),
      msg_cc = pm_cc (drf_parsed d), msg_bcc = pm_bcc (drf_parsed d), msg_subject = pm_subject (drf_parsed d),
      msg_preview = pm_preview (drf_parsed d), msg_size = pm_size (drf_parsed d),
      msg_attachments = drf_attachments d, msg_attachments_truncated = pm_attachments_truncated (drf_parsed d),
      msg_raw_s3_key = Some (drf_raw_s3_key d), msg_thread_snapshot = None, msg_delivery = bt_empty,
      msg_send_status = None, msg_sent_at = None, msg_version = 0, msg_created_at = drf_now d,
      msg_updated_at = drf_now d, msg_expires_at = drf_expires_at d\<rparr>"

definition ingest_candidates :: "mail_message \<Rightarrow> message_content \<Rightarrow> string list" where
  "ingest_candidates msg content =
     (let own = strip_angle_brackets (msg_rfc_message_id msg) in
      fold (\<lambda>c cs. if c \<in> set cs then cs else cs @ [c])
        (candidate_ids (map_option strip_angle_brackets (msg_in_reply_to msg))
          (map strip_angle_brackets (ct_references content)))
        (if own = [] then [] else [own]))"

definition insert_into_inbox ::
  "('w, 'm) api_libs \<Rightarrow> 's mail_stores \<Rightarrow> inbound_draft \<Rightarrow> message_content \<Rightarrow> inbox_id \<Rightarrow> ('s, unit) action" where
  "insert_into_inbox L M d content inbox =
     (let msg = to_message d inbox in
      act_then (object_action (store_content (al_content_to_vec L) (ms_objects M) inbox (drf_message_id d) content)) (\<lambda>_.
        act_then (store_action (insert_message (al_participant L) (ms_table M) msg (ingest_candidates msg content)))
          (\<lambda>_. act_ok ())))"

fun insert_each ::
  "('w, 'm) api_libs \<Rightarrow> 's mail_stores \<Rightarrow> inbound_draft \<Rightarrow> message_content \<Rightarrow> inbox_id list \<Rightarrow> bool \<times> bool
     \<Rightarrow> 's \<Rightarrow> (bool \<times> bool) \<times> 's" where
  "insert_each L M d content [] flags s = (flags, s)"
| "insert_each L M d content (inbox # rest) (had_transient, inserted_any) s =
     (case insert_into_inbox L M d content inbox s of
        (Inr _, s') \<Rightarrow> insert_each L M d content rest (had_transient, True) s'
      | (Inl ActTransient, s') \<Rightarrow> insert_each L M d content rest (True, inserted_any) s'
      | (Inl ActPermanent, s') \<Rightarrow> insert_each L M d content rest (had_transient, inserted_any) s')"

definition insert_into_all_targets ::
  "('w, 'm) api_libs \<Rightarrow> 's mail_stores \<Rightarrow> inbound_draft \<Rightarrow> message_content \<Rightarrow> inbox_id list \<Rightarrow> ('s, bool) action" where
  "insert_into_all_targets L M d content targets s =
     (case insert_each L M d content targets (False, False) s of ((had_transient, inserted_any), s') \<Rightarrow>
        (if had_transient then Inl ActTransient else Inr inserted_any, s'))"

definition draft_of ::
  "mail_config option \<Rightarrow> string \<Rightarrow> ses_inbound_notification \<Rightarrow> message_id \<Rightarrow> u64 \<Rightarrow> u64 \<Rightarrow> parsed_message
     \<Rightarrow> attachment_meta list \<Rightarrow> inbound_draft" where
  "draft_of mail key event m received now_ms parsed attachments =
     \<lparr>drf_parsed = parsed, drf_message_id = m,
      drf_ses_message_id = SesMessageId (sml_message_id (sin_mail event)),
      drf_labels = verdict_labels (classify_inbound (is_quarantined (sin_receipt event)) (auth_failed (sin_receipt event))),
      drf_timestamp = time_format received, drf_now = time_format now_ms, drf_raw_s3_key = key,
      drf_attachments = attachments,
      drf_expires_at = (case mail of None \<Rightarrow> 0 | Some c \<Rightarrow> expires_at now_ms (mc_retention_days c))\<rparr>"

definition ingest_into_targets ::
  "('w, 'm) api_libs \<Rightarrow> mail_config option \<Rightarrow> 's mail_stores \<Rightarrow> string \<Rightarrow> ses_inbound_notification \<Rightarrow> inbox_id list
     \<Rightarrow> uuid \<Rightarrow> message_id \<Rightarrow> u64 \<Rightarrow> ('s, ingest_outcome) action" where
  "ingest_into_targets L mail M key event targets uuid m received =
     act_then (fetch_parse_and_extract L (ms_objects M) key uuid m) (\<lambda>(parsed, content, attachments) s.
       act_then (insert_into_all_targets L M
           (draft_of mail key event m received (ms_now_ms M s) parsed attachments)
           (content\<lparr>ct_verdicts := Some (verdicts_json (sin_receipt event))\<rparr>) targets)
         (\<lambda>inserted. act_ok (if inserted then Ingested else IngestFailed)) s)"

section \<open>The deadline\<close>

text \<open>
  \<open>tokio::time::timeout\<close> drops a future at the await that is pending when its timer fires. Over the state
  paired with whether that has happened, an operation of a dropped future does nothing, and the one that is
  pending when the timer fires has no answer; the code then runs to its end without touching the world, and
  what it returns is thrown away. Parsing, which is done on another thread, takes no time of its own: a timer
  that fires meanwhile is seen at the next await.
\<close>

definition until ::
  "'w app \<Rightarrow> nat \<Rightarrow> 'a \<Rightarrow> ('w \<Rightarrow> 'a \<times> 'w) \<Rightarrow> 'w \<times> bool \<Rightarrow> 'a \<times> 'w \<times> bool" where
  "until A by unseen op s = (case s of (w, dropped) \<Rightarrow>
     if dropped then (unseen, w, True)
     else (case op w of (a, w') \<Rightarrow> if app_elapsed A by w' then (unseen, w', True) else (a, w', False)))"

definition table_until :: "'w app \<Rightarrow> nat \<Rightarrow> ('w \<times> bool) table" where
  "table_until A by =
     \<lparr>tbl_get = \<lambda>k r. until A by (Inl ErrTransient) (tbl_get (app_table A) k r),
      tbl_batch_get = \<lambda>ks r. until A by (Inl ErrTransient) (tbl_batch_get (app_table A) ks r),
      tbl_query = \<lambda>q. until A by (Inl ErrTransient) (tbl_query (app_table A) q),
      tbl_put_if_absent = \<lambda>i. until A by (Inl ErrTransient) (tbl_put_if_absent (app_table A) i),
      tbl_transact = \<lambda>ops. until A by (Inl ErrTransient) (tbl_transact (app_table A) ops),
      tbl_pause = \<lambda>n s. snd (until A by () (\<lambda>w. ((), tbl_pause (app_table A) n w)) s)\<rparr>"

definition objects_until :: "'w app \<Rightarrow> nat \<Rightarrow> ('w \<times> bool) object_store" where
  "objects_until A by =
     \<lparr>obj_get = \<lambda>key limit. until A by (Inl ObjTransient) (obj_get (app_objects A) key limit),
      obj_head = \<lambda>key. until A by (Inl ObjTransient) (obj_head (app_objects A) key),
      obj_put_if_absent = \<lambda>key body ct. until A by (Inl ObjTransient) (obj_put_if_absent (app_objects A) key body ct),
      obj_delete = \<lambda>key. until A by (Inl ObjTransient) (obj_delete (app_objects A) key)\<rparr>"

definition stores_until :: "'w app \<Rightarrow> nat \<Rightarrow> ('w \<times> bool) mail_stores" where
  "stores_until A by = \<lparr>ms_table = table_until A by, ms_objects = objects_until A by, ms_now_ms = app_now_ms A \<circ> fst\<rparr>"

definition ingest_inbound ::
  "('w, 'm) api_libs \<Rightarrow> 'w app \<Rightarrow> ses_inbound_notification \<Rightarrow> nat \<Rightarrow> u64 option \<Rightarrow> ('w, ingest_outcome) action" where
  "ingest_inbound L A event deadline envelope_ts_ms w =
     (case app_mail A of None \<Rightarrow> (Inr MailDisabled, w) | Some config \<Rightarrow>
      (case guarded_s3_pointer event config of None \<Rightarrow> (Inr IngestSkipped, w) | Some key \<Rightarrow>
      (case received_ms event envelope_ts_ms of None \<Rightarrow> (Inr IngestSkipped, w) | Some received \<Rightarrow>
      (case resolve_recipients A config (normalized_recipients (sin_receipt event)) no_resolution w of (resolution, w) \<Rightarrow>
        if res_inboxes resolution = []
        then (finish (res_had_transient resolution)
          (if res_had_permanent resolution then IngestFailed else IngestSkipped), w)
        else let uuid = inbound_message_id (al_ids L) (sml_message_id (sin_mail event)) received;
                 m = message_id_of (al_ids L) uuid in
          (case fresh_targets A (res_inboxes resolution) m resolution w of ((targets, resolution), w) \<Rightarrow>
            if targets = []
            then (finish (res_had_transient resolution)
              (if res_had_permanent resolution then IngestFailed else IngestDuplicate), w)
            else let now = app_instant A w; by = now + ((deadline - now) - DEADLINE_MARGIN) in
              (case ingest_into_targets L (app_mail A) (stores_until A by) key event targets uuid m received (w, False) of
                 (result, w, dropped) \<Rightarrow>
                   if dropped then (Inl ActTransient, w)
                   else (case result of
                       Inl error \<Rightarrow> (Inl error, w)
                     | Inr outcome \<Rightarrow> (finish (res_had_transient resolution) outcome, w))))))))"

end
