(* ===== verification/Arrivals.thy ===== *)
theory Arrivals
  imports Ingest
begin

text \<open>
  What an ingest leaves behind, however it ends: over stores of which it is the only writer, with any
  failures and cut off at any await, no message row is there before the documents it names.
\<close>

section \<open>Messages of the table\<close>

definition all_messages :: "(mail_message \<Rightarrow> bool) \<Rightarrow> rows \<Rightarrow> bool" where
  "all_messages P R \<longleftrightarrow> (\<forall>i m msg. message_at R i m = Some msg \<longrightarrow> P msg)"

lemma all_messages_mono: "all_messages P R \<Longrightarrow> (\<And>msg. P msg \<Longrightarrow> Q msg) \<Longrightarrow> all_messages Q R"
  by (auto simp: all_messages_def)

lemma all_messages_insert:
  assumes "all_messages P R" and "P (stored_message msg after)"
  shows "all_messages P (txn_apply (plan_insert msg before after al) R)"
proof -
  obtain as where ops: "plan_insert msg before after al = put_message (stored_message msg after) CondNotExists #
      put_thread after (versioned (map_option thr_version before)) # as" and as: "list_all (alias_op_for msg) as"
    by (rule insert_shape)
  show ?thesis
    using assms unfolding all_messages_def ops txn_apply_simps aliases_at(1) [OF as]
    by (auto simp: message_at_upd split: if_splits)
qed

text \<open>What an insert may still change of the message it is given: its thread and the snapshot of it.\<close>

definition settled_for :: "(mail_message \<Rightarrow> bool) \<Rightarrow> mail_message \<Rightarrow> bool" where
  "settled_for P msg \<longleftrightarrow> (\<forall>t snap. P (msg\<lparr>msg_thread_id := t, msg_thread_snapshot := snap\<rparr>) \<and> P (msg\<lparr>msg_thread_id := t\<rparr>))"

lemma settled_stored: "settled_for P msg \<Longrightarrow> P (stored_message (msg\<lparr>msg_thread_id := t\<rparr>) after)"
  by (auto simp: settled_for_def stored_message_def split: direction.split)

lemma settled_thread: "settled_for P msg \<Longrightarrow> settled_for P (msg\<lparr>msg_thread_id := t\<rparr>)"
  by (simp add: settled_for_def)

section \<open>Stores with one writer\<close>

locale ingest_stores = mail_table "ms_table M" rows_of "(=)"
  for M :: "'s mail_stores" and rows_of :: "'s \<Rightarrow> rows" +
  fixes present :: "'s \<Rightarrow> string set"
  assumes table_get: "tbl_get (ms_table M) k r s = (gres, s') \<Longrightarrow> present s' = present s"
    and table_batch_get: "tbl_batch_get (ms_table M) ks r s = (bres, s') \<Longrightarrow> present s' = present s"
    and table_put: "tbl_put_if_absent (ms_table M) i s = (pres, s') \<Longrightarrow> present s' = present s"
    and table_transact: "tbl_transact (ms_table M) ops s = (tres, s') \<Longrightarrow> present s' = present s"
    and table_pause: "present (tbl_pause (ms_table M) n s) = present s"
    and object_get: "obj_get (ms_objects M) key limit s = (ores, s') \<Longrightarrow> rows_of s' = rows_of s \<and> present s' = present s"
    and object_head: "obj_head (ms_objects M) key s = (hres, s') \<Longrightarrow> rows_of s' = rows_of s \<and> present s' = present s \<and>
      (\<forall>n. hres = Inr (Some n) \<longrightarrow> key \<in> present s)"
    and object_put: "obj_put_if_absent (ms_objects M) key body ct s = (ures, s') \<Longrightarrow> rows_of s' = rows_of s \<and>
      present s \<subseteq> present s' \<and> (\<forall>u. ures = Inr u \<longrightarrow> key \<in> present s')"
begin

definition grows :: "'s \<Rightarrow> 's \<Rightarrow> bool" where
  "grows s s' \<longleftrightarrow> rows_of s' = rows_of s \<and> present s \<subseteq> present s'"

lemma grows_refl [simp]: "grows s s"
  by (simp add: grows_def)

lemma grows_trans: "grows s s' \<Longrightarrow> grows s' s'' \<Longrightarrow> grows s s''"
  by (auto simp: grows_def)

definition there :: "message_id \<Rightarrow> kept_part \<Rightarrow> 's \<Rightarrow> bool" where
  "there m part s \<longleftrightarrow> attachment_object (message_id_str m) (fst part) \<in> present s"

lemma there_grows: "there m part s \<Longrightarrow> grows s s' \<Longrightarrow> there m part s'"
  by (auto simp: there_def grows_def)

subsection \<open>Attachments\<close>

lemma put_one_law:
  "put_one (ms_objects M) m part s = (res, s') \<Longrightarrow> grows s s' \<and> (\<forall>u. res = Inr u \<longrightarrow> there m part s')"
  by (auto simp: put_one_def act_then_def object_action_def act_ok_def grows_def there_def
      dest: object_put split: prod.splits sum.splits)

lemma act_join_law:
  assumes "act_join f g s = (res, s')"
    and "\<And>s res s'. f s = (res, s') \<Longrightarrow> grows s s' \<and> (\<forall>u. res = Inr u \<longrightarrow> (\<forall>p \<in> F. there m p s'))"
    and "\<And>s res s'. g s = (res, s') \<Longrightarrow> grows s s' \<and> (\<forall>u. res = Inr u \<longrightarrow> (\<forall>p \<in> G. there m p s'))"
  shows "grows s s' \<and> (\<forall>u. res = Inr u \<longrightarrow> (\<forall>p \<in> F \<union> G. there m p s'))"
proof -
  obtain r1 s1 where f: "f s = (r1, s1)" by fastforce
  obtain r2 where g: "g s1 = (r2, s')" and res: "res = (case r1 of Inl e \<Rightarrow> Inl e | Inr _ \<Rightarrow> r2)"
    using assms(1) f by (auto simp: act_join_def split: prod.splits)
  note lf = assms(2) [OF f] and lg = assms(3) [OF g]
  then have "grows s s'" by (blast intro: grows_trans)
  moreover have "\<forall>p \<in> F \<union> G. there m p s'" if "res = Inr u" for u
    using that res lf lg there_grows by (cases r1) auto
  ultimately show ?thesis by blast
qed

lemma put_chunk_law:
  "length chunk \<le> 4 \<Longrightarrow> put_chunk (ms_objects M) m chunk s = (res, s') \<Longrightarrow>
     grows s s' \<and> (\<forall>u. res = Inr u \<longrightarrow> (\<forall>p \<in> set chunk. there m p s'))"
proof (induction "ms_objects M" m chunk arbitrary: s res s' rule: put_chunk.induct)
  case (1 m)
  then show ?case by (simp add: act_ok_def)
next
  case (2 m a)
  then show ?case using put_one_law by fastforce
next
  case (3 m a b)
  have one: "grows s s' \<and> (\<forall>u. res = Inr u \<longrightarrow> (\<forall>p \<in> {x}. there m p s'))"
    if "put_one (ms_objects M) m x s = (res, s')" for x s res s' using put_one_law [OF that] by simp
  show ?case using act_join_law [OF 3(2) [unfolded put_chunk.simps] one one] by simp
next
  case (4 m a b c)
  have one: "grows s s' \<and> (\<forall>u. res = Inr u \<longrightarrow> (\<forall>p \<in> {x}. there m p s'))"
    if "put_one (ms_objects M) m x s = (res, s')" for x s res s' using put_one_law [OF that] by simp
  note two = act_join_law [OF _ one one]
  show ?case using act_join_law [OF 4(2) [unfolded put_chunk.simps] two one] by simp
next
  case (5 m a b c d rest)
  have one: "grows s s' \<and> (\<forall>u. res = Inr u \<longrightarrow> (\<forall>p \<in> {x}. there m p s'))"
    if "put_one (ms_objects M) m x s = (res, s')" for x s res s' using put_one_law [OF that] by simp
  note two = act_join_law [OF _ one one]
  note three = act_join_law [OF _ two one]
  have "rest = []" using 5(1) by simp
  then show ?case using act_join_law [OF 5(2) [unfolded put_chunk.simps] three one] by simp
qed

lemma put_chunks_law:
  "\<forall>c \<in> set chunks. length c \<le> 4 \<Longrightarrow> put_chunks (ms_objects M) m chunks s = (res, s') \<Longrightarrow>
     grows s s' \<and> (\<forall>u. res = Inr u \<longrightarrow> (\<forall>p \<in> set (concat chunks). there m p s'))"
proof (induction chunks arbitrary: s res)
  case (Cons c cs)
  obtain r1 s1 where c: "put_chunk (ms_objects M) m c s = (r1, s1)" by fastforce
  have len: "length c \<le> 4" using Cons.prems(1) by simp
  note c' = put_chunk_law [OF len c]
  show ?case
  proof (cases r1)
    case (Inl e)
    then show ?thesis using Cons.prems(2) c c' by (auto simp: act_then_def)
  next
    case (Inr u)
    then have "put_chunks (ms_objects M) m cs s1 = (res, s')" using Cons.prems(2) c by (simp add: act_then_def)
    with Cons have rest: "grows s1 s' \<and> (\<forall>u. res = Inr u \<longrightarrow> (\<forall>p \<in> set (concat cs). there m p s'))" by simp
    have "grows s s'" using c' rest grows_trans by blast
    moreover have "there m p s'" if "p \<in> set c" for p using c' Inr rest that there_grows by blast
    ultimately show ?thesis using rest by auto
  qed
qed (simp add: act_ok_def)

end

lemma chunks_of_parts:
  "0 < n \<Longrightarrow> concat (chunks_of n xs) = xs \<and> (\<forall>c \<in> set (chunks_of n xs). length c \<le> n)"
proof (induction n xs rule: chunks_of.induct)
  case (1 n xs)
  show ?case
  proof (cases "xs = []")
    case False
    with 1 have "concat (chunks_of n (drop n xs)) = drop n xs \<and> (\<forall>c \<in> set (chunks_of n (drop n xs)). length c \<le> n)"
      by simp
    moreover have "chunks_of n xs = take n xs # chunks_of n (drop n xs)"
      using False 1(2) by (simp add: chunks_of.simps [of n xs])
    ultimately show ?thesis by simp
  qed (simp add: chunks_of.simps)
qed

text \<open>A message whose documents are all among the objects \<open>K\<close>, if it is one that was received.\<close>

definition documented :: "string set \<Rightarrow> mail_message \<Rightarrow> bool" where
  "documented K msg \<longleftrightarrow> (msg_direction msg = Inbound \<longrightarrow>
     content_object (msg_inbox_id msg) (message_id_str (msg_message_id msg)) \<in> K \<and>
     (\<forall>a \<in> set (msg_attachments msg). \<forall>k. att_object_key a = Some k \<longrightarrow> k \<in> K))"

lemma documented_mono: "documented K msg \<Longrightarrow> K \<subseteq> K' \<Longrightarrow> documented K' msg"
  by (auto simp: documented_def)

lemma documented_settled: "documented K msg \<Longrightarrow> settled_for (documented K) msg"
  by (simp add: settled_for_def documented_def)

context ingest_stores
begin

lemma absent_parts_law:
  "absent_parts (ms_objects M) m parts s = (res, s') \<Longrightarrow>
     grows s s' \<and> (\<forall>kept. res = Inr kept \<longrightarrow> (\<forall>p \<in> set parts. p \<in> set kept \<or> there m p s'))"
proof (induction parts arbitrary: s res s')
  case Nil
  then show ?case by (simp add: act_ok_def)
next
  case (Cons part parts)
  obtain hres s1 where head: "obj_head (ms_objects M) (attachment_object (message_id_str m) (fst part)) s = (hres, s1)"
    by fastforce
  note law = object_head [OF head]
  obtain r2 s2 where rest: "absent_parts (ms_objects M) m parts s1 = (r2, s2)" by fastforce
  note ih = Cons.IH [OF rest]
  have grow1: "grows s s1" using law by (simp add: grows_def)
  show ?case
  proof (cases hres)
    case (Inl e)
    then show ?thesis using Cons.prems head grow1 by (auto simp: act_then_def object_action_def)
  next
    case hr: (Inr found)
    show ?thesis
    proof (cases r2)
      case (Inl e)
      then show ?thesis using Cons.prems head rest hr ih grow1
        by (auto simp: act_then_def object_action_def intro: grows_trans)
    next
      case (Inr kept)
      then have "res = Inr (if found = None then part # kept else kept)" "s' = s2"
        using Cons.prems head rest hr by (auto simp: act_then_def object_action_def act_ok_def)
      moreover have "found \<noteq> None \<Longrightarrow> there m part s2"
        using law hr ih by (auto simp: there_def grows_def)
      ultimately show ?thesis using ih Inr grow1 by (auto intro: grows_trans)
    qed
  qed
qed

lemma resume_filtered_law:
  assumes "resume_filtered (ms_objects M) m parts s = (res, s')"
  shows "grows s s' \<and> (\<forall>kept. res = Inr kept \<longrightarrow> (\<forall>p \<in> set parts. p \<in> set kept \<or> there m p s'))"
proof -
  obtain hres s1 where head:
    "obj_head (ms_objects M) (attachment_object (message_id_str m) (fst (hd parts))) s = (hres, s1)" by fastforce
  have grow1: "grows s s1" using object_head [OF head] by (simp add: grows_def)
  show ?thesis
  proof (cases hres)
    case (Inl e)
    then show ?thesis using assms head grow1 by (auto simp: resume_filtered_def act_then_def object_action_def)
  next
    case (Inr found)
    then have run: "(if found = None then act_ok parts s1 else absent_parts (ms_objects M) m parts s1) = (res, s')"
      using assms head by (auto simp: resume_filtered_def act_then_def object_action_def)
    show ?thesis
    proof (cases "found = None")
      case True
      with run grow1 show ?thesis by (auto simp: act_ok_def)
    next
      case False
      with run have "absent_parts (ms_objects M) m parts s1 = (res, s')" by simp
      from absent_parts_law [OF this] grow1 show ?thesis by (auto intro: grows_trans)
    qed
  qed
qed

lemma put_kept_parts_law:
  assumes "put_kept_parts (ms_objects M) m parts s = (res, s')"
  shows "grows s s' \<and> (\<forall>u. res = Inr u \<longrightarrow> (\<forall>p \<in> set parts. there m p s'))"
proof (cases "parts = []")
  case True
  then show ?thesis using assms by (simp add: put_kept_parts_def act_ok_def)
next
  case False
  obtain r1 s1 where res: "resume_filtered (ms_objects M) m parts s = (r1, s1)" by fastforce
  note law = resume_filtered_law [OF res]
  show ?thesis
  proof (cases r1)
    case (Inl e)
    then show ?thesis using assms False res law by (auto simp: put_kept_parts_def act_then_def)
  next
    case (Inr kept)
    then have puts: "put_chunks (ms_objects M) m (chunks_of 4 kept) s1 = (res, s')"
      using assms False res by (simp add: put_kept_parts_def act_then_def)
    note chunks = chunks_of_parts [of 4 kept, simplified]
    from put_chunks_law [OF conjunct2 [OF chunks] puts] chunks
    have rest: "grows s1 s'" "\<And>u p. res = Inr u \<Longrightarrow> p \<in> set kept \<Longrightarrow> there m p s'" by simp_all
    have "there m p s'" if "res = Inr u" "p \<in> set parts" for u p
      using law [unfolded Inr] that rest(2) [OF that(1)] there_grows [OF _ rest(1)] by blast
    then show ?thesis using grows_trans [OF conjunct1 [OF law] rest(1)] by simp
  qed
qed

lemma fetch_law:
  assumes "fetch_parse_and_extract L (ms_objects M) key uuid m s = (res, s')"
  shows "grows s s' \<and> (\<forall>parsed content metas. res = Inr (parsed, content, metas) \<longrightarrow>
    (\<forall>a \<in> set metas. \<forall>k. att_object_key a = Some k \<longrightarrow> k \<in> present s'))"
proof -
  obtain ores s1 where get: "obj_get (ms_objects M) key MAX_INBOUND_RAW_BYTES s = (ores, s1)" by fastforce
  have grow1: "grows s s1" using object_get [OF get] by (simp add: grows_def)
  show ?thesis
  proof (cases "\<exists>raw parsed. ores = Inr raw \<and> parse_inbound (al_mime L) raw = Some parsed")
    case False
    then show ?thesis using assms get grow1
      by (auto simp: fetch_parse_and_extract_def act_then_def object_action_def act_err_def
          split: sum.splits option.splits)
  next
    case True
    then obtain raw parsed where parsed: "ores = Inr raw" "parse_inbound (al_mime L) raw = Some parsed" by blast
    obtain r2 s2 where put: "put_kept_parts (ms_objects M) m (kept_parts L uuid parsed) s1 = (r2, s2)" by fastforce
    note law = put_kept_parts_law [OF put]
    have out: "s' = s2" "\<And>p c metas. res = Inr (p, c, metas) \<Longrightarrow>
        metas = map (meta_of_part m) (kept_parts L uuid parsed) \<and> r2 = Inr ()"
      using assms get parsed put
      by (auto simp: fetch_parse_and_extract_def act_then_def object_action_def act_ok_def Let_def
          split: sum.splits)
    have "grows s s'" using law grow1 out(1) by (simp add: grows_trans)
    moreover have "att_object_key a = Some k \<Longrightarrow> k \<in> present s'" if "res = Inr (p, c, metas)" "a \<in> set metas" for p c metas a k
      using law out(1) out(2) [OF that(1)] that(2) by (auto simp: meta_of_part_def there_def)
    ultimately show ?thesis by blast
  qed
qed

subsection \<open>The insert\<close>

definition same :: "'s \<Rightarrow> 's \<Rightarrow> bool" where
  "same s s' \<longleftrightarrow> rows_of s' = rows_of s \<and> present s' = present s"

lemma get_as_same: "get_as (ms_table M) f k r s = (res, s') \<Longrightarrow> same s s'"
  using get_law table_get by (fastforce simp: get_as_def same_def elim!: try_io_cases)

lemma read_aliases_same: "read_aliases (ms_table M) i ids s = (res, s') \<Longrightarrow> same s s'"
  using batch_get_law table_batch_get
  by (fastforce simp: read_aliases_def batch_get_as_def same_def ok_def elim!: try_io_cases split: if_splits)

lemma insert_loop_law:
  "insert_loop pp (ms_table M) tid msg candidates as s = (res, s') \<Longrightarrow> settled_for P msg \<Longrightarrow>
     all_messages P (rows_of s) \<Longrightarrow> present s' = present s \<and> all_messages P (rows_of s')"
proof (induction as arbitrary: msg s)
  case Nil
  then show ?case by (simp add: err_def)
next
  case (Cons n as)
  obtain ares s1 where al: "read_aliases (ms_table M) (msg_inbox_id msg) candidates s = (ares, s1)" by fastforce
  note same1 = read_aliases_same [OF al]
  show ?case
  proof (cases ares)
    case (Inl e)
    then show ?thesis using Cons.prems al same1 by (simp add: try_io_def same_def)
  next
    case (Inr found)
    define aliases where "aliases = \<lparr>al_candidates = candidates, al_found = found\<rparr>"
    define moved where "moved = msg\<lparr>msg_thread_id := (case alias_thread_id aliases of None \<Rightarrow> tid | Some t \<Rightarrow> t)\<rparr>"
    note settled = settled_thread [OF Cons.prems(2)]
    obtain tres s2 where th: "read_thread (ms_table M) (msg_inbox_id moved) (msg_thread_id moved) s1 = (tres, s2)"
      by fastforce
    note same2 = get_as_same [OF th [unfolded read_thread_def]]
    show ?thesis
    proof (cases tres)
      case tl: (Inl e)
      have "(res, s') = (Inl e, s2)"
        using Cons.prems(1)
        unfolding insert_loop.simps try_io_def al Inr prod.case sum.case Let_def aliases_def [symmetric]
          moved_def [symmetric] th tl by simp
      then show ?thesis using Cons.prems(3) same1 same2 by (simp add: same_def)
    next
      case tr: (Inr before)
      let ?ops = "plan_insert moved before (thread_for pp moved before) aliases"
      obtain cres s3 where tx: "tbl_transact (ms_table M) ?ops s2 = (cres, s3)" by fastforce
      have rows: "rows_of s3 = txn_apply ?ops (rows_of s2) \<or> rows_of s3 = rows_of s2" using transact_law [OF tx] by auto
      moreover have "all_messages P (txn_apply ?ops (rows_of s2))"
        using Cons.prems(2,3) same1 same2
        by (intro all_messages_insert) (auto simp: same_def moved_def settled_stored)
      ultimately have all3: "all_messages P (rows_of s3)" using Cons.prems(3) same1 same2 by (auto simp: same_def)
      have pres3: "present s3 = present s" using table_transact [OF tx] same1 same2 by (simp add: same_def)
      have again: "present s' = present s \<and> all_messages P (rows_of s')"
        if "insert_loop pp (ms_table M) tid moved candidates as (f s3) = (res, s')"
          "rows_of (f s3) = rows_of s3" "present (f s3) = present s3" for f
        using Cons.IH [OF that(1)] settled that(2,3) all3 pres3 by (simp add: moved_def)
      have run: "(case cres of Inl e \<Rightarrow> (Inl e, s3) | Inr out \<Rightarrow> (case out of
            Committed \<Rightarrow> ok FreshInsert
          | Cancelled Duplicate \<Rightarrow> ok DuplicateInsert
          | Cancelled Retry \<Rightarrow> (\<lambda>s. insert_loop pp (ms_table M) tid moved candidates as (tbl_pause (ms_table M) n s))
          | Cancelled VersionConflict \<Rightarrow> (\<lambda>s. insert_loop pp (ms_table M) tid moved candidates as (tbl_pause (ms_table M) n s))
          | Cancelled (AliasTaken _) \<Rightarrow> insert_loop pp (ms_table M) tid moved candidates as
          | Cancelled Permanent \<Rightarrow> err ErrPermanent
          | Cancelled KeyExists \<Rightarrow> err ErrPermanent) s3) = (res, s')"
        using Cons.prems(1)
        unfolding insert_loop.simps try_io_def al Inr prod.case sum.case Let_def aliases_def [symmetric]
          moved_def [symmetric] th tr tx .
      note pause = again [of "tbl_pause (ms_table M) n"] again [of "\<lambda>s. s"]
      show ?thesis
        using run pause pause_law [of s3 n] table_pause [of n s3] all3 pres3
        by (auto simp: ok_def err_def split: sum.splits txn_outcome.splits txn_decision.splits)
    qed
  qed
qed

definition documents_first :: "'s \<Rightarrow> bool" where
  "documents_first s \<longleftrightarrow> all_messages (documented (present s)) (rows_of s)"

lemma documents_first_grows: "documents_first s \<Longrightarrow> grows s s' \<Longrightarrow> documents_first s'"
  unfolding documents_first_def grows_def by (auto intro: all_messages_mono documented_mono)

definition attached :: "attachment_meta list \<Rightarrow> 's \<Rightarrow> bool" where
  "attached metas s \<longleftrightarrow> (\<forall>a \<in> set metas. \<forall>k. att_object_key a = Some k \<longrightarrow> k \<in> present s)"

lemma store_content_law:
  assumes "store_content to_vec (ms_objects M) inbox m content s = (res, s')"
  shows "grows s s' \<and> (\<forall>u. res = Inr u \<longrightarrow> content_object inbox (message_id_str m) \<in> present s')"
  using assms
  by (auto simp: store_content_def grows_def split: option.splits prod.splits sum.splits dest: object_put)

lemma insert_into_inbox_law:
  assumes run: "insert_into_inbox L M d content inbox s = (res, s')"
    and first: "documents_first s" and att: "attached (drf_attachments d) s"
  shows "documents_first s' \<and> present s \<subseteq> present s'"
proof -
  let ?msg = "to_message d inbox"
  obtain r1 s1 where st: "store_content (al_content_to_vec L) (ms_objects M) inbox (drf_message_id d) content s = (r1, s1)"
    by fastforce
  note law = store_content_law [OF st]
  note first1 = documents_first_grows [OF first conjunct1 [OF law]]
  show ?thesis
  proof (cases r1)
    case (Inl e)
    then have "s' = s1" using run st by (simp add: insert_into_inbox_def Let_def act_then_def object_action_def)
    then show ?thesis using first1 law by (simp add: grows_def)
  next
    case (Inr u)
    obtain r2 s2 where ins: "insert_message (al_participant L) (ms_table M) ?msg (ingest_candidates ?msg content) s1 = (r2, s2)"
      by fastforce
    have s': "s' = s2"
      using run st Inr ins
      by (auto simp: insert_into_inbox_def Let_def act_then_def object_action_def store_action_def act_ok_def split: sum.splits)
    have "documented (present s1) ?msg"
      using law Inr att by (auto simp: documented_def to_message_def attached_def grows_def)
    note ins' = insert_loop_law [OF ins [unfolded insert_message_def] documented_settled [OF this]]
    with first1 have "present s2 = present s1 \<and> all_messages (documented (present s1)) (rows_of s2)"
      by (simp add: documents_first_def)
    then show ?thesis using law s' by (simp add: documents_first_def grows_def)
  qed
qed

lemma insert_each_law:
  "insert_each L M d content targets flags s = (res, s') \<Longrightarrow> documents_first s \<Longrightarrow> attached (drf_attachments d) s \<Longrightarrow>
     documents_first s'"
proof (induction targets arbitrary: flags s)
  case (Cons inbox rest)
  obtain t i where flags: "flags = (t, i)" by fastforce
  obtain r1 s1 where one: "insert_into_inbox L M d content inbox s = (r1, s1)" by fastforce
  note law = insert_into_inbox_law [OF one Cons.prems(2,3)]
  then have "attached (drf_attachments d) s1" using Cons.prems(3) by (auto simp: attached_def)
  then show ?case
    using Cons law one flags by (auto split: sum.splits action_error.splits)
qed simp

lemma ingest_into_targets_law:
  assumes "ingest_into_targets L mail M key event targets uuid m received s = (res, s')" and "documents_first s"
  shows "documents_first s'"
proof -
  obtain r1 s1 where f: "fetch_parse_and_extract L (ms_objects M) key uuid m s = (r1, s1)" by fastforce
  note law = fetch_law [OF f]
  note first1 = documents_first_grows [OF assms(2) conjunct1 [OF law]]
  show ?thesis
  proof (cases r1)
    case (Inl e)
    then show ?thesis using assms(1) f first1 by (simp add: ingest_into_targets_def act_then_def)
  next
    case (Inr triple)
    obtain parsed content metas where triple: "triple = (parsed, content, metas)" by (cases triple)
    let ?d = "draft_of mail key event m received (ms_now_ms M s1) parsed metas"
    let ?c = "content\<lparr>ct_verdicts := Some (verdicts_json (sin_receipt event))\<rparr>"
    obtain flags s2 where e: "insert_each L M ?d ?c targets (False, False) s1 = (flags, s2)" by fastforce
    have "s' = s2"
      using assms(1) f Inr triple e
      by (auto simp: ingest_into_targets_def act_then_def act_ok_def insert_into_all_targets_def
          split: prod.splits sum.splits if_splits)
    moreover have "attached metas s1" using law Inr triple by (simp add: attached_def)
    then have "attached (drf_attachments ?d) s1" by (simp add: draft_of_def)
    ultimately show ?thesis using insert_each_law [OF e first1] by simp
  qed
qed

subsection \<open>The inbox\<close>

lemma get_inbox_law:
  "get_inbox (ms_table M) inbox s = (res, s') \<Longrightarrow> documents_first s \<Longrightarrow> documents_first s'"
  using get_as_same [of inbox_of_item] by (auto simp: get_inbox_def same_def documents_first_def)

lemma message_exists_law:
  "message_exists (ms_table M) inbox m s = (res, s') \<Longrightarrow> documents_first s \<Longrightarrow> documents_first s'"
  by (auto simp: message_exists_def same_def documents_first_def ok_def elim!: try_io_cases dest!: get_as_same)

lemma ensure_inbox_law:
  assumes "ensure_inbox (ms_table M) inbox now s = (res, s')" and "documents_first s"
  shows "documents_first s'"
proof -
  obtain b i where item: "inbox_item inbox now = (b, i)" by fastforce
  obtain pres s1 where put: "tbl_put_if_absent (ms_table M) i s = (pres, s1)" by fastforce
  have "target (Put (snd (inbox_item inbox now)) CondNotExists) = Some (inbox_key inbox)"
    by (rule target_put) (simp_all add: inbox_item_def Let_def)
  then have "target (Put i CondNotExists) = Some (inbox_key inbox)" by (simp only: item snd_conv)
  then have "rows_of s1 = rows_of s \<or> rows_of s1 = (rows_of s)(inbox_key inbox \<mapsto> i)"
    using put_law [OF put] by auto
  then have "documents_first s1"
    using assms(2) table_put [OF put] by (auto simp: documents_first_def all_messages_def message_at_upd)
  moreover have "same s1 s'"
    using assms(1) item put
    by (auto simp: ensure_inbox_def same_def ok_def err_def elim!: try_io_cases
        split: put_outcome.splits option.splits dest!: get_as_same)
  ultimately show ?thesis by (simp add: same_def documents_first_def)
qed

end

section \<open>The whole handler\<close>

abbreviation app_stores :: "'w app \<Rightarrow> 'w mail_stores" where
  "app_stores A \<equiv> \<lparr>ms_table = app_table A, ms_objects = app_objects A, ms_now_ms = app_now_ms A\<rparr>"

lemma until_cases:
  assumes "until A by unseen op s = (a, s')"
  obtains (Dropped) "s' = s" "a = unseen"
    | (Polled) a' where "op (fst s) = (a', fst s')" "a = a' \<or> a = unseen"
  using assms by (cases s) (auto simp: until_def split: prod.splits if_splits)

text \<open>
  Cut off at a deadline the stores keep the same laws: a call without an answer is a failed call. What
  holds of every answer of an operation, and of no answer, holds of the operation cut off.
\<close>

lemma until_rule:
  assumes "until A by unseen op s = (a, s')"
    and "\<And>a' w'. op (fst s) = (a', w') \<Longrightarrow> Q a' w' \<and> Q unseen w'" and "Q unseen (fst s)"
  shows "Q a (fst s')"
  using assms(1) by (cases rule: until_cases) (use assms(2,3) in auto)

lemma until_table:
  assumes table: "mail_table (app_table A) rows_of (=)"
  shows "mail_table (table_until A by) (rows_of \<circ> fst) (=)"
proof
  fix k r s res s'
  assume "tbl_get (table_until A by) k r s = (res, s')"
  then show "\<exists>R. (rows_of \<circ> fst) s = R \<and> R = (rows_of \<circ> fst) s' \<and>
      (r = Consistent \<longrightarrow> (\<forall>found. res = Inr found \<longrightarrow> found = R k))"
    unfolding table_until_def table.select_convs o_apply
    by (rule until_rule) (use mail_table.get_law [OF table] in fastforce)+
next
  fix ks r s res s'
  assume "tbl_batch_get (table_until A by) ks r s = (res, s')"
  then show "(rows_of \<circ> fst) s = (rows_of \<circ> fst) s' \<and>
      (\<forall>found k. res = Inr found \<longrightarrow> r = Consistent \<longrightarrow> k \<in> List.set ks \<longrightarrow>
         (\<exists>R. (rows_of \<circ> fst) s = R \<and> R = (rows_of \<circ> fst) s' \<and> found k = R k))"
    unfolding table_until_def table.select_convs o_apply
    by (rule until_rule) (use mail_table.batch_get_law [OF table] in fastforce)+
next
  fix q s res s'
  assume "tbl_query (table_until A by) q s = (res, s')"
  then show "(rows_of \<circ> fst) s = (rows_of \<circ> fst) s'"
    unfolding table_until_def table.select_convs o_apply
    by (rule until_rule) (use mail_table.query_law [OF table] in fastforce)+
next
  fix i s res s'
  assume "tbl_put_if_absent (table_until A by) i s = (res, s')"
  then show "(rows_of \<circ> fst) s = (rows_of \<circ> fst) s' \<or> (\<exists>R k. (rows_of \<circ> fst) s = R \<and>
      target (Put i CondNotExists) = Some k \<and> R k = None \<and> R(k \<mapsto> i) = (rows_of \<circ> fst) s')"
    unfolding table_until_def table.select_convs o_apply
    by (rule until_rule) (use mail_table.put_law [OF table] in fastforce)+
next
  fix ops s res s'
  assume "tbl_transact (table_until A by) ops s = (res, s')"
  then show "(\<exists>R. (rows_of \<circ> fst) s = R \<and> txn_ok R ops \<and> txn_apply ops R = (rows_of \<circ> fst) s' \<and>
      (res = Inr Committed \<or> (\<exists>e. res = Inl e))) \<or>
    (\<exists>R. (rows_of \<circ> fst) s = R \<and> R = (rows_of \<circ> fst) s' \<and>
      ((\<exists>d. res = Inr (Cancelled d) \<and> (d = Retry \<or> d = KeyExists \<or> \<not> txn_ok R ops \<and> d = cancel_decision R ops)) \<or>
       (\<exists>e. res = Inl e)))"
    unfolding table_until_def table.select_convs o_apply
    by (rule until_rule) (auto dest!: mail_table.transact_law [OF table])
next
  fix n s
  obtain u s' where s': "until A by () (\<lambda>w. ((), tbl_pause (app_table A) n w)) s = (u, s')" by (metis surj_pair)
  then have "rows_of (fst s) = rows_of (fst s')" by (rule until_rule) (auto simp: mail_table.pause_law [OF table, symmetric])
  then show "(rows_of \<circ> fst) s = (rows_of \<circ> fst) (tbl_pause (table_until A by) n s)"
    using s' by (simp add: table_until_def)
qed simp_all

locale ingest_app = ingest_stores "app_stores A" rows_of present
  for A :: "'w app" and rows_of :: "'w \<Rightarrow> rows" and present :: "'w \<Rightarrow> string set"
begin

lemma paused: "rows_of (tbl_pause (app_table A) n w) = rows_of w" "present (tbl_pause (app_table A) n w) = present w"
  using pause_law [symmetric, of n w] table_pause [of n w] by simp_all

lemma until_stores: "ingest_stores (stores_until A by) (rows_of \<circ> fst) (present \<circ> fst)"
proof (intro ingest_stores.intro ingest_stores_axioms.intro)
  show "mail_table (ms_table (stores_until A by)) (rows_of \<circ> fst) (=)"
    using until_table [OF mail_table_axioms [unfolded mail_stores.select_convs]] by (simp add: stores_until_def)
next
  fix n s
  obtain u s' where s': "until A by () (\<lambda>w. ((), tbl_pause (app_table A) n w)) s = (u, s')" by (metis surj_pair)
  then have "present (fst s') = present (fst s)" by (rule until_rule) (auto simp: paused)
  then show "(present \<circ> fst) (tbl_pause (ms_table (stores_until A by)) n s) = (present \<circ> fst) s"
    using s' by (simp add: stores_until_def table_until_def)
qed (unfold stores_until_def table_until_def objects_until_def mail_stores.select_convs table.select_convs
    object_store.select_convs o_apply,
  (erule until_rule; fastforce dest: table_get [unfolded mail_stores.select_convs]
    table_batch_get [unfolded mail_stores.select_convs] table_put [unfolded mail_stores.select_convs]
    table_transact [unfolded mail_stores.select_convs] object_get [unfolded mail_stores.select_convs]
    object_head [unfolded mail_stores.select_convs] object_put [unfolded mail_stores.select_convs])+)

lemma resolve_recipients_law:
  "resolve_recipients A config recipients resolution w = (resolution', w') \<Longrightarrow> documents_first w \<Longrightarrow> documents_first w'"
proof (induction recipients arbitrary: resolution w)
  case (Cons address rest)
  obtain r1 w1 where one: "resolve_recipient A config address resolution w = (r1, w1)" by fastforce
  have "documents_first w1"
    using one Cons.prems(2)
    by (auto simp: resolve_recipient_def Let_def split: if_splits prod.splits sum.splits option.splits
        dest: get_inbox_law [simplified] ensure_inbox_law [simplified])
  with Cons one show ?case by simp
qed simp

lemma fresh_targets_law:
  "fresh_targets A inboxes m resolution w = (res, w') \<Longrightarrow> documents_first w \<Longrightarrow> documents_first w'"
proof (induction inboxes arbitrary: resolution w res)
  case (Cons inbox rest)
  obtain r1 w1 where one: "message_exists (app_table A) inbox m w = (r1, w1)" by fastforce
  have "documents_first w1" using message_exists_law [simplified] one Cons.prems(2) by blast
  with Cons one show ?case by (auto split: sum.splits prod.splits)
qed simp

lemma ingest_inbound_law:
  assumes "ingest_inbound L A event deadline ts w = (res, w')" and "documents_first w"
  shows "documents_first w'"
proof (cases "\<exists>config key received. app_mail A = Some config \<and> guarded_s3_pointer event config = Some key \<and>
    received_ms event ts = Some received")
  case False
  then show ?thesis using assms by (auto simp: ingest_inbound_def split: option.splits)
next
  case True
  then obtain config key received where early: "app_mail A = Some config" "guarded_s3_pointer event config = Some key"
    "received_ms event ts = Some received" by blast
  obtain r1 w1 where res1: "resolve_recipients A config (normalized_recipients (sin_receipt event)) no_resolution w = (r1, w1)"
    by fastforce
  note first1 = resolve_recipients_law [OF res1 assms(2)]
  let ?uuid = "inbound_message_id (al_ids L) (sml_message_id (sin_mail event)) received"
  let ?m = "message_id_of (al_ids L) ?uuid"
  obtain targets r2 w2 where fresh: "fresh_targets A (res_inboxes r1) ?m r1 w1 = ((targets, r2), w2)"
    by (metis surj_pair)
  note first2 = fresh_targets_law [OF fresh first1]
  let ?by = "app_instant A w2 + ((deadline - app_instant A w2) - DEADLINE_MARGIN)"
  obtain r3 w3 dropped where into: "ingest_into_targets L (app_mail A) (stores_until A ?by) key event targets ?uuid ?m received
    (w2, False) = (r3, w3, dropped)" by (metis surj_pair)
  have "documents_first w3"
    using ingest_stores.ingest_into_targets_law [OF until_stores into] first2
    by (simp add: ingest_stores.documents_first_def [OF until_stores] documents_first_def)
  then show ?thesis
    using assms(1) early res1 fresh into first1 first2
    by (auto simp: ingest_inbound_def Let_def split: if_splits sum.splits)
qed

end

section \<open>Against the fakes\<close>

definition fake_present :: "fake_world \<Rightarrow> string set" where
  "fake_present w = {k. fake_stored w k \<noteq> None}"

lemma fake_mail_frame: "on_mail m w = (res, w') \<Longrightarrow> fake_stored w' = fake_stored w"
  by (auto simp: on_mail_def fake_stored_def split: prod.splits)

interpretation fingest: ingest_app "fake_app config parse_spec write_to_vec url_parse" fake_rows fake_present
  for config parse_spec write_to_vec url_parse
proof (intro ingest_app.intro ingest_stores.intro ingest_stores_axioms.intro)
  show "mail_table (ms_table (app_stores (fake_app config parse_spec write_to_vec url_parse))) fake_rows (=)"
    by (simp add: fmem.mail_table_axioms)
qed (auto simp: fake_present_def fake_table_def fake_object_ops fake_get_object_def fake_head_object_def fake_put_object_if_absent_def
    count_down_def fo_seed_def fake_stored_def fo_get_def fake_rows_def on_mail_def
    split: option.splits prod.splits if_splits elim!: fo_injected.elims)

text \<open>
  The worlds a mailbox goes through that only receives: it starts empty, any number of deliveries and
  redeliveries are ingested, each with any outcome, and meanwhile clocks move, failures are scripted and
  objects are added.
\<close>

inductive receiving ::
  "(fake_world, 'm) api_libs \<Rightarrow> fake_world app \<Rightarrow> fake_world \<Rightarrow> bool" for L A where
  starts: "fake_rows w = Map.empty \<Longrightarrow> receiving L A w"
| ingests: "receiving L A w \<Longrightarrow> ingest_inbound L A event deadline ts w = (res, w') \<Longrightarrow> receiving L A w'"
| meanwhile: "receiving L A w \<Longrightarrow> fake_rows w' = fake_rows w \<Longrightarrow> (\<And>k. fake_stored w k \<noteq> None \<Longrightarrow> fake_stored w' k \<noteq> None)
    \<Longrightarrow> receiving L A w'"

text \<open>
  C21. No message is there before its documents: whatever fails, and wherever the deadline cuts an ingest off,
  every received message that a row holds has its content document and every attachment it names in the
  bucket.
\<close>

theorem documents_before_rows:
  assumes "receiving L (fake_app config parse_spec write_to_vec url_parse) w"
    and "message_at (fake_rows w) i m = Some msg" and "msg_direction msg = Inbound"
  shows "fake_stored w (content_object (msg_inbox_id msg) (message_id_str (msg_message_id msg))) \<noteq> None \<and>
    (\<forall>a \<in> set (msg_attachments msg). \<forall>k. att_object_key a = Some k \<longrightarrow> fake_stored w k \<noteq> None)"
proof -
  have "fingest.documents_first w"
    using assms(1)
  proof induction
    case (starts w)
    then show ?case by (simp add: fingest.documents_first_def all_messages_def message_at_def)
  next
    case (ingests w event deadline ts res w')
    show ?case by (rule fingest.ingest_inbound_law [OF ingests(2,3)])
  next
    case (meanwhile w w')
    have "fingest.grows w w'" using meanwhile(2,3) by (auto simp: fingest.grows_def fake_present_def)
    with meanwhile.IH show ?case by (rule fingest.documents_first_grows)
  qed
  with assms(2,3) show ?thesis by (auto simp: fingest.documents_first_def all_messages_def documented_def fake_present_def)
qed

end
