(* ===== verification/Ingested.thy ===== *)
theory Ingested
  imports Arrivals
begin

text \<open>
  From a receipt to the inbox: over stores that answer, a message that is new is ingested with its
  documents, and delivering it again changes nothing.
\<close>

section \<open>What an ingest adds\<close>

text \<open>The attachments by the key they are stored under.\<close>

definition part_kv :: "message_id \<Rightarrow> kept_part \<Rightarrow> string \<times> bytes" where
  "part_kv m part = (attachment_object (message_id_str m) (fst part), pa_bytes (snd part))"

definition parts_of :: "('w, 'm) api_libs \<Rightarrow> uuid \<Rightarrow> message_id \<Rightarrow> parsed_inbound \<Rightarrow> (string \<times> bytes) list" where
  "parts_of L uuid m parsed = map (part_kv m) (kept_parts L uuid parsed)"

text \<open>What an insert of a new message leaves: its row with its thread, and the rest of a good table.\<close>

definition arrived :: "(string \<Rightarrow> 'm option) \<Rightarrow> mail_message \<Rightarrow> string list \<Rightarrow> rows \<Rightarrow> rows \<Rightarrow> bool" where
  "arrived pp msg candidates R R' \<longleftrightarrow>
     (let msg' = joined R msg candidates;
          after = thread_for pp msg' (thread_at R (msg_inbox_id msg) (msg_thread_id msg'))
      in table_wf pp R' \<and> message_at R' (msg_inbox_id msg) (msg_message_id msg) = Some (stored_message msg' after) \<and>
         thread_at R' (msg_inbox_id msg) (msg_thread_id msg') = Some after \<and>
         (\<forall>i. R' (inbox_key i) = R (inbox_key i)))"

section \<open>Stores that answer\<close>

locale quiet_stores =
  quiet_table "ms_table M" rows_of "(=)" quiet +
  bucket: healthy_bucket "ms_objects M" stored quiet rows_of
  for M :: "'s mail_stores" and rows_of :: "'s \<Rightarrow> rows" and quiet and stored +
  assumes get_stored: "tbl_get (ms_table M) k r s = (gres, s') \<Longrightarrow> stored s' = stored s"
    and batch_get_stored: "tbl_batch_get (ms_table M) ks r s = (bres, s') \<Longrightarrow> stored s' = stored s"
    and put_stored: "tbl_put_if_absent (ms_table M) i s = (pres, s') \<Longrightarrow> stored s' = stored s"
    and transact_stored: "tbl_transact (ms_table M) ops s = (tres, s') \<Longrightarrow> stored s' = stored s"
    and pause_stored: "stored (tbl_pause (ms_table M) n s) = stored s"
    and head_law: "quiet s \<Longrightarrow> \<exists>found s'. obj_head (ms_objects M) key s = (Inr found, s') \<and>
      (found = None \<longleftrightarrow> stored s key = None) \<and> stored s' = stored s \<and> rows_of s' = rows_of s \<and> quiet s'"
begin

text \<open>A run that answers, keeps the rows and only adds objects.\<close>

definition adds :: "('s, 'a) action \<Rightarrow> 's \<Rightarrow> 'a \<Rightarrow> (string \<times> bytes) list \<Rightarrow> bool" where
  "adds m s a kvs \<longleftrightarrow> (\<exists>s'. m s = (Inr a, s') \<and> quiet s' \<and> rows_of s' = rows_of s \<and> stored s' = bucket.put_all kvs (stored s))"

lemma addsE:
  assumes "adds m s a kvs"
  obtains s' where "m s = (Inr a, s')" "quiet s'" "rows_of s' = rows_of s" "stored s' = bucket.put_all kvs (stored s)"
  using assms unfolding adds_def by blast

lemma put_all_append: "bucket.put_all (xs @ ys) m = bucket.put_all ys (bucket.put_all xs m)"
  by (simp add: bucket.put_all_def)

lemma put_all_Nil: "bucket.put_all [] m = m"
  by (simp add: bucket.put_all_def)

lemma adds_ok: "quiet s \<Longrightarrow> adds (act_ok a) s a []"
  by (simp add: adds_def act_ok_def put_all_Nil)

lemma adds_then:
  assumes "adds m s a kvs" and "\<And>s'. quiet s' \<Longrightarrow> rows_of s' = rows_of s \<Longrightarrow> stored s' = bucket.put_all kvs (stored s) \<Longrightarrow>
    adds (k a) s' b kvs'"
  shows "adds (act_then m k) s b (kvs @ kvs')"
  using assms(1)
proof (rule addsE)
  fix s' assume s': "m s = (Inr a, s')" "quiet s'" "rows_of s' = rows_of s" "stored s' = bucket.put_all kvs (stored s)"
  from assms(2) [OF s'(2-4)] s' show ?thesis
    unfolding adds_def by (auto simp: act_then_def put_all_append)
qed

lemma adds_join:
  assumes "adds f s () kvs" and "\<And>s'. quiet s' \<Longrightarrow> adds g s' () kvs'"
  shows "adds (act_join f g) s () (kvs @ kvs')"
  using assms(1)
proof (rule addsE)
  fix s' assume s': "f s = (Inr (), s')" "quiet s'" "rows_of s' = rows_of s" "stored s' = bucket.put_all kvs (stored s)"
  from assms(2) [OF s'(2)] s' show ?thesis
    unfolding adds_def by (auto simp: act_join_def put_all_append)
qed

subsection \<open>Attachments\<close>

lemma put_one_run: "quiet s \<Longrightarrow> adds (put_one (ms_objects M) m part) s () [part_kv m part]"
  using bucket.put_law [of s "attachment_object (message_id_str m) (fst part)" "pa_bytes (snd part)" "pa_content_type (snd part)"]
  by (auto simp: adds_def put_one_def act_then_def object_action_def act_ok_def part_kv_def bucket.put_all_def)

lemma put_chunk_run: "quiet s \<Longrightarrow> length chunk \<le> 4 \<Longrightarrow>
  adds (put_chunk (ms_objects M) m chunk) s () (map (part_kv m) chunk)"
proof (induction "ms_objects M" m chunk rule: put_chunk.induct)
  case (1 m)
  then show ?case using adds_ok by simp
next
  case (2 m a)
  then show ?case using put_one_run by simp
next
  case (3 m a b)
  then have "adds (act_join (put_one (ms_objects M) m a) (put_one (ms_objects M) m b)) s ()
      ([part_kv m a] @ [part_kv m b])"
    by (intro adds_join put_one_run)
  then show ?case by simp
next
  case (4 m a b c)
  then have "adds (act_join (act_join (put_one (ms_objects M) m a) (put_one (ms_objects M) m b)) (put_one (ms_objects M) m c))
      s () (([part_kv m a] @ [part_kv m b]) @ [part_kv m c])"
    by (intro adds_join put_one_run)
  then show ?case by simp
next
  case (5 m a b c d rest)
  then have "adds (act_join (act_join (act_join (put_one (ms_objects M) m a) (put_one (ms_objects M) m b))
      (put_one (ms_objects M) m c)) (put_one (ms_objects M) m d))
      s () ((([part_kv m a] @ [part_kv m b]) @ [part_kv m c]) @ [part_kv m d])"
    by (intro adds_join put_one_run)
  with 5(2) show ?case by simp
qed

lemma put_chunks_run: "quiet s \<Longrightarrow> \<forall>c \<in> set chunks. length c \<le> 4 \<Longrightarrow>
  adds (put_chunks (ms_objects M) m chunks) s () (map (part_kv m) (concat chunks))"
proof (induction chunks arbitrary: s)
  case Nil
  then show ?case using adds_ok by simp
next
  case (Cons c cs)
  have "adds (act_then (put_chunk (ms_objects M) m c) (\<lambda>_. put_chunks (ms_objects M) m cs)) s ()
      (map (part_kv m) c @ map (part_kv m) (concat cs))"
    using Cons by (intro adds_then [OF put_chunk_run]) auto
  then show ?case by simp
qed

lemma headE:
  assumes "quiet s"
  obtains found s' where "obj_head (ms_objects M) key s = (Inr found, s')" "found = None \<longleftrightarrow> stored s key = None"
    "stored s' = stored s" "rows_of s' = rows_of s" "quiet s'"
  using head_law [OF assms, of key] by (elim exE conjE) (rule that)

definition missing :: "(string \<Rightarrow> bytes option) \<Rightarrow> message_id \<Rightarrow> kept_part list \<Rightarrow> kept_part list" where
  "missing st m parts = filter (\<lambda>p. st (fst (part_kv m p)) = None) parts"

lemma absent_parts_run: "quiet s \<Longrightarrow> adds (absent_parts (ms_objects M) m parts) s (missing (stored s) m parts) []"
proof (induction parts arbitrary: s)
  case Nil
  then show ?case using adds_ok by (simp add: missing_def)
next
  case (Cons part parts)
  obtain found s1 where head: "obj_head (ms_objects M) (fst (part_kv m part)) s = (Inr found, s1)"
    "found = None \<longleftrightarrow> stored s (fst (part_kv m part)) = None" "stored s1 = stored s" "rows_of s1 = rows_of s" "quiet s1"
    by (rule headE [OF Cons.prems])
  from Cons.IH [OF head(5)] obtain s2 where "absent_parts (ms_objects M) m parts s1 = (Inr (missing (stored s) m parts), s2)"
    "quiet s2" "rows_of s2 = rows_of s1" "stored s2 = stored s1"
    by (rule addsE) (simp add: head(3) put_all_Nil)
  with head show ?case
    by (auto simp: adds_def act_then_def object_action_def act_ok_def part_kv_def missing_def put_all_Nil)
qed

lemma put_all_missing:
  "(\<And>k. st k \<noteq> None \<Longrightarrow> m k \<noteq> None) \<Longrightarrow>
     bucket.put_all (filter (\<lambda>(k, _). st k = None) kvs) m = bucket.put_all kvs m"
proof (induction kvs arbitrary: m)
  case (Cons kv kvs)
  obtain k v where kv: "kv = (k, v)" by force
  let ?m = "if m k = None then m(k \<mapsto> v) else m"
  have "bucket.put_all (filter (\<lambda>(k, _). st k = None) kvs) ?m = bucket.put_all kvs ?m"
    using Cons.prems by (intro Cons.IH) auto
  moreover have "st k \<noteq> None \<Longrightarrow> ?m = m" using Cons.prems [of k] by auto
  ultimately show ?case by (auto simp: kv bucket.put_all_def)
qed simp

lemma put_kept_parts_run:
  assumes "quiet s"
  shows "adds (put_kept_parts (ms_objects M) m parts) s () (map (part_kv m) (missing (stored s) m parts)) \<or>
    adds (put_kept_parts (ms_objects M) m parts) s () (map (part_kv m) parts)"
proof (cases "parts = []")
  case True
  then show ?thesis using adds_ok [OF assms] by (simp add: put_kept_parts_def missing_def)
next
  case False
  obtain found s1 where head: "obj_head (ms_objects M) (fst (part_kv m (hd parts))) s = (Inr found, s1)"
    "stored s1 = stored s" "rows_of s1 = rows_of s" "quiet s1"
    by (rule headE [OF assms])
  have puts: "adds (put_chunks (ms_objects M) m (chunks_of 4 ps)) s' () (map (part_kv m) ps)" if "quiet s'" for ps s'
    using put_chunks_run [OF that, of "chunks_of 4 ps" m] chunks_of_parts [of 4 ps] by simp
  have filtered: "adds (resume_filtered (ms_objects M) m parts) s (if found = None then parts else missing (stored s) m parts) []"
    using head absent_parts_run [OF head(4), of m parts]
    by (auto simp: resume_filtered_def act_then_def object_action_def act_ok_def part_kv_def adds_def put_all_Nil)
  have "adds (act_then (resume_filtered (ms_objects M) m parts) (\<lambda>to_put. put_chunks (ms_objects M) m (chunks_of 4 to_put))) s ()
      ([] @ map (part_kv m) (if found = None then parts else missing (stored s) m parts))"
    by (rule adds_then [OF filtered puts])
  then have "adds (put_kept_parts (ms_objects M) m parts) s ()
      (map (part_kv m) (if found = None then parts else missing (stored s) m parts))"
    using False by (simp only: put_kept_parts_def if_False append_Nil)
  then show ?thesis by (cases "found = None") auto
qed

lemma put_kept_parts_stored:
  assumes "quiet s"
  shows "adds (put_kept_parts (ms_objects M) m parts) s () (map (part_kv m) parts)"
proof -
  have "map (part_kv m) (missing st m parts) = filter (\<lambda>(k, _). st k = None) (map (part_kv m) parts)" for st
    by (induction parts) (auto simp: missing_def part_kv_def)
  then have "bucket.put_all (map (part_kv m) (missing (stored s) m parts)) (stored s) = bucket.put_all (map (part_kv m) parts) (stored s)"
    using put_all_missing [of "stored s" "stored s"] by simp
  with put_kept_parts_run [OF assms, of m parts] show ?thesis unfolding adds_def by auto
qed

lemma fetch_run:
  assumes "quiet s" and "stored s key = Some raw" and "len_u64 raw \<le> MAX_INBOUND_RAW_BYTES"
    and "parse_inbound (al_mime L) raw = Some parsed"
  shows "adds (fetch_parse_and_extract L (ms_objects M) key uuid m) s
    (pi_message parsed, pi_content parsed, map (meta_of_part m) (kept_parts L uuid parsed)) (parts_of L uuid m parsed)"
proof -
  obtain s1 where get: "obj_get (ms_objects M) key MAX_INBOUND_RAW_BYTES s = (Inr raw, s1)" "stored s1 = stored s" "quiet s1"
    "rows_of s1 = rows_of s"
    using bucket.get_there [OF assms(1-3)] by blast
  from put_kept_parts_stored [OF get(3), of m "kept_parts L uuid parsed"] obtain s2 where
    "put_kept_parts (ms_objects M) m (kept_parts L uuid parsed) s1 = (Inr (), s2)" "quiet s2" "rows_of s2 = rows_of s1"
    "stored s2 = bucket.put_all (parts_of L uuid m parsed) (stored s1)"
    by (rule addsE) (simp add: parts_of_def)
  with get assms(4) show ?thesis
    by (auto simp: adds_def fetch_parse_and_extract_def act_then_def object_action_def act_ok_def Let_def)
qed

end

section \<open>The insert\<close>

sublocale quiet_stores \<subseteq> frame: table_frame "ms_table M" stored
  by unfold_locales (auto intro: get_stored [OF prod.collapse [symmetric]]
      transact_stored [OF prod.collapse [symmetric]] pause_stored)

context quiet_stores
begin

lemma silent_read_aliases: "frame.silent (read_aliases (ms_table M) i ids)"
proof -
  have "frame.silent (tbl_batch_get (ms_table M) ks r)" for ks r
    by (auto simp: frame.silent_def intro: batch_get_stored [OF prod.collapse [symmetric]])
  then show ?thesis
    unfolding read_aliases_def batch_get_as_def
    by (cases "ids = []") (auto intro!: frame.silent_try_io)
qed

lemma silent_insert_loop: "frame.silent (insert_loop pp (ms_table M) tid msg candidates as)"
  by (induction as arbitrary: msg)
    (auto intro!: frame.silent_try_io frame.silent_paused silent_read_aliases simp: Let_def
      split: txn_outcome.split txn_decision.split)

lemma insert_new_run:
  assumes quiet: "quiet s" and wf: "table_wf pp (rows_of s)" and msg: "message_ok msg" and cands: "candidates_ok msg candidates"
    and new: "rows_of s (message_key (msg_inbox_id msg) (msg_message_id msg)) = None"
  obtains s' where "insert_message pp (ms_table M) msg candidates s = (Inr FreshInsert, s')" "quiet s'"
    "stored s' = stored s" "arrived pp msg candidates (rows_of s) (rows_of s')"
proof -
  let ?R = "rows_of s"
  let ?msg = "joined ?R msg candidates"
  let ?before = "thread_at ?R (msg_inbox_id msg) (msg_thread_id ?msg)"
  let ?after = "thread_for pp ?msg ?before"
  let ?ops = "plan_insert ?msg ?before ?after (aliases_of ?R (msg_inbox_id msg) candidates)"
  obtain s' where run: "insert_message pp (ms_table M) msg candidates s = (Inr FreshInsert, s')"
    "rows_of s' = txn_apply ?ops ?R" "quiet s'"
    using quiet_insert [OF quiet wf msg cands] new by auto
  have cands': "candidates_ok ?msg candidates" using cands by (simp add: candidates_ok_def)
  have msg': "message_ok ?msg" using msg by (simp add: message_ok_def)
  have ok: "txn_ok ?R ?ops" using insert_commits [OF wf msg' cands' _ refl] new by simp
  have threads: "threads_wf pp ?R" using wf by (simp add: table_wf_def)
  have "thread_read ?R (msg_inbox_id ?msg) (msg_thread_id ?msg) ?before"
    by (rule thread_for_versioned(1) [OF threads]) simp
  from mail_step_keeps_wf [OF step_insert [OF msg' this refl ok] wf]
  have wf': "table_wf pp (rows_of s')" by (simp add: run(2))
  obtain as where plan: "?ops = put_message (stored_message ?msg ?after) CondNotExists #
      put_thread ?after (versioned (map_option thr_version ?before)) # as"
    and as: "list_all (alias_op_for ?msg) as" by (rule insert_shape)
  from thread_for_ok(1,2) [OF threads thread_for_versioned(1) [OF threads, of _ ?msg], of ?before]
  have th: "thr_inbox_id ?after = msg_inbox_id msg" "thr_thread_id ?after = msg_thread_id ?msg" by simp_all
  have "message_at (rows_of s') (msg_inbox_id msg) (msg_message_id msg) = Some (stored_message ?msg ?after)"
    "thread_at (rows_of s') (msg_inbox_id msg) (msg_thread_id ?msg) = Some ?after"
    unfolding run(2) plan by (simp_all add: aliases_at [OF as] message_at_upd thread_at_upd th)
  moreover have "rows_of s' (inbox_key i) = ?R (inbox_key i)" for i
    unfolding run(2) plan using alias_frame [OF as] by simp
  ultimately have "arrived pp msg candidates ?R (rows_of s')" using wf' by (simp add: arrived_def Let_def)
  moreover have "stored s' = stored s"
    using frame.silentD [OF silent_insert_loop run(1) [unfolded insert_message_def]] .
  ultimately show thesis using run(1,3) that by blast
qed

lemma insert_into_inbox_run:
  assumes quiet: "quiet s" and wf: "table_wf (al_participant L) (rows_of s)" and inbox: "plain_inbox inbox"
    and sorted: "strictly_sorted (drf_labels d)"
    and cands: "candidates_ok (to_message d inbox) (ingest_candidates (to_message d inbox) content)"
    and body: "serialize_within (al_content_to_vec L) content MAX_CONTENT_BYTES = Some (body, dropped)"
    and new: "rows_of s (message_key inbox (drf_message_id d)) = None"
  obtains s' where "insert_into_inbox L M d content inbox s = (Inr (), s')" "quiet s'"
    "stored s' = bucket.put_all [(content_object inbox (message_id_str (drf_message_id d)), body)] (stored s)"
    "arrived (al_participant L) (to_message d inbox) (ingest_candidates (to_message d inbox) content) (rows_of s) (rows_of s')"
proof -
  let ?msg = "to_message d inbox"
  obtain s1 where st: "store_content (al_content_to_vec L) (ms_objects M) inbox (drf_message_id d) content s = (Inr (), s1)"
    "quiet s1" "rows_of s1 = rows_of s"
    "stored s1 = bucket.put_all [(content_object inbox (message_id_str (drf_message_id d)), body)] (stored s)"
    using bucket.store_content_run [OF quiet body] by blast
  have msg: "message_ok ?msg" using inbox sorted by (simp add: message_ok_def to_message_def)
  have new1: "rows_of s1 (message_key (msg_inbox_id ?msg) (msg_message_id ?msg)) = None"
    using new by (simp add: st(3) to_message_def)
  obtain s2 where "insert_message (al_participant L) (ms_table M) ?msg (ingest_candidates ?msg content) s1 = (Inr FreshInsert, s2)"
    "quiet s2" "stored s2 = stored s1" "arrived (al_participant L) ?msg (ingest_candidates ?msg content) (rows_of s1) (rows_of s2)"
    by (rule insert_new_run [OF st(2) _ msg cands new1]) (use wf in \<open>auto simp: st(3)\<close>)
  with st show thesis
    by (intro that [of s2])
      (auto simp: insert_into_inbox_def Let_def act_then_def object_action_def store_action_def act_ok_def)
qed

lemma ingest_into_inbox_run:
  assumes quiet: "quiet s" and wf: "table_wf (al_participant L) (rows_of s)" and inbox: "plain_inbox inbox"
    and raw: "stored s key = Some raw" "len_u64 raw \<le> MAX_INBOUND_RAW_BYTES" "parse_inbound (al_mime L) raw = Some parsed"
    and draft: "\<And>now. d now = draft_of mail key event m received now (pi_message parsed)
      (map (meta_of_part m) (kept_parts L uuid parsed))"
    and content: "content = (pi_content parsed)\<lparr>ct_verdicts := Some (verdicts_json (sin_receipt event))\<rparr>"
    and cands: "\<And>now. candidates_ok (to_message (d now) inbox) (ingest_candidates (to_message (d now) inbox) content)"
    and body: "serialize_within (al_content_to_vec L) content MAX_CONTENT_BYTES = Some (body, dropped)"
    and new: "rows_of s (message_key inbox m) = None"
  obtains s' now where "ingest_into_targets L mail M key event [inbox] uuid m received s = (Inr Ingested, s')" "quiet s'"
    "stored s' = bucket.put_all (parts_of L uuid m parsed @ [(content_object inbox (message_id_str m), body)]) (stored s)"
    "arrived (al_participant L) (to_message (d now) inbox) (ingest_candidates (to_message (d now) inbox) content) (rows_of s) (rows_of s')"
proof -
  obtain s1 where f: "fetch_parse_and_extract L (ms_objects M) key uuid m s =
      (Inr (pi_message parsed, pi_content parsed, map (meta_of_part m) (kept_parts L uuid parsed)), s1)"
    "quiet s1" "rows_of s1 = rows_of s" "stored s1 = bucket.put_all (parts_of L uuid m parsed) (stored s)"
    using fetch_run [OF quiet raw, of uuid m] by (rule addsE)
  let ?d = "d (ms_now_ms M s1)"
  have m: "drf_message_id ?d = m" by (simp add: draft draft_of_def)
  have sorted: "strictly_sorted (drf_labels ?d)"
  proof -
    have labels: "drf_labels ?d = verdict_labels (classify_inbound (is_quarantined (sin_receipt event)) (auth_failed (sin_receipt event)))"
      by (simp add: draft draft_of_def)
    show ?thesis unfolding labels by (auto simp: verdict_labels_def classify_inbound_def) 
  qed
  obtain s2 where "insert_into_inbox L M ?d content inbox s1 = (Inr (), s2)" "quiet s2"
    "stored s2 = bucket.put_all [(content_object inbox (message_id_str m), body)] (stored s1)"
    "arrived (al_participant L) (to_message ?d inbox) (ingest_candidates (to_message ?d inbox) content) (rows_of s1) (rows_of s2)"
    by (rule insert_into_inbox_run [OF f(2) _ inbox sorted cands body, unfolded m])
      (use wf new in \<open>auto simp: f(3)\<close>)
  with f show thesis
    by (intro that [of s2 "ms_now_ms M s1"])
      (auto simp: ingest_into_targets_def act_then_def act_ok_def insert_into_all_targets_def put_all_append draft content)
qed

end

section \<open>The whole handler\<close>

lemma first_seen_distinct: "distinct (first_seen seen xs) \<and> set (first_seen seen xs) \<inter> set seen = {}"
  by (induction seen xs rule: first_seen.induct) auto

lemma distinct_recipients: "distinct (normalized_recipients receipt)"
  using first_seen_distinct by (simp add: normalized_recipients_def)

definition inbox_ready :: "inbox_id \<Rightarrow> rows \<Rightarrow> bool" where
  "inbox_ready inbox R \<longleftrightarrow> (\<exists>it b. R (inbox_key inbox) = Some it \<and> inbox_of_item it = Some b)"

text \<open>The inbox is there and reads back, or it is made.\<close>

definition inbox_made :: "inbox_id \<Rightarrow> rows \<Rightarrow> rows \<Rightarrow> bool" where
  "inbox_made inbox R R' \<longleftrightarrow> inbox_ready inbox R \<and> R' = R \<or>
     (\<exists>now. R (inbox_key inbox) = None \<and> R' = R(inbox_key inbox \<mapsto> snd (inbox_item inbox now)))"

lemma inbox_made_ready: "inbox_made inbox R R' \<Longrightarrow> inbox_ready inbox R'"
  by (auto simp: inbox_made_def inbox_ready_def inbox_item_reads)

lemma inbox_made_wf: "inbox_made inbox R R' \<Longrightarrow> table_wf pp R \<Longrightarrow> table_wf pp R'"
  unfolding inbox_made_def by (auto intro: mail_step_keeps_wf [OF step_inbox])

lemma inbox_made_messages: "inbox_made inbox R R' \<Longrightarrow> R' (message_key i m) = R (message_key i m)"
  by (auto simp: inbox_made_def)

text \<open>What a receipt must say for the handler to reach the bucket, and the message id it then stands for.\<close>

definition receipt_resolves ::
  "('l, 'm) api_libs \<Rightarrow> mail_config \<Rightarrow> ses_inbound_notification \<Rightarrow> u64 option \<Rightarrow> string \<Rightarrow> u64 \<Rightarrow> uuid \<Rightarrow> message_id \<Rightarrow> bool" where
  "receipt_resolves L config event ts key received uuid m \<longleftrightarrow>
     guarded_s3_pointer event config = Some key \<and> received_ms event ts = Some received \<and>
     inbox_str (mc_inbox config) \<in> set (normalized_recipients (sin_receipt event)) \<and>
     inbox_new (inbox_str (mc_inbox config)) = mc_inbox config \<and>
     uuid = inbound_message_id (al_ids L) (sml_message_id (sin_mail event)) received \<and>
     m = message_id_of (al_ids L) uuid"

locale prompt_app = quiet_stores "app_stores A" rows_of quiet stored
  for A :: "'w app" and rows_of :: "'w \<Rightarrow> rows" and quiet and stored +
  assumes prompt: "quiet w \<Longrightarrow> \<not> app_elapsed A by w"
begin

lemma until_run:
  assumes "op w = (a, w')" and "quiet w'"
  shows "until A by unseen op (w, False) = (a, (w', False))"
  using assms prompt by (simp add: until_def)

abbreviation undropped :: "'w \<times> bool \<Rightarrow> bool" where
  "undropped s \<equiv> quiet (fst s) \<and> \<not> snd s"

lemma until_quiet_table: "quiet_table (table_until A by) (rows_of \<circ> fst) (=) undropped"
proof (intro quiet_table.intro quiet_table_axioms.intro)
  show "mail_table (table_until A by) (rows_of \<circ> fst) (=)"
    by (rule until_table [OF mail_table_axioms [unfolded mail_stores.select_convs]])
next
  fix s :: "'w \<times> bool" and k r
  assume s: "undropped s"
  from quiet_get [unfolded mail_stores.select_convs, OF conjunct1 [OF s], of k r]
  show "\<exists>s'. tbl_get (table_until A by) k r s = (Inr ((rows_of \<circ> fst) s k), s') \<and>
      (rows_of \<circ> fst) s' = (rows_of \<circ> fst) s \<and> undropped s'"
    using s by (cases s) (auto simp: table_until_def until_run)
next
  fix s :: "'w \<times> bool" and ks r
  assume s: "undropped s"
  then obtain w where w: "s = (w, False)" "quiet w" by (cases s) auto
  from quiet_batch_get [unfolded mail_stores.select_convs, OF w(2), of ks r]
  show "\<exists>s'. tbl_batch_get (table_until A by) ks r s =
      (Inr (\<lambda>k. if k \<in> List.set ks then (rows_of \<circ> fst) s k else None), s') \<and>
      (rows_of \<circ> fst) s' = (rows_of \<circ> fst) s \<and> undropped s'"
    unfolding w(1) o_apply fst_conv by (auto simp: table_until_def until_run)
next
  fix s :: "'w \<times> bool" and i k
  assume s: "undropped s" and k: "target (Put i CondNotExists) = Some k"
  from quiet_put [unfolded mail_stores.select_convs, OF conjunct1 [OF s] k]
  show "\<exists>s'. tbl_put_if_absent (table_until A by) i s =
      (Inr (if (rows_of \<circ> fst) s k = None then Created else AlreadyExists), s') \<and>
      (rows_of \<circ> fst) s' = (if (rows_of \<circ> fst) s k = None then ((rows_of \<circ> fst) s)(k \<mapsto> i) else (rows_of \<circ> fst) s) \<and>
      undropped s'"
    using s by (cases s) (auto simp: table_until_def until_run)
next
  fix s :: "'w \<times> bool" and ops
  assume s: "undropped s"
  from quiet_transact [unfolded mail_stores.select_convs, OF conjunct1 [OF s], of ops]
  show "\<exists>s'. tbl_transact (table_until A by) ops s =
      (Inr (if txn_ok ((rows_of \<circ> fst) s) ops then Committed
            else Cancelled (cancel_decision ((rows_of \<circ> fst) s) ops)), s') \<and>
      (rows_of \<circ> fst) s' = (if txn_ok ((rows_of \<circ> fst) s) ops then txn_apply ops ((rows_of \<circ> fst) s) else (rows_of \<circ> fst) s) \<and>
      undropped s'"
    using s by (cases s) (auto simp: table_until_def until_run)
next
  fix s :: "'w \<times> bool" and n
  assume s: "undropped s"
  from quiet_pause [unfolded mail_stores.select_convs, OF conjunct1 [OF s], of n]
  show "(rows_of \<circ> fst) (tbl_pause (table_until A by) n s) = (rows_of \<circ> fst) s \<and> undropped (tbl_pause (table_until A by) n s)"
    using s by (cases s) (auto simp: table_until_def until_run)
qed

lemma until_bucket: "healthy_bucket (objects_until A by) (stored \<circ> fst) undropped (rows_of \<circ> fst)"
proof
  fix s :: "'w \<times> bool" and key body ct
  assume s: "undropped s"
  from bucket.put_law [unfolded mail_stores.select_convs, OF conjunct1 [OF s], of key body ct]
  show "\<exists>s'. obj_put_if_absent (objects_until A by) key body ct s =
      (Inr (if (stored \<circ> fst) s key = None then Created else AlreadyExists), s') \<and>
      (stored \<circ> fst) s' = (if (stored \<circ> fst) s key = None then ((stored \<circ> fst) s)(key \<mapsto> body) else (stored \<circ> fst) s) \<and>
      undropped s' \<and> (rows_of \<circ> fst) s' = (rows_of \<circ> fst) s"
    using s by (cases s) (auto simp: objects_until_def until_run)
next
  fix s :: "'w \<times> bool" and key b limit
  assume s: "undropped s" and b: "(stored \<circ> fst) s key = Some b" and len: "len_u64 b \<le> limit"
  from bucket.get_there [unfolded mail_stores.select_convs, OF conjunct1 [OF s] _ len, of key] b
  show "\<exists>s'. obj_get (objects_until A by) key limit s = (Inr b, s') \<and> (stored \<circ> fst) s' = (stored \<circ> fst) s \<and>
      undropped s' \<and> (rows_of \<circ> fst) s' = (rows_of \<circ> fst) s"
    using s by (cases s) (auto simp: objects_until_def until_run)
next
  fix s :: "'w \<times> bool" and key limit
  assume s: "undropped s" and none: "(stored \<circ> fst) s key = None"
  from bucket.get_missing [unfolded mail_stores.select_convs, OF conjunct1 [OF s], of key limit] none
  show "\<exists>s'. obj_get (objects_until A by) key limit s = (Inl ObjNotFound, s') \<and> (stored \<circ> fst) s' = (stored \<circ> fst) s \<and>
      undropped s' \<and> (rows_of \<circ> fst) s' = (rows_of \<circ> fst) s"
    using s by (cases s) (auto simp: objects_until_def until_run)
next
  fix s :: "'w \<times> bool" and key
  assume s: "undropped s"
  from bucket.delete_law [unfolded mail_stores.select_convs, OF conjunct1 [OF s], of key]
  show "\<exists>s'. obj_delete (objects_until A by) key s = (Inr (), s') \<and>
      (stored \<circ> fst) s' = ((stored \<circ> fst) s)(key := None) \<and> undropped s' \<and> (rows_of \<circ> fst) s' = (rows_of \<circ> fst) s"
    using s by (cases s) (auto simp: objects_until_def until_run)
qed

lemma until_quiet: "quiet_stores (stores_until A by) (rows_of \<circ> fst) undropped (stored \<circ> fst)"
proof (intro quiet_stores.intro quiet_stores_axioms.intro)
  show "quiet_table (ms_table (stores_until A by)) (rows_of \<circ> fst) (=) undropped"
    using until_quiet_table by (simp add: stores_until_def)
  show "healthy_bucket (ms_objects (stores_until A by)) (stored \<circ> fst) undropped (rows_of \<circ> fst)"
    using until_bucket by (simp add: stores_until_def)
next
  fix s :: "'w \<times> bool" and key
  assume s: "undropped s"
  from head_law [unfolded mail_stores.select_convs, OF conjunct1 [OF s], of key]
  show "\<exists>found s'. obj_head (ms_objects (stores_until A by)) key s = (Inr found, s') \<and>
      (found = None \<longleftrightarrow> (stored \<circ> fst) s key = None) \<and> (stored \<circ> fst) s' = (stored \<circ> fst) s \<and>
      (rows_of \<circ> fst) s' = (rows_of \<circ> fst) s \<and> undropped s'"
    using s by (cases s) (auto simp: stores_until_def objects_until_def until_run)
next
  fix n s
  obtain u s' where s': "until A by () (\<lambda>w. ((), tbl_pause (app_table A) n w)) s = (u, s')" by (metis surj_pair)
  then have "stored (fst s') = stored (fst s)"
    by (rule until_rule) (use pause_stored in auto)
  then show "(stored \<circ> fst) (tbl_pause (ms_table (stores_until A by)) n s) = (stored \<circ> fst) s"
    using s' by (simp add: stores_until_def table_until_def)
qed (unfold stores_until_def table_until_def mail_stores.select_convs table.select_convs o_apply,
  (erule until_rule; fastforce dest: get_stored [unfolded mail_stores.select_convs]
    batch_get_stored [unfolded mail_stores.select_convs] put_stored [unfolded mail_stores.select_convs]
    transact_stored [unfolded mail_stores.select_convs])+)

subsection \<open>The inbox\<close>

lemma get_inbox_run:
  assumes "quiet w" and "R = rows_of w"
  shows "inbox_ready inbox R \<Longrightarrow> \<exists>w' b. get_inbox (app_table A) inbox w = (Inr (Some b), w') \<and> quiet w' \<and>
      rows_of w' = R \<and> stored w' = stored w"
    and "R (inbox_key inbox) = None \<Longrightarrow> \<exists>w'. get_inbox (app_table A) inbox w = (Inr None, w') \<and> quiet w' \<and>
      rows_of w' = R \<and> stored w' = stored w"
proof -
  obtain w' where w': "get_as (app_table A) inbox_of_item (inbox_key inbox) Eventual w =
      (decode inbox_of_item (R (inbox_key inbox)), w')" "rows_of w' = R" "quiet w'"
    using quiet_get_as [OF assms(1), of inbox_of_item "inbox_key inbox" Eventual] unfolding assms(2) by auto
  have st: "stored w' = stored w" by (rule frame.silentD [OF frame.silent_get_as]) (use w'(1) in simp)
  show "inbox_ready inbox R \<Longrightarrow> \<exists>w' b. get_inbox (app_table A) inbox w = (Inr (Some b), w') \<and> quiet w' \<and>
      rows_of w' = R \<and> stored w' = stored w"
    and "R (inbox_key inbox) = None \<Longrightarrow> \<exists>w'. get_inbox (app_table A) inbox w = (Inr None, w') \<and> quiet w' \<and>
      rows_of w' = R \<and> stored w' = stored w"
    using w' st by (auto simp: get_inbox_def decode_def inbox_ready_def)
qed

lemma ensure_inbox_run:
  assumes "quiet w" and "rows_of w (inbox_key inbox) = None"
  shows "\<exists>w' b. ensure_inbox (app_table A) inbox now w = (Inr b, w') \<and> quiet w' \<and> stored w' = stored w \<and>
    rows_of w' = (rows_of w)(inbox_key inbox \<mapsto> snd (inbox_item inbox now))"
proof -
  have t: "target (Put (snd (inbox_item inbox now)) CondNotExists) = Some (inbox_key inbox)"
    by (rule target_put) (simp_all add: inbox_item_def Let_def)
  obtain w' where w': "tbl_put_if_absent (app_table A) (snd (inbox_item inbox now)) w = (Inr Created, w')"
    "rows_of w' = (rows_of w)(inbox_key inbox \<mapsto> snd (inbox_item inbox now))" "quiet w'"
    using quiet_put [unfolded mail_stores.select_convs, OF assms(1) t] assms(2) by auto
  moreover have "stored w' = stored w" by (rule put_stored) (use w'(1) in simp)
  ultimately show ?thesis by (cases "inbox_item inbox now") (auto simp: ensure_inbox_def try_io_def ok_def)
qed

lemma resolve_here:
  assumes w: "quiet w" and inbox: "inbox_new (inbox_str (mc_inbox config)) = mc_inbox config"
    and row: "inbox_ready (mc_inbox config) (rows_of w) \<or> rows_of w (inbox_key (mc_inbox config)) = None"
  obtains w' where "resolve_recipient A config (inbox_str (mc_inbox config)) r w =
      (r\<lparr>res_inboxes := res_inboxes r @ [mc_inbox config]\<rparr>, w')"
    "quiet w'" "stored w' = stored w" "inbox_made (mc_inbox config) (rows_of w) (rows_of w')"
  using row
proof
  assume ready: "inbox_ready (mc_inbox config) (rows_of w)"
  then obtain w' b where "get_inbox (app_table A) (mc_inbox config) w = (Inr (Some b), w')" "quiet w'"
    "rows_of w' = rows_of w" "stored w' = stored w" using get_inbox_run(1) [OF w refl] by blast
  then show thesis using ready inbox
    by (intro that [of w']) (auto simp: resolve_recipient_def Let_def inbox_made_def)
next
  assume none: "rows_of w (inbox_key (mc_inbox config)) = None"
  then obtain w1 where w1: "get_inbox (app_table A) (mc_inbox config) w = (Inr None, w1)" "quiet w1"
    "rows_of w1 = rows_of w" "stored w1 = stored w" using get_inbox_run(2) [OF w refl] by blast
  with none ensure_inbox_run [OF w1(2), of "mc_inbox config" "time_format (app_now_ms A w1)"] obtain w2 b where
    "ensure_inbox (app_table A) (mc_inbox config) (time_format (app_now_ms A w1)) w1 = (Inr b, w2)" "quiet w2"
    "stored w2 = stored w1"
    "rows_of w2 = (rows_of w)(inbox_key (mc_inbox config) \<mapsto> snd (inbox_item (mc_inbox config) (time_format (app_now_ms A w1))))"
    by auto
  then show thesis using none inbox w1
    by (intro that [of w2]) (auto simp: resolve_recipient_def Let_def inbox_made_def)
qed

lemma resolve_others: "inbox_str (mc_inbox config) \<notin> set xs \<Longrightarrow> resolve_recipients A config xs r w = (r, w)"
  by (induction xs arbitrary: r) (auto simp: resolve_recipient_def)

lemma resolve_append:
  "resolve_recipients A config (xs @ ys) r w =
     (case resolve_recipients A config xs r w of (r, w) \<Rightarrow> resolve_recipients A config ys r w)"
  by (induction xs arbitrary: r w) (auto split: prod.split)

lemma resolve_run:
  assumes w: "quiet w" and inbox: "inbox_new (inbox_str (mc_inbox config)) = mc_inbox config"
    and row: "inbox_ready (mc_inbox config) (rows_of w) \<or> rows_of w (inbox_key (mc_inbox config)) = None"
    and here: "inbox_str (mc_inbox config) \<in> set (normalized_recipients receipt)"
  obtains w' where "resolve_recipients A config (normalized_recipients receipt) no_resolution w =
      (no_resolution\<lparr>res_inboxes := [mc_inbox config]\<rparr>, w')"
    "quiet w'" "stored w' = stored w" "inbox_made (mc_inbox config) (rows_of w) (rows_of w')"
proof -
  obtain xs ys where split: "normalized_recipients receipt = xs @ inbox_str (mc_inbox config) # ys"
    using split_list [OF here] by blast
  have others: "inbox_str (mc_inbox config) \<notin> set xs" "inbox_str (mc_inbox config) \<notin> set ys"
    using distinct_recipients [of receipt] by (simp_all add: split)
  obtain w' where "resolve_recipient A config (inbox_str (mc_inbox config)) no_resolution w =
      (no_resolution\<lparr>res_inboxes := res_inboxes no_resolution @ [mc_inbox config]\<rparr>, w')"
    "quiet w'" "stored w' = stored w" "inbox_made (mc_inbox config) (rows_of w) (rows_of w')"
    by (rule resolve_here [OF w inbox row])
  then show thesis
    by (intro that [of w']) (simp_all add: split resolve_append resolve_others [OF others(1)] resolve_others [OF others(2)]
        no_resolution_def)
qed

lemma fresh_run:
  assumes "quiet w"
  obtains w' where "fresh_targets A [inbox] m r w =
      ((if rows_of w (message_key inbox m) = None then [inbox] else [], r), w')"
    "quiet w'" "rows_of w' = rows_of w" "stored w' = stored w"
proof -
  obtain w' where w': "get_as (app_table A) (\<lambda>i. Some ()) (message_key inbox m) Eventual w =
      (decode (\<lambda>i. Some ()) (rows_of w (message_key inbox m)), w')" "rows_of w' = rows_of w" "quiet w'"
    using quiet_get_as [OF assms, of "\<lambda>i. Some ()" "message_key inbox m" Eventual] by auto
  have "stored w' = stored w" by (rule frame.silentD [OF frame.silent_get_as]) (use w'(1) in simp)
  with w' show thesis
    by (intro that [of w'])
      (auto simp: message_exists_def try_io_def ok_def decode_def split: option.splits)
qed

subsection \<open>A delivery and its repeat\<close>

lemma ingest_repeated:
  assumes w: "quiet w" and mail: "app_mail A = Some config" and event: "receipt_resolves L config event ts key received uuid m"
    and row: "inbox_ready (mc_inbox config) (rows_of w)" and there: "rows_of w (message_key (mc_inbox config) m) \<noteq> None"
  obtains w' where "ingest_inbound L A event deadline ts w = (Inr IngestDuplicate, w')" "quiet w'"
    "rows_of w' = rows_of w" "stored w' = stored w"
proof -
  note ev = event [unfolded receipt_resolves_def]
  obtain w1 where w1: "resolve_recipients A config (normalized_recipients (sin_receipt event)) no_resolution w =
      (no_resolution\<lparr>res_inboxes := [mc_inbox config]\<rparr>, w1)"
    "quiet w1" "stored w1 = stored w" "inbox_made (mc_inbox config) (rows_of w) (rows_of w1)"
    by (rule resolve_run [OF w]) (use ev row in blast)+
  have rows1: "rows_of w1 = rows_of w" using w1(4) row by (auto simp: inbox_made_def inbox_ready_def)
  obtain w2 where w2: "fresh_targets A [mc_inbox config] m (no_resolution\<lparr>res_inboxes := [mc_inbox config]\<rparr>) w1 =
      (([], no_resolution\<lparr>res_inboxes := [mc_inbox config]\<rparr>), w2)"
    "quiet w2" "rows_of w2 = rows_of w1" "stored w2 = stored w1"
    by (rule fresh_run [OF w1(2), of "mc_inbox config" m]) (use there rows1 in auto)
  then show thesis
    using w1 rows1 ev mail by (intro that [of w2]) (auto simp: ingest_inbound_def Let_def no_resolution_def finish_def)
qed

lemma ingest_new:
  assumes w: "quiet w" and wf: "table_wf (al_participant L) (rows_of w)"
    and mail: "app_mail A = Some config" and event: "receipt_resolves L config event ts key received uuid m"
    and inbox: "plain_inbox (mc_inbox config)"
    and row: "inbox_ready (mc_inbox config) (rows_of w) \<or> rows_of w (inbox_key (mc_inbox config)) = None"
    and new: "rows_of w (message_key (mc_inbox config) m) = None"
    and raw: "stored w key = Some raw" "len_u64 raw \<le> MAX_INBOUND_RAW_BYTES" "parse_inbound (al_mime L) raw = Some parsed"
    and draft: "\<And>now. d now = draft_of (Some config) key event m received now (pi_message parsed)
      (map (meta_of_part m) (kept_parts L uuid parsed))"
    and content: "content = (pi_content parsed)\<lparr>ct_verdicts := Some (verdicts_json (sin_receipt event))\<rparr>"
    and cands: "\<And>now. candidates_ok (to_message (d now) (mc_inbox config))
      (ingest_candidates (to_message (d now) (mc_inbox config)) content)"
    and body: "serialize_within (al_content_to_vec L) content MAX_CONTENT_BYTES = Some (body, dropped)"
  obtains w' R now where "ingest_inbound L A event deadline ts w = (Inr Ingested, w')" "quiet w'"
    "stored w' = bucket.put_all (parts_of L uuid m parsed @ [(content_object (mc_inbox config) (message_id_str m), body)]) (stored w)"
    "inbox_made (mc_inbox config) (rows_of w) R"
    "arrived (al_participant L) (to_message (d now) (mc_inbox config))
       (ingest_candidates (to_message (d now) (mc_inbox config)) content) R (rows_of w')"
proof -
  note ev = event [unfolded receipt_resolves_def]
  obtain w1 where w1: "resolve_recipients A config (normalized_recipients (sin_receipt event)) no_resolution w =
      (no_resolution\<lparr>res_inboxes := [mc_inbox config]\<rparr>, w1)"
    "quiet w1" "stored w1 = stored w" "inbox_made (mc_inbox config) (rows_of w) (rows_of w1)"
    by (rule resolve_run [OF w]) (use ev row in blast)+
  have new1: "rows_of w1 (message_key (mc_inbox config) m) = None"
    using inbox_made_messages [OF w1(4)] new by simp
  obtain w2 where w2: "fresh_targets A [mc_inbox config] m (no_resolution\<lparr>res_inboxes := [mc_inbox config]\<rparr>) w1 =
      (([mc_inbox config], no_resolution\<lparr>res_inboxes := [mc_inbox config]\<rparr>), w2)"
    "quiet w2" "rows_of w2 = rows_of w1" "stored w2 = stored w1"
    by (rule fresh_run [OF w1(2), of "mc_inbox config" m]) (use new1 in auto)
  let ?by = "app_instant A w2 + ((deadline - app_instant A w2) - DEADLINE_MARGIN)"
  have s: "undropped (w2, False)" "table_wf (al_participant L) ((rows_of \<circ> fst) (w2, False))"
    "(stored \<circ> fst) (w2, False) key = Some raw" "(rows_of \<circ> fst) (w2, False) (message_key (mc_inbox config) m) = None"
    using w1 w2 raw(1) new1 inbox_made_wf [OF w1(4) wf] by simp_all
  obtain s' now where s': "ingest_into_targets L (Some config) (stores_until A ?by) key event [mc_inbox config] uuid m received (w2, False) =
      (Inr Ingested, s')" "undropped s'"
    "(stored \<circ> fst) s' = bucket.put_all
      (parts_of L uuid m parsed @ [(content_object (mc_inbox config) (message_id_str m), body)]) ((stored \<circ> fst) (w2, False))"
    "arrived (al_participant L) (to_message (d now) (mc_inbox config))
       (ingest_candidates (to_message (d now) (mc_inbox config)) content) ((rows_of \<circ> fst) (w2, False)) ((rows_of \<circ> fst) s')"
    by (rule quiet_stores.ingest_into_inbox_run [OF until_quiet s(1,2) inbox s(3) raw(2,3) draft content cands body s(4)])
  obtain w3 where w3: "s' = (w3, False)" using s'(2) by (cases s') auto
  show thesis
  proof (rule that)
    show "ingest_inbound L A event deadline ts w = (Inr Ingested, w3)"
      using w1(1) w2(1) s'(1) w3 ev mail by (auto simp: ingest_inbound_def Let_def no_resolution_def finish_def)
  qed (use s' w1 w2 w3 in auto)
qed

end

section \<open>Over the fakes\<close>

lemma ingest_candidates_ok:
  assumes "list_all (\<lambda>c. strip_angle_brackets c = c) (ingest_candidates msg content)"
  shows "candidates_ok msg (ingest_candidates msg content)"
proof -
  have "distinct (fold (\<lambda>c cs. if c \<in> set cs then cs else cs @ [c]) xs ys) \<and>
      set ys \<subseteq> set (fold (\<lambda>c cs. if c \<in> set cs then cs else cs @ [c]) xs ys)" if "distinct ys" for xs ys :: "string list"
    using that
  proof (induction xs arbitrary: ys)
    case (Cons x xs)
    show ?case
    proof (cases "x \<in> set ys")
      case False
      with Cons.prems have "distinct (ys @ [x])" by simp
      from Cons.IH [OF this] False show ?thesis by auto
    qed (use Cons in simp)
  qed simp
  note this [of "if strip_angle_brackets (msg_rfc_message_id msg) = [] then [] else [strip_angle_brackets (msg_rfc_message_id msg)]"]
  with assms show ?thesis by (auto simp: candidates_ok_def ingest_candidates_def Let_def split: if_splits)
qed

definition fake_quiet :: "fake_world \<Rightarrow> bool" where
  "fake_quiet w \<longleftrightarrow> mem_quiet (fw_mail w) \<and> fake_healthy w \<and> \<not> fw_hung w"

lemma fake_quiet_mail [simp]: "fake_quiet (w\<lparr>fw_mail := s\<rparr>) \<longleftrightarrow> mem_quiet s \<and> fake_healthy w \<and> \<not> fw_hung w"
  by (simp add: fake_quiet_def fake_healthy_def)

lemma fake_quiet_table: "quiet_table fake_table fake_rows (=) fake_quiet"
proof (intro quiet_table.intro quiet_table_axioms.intro)
  fix w :: fake_world and k r
  assume w: "fake_quiet w"
  from qmem.quiet_get [of "fw_mail w" k r] w
  show "\<exists>w'. tbl_get fake_table k r w = (Inr (fake_rows w k), w') \<and> fake_rows w' = fake_rows w \<and> fake_quiet w'"
    by (auto simp: fake_table_def on_mail_def fake_rows_def fake_quiet_def fake_healthy_def)
next
  fix w :: fake_world and ks r
  assume w: "fake_quiet w"
  then have "mem_quiet (fw_mail w)" by (simp add: fake_quiet_def)
  from qmem.quiet_batch_get [OF this, of ks r] w
  show "\<exists>w'. tbl_batch_get fake_table ks r w = (Inr (\<lambda>k. if k \<in> List.set ks then fake_rows w k else None), w') \<and>
      fake_rows w' = fake_rows w \<and> fake_quiet w'"
    unfolding fake_rows_def by (auto simp: fake_table_def on_mail_def fake_quiet_def fake_healthy_def)
next
  fix w :: fake_world and i k
  assume w: "fake_quiet w" and k: "target (Put i CondNotExists) = Some k"
  from qmem.quiet_put [OF _ k, of "fw_mail w"] w
  show "\<exists>w'. tbl_put_if_absent fake_table i w = (Inr (if fake_rows w k = None then Created else AlreadyExists), w') \<and>
      fake_rows w' = (if fake_rows w k = None then (fake_rows w)(k \<mapsto> i) else fake_rows w) \<and> fake_quiet w'"
    by (auto simp: fake_table_def on_mail_def fake_rows_def fake_quiet_def fake_healthy_def)
next
  fix w :: fake_world and ops
  assume w: "fake_quiet w"
  from qmem.quiet_transact [of "fw_mail w" ops] w
  show "\<exists>w'. tbl_transact fake_table ops w =
      (Inr (if txn_ok (fake_rows w) ops then Committed else Cancelled (cancel_decision (fake_rows w) ops)), w') \<and>
      fake_rows w' = (if txn_ok (fake_rows w) ops then txn_apply ops (fake_rows w) else fake_rows w) \<and> fake_quiet w'"
    by (auto simp: fake_table_def on_mail_def fake_rows_def fake_quiet_def fake_healthy_def)
next
  fix w :: fake_world and n
  assume w: "fake_quiet w"
  from qmem.quiet_pause [of "fw_mail w" n] w
  show "fake_rows (tbl_pause fake_table n w) = fake_rows w \<and> fake_quiet (tbl_pause fake_table n w)"
    by (simp add: fake_table_def fake_rows_def fake_quiet_def fake_healthy_def)
qed (rule fmem.mail_table_axioms)

interpretation fprompt: prompt_app "fake_app config parse_spec write_to_vec url_parse" fake_rows fake_quiet fake_stored
  for config parse_spec write_to_vec url_parse
proof (intro prompt_app.intro quiet_stores.intro quiet_stores_axioms.intro prompt_app_axioms.intro)
  show "quiet_table (ms_table (app_stores (fake_app config parse_spec write_to_vec url_parse))) fake_rows (=) fake_quiet"
    by (simp add: fake_quiet_table)
  show "healthy_bucket (ms_objects (app_stores (fake_app config parse_spec write_to_vec url_parse))) fake_stored fake_quiet fake_rows"
    by unfold_locales
      (auto simp: fake_object_ops fake_put_object_if_absent_def fake_get_object_def fake_delete_object_def fake_rows_def
        count_down_def fo_seed_def fake_stored_def fake_quiet_def fake_healthy_def fo_get_def fun_eq_iff
        split: option.splits dest: len_u64_le)
qed (auto simp: fake_table_def on_mail_def fake_object_ops fake_head_object_def fake_stored_def fake_quiet_def
    fake_healthy_def fo_get_def fake_rows_def fake_app_def split: prod.splits option.splits)

lemma arrived_message:
  assumes "arrived pp (to_message d inbox) cands R R'"
  shows "\<exists>after. message_at R' inbox (drf_message_id d) =
      Some ((to_message d inbox)\<lparr>msg_thread_id := thr_thread_id after, msg_thread_snapshot := Some (snapshot_of after)\<rparr>) \<and>
    thread_at R' inbox (thr_thread_id after) = Some after"
proof -
  let ?msg = "joined R (to_message d inbox) cands"
  let ?after = "thread_for pp ?msg (thread_at R inbox (msg_thread_id ?msg))"
  have ids: "msg_inbox_id (to_message d inbox) = inbox" "msg_message_id (to_message d inbox) = drf_message_id d"
    "msg_direction (to_message d inbox) = Inbound" by (simp_all add: to_message_def)
  have at: "message_at R' inbox (drf_message_id d) = Some (stored_message ?msg ?after)"
    "thread_at R' inbox (msg_thread_id ?msg) = Some ?after" "table_wf pp R'"
    using assms by (simp_all add: arrived_def Let_def ids)
  from at(3) have "threads_wf pp R'" by (simp add: table_wf_def)
  from threads_wf_read [OF this at(2)] have "thr_thread_id ?after = msg_thread_id ?msg" by simp
  moreover have "stored_message ?msg ?after =
      (to_message d inbox)\<lparr>msg_thread_id := msg_thread_id ?msg, msg_thread_snapshot := Some (snapshot_of ?after)\<rparr>"
    by (simp add: stored_message_def joined_def ids split: option.split)
  ultimately show ?thesis using at by (intro exI [of _ ?after]) simp
qed

text \<open>
  C20. A delivered message reaches its inbox, once: over the fakes with no failure scripted, a new message whose
  raw object is there and parses is ingested, its row, joined to its thread, reads back with its attachments, its
  content document and every attachment are in the bucket and nothing there has changed; the same notification
  again is a duplicate and changes neither row nor object.
\<close>

theorem ingest_delivers_once:
  assumes "A = fake_app (Some config) parse_spec write_to_vec url_parse" and "inbox = mc_inbox config"
    and "fake_quiet w" and "table_wf (al_participant L) (fake_rows w)"
    and "receipt_resolves L config event ts key received uuid m" and "plain_inbox inbox"
    and "inbox_ready inbox (fake_rows w) \<or> fake_rows w (inbox_key inbox) = None"
    and "fake_rows w (message_key inbox m) = None"
    and "fake_stored w key = Some raw" and "len_u64 raw \<le> MAX_INBOUND_RAW_BYTES"
    and "parse_inbound (al_mime L) raw = Some parsed"
    and "\<And>now. d now = draft_of (Some config) key event m received now (pi_message parsed)
      (map (meta_of_part m) (kept_parts L uuid parsed))"
    and "content = (pi_content parsed)\<lparr>ct_verdicts := Some (verdicts_json (sin_receipt event))\<rparr>"
    and "\<And>now. list_all (\<lambda>c. strip_angle_brackets c = c) (ingest_candidates (to_message (d now) inbox) content)"
    and "serialize_within (al_content_to_vec L) content MAX_CONTENT_BYTES = Some (body, dropped)"
  shows "\<exists>w1 w2 now after. ingest_inbound L A event deadline ts w = (Inr Ingested, w1) \<and>
    message_at (fake_rows w1) inbox m = Some ((to_message (d now) inbox)
      \<lparr>msg_thread_id := thr_thread_id after, msg_thread_snapshot := Some (snapshot_of after)\<rparr>) \<and>
    thread_at (fake_rows w1) inbox (thr_thread_id after) = Some after \<and>
    fake_stored w1 = fbucket.put_all (parts_of L uuid m parsed @ [(content_object inbox (message_id_str m), body)]) (fake_stored w) \<and>
    ingest_inbound L A event deadline' ts w1 = (Inr IngestDuplicate, w2) \<and>
    fake_rows w2 = fake_rows w1 \<and> fake_stored w2 = fake_stored w1"
proof -
  note A = assms(1) and inbox = assms(2)
  have mail: "app_mail A = Some config" by (simp add: A fake_app_def)
  obtain w1 R now where w1: "ingest_inbound L A event deadline ts w = (Inr Ingested, w1)" "fake_quiet w1"
    "fake_stored w1 = fbucket.put_all (parts_of L uuid m parsed @ [(content_object (mc_inbox config) (message_id_str m), body)]) (fake_stored w)"
    "inbox_made (mc_inbox config) (fake_rows w) R"
    "arrived (al_participant L) (to_message (d now) (mc_inbox config))
       (ingest_candidates (to_message (d now) (mc_inbox config)) content) R (fake_rows w1)"
    by (rule fprompt.ingest_new [OF assms(3,4) mail [unfolded A] assms(5,6,7,8) [unfolded inbox] assms(9-13)
          ingest_candidates_ok [OF assms(14) [unfolded inbox]] assms(15), folded A])
  have m: "drf_message_id (d now) = m" by (simp add: assms(12) draft_of_def)
  obtain after where at: "message_at (fake_rows w1) inbox m = Some ((to_message (d now) inbox)
      \<lparr>msg_thread_id := thr_thread_id after, msg_thread_snapshot := Some (snapshot_of after)\<rparr>)"
    "thread_at (fake_rows w1) inbox (thr_thread_id after) = Some after"
    using arrived_message [OF w1(5)] unfolding m inbox by blast
  have ready: "inbox_ready inbox (fake_rows w1)"
    using inbox_made_ready [OF w1(4)] w1(5) by (simp add: inbox_ready_def arrived_def Let_def inbox)
  have "fake_rows w1 (message_key inbox m) \<noteq> None" using at(1) by (auto simp: message_at_def bind_eq_Some_conv)
  from fprompt.ingest_repeated [OF w1(2) mail [unfolded A] assms(5) ready [unfolded inbox] this [unfolded inbox], of deadline']
  obtain w2 where "ingest_inbound L A event deadline' ts w1 = (Inr IngestDuplicate, w2)"
    "fake_rows w2 = fake_rows w1" "fake_stored w2 = fake_stored w1" unfolding A by blast
  with w1(1,3) at show ?thesis unfolding inbox by blast
qed

section \<open>A sample delivery\<close>

definition sample_event :: ses_inbound_notification where
  "sample_event =
     \<lparr>sin_notification_type = ''Received'',
      sin_mail = \<lparr>sml_message_id = ''ses-1'', sml_source = None, sml_destination = [], sml_timestamp = None, sml_common_headers = None\<rparr>,
      sin_receipt = \<lparr>rct_recipients = [''Support@example.com''], rct_timestamp = None, rct_spam_verdict = None,
        rct_virus_verdict = None, rct_spf_verdict = None, rct_dkim_verdict = None, rct_dmarc_verdict = None, rct_dmarc_policy = None,
        rct_action = Some \<lparr>sra_kind = None, sra_bucket_name = Some ''mail'', sra_object_key = Some ''raw''\<rparr>\<rparr>\<rparr>"

definition arrival_world :: fake_world where
  "arrival_world = (sample_world empty_store)
     \<lparr>fw_objects := \<lparr>fo_objects = [''raw'' \<mapsto> \<lparr>so_body = [], so_content_type = []\<rparr>], fo_failures = Map.empty,
        fo_calls = (\<lambda>_. []), fo_nth_put_failure = None\<rparr>\<rparr>"

lemma arrival_world:
  "fake_quiet arrival_world" "fake_rows arrival_world = Map.empty" "fake_stored arrival_world ''raw'' = Some []"
  by (simp_all add: arrival_world_def sample_world_def fake_quiet_def fake_healthy_def mem_quiet_def empty_store_def
      fake_rows_def mem_rows_def fake_stored_def fo_get_def)

lemma sample_resolves:
  "receipt_resolves (sample_api :: ('w, unit) api_libs) sample_config sample_event (Some 5) ''raw'' 5 7 (MessageId ''m1'')"
proof -
  have "to_ascii_lowercase ''Support@example.com'' = ''support@example.com''" by code_simp
  then have "to_ascii_lowercase (trim ''Support@example.com'') = ''support@example.com''"
    by (simp add: trim_graphic is_graphic_def)
  moreover have "inbox_canon ''support@example.com'' = ''support@example.com''"
    by (simp add: inbox_canon_def trim_graphic is_graphic_def to_ascii_lowercase_def to_ascii_lowercase_char_def)
  ultimately have "inbox_str (mc_inbox sample_config) \<in> set (normalized_recipients (sin_receipt sample_event))"
    by (simp add: sample_config_def sample_event_def normalized_recipients_def)
  moreover have "inbox_new (inbox_str (mc_inbox sample_config)) = mc_inbox sample_config" by (rule inbox_new_str)
  moreover have "inbound_message_id (al_ids (sample_api :: ('w, unit) api_libs)) ''ses-1'' 5 = 7"
    "message_id_of (al_ids (sample_api :: ('w, unit) api_libs)) 7 = MessageId ''m1''"
    by (simp_all add: sample_api_def inbound_message_id_def message_id_of_def)
  ultimately show ?thesis
    by (simp add: receipt_resolves_def guarded_s3_pointer_def s3_pointer_def sample_event_def sample_config_def received_ms_def)
qed

lemma sample_parsed:
  obtains parsed where "parse_inbound (al_mime (sample_api :: ('w, unit) api_libs)) [] = Some parsed"
    "pm_rfc_message_id (pi_message parsed) = ''<1@x>''" "pm_in_reply_to (pi_message parsed) = None"
    "ct_references (pi_content parsed) = []"
proof -
  have "wrap_id ''1@x'' = ''<1@x>''" by code_simp
  moreover have "al_mime (sample_api :: ('w, unit) api_libs) = sample_mime" by (simp add: sample_api_def)
  ultimately show thesis
    using that by (simp add: parse_inbound_def sample_mime_def Let_def id_list_def nearest_references_def first_of_def)
qed

lemma sample_candidates:
  assumes "pm_rfc_message_id (drf_parsed d) = ''<1@x>''" "pm_in_reply_to (drf_parsed d) = None" "ct_references content = []"
  shows "list_all (\<lambda>c. strip_angle_brackets c = c) (ingest_candidates (to_message d inbox) content)"
proof -
  have strip: "strip_angle_brackets ''<1@x>'' = ''1@x''" "strip_angle_brackets ''1@x'' = ''1@x''" by code_simp+
  show ?thesis by (simp add: ingest_candidates_def Let_def to_message_def assms strip candidate_ids_def)
qed

abbreviation sample_draft :: "parsed_inbound \<Rightarrow> u64 \<Rightarrow> inbound_draft" where
  "sample_draft parsed now \<equiv> draft_of (Some sample_config) ''raw'' sample_event (MessageId ''m1'') 5 now (pi_message parsed)
     (map (meta_of_part (MessageId ''m1'')) (kept_parts (sample_api :: (fake_world, unit) api_libs) 7 parsed))"

abbreviation sample_content :: "parsed_inbound \<Rightarrow> message_content" where
  "sample_content parsed \<equiv> (pi_content parsed)\<lparr>ct_verdicts := Some (verdicts_json (sin_receipt sample_event))\<rparr>"

lemma sample_facts:
  "plain_inbox (mc_inbox sample_config)" "len_u64 [] \<le> MAX_INBOUND_RAW_BYTES"
  "table_wf pp (fake_rows arrival_world)"
  "inbox_ready (mc_inbox sample_config) (fake_rows arrival_world) \<or> fake_rows arrival_world (inbox_key (mc_inbox sample_config)) = None"
  "fake_rows arrival_world (message_key (mc_inbox sample_config) (MessageId ''m1'')) = None"
  using sample_ok [of "''m1''" "''m1''"]
  by (simp_all add: message_ok_def sample_config_def len_u64_def arrival_world(2) table_wf_empty)

lemma sample_ready_parsed:
  obtains parsed body dropped where
    "parse_inbound (al_mime (sample_api :: (fake_world, unit) api_libs)) [] = Some parsed"
    "\<forall>now. list_all (\<lambda>c. strip_angle_brackets c = c)
       (ingest_candidates (to_message (sample_draft parsed now) (mc_inbox sample_config)) (sample_content parsed))"
    "serialize_within (al_content_to_vec (sample_api :: (fake_world, unit) api_libs)) (sample_content parsed) MAX_CONTENT_BYTES =
       Some (body, dropped)"
proof -
  let ?L = "sample_api :: (fake_world, unit) api_libs"
  obtain parsed where parsed: "parse_inbound (al_mime ?L) [] = Some parsed"
    "pm_rfc_message_id (pi_message parsed) = ''<1@x>''" "pm_in_reply_to (pi_message parsed) = None"
    "ct_references (pi_content parsed) = []" by (rule sample_parsed)
  have "al_content_to_vec ?L c \<noteq> None" for c by (simp add: sample_api_def)
  then obtain body dropped where body: "serialize_within (al_content_to_vec ?L) (sample_content parsed) MAX_CONTENT_BYTES =
      Some (body, dropped)" by (rule serialize_total)
  show thesis
    by (rule that [OF parsed(1) allI [OF sample_candidates] body]) (simp_all add: draft_of_def parsed)
qed

theorem ingest_delivers_once_witness:
  "\<exists>w1 w2. ingest_inbound sample_api (fake_app (Some sample_config) (\<lambda>_. None) (\<lambda>_. None) (\<lambda>_. None)) sample_event 60000 (Some 5)
      arrival_world = (Inr Ingested, w1)
    \<and> message_at (fake_rows w1) (mc_inbox sample_config) (MessageId ''m1'') \<noteq> None
    \<and> ingest_inbound sample_api (fake_app (Some sample_config) (\<lambda>_. None) (\<lambda>_. None) (\<lambda>_. None)) sample_event 60000 (Some 5)
      w1 = (Inr IngestDuplicate, w2) \<and> fake_rows w2 = fake_rows w1"
proof -
  obtain parsed body dropped where ready:
    "parse_inbound (al_mime (sample_api :: (fake_world, unit) api_libs)) [] = Some parsed"
    "\<forall>now. list_all (\<lambda>c. strip_angle_brackets c = c)
       (ingest_candidates (to_message (sample_draft parsed now) (mc_inbox sample_config)) (sample_content parsed))"
    "serialize_within (al_content_to_vec (sample_api :: (fake_world, unit) api_libs)) (sample_content parsed) MAX_CONTENT_BYTES =
       Some (body, dropped)" by (rule sample_ready_parsed)
  from ingest_delivers_once [OF refl refl arrival_world(1) sample_facts(3) sample_resolves sample_facts(1,4,5) arrival_world(3)
      sample_facts(2) ready(1) refl refl spec [OF ready(2)] ready(3), of "\<lambda>_. None" "\<lambda>_. None" "\<lambda>_. None" 60000 60000]
  show ?thesis by (elim exE conjE) (intro exI conjI, assumption, simp, assumption, assumption)
qed

theorem documents_before_rows_witness:
  "\<exists>w msg. message_at (fake_rows w) (mc_inbox sample_config) (MessageId ''m1'') = Some msg \<and> msg_direction msg = Inbound \<and>
    fake_stored w (content_object (msg_inbox_id msg) (message_id_str (msg_message_id msg))) \<noteq> None"
proof -
  let ?L = "sample_api :: (fake_world, unit) api_libs"
  let ?A = "fake_app (Some sample_config) (\<lambda>_. None) (\<lambda>_. None) (\<lambda>_. None)"
  obtain parsed body dropped where ready: "parse_inbound (al_mime ?L) [] = Some parsed"
    "\<forall>now. list_all (\<lambda>c. strip_angle_brackets c = c)
       (ingest_candidates (to_message (sample_draft parsed now) (mc_inbox sample_config)) (sample_content parsed))"
    "serialize_within (al_content_to_vec ?L) (sample_content parsed) MAX_CONTENT_BYTES =
       Some (body, dropped)" by (rule sample_ready_parsed)
  have mail: "app_mail ?A = Some sample_config" by (simp add: fake_app_def)
  obtain w R now where w: "ingest_inbound ?L ?A sample_event 60000 (Some 5) arrival_world = (Inr Ingested, w)"
    "arrived (al_participant ?L) (to_message (sample_draft parsed now) (mc_inbox sample_config))
       (ingest_candidates (to_message (sample_draft parsed now) (mc_inbox sample_config)) (sample_content parsed)) R (fake_rows w)"
    by (rule fprompt.ingest_new [OF arrival_world(1) sample_facts(3) mail sample_resolves sample_facts(1,4,5) arrival_world(3)
          sample_facts(2) ready(1) refl refl ingest_candidates_ok [OF spec [OF ready(2)]] ready(3)])
  have m: "drf_message_id (sample_draft parsed now) = MessageId ''m1''" by (simp add: draft_of_def)
  obtain msg where msg: "message_at (fake_rows w) (mc_inbox sample_config) (MessageId ''m1'') = Some msg" "msg_direction msg = Inbound"
    using arrived_message [OF w(2)] unfolding m by (auto simp: to_message_def)
  have "receiving ?L ?A w" by (rule receiving.ingests [OF receiving.starts [OF arrival_world(2)] w(1)])
  from documents_before_rows [OF this msg] msg show ?thesis by blast
qed

end
