(* ===== verification/Frames.thy ===== *)
theory Frames
  imports Arrivals
begin

text \<open>
  What the handlers leave alone: a relation of states that every call to the table and to the bucket keeps
  is kept by the flows, by label updates and by a whole ingest, cut off by its deadline or not.
\<close>

named_theorems frame_intros

definition within :: "('s \<Rightarrow> 's \<Rightarrow> bool) \<Rightarrow> ('s \<Rightarrow> 'a \<times> 's) \<Rightarrow> bool" where
  "within G m \<longleftrightarrow> (\<forall>s. G s (snd (m s)))"

lemma withinI: "(\<And>s a s'. m s = (a, s') \<Longrightarrow> G s s') \<Longrightarrow> within G m"
  unfolding within_def by (metis prod.collapse)

lemma withinD: "within G m \<Longrightarrow> m s = (a, s') \<Longrightarrow> G s s'"
  unfolding within_def by (metis snd_conv)

locale stores_frame =
  fixes M :: "'s mail_stores" and G :: "'s \<Rightarrow> 's \<Rightarrow> bool"
  assumes G_refl [simp]: "G s s" and G_trans: "G s s' \<Longrightarrow> G s' s'' \<Longrightarrow> G s s''"
    and get_within: "within G (tbl_get (ms_table M) k r)"
    and batch_get_within: "within G (tbl_batch_get (ms_table M) ks r)"
    and put_within: "within G (tbl_put_if_absent (ms_table M) i)"
    and transact_within: "within G (tbl_transact (ms_table M) ops)"
    and pause_within: "G s (tbl_pause (ms_table M) n s)"
    and object_get_within: "within G (obj_get (ms_objects M) key limit)"
    and object_head_within: "within G (obj_head (ms_objects M) key)"
    and object_put_within: "within G (obj_put_if_absent (ms_objects M) key body content_type)"
begin

lemmas [frame_intros] = get_within batch_get_within put_within transact_within object_get_within
  object_head_within object_put_within

lemma within_const [frame_intros]: "within G (ok a)" "within G (err e)" "within G (Pair x)" "within G (act_ok b)"
    "within G (act_err e')"
  by (simp_all add: within_def act_ok_def act_err_def)

lemma within_try_io [frame_intros]: "within G m \<Longrightarrow> (\<And>a. within G (f a)) \<Longrightarrow> within G (try_io m f)"
  by (rule withinI) (auto simp: try_io_def dest: withinD intro: G_trans split: prod.splits sum.splits)

lemma within_act_then [frame_intros]: "within G m \<Longrightarrow> (\<And>a. within G (f a)) \<Longrightarrow> within G (act_then m f)"
  by (rule withinI) (auto simp: act_then_def dest: withinD intro: G_trans split: prod.splits sum.splits)

lemma within_action [frame_intros]: "within G m \<Longrightarrow> within G (object_action m)" "within G m' \<Longrightarrow> within G (store_action m')"
  by (auto simp: object_action_def store_action_def dest: withinD intro!: withinI split: prod.splits sum.splits)

lemma within_paused [frame_intros]: "within G m \<Longrightarrow> within G (\<lambda>s. m (tbl_pause (ms_table M) n s))"
  by (rule withinI) (metis G_trans pause_within withinD)

subsection \<open>Flows\<close>

lemma within_get_as [frame_intros]: "within G (get_as (ms_table M) f k r)"
  and within_batch_get_as [frame_intros]: "within G (batch_get_as (ms_table M) g ks r)"
  unfolding get_as_def batch_get_as_def by (intro frame_intros withinI; simp)+

lemma within_reads [frame_intros]:
  "within G (read_message (ms_table M) i m)" "within G (read_thread (ms_table M) i t)"
  "within G (get_message (ms_table M) i m)" "within G (message_exists (ms_table M) i m)"
  "within G (get_inbox (ms_table M) i)" "within G (read_aliases (ms_table M) i ids)"
  "within G (resolve_ses_message (ms_table M) s)"
  unfolding read_message_def read_thread_def get_message_def message_exists_def get_inbox_def read_aliases_def
    resolve_ses_message_def
  by (auto intro!: frame_intros)

lemma within_ensure_inbox [frame_intros]: "within G (ensure_inbox (ms_table M) i now)"
  unfolding ensure_inbox_def
  by (auto intro!: frame_intros split: put_outcome.split option.split prod.split)

lemma within_insert_loop: "within G (insert_loop pp (ms_table M) tid msg candidates as)"
  by (induction as arbitrary: msg)
    (auto intro!: frame_intros simp: Let_def split: txn_outcome.split txn_decision.split)

lemma within_insert_message [frame_intros]: "within G (insert_message pp (ms_table M) msg candidates)"
  by (simp add: insert_message_def within_insert_loop)

lemma within_update_labels_loop: "within G (update_labels_loop (ms_table M) i m add remove now as)"
  by (induction as)
    (auto intro!: frame_intros simp: Let_def split: option.split txn_outcome.split sum.split)

lemma within_update_labels [frame_intros]: "within G (update_labels (ms_table M) i m add remove now)"
  by (simp add: update_labels_def within_update_labels_loop)

subsection \<open>Attachments and content\<close>

lemma within_put_one [frame_intros]: "within G (put_one (ms_objects M) m part)"
  unfolding put_one_def by (intro frame_intros)

lemma within_join [frame_intros]: "within G f \<Longrightarrow> within G g \<Longrightarrow> within G (act_join f g)"
  by (rule withinI) (auto simp: act_join_def dest: withinD intro: G_trans split: prod.splits)

lemma within_put_chunk [frame_intros]: "within G (put_chunk (ms_objects M) m parts)"
  by (cases "(ms_objects M, m, parts)" rule: put_chunk.cases) (auto intro!: frame_intros)

lemma within_put_chunks [frame_intros]: "within G (put_chunks (ms_objects M) m chunks)"
  by (induction chunks) (auto intro!: frame_intros)

lemma within_absent_parts [frame_intros]: "within G (absent_parts (ms_objects M) m parts)"
  by (induction parts) (auto intro!: frame_intros)

lemma within_put_kept_parts [frame_intros]: "within G (put_kept_parts (ms_objects M) m parts)"
  unfolding put_kept_parts_def resume_filtered_def by (auto intro!: frame_intros)

lemma within_fetch [frame_intros]: "within G (fetch_parse_and_extract L (ms_objects M) key uuid m)"
  unfolding fetch_parse_and_extract_def by (auto intro!: frame_intros simp: Let_def split: option.split)

lemma within_store_content [frame_intros]: "within G (store_content to_vec (ms_objects M) i m content)"
  by (rule withinI)
    (auto simp: store_content_def dest: withinD [OF object_put_within] split: option.splits prod.splits sum.splits)

lemma within_insert_into_inbox [frame_intros]: "within G (insert_into_inbox L M d content i)"
  unfolding insert_into_inbox_def by (auto intro!: frame_intros simp: Let_def)

lemma insert_each_within: "insert_each L M d content inboxes flags s = (res, s') \<Longrightarrow> G s s'"
proof (induction inboxes arbitrary: flags s)
  case (Cons i rest)
  obtain r1 s1 where one: "insert_into_inbox L M d content i s = (r1, s1)" by fastforce
  from Cons.prems one obtain flags' where "insert_each L M d content rest flags' s1 = (res, s')"
    by (cases flags) (auto split: sum.splits action_error.splits)
  from Cons.IH [OF this] withinD [OF within_insert_into_inbox one] show ?case by (rule G_trans [rotated])
qed (cases flags; simp)

lemma within_insert_into_all_targets [frame_intros]: "within G (insert_into_all_targets L M d content inboxes)"
  by (rule withinI) (auto simp: insert_into_all_targets_def dest: insert_each_within split: prod.splits)

lemma within_ingest_into_targets: "within G (ingest_into_targets L mail M key event targets uuid m received)"
  unfolding ingest_into_targets_def
proof (rule within_act_then [OF within_fetch])
  fix a :: "parsed_message \<times> message_content \<times> attachment_meta list"
  show "within G ((\<lambda>(parsed, content, attachments) s.
       act_then (insert_into_all_targets L M
           (draft_of mail key event m received (ms_now_ms M s) parsed attachments)
           (content\<lparr>ct_verdicts := Some (verdicts_json (sin_receipt event))\<rparr>) targets)
         (\<lambda>inserted. act_ok (if inserted then Ingested else IngestFailed)) s) a)"
    unfolding prod.case_eq_if
    by (rule withinI) (erule withinD [rotated], intro frame_intros)
qed

end

section \<open>An ingest\<close>

lemma until_within:
  assumes "within G op" and "\<And>s. G s s"
  shows "within (\<lambda>s s'. G (fst s) (fst s')) (until A by unseen op)"
  by (rule withinI) (erule until_cases, use assms in \<open>auto dest: withinD\<close>)

locale app_frame = stores_frame "app_stores A" G for A :: "'w app" and G :: "'w \<Rightarrow> 'w \<Rightarrow> bool"
begin

lemma until_frame: "stores_frame (stores_until A by) (\<lambda>s s'. G (fst s) (fst s'))"
proof
  fix n s
  obtain u s' where s': "until A by () (\<lambda>w. ((), tbl_pause (app_table A) n w)) s = (u, s')" by (metis surj_pair)
  have "within G (\<lambda>w. ((), tbl_pause (app_table A) n w))" using pause_within by (simp add: within_def)
  from withinD [OF until_within [OF this G_refl] s'] show "G (fst s) (fst (tbl_pause (ms_table (stores_until A by)) n s))"
    using s' by (simp add: stores_until_def table_until_def)
qed (use get_within batch_get_within put_within transact_within object_get_within object_head_within object_put_within
    in \<open>auto simp: stores_until_def table_until_def objects_until_def intro: G_trans intro!: until_within\<close>)

lemma resolve_recipients_within: "resolve_recipients A config recipients resolution w = (resolution', w') \<Longrightarrow> G w w'"
proof (induction recipients arbitrary: resolution w)
  case (Cons address rest)
  obtain r1 w1 where one: "resolve_recipient A config address resolution w = (r1, w1)" by fastforce
  note steps = withinD [OF within_reads(5) [simplified]] withinD [OF within_ensure_inbox [simplified]]
  have "G w w1"
    using one
    by (auto simp: resolve_recipient_def Let_def split: if_splits prod.splits sum.splits option.splits)
      (metis G_trans steps)+
  moreover have "G w1 w'" using Cons one by simp
  ultimately show ?case by (rule G_trans)
qed simp

lemma fresh_targets_within: "fresh_targets A inboxes m resolution w = (res, w') \<Longrightarrow> G w w'"
proof (induction inboxes arbitrary: resolution w res)
  case (Cons inbox rest)
  obtain r1 w1 where one: "message_exists (app_table A) inbox m w = (r1, w1)" by fastforce
  have "G w w1" using withinD [OF within_reads(4) [simplified]] one by blast
  moreover have "G w1 w'" using Cons one by (auto split: sum.splits prod.splits if_splits)
  ultimately show ?case by (rule G_trans)
qed simp

lemma ingest_inbound_within: "within G (ingest_inbound L A event deadline ts)"
proof (rule withinI)
  fix w res w'
  assume run: "ingest_inbound L A event deadline ts w = (res, w')"
  show "G w w'"
  proof (cases "\<exists>config key received. app_mail A = Some config \<and> guarded_s3_pointer event config = Some key \<and>
      received_ms event ts = Some received")
    case False
    then show ?thesis using run by (auto simp: ingest_inbound_def split: option.splits)
  next
    case True
    then obtain config key received where early: "app_mail A = Some config" "guarded_s3_pointer event config = Some key"
      "received_ms event ts = Some received" by blast
    obtain r1 w1 where res1: "resolve_recipients A config (normalized_recipients (sin_receipt event)) no_resolution w = (r1, w1)"
      by fastforce
    note G1 = resolve_recipients_within [OF res1]
    let ?uuid = "inbound_message_id (al_ids L) (sml_message_id (sin_mail event)) received"
    let ?m = "message_id_of (al_ids L) ?uuid"
    obtain targets r2 w2 where fresh: "fresh_targets A (res_inboxes r1) ?m r1 w1 = ((targets, r2), w2)"
      by (metis surj_pair)
    note G2 = G_trans [OF G1 fresh_targets_within [OF fresh]]
    let ?by = "app_instant A w2 + ((deadline - app_instant A w2) - DEADLINE_MARGIN)"
    obtain r3 w3 dropped where into: "ingest_into_targets L (app_mail A) (stores_until A ?by) key event targets ?uuid ?m received
      (w2, False) = (r3, w3, dropped)" by (metis surj_pair)
    have "G w2 w3"
      using withinD [OF stores_frame.within_ingest_into_targets [OF until_frame] into] by simp
    note G3 = G_trans [OF G2 this]
    show ?thesis
      using run early res1 fresh into G1 G2 G3
      by (auto simp: ingest_inbound_def Let_def split: if_splits sum.splits)
  qed
qed

end


text \<open>On the fakes: nothing an ingest or a label update does hands mail to SES.\<close>

interpretation fsilent: app_frame "fake_app config parse_spec write_to_vec url_parse" "\<lambda>w w'. fw_answers w' = fw_answers w"
  for config parse_spec write_to_vec url_parse
  by unfold_locales
    (auto simp: within_def on_mail_def fake_table_def fake_object_ops on_objects_def split: prod.splits option.splits)

end
