(* ===== verification/Wire.thy ===== *)
theory Wire
  imports Events Thread
begin

text \<open>
  \<open>crates/mailbox/src/wire.rs\<close>: the JSON shapes of the API and of the relayed events. A struct is a
  record, and \<open>Serialize\<close> the members it writes, in the order of the fields, less those that
  \<open>skip_serializing_if\<close> leaves out. \<open>Deserialize\<close>, which only tests use, is not modelled.
\<close>

section \<open>Members\<close>

abbreviation json_text :: "string \<Rightarrow> string \<Rightarrow> string \<times> json" where
  "json_text name s \<equiv> (name, JString s)"

definition json_nat :: "nat \<Rightarrow> json" where "json_nat n = JNumber (radix 10 n)"

abbreviation json_u64 :: "u64 \<Rightarrow> json" where "json_u64 n \<equiv> json_nat (unat n)"

definition some_field :: "('a \<Rightarrow> json) \<Rightarrow> string \<Rightarrow> 'a option \<Rightarrow> (string \<times> json) list" where
  "some_field enc name v = (case v of None \<Rightarrow> [] | Some a \<Rightarrow> [(name, enc a)])"

definition items_field :: "('a \<Rightarrow> json) \<Rightarrow> string \<Rightarrow> 'a list \<Rightarrow> (string \<times> json) list" where
  "items_field enc name v = (if v = [] then [] else [(name, JArray (map enc v))])"

definition entries_field :: "string \<Rightarrow> (string, string) btree_map \<Rightarrow> (string \<times> json) list" where
  "entries_field name m = (if bt_entries m = [] then [] else [(name, JObject (map (map_prod id JString) (bt_entries m)))])"

section \<open>Attachments\<close>

record wire_attachment =
  wat_attachment_id :: string
  wat_size :: u64
  wat_filename :: "string option"
  wat_content_type :: "string option"
  wat_content_disposition :: "content_disposition option"
  wat_content_id :: "string option"

definition wire_attachment_of :: "attachment_meta \<Rightarrow> wire_attachment" where
  "wire_attachment_of meta =
     \<lparr>wat_attachment_id = att_attachment_id meta, wat_size = att_size meta, wat_filename = att_filename meta,
      wat_content_type = Some (att_content_type meta),
      wat_content_disposition = Some (att_content_disposition meta), wat_content_id = att_content_id meta\<rparr>"

fun content_disposition_json :: "content_disposition \<Rightarrow> json" where
  "content_disposition_json Inline = JString ''inline''"
| "content_disposition_json Attachment = JString ''attachment''"

definition wire_attachment_json :: "wire_attachment \<Rightarrow> json" where
  "wire_attachment_json a = JObject
     ([json_text ''attachment_id'' (wat_attachment_id a), (''size'', json_u64 (wat_size a))] @
      some_field JString ''filename'' (wat_filename a) @
      some_field JString ''content_type'' (wat_content_type a) @
      some_field content_disposition_json ''content_disposition'' (wat_content_disposition a) @
      some_field JString ''content_id'' (wat_content_id a))"

section \<open>Messages\<close>

record wire_message =
  wm_inbox_id :: string
  wm_thread_id :: thread_id
  wm_message_id :: message_id
  wm_labels :: "string list"
  wm_timestamp :: string
  wm_from :: string
  wm_to :: "string list"
  wm_size :: u64
  wm_updated_at :: string
  wm_created_at :: string
  wm_reply_to :: "string list"
  wm_cc :: "string list"
  wm_bcc :: "string list"
  wm_subject :: "string option"
  wm_preview :: "string option"
  wm_text :: "string option"
  wm_html :: "string option"
  wm_extracted_text :: "string option"
  wm_extracted_html :: "string option"
  wm_attachments :: "wire_attachment list"
  wm_in_reply_to :: "string option"
  wm_references :: "string list"
  wm_headers :: "(string, string) btree_map"

definition wire_message_new :: "mail_message \<Rightarrow> message_content \<Rightarrow> wire_message" where
  "wire_message_new msg content =
     \<lparr>wm_inbox_id = inbox_str (msg_inbox_id msg), wm_thread_id = msg_thread_id msg,
      wm_message_id = msg_message_id msg, wm_labels = msg_labels msg, wm_timestamp = msg_timestamp msg,
      wm_from = msg_from msg, wm_to = msg_to msg, wm_size = msg_size msg,
      wm_updated_at = msg_updated_at msg, wm_created_at = msg_created_at msg,
      wm_reply_to = ct_reply_to content, wm_cc = msg_cc msg, wm_bcc = msg_bcc msg,
      wm_subject = Some (msg_subject msg), wm_preview = Some (msg_preview msg),
      wm_text = ct_text content, wm_html = ct_html content,
      wm_extracted_text = None, wm_extracted_html = None,
      wm_attachments = map wire_attachment_of (msg_attachments msg), wm_in_reply_to = msg_in_reply_to msg,
      wm_references = ct_references content, wm_headers = ct_headers content\<rparr>"

definition wire_message_fields :: "wire_message \<Rightarrow> (string \<times> json) list" where
  "wire_message_fields m =
     [json_text ''inbox_id'' (wm_inbox_id m), json_text ''thread_id'' (thread_id_str (wm_thread_id m)),
      json_text ''message_id'' (message_id_str (wm_message_id m)),
      (''labels'', JArray (map JString (wm_labels m))), json_text ''timestamp'' (wm_timestamp m),
      json_text ''from'' (wm_from m), (''to'', JArray (map JString (wm_to m))),
      (''size'', json_u64 (wm_size m)), json_text ''updated_at'' (wm_updated_at m),
      json_text ''created_at'' (wm_created_at m)] @
     items_field JString ''reply_to'' (wm_reply_to m) @ items_field JString ''cc'' (wm_cc m) @
     items_field JString ''bcc'' (wm_bcc m) @ some_field JString ''subject'' (wm_subject m) @
     some_field JString ''preview'' (wm_preview m) @ some_field JString ''text'' (wm_text m) @
     some_field JString ''html'' (wm_html m) @ some_field JString ''extracted_text'' (wm_extracted_text m) @
     some_field JString ''extracted_html'' (wm_extracted_html m) @
     items_field wire_attachment_json ''attachments'' (wm_attachments m) @
     some_field JString ''in_reply_to'' (wm_in_reply_to m) @ items_field JString ''references'' (wm_references m) @
     entries_field ''headers'' (wm_headers m)"

definition wire_message_json :: "wire_message \<Rightarrow> json" where
  "wire_message_json m = JObject (wire_message_fields m)"

record wire_message_item =
  wmi_inbox_id :: string
  wmi_thread_id :: thread_id
  wmi_message_id :: message_id
  wmi_labels :: "string list"
  wmi_timestamp :: string
  wmi_from :: string
  wmi_to :: "string list"
  wmi_cc :: "string list"
  wmi_bcc :: "string list"
  wmi_subject :: "string option"
  wmi_preview :: "string option"
  wmi_size :: u64
  wmi_attachments :: "wire_attachment list"
  wmi_in_reply_to :: "string option"
  wmi_created_at :: string
  wmi_updated_at :: string

definition wire_message_item_of :: "mail_message \<Rightarrow> wire_message_item" where
  "wire_message_item_of msg =
     \<lparr>wmi_inbox_id = inbox_str (msg_inbox_id msg), wmi_thread_id = msg_thread_id msg,
      wmi_message_id = msg_message_id msg, wmi_labels = msg_labels msg, wmi_timestamp = msg_timestamp msg,
      wmi_from = msg_from msg, wmi_to = msg_to msg, wmi_cc = msg_cc msg, wmi_bcc = msg_bcc msg,
      wmi_subject = Some (msg_subject msg), wmi_preview = Some (msg_preview msg), wmi_size = msg_size msg,
      wmi_attachments = map wire_attachment_of (msg_attachments msg), wmi_in_reply_to = msg_in_reply_to msg,
      wmi_created_at = msg_created_at msg, wmi_updated_at = msg_updated_at msg\<rparr>"

definition wire_message_item_fields :: "wire_message_item \<Rightarrow> (string \<times> json) list" where
  "wire_message_item_fields m =
     [json_text ''inbox_id'' (wmi_inbox_id m), json_text ''thread_id'' (thread_id_str (wmi_thread_id m)),
      json_text ''message_id'' (message_id_str (wmi_message_id m)),
      (''labels'', JArray (map JString (wmi_labels m))), json_text ''timestamp'' (wmi_timestamp m),
      json_text ''from'' (wmi_from m), (''to'', JArray (map JString (wmi_to m)))] @
     items_field JString ''cc'' (wmi_cc m) @ items_field JString ''bcc'' (wmi_bcc m) @
     some_field JString ''subject'' (wmi_subject m) @ some_field JString ''preview'' (wmi_preview m) @
     [(''size'', json_u64 (wmi_size m))] @
     items_field wire_attachment_json ''attachments'' (wmi_attachments m) @
     some_field JString ''in_reply_to'' (wmi_in_reply_to m) @
     [json_text ''created_at'' (wmi_created_at m), json_text ''updated_at'' (wmi_updated_at m)]"

definition wire_message_item_json :: "wire_message_item \<Rightarrow> json" where
  "wire_message_item_json m = JObject (wire_message_item_fields m)"

section \<open>Threads\<close>

record wire_thread_item =
  wti_inbox_id :: string
  wti_thread_id :: thread_id
  wti_labels :: "string list"
  wti_timestamp :: string
  wti_senders :: "string list"
  wti_recipients :: "string list"
  wti_last_message_id :: message_id
  wti_message_count :: u64
  wti_size :: u64
  wti_created_at :: string
  wti_updated_at :: string
  wti_received_timestamp :: "string option"
  wti_sent_timestamp :: "string option"
  wti_subject :: "string option"
  wti_preview :: "string option"
  wti_attachments :: "wire_attachment list"

text \<open>\<open>(!s.is_empty()).then_some(s)\<close>.\<close>

definition nonempty :: "string \<Rightarrow> string option" where
  "nonempty s = (if s = [] then None else Some s)"

definition snapshot_default :: thread_snapshot where
  "snapshot_default =
     \<lparr>snap_thread_id = ThreadId [], snap_subject = [], snap_preview = [], snap_message_count = 0,
      snap_labels = [], snap_senders = [], snap_recipients = [], snap_timestamp = [], snap_created_at = [],
      snap_updated_at = [], snap_last_message_id = MessageId [], snap_size = 0,
      snap_received_timestamp = None, snap_sent_timestamp = None, snap_attachments = []\<rparr>"

definition thread_item_of_message :: "mail_message \<Rightarrow> wire_thread_item" where
  "thread_item_of_message msg =
     (let snapshot = (case msg_thread_snapshot msg of None \<Rightarrow> snapshot_default | Some s \<Rightarrow> s) in
      \<lparr>wti_inbox_id = inbox_str (msg_inbox_id msg), wti_thread_id = msg_thread_id msg,
       wti_labels = snap_labels snapshot, wti_timestamp = snap_timestamp snapshot,
       wti_senders = snap_senders snapshot, wti_recipients = snap_recipients snapshot,
       wti_last_message_id = snap_last_message_id snapshot, wti_message_count = snap_message_count snapshot,
       wti_size = snap_size snapshot, wti_created_at = snap_created_at snapshot,
       wti_updated_at = snap_updated_at snapshot, wti_received_timestamp = snap_received_timestamp snapshot,
       wti_sent_timestamp = snap_sent_timestamp snapshot, wti_subject = nonempty (snap_subject snapshot),
       wti_preview = nonempty (snap_preview snapshot),
       wti_attachments = map wire_attachment_of (snap_attachments snapshot)\<rparr>)"

definition thread_item_of_thread :: "thread_state \<Rightarrow> wire_thread_item" where
  "thread_item_of_thread thread =
     \<lparr>wti_inbox_id = inbox_str (thr_inbox_id thread), wti_thread_id = thr_thread_id thread,
      wti_labels = thr_labels thread, wti_timestamp = thr_timestamp thread, wti_senders = thr_senders thread,
      wti_recipients = thr_recipients thread, wti_last_message_id = thr_last_message_id thread,
      wti_message_count = thr_message_count thread, wti_size = thr_size thread,
      wti_created_at = thr_created_at thread, wti_updated_at = thr_updated_at thread,
      wti_received_timestamp = thr_received_timestamp thread, wti_sent_timestamp = thr_sent_timestamp thread,
      wti_subject = nonempty (thr_subject thread), wti_preview = nonempty (thr_preview thread),
      wti_attachments = map wire_attachment_of (thr_attachments thread)\<rparr>"

definition wire_thread_item_json :: "wire_thread_item \<Rightarrow> json" where
  "wire_thread_item_json t = JObject
     ([json_text ''inbox_id'' (wti_inbox_id t), json_text ''thread_id'' (thread_id_str (wti_thread_id t)),
       (''labels'', JArray (map JString (wti_labels t))), json_text ''timestamp'' (wti_timestamp t),
       (''senders'', JArray (map JString (wti_senders t))),
       (''recipients'', JArray (map JString (wti_recipients t))),
       json_text ''last_message_id'' (message_id_str (wti_last_message_id t)),
       (''message_count'', json_u64 (wti_message_count t)), (''size'', json_u64 (wti_size t)),
       json_text ''created_at'' (wti_created_at t), json_text ''updated_at'' (wti_updated_at t)] @
      some_field JString ''received_timestamp'' (wti_received_timestamp t) @
      some_field JString ''sent_timestamp'' (wti_sent_timestamp t) @
      some_field JString ''subject'' (wti_subject t) @ some_field JString ''preview'' (wti_preview t) @
      items_field wire_attachment_json ''attachments'' (wti_attachments t))"

record wire_thread =
  wth_inbox_id :: string
  wth_thread_id :: thread_id
  wth_labels :: "string list"
  wth_timestamp :: string
  wth_senders :: "string list"
  wth_recipients :: "string list"
  wth_last_message_id :: message_id
  wth_message_count :: u64
  wth_size :: u64
  wth_updated_at :: string
  wth_created_at :: string
  wth_messages :: "wire_message list"
  wth_count :: nat
  wth_limit :: nat
  wth_next_page_token :: "string option"
  wth_received_timestamp :: "string option"
  wth_sent_timestamp :: "string option"
  wth_subject :: "string option"
  wth_preview :: "string option"
  wth_attachments :: "wire_attachment list"

definition wire_thread_new :: "thread_state \<Rightarrow> wire_message list \<Rightarrow> nat \<Rightarrow> string option \<Rightarrow> wire_thread" where
  "wire_thread_new thread messages limit next_page_token =
     (let t = thread_item_of_thread thread in
      \<lparr>wth_inbox_id = wti_inbox_id t, wth_thread_id = wti_thread_id t, wth_labels = wti_labels t,
       wth_timestamp = wti_timestamp t, wth_senders = wti_senders t, wth_recipients = wti_recipients t,
       wth_last_message_id = wti_last_message_id t, wth_message_count = wti_message_count t,
       wth_size = wti_size t, wth_updated_at = wti_updated_at t, wth_created_at = wti_created_at t,
       wth_messages = messages, wth_count = length messages, wth_limit = limit,
       wth_next_page_token = next_page_token, wth_received_timestamp = wti_received_timestamp t,
       wth_sent_timestamp = wti_sent_timestamp t, wth_subject = wti_subject t, wth_preview = wti_preview t,
       wth_attachments = wti_attachments t\<rparr>)"

definition wire_thread_json :: "wire_thread \<Rightarrow> json" where
  "wire_thread_json t = JObject
     ([json_text ''inbox_id'' (wth_inbox_id t), json_text ''thread_id'' (thread_id_str (wth_thread_id t)),
       (''labels'', JArray (map JString (wth_labels t))), json_text ''timestamp'' (wth_timestamp t),
       (''senders'', JArray (map JString (wth_senders t))),
       (''recipients'', JArray (map JString (wth_recipients t))),
       json_text ''last_message_id'' (message_id_str (wth_last_message_id t)),
       (''message_count'', json_u64 (wth_message_count t)), (''size'', json_u64 (wth_size t)),
       json_text ''updated_at'' (wth_updated_at t), json_text ''created_at'' (wth_created_at t),
       (''messages'', JArray (map wire_message_json (wth_messages t))),
       (''count'', json_nat (wth_count t)), (''limit'', json_nat (wth_limit t))] @
      some_field JString ''next_page_token'' (wth_next_page_token t) @
      some_field JString ''received_timestamp'' (wth_received_timestamp t) @
      some_field JString ''sent_timestamp'' (wth_sent_timestamp t) @
      some_field JString ''subject'' (wth_subject t) @ some_field JString ''preview'' (wth_preview t) @
      items_field wire_attachment_json ''attachments'' (wth_attachments t))"

section \<open>Inboxes and lists\<close>

record wire_inbox =
  win_pod_id :: string
  win_inbox_id :: string
  win_email :: string
  win_updated_at :: string
  win_created_at :: string
  win_display_name :: "string option"
  win_client_id :: "string option"
  win_metadata :: "json option"

definition wire_inbox_of :: "inbox \<Rightarrow> wire_inbox" where
  "wire_inbox_of i =
     \<lparr>win_pod_id = ''pod_default'', win_inbox_id = inbox_str (inb_inbox_id i), win_email = inb_email i,
      win_updated_at = inb_updated_at i, win_created_at = inb_created_at i,
      win_display_name = inb_display_name i, win_client_id = None,
      win_metadata = inb_metadata i\<rparr>"

definition wire_inbox_json :: "wire_inbox \<Rightarrow> json" where
  "wire_inbox_json i = JObject
     ([json_text ''pod_id'' (win_pod_id i), json_text ''inbox_id'' (win_inbox_id i),
       json_text ''email'' (win_email i), json_text ''updated_at'' (win_updated_at i),
       json_text ''created_at'' (win_created_at i)] @
      some_field JString ''display_name'' (win_display_name i) @
      some_field JString ''client_id'' (win_client_id i) @ some_field id ''metadata'' (win_metadata i))"

record wire_inbox_list =
  wil_count :: nat
  wil_limit :: nat
  wil_inboxes :: "wire_inbox list"
  wil_next_page_token :: "string option"

record wire_message_list =
  wml_count :: nat
  wml_limit :: nat
  wml_messages :: "wire_message_item list"
  wml_next_page_token :: "string option"

record wire_thread_list =
  wtl_count :: nat
  wtl_limit :: nat
  wtl_threads :: "wire_thread_item list"
  wtl_next_page_token :: "string option"

definition list_json :: "nat \<Rightarrow> nat \<Rightarrow> string \<Rightarrow> json list \<Rightarrow> string option \<Rightarrow> json" where
  "list_json count limit collection shown next_page_token = JObject
     ([(''count'', json_nat count), (''limit'', json_nat limit), (collection, JArray shown)] @
      some_field JString ''next_page_token'' next_page_token)"

definition wire_inbox_list_json :: "wire_inbox_list \<Rightarrow> json" where
  "wire_inbox_list_json l =
     list_json (wil_count l) (wil_limit l) ''inboxes'' (map wire_inbox_json (wil_inboxes l)) (wil_next_page_token l)"

definition wire_message_list_json :: "wire_message_list \<Rightarrow> json" where
  "wire_message_list_json l = list_json (wml_count l) (wml_limit l) ''messages''
     (map wire_message_item_json (wml_messages l)) (wml_next_page_token l)"

definition wire_thread_list_json :: "wire_thread_list \<Rightarrow> json" where
  "wire_thread_list_json l = list_json (wtl_count l) (wtl_limit l) ''threads''
     (map wire_thread_item_json (wtl_threads l)) (wtl_next_page_token l)"

record wire_download =
  wdl_download_url :: string
  wdl_expires_at :: string
  wdl_size :: u64
  wdl_message_id :: "message_id option"
  wdl_attachment_id :: "string option"
  wdl_filename :: "string option"
  wdl_content_type :: "string option"
  wdl_content_disposition :: "content_disposition option"
  wdl_content_id :: "string option"

definition wire_download_json :: "wire_download \<Rightarrow> json" where
  "wire_download_json d = JObject
     ([json_text ''download_url'' (wdl_download_url d), json_text ''expires_at'' (wdl_expires_at d),
       (''size'', json_u64 (wdl_size d))] @
      some_field (JString \<circ> message_id_str) ''message_id'' (wdl_message_id d) @
      some_field JString ''attachment_id'' (wdl_attachment_id d) @
      some_field JString ''filename'' (wdl_filename d) @ some_field JString ''content_type'' (wdl_content_type d) @
      some_field content_disposition_json ''content_disposition'' (wdl_content_disposition d) @
      some_field JString ''content_id'' (wdl_content_id d))"

record wire_message_labels =
  wlb_message_id :: message_id
  wlb_labels :: "string list"

definition wire_message_labels_json :: "wire_message_labels \<Rightarrow> json" where
  "wire_message_labels_json l = JObject
     [json_text ''message_id'' (message_id_str (wlb_message_id l)), (''labels'', JArray (map JString (wlb_labels l)))]"

section \<open>Views\<close>

text \<open>What the list view of a message omits of the full one.\<close>

definition OMITTED_IN_LISTS :: "string list" where
  "OMITTED_IN_LISTS = [''headers'', ''references'', ''reply_to'', ''text'', ''html'', ''extracted_text'', ''extracted_html'']"

lemma map_of_some_field [simp]: "map_of (some_field enc name v) k = (if k = name then map_option enc v else None)"
  by (simp add: some_field_def split: option.split)

lemma map_of_items_field [simp]:
  "map_of (items_field enc name v) k = (if k = name \<and> v \<noteq> [] then Some (JArray (map enc v)) else None)"
  by (simp add: items_field_def)

lemma map_of_entries_field [simp]: "k \<noteq> name \<Longrightarrow> map_of (entries_field name m) k = None"
  by (simp add: entries_field_def)

theorem item_is_message_view:
  "map_of (wire_message_item_fields (wire_message_item_of msg)) k =
    (if k \<in> set OMITTED_IN_LISTS then None
     else map_of (wire_message_fields (wire_message_new msg content)) k)"
  by (simp add: wire_message_item_fields_def wire_message_item_of_def wire_message_fields_def
      wire_message_new_def OMITTED_IN_LISTS_def map_add_def split: option.split)

end
