(* ===== verification/Publish.thy ===== *)
theory Publish
  imports Wire EventStore
begin

text \<open>
  \<open>webhook/src/publish.rs\<close>: the EventBridge detail of a persisted event, and how it is reduced until its
  entry fits. A \<open>serde_json::Value\<close> keeps an object as a sorted map; \<open>serde_json::to_vec\<close> is a parameter.
\<close>

section \<open>Values\<close>

definition json_object :: "(string \<times> json) list \<Rightarrow> json" where
  "json_object kvs = JObject (collapse kvs)"

fun json_get :: "string \<Rightarrow> json \<Rightarrow> json option" where
  "json_get name (JObject kvs) = map_of kvs name"
| "json_get name _ = None"

text \<open>\<open>value[name] = v\<close> and \<open>Map::remove\<close>, \<open>Map::retain\<close>; the values they are used on are objects.\<close>

fun json_set :: "string \<Rightarrow> json \<Rightarrow> json \<Rightarrow> json" where
  "json_set name v (JObject kvs) = json_object (kvs @ [(name, v)])"
| "json_set name v j = j"

fun json_retain :: "(string \<Rightarrow> bool) \<Rightarrow> json \<Rightarrow> json" where
  "json_retain keep (JObject kvs) = JObject (filter (keep \<circ> fst) kvs)"
| "json_retain keep j = j"

definition json_remove :: "string \<Rightarrow> json \<Rightarrow> json" where
  "json_remove name = json_retain (\<lambda>k. k \<noteq> name)"

text \<open>\<open>get_mut(name)\<close> followed by an update of what is there.\<close>

definition json_at :: "string \<Rightarrow> (json \<Rightarrow> json) \<Rightarrow> json \<Rightarrow> json" where
  "json_at name f j = (case json_get name j of None \<Rightarrow> j | Some v \<Rightarrow> json_set name (f v) j)"

section \<open>The detail\<close>

definition SCHEMA_VERSION :: nat where "SCHEMA_VERSION = 1"
definition MAX_DETAIL_BYTES :: nat where "MAX_DETAIL_BYTES = 250000"
definition PUT_EVENTS_ENTRY_CAP_BYTES :: nat where "PUT_EVENTS_ENTRY_CAP_BYTES = 262144"

definition META_KEPT_WHEN_OVERSIZED :: "string list" where
  "META_KEPT_WHEN_OVERSIZED = [''messageId'', ''snsMessageId'', ''webhookPath'', ''s3'']"

record outbound_event =
  out_detail_type :: string
  out_detail :: json

definition detail_bytes :: "(json \<Rightarrow> bytes option) \<Rightarrow> json \<Rightarrow> nat" where
  "detail_bytes to_vec detail = (case to_vec detail of None \<Rightarrow> 2 ^ 64 - 1 | Some bs \<Rightarrow> length bs)"

definition s3_json :: "string \<times> string \<Rightarrow> json" where
  "s3_json pointer = json_object [json_text ''bucket'' (fst pointer), json_text ''key'' (snd pointer)]"

definition outbound_meta :: "event_record \<Rightarrow> domain_event \<Rightarrow> json" where
  "outbound_meta record event = json_object
     ([json_text ''snsMessageId'' (rec_sns_message_id record), json_text ''messageId'' (rec_aggregate_id record),
       json_text ''topicArn'' (rec_topic_arn record), json_text ''receivedAt'' (rec_received_at record),
       (''webhookPath'', json_opt (map_option webhook_path (rec_source record)))] @
      some_field JString ''previousMessageId'' (previous_message_id event) @
      some_field s3_json ''s3'' (event_s3_pointer event) @
      some_field id ''inbound'' (map_option to_value (inbound_meta event)))"

text \<open>Step 1 drops the raw MIME, step 2 the payload, step 3 what is not needed to find the record.\<close>

definition strip_content :: "json \<Rightarrow> json" where
  "strip_content = json_at ''event'' (json_at ''content'' (\<lambda>_. JNull))"

definition payload_pointer :: json where
  "payload_pointer = json_object [(''payloadOmitted'', JBool True),
     json_text ''reason'' ''event payload exceeds the EventBridge entry size limit'']"

definition reduce_meta :: "json \<Rightarrow> json" where
  "reduce_meta = json_at ''meta'' (json_retain (\<lambda>k. k \<in> set META_KEPT_WHEN_OVERSIZED))"

definition build_outbound_event ::
  "(json \<Rightarrow> bytes option) \<Rightarrow> event_record \<Rightarrow> domain_event \<Rightarrow> string \<Rightarrow> outbound_event" where
  "build_outbound_event to_vec record event event_source =
     (let size = detail_bytes to_vec;
          detail = json_object [(''schemaVersion'', json_nat SCHEMA_VERSION),
            (''meta'', outbound_meta record event), (''event'', payload event)]
      in if size detail \<le> MAX_DETAIL_BYTES
         then \<lparr>out_detail_type = rec_detail_type record, out_detail = detail\<rparr>
         else
           let detail = strip_content detail;
               detail = (if size detail > MAX_DETAIL_BYTES then json_set ''event'' payload_pointer detail else detail);
               envelope = length (rec_detail_type record) + length event_source;
               detail = (if size detail > PUT_EVENTS_ENTRY_CAP_BYTES - envelope then reduce_meta detail else detail)
           in \<lparr>out_detail_type = rec_detail_type record, out_detail = detail\<rparr>)"

section \<open>Compact JSON\<close>

text \<open>
  The reference for \<open>serde_json::to_vec\<close>: JSON without spaces, its strings escaped where JSON asks for it.
\<close>

definition escape_json :: "char \<Rightarrow> string" where
  "escape_json c =
     (if c = CHR 0x22 then [CHR 0x5C, CHR 0x22] else if c = CHR 0x5C then [CHR 0x5C, CHR 0x5C]
      else if c = CHR 0x08 then [CHR 0x5C, CHR ''b''] else if c = CHR 0x09 then [CHR 0x5C, CHR ''t'']
      else if c = CHR 0x0A then [CHR 0x5C, CHR ''n''] else if c = CHR 0x0C then [CHR 0x5C, CHR ''f'']
      else if c = CHR 0x0D then [CHR 0x5C, CHR ''r'']
      else if (of_char c :: nat) < 32 then [CHR 0x5C] @ ''u00'' @ fixed 16 2 (of_char c) else [c])"

definition quote_json :: "string \<Rightarrow> string" where
  "quote_json s = CHR 0x22 # concat (map escape_json s) @ [CHR 0x22]"

fun commas :: "string list \<Rightarrow> string" where
  "commas [] = []"
| "commas [s] = s"
| "commas (s # ss) = s @ '','' @ commas ss"

primrec json_print :: "json \<Rightarrow> string" where
  "json_print JNull = ''null''"
| "json_print (JBool b) = (if b then ''true'' else ''false'')"
| "json_print (JNumber n) = n"
| "json_print (JString s) = quote_json s"
| "json_print (JArray vs) = ''['' @ commas (map json_print vs) @ '']''"
| "json_print (JObject kvs) =
     ''{'' @ commas (map (\<lambda>(k, s). quote_json k @ '':'' @ s) (map (map_prod id json_print) kvs)) @ ''}''"

definition compact :: "(json \<Rightarrow> bytes option) \<Rightarrow> bool" where
  "compact to_vec \<longleftrightarrow> (\<forall>v. to_vec v = Some (as_bytes (json_print v)))"

abbreviation json_len :: "json \<Rightarrow> nat" where "json_len v \<equiv> length (json_print v)"

lemma detail_bytes_compact: "compact to_vec \<Longrightarrow> detail_bytes to_vec v = json_len v"
  by (simp add: compact_def detail_bytes_def as_bytes_def)

subsection \<open>Sizes\<close>

lemma length_commas: "length (commas ss) \<le> (\<Sum>s\<leftarrow>ss. Suc (length s))"
  by (induction ss rule: commas.induct) auto

lemma escape_json_length: "length (escape_json c) \<le> (if (of_char c :: nat) < 32 then 6 else 2)"
  by (simp add: escape_json_def)

lemma quote_json_length: "length (quote_json s) \<le> 6 * length s + 2"
proof -
  have "length (concat (map escape_json s)) \<le> 6 * length s"
  proof (induction s)
    case (Cons c s)
    then show ?case using escape_json_length [of c] by (simp split: if_splits)
  qed simp
  then show ?thesis by (simp add: quote_json_def)
qed

lemma quote_json_plain:
  assumes "list_all (\<lambda>c. 32 \<le> (of_char c :: nat)) s"
  shows "length (quote_json s) \<le> 2 * length s + 2"
proof -
  have "length (concat (map escape_json s)) \<le> 2 * length s"
    using assms
  proof (induction s)
    case (Cons c s)
    then show ?case using escape_json_length [of c] by simp
  qed simp
  then show ?thesis by (simp add: quote_json_def)
qed

text \<open>What a member adds, at most.\<close>

definition member_len :: "string \<times> json \<Rightarrow> nat" where
  "member_len m = length (quote_json (fst m)) + 2 + json_len (snd m)"

lemma json_len_object: "json_len (JObject kvs) \<le> 2 + (\<Sum>m\<leftarrow>kvs. member_len m)"
proof -
  have "(\<Sum>s\<leftarrow>map (\<lambda>(k, s). quote_json k @ '':'' @ s) (map (map_prod id json_print) kvs). Suc (length s)) =
    (\<Sum>m\<leftarrow>kvs. member_len m)"
    by (induction kvs) (auto simp: member_len_def)
  then show ?thesis
    using length_commas [of "map (\<lambda>(k, s). quote_json k @ '':'' @ s) (map (map_prod id json_print) kvs)"] by simp
qed

lemma json_len_array: "json_len (JArray vs) \<le> 2 + (\<Sum>v\<leftarrow>vs. Suc (json_len v))"
  using length_commas [of "map json_print vs"] by (simp add: comp_def)

lemma json_len_strings:
  assumes "\<And>s. s \<in> set ss \<Longrightarrow> length (quote_json s) \<le> n"
  shows "json_len (JArray (map JString ss)) \<le> 2 + length ss * Suc n"
proof -
  have "(\<Sum>v\<leftarrow>map JString ss. Suc (json_len v)) \<le> length ss * Suc n"
    using assms
  proof (induction ss)
    case (Cons s ss)
    then have "length (quote_json s) \<le> n" and "(\<Sum>v\<leftarrow>map JString ss. Suc (json_len v)) \<le> length ss * Suc n" by auto
    then show ?case by simp
  qed simp
  then show ?thesis using json_len_array [of "map JString ss"] by simp
qed


subsection \<open>Sorted objects\<close>

lemma map_of_graph: "map_of (map (\<lambda>k. (k, f k)) ks) k = (if k \<in> set ks then Some (f k) else None)"
  by (induction ks) auto

lemma map_of_collapse [simp]: "map_of (collapse kvs) = map_of (rev kvs)"
proof
  fix k
  have "map_of (collapse kvs) k = (if k \<in> fst ` set kvs then Some (the (map_of (rev kvs) k)) else None)"
    by (simp add: collapse_def map_of_graph)
  then show "map_of (collapse kvs) k = map_of (rev kvs) k"
    using map_of_eq_None_iff [of "rev kvs" k] by (cases "map_of (rev kvs) k") auto
qed

lemma map_of_rev_distinct: "distinct (map fst kvs) \<Longrightarrow> map_of (rev kvs) = map_of kvs"
proof (induction kvs)
  case (Cons m kvs)
  then have "map_of kvs (fst m) = None" by (simp add: map_of_eq_None_iff)
  with Cons show ?case by (auto simp: map_add_def fun_eq_iff split: option.split)
qed simp

lemma keys_collapse [simp]: "set (map fst (collapse kvs)) = fst ` set kvs"
  by (simp add: collapse_def comp_def)

lemma distinct_collapse: "distinct (map fst (collapse kvs))"
  by (simp add: collapse_def comp_def)

lemma collapse_snoc_sum:
  "(\<Sum>k\<in>fst ` set (kvs @ [(a, v)]). g (k, the (map_of (rev (kvs @ [(a, v)])) k))) \<le>
   (\<Sum>k\<in>fst ` set kvs. g (k, the (map_of (rev kvs) k))) + (g (a, v) :: nat)"
proof -
  let ?K = "fst ` set kvs"
  have keys: "fst ` set (kvs @ [(a, v)]) = insert a (?K - {a})" by auto
  have "(\<Sum>k\<in>fst ` set (kvs @ [(a, v)]). g (k, the (map_of (rev (kvs @ [(a, v)])) k))) =
      g (a, v) + (\<Sum>k\<in>?K - {a}. g (k, the (map_of (rev (kvs @ [(a, v)])) k)))"
    unfolding keys by (subst sum.insert) simp_all
  also have "(\<Sum>k\<in>?K - {a}. g (k, the (map_of (rev (kvs @ [(a, v)])) k))) =
      (\<Sum>k\<in>?K - {a}. g (k, the (map_of (rev kvs) k)))"
    by (rule sum.cong) auto
  also have "\<dots> \<le> (\<Sum>k\<in>?K. g (k, the (map_of (rev kvs) k)))"
    by (rule sum_mono2) auto
  finally show ?thesis by simp
qed

lemma collapse_sum: "(\<Sum>m\<leftarrow>collapse kvs. g m) \<le> (\<Sum>m\<leftarrow>kvs. (g m :: nat))"
proof -
  have eq: "(\<Sum>m\<leftarrow>collapse kvs. g m) = (\<Sum>k\<in>fst ` set kvs. g (k, the (map_of (rev kvs) k)))" for kvs
    by (simp add: collapse_def comp_def sum_list_distinct_conv_sum_set)
  have "(\<Sum>k\<in>fst ` set kvs. g (k, the (map_of (rev kvs) k))) \<le> (\<Sum>m\<leftarrow>kvs. g m)"
  proof (induction kvs rule: rev_induct)
    case (snoc m kvs)
    obtain a v where m: "m = (a, v)" by fastforce
    show ?case using collapse_snoc_sum [of g kvs a v] snoc by (simp add: m del: set_append rev_append)
  qed simp
  then show ?thesis by (simp add: eq)
qed

lemma json_len_sorted: "json_len (json_object kvs) \<le> 2 + (\<Sum>m\<leftarrow>kvs. member_len m)"
  using json_len_object [of "collapse kvs"] collapse_sum [of member_len kvs] by (simp add: json_object_def)

lemma json_get_object [simp]: "json_get name (json_object kvs) = map_of (rev kvs) name"
  by (simp add: json_object_def)

lemma json_get_set [simp]:
  "json_get name (json_set name' v (JObject kvs)) = (if name = name' then Some v else map_of kvs name)"
  if "distinct (map fst kvs)"
  using that by (simp add: map_of_rev_distinct)

lemma collapse_sorted_eq: "map_of (rev kvs) = map_of (rev kvs') \<Longrightarrow> collapse kvs = collapse kvs'"
proof -
  assume eq: "map_of (rev kvs) = map_of (rev kvs')"
  have "fst ` set kvs = dom (map_of (rev kvs))" for kvs :: "(string \<times> 'a) list"
    by (simp add: dom_map_of_conv_image_fst)
  then have "set (map fst kvs) = set (map fst kvs')" using eq by (metis set_map)
  then have "sort (remdups (map fst kvs)) = sort (remdups (map fst kvs'))"
    by (intro sorted_distinct_set_unique) simp_all
  then show ?thesis by (simp add: collapse_def eq)
qed


lemma json_set_object [simp]: "json_set name v (json_object kvs) = json_object (kvs @ [(name, v)])"
proof -
  have "collapse (collapse kvs @ [(name, v)]) = collapse (kvs @ [(name, v)])"
    by (rule collapse_sorted_eq) (simp add: map_of_rev_distinct distinct_collapse)
  then show ?thesis by (simp add: json_object_def)
qed

lemma json_at_object [simp]:
  "json_at name f (json_object kvs) =
    (case map_of (rev kvs) name of None \<Rightarrow> json_object kvs | Some v \<Rightarrow> json_object (kvs @ [(name, f v)]))"
  by (simp add: json_at_def split: option.split)

lemma map_of_filter_key: "map_of (filter (keep \<circ> fst) kvs) name = (if keep name then map_of kvs name else None)"
  by (induction kvs) auto

lemma json_get_retain [simp]: "json_get name (json_retain keep j) = (if keep name then json_get name j else None)"
  by (cases j) (simp_all add: map_of_filter_key)

lemma json_len_retain:
  "json_len (json_retain keep (json_object kvs)) \<le> 2 + (\<Sum>m\<leftarrow>filter (keep \<circ> fst) kvs. member_len m)"
  using json_len_object [of "filter (keep \<circ> fst) (collapse kvs)"]
    collapse_sum [of "\<lambda>m. if keep (fst m) then member_len m else 0" kvs]
  by (simp add: json_object_def sum_list_map_filter')

section \<open>What a consumer receives\<close>

definition outbound_detail :: "event_record \<Rightarrow> domain_event \<Rightarrow> (string \<times> json) list" where
  "outbound_detail record event = [(''schemaVersion'', json_nat SCHEMA_VERSION),
     (''meta'', outbound_meta record event), (''event'', payload event)]"

definition slim_payload :: "json \<Rightarrow> json" where
  "slim_payload = json_at ''content'' (\<lambda>_. JNull)"

lemma strip_detail:
  "strip_content (json_object (outbound_detail record event)) =
    json_object (outbound_detail record event @ [(''event'', slim_payload (payload event))])"
  by (simp add: strip_content_def slim_payload_def outbound_detail_def)

text \<open>The three forms a detail is published in, before its meta is reduced.\<close>

lemma build_outbound_event_cases:
  obtains (Whole) "out_detail (build_outbound_event to_vec r e src) = json_object (outbound_detail r e)"
      "detail_bytes to_vec (json_object (outbound_detail r e)) \<le> MAX_DETAIL_BYTES"
    | (Reduced) tail small where "set (map fst tail) = {''event''}"
      "tail = [(''event'', slim_payload (payload e))] \<and>
         detail_bytes to_vec (json_object (outbound_detail r e @ tail)) \<le> MAX_DETAIL_BYTES \<or>
       tail = [(''event'', slim_payload (payload e)), (''event'', payload_pointer)]"
      "out_detail (build_outbound_event to_vec r e src) =
         (if small then json_object (outbound_detail r e @ tail)
          else reduce_meta (json_object (outbound_detail r e @ tail)))"
      "small \<longleftrightarrow> detail_bytes to_vec (json_object (outbound_detail r e @ tail)) \<le>
         PUT_EVENTS_ENTRY_CAP_BYTES - (length (rec_detail_type r) + length src)"
proof -
  let ?d = "json_object (outbound_detail r e)"
  define tail where "tail = (if detail_bytes to_vec (strip_content ?d) > MAX_DETAIL_BYTES
    then [(''event'', slim_payload (payload e)), (''event'', payload_pointer)]
    else [(''event'', slim_payload (payload e))])"
  have set_tail: "(if detail_bytes to_vec (strip_content ?d) > MAX_DETAIL_BYTES
      then json_set ''event'' payload_pointer (strip_content ?d) else strip_content ?d) =
    json_object (outbound_detail r e @ tail)"
    by (simp add: tail_def strip_detail)
  show thesis
  proof (cases "detail_bytes to_vec ?d \<le> MAX_DETAIL_BYTES")
    case True
    then show ?thesis by (intro Whole) (simp_all add: build_outbound_event_def outbound_detail_def Let_def)
  next
    case False
    have "out_detail (build_outbound_event to_vec r e src) =
      (if detail_bytes to_vec (json_object (outbound_detail r e @ tail)) \<le>
          PUT_EVENTS_ENTRY_CAP_BYTES - (length (rec_detail_type r) + length src)
       then json_object (outbound_detail r e @ tail) else reduce_meta (json_object (outbound_detail r e @ tail)))"
      using False unfolding build_outbound_event_def Let_def outbound_detail_def [symmetric] set_tail by simp
    moreover have "tail = [(''event'', slim_payload (payload e))] \<and>
         detail_bytes to_vec (json_object (outbound_detail r e @ tail)) \<le> MAX_DETAIL_BYTES \<or>
       tail = [(''event'', slim_payload (payload e)), (''event'', payload_pointer)]"
      by (auto simp: tail_def strip_detail)
    moreover have "set (map fst tail) = {''event''}" by (simp add: tail_def)
    ultimately show ?thesis by (intro Reduced) blast+
  qed
qed


lemma meta_members:
  "json_get ''messageId'' (outbound_meta r e) = Some (JString (rec_aggregate_id r))"
  "json_get ''snsMessageId'' (outbound_meta r e) = Some (JString (rec_sns_message_id r))"
  "json_get ''webhookPath'' (outbound_meta r e) = Some (json_opt (map_option webhook_path (rec_source r)))"
  "json_get ''s3'' (outbound_meta r e) = map_option s3_json (event_s3_pointer e)"
  by (simp_all add: outbound_meta_def some_field_def split: option.split)

lemma outbound_meta_kept:
  obtains meta where "json_get ''meta'' (out_detail (build_outbound_event to_vec r e src)) = Some meta"
    and "\<And>k. k \<in> set META_KEPT_WHEN_OVERSIZED \<Longrightarrow> json_get k meta = json_get k (outbound_meta r e)"
proof (cases rule: build_outbound_event_cases [of to_vec r e src])
  case Whole
  then show ?thesis by (intro that) (simp_all add: outbound_detail_def)
next
  case (Reduced tail small)
  have "map_of (rev tail) ''meta'' = None" using Reduced(1) by (simp add: map_of_eq_None_iff)
  then have "map_of (rev (outbound_detail r e @ tail)) ''meta'' = Some (outbound_meta r e)"
    by (simp add: outbound_detail_def map_add_def)
  note meta = this
  show ?thesis
  proof (cases small)
    case True
    then show ?thesis using meta Reduced(3) by (intro that [of "outbound_meta r e"]) simp_all
  next
    case False
    then have "out_detail (build_outbound_event to_vec r e src) = json_object (outbound_detail r e @ tail @
        [(''meta'', json_retain (\<lambda>k. k \<in> set META_KEPT_WHEN_OVERSIZED) (outbound_meta r e))])"
      using meta Reduced(3) by (simp only: reduce_meta_def json_at_object if_False option.case append_assoc)
    then show ?thesis by (intro that [of "json_retain (\<lambda>k. k \<in> set META_KEPT_WHEN_OVERSIZED) (outbound_meta r e)"]) simp_all
  qed
qed

text \<open>
  However far an event's detail is reduced, a consumer can find the record and the stored message: its
  meta still names the message, the notification, the path and the S3 object as the record has them.
\<close>

theorem outbound_locates_record:
  "\<exists>meta. json_get ''meta'' (out_detail (build_outbound_event to_vec r e src)) = Some meta \<and>
     json_get ''messageId'' meta = Some (JString (rec_aggregate_id r)) \<and>
     json_get ''snsMessageId'' meta = Some (JString (rec_sns_message_id r)) \<and>
     json_get ''webhookPath'' meta = Some (json_opt (map_option webhook_path (rec_source r))) \<and>
     json_get ''s3'' meta = map_option s3_json (event_s3_pointer e)"
proof -
  obtain meta where meta: "json_get ''meta'' (out_detail (build_outbound_event to_vec r e src)) = Some meta"
    and kept: "\<And>k. k \<in> set META_KEPT_WHEN_OVERSIZED \<Longrightarrow> json_get k meta = json_get k (outbound_meta r e)"
    by (rule outbound_meta_kept) blast
  have "json_get k meta = json_get k (outbound_meta r e)"
    if "k = ''messageId'' \<or> k = ''snsMessageId'' \<or> k = ''webhookPath'' \<or> k = ''s3''" for k
    using that by (intro kept) (auto simp: META_KEPT_WHEN_OVERSIZED_def)
  then show ?thesis using meta by (intro exI [of _ meta]) (simp add: meta_members)
qed

subsection \<open>Bounds\<close>

lemma member_len_le: "member_len (k, v) \<le> 6 * length k + 4 + json_len v"
  using quote_json_length [of k] by (simp add: member_len_def)

lemma json_len_text: "json_len (JString s) \<le> 6 * length s + 2"
  using quote_json_length [of s] by simp

lemma webhook_path_length: "length (webhook_path s) \<le> 22"
  by (cases s) simp_all

lemma json_opt_path: "json_len (json_opt (map_option webhook_path s)) \<le> 134"
  using json_len_text [of "webhook_path (the s)"] webhook_path_length [of "the s"]
  by (cases s) (simp_all add: json_opt_def)

definition pointer_len :: "(string \<times> string) option \<Rightarrow> nat" where
  "pointer_len p = (case p of None \<Rightarrow> 0 | Some (bucket, key) \<Rightarrow> length bucket + length key)"

lemma s3_len: "json_len (s3_json (b, k)) \<le> 6 * (length b + length k) + 70"
  using json_len_sorted [of "[json_text ''bucket'' b, json_text ''key'' k]"]
    member_len_le [of "''bucket''" "JString b"] member_len_le [of "''key''" "JString k"]
    json_len_text [of b] json_len_text [of k]
  by (simp add: s3_json_def)

lemma reduced_meta_len:
  "json_len (json_retain (\<lambda>k. k \<in> set META_KEPT_WHEN_OVERSIZED) (outbound_meta r e)) \<le>
     6 * (length (rec_sns_message_id r) + length (rec_aggregate_id r) + pointer_len (event_s3_pointer e)) + 500"
proof -
  let ?kvs = "[json_text ''snsMessageId'' (rec_sns_message_id r), json_text ''messageId'' (rec_aggregate_id r),
    (''webhookPath'', json_opt (map_option webhook_path (rec_source r)))] @
    some_field s3_json ''s3'' (event_s3_pointer e)"
  have sum: "(\<Sum>m\<leftarrow>?kvs. member_len m) \<le>
      6 * (length (rec_sns_message_id r) + length (rec_aggregate_id r) + pointer_len (event_s3_pointer e)) + 498"
    using member_len_le [of "''snsMessageId''" "JString (rec_sns_message_id r)"]
      member_len_le [of "''messageId''" "JString (rec_aggregate_id r)"]
      member_len_le [of "''webhookPath''" "json_opt (map_option webhook_path (rec_source r))"]
      member_len_le [of "''s3''" "s3_json (the (event_s3_pointer e))"]
      json_len_text [of "rec_sns_message_id r"] json_len_text [of "rec_aggregate_id r"]
      json_opt_path [of "rec_source r"]
      s3_len [of "fst (the (event_s3_pointer e))" "snd (the (event_s3_pointer e))"]
    by (cases "event_s3_pointer e") (auto simp: some_field_def pointer_len_def)
  have "filter ((\<lambda>k. k \<in> set META_KEPT_WHEN_OVERSIZED) \<circ> fst)
     ([json_text ''snsMessageId'' (rec_sns_message_id r), json_text ''messageId'' (rec_aggregate_id r),
       json_text ''topicArn'' (rec_topic_arn r), json_text ''receivedAt'' (rec_received_at r),
       (''webhookPath'', json_opt (map_option webhook_path (rec_source r)))] @
      some_field JString ''previousMessageId'' (previous_message_id e) @
      some_field s3_json ''s3'' (event_s3_pointer e) @
      some_field id ''inbound'' (map_option to_value (inbound_meta e))) = ?kvs"
    by (simp add: META_KEPT_WHEN_OVERSIZED_def some_field_def split: option.split)
  note eq = this
  have "json_len (json_retain (\<lambda>k. k \<in> set META_KEPT_WHEN_OVERSIZED) (outbound_meta r e)) \<le>
      2 + (\<Sum>m\<leftarrow>?kvs. member_len m)"
    unfolding outbound_meta_def eq [symmetric] by (rule json_len_retain)
  with sum show ?thesis by linarith
qed


lemma json_at_meta:
  assumes "set (map fst tail) = {''event''}" and "map_of (rev tail) ''event'' = Some v"
  shows "reduce_meta (json_object (outbound_detail r e @ tail)) = json_object
    [(''schemaVersion'', json_nat SCHEMA_VERSION),
     (''meta'', json_retain (\<lambda>k. k \<in> set META_KEPT_WHEN_OVERSIZED) (outbound_meta r e)), (''event'', v)]"
proof -
  have "map_of (rev tail) k = (if k = ''event'' then Some v else None)" for k
    using assms by (cases "k = ''event''") (auto simp: map_of_eq_None_iff)
  then show ?thesis unfolding reduce_meta_def json_at_object
    by (auto simp: json_object_def outbound_detail_def map_add_def fun_eq_iff intro!: collapse_sorted_eq split: option.split)
qed

lemma payload_pointer_len: "json_len payload_pointer \<le> 100"
  unfolding payload_pointer_def by code_simp

lemma pointer_detail_len:
  "json_len (json_object [(''schemaVersion'', json_nat SCHEMA_VERSION), (''meta'', m), (''event'', payload_pointer)]) \<le>
     json_len m + 300"
proof -
  have "json_len (json_nat SCHEMA_VERSION) = 1" unfolding SCHEMA_VERSION_def json_nat_def by code_simp
  then show ?thesis
    using json_len_sorted [of "[(''schemaVersion'', json_nat SCHEMA_VERSION), (''meta'', m), (''event'', payload_pointer)]"]
      member_len_le [of "''schemaVersion''" "json_nat SCHEMA_VERSION"] member_len_le [of "''meta''" m]
      member_len_le [of "''event''" payload_pointer] payload_pointer_len
    by simp
qed

text \<open>
  No payload is too large to publish: whatever the event holds, the entry of its detail fits the
  \<open>PutEvents\<close> cap, when the envelope and the ids and the object key, which AWS bounds, leave room.
\<close>

theorem outbound_entry_fits:
  assumes "compact to_vec"
    and envelope: "length (rec_detail_type r) + length src \<le> 12144"
    and ids: "length (rec_sns_message_id r) + length (rec_aggregate_id r) + pointer_len (event_s3_pointer e) \<le> 41000"
  shows "detail_bytes to_vec (out_detail (build_outbound_event to_vec r e src)) +
    length (out_detail_type (build_outbound_event to_vec r e src)) + length src \<le> PUT_EVENTS_ENTRY_CAP_BYTES"
proof -
  have dt: "out_detail_type (build_outbound_event to_vec r e src) = rec_detail_type r"
    by (simp add: build_outbound_event_def Let_def)
  show ?thesis
  proof (cases rule: build_outbound_event_cases [of to_vec r e src])
    case Whole
    then show ?thesis using envelope by (simp add: dt MAX_DETAIL_BYTES_def PUT_EVENTS_ENTRY_CAP_BYTES_def)
  next
    case (Reduced tail small)
    show ?thesis
    proof (cases small)
      case True
      then show ?thesis using Reduced(3,4) envelope by (simp add: dt PUT_EVENTS_ENTRY_CAP_BYTES_def)
    next
      case False
      then have "tail = [(''event'', slim_payload (payload e)), (''event'', payload_pointer)]"
        using Reduced(2,4) envelope by (auto simp: MAX_DETAIL_BYTES_def PUT_EVENTS_ENTRY_CAP_BYTES_def)
      then have "out_detail (build_outbound_event to_vec r e src) = json_object
          [(''schemaVersion'', json_nat SCHEMA_VERSION),
           (''meta'', json_retain (\<lambda>k. k \<in> set META_KEPT_WHEN_OVERSIZED) (outbound_meta r e)), (''event'', payload_pointer)]"
        using Reduced(3) False json_at_meta [of tail payload_pointer r e] by simp
      then show ?thesis
        using pointer_detail_len [of "json_retain (\<lambda>k. k \<in> set META_KEPT_WHEN_OVERSIZED) (outbound_meta r e)"]
          reduced_meta_len [of r e] ids envelope
        by (simp add: dt detail_bytes_compact [OF assms(1)] PUT_EVENTS_ENTRY_CAP_BYTES_def)
    qed
  qed
qed


definition compact_vec :: "json \<Rightarrow> bytes option" where
  "compact_vec v = Some (as_bytes (json_print v))"

lemma compact_vec: "compact compact_vec"
  by (simp add: compact_def compact_vec_def)

definition small_record :: event_record where
  "small_record =
     \<lparr>rec_aggregate_id = ''m-1'', rec_event_timestamp = ''2026-01-01T00:00:00.000Z'', rec_sns_message_id = ''sns-1'',
      rec_raw_body = [], rec_source = None, rec_detail_type = ''unknown'', rec_topic_arn = ''t'',
      rec_received_at = ''2026-01-01T00:00:01.000Z'', rec_expires_at = 0, rec_aggregate_expires_at = 0\<rparr>"

theorem outbound_entry_fits_witness:
  "detail_bytes compact_vec (out_detail (build_outbound_event compact_vec small_record
      (EvUnknown (JString (replicate 300000 CHR ''x''))) ''aws-messaging-webhook'')) +
    length (out_detail_type (build_outbound_event compact_vec small_record
      (EvUnknown (JString (replicate 300000 CHR ''x''))) ''aws-messaging-webhook'')) +
    length ''aws-messaging-webhook'' \<le> PUT_EVENTS_ENTRY_CAP_BYTES"
  by (rule outbound_entry_fits [OF compact_vec]) (simp_all add: small_record_def pointer_len_def)

end
