(* ===== verification/MailEvents.thy ===== *)
theory MailEvents
  imports Publish Mime
begin

text \<open>
  \<open>webhook/src/mail/events.rs\<close>: the mailbox's EventBridge details, one for the arrival of a message, one
  for its send and one for each SES event of a sent message. \<open>sha2\<close> and \<open>uuid\<close> are parameters.
\<close>

record mail_event =
  mev_detail_type :: string
  mev_detail :: json

definition MESSAGE_REQUIRED :: "string list" where
  "MESSAGE_REQUIRED = [''inbox_id'', ''thread_id'', ''message_id'', ''labels'', ''timestamp'', ''from'', ''to'', ''size'',
     ''updated_at'', ''created_at'']"

definition THREAD_REQUIRED :: "string list" where
  "THREAD_REQUIRED = [''inbox_id'', ''thread_id'', ''labels'', ''timestamp'', ''senders'', ''recipients'',
     ''last_message_id'', ''message_count'', ''size'', ''updated_at'', ''created_at'']"

definition received_event_type :: "string list \<Rightarrow> string" where
  "received_event_type labels =
     (if has_label labels LSpam then ''message.received.spam''
      else if has_label labels LUnauthenticated then ''message.received.unauthenticated''
      else ''message.received'')"

section \<open>Received messages\<close>

definition entry_cap :: "string \<Rightarrow> string \<Rightarrow> nat" where
  "entry_cap event_type event_source = PUT_EVENTS_ENTRY_CAP_BYTES - (length event_type + length event_source)"

definition retain_fields :: "string list \<Rightarrow> json \<Rightarrow> json" where
  "retain_fields keep = json_retain (\<lambda>k. k \<in> set keep)"

fun cap_received :: "(json \<Rightarrow> nat) \<Rightarrow> nat \<Rightarrow> string list \<Rightarrow> json \<Rightarrow> json" where
  "cap_received len cap [] detail =
     (if len detail \<le> cap then detail
      else json_at ''thread'' (retain_fields THREAD_REQUIRED) (json_at ''message'' (retain_fields MESSAGE_REQUIRED) detail))"
| "cap_received len cap (field # rest) detail =
     (if len detail \<le> cap then detail
      else cap_received len cap rest (json_at ''message'' (json_remove field) detail))"

definition cap_received_detail :: "(json \<Rightarrow> bytes option) \<Rightarrow> json \<Rightarrow> string \<Rightarrow> string \<Rightarrow> json" where
  "cap_received_detail to_vec detail event_type event_source =
     cap_received (detail_bytes to_vec) (entry_cap event_type event_source) [''html'', ''text'', ''headers''] detail"

definition drop_long :: "nat \<Rightarrow> string option \<Rightarrow> string option" where
  "drop_long cap body = (case body of None \<Rightarrow> None | Some s \<Rightarrow> if length s > cap then None else Some s)"

definition or_epoch :: "u64 option \<Rightarrow> u64" where
  "or_epoch ts = (case ts of None \<Rightarrow> 0 | Some ms \<Rightarrow> ms)"

definition build_received_event ::
  "id_libs \<Rightarrow> (json \<Rightarrow> bytes option) \<Rightarrow> mail_message \<Rightarrow> message_content \<Rightarrow> string \<Rightarrow> mail_event option" where
  "build_received_event I to_vec msg content event_source =
     (if \<not> has_label (msg_labels msg) LReceived then None
      else
        let event_type = received_event_type (msg_labels msg);
            ts_ms = or_epoch (time_parse (msg_timestamp msg));
            event_id = event_id I (inbox_str (msg_inbox_id msg)) (message_id_str (msg_message_id msg)) event_type ts_ms;
            cap = entry_cap event_type event_source;
            message = wire_message_new msg content;
            message = message\<lparr>wm_html := drop_long cap (wm_html message)\<rparr>;
            message = message\<lparr>wm_text := drop_long cap (wm_text message)\<rparr>;
            detail = json_object [json_text ''type'' ''event'', json_text ''event_type'' event_type,
              json_text ''event_id'' event_id, (''message'', to_value (wire_message_json message)),
              (''thread'', to_value (wire_thread_item_json (thread_item_of_message msg)))]
        in Some \<lparr>mev_detail_type = event_type,
             mev_detail = cap_received_detail to_vec detail event_type event_source\<rparr>)"

section \<open>Sent messages\<close>

definition build_sent_event :: "id_libs \<Rightarrow> mail_message \<Rightarrow> string list \<Rightarrow> mail_event option" where
  "build_sent_event I msg old_labels =
     (if \<not> has_label (msg_labels msg) LSent \<or> has_label old_labels LSent then None
      else
        let event_type = ''message.sent'';
            timestamp = (case msg_sent_at msg of None \<Rightarrow> msg_updated_at msg | Some t \<Rightarrow> t);
            ts_ms = or_epoch (time_parse timestamp);
            recipients = msg_to msg @ msg_cc msg @ msg_bcc msg
        in Some \<lparr>mev_detail_type = event_type, mev_detail = json_object
             [json_text ''type'' ''event'', json_text ''event_type'' event_type,
              json_text ''event_id'' (event_id I (inbox_str (msg_inbox_id msg)) (message_id_str (msg_message_id msg)) event_type ts_ms),
              (''send'', json_object
                [json_text ''inbox_id'' (inbox_str (msg_inbox_id msg)),
                 json_text ''thread_id'' (thread_id_str (msg_thread_id msg)),
                 json_text ''message_id'' (message_id_str (msg_message_id msg)),
                 json_text ''timestamp'' timestamp, (''recipients'', json_list recipients)])]\<rparr>)"

section \<open>SES events\<close>

definition or_empty :: "string option \<Rightarrow> string" where
  "or_empty s = (case s of None \<Rightarrow> [] | Some s \<Rightarrow> s)"

text \<open>The key of the event's object, its time, and the fields only it has.\<close>

fun ses_event_object :: "ses_notification \<Rightarrow> (string \<times> string option \<times> (string \<times> json) list) option" where
  "ses_event_object ses =
     (case ses_kind ses of
        KindDelivery \<Rightarrow> map_option (\<lambda>delivery.
          (''delivery'', dlv_timestamp delivery, [(''recipients'', json_list (dlv_recipients delivery))])) (ses_delivery ses)
      | KindBounce \<Rightarrow> map_option (\<lambda>bounce.
          (''bounce'', bnc_timestamp bounce,
           [json_text ''type'' (bounce_type_str (bnc_bounce_type bounce)),
            json_text ''sub_type'' (or_empty (bnc_bounce_sub_type bounce)),
            (''recipients'', JArray (map (\<lambda>recipient. json_object
              [json_text ''address'' (srp_email_address recipient), json_text ''status'' (or_empty (srp_status recipient))])
              (bnc_bounced_recipients bounce)))])) (ses_bounce ses)
      | KindComplaint \<Rightarrow> map_option (\<lambda>complaint.
          (''complaint'', cmp_timestamp complaint,
           [json_text ''type'' (or_empty (cmp_complaint_feedback_type complaint)),
            json_text ''sub_type'' (or_empty (cmp_complaint_sub_type complaint)),
            (''recipients'', json_list (map srp_email_address (cmp_complained_recipients complaint)))])) (ses_complaint ses)
      | KindReject \<Rightarrow> map_option (\<lambda>reject.
          (''reject'', None, [json_text ''reason'' (or_empty (rej_reason reject))])) (ses_reject ses)
      | KindOpen \<Rightarrow> map_option (\<lambda>opened. (''open'', eng_timestamp opened, [])) (ses_open ses)
      | _ \<Rightarrow> None)"

definition build_ses_event ::
  "id_libs \<Rightarrow> ses_notification \<Rightarrow> mail_message \<Rightarrow> string \<Rightarrow> string \<Rightarrow> mail_event option" where
  "build_ses_event I ses msg sns_id notified_at = do {
     event_type \<leftarrow> mailbox_event_type (ses_kind ses);
     (key, event_timestamp, extra) \<leftarrow> ses_event_object ses;
     let object = json_object ([json_text ''inbox_id'' (inbox_str (msg_inbox_id msg)),
           json_text ''thread_id'' (thread_id_str (msg_thread_id msg)),
           json_text ''message_id'' (message_id_str (msg_message_id msg)),
           json_text ''timestamp'' (case event_timestamp of None \<Rightarrow> notified_at | Some t \<Rightarrow> t)] @ extra);
         ts_ms = or_epoch (time_parse notified_at);
         event_id = ses_event_id I (inbox_str (msg_inbox_id msg)) (message_id_str (msg_message_id msg)) event_type sns_id ts_ms
     in Some \<lparr>mev_detail_type = event_type, mev_detail = json_set key object (json_object
          [json_text ''type'' ''event'', json_text ''event_type'' event_type, json_text ''event_id'' event_id])\<rparr> }"


section \<open>Details that fit\<close>

subsection \<open>Sizes\<close>

lemma radix_length: "n < 10 ^ w \<Longrightarrow> 0 < w \<Longrightarrow> length (radix 10 n) \<le> w"
  using arg_cong [OF pad0_radix [of 10 n w], of length] by (simp add: pad0_def)

lemma json_u64_len: "json_len (json_u64 n) \<le> 20"
proof -
  have "unat n < 10 ^ 20" using unsigned_less [of n, where 'a = nat] by simp
  then show ?thesis using radix_length [of "unat n" 20] by (simp add: json_nat_def)
qed

definition plain :: "string \<Rightarrow> bool" where
  "plain s \<longleftrightarrow> list_all (\<lambda>c. 32 \<le> (of_char c :: nat)) s"

lemma plain_len: "plain s \<Longrightarrow> length s \<le> n \<Longrightarrow> length (quote_json s) \<le> 2 * n + 2"
  using quote_json_plain [of s] by (simp add: plain_def)

lemma text_len: "length s \<le> n \<Longrightarrow> length (quote_json s) \<le> 6 * n + 2"
  using quote_json_length [of s] by simp

lemma strings_len:
  assumes "length ss \<le> k" and "\<And>s. s \<in> set ss \<Longrightarrow> length (quote_json s) \<le> n"
  shows "json_len (JArray (map JString ss)) \<le> 2 + k * Suc n"
  using json_len_strings [of ss n] assms mult_le_mono1 [OF assms(1), of "Suc n"] by simp

lemma filter_fields [simp]:
  "filter (keep \<circ> fst) (some_field enc name v) = (if keep name then some_field enc name v else [])"
  "filter (keep \<circ> fst) (items_field enc' name vs) = (if keep name then items_field enc' name vs else [])"
  "filter (keep \<circ> fst) (entries_field name m) = (if keep name then entries_field name m else [])"
  by (simp_all add: some_field_def items_field_def entries_field_def split: option.split)

lemma filter_map_values: "filter (keep \<circ> fst) (map (map_prod id f) kvs) = map (map_prod id f) (filter (keep \<circ> fst) kvs)"
  by (simp add: filter_map comp_def)

lemma retain_to_value_len:
  "json_len (json_retain keep (to_value (JObject kvs))) \<le>
     2 + (\<Sum>m\<leftarrow>map (map_prod id to_value) (filter (keep \<circ> fst) kvs). member_len m)"
  using json_len_retain [of keep "map (map_prod id to_value) kvs"]
  by (simp add: json_object_def filter_map_values)

subsection \<open>Capped messages\<close>

definition LABELS_MAX :: nat where
  "LABELS_MAX = THREAD_USER_LABEL_CAP + length system_label_ALL"

text \<open>What of a message its required fields are made of, within the caps it was stored under.\<close>

definition capped_texts :: "mail_message \<Rightarrow> thread_snapshot \<Rightarrow> bool" where
  "capped_texts msg snap \<longleftrightarrow> length (inbox_str (msg_inbox_id msg)) \<le> ADDRESS_MAX_BYTES \<and>
     list_all (\<lambda>s. length s \<le> 64)
       [thread_id_str (msg_thread_id msg), message_id_str (msg_message_id msg), msg_timestamp msg,
        msg_updated_at msg, msg_created_at msg, snap_timestamp snap, message_id_str (snap_last_message_id snap),
        snap_updated_at snap, snap_created_at snap]"

definition capped_labels :: "string list \<Rightarrow> bool" where
  "capped_labels labels \<longleftrightarrow> length labels \<le> LABELS_MAX \<and> list_all (\<lambda>l. length l \<le> LABEL_MAX_BYTES) labels"

definition participants_of :: "mail_message \<Rightarrow> thread_snapshot \<Rightarrow> string list" where
  "participants_of msg snap = msg_from msg # msg_to msg @ snap_senders snap @ snap_recipients snap"

definition capped_participants :: "mail_message \<Rightarrow> thread_snapshot \<Rightarrow> bool" where
  "capped_participants msg snap \<longleftrightarrow> list_all (\<lambda>a. length a \<le> ADDRESS_MAX_BYTES) (participants_of msg snap) \<and>
     length (msg_to msg) \<le> INBOUND_ADDRESS_LIST_MAX \<and>
     length (snap_senders snap) \<le> THREAD_SNAPSHOT_ADDRESS_CAP \<and>
     length (snap_recipients snap) \<le> THREAD_SNAPSHOT_ADDRESS_CAP"

definition capped_message :: "mail_message \<Rightarrow> thread_snapshot \<Rightarrow> bool" where
  "capped_message msg snap \<longleftrightarrow> capped_texts msg snap \<and> capped_labels (msg_labels msg) \<and>
     capped_labels (snap_labels snap) \<and> capped_participants msg snap"

lemma LABELS_MAX: "LABELS_MAX = 32"
  by (simp add: LABELS_MAX_def system_label_ALL_def THREAD_USER_LABEL_CAP_def)

lemma capped_labels_len:
  assumes "capped_labels ls"
  shows "json_len (JArray (map JString ls)) \<le> 12386"
proof -
  have "length (quote_json l) \<le> 386" if "l \<in> set ls" for l
    using that assms text_len [of l 64] by (auto simp: capped_labels_def LABEL_MAX_BYTES_def list_all_iff)
  then show ?thesis using strings_len [of ls 32 386] assms by (simp add: capped_labels_def LABELS_MAX)
qed

lemma capped_participants_len:
  assumes "capped_participants msg snap" and "list_all plain (participants_of msg snap)"
  shows "json_len (JString (msg_from msg)) \<le> 642"
    and "json_len (JArray (map JString (msg_to msg))) \<le> 64302"
    and "json_len (JArray (map JString (snap_senders snap))) \<le> 12862"
    and "json_len (JArray (map JString (snap_recipients snap))) \<le> 12862"
proof -
  have len: "length (quote_json a) \<le> 642" if "a \<in> set (participants_of msg snap)" for a
    using that assms plain_len [of a 320]
    by (simp add: capped_participants_def ADDRESS_MAX_BYTES_def list_all_iff)
  then show "json_len (JString (msg_from msg)) \<le> 642" by (simp add: participants_of_def)
  show "json_len (JArray (map JString (msg_to msg))) \<le> 64302"
    using strings_len [of "msg_to msg" 100 642] assms(1) len
    by (simp add: capped_participants_def INBOUND_ADDRESS_LIST_MAX_def participants_of_def)
  show "json_len (JArray (map JString (snap_senders snap))) \<le> 12862"
    using strings_len [of "snap_senders snap" 20 642] assms(1) len
    by (simp add: capped_participants_def THREAD_SNAPSHOT_ADDRESS_CAP_def participants_of_def)
  show "json_len (JArray (map JString (snap_recipients snap))) \<le> 12862"
    using strings_len [of "snap_recipients snap" 20 642] assms(1) len
    by (simp add: capped_participants_def THREAD_SNAPSHOT_ADDRESS_CAP_def participants_of_def)
qed

definition shown_snapshot :: "mail_message \<Rightarrow> thread_snapshot" where
  "shown_snapshot msg = (case msg_thread_snapshot msg of None \<Rightarrow> snapshot_default | Some s \<Rightarrow> s)"

lemma retain_retain [simp]: "json_retain p (json_retain q j) = json_retain (\<lambda>k. p k \<and> q k) j"
  by (cases j) (auto intro!: filter_cong)

lemma to_value_string [simp]: "to_value \<circ> JString = JString"
  by (simp add: fun_eq_iff)

lemma to_value_nat [simp]: "to_value (json_nat n) = json_nat n"
  by (simp add: json_nat_def)

lemma capped_text_len:
  assumes "capped_texts msg snap"
  shows "json_len (JString (inbox_str (msg_inbox_id msg))) \<le> 1922"
    "json_len (JString (thread_id_str (msg_thread_id msg))) \<le> 386"
    "json_len (JString (message_id_str (msg_message_id msg))) \<le> 386"
    "json_len (JString (msg_timestamp msg)) \<le> 386" "json_len (JString (msg_updated_at msg)) \<le> 386"
    "json_len (JString (msg_created_at msg)) \<le> 386" "json_len (JString (snap_timestamp snap)) \<le> 386"
    "json_len (JString (message_id_str (snap_last_message_id snap))) \<le> 386"
    "json_len (JString (snap_updated_at snap)) \<le> 386" "json_len (JString (snap_created_at snap)) \<le> 386"
  using assms text_len [of "inbox_str (msg_inbox_id msg)" 320]
  by (simp_all add: capped_texts_def ADDRESS_MAX_BYTES_def text_len [of _ 64, simplified])

lemma sum_members: "(\<Sum>m\<leftarrow>kvs. member_len m) \<le> (\<Sum>m\<leftarrow>kvs. 6 * length (fst m) + 4 + json_len (snd m))"
  by (rule sum_list_mono) (use member_len_le in \<open>auto split: prod.splits\<close>)

lemma message_required_len:
  assumes caps: "capped_message msg snap" and plain: "list_all plain (participants_of msg snap)"
    and m: "m = wire_message_new msg content\<lparr>wm_html := h, wm_text := t\<rparr>"
  shows "json_len (json_retain (\<lambda>k. k \<in> set MESSAGE_REQUIRED) (to_value (wire_message_json m))) \<le> 85000"
proof -
  let ?fields = "[json_text ''inbox_id'' (inbox_str (msg_inbox_id msg)),
     json_text ''thread_id'' (thread_id_str (msg_thread_id msg)),
     json_text ''message_id'' (message_id_str (msg_message_id msg)),
     (''labels'', JArray (map JString (msg_labels msg))), json_text ''timestamp'' (msg_timestamp msg),
     json_text ''from'' (msg_from msg), (''to'', JArray (map JString (msg_to msg))),
     (''size'', json_u64 (msg_size msg)), json_text ''updated_at'' (msg_updated_at msg),
     json_text ''created_at'' (msg_created_at msg)]"
  have eq: "filter ((\<lambda>k. k \<in> set MESSAGE_REQUIRED) \<circ> fst) (wire_message_fields m) = ?fields"
    unfolding wire_message_fields_def filter_append filter_fields
    by (simp add: MESSAGE_REQUIRED_def m wire_message_new_def)
  have "(\<Sum>f\<leftarrow>map (map_prod id to_value) ?fields. member_len f) \<le> 84998"
    using caps capped_text_len [of msg snap] capped_labels_len [of "msg_labels msg"]
      capped_participants_len [of msg snap, OF _ plain] json_u64_len [of "msg_size msg"]
    by (intro order_trans [OF sum_members]) (simp add: capped_message_def del: json_print.simps)
  then show ?thesis
    using retain_to_value_len [of "\<lambda>k. k \<in> set MESSAGE_REQUIRED" "wire_message_fields m"]
    unfolding eq wire_message_json_def by linarith
qed


lemma thread_required_len:
  assumes caps: "capped_message msg (shown_snapshot msg)"
    and plain: "list_all plain (participants_of msg (shown_snapshot msg))"
  shows "json_len (json_retain (\<lambda>k. k \<in> set THREAD_REQUIRED)
    (to_value (wire_thread_item_json (thread_item_of_message msg)))) \<le> 45000"
proof -
  let ?s = "shown_snapshot msg"
  let ?fields = "[json_text ''inbox_id'' (inbox_str (msg_inbox_id msg)),
     json_text ''thread_id'' (thread_id_str (msg_thread_id msg)),
     (''labels'', JArray (map JString (snap_labels ?s))), json_text ''timestamp'' (snap_timestamp ?s),
     (''senders'', JArray (map JString (snap_senders ?s))),
     (''recipients'', JArray (map JString (snap_recipients ?s))),
     json_text ''last_message_id'' (message_id_str (snap_last_message_id ?s)),
     (''message_count'', json_u64 (snap_message_count ?s)), (''size'', json_u64 (snap_size ?s)),
     json_text ''created_at'' (snap_created_at ?s), json_text ''updated_at'' (snap_updated_at ?s)]"
  obtain fields where json: "wire_thread_item_json (thread_item_of_message msg) = JObject fields"
    and eq: "filter ((\<lambda>k. k \<in> set THREAD_REQUIRED) \<circ> fst) fields = ?fields"
  proof
    show "wire_thread_item_json (thread_item_of_message msg) = JObject (?fields @
      some_field JString ''received_timestamp'' (snap_received_timestamp ?s) @
      some_field JString ''sent_timestamp'' (snap_sent_timestamp ?s) @
      some_field JString ''subject'' (nonempty (snap_subject ?s)) @
      some_field JString ''preview'' (nonempty (snap_preview ?s)) @
      items_field wire_attachment_json ''attachments'' (map wire_attachment_of (snap_attachments ?s)))"
      by (simp add: wire_thread_item_json_def thread_item_of_message_def shown_snapshot_def Let_def)
    show "filter ((\<lambda>k. k \<in> set THREAD_REQUIRED) \<circ> fst) (?fields @
      some_field JString ''received_timestamp'' (snap_received_timestamp ?s) @
      some_field JString ''sent_timestamp'' (snap_sent_timestamp ?s) @
      some_field JString ''subject'' (nonempty (snap_subject ?s)) @
      some_field JString ''preview'' (nonempty (snap_preview ?s)) @
      items_field wire_attachment_json ''attachments'' (map wire_attachment_of (snap_attachments ?s))) = ?fields"
      unfolding filter_append filter_fields by (simp add: THREAD_REQUIRED_def)
  qed
  have "(\<Sum>f\<leftarrow>map (map_prod id to_value) ?fields. member_len f) \<le> 44998"
    using caps capped_text_len [of msg ?s] capped_labels_len [of "snap_labels ?s"]
      capped_participants_len [of msg ?s, OF _ plain] json_u64_len [of "snap_size ?s"]
      json_u64_len [of "snap_message_count ?s"]
    by (intro order_trans [OF sum_members]) (simp add: capped_message_def del: json_print.simps)
  then show ?thesis
    using retain_to_value_len [of "\<lambda>k. k \<in> set THREAD_REQUIRED" fields]
    unfolding eq json by linarith
qed


subsection \<open>The received event\<close>

definition received_fields :: "string \<Rightarrow> string \<Rightarrow> json \<Rightarrow> json \<Rightarrow> (string \<times> json) list" where
  "received_fields event_type identity message thread =
     [json_text ''type'' ''event'', json_text ''event_type'' event_type, json_text ''event_id'' identity,
      (''message'', message), (''thread'', thread)]"

lemma at_message:
  "json_at ''message'' f (json_object (received_fields a b m t)) = json_object (received_fields a b (f m) t)"
proof -
  have "map_of (rev (received_fields a b m t)) ''message'' = Some m" by (simp add: received_fields_def)
  then have "json_at ''message'' f (json_object (received_fields a b m t)) =
      json_object (received_fields a b m t @ [(''message'', f m)])"
    by simp
  also have "\<dots> = json_object (received_fields a b (f m) t)"
    unfolding json_object_def
    by (rule arg_cong [where f = JObject], rule collapse_sorted_eq) (auto simp: received_fields_def fun_eq_iff)
  finally show ?thesis .
qed

lemma at_thread:
  "json_at ''thread'' f (json_object (received_fields a b m t)) = json_object (received_fields a b m (f t))"
proof -
  have "map_of (rev (received_fields a b m t)) ''thread'' = Some t" by (simp add: received_fields_def)
  then have "json_at ''thread'' f (json_object (received_fields a b m t)) =
      json_object (received_fields a b m t @ [(''thread'', f t)])"
    by simp
  also have "\<dots> = json_object (received_fields a b m (f t))"
    unfolding json_object_def
    by (rule arg_cong [where f = JObject], rule collapse_sorted_eq) (auto simp: received_fields_def fun_eq_iff)
  finally show ?thesis .
qed

lemma retain_required:
  "retain_fields MESSAGE_REQUIRED (json_remove ''headers'' (json_remove ''text'' (json_remove ''html'' m))) =
    retain_fields MESSAGE_REQUIRED m"
proof -
  have "(\<lambda>k. k \<in> set MESSAGE_REQUIRED \<and> k \<noteq> ''headers'' \<and> k \<noteq> ''text'' \<and> k \<noteq> ''html'') =
      (\<lambda>k. k \<in> set MESSAGE_REQUIRED)"
    by (rule ext) (auto simp: MESSAGE_REQUIRED_def)
  then show ?thesis by (simp add: retain_fields_def json_remove_def)
qed

lemma capped_detail_cases:
  "detail_bytes to_vec (cap_received_detail to_vec (json_object (received_fields a b m t)) et src) \<le> entry_cap et src \<or>
   cap_received_detail to_vec (json_object (received_fields a b m t)) et src =
     json_object (received_fields a b (retain_fields MESSAGE_REQUIRED m) (retain_fields THREAD_REQUIRED t))"
  by (auto simp: cap_received_detail_def retain_required at_message at_thread simp del: json_at_object)

lemma received_fields_len:
  "json_len (json_object (received_fields a b m t)) \<le> 6 * (length a + length b) + json_len m + json_len t + 300"
  using json_len_sorted [of "received_fields a b m t"] sum_members [of "received_fields a b m t"]
    json_len_text [of a] json_len_text [of b] json_len_text [of "''event''"]
  by (simp add: received_fields_def del: json_print.simps)

lemma received_event_shape:
  assumes "build_received_event I to_vec msg content src = Some ev"
  obtains b h t where "mev_detail_type ev = received_event_type (msg_labels msg)"
    and "b = event_id I (inbox_str (msg_inbox_id msg)) (message_id_str (msg_message_id msg)) (mev_detail_type ev)
      (or_epoch (time_parse (msg_timestamp msg)))"
    and "mev_detail ev = cap_received_detail to_vec (json_object (received_fields (mev_detail_type ev) b
      (to_value (wire_message_json (wire_message_new msg content\<lparr>wm_html := h, wm_text := t\<rparr>)))
      (to_value (wire_thread_item_json (thread_item_of_message msg))))) (mev_detail_type ev) src"
  using assms by (auto simp: build_received_event_def Let_def received_fields_def split: if_splits)

lemma received_event_some:
  "has_label (msg_labels msg) LReceived \<Longrightarrow> \<exists>ev. build_received_event I to_vec msg content src = Some ev"
  by (simp add: build_received_event_def Let_def)

lemma received_event_type_length: "length (received_event_type labels) \<le> 32"
  by (simp add: received_event_type_def)

lemma reduced_total:
  fixes j :: nat
  shows "j \<le> 6 * (x + y) + m + t + 300 \<Longrightarrow> m \<le> 85000 \<Longrightarrow> t \<le> 45000 \<Longrightarrow> x \<le> 32 \<Longrightarrow> y = 40 \<Longrightarrow> j \<le> 130732"
  by simp

text \<open>
  A received message always makes a publishable event: within the caps its participants, labels and ids
  are stored under, and without control characters in the participants, the entry fits the \<open>PutEvents\<close>
  cap whatever its bodies, headers, subject and attachments are.
\<close>

theorem received_event_fits:
  assumes "compact to_vec" and uuid: "\<forall>u. length (lib_uuid_str I u) = 36"
    and caps: "capped_message msg (shown_snapshot msg)"
    and plain: "list_all plain (participants_of msg (shown_snapshot msg))"
    and src: "length src \<le> 100000"
    and ev: "build_received_event I to_vec msg content src = Some ev"
  shows "detail_bytes to_vec (mev_detail ev) + length (mev_detail_type ev) + length src \<le> PUT_EVENTS_ENTRY_CAP_BYTES"
proof -
  obtain b h t where dt: "mev_detail_type ev = received_event_type (msg_labels msg)"
    and b: "b = event_id I (inbox_str (msg_inbox_id msg)) (message_id_str (msg_message_id msg)) (mev_detail_type ev)
      (or_epoch (time_parse (msg_timestamp msg)))"
    and d: "mev_detail ev = cap_received_detail to_vec (json_object (received_fields (mev_detail_type ev) b
      (to_value (wire_message_json (wire_message_new msg content\<lparr>wm_html := h, wm_text := t\<rparr>)))
      (to_value (wire_thread_item_json (thread_item_of_message msg))))) (mev_detail_type ev) src"
    by (rule received_event_shape [OF ev])
  have "length b = 40" using uuid by (simp add: b event_id_def)
  have type: "length (mev_detail_type ev) \<le> 32" by (simp add: dt received_event_type_length)
  have cap: "entry_cap (mev_detail_type ev) src + length (mev_detail_type ev) + length src = PUT_EVENTS_ENTRY_CAP_BYTES"
    using type src by (simp add: entry_cap_def PUT_EVENTS_ENTRY_CAP_BYTES_def)
  show ?thesis
  proof (cases "detail_bytes to_vec (mev_detail ev) \<le> entry_cap (mev_detail_type ev) src")
    case True
    then show ?thesis using cap by linarith
  next
    case False
    then have reduced: "mev_detail ev = json_object (received_fields (mev_detail_type ev) b
      (retain_fields MESSAGE_REQUIRED (to_value (wire_message_json (wire_message_new msg content\<lparr>wm_html := h, wm_text := t\<rparr>))))
      (retain_fields THREAD_REQUIRED (to_value (wire_thread_item_json (thread_item_of_message msg)))))"
      using capped_detail_cases d by metis
    have "json_len (mev_detail ev) \<le> 6 * (length (mev_detail_type ev) + length b) +
      json_len (retain_fields MESSAGE_REQUIRED (to_value (wire_message_json (wire_message_new msg content\<lparr>wm_html := h, wm_text := t\<rparr>)))) +
      json_len (retain_fields THREAD_REQUIRED (to_value (wire_thread_item_json (thread_item_of_message msg)))) + 300"
      unfolding reduced by (rule received_fields_len)
    moreover have "json_len (retain_fields MESSAGE_REQUIRED (to_value (wire_message_json (wire_message_new msg content\<lparr>wm_html := h, wm_text := t\<rparr>)))) \<le> 85000"
      unfolding retain_fields_def by (rule message_required_len [OF caps plain refl])
    moreover have "json_len (retain_fields THREAD_REQUIRED (to_value (wire_thread_item_json (thread_item_of_message msg)))) \<le> 45000"
      unfolding retain_fields_def by (rule thread_required_len [OF caps plain])
    ultimately have "json_len (mev_detail ev) \<le> 130732"
      using type \<open>length b = 40\<close> by (rule reduced_total)
    then show ?thesis using type src
      by (simp add: detail_bytes_compact [OF assms(1)] PUT_EVENTS_ENTRY_CAP_BYTES_def)
  qed
qed


definition sample_ids :: id_libs where
  "sample_ids = \<lparr>lib_sha256 = (\<lambda>b. b), lib_uuid_v7 = (\<lambda>_ _. 7), lib_uuid_str = (\<lambda>_. replicate 36 CHR ''0''),
     lib_uuid_simple = (\<lambda>_. []), lib_uuid_unix = (\<lambda>_. None)\<rparr>"

lemma sample_fields:
  "msg_labels (sample_message i m t) = [''received'', ''unread'']" "msg_inbox_id (sample_message i m t) = inbox_new i"
  "msg_thread_id (sample_message i m t) = ThreadId t" "msg_message_id (sample_message i m t) = MessageId m"
  "msg_timestamp (sample_message i m t) = ''00000001-0000''" "msg_from (sample_message i m t) = ''sender@example.com''"
  "msg_updated_at (sample_message i m t) = ''2026-01-01T00:00:00.000Z''"
  "msg_created_at (sample_message i m t) = ''2026-01-01T00:00:00.000Z''"
  "msg_to (sample_message i m t) = [i @ ''@example.com'']" "msg_thread_snapshot (sample_message i m t) = None"
  by (simp_all add: sample_message_def)

theorem received_event_fits_witness:
  "\<exists>ev. build_received_event sample_ids compact_vec (sample_message ''support'' ''m1'' ''t1'')
      (content_default\<lparr>ct_references := replicate 300000 ''r''\<rparr>) ''aws-messaging-webhook'' = Some ev \<and>
    detail_bytes compact_vec (mev_detail ev) + length (mev_detail_type ev) + length ''aws-messaging-webhook''
      \<le> PUT_EVENTS_ENTRY_CAP_BYTES"
proof -
  let ?msg = "sample_message ''support'' ''m1'' ''t1''"
  let ?content = "content_default\<lparr>ct_references := replicate 300000 ''r''\<rparr>"
  have "\<exists>ev. build_received_event sample_ids compact_vec ?msg content ''aws-messaging-webhook'' = Some ev" for content
    by (rule received_event_some) code_simp
  then obtain ev where ev: "build_received_event sample_ids compact_vec ?msg ?content ''aws-messaging-webhook'' = Some ev"
    by blast
  have inbox: "length (inbox_canon ''support'') = 7" by code_simp
  have "capped_message ?msg (shown_snapshot ?msg)"
    by (simp add: capped_message_def capped_texts_def capped_labels_def capped_participants_def participants_of_def
        shown_snapshot_def snapshot_default_def sample_fields inbox LABELS_MAX LABEL_MAX_BYTES_def ADDRESS_MAX_BYTES_def
        INBOUND_ADDRESS_LIST_MAX_def)
  moreover have participants: "participants_of ?msg (shown_snapshot ?msg) = [''sender@example.com'', ''support@example.com'']"
    by (simp add: participants_of_def shown_snapshot_def snapshot_default_def sample_fields)
  have "list_all plain (participants_of ?msg (shown_snapshot ?msg))" unfolding participants by code_simp
  moreover have "\<forall>u. length (lib_uuid_str sample_ids u) = 36" by (simp add: sample_ids_def)
  ultimately have "detail_bytes compact_vec (mev_detail ev) + length (mev_detail_type ev) +
      length ''aws-messaging-webhook'' \<le> PUT_EVENTS_ENTRY_CAP_BYTES"
    by (intro received_event_fits [OF compact_vec _ _ _ _ ev]) simp_all
  with ev show ?thesis by blast
qed

subsection \<open>Control characters\<close>

text \<open>
  The caps alone do not make the reduced detail fit, as the comment in the code has it: a control character
  of a stored participant takes six bytes of the detail.
\<close>

lemma json_len_array_ge: "(\<Sum>v\<leftarrow>vs. json_len v) \<le> json_len (JArray vs)"
proof -
  have "(\<Sum>s\<leftarrow>ss. length s) \<le> length (commas ss)" for ss
    by (induction ss rule: commas.induct) auto
  from this [of "map json_print vs"] show ?thesis by (simp add: comp_def)
qed

lemma control_participants_overflow:
  fixes a :: string
  defines "a \<equiv> replicate 320 CHR 0x01"
  shows "length a \<le> ADDRESS_MAX_BYTES \<and> PUT_EVENTS_ENTRY_CAP_BYTES <
    json_len (JArray (map JString (replicate INBOUND_ADDRESS_LIST_MAX a))) +
    json_len (JArray (map JString (replicate THREAD_SNAPSHOT_ADDRESS_CAP a))) +
    json_len (JArray (map JString (replicate THREAD_SNAPSHOT_ADDRESS_CAP a)))"
proof -
  have "length (escape_json CHR 0x01) = 6" by code_simp
  then have "length (quote_json a) = 1922" by (simp add: a_def quote_json_def length_concat sum_list_replicate)
  then have "k * 1922 \<le> json_len (JArray (map JString (replicate k a)))" for k
    using json_len_array_ge [of "map JString (replicate k a)"] by (simp add: sum_list_replicate)
  from this [of INBOUND_ADDRESS_LIST_MAX] this [of THREAD_SNAPSHOT_ADDRESS_CAP] show ?thesis
    by (simp add: a_def ADDRESS_MAX_BYTES_def INBOUND_ADDRESS_LIST_MAX_def THREAD_SNAPSHOT_ADDRESS_CAP_def
        PUT_EVENTS_ENTRY_CAP_BYTES_def del: json_print.simps)
qed

end
