(* ===== verification/Pipeline.thy ===== *)
theory Pipeline
  imports Frames MailEvents
begin

text \<open>
  \<open>webhook/src/actions.rs\<close> and \<open>sns/mod.rs\<close>: what a verified SNS message makes the service do. A
  notification is persisted, then the lifecycle action of its event runs; the answer decides whether SNS
  delivers it again. The AWS calls are parameters; logging and metrics are left out.
\<close>

section \<open>The state\<close>

datatype feedback_status = FeedbackReceived | FeedbackFailed
datatype suppression_reason = SuppressBounce | SuppressComplaint

text \<open>
  Beside the application: the event store, the publisher, which tells only whether it worked, the SMS and SES
  calls, and of the libraries \<open>serde_json\<close>, the system clock and the formatter of its time.
\<close>

record ('w, 'm, 'k, 'g) webhook =
  wh_app :: "'w app"
  wh_api :: "('w, 'm) api_libs"
  wh_sns :: "('w, 'k, 'g) sns_libs"
  wh_config :: app_config
  wh_subscribe_prefix :: "string option"
  wh_persist_new :: "event_record \<Rightarrow> domain_event \<Rightarrow> 'w \<Rightarrow> (event_store_error + persist_outcome) \<times> 'w"
  wh_publish :: "outbound_event \<Rightarrow> 'w \<Rightarrow> (unit + unit) \<times> 'w"
  wh_put_message_feedback :: "string \<Rightarrow> feedback_status \<Rightarrow> ('w, unit) action"
  wh_put_opted_out_number :: "string \<Rightarrow> string \<Rightarrow> ('w, unit) action"
  wh_delete_opted_out_number :: "string \<Rightarrow> string \<Rightarrow> ('w, unit) action"
  wh_put_suppressed_destination :: "string \<Rightarrow> suppression_reason \<Rightarrow> ('w, unit) action"
  wh_from_str :: "string \<Rightarrow> json option"
  wh_to_vec :: "json \<Rightarrow> bytes option"
  wh_system_now :: "'w \<Rightarrow> int"
  wh_fmt_date_time :: "int \<Rightarrow> string option"

section \<open>Keywords\<close>

definition STOP_KEYWORDS :: "string list" where
  "STOP_KEYWORDS = [''STOP'', ''UNSUBSCRIBE'', ''CANCEL'', ''END'', ''QUIT'', ''OPTOUT'', ''OPT-OUT'', ''REMOVE'', ''ARRET'']"

definition START_KEYWORDS :: "string list" where
  "START_KEYWORDS = [''START'', ''UNSTOP'', ''YES'']"

datatype keyword_intent = OptOutIntent | OptInIntent | NoIntent

text \<open>
  \<open>str::to_uppercase\<close>, as far as an ASCII word can tell: the characters whose upper case is ASCII are those
  of ASCII itself, the dotless i, the long s, the sharp s and the Latin ligatures; any other is left.
\<close>

definition upper_char :: "string \<Rightarrow> string" where
  "upper_char c =
     (case c of
        [b] \<Rightarrow> if is_ascii_lowercase b then [char_of ((of_char b :: nat) - 32)] else c
      | _ \<Rightarrow> (case map_of
            [([CHR 0xC4, CHR 0xB1], ''I''), ([CHR 0xC5, CHR 0xBF], ''S''), ([CHR 0xC3, CHR 0x9F], ''SS''),
             ([CHR 0xEF, CHR 0xAC, CHR 0x80], ''FF''), ([CHR 0xEF, CHR 0xAC, CHR 0x81], ''FI''),
             ([CHR 0xEF, CHR 0xAC, CHR 0x82], ''FL''), ([CHR 0xEF, CHR 0xAC, CHR 0x83], ''FFI''),
             ([CHR 0xEF, CHR 0xAC, CHR 0x84], ''FFL''), ([CHR 0xEF, CHR 0xAC, CHR 0x85], ''ST''),
             ([CHR 0xEF, CHR 0xAC, CHR 0x86], ''ST'')] c of
          Some u \<Rightarrow> u | None \<Rightarrow> c))"

definition upper :: "string \<Rightarrow> string" where
  "upper s = concat (map upper_char (chars s))"

definition keyword_intent :: "string option \<Rightarrow> string option \<Rightarrow> keyword_intent" where
  "keyword_intent keyword body =
     (case (case keyword of Some k \<Rightarrow> Some k | None \<Rightarrow> body) of
        None \<Rightarrow> NoIntent
      | Some k \<Rightarrow> let word = upper (trim k) in
          if trim k = [] then NoIntent
          else if word \<in> set STOP_KEYWORDS then OptOutIntent
          else if word \<in> set START_KEYWORDS then OptInIntent
          else NoIntent)"

section \<open>Actions\<close>

definition apply_delivery_label ::
  "('w, 'm, 'k, 'g) webhook \<Rightarrow> ses_notification \<Rightarrow> ('w, bool) action" where
  "apply_delivery_label W event =
     (case mailbox_label (ses_kind event) of
        None \<Rightarrow> act_ok False
      | Some label \<Rightarrow>
          if app_mail (wh_app W) = None then act_ok False
          else act_then (store_action (resolve_ses_message (app_table (wh_app W))
              (SesMessageId (sml_message_id (ses_mail event))))) (\<lambda>resolved.
            case resolved of
              None \<Rightarrow> act_ok False
            | Some (inbox, message_id) \<Rightarrow> (\<lambda>w.
                let now = time_format (app_now_ms (wh_app W) w) in
                act_then (store_action (update_labels (app_table (wh_app W)) inbox message_id [label_str label] [] now))
                  (\<lambda>_. act_ok True) w)))"

fun suppress_recipients ::
  "('w, 'm, 'k, 'g) webhook \<Rightarrow> ses_recipient list \<Rightarrow> suppression_reason \<Rightarrow> ('w, unit) action" where
  "suppress_recipients W [] reason w = (Inr (), w)"
| "suppress_recipients W (recipient # rest) reason w =
     (case wh_put_suppressed_destination W (srp_email_address recipient) reason w of
        (Inl ActTransient, w') \<Rightarrow> (Inl ActTransient, w')
      | (_, w') \<Rightarrow> suppress_recipients W rest reason w')"

datatype action_taken =
    NoAction | OptOutTaken | OptInTaken | FeedbackTaken | SuppressionTaken | DeliveryLabelTaken
  | IngestTaken ingest_outcome | ActionFailed

fun action_taken_str :: "action_taken \<Rightarrow> string" where
  "action_taken_str NoAction = ''none''"
| "action_taken_str OptOutTaken = ''opt_out''"
| "action_taken_str OptInTaken = ''opt_in''"
| "action_taken_str FeedbackTaken = ''feedback''"
| "action_taken_str SuppressionTaken = ''suppression''"
| "action_taken_str DeliveryLabelTaken = ''delivery_label''"
| "action_taken_str (IngestTaken out) = ingest_outcome_str out"
| "action_taken_str ActionFailed = ''failed''"

definition suppression_of :: "ses_notification \<Rightarrow> (ses_recipient list \<times> suppression_reason) option" where
  "suppression_of event =
     (case (ses_bounce event, ses_complaint event) of
        (Some bounce, _) \<Rightarrow>
          if is_permanent bounce then Some (bnc_bounced_recipients bounce, SuppressBounce) else None
      | (None, Some complaint) \<Rightarrow> Some (cmp_complained_recipients complaint, SuppressComplaint)
      | (None, None) \<Rightarrow> None)"

definition run_ses :: "('w, 'm, 'k, 'g) webhook \<Rightarrow> ses_notification \<Rightarrow> ('w, action_taken) action" where
  "run_ses W event w =
     (case apply_delivery_label W event w of (label, w1) \<Rightarrow>
        let labelled = (case label of Inr l \<Rightarrow> l | Inl _ \<Rightarrow> False);
            deferred = (label = Inl ActTransient);
            suppression = suppression_of event in
        (case (case suppression of
              None \<Rightarrow> (Inr (), w1)
            | Some (recipients, reason) \<Rightarrow> suppress_recipients W recipients reason w1) of
           (Inl error, w2) \<Rightarrow> (Inl error, w2)
         | (Inr _, w2) \<Rightarrow>
             (if deferred then Inl ActTransient
              else Inr (if suppression \<noteq> None then SuppressionTaken
                else if labelled then DeliveryLabelTaken else NoAction), w2)))"

definition run_sms_inbound :: "('w, 'm, 'k, 'g) webhook \<Rightarrow> sms_inbound_message \<Rightarrow> ('w, action_taken) action" where
  "run_sms_inbound W event =
     (case (keyword_intent (smi_message_keyword event) (smi_message_body event), cfg_opt_out_list_name (wh_config W)) of
        (OptOutIntent, Some l) \<Rightarrow>
          act_then (wh_put_opted_out_number W l (smi_origination_number event)) (\<lambda>_. act_ok OptOutTaken)
      | (OptInIntent, Some l) \<Rightarrow>
          act_then (wh_delete_opted_out_number W l (smi_origination_number event)) (\<lambda>_. act_ok OptInTaken)
      | _ \<Rightarrow> act_ok NoAction)"

definition run_sms_delivery :: "('w, 'm, 'k, 'g) webhook \<Rightarrow> sms_delivery_event \<Rightarrow> ('w, action_taken) action" where
  "run_sms_delivery W event =
     (if \<not> sde_is_final event then act_ok NoAction
      else act_then (wh_put_message_feedback W (sde_message_id event)
          (if is_successful_delivery event then FeedbackReceived else FeedbackFailed)) (\<lambda>_. act_ok FeedbackTaken))"

fun run_action ::
  "('w, 'm, 'k, 'g) webhook \<Rightarrow> domain_event \<Rightarrow> nat \<Rightarrow> u64 option \<Rightarrow> ('w, action_taken) action" where
  "run_action W (EvSmsInbound event _) deadline ts = run_sms_inbound W event"
| "run_action W (EvSmsDelivery event _) deadline ts = run_sms_delivery W event"
| "run_action W (EvSes event _) deadline ts = run_ses W event"
| "run_action W (EvSesInbound event _) deadline ts =
     act_then (ingest_inbound (wh_api W) (wh_app W) event deadline ts) (\<lambda>out. act_ok (IngestTaken out))"
| "run_action W (EvUnknown _) deadline ts = act_ok NoAction"

section \<open>SNS messages\<close>

datatype ingress = IngressHttp source | IngressDirect

fun ingress_str :: "ingress \<Rightarrow> string" where
  "ingress_str (IngressHttp src) = source_str src"
| "ingress_str IngressDirect = ''direct''"

text \<open>An answer is an error or \<open>StatusCode::OK\<close>. The ingress is only logged.\<close>

type_synonym 'w handler = "'w \<Rightarrow> (app_error + unit) \<times> 'w"

definition follow_subscribe_url :: "('w, 'm, 'k, 'g) webhook \<Rightarrow> sns_envelope \<Rightarrow> 'w handler" where
  "follow_subscribe_url W envelope w =
     (case sns_subscribe_url envelope of
        None \<Rightarrow> (Inl SubscribeUrlRejected, w)
      | Some subscribe_url \<Rightarrow>
          (case validate_subscribe_url (wh_sns W) subscribe_url (wh_subscribe_prefix W) of
             Inl e \<Rightarrow> (Inl e, w)
           | Inr url \<Rightarrow> get_subscribe_url (wh_sns W) url w))"

definition confirm_subscription :: "('w, 'm, 'k, 'g) webhook \<Rightarrow> ingress \<Rightarrow> sns_envelope \<Rightarrow> 'w handler" where
  "confirm_subscription W ingress envelope = follow_subscribe_url W envelope"

definition resubscribed_notice :: "sns_envelope \<Rightarrow> outbound_event" where
  "resubscribed_notice envelope =
     \<lparr>out_detail_type = ''subscription.changed'',
      out_detail = json_object [(''schemaVersion'', json_nat SCHEMA_VERSION),
        json_text ''topicArn'' (sns_topic_arn envelope), json_text ''action'' ''resubscribed'',
        json_text ''timestamp'' (sns_timestamp envelope)]\<rparr>"

definition handle_unsubscribe :: "('w, 'm, 'k, 'g) webhook \<Rightarrow> ingress \<Rightarrow> sns_envelope \<Rightarrow> 'w handler" where
  "handle_unsubscribe W ingress envelope w =
     (if \<not> cfg_auto_resubscribe (wh_config W) then (Inr (), w)
      else (case follow_subscribe_url W envelope w of
          (Inl e, w') \<Rightarrow> (Inl e, w')
        | (Inr _, w') \<Rightarrow> (Inr (), snd (wh_publish W (resubscribed_notice envelope) w'))))"

definition is_setup :: "domain_event \<Rightarrow> bool" where
  "is_setup event \<longleftrightarrow> (case event of EvSesInbound inbound _ \<Rightarrow> is_setup_notification inbound | _ \<Rightarrow> False)"

definition process_notification ::
  "('w, 'm, 'k, 'g) webhook \<Rightarrow> ingress \<Rightarrow> verified_sns \<Rightarrow> nat \<Rightarrow> 'w handler" where
  "process_notification W ingress v deadline w =
     (let envelope = vsn_envelope v;
          event = classify (wh_from_str W) (sns_message envelope) in
      if is_setup event then (Inr (), w)
      else (case build_record (wh_fmt_date_time W) (wh_system_now W w) (family event) envelope (vsn_raw_body v) event
              (wh_config W) of
          None \<Rightarrow> (Inl Internal, w)
        | Some record \<Rightarrow>
            (case wh_persist_new W record event w of
               (Inl _, w') \<Rightarrow> (Inl Internal, w')
             | (Inr _, w') \<Rightarrow>
                 (case run_action W event deadline (time_parse (sns_timestamp envelope)) w' of
                    (Inl ActTransient, w'') \<Rightarrow> (Inl Internal, w'')
                  | (_, w'') \<Rightarrow> (Inr (), w'')))))"

definition handle_sns :: "('w, 'm, 'k, 'g) webhook \<Rightarrow> ingress \<Rightarrow> verified_sns \<Rightarrow> nat \<Rightarrow> 'w handler" where
  "handle_sns W ingress v deadline =
     (case sns_message_type (vsn_envelope v) of
        SubscriptionConfirmation \<Rightarrow> confirm_subscription W ingress (vsn_envelope v)
      | UnsubscribeConfirmation \<Rightarrow> handle_unsubscribe W ingress (vsn_envelope v)
      | Notification \<Rightarrow> process_notification W ingress v deadline)"


section \<open>Frames\<close>

text \<open>A relation that every call of an action keeps.\<close>

definition actions_within :: "('w \<Rightarrow> 'w \<Rightarrow> bool) \<Rightarrow> ('w, 'm, 'k, 'g) webhook \<Rightarrow> bool" where
  "actions_within G W \<longleftrightarrow> app_frame (wh_app W) G \<and>
     (\<forall>a s. within G (wh_put_message_feedback W a s)) \<and> (\<forall>a b. within G (wh_put_opted_out_number W a b)) \<and>
     (\<forall>a b. within G (wh_delete_opted_out_number W a b)) \<and> (\<forall>a r. within G (wh_put_suppressed_destination W a r))"

context app_frame
begin

lemma within_apply_delivery_label:
  assumes "wh_app W = A"
  shows "within G (apply_delivery_label W event)"
proof -
  have labels: "within G (\<lambda>w. act_then (store_action (update_labels (app_table A) i m add remove
      (time_format (app_now_ms A w)))) (\<lambda>_. act_ok True) w)" for i m add remove
    by (rule withinI) (erule withinD [rotated], intro frame_intros within_update_labels [simplified])
  show ?thesis
    unfolding apply_delivery_label_def assms
    by (auto intro!: frame_intros within_reads(7) [simplified] labels simp: Let_def split: option.split prod.split)
qed

end

lemma suppress_within:
  assumes "\<And>a r. within G (wh_put_suppressed_destination W a r)" and "\<And>s. G s s"
    and "\<And>s s' s''. G s s' \<Longrightarrow> G s' s'' \<Longrightarrow> G s s''"
  shows "within G (suppress_recipients W recipients reason)"
proof (induction recipients)
  case (Cons recipient rest)
  show ?case
  proof (rule withinI)
    fix w res w'
    assume run: "suppress_recipients W (recipient # rest) reason w = (res, w')"
    obtain r w1 where one: "wh_put_suppressed_destination W (srp_email_address recipient) reason w = (r, w1)" by fastforce
    note first = withinD [OF assms(1) one]
    have "w' = w1 \<or> suppress_recipients W rest reason w1 = (res, w')"
      using run one by (auto split: sum.splits action_error.splits)
    then show "G w w'" using first withinD [OF Cons.IH] assms(3) by blast
  qed
qed (simp add: within_def assms(2))

context app_frame
begin

lemma within_suppress: 
  assumes "\<And>a r. within G (wh_put_suppressed_destination W a r)"
  shows "within G (suppress_recipients W recipients reason)"
  by (rule suppress_within [OF assms]) (auto intro: G_trans)

lemma within_run_ses:
  assumes "wh_app W = A" and "\<And>a r. within G (wh_put_suppressed_destination W a r)"
  shows "within G (run_ses W event)"
proof (rule withinI)
  fix w res w'
  assume run: "run_ses W event w = (res, w')"
  obtain l w1 where label: "apply_delivery_label W event w = (l, w1)" by fastforce
  obtain r w2 where suppress: "(case suppression_of event of None \<Rightarrow> (Inr (), w1)
      | Some (recipients, reason) \<Rightarrow> suppress_recipients W recipients reason w1) = (r, w2)" by fastforce
  have "G w1 w2"
    using suppress withinD [OF within_suppress [OF assms(2)]] by (auto split: option.splits)
  moreover have "w' = w2" using run label suppress by (auto simp: run_ses_def Let_def split: sum.splits)
  ultimately show "G w w'" using withinD [OF within_apply_delivery_label [OF assms(1)] label] G_trans by blast
qed

lemma within_run_action:
  assumes "wh_app W = A" and "\<And>a s. within G (wh_put_message_feedback W a s)"
    and "\<And>a b. within G (wh_put_opted_out_number W a b)" and "\<And>a b. within G (wh_delete_opted_out_number W a b)"
    and "\<And>a r. within G (wh_put_suppressed_destination W a r)"
  shows "within G (run_action W event deadline ts)"
proof (cases event)
  case (EvSesInbound inbound raw)
  then show ?thesis using ingest_inbound_within assms(1) by (auto intro!: frame_intros)
next
  case (EvSes ses raw)
  then show ?thesis using within_run_ses [OF assms(1,5)] by simp
qed (auto simp: run_sms_inbound_def run_sms_delivery_def intro!: frame_intros assms split: keyword_intent.split option.split)

end

lemma run_action_within:
  assumes "actions_within G W"
  shows "within G (run_action W event deadline ts)"
  using assms unfolding actions_within_def by (intro app_frame.within_run_action [OF _ refl]) blast+

section \<open>Notifications\<close>

text \<open>
  A verified notification is never lost: SNS is told to deliver it again, with a 500, unless its event is
  recorded, whatever its action did; one answered with 200 is a setup notice, or its key holds an event item and
  its roll-up and status move have been applied, whatever other handlers wrote meanwhile.
\<close>

theorem notification_recorded:
  fixes rows_of :: "'w \<Rightarrow> event_rows"
  assumes "dynamo_contract C rows_of" and "wh_persist_new W = persist_new C"
    and others: "actions_within (\<lambda>w w'. \<exists>ops. rows_of w' = events_run ops (rows_of w)) W"
    and kind: "sns_message_type (vsn_envelope v) = Notification"
    and run: "handle_sns W ingress v deadline w = (res, w')"
    and event: "event = classify (wh_from_str W) (sns_message (vsn_envelope v))"
  shows "(\<exists>error. res = Inl error \<and> app_status error = 500) \<or> res = Inr () \<and> (is_setup event \<and> w' = w \<or>
    (\<exists>r xs ys zs. build_record (wh_fmt_date_time W) (wh_system_now W w) (family event) (vsn_envelope v) (vsn_raw_body v)
        event (wh_config W) = Some r \<and>
      rows_of w' = events_run (xs @ PersistEvent r event # ys @ MoveStatus r event # zs) (rows_of w) \<and>
      (\<exists>item. rows_of w' (event_key r) = Some item \<and>
        (rows_of w (event_key r) = Some item \<or> (\<exists>r'. event_key r' = event_key r \<and> item = event_item r')))))"
proof -
  have run: "process_notification W ingress v deadline w = (res, w')" using run kind by (simp add: handle_sns_def)
  let ?build = "build_record (wh_fmt_date_time W) (wh_system_now W w) (family event) (vsn_envelope v) (vsn_raw_body v)
    event (wh_config W)"
  show ?thesis
  proof (cases "is_setup event \<or> ?build = None")
    case True
    then show ?thesis using run unfolding process_notification_def Let_def event [symmetric]
      by (auto split: if_splits)
  next
    case False
    then obtain r where r: "?build = Some r" and mail: "\<not> is_setup event" by blast
    obtain out w1 where persist: "persist_new C r event w = (out, w1)" by fastforce
    show ?thesis
    proof (cases out)
      case (Inl e)
      then show ?thesis using run r mail persist unfolding process_notification_def Let_def event [symmetric]
        by (auto simp: assms(2))
    next
      case (Inr fresh)
      obtain action w2 where action: "run_action W event deadline (time_parse (sns_timestamp (vsn_envelope v))) w1 = (action, w2)"
        by fastforce
      have "w' = w2 \<and> (res = Inl Internal \<or> res = Inr ())"
        using run r mail persist Inr action unfolding process_notification_def Let_def event [symmetric]
        by (auto simp: assms(2) split: sum.splits action_error.splits)
      moreover obtain ops where "rows_of w2 = events_run ops (rows_of w1)"
        using withinD [OF run_action_within [OF others] action] by blast
      moreover obtain xs ys zs where "rows_of w1 = events_run (xs @ PersistEvent r event # ys @ MoveStatus r event # zs) (rows_of w)"
        by (rule persist_new_run [OF assms(1) persist]) (use Inr in auto)
      ultimately have rows: "rows_of w' = events_run (xs @ PersistEvent r event # ys @ MoveStatus r event # zs @ ops) (rows_of w)"
        and "res = Inl Internal \<or> res = Inr ()"
        by simp_all
      moreover have "\<exists>item. rows_of w' (event_key r) = Some item \<and>
          (rows_of w (event_key r) = Some item \<or> (\<exists>r'. event_key r' = event_key r \<and> item = event_item r'))"
        unfolding rows by (rule persisted_item [of r event]) simp
      ultimately show ?thesis using r app_status.simps(3) by blast
    qed
  qed
qed

section \<open>Suppression\<close>

definition calls_for :: "ses_recipient list \<Rightarrow> suppression_reason \<Rightarrow> (string \<times> suppression_reason) list" where
  "calls_for recipients reason = map (\<lambda>r. (srp_email_address r, reason)) recipients"

lemma suppress_calls:
  assumes logged: "\<And>a reason w res w'. wh_put_suppressed_destination W a reason w = (res, w') \<Longrightarrow>
      suppressed w' = suppressed w @ [(a, reason)]"
    and "suppress_recipients W recipients reason w = (res, w')"
  shows "suppressed w' = suppressed w @ calls_for recipients reason \<and> res = Inr () \<or>
    res = Inl ActTransient \<and> (\<exists>a w0 w1. wh_put_suppressed_destination W a reason w0 = (Inl ActTransient, w1))"
  using assms(2)
proof (induction recipients arbitrary: w)
  case (Cons recipient rest)
  obtain r w1 where one: "wh_put_suppressed_destination W (srp_email_address recipient) reason w = (r, w1)" by fastforce
  show ?case
  proof (cases "r = Inl ActTransient")
    case True
    then show ?thesis using Cons.prems one by auto
  next
    case False
    then have "suppress_recipients W rest reason w1 = (res, w')"
      using Cons.prems one by (auto split: sum.splits action_error.splits)
    from Cons.IH [OF this] show ?thesis using logged [OF one] by (auto simp: calls_for_def)
  qed
qed (simp add: calls_for_def)

text \<open>
  No failure of the delivery label keeps an address off the suppression list: when a bounce is permanent or
  a complaint comes, SES has been asked to suppress every recipient, unless a call to it failed transiently,
  and then the notification is redelivered; permanent failures, of the label or of single recipients, and
  transient ones of the label, do not stop the rest.
\<close>

theorem suppression_not_skipped:
  assumes "app_frame (wh_app W) (\<lambda>w w'. suppressed w' = suppressed w)"
    and logged: "\<And>a reason w res w'. wh_put_suppressed_destination W a reason w = (res, w') \<Longrightarrow>
      suppressed w' = suppressed w @ [(a, reason)]"
    and list: "suppression_of event = Some (recipients, reason)"
    and run: "run_action W (EvSes event raw) deadline ts w = (res, w')"
  shows "suppressed w' = suppressed w @ calls_for recipients reason \<or>
    res = Inl ActTransient \<and> (\<exists>a w0 w1. wh_put_suppressed_destination W a reason w0 = (Inl ActTransient, w1))"
proof -
  obtain l w1 where label: "apply_delivery_label W event w = (l, w1)" by fastforce
  obtain r w2 where suppress: "suppress_recipients W recipients reason w1 = (r, w2)" by fastforce
  have "suppressed w1 = suppressed w"
    using withinD [OF app_frame.within_apply_delivery_label [OF assms(1) refl] label] .
  moreover have "w' = w2" and "r = Inl ActTransient \<Longrightarrow> res = Inl ActTransient"
    using run label suppress list by (auto simp: run_ses_def Let_def split: sum.splits if_splits)
  moreover have "suppressed w2 = suppressed w1 @ calls_for recipients reason \<and> r = Inr () \<or>
    r = Inl ActTransient \<and> (\<exists>a w0 w1. wh_put_suppressed_destination W a reason w0 = (Inl ActTransient, w1))"
    by (rule suppress_calls [OF _ suppress]) (rule logged)
  ultimately show ?thesis by auto
qed


section \<open>Instances\<close>

text \<open>The SES events of the mailbox leave the sends of the fakes alone.\<close>

lemma labels_send_nothing:
  "wh_app W = fake_app config parse_spec write_to_vec url_parse \<Longrightarrow> apply_delivery_label W event w = (res, w') \<Longrightarrow>
    fw_answers w' = fw_answers w"
  by (rule withinD [OF fsilent.within_apply_delivery_label])

text \<open>An application over a world of any type whose table is down and whose bucket is empty.\<close>

definition down_app :: "mail_config option \<Rightarrow> 'w app" where
  "down_app config =
     \<lparr>app_mail = config,
      app_table = \<lparr>tbl_get = \<lambda>_ _ w. (Inl ErrTransient, w), tbl_batch_get = \<lambda>_ _ w. (Inl ErrTransient, w),
        tbl_query = \<lambda>_ w. (Inl ErrTransient, w), tbl_put_if_absent = \<lambda>_ w. (Inl ErrTransient, w),
        tbl_transact = \<lambda>_ w. (Inl ErrTransient, w), tbl_pause = \<lambda>_ w. w\<rparr>,
      app_objects = \<lparr>obj_get = \<lambda>_ _ w. (Inl ObjNotFound, w), obj_head = \<lambda>_ w. (Inr None, w),
        obj_put_if_absent = \<lambda>_ _ _ w. (Inl ObjTransient, w), obj_delete = \<lambda>_ w. (Inl ObjTransient, w)\<rparr>,
      app_fetch = \<lambda>_ _ w. (Inl FetchTooLarge, w), app_send_raw = \<lambda>_ w. (OutcomeUnknown [], w),
      app_now_ms = \<lambda>_. 0, app_instant = \<lambda>_. 0, app_sleep_until = \<lambda>_ w. w, app_elapsed = \<lambda>_ _. False,
      app_parse_spec = \<lambda>_. None, app_write_to_vec = \<lambda>_. None, app_url_parse = \<lambda>_. None\<rparr>"

lemma down_app_frame: "(\<And>s. G s s) \<Longrightarrow> (\<And>s s' s''. G s s' \<Longrightarrow> G s' s'' \<Longrightarrow> G s s'') \<Longrightarrow> app_frame (down_app config) G"
  by unfold_locales (auto simp: down_app_def within_def)

definition quiet_sns :: "('w, nat, nat) sns_libs" where
  "quiet_sns = \<lparr>sl_json = \<lambda>_. None, sl_url_parse = \<lambda>_. None, sl_url_host_str = \<lambda>_. None, sl_url_path = \<lambda>_. [],
     sl_http_get = \<lambda>_ w. (None, w), sl_from_pem = \<lambda>_. None, sl_now = \<lambda>_. 0, sl_base64 = \<lambda>_. None,
     sl_signature = \<lambda>_. None, sl_rsa_sha1 = \<lambda>_ _ _. False, sl_rsa_sha256 = \<lambda>_ _ _. False, sl_debug_assertions = False\<rparr>"

definition down_webhook ::
  "(event_record \<Rightarrow> domain_event \<Rightarrow> 'w \<Rightarrow> (event_store_error + persist_outcome) \<times> 'w)
     \<Rightarrow> (string \<Rightarrow> suppression_reason \<Rightarrow> ('w, unit) action) \<Rightarrow> ('w, unit, nat, nat) webhook" where
  "down_webhook persist suppress =
     \<lparr>wh_app = down_app (Some sample_config), wh_api = sample_api, wh_sns = quiet_sns,
      wh_config = \<lparr>cfg_raw_event_retention_days = 30, cfg_aggregate_retention_days = 365,
        cfg_event_source = ''aws-messaging-webhook'', cfg_opt_out_list_name = None, cfg_auto_resubscribe = True\<rparr>,
      wh_subscribe_prefix = None, wh_persist_new = persist, wh_publish = \<lambda>_ w. (Inl (), w),
      wh_put_message_feedback = \<lambda>_ _. act_err ActPermanent, wh_put_opted_out_number = \<lambda>_ _. act_err ActPermanent,
      wh_delete_opted_out_number = \<lambda>_ _. act_err ActPermanent, wh_put_suppressed_destination = suppress,
      wh_from_str = \<lambda>s. Some (JString s), wh_to_vec = compact_vec,
      wh_system_now = \<lambda>_. 0, wh_fmt_date_time = \<lambda>_. Some ''now''\<rparr>"

lemma unknown_notification:
  "classify (\<lambda>s. Some (JString s)) m = EvUnknown (JString m)"
  by (simp add: classify_def classify_json_def de_ses_inbound_def de_ses_notification_def de_sms_inbound_def
      de_sms_delivery_def)

lemma unknown_acknowledged:
  assumes "classify (wh_from_str W) (sns_message (vsn_envelope v)) = EvUnknown j"
    and "build_record (wh_fmt_date_time W) (wh_system_now W w) None (vsn_envelope v) (vsn_raw_body v) (EvUnknown j)
      (wh_config W) = Some r"
    and "wh_persist_new W r (EvUnknown j) w = (Inr out, w')"
  shows "process_notification W ingress v deadline w = (Inr (), w')"
  using assms by (simp add: process_notification_def Let_def is_setup_def act_ok_def)

lemma small_expiry: "expiry_secs 0 30 \<noteq> None" "expiry_secs 0 365 \<noteq> None"
  by (simp_all add: expiry_secs_def Let_def)

theorem notification_recorded_witness:
  "\<exists>r w'. handle_sns (down_webhook (persist_new plain_client) (\<lambda>_ _. act_err ActPermanent)) IngressDirect
      \<lparr>vsn_envelope = genuine_delivery, vsn_raw_body = []\<rparr> 0 Map.empty = (Inr (), w') \<and>
    w' (event_key r) \<noteq> None \<and> rec_sns_message_id r = ''m''"
proof -
  let ?W = "down_webhook (persist_new plain_client) (\<lambda>_ _. act_err ActPermanent)"
  let ?v = "\<lparr>vsn_envelope = genuine_delivery, vsn_raw_body = []\<rparr>"
  obtain res w' where run: "handle_sns ?W IngressDirect ?v 0 Map.empty = (res, w')" by fastforce
  have event: "EvUnknown (JString (sns_message genuine_delivery)) =
      classify (wh_from_str ?W) (sns_message (vsn_envelope ?v))"
    by (simp add: unknown_notification down_webhook_def)
  have refl: "\<exists>ops. w = events_run ops w" for w by (rule exI [of _ "[]"]) simp
  have trans: "\<exists>ops. w' = events_run ops w \<Longrightarrow> \<exists>ops. w'' = events_run ops w' \<Longrightarrow> \<exists>ops. w'' = events_run ops w" for w w' w''
    by (metis events_run_append)
  have "app_frame (wh_app ?W) (\<lambda>w w'. \<exists>ops. w' = events_run ops w)"
    unfolding down_webhook_def webhook.simps by (rule down_app_frame) (rule refl, rule trans)
  then have frame: "actions_within (\<lambda>w w'. \<exists>ops. w' = events_run ops w) ?W"
    using refl by (simp add: actions_within_def within_def act_err_def down_webhook_def)
  obtain r where r: "build_record (wh_fmt_date_time ?W) (wh_system_now ?W Map.empty) None (vsn_envelope ?v)
      (vsn_raw_body ?v) (EvUnknown (JString (sns_message genuine_delivery))) (wh_config ?W) = Some r"
    using small_expiry by (auto simp: build_record_def down_webhook_def)
  obtain out w1 where "persist_new plain_client r (EvUnknown (JString (sns_message genuine_delivery))) Map.empty = (Inr out, w1)"
    by (simp add: persist_new_def plain_client_def status_transition_def event_put_free)
  then have "wh_persist_new ?W r (EvUnknown (JString (sns_message genuine_delivery))) Map.empty = (Inr out, w1)"
    by (simp add: down_webhook_def)
  from unknown_acknowledged [of ?W ?v, OF event [symmetric] r this, of IngressDirect 0]
  have ok: "res = Inr ()" "w' = w1" using run by (simp_all add: handle_sns_def genuine_delivery_def)
  have mail: "\<not> is_setup (EvUnknown j)" for j by (simp add: is_setup_def)
  have "sns_message_type (vsn_envelope ?v) = Notification" by (simp add: genuine_delivery_def)
  from notification_recorded [OF plain_client_contract _ frame this run event]
  obtain r' xs ys zs where r': "build_record (wh_fmt_date_time ?W) (wh_system_now ?W Map.empty)
      (family (EvUnknown (JString (sns_message genuine_delivery)))) (vsn_envelope ?v) (vsn_raw_body ?v)
      (EvUnknown (JString (sns_message genuine_delivery))) (wh_config ?W) = Some r'"
    "w' = events_run (xs @ PersistEvent r' (EvUnknown (JString (sns_message genuine_delivery))) # ys @
      MoveStatus r' (EvUnknown (JString (sns_message genuine_delivery))) # zs) Map.empty"
    using ok(1) mail by (auto simp: down_webhook_def)
  have "w' (event_key r') \<noteq> None" unfolding r'(2) by (rule persisted_row) auto
  moreover have "rec_sns_message_id r' = ''m''"
    using r'(1) by (auto simp: build_record_def genuine_delivery_def split: option.splits bind_splits)
  ultimately show ?thesis using run ok by blast
qed

definition hard_bounce :: ses_notification where
  "hard_bounce = (sample_ses KindBounce)\<lparr>ses_bounce := Some
     \<lparr>bnc_bounce_type = BPermanent, bnc_bounce_sub_type = None,
      bnc_bounced_recipients = [\<lparr>srp_email_address = ''a@x'', srp_status = None\<rparr>, \<lparr>srp_email_address = ''b@x'', srp_status = None\<rparr>],
      bnc_timestamp = None\<rparr>\<rparr>"

theorem suppression_not_skipped_witness:
  "\<exists>res. run_action (down_webhook (\<lambda>_ _ w. (Inl StoreError, w)) (\<lambda>a r w. (Inl ActPermanent, w @ [(a, r)])))
      (EvSes hard_bounce JNull) 0 None [] = (res, [(''a@x'', SuppressBounce), (''b@x'', SuppressBounce)])"
proof -
  let ?W = "down_webhook (\<lambda>_ _ w. (Inl StoreError, w)) (\<lambda>a r w. (Inl ActPermanent, w @ [(a, r)]))"
  obtain res w' where run: "run_action ?W (EvSes hard_bounce JNull) 0 None [] = (res, w')" by fastforce
  have "app_frame (wh_app ?W) (\<lambda>w w'. w' = w)"
    by (simp add: down_webhook_def down_app_frame)
  moreover have "wh_put_suppressed_destination ?W a reason w = (r, w1) \<Longrightarrow> w1 = w @ [(a, reason)] \<and> r = Inl ActPermanent"
    for a reason w r w1 by (auto simp: down_webhook_def)
  moreover have "suppression_of hard_bounce = Some (bnc_bounced_recipients (the (ses_bounce hard_bounce)), SuppressBounce)"
    by (simp add: suppression_of_def hard_bounce_def is_permanent_def)
  ultimately have "w' = [] @ calls_for (bnc_bounced_recipients (the (ses_bounce hard_bounce))) SuppressBounce"
    using suppression_not_skipped [of ?W "\<lambda>w. w", OF _ _ _ run] by blast
  then show ?thesis using run by (simp add: calls_for_def hard_bounce_def)
qed

end
