(* ===== verification/Relay.thy ===== *)
theory Relay
  imports Pipeline
begin

text \<open>
  \<open>webhook/src/stream.rs\<close>: the relay of the streams of both tables to EventBridge. An image is an item with
  string, number, binary and other attributes; the items of the mail table hold no binary one. How the
  payload of an invocation is read is \<open>aws_lambda_events\<close>, a parameter; logging and metrics are left out.
\<close>

section \<open>Images\<close>

record relay_record =
  rr_event_name :: string
  rr_new_image :: event_item
  rr_old_image :: event_item
  rr_sequence_number :: "string option"

definition plain_item :: "event_item \<Rightarrow> item" where
  "plain_item img k = (case img k of Some (Av v) \<Rightarrow> Some v | _ \<Rightarrow> None)"

abbreviation relay_str :: "event_item \<Rightarrow> string \<Rightarrow> string option" where
  "relay_str img \<equiv> image_str (plain_item img)"

definition image_strings :: "event_item \<Rightarrow> string \<Rightarrow> string list option" where
  "image_strings img key =
     (case plain_item img key of
        Some (AvSs vs) \<Rightarrow> Some vs
      | Some (AvL vs) \<Rightarrow> those (map (\<lambda>v. case v of AvS s \<Rightarrow> Some s | _ \<Rightarrow> None) vs)
      | _ \<Rightarrow> None)"

definition image_num :: "event_item \<Rightarrow> string \<Rightarrow> int option" where
  "image_num img key = (case plain_item img key of Some (AvN v) \<Rightarrow> parse_i64 v | _ \<Rightarrow> None)"

datatype relay_outcome = Settled | RetryRecord

datatype stream_item = StreamEvent | StreamAggregate | StreamMailMessage | StreamOther

definition classify_sk :: "string \<Rightarrow> stream_item" where
  "classify_sk sk =
     (if prefix EVENT_SK_PREFIX sk then StreamEvent
      else if sk = AGGREGATE_SK then StreamAggregate
      else if prefix MESSAGE_SK_PREFIX sk then StreamMailMessage
      else StreamOther)"

section \<open>Event items\<close>

definition envelope_of :: "('w, 'm, 'k, 'g) webhook \<Rightarrow> bytes \<Rightarrow> sns_envelope option" where
  "envelope_of W raw_body = Option.bind (sl_json (wh_sns W) raw_body) de_envelope"

definition mailbox_ses_event ::
  "('w, 'm, 'k, 'g) webhook \<Rightarrow> ses_notification \<Rightarrow> sns_envelope \<Rightarrow> ('w, (mail_message \<times> mail_event) option) io" where
  "mailbox_ses_event W ses envelope =
     (if app_mail (wh_app W) = None \<or> mailbox_event_type (ses_kind ses) = None then ok None
      else try_io (resolve_ses_message (app_table (wh_app W)) (SesMessageId (sml_message_id (ses_mail ses)))) (\<lambda>found.
        case found of None \<Rightarrow> ok None
        | Some (inbox, message_id) \<Rightarrow>
            try_io (get_message (app_table (wh_app W)) inbox message_id) (\<lambda>found.
              case found of None \<Rightarrow> ok None
              | Some msg \<Rightarrow> ok (map_option (Pair msg)
                  (build_ses_event (al_ids (wh_api W)) ses msg (sns_message_id envelope) (sns_timestamp envelope))))))"

fun publish_mail_events ::
  "('w, 'm, 'k, 'g) webhook \<Rightarrow> mail_event list \<Rightarrow> relay_outcome \<Rightarrow> 'w \<Rightarrow> relay_outcome \<times> 'w" where
  "publish_mail_events W [] out w = (out, w)"
| "publish_mail_events W (event # events) out w =
     (case wh_publish W \<lparr>out_detail_type = mev_detail_type event, out_detail = mev_detail event\<rparr> w of
        (Inr _, w') \<Rightarrow> publish_mail_events W events out w'
      | (Inl _, w') \<Rightarrow> publish_mail_events W events RetryRecord w')"

definition rebuild_record :: "event_item \<Rightarrow> sns_envelope \<Rightarrow> bytes \<Rightarrow> domain_event \<Rightarrow> event_record" where
  "rebuild_record img envelope raw_body event =
     \<lparr>rec_aggregate_id = aggregate_id event (sns_message_id envelope),
      rec_event_timestamp = sns_timestamp envelope, rec_sns_message_id = sns_message_id envelope,
      rec_raw_body = raw_body, rec_source = family event, rec_detail_type = detail_type event,
      rec_topic_arn = sns_topic_arn envelope, rec_received_at = or_empty (relay_str img ''received_at''),
      rec_expires_at = 0, rec_aggregate_expires_at = 0\<rparr>"

definition publish_record :: "('w, 'm, 'k, 'g) webhook \<Rightarrow> event_item \<Rightarrow> 'w \<Rightarrow> relay_outcome \<times> 'w" where
  "publish_record W img w =
     (case img ''raw_body'' of
        Some (AvB raw_body) \<Rightarrow>
          (case envelope_of W raw_body of
             None \<Rightarrow> (Settled, w)
           | Some envelope \<Rightarrow>
               let event = classify (wh_from_str W) (sns_message envelope);
                   record = rebuild_record img envelope raw_body event in
               (case (case event of EvSes ses _ \<Rightarrow> mailbox_ses_event W ses envelope w | _ \<Rightarrow> (Inr None, w)) of
                  (Inl ErrTransient, w') \<Rightarrow> (RetryRecord, w')
                | (found, w') \<Rightarrow>
                    (case wh_publish W (build_outbound_event (wh_to_vec W) record event
                         (cfg_event_source (wh_config W))) w' of
                       (Inl _, w'') \<Rightarrow> (RetryRecord, w'')
                     | (Inr _, w'') \<Rightarrow>
                         (case found of
                            Inr (Some (msg, mailbox_event)) \<Rightarrow> publish_mail_events W [mailbox_event] Settled w''
                          | _ \<Rightarrow> (Settled, w'')))))
      | _ \<Rightarrow> (Settled, w))"

section \<open>Message items\<close>

definition decode_mail_image :: "event_item \<Rightarrow> mail_message option" where
  "decode_mail_image img = message_of_item (plain_item img)"

definition publish_mail_record :: "('w, 'm, 'k, 'g) webhook \<Rightarrow> event_item \<Rightarrow> 'w \<Rightarrow> relay_outcome \<times> 'w" where
  "publish_mail_record W img w =
     (case decode_mail_image img of
        None \<Rightarrow> (Settled, w)
      | Some msg \<Rightarrow>
          if \<not> has_label (msg_labels msg) LReceived then (Settled, w)
          else (case load_content (al_content_from_slice (wh_api W)) (app_objects (wh_app W)) msg w of
              (Inl ObjTransient, w') \<Rightarrow> (RetryRecord, w')
            | (found, w') \<Rightarrow>
                let content = (case found of Inr content \<Rightarrow> content | Inl _ \<Rightarrow> content_default) in
                (case build_received_event (al_ids (wh_api W)) (wh_to_vec W) msg content (cfg_event_source (wh_config W)) of
                   None \<Rightarrow> (Settled, w')
                 | Some event \<Rightarrow> publish_mail_events W [event] Settled w')))"

definition publish_mail_sent ::
  "('w, 'm, 'k, 'g) webhook \<Rightarrow> event_item \<Rightarrow> event_item \<Rightarrow> 'w \<Rightarrow> relay_outcome \<times> 'w" where
  "publish_mail_sent W new_image old_image w =
     (case decode_mail_image new_image of
        None \<Rightarrow> (Settled, w)
      | Some msg \<Rightarrow>
          (case image_strings old_image ''labels'' of
             None \<Rightarrow> (Settled, w)
           | Some old_labels \<Rightarrow>
               (case build_sent_event (al_ids (wh_api W)) msg old_labels of
                  None \<Rightarrow> (Settled, w)
                | Some event \<Rightarrow> publish_mail_events W [event] Settled w)))"

section \<open>Aggregates\<close>

definition json_int :: "int \<Rightarrow> json" where
  "json_int n = JNumber (if n < 0 then ''-'' @ radix 10 (nat (- n)) else radix 10 (nat n))"

definition status_json :: "event_item \<Rightarrow> string \<Rightarrow> json" where
  "status_json img current = json_object
     ([json_text ''current'' current] @
      some_field JString ''bounceType'' (relay_str img ''bounce_type'') @
      some_field JString ''firstEventAt'' (relay_str img ''first_event_at'') @
      some_field JString ''lastEventAt'' (relay_str img ''last_event_at'') @
      some_field json_int ''openCount'' (image_num img ''open_count'') @
      some_field json_int ''clickCount'' (image_num img ''click_count'') @
      some_field json_int ''botOpenCount'' (image_num img ''bot_open_count'') @
      some_field json_int ''botClickCount'' (image_num img ''bot_click_count''))"

definition status_changed :: "event_item \<Rightarrow> event_item \<Rightarrow> outbound_event option" where
  "status_changed new_image old_image =
     (case relay_str new_image ''current_status'' of
        None \<Rightarrow> None
      | Some current \<Rightarrow>
          if relay_str old_image ''current_status'' = Some current then None
          else (case Option.bind (relay_str new_image ''pk'') parse_partition of
              None \<Rightarrow> None
            | Some message_id \<Rightarrow>
                let path = map_option webhook_path (Option.bind (relay_str new_image ''source'') from_label)
                in Some \<lparr>out_detail_type = ''message.status.changed'', out_detail = json_object
                  [(''schemaVersion'', json_nat SCHEMA_VERSION),
                   (''meta'', json_object [json_text ''messageId'' message_id, (''webhookPath'', json_opt path)]),
                   (''status'', status_json new_image current)]\<rparr>))"

definition publish_status_changed ::
  "('w, 'm, 'k, 'g) webhook \<Rightarrow> event_item \<Rightarrow> event_item \<Rightarrow> 'w \<Rightarrow> relay_outcome \<times> 'w" where
  "publish_status_changed W new_image old_image w =
     (case status_changed new_image old_image of
        None \<Rightarrow> (Settled, w)
      | Some outbound \<Rightarrow>
          (case wh_publish W outbound w of
             (Inr _, w') \<Rightarrow> (Settled, w') | (Inl _, w') \<Rightarrow> (RetryRecord, w')))"

section \<open>A batch\<close>

text \<open>What becomes of one record; one that is passed over is settled.\<close>

definition relay_one :: "('w, 'm, 'k, 'g) webhook \<Rightarrow> relay_record \<Rightarrow> 'w \<Rightarrow> relay_outcome \<times> 'w" where
  "relay_one W record w =
     (case relay_str (rr_new_image record) ''sk'' of
        None \<Rightarrow> (Settled, w)
      | Some sk \<Rightarrow>
          (case classify_sk sk of
             StreamEvent \<Rightarrow>
               if rr_event_name record \<noteq> ''INSERT'' then (Settled, w) else publish_record W (rr_new_image record) w
           | StreamAggregate \<Rightarrow> publish_status_changed W (rr_new_image record) (rr_old_image record) w
           | StreamMailMessage \<Rightarrow>
               if rr_event_name record = ''INSERT'' then publish_mail_record W (rr_new_image record) w
               else publish_mail_sent W (rr_new_image record) (rr_old_image record) w
           | StreamOther \<Rightarrow> (Settled, w)))"

fun relay_records :: "('w, 'm, 'k, 'g) webhook \<Rightarrow> relay_record list \<Rightarrow> 'w \<Rightarrow> string list \<times> 'w" where
  "relay_records W [] w = ([], w)"
| "relay_records W (record # records) w =
     (case relay_one W record w of
        (Settled, w') \<Rightarrow> relay_records W records w'
      | (RetryRecord, w') \<Rightarrow>
          (case rr_sequence_number record of
             Some sequence_number \<Rightarrow> ([sequence_number], w')
           | None \<Rightarrow> relay_records W records w'))"

text \<open>The batch, or nothing when the payload is no stream event; the answer names the record to resume at.\<close>

definition handle_stream ::
  "('w, 'm, 'k, 'g) webhook \<Rightarrow> relay_record list option \<Rightarrow> 'w \<Rightarrow> (unit + json) \<times> 'w" where
  "handle_stream W batch w =
     (case batch of
        None \<Rightarrow> (Inl (), w)
      | Some records \<Rightarrow>
          (case relay_records W records w of (failures, w') \<Rightarrow>
             (Inr (json_object [(''batchItemFailures'',
                JArray (map (\<lambda>n. json_object [json_text ''itemIdentifier'' n]) failures))]), w')))"


section \<open>Batches\<close>

text \<open>
  A batch stops at the first record that must be tried again and can be named: what the answer names is
  that record, every record before it has been dealt with, and none after it has, so that the redelivery
  from it on publishes nothing twice.
\<close>

theorem relay_stops_at_first_failure:
  assumes "relay_records W records w = (failures, w')" and "failures \<noteq> []"
  shows "\<exists>before record after n w1. records = before @ record # after \<and> rr_sequence_number record = Some n \<and>
    failures = [n] \<and> relay_records W before w = ([], w1) \<and> relay_one W record w1 = (RetryRecord, w')"
  using assms
proof (induction records arbitrary: w)
  case (Cons r0 records)
  obtain out w1 where one: "relay_one W r0 w = (out, w1)" by fastforce
  show ?case
  proof (cases "out = RetryRecord \<and> rr_sequence_number r0 \<noteq> None")
    case True
    then obtain n where "rr_sequence_number r0 = Some n" "failures = [n]" "w1 = w'" "out = RetryRecord"
      using Cons.prems one by auto
    then show ?thesis using one by (metis append_Nil relay_records.simps(1))
  next
    case False
    then have step: "relay_records W (r0 # rs) w = relay_records W rs w1" for rs
      using one by (cases out) auto
    then obtain before r after n w2 where "records = before @ r # after" "rr_sequence_number r = Some n" "failures = [n]"
      "relay_records W before w1 = ([], w2)" "relay_one W r w2 = (RetryRecord, w')"
      using Cons by metis
    then show ?thesis using step
      by (metis append_Cons)
  qed
qed simp

lemma unreported_settled:
  assumes "relay_records W records w = ([], w')" and "record \<in> set records" and "rr_sequence_number record \<noteq> None"
  obtains before after w1 w2 where "records = before @ record # after" "relay_one W record w1 = (Settled, w2)"
    "relay_records W after w2 = ([], w')"
proof -
  have "\<exists>before after w1 w2. records = before @ record # after \<and> relay_one W record w1 = (Settled, w2) \<and>
      relay_records W after w2 = ([], w')"
    using assms
  proof (induction records arbitrary: w)
    case (Cons r records)
    obtain out w1 where one: "relay_one W r w = (out, w1)" by fastforce
    show ?case
    proof (cases "r = record")
      case True
      then have "out = Settled" using Cons.prems one by (cases out) auto
      then show ?thesis using True Cons.prems one by (intro exI [of _ "[]"] exI [of _ records]) auto
    next
      case False
      have "relay_records W records w1 = ([], w')"
        using Cons.prems(1) one by (cases out) (auto split: option.splits)
      moreover have "record \<in> set records" using False Cons.prems(2) by simp
      ultimately obtain before after wa wb where "records = before @ record # after"
          "relay_one W record wa = (Settled, wb)" "relay_records W after wb = ([], w')"
        using Cons.IH Cons.prems(3) by blast
      then show ?thesis by (intro exI [of _ "r # before"] exI [of _ "after"] exI [of _ wa] exI [of _ wb]) simp
    qed
  qed simp
  then show thesis using that by blast
qed

section \<open>What reaches the bus\<close>

context app_frame
begin

lemma within_load_content: "within G (load_content from_slice (app_objects A) msg)"
proof -
  have get: "within G (obj_get (app_objects A) key limit)" for key limit using object_get_within by simp
  show ?thesis
    by (auto simp: load_content_def intro!: withinI dest: withinD [OF get] split: prod.splits sum.splits option.splits
        object_error.splits)
qed

lemma within_mailbox_ses_event:
  assumes "wh_app W = A"
  shows "within G (mailbox_ses_event W ses envelope)"
  unfolding mailbox_ses_event_def assms
  by (auto intro!: frame_intros within_reads [simplified] split: option.split prod.split)

lemma publish_mail_events_within:
  assumes "\<And>e. within G (wh_publish W e)"
  shows "within G (publish_mail_events W events out)"
proof (induction events arbitrary: out)
  case (Cons event events)
  show ?case
  proof (rule withinI)
    fix w res w'
    assume run: "publish_mail_events W (event # events) out w = (res, w')"
    obtain r w1 where one: "wh_publish W \<lparr>out_detail_type = mev_detail_type event, out_detail = mev_detail event\<rparr> w = (r, w1)"
      by fastforce
    then obtain out' where "publish_mail_events W events out' w1 = (res, w')" using run by (cases r) auto
    from G_trans [OF withinD [OF assms one] withinD [OF Cons.IH this]] show "G w w'" .
  qed
qed (simp add: within_def)

lemma within_relay_one:
  assumes app: "wh_app W = A" and publish: "\<And>e. within G (wh_publish W e)"
  shows "within G (relay_one W record)"
proof -
  have events: "within G (publish_record W img)" for img
  proof (rule withinI)
    fix w res w'
    assume run: "publish_record W img w = (res, w')"
    show "G w w'"
    proof (cases "\<exists>raw envelope. img ''raw_body'' = Some (AvB raw) \<and> envelope_of W raw = Some envelope")
      case False
      then show ?thesis using run by (auto simp: publish_record_def split: option.splits stored_av.splits)
    next
      case True
      then obtain raw envelope where img: "img ''raw_body'' = Some (AvB raw)" "envelope_of W raw = Some envelope" by blast
      let ?event = "classify (wh_from_str W) (sns_message envelope)"
      obtain found w1 where found: "(case ?event of EvSes ses _ \<Rightarrow> mailbox_ses_event W ses envelope w | _ \<Rightarrow> (Inr None, w)) = (found, w1)"
        by fastforce
      have "G w w1" using found withinD [OF within_mailbox_ses_event [OF app]] by (auto split: domain_event.splits)
      moreover obtain r w2 where pub: "wh_publish W (build_outbound_event (wh_to_vec W) (rebuild_record img envelope raw ?event) ?event
          (cfg_event_source (wh_config W))) w1 = (r, w2)" by fastforce
      moreover have "G w1 w2" by (rule withinD [OF publish pub])
      moreover have "w' = w1 \<or> w' = w2 \<or> (\<exists>ev. publish_mail_events W [ev] Settled w2 = (res, w'))"
        using run img found pub unfolding publish_record_def Let_def
        by (auto simp del: publish_mail_events.simps split: sum.splits mail_store_error.splits option.splits prod.splits)
      moreover have "publish_mail_events W evs Settled w2 = (res, w') \<Longrightarrow> G w2 w'" for evs
        by (rule withinD [OF publish_mail_events_within [OF publish]])
      ultimately show ?thesis using G_trans by blast
    qed
  qed
  have status: "within G (publish_status_changed W new old)" for new old
    by (rule withinI) (auto simp: publish_status_changed_def dest: withinD [OF publish] split: option.splits sum.splits prod.splits)
  have sent: "within G (publish_mail_sent W img old)" for img old
    by (rule withinI) (auto simp: publish_mail_sent_def simp del: publish_mail_events.simps
        dest: withinD [OF publish_mail_events_within [OF publish]] split: option.splits)
  have received: "within G (publish_mail_record W img)" for img
  proof (rule withinI)
    fix w res w'
    assume run: "publish_mail_record W img w = (res, w')"
    obtain found w1 where load: "load_content (al_content_from_slice (wh_api W)) (app_objects (wh_app W))
      (the (decode_mail_image img)) w = (found, w1)" by fastforce
    have "w' = w \<or> w' = w1 \<or> (\<exists>ev. publish_mail_events W [ev] Settled w1 = (res, w'))"
      using run load by (auto simp: publish_mail_record_def Let_def simp del: publish_mail_events.simps
          split: option.splits sum.splits object_error.splits if_splits)
    moreover have "G w w1" by (rule withinD [OF within_load_content [folded app] load])
    ultimately show "G w w'" using withinD [OF publish_mail_events_within [OF publish]] G_trans G_refl by metis
  qed
  show ?thesis
    by (rule withinI) (auto simp: relay_one_def dest: withinD [OF events] withinD [OF status] withinD [OF received]
        withinD [OF sent] split: option.splits stream_item.splits if_splits)
qed

end


text \<open>A publisher and the events it has put on the bus.\<close>

definition bus :: "('w, 'm, 'k, 'g) webhook \<Rightarrow> ('w \<Rightarrow> outbound_event set) \<Rightarrow> bool" where
  "bus W published \<longleftrightarrow> app_frame (wh_app W) (\<lambda>w w'. published w \<subseteq> published w') \<and>
     (\<forall>e w res w'. wh_publish W e w = (res, w') \<longrightarrow> published w \<subseteq> published w' \<and> (res = Inr () \<longrightarrow> e \<in> published w'))"

lemma bus_publish:
  assumes "bus W published"
  shows "within (\<lambda>w w'. published w \<subseteq> published w') (wh_publish W e)"
    and "wh_publish W e w = (Inr (), w') \<Longrightarrow> e \<in> published w'"
proof -
  show "within (\<lambda>w w'. published w \<subseteq> published w') (wh_publish W e)"
    by (rule withinI) (use assms in \<open>simp add: bus_def\<close>)
  show "wh_publish W e w = (Inr (), w') \<Longrightarrow> e \<in> published w'" using assms unfolding bus_def by blast
qed

lemma bus_keeps:
  assumes "bus W published"
  shows "relay_one W record w = (out, w') \<Longrightarrow> published w \<subseteq> published w'"
    and "publish_mail_events W events o1 w = (out, w') \<Longrightarrow> published w \<subseteq> published w'"
proof -
  have app: "app_frame (wh_app W) (\<lambda>w w'. published w \<subseteq> published w')" using assms by (simp add: bus_def)
  show "relay_one W record w = (out, w') \<Longrightarrow> published w \<subseteq> published w'"
    using withinD [OF app_frame.within_relay_one [OF app refl bus_publish(1) [OF assms]]] by blast
  show "publish_mail_events W events o1 w = (out, w') \<Longrightarrow> published w \<subseteq> published w'"
    using withinD [OF app_frame.publish_mail_events_within [OF app bus_publish(1) [OF assms]]] by blast
qed

lemma bus_keeps_batch:
  assumes "bus W published"
  shows "relay_records W records w = (failures, w') \<Longrightarrow> published w \<subseteq> published w'"
proof (induction records arbitrary: w)
  case (Cons r records)
  obtain out w1 where one: "relay_one W r w = (out, w1)" by fastforce
  then have "w' = w1 \<or> relay_records W records w1 = (failures, w')"
    using Cons.prems by (auto split: relay_outcome.splits option.splits)
  with Cons.IH bus_keeps(1) [OF assms one] show ?case by blast
qed simp

lemma settled_mail_events:
  assumes "bus W published" and "publish_mail_events W [event] Settled w = (Settled, w')"
  shows "\<lparr>out_detail_type = mev_detail_type event, out_detail = mev_detail event\<rparr> \<in> published w'"
  using assms(2) bus_publish(2) [OF assms(1)] by (auto split: prod.splits sum.splits)

lemma outbound_without_ttl:
  "build_outbound_event to_vec (r\<lparr>rec_expires_at := a, rec_aggregate_expires_at := b\<rparr>) e src =
    build_outbound_event to_vec r e src"
proof -
  have "outbound_meta (r\<lparr>rec_expires_at := a, rec_aggregate_expires_at := b\<rparr>) e = outbound_meta r e"
    and "rec_detail_type (r\<lparr>rec_expires_at := a, rec_aggregate_expires_at := b\<rparr>) = rec_detail_type r"
    by (simp_all add: outbound_meta_def)
  then show ?thesis by (simp only: build_outbound_event_def)
qed

lemma rebuilt_record:
  assumes "build_record fmt now (family event) envelope raw_body event config = Some r"
  shows "rebuild_record (event_item r) envelope raw_body event = r\<lparr>rec_expires_at := 0, rec_aggregate_expires_at := 0\<rparr>"
  using assms
  by (auto simp: build_record_def rebuild_record_def event_item_def plain_item_def image_str_def or_empty_def split: bind_splits)

lemma publish_record_settled:
  assumes bus: "bus W published" and "img ''raw_body'' = Some (AvB raw)" and "envelope_of W raw = Some envelope"
    and event: "event = classify (wh_from_str W) (sns_message envelope)"
    and "publish_record W img w = (Settled, w')"
  shows "build_outbound_event (wh_to_vec W) (rebuild_record img envelope raw event) event (cfg_event_source (wh_config W))
    \<in> published w'"
proof -
  let ?out = "build_outbound_event (wh_to_vec W) (rebuild_record img envelope raw event) event (cfg_event_source (wh_config W))"
  obtain found w1 where found: "(case event of EvSes ses _ \<Rightarrow> mailbox_ses_event W ses envelope w | _ \<Rightarrow> (Inr None, w)) = (found, w1)"
    by fastforce
  obtain r w2 where pub: "wh_publish W ?out w1 = (r, w2)" by fastforce
  have "r = Inr () \<and> (w' = w2 \<or> (\<exists>ev. publish_mail_events W [ev] Settled w2 = (Settled, w')))"
    using assms(2,3,5) found pub unfolding publish_record_def event Let_def
    by (auto simp del: publish_mail_events.simps split: sum.splits mail_store_error.splits option.splits prod.splits)
  then show ?thesis using bus_publish(2) [OF bus] bus_keeps(2) [OF bus] pub by blast
qed

text \<open>
  The stored event item is an outbox: when the stream has handed the relay the insert of a recorded
  notification and the answer does not ask for it again, the bus has the event, with exactly the detail
  built from what was recorded.
\<close>

theorem unreported_is_published:
  assumes "bus W published" and "envelope_of W (vsn_raw_body v) = Some (vsn_envelope v)"
    and event: "event = classify (wh_from_str W) (sns_message (vsn_envelope v))"
    and built: "build_record fmt now (family event) (vsn_envelope v) (vsn_raw_body v) event config = Some r"
    and "record \<in> set records" and "rr_event_name record = ''INSERT''" and "rr_new_image record = event_item r"
    and "rr_sequence_number record \<noteq> None" and "relay_records W records w = ([], w')"
  shows "build_outbound_event (wh_to_vec W) r event (cfg_event_source (wh_config W)) \<in> published w'"
proof -
  obtain before rest w1 w2 where one: "relay_one W record w1 = (Settled, w2)" and rest: "relay_records W rest w2 = ([], w')"
    by (rule unreported_settled [OF assms(9,5,8)])
  have raw: "event_item r ''raw_body'' = Some (AvB (vsn_raw_body v))"
    using built by (auto simp: build_record_def event_item_def split: bind_splits)
  have "relay_str (event_item r) ''sk'' = Some (event_sk (rec_event_timestamp r) (rec_sns_message_id r))"
    by (simp add: image_str_def plain_item_def event_item_def event_key_def)
  moreover have "classify_sk (event_sk (rec_event_timestamp r) (rec_sns_message_id r)) = StreamEvent"
    by (simp add: classify_sk_def event_sk_def)
  ultimately have "publish_record W (event_item r) w1 = (Settled, w2)"
    using one assms(6,7) by (simp add: relay_one_def)
  from publish_record_settled [OF assms(1) raw assms(2) event this]
  have "build_outbound_event (wh_to_vec W) r event (cfg_event_source (wh_config W)) \<in> published w2"
    unfolding rebuilt_record [OF built] outbound_without_ttl .
  then show ?thesis using bus_keeps_batch [OF assms(1) rest] by blast
qed

text \<open>
  A received message is announced: when the relay has been handed the insert of its row and the answer
  does not ask for it again, the bus has its received event, built from the row and its content document,
  or, should the document be unreadable for good, from the row alone.
\<close>

theorem arrival_announced:
  assumes bus: "bus W published" and received: "has_label (msg_labels msg) LReceived"
    and "record \<in> set records" and "rr_event_name record = ''INSERT''"
    and img: "plain_item (rr_new_image record) = message_item msg"
    and "rr_sequence_number record \<noteq> None" and "relay_records W records w = ([], w')"
  shows "\<exists>w1 w2 found content event. load_content (al_content_from_slice (wh_api W)) (app_objects (wh_app W)) msg w1 = (found, w2) \<and>
    (found = Inr content \<or> content = content_default \<and> (\<exists>e. found = Inl e \<and> e \<noteq> ObjTransient)) \<and>
    build_received_event (al_ids (wh_api W)) (wh_to_vec W) msg content (cfg_event_source (wh_config W)) = Some event \<and>
    \<lparr>out_detail_type = mev_detail_type event, out_detail = mev_detail event\<rparr> \<in> published w'"
proof -
  obtain before rest w1 w2 where one: "relay_one W record w1 = (Settled, w2)" and rest: "relay_records W rest w2 = ([], w')"
    by (rule unreported_settled [OF assms(7,3,6)])
  have "relay_str (rr_new_image record) ''sk'' = Some (MESSAGE_SK_PREFIX @ message_id_str (msg_message_id msg))"
    by (simp add: img image_str_def message_item_def to_item_def message_key_def message_index_keys_def)
  moreover have "classify_sk (MESSAGE_SK_PREFIX @ message_id_str (msg_message_id msg)) = StreamMailMessage"
    by (simp add: classify_sk_def EVENT_SK_PREFIX_def MESSAGE_SK_PREFIX_def AGGREGATE_SK_def)
  ultimately have settled: "publish_mail_record W (rr_new_image record) w1 = (Settled, w2)"
    using one assms(4) by (simp add: relay_one_def)
  obtain found wl where load: "load_content (al_content_from_slice (wh_api W)) (app_objects (wh_app W)) msg w1 = (found, wl)"
    by fastforce
  define content where "content = (case found of Inr content \<Rightarrow> content | Inl _ \<Rightarrow> content_default)"
  obtain event where event: "build_received_event (al_ids (wh_api W)) (wh_to_vec W) msg content
      (cfg_event_source (wh_config W)) = Some event"
    using received_event_some [OF received] by blast
  have decoded: "decode_mail_image (rr_new_image record) = Some msg" by (simp add: decode_mail_image_def img)
  have found: "found \<noteq> Inl ObjTransient"
    using settled load received decoded by (auto simp: publish_mail_record_def)
  then have "publish_mail_events W [event] Settled wl = (Settled, w2)"
    using settled load received decoded event unfolding publish_mail_record_def content_def
    by (auto simp del: publish_mail_events.simps split: sum.splits object_error.splits)
  from settled_mail_events [OF bus this] bus_keeps_batch [OF bus rest]
  have "\<lparr>out_detail_type = mev_detail_type event, out_detail = mev_detail event\<rparr> \<in> published w'" by blast
  moreover have "found = Inr content \<or> content = content_default \<and> (\<exists>e. found = Inl e \<and> e \<noteq> ObjTransient)"
    using found by (cases found) (auto simp: content_def)
  ultimately show ?thesis using load event by blast
qed


section \<open>Instances\<close>

text \<open>A bus that takes every event; the state is what it has taken.\<close>

definition open_webhook :: "(outbound_event set, unit, nat, nat) webhook" where
  "open_webhook = (down_webhook (\<lambda>_ _ w. (Inl StoreError, w)) (\<lambda>_ _. act_err ActPermanent))
     \<lparr>wh_sns := quiet_sns\<lparr>sl_json := \<lambda>_. Some (JArray (JString ''Notification'' # replicate 6 (JString ''1'') @ replicate 5 (JString ''u'')))\<rparr>,
      wh_publish := \<lambda>e w. (Inr (), insert e w)\<rparr>"

lemma open_webhook_bus: "bus open_webhook (\<lambda>w. w)"
  unfolding bus_def by (auto simp: open_webhook_def down_webhook_def intro!: down_app_frame)

theorem relay_stops_at_first_failure_witness:
  "\<exists>before record after n w1. (replicate 2 \<lparr>rr_event_name = ''INSERT'', rr_new_image = [''sk'' \<mapsto> av_s ''AGG'', ''pk'' \<mapsto> av_s ''MSG#m'',
        ''current_status'' \<mapsto> av_s ''sent''], rr_old_image = Map.empty, rr_sequence_number = Some ''7''\<rparr>) = before @ record # after \<and>
    rr_sequence_number record = Some n \<and> [''7''] = [n] \<and>
    relay_records (down_webhook (\<lambda>_ _ w. (Inl StoreError, w)) (\<lambda>_ _. act_err ActPermanent)) before () = ([], w1) \<and>
    relay_one (down_webhook (\<lambda>_ _ w. (Inl StoreError, w)) (\<lambda>_ _. act_err ActPermanent)) record w1 = (RetryRecord, ())"
  by (rule relay_stops_at_first_failure [where w = "()"])
    (simp_all add: numeral_2_eq_2 relay_one_def image_str_def plain_item_def classify_sk_def EVENT_SK_PREFIX_def AGGREGATE_SK_def
      publish_status_changed_def status_changed_def parse_partition_def PARTITION_PREFIX_def strip_prefix_def down_webhook_def Let_def)

lemma open_webhook_simps:
  "wh_publish open_webhook e w = (Inr (), insert e w)" "wh_to_vec open_webhook = compact_vec"
  "wh_from_str open_webhook = (\<lambda>s. Some (JString s))" "cfg_event_source (wh_config open_webhook) = ''aws-messaging-webhook''"
  "wh_api open_webhook = sample_api" "wh_app open_webhook = down_app (Some sample_config)"
  by (simp_all add: open_webhook_def down_webhook_def)

lemma open_envelope:
  "\<exists>envelope. (\<forall>raw. envelope_of open_webhook raw = Some envelope) \<and> sns_message envelope = ''1''"
proof -
  have "\<exists>envelope. de_envelope (JArray (JString ''Notification'' # replicate 6 (JString ''1'') @ replicate 5 (JString ''u''))) = Some envelope \<and>
      sns_message envelope = ''1''"
    by (simp add: de_envelope_def numeral_eq_Suc required_def defaulted_def de_option_def message_type_of_def)
  then show ?thesis by (auto simp: envelope_of_def open_webhook_def)
qed

lemma open_relays_unknown:
  assumes "img ''raw_body'' = Some (AvB raw)" and "relay_str img ''sk'' = Some (EVENT_SK_PREFIX @ s)"
  shows "\<exists>w'. relay_records open_webhook [\<lparr>rr_event_name = ''INSERT'', rr_new_image = img, rr_old_image = old,
    rr_sequence_number = n\<rparr>] w = ([], w')"
proof -
  obtain envelope where "envelope_of open_webhook raw = Some envelope" using open_envelope by blast
  then have "\<exists>w'. publish_record open_webhook img w = (Settled, w')"
    using assms(1) by (simp add: publish_record_def Let_def open_webhook_simps unknown_notification)
  moreover have "classify_sk (EVENT_SK_PREFIX @ s) = StreamEvent" by (simp add: classify_sk_def)
  ultimately show ?thesis using assms(2) by (auto simp: relay_one_def)
qed

theorem unreported_is_published_witness:
  "\<exists>r w'. relay_records open_webhook [\<lparr>rr_event_name = ''INSERT'', rr_new_image = event_item r, rr_old_image = Map.empty,
      rr_sequence_number = Some ''7''\<rparr>] {} = ([], w') \<and>
    build_outbound_event compact_vec r (EvUnknown (JString ''1'')) ''aws-messaging-webhook'' \<in> w'"
proof -
  obtain envelope where envelope: "\<forall>raw. envelope_of open_webhook raw = Some envelope" "sns_message envelope = ''1''"
    using open_envelope by blast
  let ?v = "\<lparr>vsn_envelope = envelope, vsn_raw_body = []\<rparr>"
  have event: "EvUnknown (JString ''1'') = classify (wh_from_str open_webhook) (sns_message (vsn_envelope ?v))"
    by (simp add: open_webhook_simps unknown_notification envelope)
  obtain r where r: "build_record (\<lambda>_. Some ''now'') 0 (family (EvUnknown (JString ''1''))) (vsn_envelope ?v) (vsn_raw_body ?v)
      (EvUnknown (JString ''1'')) (wh_config open_webhook) = Some r"
    using small_expiry by (auto simp: build_record_def open_webhook_def down_webhook_def)
  have "event_item r ''raw_body'' = Some (AvB (rec_raw_body r))"
    and "relay_str (event_item r) ''sk'' = Some (EVENT_SK_PREFIX @ rec_event_timestamp r @ ''#'' @ rec_sns_message_id r)"
    by (simp_all add: event_item_def event_key_def event_sk_def image_str_def plain_item_def)
  from open_relays_unknown [OF this] obtain w' where run: "relay_records open_webhook [\<lparr>rr_event_name = ''INSERT'',
      rr_new_image = event_item r, rr_old_image = Map.empty, rr_sequence_number = Some ''7''\<rparr>] {} = ([], w')" by blast
  have "build_outbound_event (wh_to_vec open_webhook) r (EvUnknown (JString ''1'')) (cfg_event_source (wh_config open_webhook)) \<in> w'"
    using unreported_is_published [OF open_webhook_bus _ event r _ _ _ _ run] envelope by simp
  then show ?thesis using run by (auto simp: open_webhook_simps)
qed

theorem arrival_announced_witness:
  "\<exists>w' (event :: mail_event). relay_records open_webhook [\<lparr>rr_event_name = ''INSERT'',
      rr_new_image = (\<lambda>k. map_option Av (message_item (sample_message ''support'' ''m1'' ''t1'') k)), rr_old_image = Map.empty,
      rr_sequence_number = Some ''7''\<rparr>] {} = ([], w') \<and>
    \<lparr>out_detail_type = mev_detail_type event, out_detail = mev_detail event\<rparr> \<in> w'"
proof -
  let ?msg = "sample_message ''support'' ''m1'' ''t1''"
  let ?img = "\<lambda>k. map_option Av (message_item ?msg k)"
  let ?r = "\<lparr>rr_event_name = ''INSERT'', rr_new_image = ?img, rr_old_image = Map.empty, rr_sequence_number = Some ''7''\<rparr>"
  have img: "plain_item ?img = message_item ?msg" by (rule ext) (simp add: plain_item_def split: option.split)
  have received: "has_label (msg_labels ?msg) LReceived" by (simp add: sample_fields has_label_def)
  obtain event where event: "build_received_event (al_ids (wh_api open_webhook)) compact_vec ?msg content_default
      ''aws-messaging-webhook'' = Some event" using received_event_some [OF received] by blast
  have load: "load_content f (app_objects (down_app config)) msg w = (Inr content_default, w)" for f config msg w
    by (simp add: load_content_def down_app_def)
  have "\<exists>w'. publish_mail_record open_webhook ?img {} = (Settled, w')"
    using received event by (simp add: publish_mail_record_def decode_mail_image_def img open_webhook_simps(1-4) open_webhook_simps(6) load)
  moreover have "relay_str ?img ''sk'' = Some (MESSAGE_SK_PREFIX @ ''m1'')"
    unfolding image_str_def img by (simp add: message_item_def to_item_def message_key_def message_index_keys_def sample_fields)
  moreover have "classify_sk (MESSAGE_SK_PREFIX @ ''m1'') = StreamMailMessage"
    by (simp add: classify_sk_def EVENT_SK_PREFIX_def MESSAGE_SK_PREFIX_def AGGREGATE_SK_def)
  ultimately obtain w' where run: "relay_records open_webhook [?r] {} = ([], w')"
    by (auto simp: relay_one_def)
  have "?r \<in> set [?r]" and "rr_event_name ?r = ''INSERT''" and "plain_item (rr_new_image ?r) = message_item ?msg"
    and "rr_sequence_number ?r \<noteq> None" by (simp_all add: img)
  from arrival_announced [OF open_webhook_bus received this run]
  have "\<exists>event :: mail_event. \<lparr>out_detail_type = mev_detail_type event, out_detail = mev_detail event\<rparr> \<in> w'" by blast
  with run show ?thesis by blast
qed

end
