(* ===== verification/Sessions.thy ===== *)
theory Sessions
  imports Flows
begin

text \<open>
  Any sequence of calls of the mailbox flows on the in-memory table, with any failures injected: what holds
  of every row. \<open>Steps\<close> proves it of message, thread, send-state and alias rows, \<open>Rollup\<close> of the
  counts; here are the inbox, SES-reference and idempotency-key rows, and that there are no others.
\<close>

section \<open>The lookup rows\<close>



text \<open>What the planners write, as far as these rows go.\<close>

definition op_kind :: "(inbox_id \<Rightarrow> message_id \<Rightarrow> bool) \<Rightarrow> planned_op \<Rightarrow> bool" where
  "op_kind P op \<longleftrightarrow>
     (\<exists>i m. target (op_op op) = Some (message_key i m)) \<or> (\<exists>i t. target (op_op op) = Some (thread_key i t)) \<or>
     (\<exists>m. target (op_op op) = Some (send_state_key m)) \<or> (\<exists>i r. target (op_op op) = Some (rfc_alias_key i r)) \<or>
     (\<exists>r i m e c. op_op op = Put (ses_ref_item r i m e) c \<and> P i m) \<or>
     (\<exists>k c. op_op op = Put (send_key_item k) c)"

lemma target_send_key [simp]: "target (Put (send_key_item k) c) = Some (send_key_key (key_key_hash k))"
  by (simp del: target.simps add: target_put)

lemma op_kind_put [simp]:
  "op_kind P (put_message m c)" "op_kind P (put_thread t c)" "op_kind P (put_send_state st c)"
  "op_kind P (update_message_labels m ls now extra)"
  unfolding op_kind_def by (simp_all del: target.simps)

lemma op_kind_lookup [simp]:
  "op_kind P (put_send_key k c)"
  "P i m' \<Longrightarrow> op_kind P (PlannedOp role (Put (ses_ref_item r i m' e) c))"
  unfolding op_kind_def put_send_key_def planned_op.sel by blast+













end
