(* ===== verification/Spec2Isabelle.thy ===== *)
theory Spec2Isabelle
  imports Ingested Relay Sessions
begin

text \<open>
  \<^bold>\<open>A verification of aws-messaging-webhook.\<close>

  The program receives mail and delivery events from SES, and text messages, through SNS. It records every
  verified notification in an events table, keeps a mailbox in a mail table and a bucket, serves and sends mail
  through a REST API, and relays the streams of both tables to EventBridge. Every definition is translated from
  the Rust code under \<open>src/crates\<close>; a theory names the files it models in its first text.

  \<^bold>\<open>Theories.\<close> Imports run from the top down.
  \<^item> \<open>Prelude\<close>: strings as bytes, numbers in text, sorted vectors, ordered maps. \<open>Chars\<close>: UTF-8 and the
    predicates of \<open>char\<close>.
  \<^item> Crate \<open>mailbox\<close>: \<open>Domain\<close> (lib.rs), \<open>Labels\<close>, \<open>Send\<close> (states of a send and their transitions),
    \<open>Address\<close>, \<open>Thread\<close> (the rollup of a thread), \<open>Ids\<close> and \<open>MessageIds\<close>, \<open>Calendar\<close> and \<open>Time\<close>,
    \<open>UrlPolicy\<close>, \<open>Build\<close> (the outbound message), \<open>Mime\<close> (the inbound one), \<open>Content\<close> (its document),
    \<open>Wire\<close> (JSON answers).
  \<^item> Crate \<open>mailbox-store\<close>: \<open>Keys\<close>, \<open>Items\<close> (what serde writes and reads), \<open>Plan\<close> (one change as one
    conditional transaction), \<open>Txn\<close> (what a cancellation means), \<open>Table\<close> (the trait), \<open>Memory\<close> (the in-memory
    table), \<open>Mailbox\<close> (the flows).
  \<^item> What holds of the mail table: \<open>Rows\<close> (what a transaction does to rows), \<open>Steps\<close> (the step relation
    \<open>mail_step\<close> and the invariant \<open>table_wf\<close>), \<open>Rollup\<close> (thread counts), \<open>Flows\<close> (every flow refines the
    steps), \<open>Sessions\<close> (every sequence of calls), \<open>Quiet\<close> and \<open>Outcomes\<close> (what a flow answers).
  \<^item> Sending: \<open>Sender\<close> (mail/sender.rs), \<open>Fetch\<close> (mail/fetch.rs), \<open>Objects\<close> (the bucket's interface and keys),
    \<open>Protocol\<close> (senders, sweeps and operators as interleaved processes), \<open>Effects\<close> and \<open>Runs\<close> (a call of the
    sender is a run of one process), \<open>Fakes\<close> (the fakes of the test support crate, and the calls over them).
  \<^item> The REST API for sends: \<open>ApiErrors\<close>, \<open>Validate\<close>, \<open>Enqueue\<close> (spec, uploads, replies, commit),
    \<open>SendRequests\<close> (fingerprints and reply recipients), \<open>Bucket\<close> and \<open>Accepted\<close> (a whole request over the fakes).
  \<^item> Notifications: \<open>Events\<close> (model/), \<open>Sns\<close> (the verifier crate, allowlist and extractor), \<open>EventStore\<close>
    (store.rs, aws/events_table.rs), \<open>Ingest\<close> (mail/ingest.rs) with \<open>Arrivals\<close> and \<open>Ingested\<close>,
    \<open>Frames\<close> and \<open>Pipeline\<close> (actions.rs, sns/mod.rs: what a verified message makes the service do).
  \<^item> Events out: \<open>Publish\<close> (publish.rs), \<open>MailEvents\<close> (mail/events.rs), \<open>Relay\<close> (stream.rs).

  \<^bold>\<open>State and effects.\<close> A struct is a record, an enum a datatype, an integer a word of its width, and a
  \<open>Result\<close> a sum. A stateful operation is a function from a state to an answer and a state, over the record
  of its trait (\<open>'s table\<close>, \<open>'s object_store\<close>, \<open>'w app\<close>, \<open>webhook\<close>). A failure the code can see is a branch. Logging and metrics are left out everywhere.

  \<^bold>\<open>Interfaces.\<close> Each is a locale, interpreted on the model of the code that provides it.
  \<^item> \<open>mail_table\<close> (what a call of the table may do to the rows, others writing between calls),
    \<open>quiet_table\<close> (a table that answers) and \<open>versioned_table\<close>: on \<open>memory_table\<close> (\<open>mem\<close>, \<open>qmem\<close>, \<open>vmem\<close>) and on the
    fakes' table (\<open>fmem\<close>, \<open>qfake\<close>, \<open>vfake\<close>); \<open>table_frame\<close>, what a table call leaves alone (\<open>ffake\<close>, \<open>fclock\<close>).
  \<^item> \<open>sender_backend\<close> (\<open>fsend\<close>), \<open>healthy_bucket\<close> (\<open>fbucket\<close>), \<open>api_backend\<close> (\<open>fapi\<close>).
  \<^item> \<open>ingest_stores\<close> and \<open>ingest_app\<close> (\<open>fingest\<close>), \<open>quiet_stores\<close> and \<open>prompt_app\<close> (\<open>fprompt\<close>),
    \<open>stores_frame\<close> and \<open>app_frame\<close> (\<open>fsilent\<close>).

  \<^bold>\<open>What is shown.\<close> The rows of the mail table stay well formed and threads count their messages whatever
  is called and fails; every flow commits all of one step or nothing. A send is handed to SES at most once more
  than operators ask, and an accepted one is. A refused send leaves no rows or uploads over stores that do
  not fail. A validated request keeps the documented rules. A notification that is acted on has a genuine
  signature; one that is acknowledged is recorded, counted once and moves the status to the highest rung
  reached. Received mail is delivered once, with its document and attachments in the bucket before its row.
  The attachment fetcher reaches public addresses only. Key encodings are injective, stored items and
  timestamps read back. Beside these, the lemmas \<open>notification_recorded\<close>, \<open>suppression_not_skipped\<close> (\<open>Pipeline\<close>),
  \<open>outbound_entry_fits\<close> (\<open>Publish\<close>), \<open>received_event_fits\<close> (\<open>MailEvents\<close>) and \<open>unreported_is_published\<close>
  (\<open>Relay\<close>) follow a notification from its answer to SNS to the event bus.

  \<^bold>\<open>Bounds.\<close> No fuel is added to any loop of the code: the flows retry at most \<open>MAX_TXN_RETRIES\<close> times,
  a fetch follows at most \<open>MAX_REDIRECTS\<close> redirects, \<open>mark_sent\<close> tries \<open>MARK_SENT_ATTEMPTS\<close> times, and these
  are the recursion's own counters; every other loop is over a list. Versions are 64-bit, so the session
  theorem bounds the calls by \<open>2 ^ 64\<close>.

  \<^bold>\<open>Parameters.\<close> Third-party crates and services are arguments: serde_json, mail_parser, mail_builder, the address and
  URL parsers, sha2, uuid, X.509 and RSA, DNS and HTTP, DynamoDB, SES and EventBridge, the clock. What a
  theorem needs of one is a hypothesis of its statement, and its witness instantiates it.

  \<^bold>\<open>Not modelled.\<close> The AWS clients (dynamo_table.rs, sdk_error.rs, aws.rs and aws/ but events_table.rs),
  the opaque page tokens, the API's authentication, key storage, pagination and read handlers, startup and routing (app.rs,
  config.rs, entry.rs, main.rs), logging, metrics, and the HTTP test harness: requests to libraries, or glue
  around the parts above.
\<close>

end
